(* ===== verification/Prelude.thy ===== *)
theory Prelude
  imports Main "HOL-Library.Word"
begin

text \<open>
  Shared vocabulary of the development: the names of the machine integers the server uses,
  the little-endian byte images that \<open>memcpy\<close> of an integer produces on the
  supported targets, a byte-addressed buffer, and the generic lemmas on lists, options and
  words that the component theories share.
\<close>

unbundle bit_operations_syntax

subsection \<open>Machine integers\<close>

type_synonym u8 = "8 word"
type_synonym u16 = "16 word"
type_synonym u32 = "32 word"
type_synonym u64 = "64 word"

named_theorems byte_simps \<open>lengths and round trips of byte images\<close>
named_theorems inv_intros \<open>preservation facts of component invariants\<close>

text \<open>Additions that stay inside the width do not wrap.\<close>

lemma unat_plus_of_nat:
  fixes w :: "'a::len word"
  assumes "unat w + n < 2 ^ LENGTH('a)"
  shows "unat (w + of_nat n) = unat w + n"
proof -
  have "unat (of_nat n :: 'a word) = n"
    using assms by (simp add: unat_of_nat)
  then show ?thesis using assms by (simp add: unat_word_ariths)
qed

lemma unat_minus_of_nat:
  fixes w :: "'a::len word"
  assumes "n \<le> unat w"
  shows "unat (w - of_nat n) = unat w - n"
proof -
  have "n < 2 ^ LENGTH('a)" using assms unsigned_less [of w, where ?'a = nat] by linarith
  then have n: "unat (of_nat n :: 'a word) = n" by (simp add: unat_of_nat)
  then have "(of_nat n :: 'a word) \<le> w" using assms by (simp add: word_le_nat_alt)
  then show ?thesis using n by (simp add: unat_sub)
qed

lemma unat_ucast_up:
  fixes w :: "'a::len word"
  assumes "LENGTH('a) \<le> LENGTH('b)"
  shows "unat (ucast w :: 'b::len word) = unat w"
proof -
  have "unat w < 2 ^ LENGTH('a)" by simp
  also have "(2 :: nat) ^ LENGTH('a) \<le> 2 ^ LENGTH('b)" using assms by simp
  finally show ?thesis by (simp add: unsigned_ucast_eq take_bit_nat_eq_self)
qed

text \<open>A value below \<open>2 ^ n\<close> occupies the low \<open>n\<close> bits only.\<close>

lemma take_bit_small:
  fixes w :: "'a::len word"
  assumes "unat w < 2 ^ n"
  shows "take_bit n w = w"
proof -
  have "unat (take_bit n w) = unat w"
    using assms by (simp add: unsigned_take_bit_eq take_bit_nat_eq_self)
  then show ?thesis by (simp only: word_unat_eq_iff)
qed

lemma not_bit_small:
  fixes w :: "'a::len word"
  assumes "unat w < 2 ^ n" and "n \<le> k"
  shows "\<not> bit w k"
proof -
  have "bit w k = bit (take_bit n w) k" using assms by (simp only: take_bit_small)
  then show ?thesis using assms by (simp add: bit_simps)
qed

subsection \<open>Little-endian byte images\<close>

text \<open>
  \<open>le_bytes n w\<close> is what \<open>memcpy(dst, &w, n)\<close> stores on a little-endian
  target; \<open>of_le\<close> is the integer that \<open>memcpy(&w, src, n)\<close> reads back.
\<close>

fun le_bytes :: "nat \<Rightarrow> 'a::len word \<Rightarrow> u8 list" where
  "le_bytes 0 w = []"
| "le_bytes (Suc n) w = ucast w # le_bytes n (drop_bit 8 w)"

fun of_le :: "u8 list \<Rightarrow> 'a::len word" where
  "of_le [] = 0"
| "of_le (b # bs) = ucast b OR push_bit 8 (of_le bs)"

lemma le_bytes_numeral:
  "le_bytes (numeral k) w = ucast w # le_bytes (pred_numeral k) (drop_bit 8 w)"
  by (simp add: numeral_eq_Suc)

lemma length_le_bytes [simp, byte_simps]: "length (le_bytes n w) = n"
  by (induction n w rule: le_bytes.induct) auto

lemma of_le_le_bytes_take [byte_simps]: "of_le (le_bytes n w) = take_bit (8 * n) (w :: 'a::len word)"
proof (induction n w rule: le_bytes.induct)
  case (1 w)
  then show ?case by simp
next
  case (2 n w)
  then show ?case
    by (auto intro!: bit_word_eqI simp: bit_simps)
qed

lemma of_le_le_bytes [simp, byte_simps]:
  "LENGTH('a) \<le> 8 * n \<Longrightarrow> of_le (le_bytes n w) = (w :: 'a::len word)"
  by (simp add: of_le_le_bytes_take take_bit_word_eq_self)

lemma bit_of_le_bound: "bit (of_le bs :: 'a::len word) k \<Longrightarrow> k < 8 * length bs"
proof (induction bs arbitrary: k)
  case Nil
  then show ?case by simp
next
  case (Cons c cs)
  show ?case
  proof (cases "k < 8")
    case False
    with Cons.prems have "bit (of_le cs :: 'a word) (k - 8)"
      using bit_imp_le_length [of c k] by (auto simp: bit_simps)
    then have "k - 8 < 8 * length cs" by (rule Cons.IH)
    then show ?thesis by simp
  qed simp
qed

lemma le_bytes_of_le:
  assumes "8 * length bs \<le> LENGTH('a)"
  shows "le_bytes (length bs) (of_le bs :: 'a::len word) = bs"
  using assms
proof (induction bs)
  case Nil
  then show ?case by simp
next
  case (Cons b bs)
  have head: "ucast (ucast b OR push_bit 8 (of_le bs) :: 'a word) = b"
    using Cons.prems by (auto intro!: bit_word_eqI simp: bit_simps)
  have tail: "drop_bit 8 (ucast b OR push_bit 8 (of_le bs) :: 'a word) = of_le bs"
  proof (rule bit_word_eqI)
    fix n assume "n < LENGTH('a)"
    have "\<not> bit b (8 + n)" by (auto dest: bit_imp_le_length)
    moreover have "bit (of_le bs :: 'a word) n \<Longrightarrow> 8 + n < LENGTH('a)"
      using bit_of_le_bound [of bs n] Cons.prems by fastforce
    ultimately show "bit (drop_bit 8 (ucast b OR push_bit 8 (of_le bs) :: 'a word)) n
        = bit (of_le bs :: 'a word) n"
      by (auto simp: bit_simps ac_simps)
  qed
  show ?case using Cons head tail by simp
qed

subsection \<open>Byte-addressed buffers\<close>

text \<open>
  A fixed C array of bytes is a function from indices; the models write it only through
  \<open>buf_write\<close>, so the frame lemmas below tell which indices a routine touches.
\<close>

type_synonym buffer = "nat \<Rightarrow> u8"

definition buf_write :: "buffer \<Rightarrow> nat \<Rightarrow> u8 list \<Rightarrow> buffer" where
  "buf_write b p bs = (\<lambda>i. if p \<le> i \<and> i < p + length bs then bs ! (i - p) else b i)"

definition buf_read :: "buffer \<Rightarrow> nat \<Rightarrow> nat \<Rightarrow> u8 list" where
  "buf_read b p n = map b [p..<p + n]"

lemma length_buf_read [simp]: "length (buf_read b p n) = n"
  by (simp add: buf_read_def)

lemma buf_read_0 [simp]: "buf_read b p 0 = []"
  by (simp add: buf_read_def)

lemma buf_read_Suc: "buf_read b p (Suc n) = b p # buf_read b (Suc p) n"
  by (simp add: buf_read_def upt_conv_Cons del: upt_Suc)

lemma buf_read_add: "buf_read b p (m + n) = buf_read b p m @ buf_read b (p + m) n"
proof -
  have "[p..<p + m + n] = [p..<p + m] @ [p + m..<p + m + n]"
    by (rule upt_add_eq_append) simp
  then show ?thesis by (simp add: buf_read_def add.assoc)
qed

lemma buf_read_write [simp]: "buf_read (buf_write b p bs) p (length bs) = bs"
  by (rule nth_equalityI) (auto simp: buf_read_def buf_write_def)

lemma buf_write_outside: "i < p \<or> p + length bs \<le> i \<Longrightarrow> buf_write b p bs i = b i"
  by (auto simp: buf_write_def)

lemma buf_read_write_disjoint:
  "q + n \<le> p \<or> p + length bs \<le> q \<Longrightarrow> buf_read (buf_write b p bs) q n = buf_read b q n"
  by (auto simp: buf_read_def buf_write_def)

lemma buf_write_append:
  "buf_write b p (xs @ ys) = buf_write (buf_write b p xs) (p + length xs) ys"
  by (rule ext) (auto simp: buf_write_def nth_append)

lemma buf_write_Nil [simp]: "buf_write b p [] = b"
  by (rule ext) (auto simp: buf_write_def)

subsection \<open>Lists\<close>

text \<open>
  \<open>find_index p xs\<close> is the position \<open>std::find_if\<close> stops at, \<open>length xs\<close>
  standing for the end iterator; \<open>erase_at\<close> is \<open>std::vector::erase\<close> of one
  iterator.
\<close>

fun find_index :: "('a \<Rightarrow> bool) \<Rightarrow> 'a list \<Rightarrow> nat" where
  "find_index p [] = 0"
| "find_index p (x # xs) = (if p x then 0 else Suc (find_index p xs))"

definition erase_at :: "nat \<Rightarrow> 'a list \<Rightarrow> 'a list" where
  "erase_at i xs = take i xs @ drop (Suc i) xs"

lemma find_index_le: "find_index p xs \<le> length xs"
  by (induction xs) auto

lemma find_index_less: "find_index p xs < length xs \<longleftrightarrow> (\<exists>x\<in>set xs. p x)"
  by (induction xs) auto

lemma find_index_nth: "find_index p xs < length xs \<Longrightarrow> p (xs ! find_index p xs)"
  by (induction xs) auto

lemma find_index_before: "i < find_index p xs \<Longrightarrow> \<not> p (xs ! i)"
  by (induction xs arbitrary: i) (auto simp: nth_Cons split: nat.splits if_splits)

lemma erase_first_remove1:
  "find_index (\<lambda>y. y = x) xs < length xs \<Longrightarrow> erase_at (find_index (\<lambda>y. y = x) xs) xs = remove1 x xs"
  by (induction xs) (auto simp: erase_at_def)

lemma length_erase_at: "i < length xs \<Longrightarrow> length (erase_at i xs) = length xs - 1"
  by (simp add: erase_at_def)

lemma set_erase_at: "set (erase_at i xs) \<subseteq> set xs"
  by (auto simp: erase_at_def dest: in_set_takeD in_set_dropD)

lemma sum_list_update_int:
  "i < length xs \<Longrightarrow> sum_list (xs[i := (v::int)]) = sum_list xs - xs ! i + v"
  by (induction xs arbitrary: i) (auto split: nat.splits)

subsection \<open>Coins\<close>

definition ITEM_GOLD_COIN :: u16 where "ITEM_GOLD_COIN = 3031"
definition ITEM_PLATINUM_COIN :: u16 where "ITEM_PLATINUM_COIN = 3035"
definition ITEM_CRYSTAL_COIN :: u16 where "ITEM_CRYSTAL_COIN = 3043"

end
