(* ===== verification/Positions.thy ===== *)
theory Positions
  imports Prelude
begin

text \<open>
  Map positions and directions (\<open>game/movement/position.hpp\<close>): a position is two 16-bit
  coordinates and an 8-bit floor; offsets and distances are computed in a wider signed type,
  so they are integers here; the additive operators narrow back and wrap.
\<close>

datatype direction =
    DIRECTION_NORTH | DIRECTION_EAST | DIRECTION_SOUTH | DIRECTION_WEST
  | DIRECTION_SOUTHWEST | DIRECTION_SOUTHEAST | DIRECTION_NORTHWEST | DIRECTION_NORTHEAST
  | DIRECTION_NONE

fun direction_code :: "direction \<Rightarrow> u8" where
  "direction_code DIRECTION_NORTH = 0"
| "direction_code DIRECTION_EAST = 1"
| "direction_code DIRECTION_SOUTH = 2"
| "direction_code DIRECTION_WEST = 3"
| "direction_code DIRECTION_SOUTHWEST = 4 OR 0"
| "direction_code DIRECTION_SOUTHEAST = 4 OR 1"
| "direction_code DIRECTION_NORTHWEST = 4 OR 2"
| "direction_code DIRECTION_NORTHEAST = 4 OR 3"
| "direction_code DIRECTION_NONE = 8"

datatype position = Position (px: u16) (py: u16) (pz: u8)

definition getX :: "position \<Rightarrow> int" where "getX p = uint (px p)"
definition getY :: "position \<Rightarrow> int" where "getY p = uint (py p)"
definition getZ :: "position \<Rightarrow> int" where "getZ p = uint (pz p)"

definition getOffsetX :: "position \<Rightarrow> position \<Rightarrow> int" where
  "getOffsetX p1 p2 = getX p1 - getX p2"

definition getOffsetY :: "position \<Rightarrow> position \<Rightarrow> int" where
  "getOffsetY p1 p2 = getY p1 - getY p2"

definition getOffsetZ :: "position \<Rightarrow> position \<Rightarrow> int" where
  "getOffsetZ p1 p2 = getZ p1 - getZ p2"

definition getDistanceX :: "position \<Rightarrow> position \<Rightarrow> int" where
  "getDistanceX p1 p2 = \<bar>getOffsetX p1 p2\<bar>"

definition getDistanceY :: "position \<Rightarrow> position \<Rightarrow> int" where
  "getDistanceY p1 p2 = \<bar>getOffsetY p1 p2\<bar>"

definition getDistanceZ :: "position \<Rightarrow> position \<Rightarrow> int" where
  "getDistanceZ p1 p2 = \<bar>getOffsetZ p1 p2\<bar>"

definition getDiagonalDistance :: "position \<Rightarrow> position \<Rightarrow> int" where
  "getDiagonalDistance p1 p2 = max (getDistanceX p1 p2) (getDistanceY p1 p2)"

definition areInRange2 :: "int \<Rightarrow> int \<Rightarrow> position \<Rightarrow> position \<Rightarrow> bool" where
  "areInRange2 dx dy p1 p2 \<longleftrightarrow> getDistanceX p1 p2 \<le> dx \<and> getDistanceY p1 p2 \<le> dy"

definition areInRange3 :: "int \<Rightarrow> int \<Rightarrow> int \<Rightarrow> position \<Rightarrow> position \<Rightarrow> bool" where
  "areInRange3 dx dy dz p1 p2 \<longleftrightarrow>
     getDistanceX p1 p2 \<le> dx \<and> getDistanceY p1 p2 \<le> dy \<and> getDistanceZ p1 p2 \<le> dz"

lemmas distance_defs = getDistanceX_def getDistanceY_def getDistanceZ_def
  getOffsetX_def getOffsetY_def getOffsetZ_def getX_def getY_def getZ_def

subsection \<open>The order of positions: floor first, then row, then column\<close>

definition pos_less :: "position \<Rightarrow> position \<Rightarrow> bool" where
  "pos_less p q \<longleftrightarrow> pz p < pz q \<or> (pz p = pz q \<and> py p < py q)
     \<or> (pz p = pz q \<and> py p = py q \<and> px p < px q)"

definition pos_greater :: "position \<Rightarrow> position \<Rightarrow> bool" where
  "pos_greater p q \<longleftrightarrow> \<not> pos_less p q"

instantiation position :: linorder
begin

definition less_position :: "position \<Rightarrow> position \<Rightarrow> bool" where
  "less_position p q \<longleftrightarrow> pos_less p q"

definition less_eq_position :: "position \<Rightarrow> position \<Rightarrow> bool" where
  "less_eq_position p q \<longleftrightarrow> pos_less p q \<or> p = q"

instance
proof
  fix x y z :: position
  show "x < y \<longleftrightarrow> x \<le> y \<and> \<not> y \<le> x"
    by (auto simp: less_position_def less_eq_position_def pos_less_def)
  show "x \<le> x" by (simp add: less_eq_position_def)
  show "x \<le> y \<Longrightarrow> y \<le> z \<Longrightarrow> x \<le> z"
    by (auto simp: less_eq_position_def pos_less_def)
  show "x \<le> y \<Longrightarrow> y \<le> x \<Longrightarrow> x = y"
    by (auto simp: less_eq_position_def pos_less_def)
  show "x \<le> y \<or> y \<le> x"
    by (cases x; cases y) (auto simp: less_eq_position_def pos_less_def)
qed

end

definition pos_add :: "position \<Rightarrow> position \<Rightarrow> position" where
  "pos_add p q = Position (px p + px q) (py p + py q) (pz p + pz q)"

definition pos_sub :: "position \<Rightarrow> position \<Rightarrow> position" where
  "pos_sub p q = Position (px p - px q) (py p - py q) (pz p - pz q)"

lemma pos_add_sub [simp]: "pos_sub (pos_add p q) q = p"
  by (simp add: pos_add_def pos_sub_def)

definition pos_hash :: "position \<Rightarrow> u64" where
  "pos_hash p = ucast (px p) OR push_bit 16 (ucast (py p)) OR push_bit 32 (ucast (pz p))"

lemma pos_hash_parts:
  "px p = ucast (pos_hash p)" "py p = ucast (drop_bit 16 (pos_hash p))"
  "pz p = ucast (drop_bit 32 (pos_hash p))"
proof -
  have "\<not> bit (px p) (16 + n)" "\<not> bit (px p) (32 + n)" "\<not> bit (py p) (16 + n)" for n
    using bit_imp_le_length [of "px p"] bit_imp_le_length [of "py p"] by fastforce+
  then show "px p = ucast (pos_hash p)" "py p = ucast (drop_bit 16 (pos_hash p))"
    "pz p = ucast (drop_bit 32 (pos_hash p))"
    by (auto intro!: bit_word_eqI simp: pos_hash_def bit_simps)
qed

text \<open>The hash of a position packs its three coordinates into disjoint bit fields of the
  64-bit value, so two positions hash alike exactly when they are equal.\<close>

lemma pos_hash_inject: "pos_hash p = pos_hash q \<longleftrightarrow> p = q"
  using pos_hash_parts [of p] pos_hash_parts [of q] by (metis position.expand)

lemma distance_sym:
  "getDistanceX p q = getDistanceX q p" "getDistanceY p q = getDistanceY q p"
  "getDistanceZ p q = getDistanceZ q p"
  by (simp_all add: distance_defs abs_minus_commute)

lemma distance_nonneg [simp]:
  "0 \<le> getDistanceX p q" "0 \<le> getDistanceY p q" "0 \<le> getDistanceZ p q"
  by (simp_all add: distance_defs)

lemma distance_self [simp]:
  "getDistanceX p p = 0" "getDistanceY p p = 0" "getDistanceZ p p = 0"
  by (simp_all add: distance_defs)

lemma diagonal_triangle:
  "getDiagonalDistance p r \<le> getDiagonalDistance p q + getDiagonalDistance q r"
  unfolding getDiagonalDistance_def distance_defs by linarith

end
