(* ===== verification/Net_Message.thy ===== *)
theory Net_Message
  imports Prelude Positions
begin

text \<open>
  The byte buffer of one packet (\<open>server/network/message/networkmessage.hpp\<close> and
  \<open>.cpp\<close>) and its outgoing extension (\<open>outputmessage.hpp\<close>). Reading and writing
  move a 16-bit cursor over a fixed array of 65500 bytes; \<open>canRead\<close> and
  \<open>canAdd\<close> are the only bounds checks. The record is extensible, so an outgoing
  message is a message with one more field.
\<close>

abbreviation NETWORKMESSAGE_MAXSIZE :: nat where "NETWORKMESSAGE_MAXSIZE \<equiv> 65500"
abbreviation MAX_BODY_LENGTH :: nat where "MAX_BODY_LENGTH \<equiv> NETWORKMESSAGE_MAXSIZE - 2 - 4 - 8"
abbreviation INITIAL_BUFFER_POSITION :: u16 where "INITIAL_BUFFER_POSITION \<equiv> 8"

record netmsg =
  nm_length :: u16
  nm_position :: u16
  nm_overrun :: bool
  nm_buffer :: buffer

definition sizeof :: "'a::len itself \<Rightarrow> nat" where
  "sizeof (t :: 'a itself) = LENGTH('a) div 8"

lemma sizeof_simps [simp]:
  "sizeof TYPE(8) = 1" "sizeof TYPE(16) = 2" "sizeof TYPE(32) = 4" "sizeof TYPE(64) = 8"
  by (simp_all add: sizeof_def)

definition nm_reset :: "'m netmsg_scheme \<Rightarrow> 'm netmsg_scheme" where
  "nm_reset m = m\<lparr>nm_length := 0, nm_position := INITIAL_BUFFER_POSITION, nm_overrun := False\<rparr>"

definition canAdd :: "'m netmsg_scheme \<Rightarrow> nat \<Rightarrow> bool" where
  "canAdd m sz \<longleftrightarrow> (sz + unat (nm_position m)) mod 2 ^ 64 < MAX_BODY_LENGTH"

definition canRead :: "'m netmsg_scheme \<Rightarrow> int \<Rightarrow> bool \<times> 'm netmsg_scheme" where
  "canRead m sz =
     (if uint (nm_position m) + sz > uint (nm_length m) + 8
         \<or> sz \<ge> int NETWORKMESSAGE_MAXSIZE - uint (nm_position m)
      then (False, m\<lparr>nm_overrun := True\<rparr>) else (True, m))"

subsection \<open>Reading\<close>

definition nm_getByte :: "'m netmsg_scheme \<Rightarrow> u8 \<times> 'm netmsg_scheme" where
  "nm_getByte m = (case canRead m 1 of
       (False, m') \<Rightarrow> (0, m')
     | (True, m') \<Rightarrow> (nm_buffer m' (unat (nm_position m')), m'\<lparr>nm_position := nm_position m' + 1\<rparr>))"

definition nm_getPreviousByte :: "'m netmsg_scheme \<Rightarrow> u8 \<times> 'm netmsg_scheme" where
  "nm_getPreviousByte m =
     (let p = nm_position m - 1 in (nm_buffer m (unat p), m\<lparr>nm_position := p\<rparr>))"

definition nm_get :: "'m netmsg_scheme \<Rightarrow> 'a::len word \<times> 'm netmsg_scheme" where
  "nm_get m = (let n = sizeof TYPE('a) in case canRead m (int n) of
       (False, m') \<Rightarrow> (0, m')
     | (True, m') \<Rightarrow> (of_le (buf_read (nm_buffer m') (unat (nm_position m')) n),
                     m'\<lparr>nm_position := nm_position m' + of_nat n\<rparr>))"

definition nm_getString :: "u16 \<Rightarrow> 'm netmsg_scheme \<Rightarrow> u8 list \<times> 'm netmsg_scheme" where
  "nm_getString len0 m =
     (let (len, m1) = (if len0 = 0 then nm_get m else (len0, m)) in
      case canRead m1 (uint len) of
        (False, m2) \<Rightarrow> ([], m2)
      | (True, m2) \<Rightarrow> (buf_read (nm_buffer m2) (unat (nm_position m2)) (unat len),
                      m2\<lparr>nm_position := nm_position m2 + len\<rparr>))"

definition nm_getPosition :: "'m netmsg_scheme \<Rightarrow> position \<times> 'm netmsg_scheme" where
  "nm_getPosition m =
     (let (x, m1) = nm_get m; (y, m2) = nm_get m1; (z, m3) = nm_getByte m2
      in (Position x y z, m3))"

definition nm_skipBytes :: "16 word \<Rightarrow> 'm netmsg_scheme \<Rightarrow> 'm netmsg_scheme" where
  "nm_skipBytes count m = m\<lparr>nm_position := nm_position m + count\<rparr>"

definition nm_decodeHeader :: "'m netmsg_scheme \<Rightarrow> int \<times> 'm netmsg_scheme" where
  "nm_decodeHeader m =
     (let newSize = (ucast (nm_buffer m 0) OR push_bit 8 (ucast (nm_buffer m 1)) :: u32)
      in (uint (ucast newSize :: u16), m\<lparr>nm_length := ucast newSize\<rparr>))"

definition nm_getLengthHeader :: "'m netmsg_scheme \<Rightarrow> u16" where
  "nm_getLengthHeader m = ucast (nm_buffer m 0) OR push_bit 8 (ucast (nm_buffer m 1))"

definition nm_getBodyBuffer :: "'m netmsg_scheme \<Rightarrow> nat \<times> 'm netmsg_scheme" where
  "nm_getBodyBuffer m = (2, m\<lparr>nm_position := 2\<rparr>)"

subsection \<open>Writing\<close>

definition nm_addByte :: "u8 \<Rightarrow> 'm netmsg_scheme \<Rightarrow> 'm netmsg_scheme" where
  "nm_addByte v m =
     (if \<not> canAdd m 1 then m
      else m\<lparr>nm_buffer := buf_write (nm_buffer m) (unat (nm_position m)) [v],
             nm_position := nm_position m + 1, nm_length := nm_length m + 1\<rparr>)"

definition nm_put :: "u8 list \<Rightarrow> 'm netmsg_scheme \<Rightarrow> 'm netmsg_scheme" where
  \<comment> \<open>the copy and the two cursor updates that end every multi-byte write\<close>
  "nm_put bs m =
     m\<lparr>nm_buffer := buf_write (nm_buffer m) (unat (nm_position m)) bs,
       nm_position := nm_position m + of_nat (length bs),
       nm_length := nm_length m + of_nat (length bs)\<rparr>"

definition nm_add :: "'a::len word \<Rightarrow> 'm netmsg_scheme \<Rightarrow> 'm netmsg_scheme" where
  "nm_add v m =
     (let n = sizeof TYPE('a) in if \<not> canAdd m n then m else nm_put (le_bytes n v) m)"

definition nm_addBytes :: "u8 list option \<Rightarrow> 'm netmsg_scheme \<Rightarrow> 'm netmsg_scheme" where
  "nm_addBytes bytes m = (case bytes of None \<Rightarrow> m | Some bs \<Rightarrow>
     if \<not> canAdd m (length bs) then m
     else if length bs > NETWORKMESSAGE_MAXSIZE then m
     else nm_put bs m)"

definition nm_addString :: "u8 list \<Rightarrow> 'm netmsg_scheme \<Rightarrow> 'm netmsg_scheme" where
  "nm_addString value m =
     (let stringLen = length value in
      if \<not> canAdd m (stringLen + 2) then m
      else if stringLen > NETWORKMESSAGE_MAXSIZE then m
      else nm_put value (nm_add (of_nat stringLen :: u16) m))"

definition nm_addPaddingBytes :: "nat \<Rightarrow> 'm netmsg_scheme \<Rightarrow> 'm netmsg_scheme" where
  "nm_addPaddingBytes n m =
     (if \<not> ((n + unat (nm_position m)) mod 2 ^ 64 < NETWORKMESSAGE_MAXSIZE) then m
      else m\<lparr>nm_buffer := buf_write (nm_buffer m) (unat (nm_position m)) (replicate n 0x33),
             nm_length := nm_length m + of_nat n\<rparr>)"

definition nm_addPosition :: "position \<Rightarrow> 'm netmsg_scheme \<Rightarrow> 'm netmsg_scheme" where
  "nm_addPosition p m = nm_addByte (pz p) (nm_add (py p) (nm_add (px p) m))"

subsection \<open>Outgoing messages\<close>

record outmsg = netmsg +
  om_start :: u16

definition new_outmsg :: "buffer \<Rightarrow> outmsg" where
  "new_outmsg b = \<lparr>nm_length = 0, nm_position = INITIAL_BUFFER_POSITION, nm_overrun = False,
     nm_buffer = b, om_start = INITIAL_BUFFER_POSITION\<rparr>"

text \<open>The assertion of \<open>add_header\<close> is the \<open>None\<close> branch.\<close>

definition om_add_header :: "'a::len word \<Rightarrow> outmsg \<Rightarrow> outmsg option" where
  "om_add_header h m =
     (let n = sizeof TYPE('a) in
      if unat (om_start m) < n then None
      else let s = om_start m - of_nat n in
        Some (m\<lparr>om_start := s,
                nm_buffer := buf_write (nm_buffer m) (unat s) (le_bytes n h),
                nm_length := nm_length m + of_nat n\<rparr>))"

definition om_writeMessageLength :: "outmsg \<Rightarrow> outmsg option" where
  "om_writeMessageLength m = om_add_header (nm_length m) m"

definition om_addCryptoHeader :: "bool \<Rightarrow> u32 \<Rightarrow> outmsg \<Rightarrow> outmsg option" where
  "om_addCryptoHeader addChecksum checksum m =
     Option.bind (if addChecksum then om_add_header checksum m else Some m) om_writeMessageLength"

definition om_append :: "'m netmsg_scheme \<Rightarrow> outmsg \<Rightarrow> outmsg" where
  "om_append msg m =
     (let n = unat (nm_length msg) in
      m\<lparr>nm_buffer := buf_write (nm_buffer m) (unat (nm_position m)) (buf_read (nm_buffer msg) 8 n),
        nm_length := nm_length m + nm_length msg,
        nm_position := nm_position m + nm_length msg\<rparr>)"

subsection \<open>Writes stay inside the array\<close>

text \<open>One write of a handler, and a whole sequence of them.\<close>

datatype field = FByte u8 | FU16 u16 | FU32 u32 | FU64 u64 | FString "u8 list" | FPosition position

fun write_field :: "field \<Rightarrow> 'm netmsg_scheme \<Rightarrow> 'm netmsg_scheme" where
  "write_field (FByte b) m = nm_addByte b m"
| "write_field (FU16 w) m = nm_add w m"
| "write_field (FU32 w) m = nm_add w m"
| "write_field (FU64 w) m = nm_add w m"
| "write_field (FString s) m = nm_addString s m"
| "write_field (FPosition p) m = nm_addPosition p m"

definition write_fields :: "field list \<Rightarrow> 'm netmsg_scheme \<Rightarrow> 'm netmsg_scheme" where
  "write_fields fs m = fold write_field fs m"

text \<open>
  The cursor invariant of a message under construction: the body starts at index 8, its
  length is the distance of the cursor from there, and the cursor is inside the body area.
\<close>

definition msg_ok :: "'m netmsg_scheme \<Rightarrow> bool" where
  "msg_ok m \<longleftrightarrow> unat (nm_position m) = unat (nm_length m) + 8
     \<and> unat (nm_position m) < MAX_BODY_LENGTH"

lemma nm_put_ok:
  assumes "msg_ok m" and "length bs + unat (nm_position m) < MAX_BODY_LENGTH"
  shows "msg_ok (nm_put bs m)"
    and "unat (nm_position (nm_put bs m)) = unat (nm_position m) + length bs"
    and "unat (nm_length (nm_put bs m)) = unat (nm_length m) + length bs"
proof -
  show p: "unat (nm_position (nm_put bs m)) = unat (nm_position m) + length bs"
    using assms by (simp add: nm_put_def unat_plus_of_nat)
  show l: "unat (nm_length (nm_put bs m)) = unat (nm_length m) + length bs"
    using assms by (simp add: nm_put_def msg_ok_def unat_plus_of_nat)
  show "msg_ok (nm_put bs m)"
    using assms p l by (simp add: msg_ok_def)
qed

lemma canAdd_small:
  "n \<le> NETWORKMESSAGE_MAXSIZE + 2 \<Longrightarrow> canAdd m n \<longleftrightarrow> n + unat (nm_position m) < MAX_BODY_LENGTH"
  using unsigned_less [of "nm_position m", where ?'a = nat] by (simp add: canAdd_def)

lemma nm_addByte_put: "nm_addByte v m = (if canAdd m 1 then nm_put [v] m else m)"
  by (simp add: nm_addByte_def nm_put_def)

text \<open>The bytes a field takes on the wire.\<close>

fun field_bytes :: "field \<Rightarrow> u8 list" where
  "field_bytes (FByte b) = [b]"
| "field_bytes (FU16 w) = le_bytes 2 w"
| "field_bytes (FU32 w) = le_bytes 4 w"
| "field_bytes (FU64 w) = le_bytes 8 w"
| "field_bytes (FString s) = le_bytes 2 (of_nat (length s) :: u16) @ s"
| "field_bytes (FPosition p) = le_bytes 2 (px p) @ le_bytes 2 (py p) @ [pz p]"

lemma nm_put_put: "nm_put ys (nm_put xs m) = nm_put (xs @ ys) m"
  if "length xs + unat (nm_position m) < 65536"
  using that by (simp add: nm_put_def buf_write_append unat_plus_of_nat add.assoc)

lemma nm_position_put: "length xs + unat (nm_position m) < 65536 \<Longrightarrow>
    unat (nm_position (nm_put xs m)) = unat (nm_position m) + length xs"
  by (simp add: nm_put_def unat_plus_of_nat)

text \<open>
  A write whose bytes fit stores exactly its image; one whose bytes do not fit stores a
  prefix of it (a position may lose its last coordinates, every other field is dropped).
\<close>

lemma write_field_fits:
  assumes "length (field_bytes f) + unat (nm_position m) < MAX_BODY_LENGTH"
  shows "write_field f m = nm_put (field_bytes f) m"
  using assms
  by (cases f)
    (simp_all add: nm_addByte_put nm_add_def nm_addString_def nm_addPosition_def canAdd_small
      nm_put_put nm_position_put Let_def)

lemma canAdd_big_string:
  "canAdd m (n + 2) \<Longrightarrow> n \<le> NETWORKMESSAGE_MAXSIZE \<Longrightarrow> n + 2 + unat (nm_position m) < MAX_BODY_LENGTH"
  by (simp add: canAdd_small)

lemma write_field_prefix:
  "\<exists>bs. write_field f m = nm_put bs m \<and> (bs = [] \<or> length bs + unat (nm_position m) < MAX_BODY_LENGTH)"
proof (cases f)
  case (FString s)
  show ?thesis
  proof (cases "canAdd m (length s + 2) \<and> length s \<le> NETWORKMESSAGE_MAXSIZE")
    case True
    then have "length (field_bytes f) + unat (nm_position m) < MAX_BODY_LENGTH"
      using canAdd_big_string [of m "length s"] FString by simp
    then show ?thesis using write_field_fits by blast
  next
    case False
    then have "write_field f m = nm_put [] m"
      using FString by (auto simp: nm_addString_def nm_put_def Let_def)
    then show ?thesis by blast
  qed
next
  case (FPosition p)
  let ?n = "unat (nm_position m)"
  consider "5 + ?n < MAX_BODY_LENGTH" | "4 + ?n = MAX_BODY_LENGTH - 1" | "?n + 3 = MAX_BODY_LENGTH - 1"
    | "?n + 2 = MAX_BODY_LENGTH - 1" | "?n + 1 = MAX_BODY_LENGTH - 1" | "MAX_BODY_LENGTH - 1 \<le> ?n"
    by linarith
  then show ?thesis
  proof cases
    case 1
    then have "length (field_bytes f) + ?n < MAX_BODY_LENGTH" using FPosition by simp
    then show ?thesis using write_field_fits by blast
  next
    case 2
    then have "write_field f m = nm_put (le_bytes 2 (px p) @ le_bytes 2 (py p)) m"
      using FPosition by (simp add: nm_addPosition_def nm_add_def nm_addByte_put canAdd_small
        nm_put_put nm_position_put Let_def)
    then show ?thesis using 2 by fastforce
  next
    case 3
    then have "write_field f m = nm_put (le_bytes 2 (px p) @ [pz p]) m"
      using FPosition by (simp add: nm_addPosition_def nm_add_def nm_addByte_put canAdd_small
        nm_put_put nm_position_put Let_def)
    then show ?thesis using 3 by fastforce
  next
    case 4
    then have "write_field f m = nm_put (le_bytes 2 (px p)) m"
      using FPosition by (simp add: nm_addPosition_def nm_add_def nm_addByte_put canAdd_small
        nm_put_put nm_position_put Let_def)
    then show ?thesis using 4 by fastforce
  next
    case 5
    then have "write_field f m = nm_put [pz p] m"
      using FPosition by (simp add: nm_addPosition_def nm_add_def nm_addByte_put canAdd_small
        nm_put_put nm_position_put Let_def)
    then show ?thesis using 5 by fastforce
  next
    case 6
    then have "write_field f m = nm_put [] m"
      using FPosition by (simp add: nm_addPosition_def nm_add_def nm_addByte_put canAdd_small
        nm_put_put nm_position_put Let_def nm_put_def)
    then show ?thesis by blast
  qed
qed (auto simp: nm_addByte_put nm_add_def canAdd_small Let_def nm_put_def
    intro: exI [of _ "[]"] exI [of _ "field_bytes f"])

lemma write_field_ok [inv_intros]: "msg_ok m \<Longrightarrow> msg_ok (write_field f m)"
  using write_field_prefix [of f m] nm_put_ok(1) [of m] by (force simp: nm_put_def)

lemma nm_put_frame:
  assumes "bs = [] \<or> length bs + unat (nm_position m) < MAX_BODY_LENGTH"
    and "i < unat (nm_position m) \<or> MAX_BODY_LENGTH \<le> i"
  shows "nm_buffer (nm_put bs m) i = nm_buffer m i"
  using assms by (auto simp: nm_put_def buf_write_outside)

lemma write_field_frame:
  assumes "msg_ok m" "i < unat (nm_position m) \<or> MAX_BODY_LENGTH \<le> i"
  shows "nm_buffer (write_field f m) i = nm_buffer m i"
    and "unat (nm_position m) \<le> unat (nm_position (write_field f m))"
proof -
  obtain bs where w: "write_field f m = nm_put bs m"
    and b: "bs = [] \<or> length bs + unat (nm_position m) < MAX_BODY_LENGTH"
    using write_field_prefix by blast
  show "nm_buffer (write_field f m) i = nm_buffer m i"
    using nm_put_frame [OF b assms(2)] w by simp
  show "unat (nm_position m) \<le> unat (nm_position (write_field f m))"
    using b w nm_put_ok(2) [OF assms(1)] by (auto simp: nm_put_def)
qed

lemma write_fields_frame:
  "msg_ok m \<Longrightarrow> i < unat (nm_position m) \<or> MAX_BODY_LENGTH \<le> i \<Longrightarrow>
   msg_ok (write_fields fs m) \<and> nm_buffer (write_fields fs m) i = nm_buffer m i"
proof (induction fs arbitrary: m)
  case Nil
  then show ?case by (simp add: write_fields_def)
next
  case (Cons f fs)
  let ?m = "write_field f m"
  have "i < unat (nm_position ?m) \<or> MAX_BODY_LENGTH \<le> i"
    using write_field_frame(2) [OF Cons.prems] Cons.prems(2) by (meson less_le_trans)
  then show ?case
    using Cons.IH [of ?m] write_field_ok [OF Cons.prems(1)] write_field_frame(1) [OF Cons.prems]
    by (simp add: write_fields_def)
qed

text \<open>C1: whatever sequence of \<open>addByte\<close>, \<open>add<T>\<close>, \<open>addString\<close> and
  \<open>addPosition\<close> calls a handler makes on a fresh message, with any values and strings of any
  length, no byte of the buffer outside the body area \<open>[8, MAX_BODY_LENGTH)\<close> is written, and
  the cursor stays equal to the body length plus 8.\<close>

theorem writes_stay_in_buffer:
  "msg_ok (write_fields fs (nm_reset m))
   \<and> (i < 8 \<or> MAX_BODY_LENGTH \<le> i \<longrightarrow> nm_buffer (write_fields fs (nm_reset m)) i = nm_buffer m i)"
proof -
  have ok: "msg_ok (nm_reset m)" and p: "unat (nm_position (nm_reset m)) = 8"
    by (simp_all add: msg_ok_def nm_reset_def)
  show ?thesis
    using write_fields_frame [OF ok, of 0 fs] write_fields_frame [OF ok, of i fs] p
    by (auto simp: nm_reset_def)
qed

theorem writes_stay_in_buffer_witness:
  "nm_buffer (write_fields [FU16 513, FString [65, 66]] (nm_reset
     \<lparr>nm_length = 9, nm_position = 77, nm_overrun = True, nm_buffer = (\<lambda>_. 0)\<rparr>)) 65490 = (0 :: u8)"
  using writes_stay_in_buffer [of "[FU16 513, FString [65, 66]]"
     "\<lparr>nm_length = 9, nm_position = 77, nm_overrun = True, nm_buffer = (\<lambda>_. 0)\<rparr>" 65490]
  by simp

subsection \<open>Reading back what was written\<close>

datatype shape = SByte | SU16 | SU32 | SU64 | SString | SPosition

fun field_shape :: "field \<Rightarrow> shape" where
  "field_shape (FByte _) = SByte"
| "field_shape (FU16 _) = SU16"
| "field_shape (FU32 _) = SU32"
| "field_shape (FU64 _) = SU64"
| "field_shape (FString _) = SString"
| "field_shape (FPosition _) = SPosition"

fun read_field :: "shape \<Rightarrow> 'm netmsg_scheme \<Rightarrow> field \<times> 'm netmsg_scheme" where
  "read_field SByte m = map_prod FByte id (nm_getByte m)"
| "read_field SU16 m = map_prod FU16 id (nm_get m)"
| "read_field SU32 m = map_prod FU32 id (nm_get m)"
| "read_field SU64 m = map_prod FU64 id (nm_get m)"
| "read_field SString m = map_prod FString id (nm_getString 0 m)"
| "read_field SPosition m = map_prod FPosition id (nm_getPosition m)"

fun read_fields :: "shape list \<Rightarrow> 'm netmsg_scheme \<Rightarrow> field list \<times> 'm netmsg_scheme" where
  "read_fields [] m = ([], m)"
| "read_fields (s # ss) m =
     (let (f, m1) = read_field s m; (fs, m2) = read_fields ss m1 in (f # fs, m2))"

text \<open>Reading moves the cursor over bytes that are inside the message.\<close>

definition nm_advance :: "nat \<Rightarrow> 'm netmsg_scheme \<Rightarrow> 'm netmsg_scheme" where
  "nm_advance n m = m\<lparr>nm_position := nm_position m + of_nat n\<rparr>"

definition readable :: "'m netmsg_scheme \<Rightarrow> nat \<Rightarrow> bool" where
  "readable m n \<longleftrightarrow> unat (nm_position m) + n \<le> unat (nm_length m) + 8
     \<and> unat (nm_position m) + n < NETWORKMESSAGE_MAXSIZE"

lemma canRead_readable [simp]: "readable m n \<Longrightarrow> canRead m (int n) = (True, m)"
proof -
  assume r: "readable m n"
  then have "int (unat (nm_position m) + n) \<le> int (unat (nm_length m) + 8)"
    and "int (unat (nm_position m) + n) < int NETWORKMESSAGE_MAXSIZE"
    unfolding readable_def of_nat_le_iff of_nat_less_iff by blast+
  then show ?thesis by (simp add: canRead_def)
qed

lemma canRead_readable_1 [simp]: "readable m (Suc 0) \<Longrightarrow> canRead m 1 = (True, m)"
  using canRead_readable [of m 1] by simp

lemma advance_simps [simp]:
  "nm_buffer (nm_advance n m) = nm_buffer m" "nm_length (nm_advance n m) = nm_length m"
  "unat (nm_position m) + n < 65536 \<Longrightarrow> unat (nm_position (nm_advance n m)) = unat (nm_position m) + n"
  by (simp_all add: nm_advance_def unat_plus_of_nat)

lemma advance_advance: "nm_advance k (nm_advance n m) = nm_advance (n + k) m"
  by (simp add: nm_advance_def add.assoc)

lemma readable_advance: "readable m (n + k) \<Longrightarrow> readable (nm_advance n m) k"
  by (simp add: readable_def)

lemma readable_less: "readable m k \<Longrightarrow> n \<le> k \<Longrightarrow> readable m n"
  by (simp add: readable_def)

definition next_bytes :: "'m netmsg_scheme \<Rightarrow> nat \<Rightarrow> u8 list" where
  "next_bytes m n = buf_read (nm_buffer m) (unat (nm_position m)) n"

lemma next_bytes_append:
  assumes "next_bytes m (length xs + length ys) = xs @ ys" "readable m (length xs + length ys)"
  shows "next_bytes m (length xs) = xs \<and> next_bytes (nm_advance (length xs) m) (length ys) = ys"
proof -
  have "unat (nm_position m) + length xs < 65536" using assms(2) by (simp add: readable_def)
  then show ?thesis
    using assms(1) by (simp add: next_bytes_def buf_read_add)
qed

lemma nm_get_next:
  fixes w :: "'a::len word"
  assumes "next_bytes m n = le_bytes n w" "readable m n" "n = sizeof TYPE('a)" "LENGTH('a) = 8 * n"
  shows "nm_get m = (w, nm_advance n m)"
proof -
  have "of_le (buf_read (nm_buffer m) (unat (nm_position m)) n) = w"
    using assms(1,4) by (simp add: next_bytes_def)
  then show ?thesis
    unfolding nm_get_def Let_def assms(3) [symmetric] using assms(2) by (simp add: nm_advance_def)
qed

lemma nm_getByte_next:
  assumes "next_bytes m (Suc 0) = [b]" "readable m (Suc 0)"
  shows "nm_getByte m = (b, nm_advance (Suc 0) m)"
proof -
  have "nm_buffer m (unat (nm_position m)) = b"
    using assms(1) by (simp add: next_bytes_def buf_read_Suc)
  then show ?thesis using assms(2) by (simp add: nm_getByte_def nm_advance_def)
qed

lemma read_field_next:
  assumes "next_bytes m (length (field_bytes f)) = field_bytes f"
    and "readable m (length (field_bytes f))"
    and "\<And>s. f = FString s \<Longrightarrow> length s < 65536"
  shows "read_field (field_shape f) m = (f, nm_advance (length (field_bytes f)) m)"
proof (cases f)
  case (FString s)
  have l: "unat (of_nat (length s) :: u16) = length s"
    using assms(3) [OF FString] by (simp add: unat_of_nat)
  have n: "next_bytes m 2 = le_bytes 2 (of_nat (length s) :: u16)"
    "next_bytes (nm_advance 2 m) (length s) = s"
    using next_bytes_append [of m "le_bytes 2 (of_nat (length s) :: u16)" s] assms(1,2) FString
    by auto
  have r: "readable m 2" "readable (nm_advance 2 m) (length s)"
    using assms(2) FString by (auto intro: readable_less readable_advance)
  have "nm_get m = (of_nat (length s) :: u16, nm_advance 2 m)"
    using n(1) r(1) by (intro nm_get_next) simp_all
  moreover have "uint (of_nat (length s) :: u16) = int (length s)"
    using l by (simp add: uint_nat)
  ultimately show ?thesis
    using FString n(2) r(2) l
    by (simp add: nm_getString_def next_bytes_def advance_advance) (simp add: nm_advance_def add.assoc)
next
  case (FPosition p)
  have a: "next_bytes m 2 = le_bytes 2 (px p) \<and>
      next_bytes (nm_advance 2 m) 3 = le_bytes 2 (py p) @ [pz p]"
    using next_bytes_append [of m "le_bytes 2 (px p)" "le_bytes 2 (py p) @ [pz p]"] assms(1,2) FPosition
    by simp
  have b: "next_bytes (nm_advance 2 m) 2 = le_bytes 2 (py p) \<and>
      next_bytes (nm_advance 4 m) (Suc 0) = [pz p]"
    using next_bytes_append [of "nm_advance 2 m" "le_bytes 2 (py p)" "[pz p]"] a assms(2) FPosition
      readable_advance [of m 2 3] by (simp add: advance_advance)
  have r: "readable m 2" "readable (nm_advance 2 m) 2" "readable (nm_advance 4 m) (Suc 0)"
    using assms(2) FPosition readable_advance [of m 2 3] readable_advance [of m 4 1]
    by (auto intro: readable_less)
  have x: "nm_get m = (px p, nm_advance 2 m)"
    by (rule nm_get_next) (use a r in simp_all)
  have y: "nm_get (nm_advance 2 m) = (py p, nm_advance 2 (nm_advance 2 m))"
    by (rule nm_get_next) (use b r in simp_all)
  have z: "nm_getByte (nm_advance 4 m) = (pz p, nm_advance (Suc 0) (nm_advance 4 m))"
    by (rule nm_getByte_next) (use b r in simp_all)
  have "nm_getPosition m = (p, nm_advance 5 m)"
    unfolding nm_getPosition_def x advance_advance Let_def prod.case
    using y z by (simp only: advance_advance) simp
  then show ?thesis unfolding FPosition by simp
next
  case (FByte b)
  then show ?thesis using assms(1,2) by (simp add: nm_getByte_next)
next
  case (FU16 w)
  have "nm_get m = (w, nm_advance 2 m)"
    by (rule nm_get_next) (use assms(1,2) FU16 in simp_all)
  then show ?thesis unfolding FU16 by simp
next
  case (FU32 w)
  have "nm_get m = (w, nm_advance 4 m)"
    by (rule nm_get_next) (use assms(1,2) FU32 in simp_all)
  then show ?thesis unfolding FU32 by simp
next
  case (FU64 w)
  have "nm_get m = (w, nm_advance 8 m)"
    by (rule nm_get_next) (use assms(1,2) FU64 in simp_all)
  then show ?thesis unfolding FU64 by simp
qed

text \<open>The bytes of a whole sequence of fields, and the strings the reader can represent.\<close>

definition fields_bytes :: "field list \<Rightarrow> u8 list" where
  "fields_bytes fs = concat (map field_bytes fs)"

definition short_strings :: "field list \<Rightarrow> bool" where
  "short_strings fs \<longleftrightarrow> (\<forall>f\<in>set fs. case f of FString s \<Rightarrow> length s < 65536 | _ \<Rightarrow> True)"

lemma write_fields_put:
  "length (fields_bytes fs) + unat (nm_position m) < MAX_BODY_LENGTH \<Longrightarrow>
   write_fields fs m = nm_put (fields_bytes fs) m"
proof (induction fs arbitrary: m)
  case Nil
  then show ?case by (simp add: write_fields_def fields_bytes_def nm_put_def)
next
  case (Cons f fs)
  let ?m = "nm_put (field_bytes f) m"
  have s: "length (field_bytes f) + length (fields_bytes fs) + unat (nm_position m) < MAX_BODY_LENGTH"
    using Cons.prems by (simp add: fields_bytes_def)
  then have p: "unat (nm_position ?m) = unat (nm_position m) + length (field_bytes f)"
    by (intro nm_position_put) simp
  have "write_fields fs ?m = nm_put (fields_bytes fs) ?m"
    using s p by (intro Cons.IH) simp
  moreover have "write_field f m = ?m" using s by (intro write_field_fits) simp
  ultimately show ?case
    using s by (simp add: write_fields_def fields_bytes_def nm_put_put)
qed

lemma read_fields_next:
  "next_bytes m (length (fields_bytes fs)) = fields_bytes fs \<Longrightarrow>
   readable m (length (fields_bytes fs)) \<Longrightarrow> short_strings fs \<Longrightarrow>
   read_fields (map field_shape fs) m = (fs, nm_advance (length (fields_bytes fs)) m)"
proof (induction fs arbitrary: m)
  case Nil
  then show ?case by (simp add: fields_bytes_def nm_advance_def)
next
  case (Cons f fs)
  let ?n = "length (field_bytes f)" and ?k = "length (fields_bytes fs)"
  have nb: "next_bytes m (?n + ?k) = field_bytes f @ fields_bytes fs" and r: "readable m (?n + ?k)"
    using Cons.prems(1,2) by (simp_all add: fields_bytes_def)
  have "read_field (field_shape f) m = (f, nm_advance ?n m)"
    using next_bytes_append [OF nb r] readable_less [OF r, of ?n] Cons.prems(3)
    by (intro read_field_next) (auto simp: short_strings_def)
  moreover have "read_fields (map field_shape fs) (nm_advance ?n m)
      = (fs, nm_advance ?k (nm_advance ?n m))"
    using next_bytes_append [OF nb r] readable_advance [OF r] Cons.prems(3)
    by (intro Cons.IH) (auto simp: short_strings_def)
  ultimately show ?case
    by (simp add: advance_advance fields_bytes_def)
qed

text \<open>C2: if the images of the fields a sender writes fit in the body area of a fresh message, a
  reader that starts at the body and asks for the same types reads back exactly these fields, and
  stops at the end of the message without setting the overrun flag.\<close>

theorem message_roundtrip:
  fixes m :: "'m netmsg_scheme"
  assumes "length (fields_bytes fs) + 8 < MAX_BODY_LENGTH" and "short_strings fs"
  defines "m' \<equiv> write_fields fs (nm_reset m)"
  shows "read_fields (map field_shape fs) (m'\<lparr>nm_position := INITIAL_BUFFER_POSITION\<rparr>) = (fs, m')
    \<and> \<not> nm_overrun m' \<and> unat (nm_length m') = length (fields_bytes fs)"
proof -
  let ?n = "length (fields_bytes fs)"
  have p: "unat (nm_position (nm_reset m)) = 8" by (simp add: nm_reset_def)
  have m': "m' = nm_put (fields_bytes fs) (nm_reset m)"
    unfolding m'_def using assms(1) p by (intro write_fields_put) simp
  have l: "unat (nm_length m') = ?n"
    using assms(1) unat_plus_of_nat [of "0 :: u16" ?n] by (simp add: m' nm_put_def nm_reset_def)
  let ?r = "m'\<lparr>nm_position := INITIAL_BUFFER_POSITION\<rparr>"
  have "next_bytes ?r ?n = fields_bytes fs"
    by (simp add: next_bytes_def m' nm_put_def nm_reset_def)
  moreover have "readable ?r ?n" using assms(1) l by (simp add: readable_def)
  ultimately have "read_fields (map field_shape fs) ?r = (fs, nm_advance ?n ?r)"
    using assms(2) by (rule read_fields_next)
  then show ?thesis
    using l by (simp add: m' nm_put_def nm_advance_def nm_reset_def)
qed

theorem message_roundtrip_witness:
  "let fs = [FByte 10, FString [72, 105], FPosition (Position 1000 1001 7), FU32 70000];
       m' = write_fields fs (nm_reset \<lparr>nm_length = 3, nm_position = 1, nm_overrun = True,
              nm_buffer = (\<lambda>_. 255)\<rparr>)
   in fst (read_fields [SByte, SString, SPosition, SU32] (m'\<lparr>nm_position := 8\<rparr>)) = fs"
  using message_roundtrip
    [of "[FByte 10, FString [72, 105], FPosition (Position 1000 1001 7), FU32 70000]"
        "\<lparr>nm_length = 3, nm_position = 1, nm_overrun = True, nm_buffer = (\<lambda>_. 255)\<rparr>"]
  by (simp add: fields_bytes_def short_strings_def Let_def)

subsection \<open>Headers of an outgoing message\<close>

text \<open>
  The eight bytes reserved in front of the body are exactly enough for the inner length, the
  checksum and the outer length, prepended in this order.
\<close>

lemma om_add_header_ok:
  fixes h :: "'a::len word"
  assumes "sizeof TYPE('a) \<le> unat (om_start m)"
  obtains m' where "om_add_header h m = Some m'" "unat (om_start m') = unat (om_start m) - sizeof TYPE('a)"
    "buf_read (nm_buffer m') (unat (om_start m')) (sizeof TYPE('a)) = le_bytes (sizeof TYPE('a)) h"
    "nm_length m' = nm_length m + of_nat (sizeof TYPE('a))"
    "\<And>i. unat (om_start m) \<le> i \<Longrightarrow> nm_buffer m' i = nm_buffer m i"
proof -
  let ?n = "sizeof TYPE('a)"
  let ?s = "om_start m - of_nat ?n"
  have s: "unat ?s = unat (om_start m) - ?n" using assms by (rule unat_minus_of_nat)
  let ?m = "m\<lparr>om_start := ?s, nm_buffer := buf_write (nm_buffer m) (unat ?s) (le_bytes ?n h),
    nm_length := nm_length m + of_nat ?n\<rparr>"
  have "buf_read (nm_buffer ?m) (unat (om_start ?m)) ?n = le_bytes ?n h"
    using buf_read_write [of "nm_buffer m" "unat ?s" "le_bytes ?n h"] by simp
  moreover have "om_add_header h m = Some ?m" using assms by (simp add: om_add_header_def Let_def)
  moreover have "nm_buffer ?m i = nm_buffer m i" if "unat (om_start m) \<le> i" for i
    using that s assms by (simp add: buf_write_outside)
  ultimately show thesis using s by (intro that [of ?m]) auto
qed

end
