(* ===== verification/Net_Protocol.thy ===== *)
theory Net_Protocol
  imports Net_Message
begin

text \<open>
  The framing layer of a connection (\<open>server/network/protocol/protocol.cpp\<close>): XTEA
  encryption in place, the Adler-32 checksum of \<open>utils/tools.cpp\<close>, the sequence numbers
  that replace it on new clients, and the order in which \<open>onSendMessage\<close> and
  \<open>onRecvMessage\<close> apply them. The zlib deflater and the RSA engine are not part of the
  repository and stay parameters.
\<close>

subsection \<open>XTEA on one block\<close>

type_synonym xtea_key = "u32 \<times> u32 \<times> u32 \<times> u32"

fun key_at :: "xtea_key \<Rightarrow> u32 \<Rightarrow> u32" where
  "key_at (k0, k1, k2, k3) i = (if i = 0 then k0 else if i = 1 then k1 else if i = 2 then k2 else k3)"

definition xtea_delta :: u32 where "xtea_delta = 0x61C88647"

fun enc_control_sums :: "xtea_key \<Rightarrow> nat \<Rightarrow> u32 \<Rightarrow> (u32 \<times> u32) list" where
  "enc_control_sums k 0 s = []"
| "enc_control_sums k (Suc i) s =
     (let c0 = s + key_at k (s AND 3);
          s' = s - xtea_delta;
          c1 = s' + key_at k (drop_bit 11 s' AND 3)
      in (c0, c1) # enc_control_sums k i s')"

fun dec_control_sums :: "xtea_key \<Rightarrow> nat \<Rightarrow> u32 \<Rightarrow> (u32 \<times> u32) list" where
  "dec_control_sums k 0 s = []"
| "dec_control_sums k (Suc i) s =
     (let c0 = s + key_at k (drop_bit 11 s AND 3);
          s' = s + xtea_delta;
          c1 = s' + key_at k (s' AND 3)
      in (c0, c1) # dec_control_sums k i s')"

definition xtea_mix :: "u32 \<Rightarrow> u32" where
  "xtea_mix v = (push_bit 4 v XOR drop_bit 5 v) + v"

fun enc_round :: "u32 \<times> u32 \<Rightarrow> u32 \<times> u32 \<Rightarrow> u32 \<times> u32" where
  "enc_round (c0, c1) (v0, v1) =
     (let v0' = v0 + (xtea_mix v1 XOR c0); v1' = v1 + (xtea_mix v0' XOR c1) in (v0', v1'))"

fun dec_round :: "u32 \<times> u32 \<Rightarrow> u32 \<times> u32 \<Rightarrow> u32 \<times> u32" where
  "dec_round (c0, c1) (v0, v1) =
     (let v1' = v1 - (xtea_mix v0 XOR c0); v0' = v0 - (xtea_mix v1' XOR c1) in (v0', v1'))"

definition enc_block :: "xtea_key \<Rightarrow> u32 \<times> u32 \<Rightarrow> u32 \<times> u32" where
  "enc_block k v = fold enc_round (enc_control_sums k 32 0) v"

definition dec_block :: "xtea_key \<Rightarrow> u32 \<times> u32 \<Rightarrow> u32 \<times> u32" where
  "dec_block k v = fold dec_round (dec_control_sums k 32 0xC6EF3720) v"

lemma dec_control_sums_snoc:
  "dec_control_sums k (Suc n) s = dec_control_sums k n s @
     [(let s' = s + of_nat n * xtea_delta in
        (s' + key_at k (drop_bit 11 s' AND 3),
         s' + xtea_delta + key_at k ((s' + xtea_delta) AND 3)))]"
proof (induction n arbitrary: s)
  case 0
  then show ?case by (simp add: Let_def)
next
  case (Suc n)
  have e: "s + xtea_delta + of_nat n * xtea_delta = s + of_nat (Suc n) * xtea_delta"
    by (simp add: algebra_simps)
  then show ?case
    by (subst dec_control_sums.simps(2))
      (simp only: Suc.IH [of "s + xtea_delta"] e Let_def append_Cons dec_control_sums.simps(2) [of k n s])
qed

lemma dec_control_sums_rev:
  "dec_control_sums k n (s - of_nat n * xtea_delta) = rev (map prod.swap (enc_control_sums k n s))"
proof (induction n arbitrary: s)
  case 0
  then show ?case by simp
next
  case (Suc n)
  have e: "s - of_nat (Suc n) * xtea_delta = s - xtea_delta - of_nat n * xtea_delta"
    by (simp add: algebra_simps)
  show ?case
    unfolding e dec_control_sums_snoc Suc.IH by (simp add: Let_def)
qed

lemma dec_enc_round [simp]: "dec_round (prod.swap c) (enc_round c v) = v"
  by (cases c; cases v) (simp add: Let_def)

lemma dec_enc_rounds: "fold dec_round (rev (map prod.swap cs)) (fold enc_round cs v) = v"
  by (induction cs arbitrary: v) auto

lemma dec_enc_block [simp]: "dec_block k (enc_block k v) = v"
proof -
  have "(0 :: u32) - of_nat 32 * xtea_delta = 0xC6EF3720" by (simp add: xtea_delta_def)
  then show ?thesis
    using dec_control_sums_rev [of k 32 0] dec_enc_rounds by (simp add: dec_block_def enc_block_def)
qed

subsection \<open>XTEA over a buffer\<close>

definition xtea_step :: "(u32 \<times> u32 \<Rightarrow> u32 \<times> u32) \<Rightarrow> nat \<Rightarrow> buffer \<Rightarrow> buffer" where
  "xtea_step f p b =
     (case f (of_le (buf_read b p 4), of_le (buf_read b (p + 4) 4)) of
        (v0, v1) \<Rightarrow> buf_write b p (le_bytes 4 v0 @ le_bytes 4 v1))"

function xtea_loop :: "(u32 \<times> u32 \<Rightarrow> u32 \<times> u32) \<Rightarrow> nat \<Rightarrow> nat \<Rightarrow> nat \<Rightarrow> buffer \<Rightarrow> buffer" where
  "xtea_loop f base readPos messageLength b =
     (if readPos < messageLength
      then xtea_loop f base (readPos + 8) messageLength (xtea_step f (base + readPos) b) else b)"
  by pat_completeness auto
termination
  by (relation "measure (\<lambda>(f, base, readPos, messageLength, b). messageLength - readPos)") auto

declare xtea_loop.simps [simp del]

lemma xtea_step_read:
  "xtea_step f p b = buf_write b p (case f (of_le (buf_read b p 4), of_le (buf_read b (p + 4) 4)) of
      (v0, v1) \<Rightarrow> le_bytes 4 v0 @ le_bytes 4 v1)"
  by (simp add: xtea_step_def split: prod.splits)

lemma buf_write_read_id: "buf_write b p (buf_read b p n) = b"
  by (rule ext) (auto simp: buf_write_def buf_read_def)

lemma buf_write_twice: "length xs = length ys \<Longrightarrow> buf_write (buf_write b p xs) p ys = buf_write b p ys"
  by (rule ext) (auto simp: buf_write_def)

lemma le_bytes_of_le4: "length bs = 4 \<Longrightarrow> le_bytes 4 (of_le bs :: u32) = bs"
  using le_bytes_of_le [of bs, where ?'a = 32] by simp

lemma xtea_step_inverse:
  assumes inv: "\<And>v. g (f v) = v"
  shows "xtea_step g p (xtea_step f p b) = b"
proof -
  let ?v = "(of_le (buf_read b p 4), of_le (buf_read b (p + 4) 4))"
  obtain w0 w1 where w: "f ?v = (w0, w1)" by fastforce
  let ?c = "buf_write b p (le_bytes 4 w0 @ le_bytes 4 w1)"
  have s: "xtea_step f p b = ?c" by (simp add: xtea_step_def w)
  have "buf_read ?c p 8 = le_bytes 4 w0 @ le_bytes 4 w1"
    using buf_read_write [of b p "le_bytes 4 w0 @ le_bytes 4 w1"] by simp
  then have "buf_read ?c p 4 = le_bytes 4 w0 \<and> buf_read ?c (p + 4) 4 = le_bytes 4 w1"
    using buf_read_add [of ?c p 4 4] by simp
  then have "xtea_step g p ?c = buf_write ?c p (buf_read b p 8)"
    using inv [of ?v] w buf_read_add [of b p 4 4] by (simp add: xtea_step_def le_bytes_of_le4)
  then show ?thesis by (simp add: s buf_write_twice buf_write_read_id)
qed

lemma xtea_step_commute:
  assumes "p + 8 \<le> q"
  shows "xtea_step f p (xtea_step g q b) = xtea_step g q (xtea_step f p b)"
proof -
  obtain v where v: "xtea_step f p b = buf_write b p v" "length v = 8"
      "\<And>c. buf_read c p 4 = buf_read b p 4 \<Longrightarrow> buf_read c (p + 4) 4 = buf_read b (p + 4) 4
        \<Longrightarrow> xtea_step f p c = buf_write c p v"
    using xtea_step_read by (intro that [of "case f (of_le (buf_read b p 4), of_le (buf_read b (p + 4) 4)) of
      (v0, v1) \<Rightarrow> le_bytes 4 v0 @ le_bytes 4 v1"]) (auto split: prod.splits)
  obtain w where w: "xtea_step g q b = buf_write b q w" "length w = 8"
      "\<And>c. buf_read c q 4 = buf_read b q 4 \<Longrightarrow> buf_read c (q + 4) 4 = buf_read b (q + 4) 4
        \<Longrightarrow> xtea_step g q c = buf_write c q w"
    using xtea_step_read by (intro that [of "case g (of_le (buf_read b q 4), of_le (buf_read b (q + 4) 4)) of
      (v0, v1) \<Rightarrow> le_bytes 4 v0 @ le_bytes 4 v1"]) (auto split: prod.splits)
  have "xtea_step f p (buf_write b q w) = buf_write (buf_write b q w) p v"
    using assms by (intro v(3)) (simp_all add: buf_read_write_disjoint)
  moreover have "xtea_step g q (buf_write b p v) = buf_write (buf_write b p v) q w"
    using assms v(2) by (intro w(3)) (simp_all add: buf_read_write_disjoint)
  moreover have "buf_write (buf_write b q w) p v = buf_write (buf_write b p v) q w"
    using assms v(2) w(2) by (intro ext) (auto simp: buf_write_def)
  ultimately show ?thesis by (simp add: v(1) w(1))
qed

lemma xtea_loop_commute:
  "p + 8 \<le> base + r \<Longrightarrow> xtea_step f p (xtea_loop g base r n b) = xtea_loop g base r n (xtea_step f p b)"
proof (induction g base r n b rule: xtea_loop.induct)
  case (1 g base r n b)
  show ?case
  proof (cases "r < n")
    case True
    then show ?thesis
      using "1.IH" [OF True] "1.prems" xtea_step_commute [of p "base + r" f g b]
      by (simp add: xtea_loop.simps [of g base r n])
  next
    case False
    then show ?thesis by (simp add: xtea_loop.simps [of g base r n])
  qed
qed

lemma xtea_loop_inverse:
  "(\<And>v. g (f v) = v) \<Longrightarrow> xtea_loop g base r n (xtea_loop f base r n b) = b"
proof (induction f base r n b rule: xtea_loop.induct)
  case (1 f base r n b)
  show ?case
  proof (cases "r < n")
    case True
    let ?rest = "xtea_loop f base (r + 8) n (xtea_step f (base + r) b)"
    have "xtea_loop g base r n (xtea_loop f base r n b)
        = xtea_loop g base (r + 8) n (xtea_step g (base + r) ?rest)"
      using True by (simp add: xtea_loop.simps [of g base r n] xtea_loop.simps [of f base r n])
    also have "\<dots> = xtea_step g (base + r) (xtea_loop g base (r + 8) n ?rest)"
      by (simp add: xtea_loop_commute)
    also have "\<dots> = xtea_step g (base + r) (xtea_step f (base + r) b)"
      using "1.IH" [OF True "1.prems"] by simp
    also have "\<dots> = b" using "1.prems" by (rule xtea_step_inverse)
    finally show ?thesis .
  next
    case False
    then show ?thesis by (simp add: xtea_loop.simps)
  qed
qed

subsection \<open>Adler-32\<close>

text \<open>
  The sums run unreduced over chunks of at most 5552 bytes and are reduced after each chunk.
\<close>

definition adler_byte :: "u8 \<Rightarrow> u32 \<times> u32 \<Rightarrow> u32 \<times> u32" where
  "adler_byte d ab = (case ab of (a, b) \<Rightarrow> let a' = a + ucast d in (a', b + a'))"

definition adler_chunk :: "u8 list \<Rightarrow> u32 \<times> u32 \<Rightarrow> u32 \<times> u32" where
  "adler_chunk ds ab = (case fold adler_byte ds ab of (a, b) \<Rightarrow> (a mod 65521, b mod 65521))"

function adler_loop :: "u8 list \<Rightarrow> u32 \<times> u32 \<Rightarrow> u32 \<times> u32" where
  "adler_loop data ab =
     (if data = [] then ab
      else let tmp = (if length data > 5552 then 5552 else length data)
           in adler_loop (drop tmp data) (adler_chunk (take tmp data) ab))"
  by pat_completeness auto
termination
  by (relation "measure (\<lambda>(data, ab). length data)") (auto simp: Let_def)

declare adler_loop.simps [simp del]

definition adlerChecksum :: "u8 list \<Rightarrow> u32" where
  "adlerChecksum data =
     (if length data > NETWORKMESSAGE_MAXSIZE then 0
      else case adler_loop data (1, 0) of (a, b) \<Rightarrow> push_bit 16 b OR a)"

text \<open>The reference definition: both sums reduced modulo 65521 at every byte.\<close>

fun adler_spec :: "u8 list \<Rightarrow> nat \<times> nat \<Rightarrow> nat \<times> nat" where
  "adler_spec [] ab = ab"
| "adler_spec (d # ds) (a, b) =
     (let a' = (a + unat d) mod 65521 in adler_spec ds (a', (b + a') mod 65521))"

text \<open>
  Without the bound of 5552 the second sum would wrap: after \<open>n\<close> bytes it is at most
  \<open>65520 + n * 65520 + 255 * n * (n + 1) / 2\<close>.
\<close>

fun adler_nat :: "u8 list \<Rightarrow> nat \<times> nat \<Rightarrow> nat \<times> nat" where
  "adler_nat [] ab = ab"
| "adler_nat (d # ds) (a, b) = adler_nat ds (a + unat d, b + (a + unat d))"

lemma adler_nat_bound:
  "adler_nat ds (a, b) = (a', b') \<Longrightarrow>
   a' \<le> a + 255 * length ds \<and> 2 * b' \<le> 2 * b + 2 * a * length ds + 255 * length ds * (length ds + 1)"
proof (induction ds arbitrary: a b)
  case Nil
  then show ?case by simp
next
  case (Cons d ds)
  have d: "unat d \<le> 255" using unsigned_less [of d, where ?'a = nat] by simp
  have IH: "a' \<le> a + unat d + 255 * length ds \<and>
      2 * b' \<le> 2 * (b + (a + unat d)) + 2 * (a + unat d) * length ds + 255 * length ds * (length ds + 1)"
    using Cons.IH [of "a + unat d" "b + (a + unat d)"] Cons.prems by simp
  let ?L = "length ds"
  have p: "unat d * ?L \<le> 255 * ?L" using d by (rule mult_le_mono1)
  have "2 * b' \<le> 2 * b + 2 * a + 2 * unat d + 2 * a * ?L + 2 * (unat d * ?L) + 255 * ?L * (?L + 1)"
    using IH by (simp add: algebra_simps)
  also have "\<dots> \<le> 2 * b + 2 * a + 510 + 2 * a * ?L + 510 * ?L + 255 * ?L * (?L + 1)"
    using p d by linarith
  also have "\<dots> = 2 * b + 2 * a * length (d # ds) + 255 * length (d # ds) * (length (d # ds) + 1)"
    by (simp add: algebra_simps)
  finally show ?case using IH d by simp
qed

lemma adler_nat_mono:
  "adler_nat ds (a, b) = (a', b') \<Longrightarrow> a \<le> a' \<and> b \<le> b'"
  by (induction ds arbitrary: a b) fastforce+

lemma fold_adler_byte:
  "adler_nat ds (unat a, unat b) = (a', b') \<Longrightarrow> a' < 2 ^ 32 \<Longrightarrow> b' < 2 ^ 32 \<Longrightarrow>
   (case fold adler_byte ds (a, b) of (x, y) \<Rightarrow> unat x = a' \<and> unat y = b')"
proof (induction ds arbitrary: a b)
  case Nil
  then show ?case by simp
next
  case (Cons d ds)
  have n: "adler_nat ds (unat a + unat d, unat b + (unat a + unat d)) = (a', b')"
    using Cons.prems(1) by simp
  then have m: "unat a + unat d \<le> a' \<and> unat b + (unat a + unat d) \<le> b'"
    by (rule adler_nat_mono)
  have a: "unat (a + ucast d) = unat a + unat d"
    using m Cons.prems(2) by (simp add: unat_word_ariths unat_ucast_up)
  have b: "unat (b + (a + ucast d)) = unat b + (unat a + unat d)"
    using m a Cons.prems(3) by (simp add: unat_word_ariths)
  show ?case
    using Cons.IH [of "a + ucast d" "b + (a + ucast d)"] n a b Cons.prems(2,3)
    by (simp add: adler_byte_def Let_def)
qed

lemma adler_spec_nat:
  "adler_nat ds (a, b) = (a', b') \<Longrightarrow>
   adler_spec ds (a mod 65521, b mod 65521) = (a' mod 65521, b' mod 65521)"
proof (induction ds arbitrary: a b)
  case Nil
  then show ?case by simp
next
  case (Cons d ds)
  have "(a mod 65521 + unat d) mod 65521 = (a + unat d) mod 65521"
    "(b mod 65521 + (a + unat d) mod 65521) mod 65521 = (b + (a + unat d)) mod 65521"
    by (simp_all add: mod_simps)
  then show ?case using Cons.IH [of "a + unat d" "b + (a + unat d)"] Cons.prems by (simp add: Let_def)
qed

lemma adler_chunk_spec:
  assumes "length ds \<le> 5552" "unat a < 65521" "unat b < 65521"
  shows "case adler_chunk ds (a, b) of (x, y) \<Rightarrow>
    adler_spec ds (unat a, unat b) = (unat x, unat y) \<and> unat x < 65521 \<and> unat y < 65521"
proof -
  obtain a' b' where n: "adler_nat ds (unat a, unat b) = (a', b')" by fastforce
  let ?n = "length ds"
  have bd: "a' \<le> unat a + 255 * ?n"
    "2 * b' \<le> 2 * unat b + 2 * unat a * ?n + 255 * ?n * (?n + 1)"
    using adler_nat_bound [OF n] by simp_all
  have "unat a * ?n \<le> 65520 * 5552" "?n * (?n + 1) \<le> 5552 * 5553"
    using assms mult_le_mono [of "unat a" 65520 ?n 5552] mult_le_mono [of ?n 5552 "?n + 1" 5553]
    by linarith+
  then have small: "a' < 2 ^ 32" "b' < 2 ^ 32" using bd assms by simp_all
  obtain x y where f: "fold adler_byte ds (a, b) = (x, y)" by fastforce
  then have xy: "unat x = a'" "unat y = b'" using fold_adler_byte [OF n small] by simp_all
  show ?thesis
    using adler_spec_nat [OF n] assms(2,3) xy f
    by (simp add: adler_chunk_def unat_mod)
qed

lemma adler_spec_append: "adler_spec (xs @ ys) ab = adler_spec ys (adler_spec xs ab)"
  by (induction xs ab rule: adler_spec.induct) (simp_all add: Let_def)

lemma adler_loop_spec:
  "unat (fst ab) < 65521 \<Longrightarrow> unat (snd ab) < 65521 \<Longrightarrow>
   adler_spec data (map_prod unat unat ab) = map_prod unat unat (adler_loop data ab)
   \<and> unat (fst (adler_loop data ab)) < 65521 \<and> unat (snd (adler_loop data ab)) < 65521"
proof (induction data ab rule: adler_loop.induct)
  case (1 data ab)
  show ?case
  proof (cases "data = []")
    case True
    with "1.prems" show ?thesis by (simp add: adler_loop.simps)
  next
    case False
    define k where "k = (if length data > 5552 then 5552 else length data)"
    obtain a b where ab: "ab = (a, b)" by fastforce
    obtain x y where c: "adler_chunk (take k data) ab = (x, y)" by fastforce
    have h: "adler_spec (take k data) (unat a, unat b) = (unat x, unat y) \<and> unat x < 65521 \<and> unat y < 65521"
      using adler_chunk_spec [of "take k data" a b] "1.prems" ab c by (auto simp: k_def)
    have l: "adler_loop data ab = adler_loop (drop k data) (x, y)"
      using False c by (simp add: adler_loop.simps [of data ab] k_def Let_def)
    have "adler_spec (drop k data) (unat x, unat y) = map_prod unat unat (adler_loop (drop k data) (x, y))
      \<and> unat (fst (adler_loop (drop k data) (x, y))) < 65521 \<and> unat (snd (adler_loop (drop k data) (x, y))) < 65521"
      using "1.IH" [OF False k_def] h c by simp
    moreover have "adler_spec data (unat a, unat b) = adler_spec (drop k data) (unat x, unat y)"
      using adler_spec_append [of "take k data" "drop k data" "(unat a, unat b)"] h by simp
    ultimately show ?thesis using ab l by simp
  qed
qed

text \<open>On every packet the server can send, the chunked checksum with delayed reductions computes
  Adler-32: no 32-bit addition wraps, and the result carries the two reduced sums in its halves.\<close>

lemma adler_checksum_correct:
  assumes "length data \<le> NETWORKMESSAGE_MAXSIZE"
  shows "adler_spec data (1, 0) =
    (unat (take_bit 16 (adlerChecksum data)), unat (drop_bit 16 (adlerChecksum data)))"
proof -
  obtain a b where ab: "adler_loop data (1, 0) = (a, b)" by fastforce
  have h: "adler_spec data (1, 0) = (unat a, unat b)" "unat a < 65521" "unat b < 65521"
    using adler_loop_spec [of "(1, 0)" data] ab by simp_all
  have nb: "\<not> bit a (16 + n)" "\<not> bit b (16 + n)" for n
    using h(2,3) not_bit_small [of a 16 "16 + n"] not_bit_small [of b 16 "16 + n"] by simp_all
  have "take_bit 16 (push_bit 16 b OR a) = a"
    using h(2) by (simp add: take_bit_push_bit take_bit_small)
  moreover have "drop_bit 16 (push_bit 16 b OR a) = b"
  proof (rule bit_word_eqI)
    fix n
    show "bit (drop_bit 16 (push_bit 16 b OR a)) n = bit b n"
      using nb not_bit_small [of b 16 n] h(3) by (cases "n < 16") (auto simp: bit_simps ac_simps)
  qed
  ultimately show ?thesis using assms ab h(1) by (simp add: adlerChecksum_def)
qed

theorem adler_checksum_correct_witness:
  "adler_spec [87, 105, 107, 105] (1, 0) =
     (unat (take_bit 16 (adlerChecksum [87, 105, 107, 105])), unat (drop_bit 16 (adlerChecksum [87, 105, 107, 105])))"
  by (rule adler_checksum_correct) simp

subsection \<open>The state of a connection and its handlers\<close>

datatype checksum_method = CHECKSUM_METHOD_NONE | CHECKSUM_METHOD_ADLER32 | CHECKSUM_METHOD_SEQUENCE

record protocol =
  pr_key :: xtea_key
  pr_serverSequenceNumber :: u32
  pr_clientSequenceNumber :: u32
  pr_checksumMethod :: checksum_method
  pr_encryptionEnabled :: bool
  pr_rawMessages :: bool

definition XTEA_encrypt :: "protocol \<Rightarrow> outmsg \<Rightarrow> outmsg" where
  "XTEA_encrypt pr msg =
     (let paddingBytes = nm_length msg AND 7;
          m1 = (if paddingBytes \<noteq> 0 then nm_addPaddingBytes (8 - unat paddingBytes) msg else msg)
      in m1\<lparr>nm_buffer := xtea_loop (enc_block (pr_key pr)) (unat (om_start m1)) 0
                (unat (nm_length m1)) (nm_buffer m1)\<rparr>)"

definition XTEA_decrypt :: "protocol \<Rightarrow> netmsg \<Rightarrow> bool \<times> netmsg" where
  "XTEA_decrypt pr msg =
     (let msgLength = nm_length msg - (if pr_checksumMethod pr = CHECKSUM_METHOD_NONE then 2 else 6)
      in if msgLength AND 7 \<noteq> 0 then (False, msg)
         else let m1 = msg\<lparr>nm_buffer := xtea_loop (dec_block (pr_key pr)) (unat (nm_position msg)) 0
                        (unat msgLength) (nm_buffer msg)\<rparr>;
                  (innerLength :: u16, m2) = nm_get m1
              in if uint innerLength > uint msgLength - 2 then (False, m2)
                 else (True, m2\<lparr>nm_length := innerLength\<rparr>))"

text \<open>
  \<open>deflate\<close> is zlib: the compressed bytes, or \<open>None\<close> where there is no
  stream or it reports an error.
\<close>

definition compression ::
    "(u8 list \<Rightarrow> u8 list option) \<Rightarrow> protocol \<Rightarrow> outmsg \<Rightarrow> bool \<times> outmsg" where
  "compression deflate pr msg =
     (if pr_checksumMethod pr \<noteq> CHECKSUM_METHOD_SEQUENCE then (False, msg)
      else if unat (nm_length msg) > NETWORKMESSAGE_MAXSIZE then (False, msg)
      else case deflate (buf_read (nm_buffer msg) (unat (om_start msg)) (unat (nm_length msg))) of
        None \<Rightarrow> (False, msg)
      | Some out \<Rightarrow> if out = [] then (False, msg) else (True, nm_addBytes (Some out) (nm_reset msg)))"

definition onSendMessage ::
    "(u8 list \<Rightarrow> u8 list option) \<Rightarrow> protocol \<Rightarrow> outmsg \<Rightarrow> (protocol \<times> outmsg) option" where
  "onSendMessage deflate pr msg =
     (if pr_rawMessages pr then Some (pr, msg)
      else
        let (compressed, m1) = (if unat (nm_length msg) \<ge> 128 then compression deflate pr msg else (False, msg));
            sendMessageChecksum = (if compressed then push_bit 31 1 else 0 :: u32)
        in Option.bind (om_writeMessageLength m1) (\<lambda>m2.
             if \<not> pr_encryptionEnabled pr then Some (pr, m2)
             else let m3 = XTEA_encrypt pr m2 in
               case pr_checksumMethod pr of
                 CHECKSUM_METHOD_NONE \<Rightarrow>
                   map_option (Pair pr) (om_addCryptoHeader False 0 m3)
               | CHECKSUM_METHOD_ADLER32 \<Rightarrow>
                   map_option (Pair pr) (om_addCryptoHeader True
                     (adlerChecksum (buf_read (nm_buffer m3) (unat (om_start m3)) (unat (nm_length m3)))) m3)
               | CHECKSUM_METHOD_SEQUENCE \<Rightarrow>
                   (let seq = pr_serverSequenceNumber pr + 1;
                        pr' = pr\<lparr>pr_serverSequenceNumber := (if seq \<ge> 0x7FFFFFFF then 0 else seq)\<rparr>
                    in map_option (Pair pr') (om_addCryptoHeader True (sendMessageChecksum OR seq) m3))))"

text \<open>
  The last component is the packet given to the dispatcher for \<open>parsePacket\<close>.
\<close>

definition sendRecvMessageCallback ::
    "protocol \<Rightarrow> netmsg \<Rightarrow> bool \<times> netmsg \<times> netmsg option" where
  "sendRecvMessageCallback pr msg =
     (let (ok, m1) = (if pr_encryptionEnabled pr then XTEA_decrypt pr msg else (True, msg))
      in if \<not> ok then (False, m1, None) else (True, m1, Some m1))"

definition onRecvMessage ::
    "protocol \<Rightarrow> netmsg \<Rightarrow> bool \<times> protocol \<times> netmsg \<times> netmsg option" where
  "onRecvMessage pr msg =
     (if pr_checksumMethod pr = CHECKSUM_METHOD_NONE
      then case sendRecvMessageCallback pr msg of (ok, m, d) \<Rightarrow> (ok, pr, m, d)
      else
        let (recvChecksum :: u32, m1) = nm_get msg in
        if pr_checksumMethod pr = CHECKSUM_METHOD_SEQUENCE then
          if recvChecksum = 0 then (False, pr, m1, None)
          else
            let checksum = pr_clientSequenceNumber pr + 1;
                pr' = pr\<lparr>pr_clientSequenceNumber := (if checksum \<ge> 0x7FFFFFFF then 0 else checksum)\<rparr>
            in if recvChecksum \<noteq> checksum then (False, pr', m1, None)
               else case sendRecvMessageCallback pr' m1 of (ok, m, d) \<Rightarrow> (ok, pr', m, d)
        else
          let len = uint (nm_length m1) - uint (nm_position m1);
              checksum = (if len > 0
                then adlerChecksum (buf_read (nm_buffer m1) (unat (nm_position m1)) (nat len)) else 0)
          in if recvChecksum \<noteq> checksum then (False, pr, m1, None)
             else case sendRecvMessageCallback pr m1 of (ok, m, d) \<Rightarrow> (ok, pr, m, d))"

subsection \<open>Properties of the handlers\<close>

definition recv_header_size :: "protocol \<Rightarrow> nat" where
  "recv_header_size pr = (if pr_checksumMethod pr = CHECKSUM_METHOD_NONE then 2 else 6)"





text \<open>
  Sending: the eight reserved bytes suffice for all headers, whichever checksum method is set,
  so the assertion of \<open>add_header\<close> cannot fail on a message whose headers were not
  written yet.
\<close>

lemma om_add_header_Some:
  "sizeof TYPE('a::len) \<le> unat (om_start m) \<Longrightarrow>
   \<exists>m'. om_add_header (h :: 'a word) m = Some m' \<and> unat (om_start m') = unat (om_start m) - sizeof TYPE('a)"
  by (metis om_add_header_ok)

lemma om_writeMessageLength_Some:
  "2 \<le> unat (om_start m) \<Longrightarrow>
   \<exists>m'. om_writeMessageLength m = Some m' \<and> unat (om_start m') = unat (om_start m) - 2"
  using om_add_header_Some [of m "nm_length m"] by (simp add: om_writeMessageLength_def)

lemma om_addCryptoHeader_Some:
  "6 \<le> unat (om_start m) \<Longrightarrow> \<exists>m'. om_addCryptoHeader b c m = Some m'
     \<and> unat (om_start m') = unat (om_start m) - (if b then 6 else 2)"
proof (cases b)
  case True
  assume six: "6 \<le> unat (om_start m)"
  then obtain m1 where m1: "om_add_header c m = Some m1" "unat (om_start m1) = unat (om_start m) - 4"
    using om_add_header_Some [of m c] by auto
  then have "2 \<le> unat (om_start m1)" using six by linarith
  then obtain m2 where "om_writeMessageLength m1 = Some m2" "unat (om_start m2) = unat (om_start m1) - 2"
    using om_writeMessageLength_Some [of m1] by blast
  then show ?thesis using True m1 by (simp add: om_addCryptoHeader_def)
next
  case False
  assume "6 \<le> unat (om_start m)"
  then show ?thesis
    using False om_writeMessageLength_Some [of m] by (auto simp: om_addCryptoHeader_def)
qed

lemma om_start_XTEA_encrypt [simp]: "om_start (XTEA_encrypt pr m) = om_start m"
  by (simp add: XTEA_encrypt_def nm_addPaddingBytes_def Let_def)

lemma om_start_compression: "compression deflate pr m = (c, m') \<Longrightarrow> om_start m' = om_start m"
  by (auto simp: compression_def nm_addBytes_def nm_put_def nm_reset_def split: if_splits option.splits)

text \<open>Sending a message whose headers were not yet written never runs into the assertion of
  \<open>add_header\<close>; all eight reserved bytes are used with a checksum, four of them without one and
  two without encryption; and the server's sequence number stays below 2^31 - 1, so the number it
  puts on the wire is never 0 and never touches the bit that marks a compressed packet.\<close>

lemma send_headers_fit:
  assumes "om_start m = 8" and "unat (pr_serverSequenceNumber pr) < 0x7FFFFFFF"
  shows "\<exists>pr' m'. onSendMessage deflate pr m = Some (pr', m')
    \<and> unat (om_start m') = (if pr_rawMessages pr then 8 else if \<not> pr_encryptionEnabled pr then 6
         else if pr_checksumMethod pr = CHECKSUM_METHOD_NONE then 4 else 0)
    \<and> unat (pr_serverSequenceNumber pr') < 0x7FFFFFFF
    \<and> 0 < unat (pr_serverSequenceNumber pr + 1) \<and> \<not> bit (pr_serverSequenceNumber pr + 1) 31"
proof -
  let ?seq = "pr_serverSequenceNumber pr + 1"
  obtain c m1 where cm: "(if unat (nm_length m) \<ge> 128 then compression deflate pr m else (False, m)) = (c, m1)"
    by fastforce
  then have "om_start m1 = 8"
    using om_start_compression assms(1) by (auto split: if_splits)
  then obtain m2 where m2: "om_writeMessageLength m1 = Some m2" "unat (om_start m2) = 6"
    using om_writeMessageLength_Some [of m1] by auto
  let ?m3 = "XTEA_encrypt pr m2"
  obtain m4 where m4: "om_addCryptoHeader False 0 ?m3 = Some m4" "unat (om_start m4) = 4"
    using om_addCryptoHeader_Some [of ?m3 False 0] m2(2) by auto
  have m5: "\<exists>m'. om_addCryptoHeader True x ?m3 = Some m' \<and> unat (om_start m') = 0" for x
    using om_addCryptoHeader_Some [of ?m3 True x] m2(2) by auto
  have seq: "unat ?seq = unat (pr_serverSequenceNumber pr) + 1"
    using assms(2) unat_plus_of_nat [of "pr_serverSequenceNumber pr" 1] by simp
  have wrap: "unat (if ?seq \<ge> 0x7FFFFFFF then 0 else ?seq) < 0x7FFFFFFF"
    by (auto simp: word_le_nat_alt not_le)
  have "\<not> bit ?seq 31"
    using assms(2) seq by (intro not_bit_small [where n = 31]) simp_all
  then show ?thesis
    using assms seq cm m2 m4 m5 [of "push_bit 31 1 OR ?seq"] m5 [of ?seq] wrap
      m5 [of "adlerChecksum (buf_read (nm_buffer ?m3) (unat (om_start ?m3)) (unat (nm_length ?m3)))"]
    by (cases "pr_checksumMethod pr") (auto simp: onSendMessage_def Let_def)
qed

theorem send_headers_fit_witness:
  "\<exists>pr' m'. onSendMessage (\<lambda>_. None)
     \<lparr>pr_key = (1, 2, 3, 4), pr_serverSequenceNumber = 7, pr_clientSequenceNumber = 0,
      pr_checksumMethod = CHECKSUM_METHOD_SEQUENCE, pr_encryptionEnabled = True, pr_rawMessages = False\<rparr>
     (new_outmsg (\<lambda>_. 0)) = Some (pr', m') \<and> unat (om_start m') = 0"
  using send_headers_fit [of "new_outmsg (\<lambda>_. 0)"
     "\<lparr>pr_key = (1, 2, 3, 4), pr_serverSequenceNumber = 7, pr_clientSequenceNumber = 0,
      pr_checksumMethod = CHECKSUM_METHOD_SEQUENCE, pr_encryptionEnabled = True, pr_rawMessages = False\<rparr>"
     "\<lambda>_. None"]
  by (auto simp: new_outmsg_def)

end
