(* ===== verification/Prop_Stream.thy ===== *)
theory Prop_Stream
  imports Prelude
begin

text \<open>
  Serialised attributes (\<open>io/fileloader.hpp\<close>): \<open>PropStream\<close> reads integers and
  length-prefixed strings from a byte range and refuses to run past its end;
  \<open>PropWriteStream\<close> appends the same images to a growing buffer. A reader is the list of
  bytes between its two pointers.
\<close>

type_synonym prop_stream = "u8 list"

definition ps_init :: "u8 list \<Rightarrow> prop_stream" where
  "ps_init bs = bs"

definition ps_size :: "prop_stream \<Rightarrow> nat" where
  "ps_size p = length p"

definition ps_read :: "prop_stream \<Rightarrow> ('a::len word \<times> prop_stream) option" where
  "ps_read p = (let n = LENGTH('a) div 8 in
     if ps_size p < n then None else Some (of_le (take n p), drop n p))"

definition ps_readString :: "prop_stream \<Rightarrow> (u8 list \<times> prop_stream) option" where
  "ps_readString p = (case (ps_read p :: (u16 \<times> prop_stream) option) of
       None \<Rightarrow> None
     | Some (strLen, p1) \<Rightarrow>
         if ps_size p1 < unat strLen then None
         else Some (take (unat strLen) p1, drop (unat strLen) p1))"

definition ps_skip :: "nat \<Rightarrow> prop_stream \<Rightarrow> prop_stream option" where
  "ps_skip n p = (if ps_size p < n then None else Some (drop n p))"

type_synonym prop_write_stream = "u8 list"

definition pw_getStream :: "prop_write_stream \<Rightarrow> u8 list \<times> nat" where
  "pw_getStream b = (b, length b)"

definition pw_clear :: "prop_write_stream \<Rightarrow> prop_write_stream" where
  "pw_clear b = []"

definition pw_write :: "'a::len word \<Rightarrow> prop_write_stream \<Rightarrow> prop_write_stream" where
  "pw_write v b = b @ le_bytes (LENGTH('a) div 8) v"

definition pw_writeString :: "u8 list \<Rightarrow> prop_write_stream \<Rightarrow> prop_write_stream" where
  "pw_writeString str b =
     (if length str > 65535 then pw_write (0 :: u16) b
      else pw_write (of_nat (length str) :: u16) b @ str)"

text \<open>
  The contract between the two sides: what one operation appends, the matching operation
  reads back from the front, leaving the rest.
\<close>

locale byte_codec =
  fixes put :: "'v \<Rightarrow> u8 list \<Rightarrow> u8 list"
    and get :: "u8 list \<Rightarrow> ('v \<times> u8 list) option"
    and ok :: "'v \<Rightarrow> bool"
  assumes put_appends: "put v b = b @ put v []"
    and get_put: "ok v \<Longrightarrow> get (put v [] @ rest) = Some (v, rest)"
begin

fun put_all :: "'v list \<Rightarrow> u8 list \<Rightarrow> u8 list" where
  "put_all [] b = b"
| "put_all (v # vs) b = put_all vs (put v b)"

fun get_all :: "nat \<Rightarrow> u8 list \<Rightarrow> ('v list \<times> u8 list) option" where
  "get_all 0 p = Some ([], p)"
| "get_all (Suc n) p = (case get p of None \<Rightarrow> None | Some (v, p1) \<Rightarrow>
     (case get_all n p1 of None \<Rightarrow> None | Some (vs, p2) \<Rightarrow> Some (v # vs, p2)))"

lemma put_all_appends: "put_all vs b = b @ put_all vs []"
proof (induction vs arbitrary: b)
  case Nil
  then show ?case by simp
next
  case (Cons v vs)
  show ?case
    using Cons.IH [of "put v b"] Cons.IH [of "put v []"] put_appends [of v b] by simp
qed

lemma get_all_put_all:
  "(\<And>v. v \<in> set vs \<Longrightarrow> ok v) \<Longrightarrow> get_all (length vs) (put_all vs [] @ rest) = Some (vs, rest)"
proof (induction vs)
  case Nil
  then show ?case by simp
next
  case (Cons v vs)
  have "put_all (v # vs) [] @ rest = put v [] @ (put_all vs [] @ rest)"
    using put_all_appends [of vs "put v []"] by simp
  then show ?case using Cons by (simp add: get_put)
qed

end

text \<open>The attributes a stream carries, and the pair of operations on them.\<close>

datatype prop_value = PU8 u8 | PU16 u16 | PU32 u32 | PU64 u64 | PStr "u8 list"

fun pw_value :: "prop_value \<Rightarrow> prop_write_stream \<Rightarrow> prop_write_stream" where
  "pw_value (PU8 w) b = pw_write w b"
| "pw_value (PU16 w) b = pw_write w b"
| "pw_value (PU32 w) b = pw_write w b"
| "pw_value (PU64 w) b = pw_write w b"
| "pw_value (PStr s) b = pw_writeString s b"

lemma ps_read_image:
  "LENGTH('a::len) = 8 * n \<Longrightarrow> ps_read (le_bytes n (w :: 'a word) @ rest) = Some (w, rest)"
  by (simp add: ps_read_def ps_size_def)

lemma ps_readString_image:
  assumes "length s \<le> 65535"
  shows "ps_readString (pw_writeString s [] @ rest) = Some (s, rest)"
proof -
  have l: "unat (of_nat (length s) :: u16) = length s"
    using assms by (simp add: unat_of_nat)
  have "ps_read (le_bytes 2 (of_nat (length s) :: u16) @ s @ rest) = Some (of_nat (length s) :: u16, s @ rest)"
    by (rule ps_read_image) simp
  then show ?thesis
    using assms l by (simp add: ps_readString_def pw_writeString_def pw_write_def ps_size_def)
qed

interpretation u16_codec: byte_codec "pw_write :: u16 \<Rightarrow> _" ps_read "\<lambda>_. True"
  by unfold_locales (simp_all add: pw_write_def ps_read_image)

interpretation u32_codec: byte_codec "pw_write :: u32 \<Rightarrow> _" ps_read "\<lambda>_. True"
  by unfold_locales (simp_all add: pw_write_def ps_read_image)

interpretation string_codec: byte_codec pw_writeString ps_readString "\<lambda>s. length s \<le> 65535"
  by unfold_locales (simp_all add: ps_readString_image, simp add: pw_writeString_def pw_write_def)

text \<open>The operations applied one after the other, as the item and condition serialisers do.\<close>

definition ps_write_strings :: "u8 list list \<Rightarrow> prop_write_stream \<Rightarrow> prop_write_stream" where
  "ps_write_strings ss b = fold pw_writeString ss b"

fun ps_read_strings :: "nat \<Rightarrow> prop_stream \<Rightarrow> (u8 list list \<times> prop_stream) option" where
  "ps_read_strings 0 p = Some ([], p)"
| "ps_read_strings (Suc n) p = (case ps_readString p of None \<Rightarrow> None | Some (s, p1) \<Rightarrow>
     map_option (map_prod (Cons s) id) (ps_read_strings n p1))"

lemma ps_write_strings_put_all: "ps_write_strings ss b = string_codec.put_all ss b"
  by (induction ss arbitrary: b) (simp_all add: ps_write_strings_def)

lemma ps_read_strings_get_all: "ps_read_strings n p = string_codec.get_all n p"
  by (induction n arbitrary: p) (auto split: option.splits)

text \<open>Any list of strings of representable length, written one after the other to a cleared
  write stream, is read back in order by the same number of \<open>readString\<close> calls, which leave
  whatever was appended after them.\<close>

lemma prop_strings_roundtrip:
  assumes "\<forall>s\<in>set ss. length s \<le> 65535"
  shows "ps_read_strings (length ss) (ps_write_strings ss (pw_clear b) @ rest) = Some (ss, rest)"
  using assms
  by (simp add: ps_write_strings_put_all ps_read_strings_get_all pw_clear_def string_codec.get_all_put_all)

theorem prop_strings_roundtrip_witness:
  "ps_read_strings 2 (ps_write_strings [[1, 2], []] (pw_clear [9]) @ [7]) = Some ([[1, 2], []], [7])"
  using prop_strings_roundtrip [of "[[1, 2], []]" "[9]" "[7]"] by (simp add: numeral_2_eq_2)

text \<open>
  A string too long for its 16-bit length is written as the empty string: nothing of it
  reaches the stream, and the reader stays in step.
\<close>

lemma pw_writeString_too_long:
  "65535 < length s \<Longrightarrow> ps_readString (pw_writeString s [] @ rest) = Some ([], rest)"
  using ps_readString_image [of "[]" rest] by (simp add: pw_writeString_def)

text \<open>No reader consumes more than it was given.\<close>

lemma ps_read_consumes: "ps_read p = Some (w :: 'a::len word, q) \<Longrightarrow> length q + LENGTH('a) div 8 = length p"
  by (auto simp: ps_read_def ps_size_def Let_def split: if_splits)

lemma ps_readString_consumes:
  "ps_readString p = Some (s, q) \<Longrightarrow> length q + length s + 2 = length p"
  by (auto simp: ps_readString_def ps_size_def split: option.splits if_splits dest!: ps_read_consumes)

end
