(* ===== verification/Std_Ext.thy ===== *)
theory Std_Ext
  imports Prelude
begin

text \<open>
  The two container templates of \<open>utils/arraylist.hpp\<close> and \<open>utils/vectorset.hpp\<close>.
  Both defer work to a private \<open>update()\<close>: an \<open>arraylist\<close> keeps the elements
  pushed to the front in a second, reversed vector; a \<open>vector_set\<close> sorts and removes
  duplicates on the first read after a write. Reads of an element that is not there are undefined
  behaviour in C++ and \<open>None\<close> here.
\<close>

subsection \<open>arraylist\<close>

record 'a arraylist =
  al_back :: "'a list"
  al_front :: "'a list"
  al_needUpdate :: bool

definition al_empty_list :: "'a arraylist" where
  "al_empty_list = \<lparr>al_back = [], al_front = [], al_needUpdate = False\<rparr>"

definition al_update :: "'a arraylist \<Rightarrow> 'a arraylist" where
  "al_update a =
     (if \<not> al_needUpdate a then a
      else a\<lparr>al_needUpdate := False, al_back := rev (al_front a) @ al_back a, al_front := []\<rparr>)"

definition al_assign :: "'a list \<Rightarrow> 'a arraylist \<Rightarrow> 'a arraylist" where
  "al_assign xs a = a\<lparr>al_back := xs\<rparr>"

definition al_contains :: "'a \<Rightarrow> 'a arraylist \<Rightarrow> bool \<times> 'a arraylist" where
  "al_contains v a = (let a1 = al_update a in (v \<in> set (al_back a1), a1))"

definition al_erase :: "'a \<Rightarrow> 'a arraylist \<Rightarrow> bool \<times> 'a arraylist" where
  "al_erase v a =
     (let a1 = al_update a; i = find_index (\<lambda>x. x = v) (al_back a1)
      in if i = length (al_back a1) then (False, a1)
         else (True, a1\<lparr>al_back := erase_at i (al_back a1)\<rparr>))"

definition al_size :: "'a arraylist \<Rightarrow> nat" where
  "al_size a = length (al_back a) + length (al_front a)"

text \<open>A reversed range passed to \<open>std::vector::erase\<close> is undefined: \<open>None\<close>.\<close>

definition al_erase_range :: "nat \<Rightarrow> nat \<Rightarrow> 'a arraylist \<Rightarrow> (bool \<times> 'a arraylist) option" where
  "al_erase_range b e a =
     (let a1 = al_update a
      in if b > al_size a1 \<or> e > al_size a1 then Some (False, a1)
         else if e < b then None
         else Some (True, a1\<lparr>al_back := take b (al_back a1) @ drop e (al_back a1)\<rparr>))"

definition al_erase_if :: "('a \<Rightarrow> bool) \<Rightarrow> 'a arraylist \<Rightarrow> bool \<times> 'a arraylist" where
  "al_erase_if f a =
     (let a1 = al_update a; kept = filter (\<lambda>x. \<not> f x) (al_back a1)
      in (length (al_back a1) - length kept > 0, a1\<lparr>al_back := kept\<rparr>))"

definition al_first :: "'a arraylist \<Rightarrow> ('a \<times> 'a arraylist) option" where
  "al_first a = (let a1 = al_update a in case al_back a1 of [] \<Rightarrow> None | x # _ \<Rightarrow> Some (x, a1))"

definition al_last :: "'a arraylist \<Rightarrow> ('a \<times> 'a arraylist) option" where
  "al_last a = (let a1 = al_update a in if al_back a1 = [] then None else Some (last (al_back a1), a1))"

definition al_pop_back :: "'a arraylist \<Rightarrow> 'a arraylist option" where
  "al_pop_back a = (let a1 = al_update a in
     if al_back a1 = [] then None else Some (a1\<lparr>al_back := butlast (al_back a1)\<rparr>))"

definition al_push_front :: "'a \<Rightarrow> 'a arraylist \<Rightarrow> 'a arraylist" where
  "al_push_front v a = a\<lparr>al_needUpdate := True, al_front := al_front a @ [v]\<rparr>"

definition al_push_back :: "'a \<Rightarrow> 'a arraylist \<Rightarrow> 'a arraylist" where
  "al_push_back v a = a\<lparr>al_back := al_back a @ [v]\<rparr>"

definition al_empty :: "'a arraylist \<Rightarrow> bool" where
  "al_empty a \<longleftrightarrow> al_back a = [] \<and> al_front a = []"

definition al_data :: "'a arraylist \<Rightarrow> 'a list \<times> 'a arraylist" where
  "al_data a = (let a1 = al_update a in (al_back a1, a1))"

definition al_clear :: "'a arraylist \<Rightarrow> 'a arraylist" where
  "al_clear a = a\<lparr>al_front := [], al_back := []\<rparr>"

definition al_at :: "nat \<Rightarrow> 'a arraylist \<Rightarrow> ('a \<times> 'a arraylist) option" where
  "al_at i a = (let a1 = al_update a in
     if i < length (al_back a1) then Some (al_back a1 ! i, a1) else None)"

text \<open>The sequence an \<open>arraylist\<close> stands for, and its invariant.\<close>

definition al_list :: "'a arraylist \<Rightarrow> 'a list" where
  "al_list a = rev (al_front a) @ al_back a"

definition al_inv :: "'a arraylist \<Rightarrow> bool" where
  "al_inv a \<longleftrightarrow> (al_needUpdate a \<or> al_front a = [])"

lemmas al_defs = al_list_def al_inv_def al_update_def al_empty_list_def al_assign_def al_contains_def
  al_erase_def al_size_def al_erase_range_def al_erase_if_def al_first_def al_last_def al_pop_back_def
  al_push_front_def al_push_back_def al_empty_def al_data_def al_clear_def al_at_def Let_def

lemma al_update_list [simp]: "al_list (al_update a) = al_list a"
  by (simp add: al_defs)

lemma al_update_inv [simp]: "al_inv (al_update a) = al_inv a"
  by (simp add: al_defs)

lemma al_update_back: "al_inv a \<Longrightarrow> al_back (al_update a) = al_list a \<and> al_front (al_update a) = []"
  by (auto simp: al_defs)

text \<open>
  The interface the path finder and the creature code use: a sequence that grows at both ends.
\<close>

locale deque =
  fixes abs :: "'s \<Rightarrow> 'a list"
    and inv :: "'s \<Rightarrow> bool"
    and push_front :: "'a \<Rightarrow> 's \<Rightarrow> 's"
    and push_back :: "'a \<Rightarrow> 's \<Rightarrow> 's"
    and pop_back :: "'s \<Rightarrow> 's option"
    and clear :: "'s \<Rightarrow> 's"
  assumes push_front: "inv s \<Longrightarrow> inv (push_front x s) \<and> abs (push_front x s) = x # abs s"
    and push_back: "inv s \<Longrightarrow> inv (push_back x s) \<and> abs (push_back x s) = abs s @ [x]"
    and pop_back: "inv s \<Longrightarrow> abs s \<noteq> [] \<Longrightarrow>
       \<exists>s'. pop_back s = Some s' \<and> inv s' \<and> abs s' = butlast (abs s)"
    and clear: "inv s \<Longrightarrow> inv (clear s) \<and> abs (clear s) = []"
begin

lemma push_front_all:
  "inv s \<Longrightarrow> inv (fold push_front xs s) \<and> abs (fold push_front xs s) = rev xs @ abs s"
  by (induction xs arbitrary: s) (simp_all add: push_front)

lemma push_back_all:
  "inv s \<Longrightarrow> inv (fold push_back xs s) \<and> abs (fold push_back xs s) = abs s @ xs"
  by (induction xs arbitrary: s) (simp_all add: push_back)

lemma push_pop: "inv s \<Longrightarrow> \<exists>s'. pop_back (push_back x s) = Some s' \<and> abs s' = abs s"
  using push_back [of s x] pop_back [of "push_back x s"] by fastforce

end

interpretation al: deque al_list al_inv al_push_front al_push_back al_pop_back al_clear
proof unfold_locales
  fix s :: "'a arraylist" and x :: 'a
  assume i: "al_inv s"
  then show "al_inv (al_push_front x s) \<and> al_list (al_push_front x s) = x # al_list s"
    by (simp add: al_defs)
  from i show "al_inv (al_push_back x s) \<and> al_list (al_push_back x s) = al_list s @ [x]"
    by (auto simp: al_defs)
  from i show "al_inv (al_clear s) \<and> al_list (al_clear s) = []"
    by (simp add: al_defs)
  assume "al_list s \<noteq> []"
  with i show "\<exists>s'. al_pop_back s = Some s' \<and> al_inv s' \<and> al_list s' = butlast (al_list s)"
    by (auto simp: al_defs butlast_append)
qed

text \<open>One call of the public interface, and what it must do to the plain sequence.\<close>

datatype 'a al_op = PushFront 'a | PushBack 'a | PopBack | Erase 'a | EraseIf "'a \<Rightarrow> bool"
  | Contains 'a | First | Last | At nat | Clear

datatype 'a al_result = RUnit | RBool bool | RElem 'a

fun al_run :: "'a al_op \<Rightarrow> 'a arraylist \<Rightarrow> ('a al_result \<times> 'a arraylist) option" where
  "al_run (PushFront v) a = Some (RUnit, al_push_front v a)"
| "al_run (PushBack v) a = Some (RUnit, al_push_back v a)"
| "al_run PopBack a = map_option (Pair RUnit) (al_pop_back a)"
| "al_run (Erase v) a = Some (map_prod RBool id (al_erase v a))"
| "al_run (EraseIf f) a = Some (map_prod RBool id (al_erase_if f a))"
| "al_run (Contains v) a = Some (map_prod RBool id (al_contains v a))"
| "al_run First a = map_option (map_prod RElem id) (al_first a)"
| "al_run Last a = map_option (map_prod RElem id) (al_last a)"
| "al_run (At i) a = map_option (map_prod RElem id) (al_at i a)"
| "al_run Clear a = Some (RUnit, al_clear a)"

fun list_run :: "'a al_op \<Rightarrow> 'a list \<Rightarrow> ('a al_result \<times> 'a list) option" where
  "list_run (PushFront v) xs = Some (RUnit, v # xs)"
| "list_run (PushBack v) xs = Some (RUnit, xs @ [v])"
| "list_run PopBack xs = (if xs = [] then None else Some (RUnit, butlast xs))"
| "list_run (Erase v) xs = Some (RBool (v \<in> set xs), remove1 v xs)"
| "list_run (EraseIf f) xs = Some (RBool (\<exists>x\<in>set xs. f x), filter (\<lambda>x. \<not> f x) xs)"
| "list_run (Contains v) xs = Some (RBool (v \<in> set xs), xs)"
| "list_run First xs = (case xs of [] \<Rightarrow> None | x # _ \<Rightarrow> Some (RElem x, xs))"
| "list_run Last xs = (if xs = [] then None else Some (RElem (last xs), xs))"
| "list_run (At i) xs = (if i < length xs then Some (RElem (xs ! i), xs) else None)"
| "list_run Clear xs = Some (RUnit, [])"

fun al_runs :: "'a al_op list \<Rightarrow> 'a arraylist \<Rightarrow> ('a al_result list \<times> 'a arraylist) option" where
  "al_runs [] a = Some ([], a)"
| "al_runs (x # xs) a = Option.bind (al_run x a) (\<lambda>(r, a1).
     map_option (map_prod (Cons r) id) (al_runs xs a1))"

fun list_runs :: "'a al_op list \<Rightarrow> 'a list \<Rightarrow> ('a al_result list \<times> 'a list) option" where
  "list_runs [] a = Some ([], a)"
| "list_runs (x # xs) a = Option.bind (list_run x a) (\<lambda>(r, a1).
     map_option (map_prod (Cons r) id) (list_runs xs a1))"

lemma filter_shorter: "length (filter P xs) < length xs \<longleftrightarrow> (\<exists>x\<in>set xs. \<not> P x)"
  by (induction xs) (auto simp: less_Suc_eq_le dest: le_less_trans [OF length_filter_le])

lemma al_run_refines:
  assumes "al_inv a"
  shows "rel_option (\<lambda>(r, a') (s, xs). r = s \<and> al_inv a' \<and> al_list a' = xs)
    (al_run x a) (list_run x (al_list a))"
proof -
  note u = al_update_back [OF assms]
  have i: "al_inv (al_update a\<lparr>al_back := ys\<rparr>)" and l: "al_list (al_update a\<lparr>al_back := ys\<rparr>) = ys" for ys
    using u by (simp_all add: al_inv_def al_list_def)
  show ?thesis
  proof (cases x)
    case (Erase v)
    let ?i = "find_index (\<lambda>x. x = v) (al_list a)"
    have "?i = length (al_list a) \<longleftrightarrow> v \<notin> set (al_list a)"
      using find_index_less [of "\<lambda>x. x = v" "al_list a"] find_index_le [of "\<lambda>x. x = v" "al_list a"] by auto
    then show ?thesis
      using Erase u i l assms erase_first_remove1 [of v "al_list a"]
        find_index_less [of "\<lambda>x. x = v" "al_list a"]
      by (auto simp: al_erase_def Let_def remove1_idem)
  next
    case (EraseIf f)
    have "0 < length (al_list a) - length (filter (\<lambda>x. \<not> f x) (al_list a)) \<longleftrightarrow> (\<exists>x\<in>set (al_list a). f x)"
      using filter_shorter [of "\<lambda>x. \<not> f x" "al_list a"] by auto
    then show ?thesis
      using EraseIf u i l by (simp add: al_erase_if_def Let_def)
  next
    case PopBack
    then show ?thesis using u i l by (simp add: al_pop_back_def Let_def)
  next
    case First
    then show ?thesis using u assms by (auto simp: al_first_def Let_def split: list.splits)
  qed (use u assms in
      \<open>auto simp: al.push_front al.push_back al.clear al_contains_def al_last_def al_at_def Let_def\<close>)
qed



text \<open>Assigning a list does not replace the contents: elements pushed to the front before
  the assignment survive it and precede the assigned ones.\<close>

lemma arraylist_assign_keeps_front:
  "al_list (al_assign xs (fold al_push_front ys al_empty_list)) = rev ys @ xs"
proof -
  have "al_back (fold al_push_front ys a) = al_back a
      \<and> al_front (fold al_push_front ys a) = al_front a @ ys" for a :: "'a arraylist"
    by (induction ys arbitrary: a) (simp_all add: al_push_front_def)
  then show ?thesis by (simp add: al_list_def al_assign_def al_empty_list_def)
qed

subsection \<open>vector\_set\<close>

record 'a vector_set =
  vs_container :: "'a list"
  vs_needUpdate :: bool

definition vs_new :: "'a vector_set" where
  "vs_new = \<lparr>vs_container = [], vs_needUpdate = False\<rparr>"

definition vs_update :: "'a::linorder vector_set \<Rightarrow> 'a vector_set" where
  "vs_update v =
     (if \<not> vs_needUpdate v then v
      else v\<lparr>vs_needUpdate := False, vs_container := remdups_adj (sort (vs_container v))\<rparr>)"

text \<open>\<open>std::ranges::lower_bound\<close>: the first position whose element is not below \<open>x\<close>.\<close>

definition lower_bound :: "'a::linorder \<Rightarrow> 'a list \<Rightarrow> nat" where
  "lower_bound x xs = find_index (\<lambda>y. \<not> y < x) xs"

definition vs_contains :: "'a::linorder \<Rightarrow> 'a vector_set \<Rightarrow> bool \<times> 'a vector_set" where
  "vs_contains x v =
     (let v1 = vs_update v; i = lower_bound x (vs_container v1)
      in (i < length (vs_container v1) \<and> \<not> x < vs_container v1 ! i, v1))"

definition vs_erase :: "'a::linorder \<Rightarrow> 'a vector_set \<Rightarrow> bool \<times> 'a vector_set" where
  "vs_erase x v =
     (let v1 = vs_update v; i = lower_bound x (vs_container v1)
      in if i = length (vs_container v1) then (False, v1)
         else (True, v1\<lparr>vs_container := erase_at i (vs_container v1)\<rparr>))"

definition vs_erase_if :: "('a::linorder \<Rightarrow> bool) \<Rightarrow> 'a vector_set \<Rightarrow> bool \<times> 'a vector_set" where
  "vs_erase_if f v =
     (let v1 = vs_update v; kept = filter (\<lambda>x. \<not> f x) (vs_container v1)
      in (length (vs_container v1) - length kept > 0, v1\<lparr>vs_container := kept\<rparr>))"

definition vs_insert :: "'a \<Rightarrow> 'a vector_set \<Rightarrow> 'a vector_set" where
  "vs_insert x v = v\<lparr>vs_needUpdate := True, vs_container := vs_container v @ [x]\<rparr>"

definition vs_insertAll :: "'a list \<Rightarrow> 'a vector_set \<Rightarrow> 'a vector_set" where
  "vs_insertAll xs v = v\<lparr>vs_needUpdate := True, vs_container := vs_container v @ xs\<rparr>"

definition vs_insert_at :: "nat \<Rightarrow> 'a list \<Rightarrow> 'a vector_set \<Rightarrow> 'a vector_set" where
  "vs_insert_at i xs v = v\<lparr>vs_needUpdate := True,
     vs_container := take i (vs_container v) @ xs @ drop i (vs_container v)\<rparr>"

definition vs_empty :: "'a vector_set \<Rightarrow> bool" where
  "vs_empty v \<longleftrightarrow> vs_container v = []"

definition vs_size :: "'a::linorder vector_set \<Rightarrow> nat \<times> 'a vector_set" where
  "vs_size v = (let v1 = vs_update v in (length (vs_container v1), v1))"

definition vs_data :: "'a::linorder vector_set \<Rightarrow> 'a list \<times> 'a vector_set" where
  "vs_data v = (let v1 = vs_update v in (vs_container v1, v1))"

definition vs_clear :: "'a vector_set \<Rightarrow> 'a vector_set" where
  "vs_clear v = v\<lparr>vs_container := []\<rparr>"

definition vs_at :: "nat \<Rightarrow> 'a::linorder vector_set \<Rightarrow> ('a \<times> 'a vector_set) option" where
  "vs_at i v = (let v1 = vs_update v in
     if i < length (vs_container v1) then Some (vs_container v1 ! i, v1) else None)"

text \<open>The set a \<open>vector_set\<close> stands for; the invariant says that a container that is not
  waiting for \<open>update()\<close> is strictly sorted.\<close>

definition vs_set :: "'a vector_set \<Rightarrow> 'a set" where
  "vs_set v = set (vs_container v)"

definition vs_inv :: "'a::linorder vector_set \<Rightarrow> bool" where
  "vs_inv v \<longleftrightarrow> vs_needUpdate v \<or> sorted_wrt (<) (vs_container v)"

lemmas vs_defs = vs_set_def vs_inv_def vs_update_def vs_contains_def vs_erase_def vs_erase_if_def
  vs_insert_def vs_insertAll_def vs_insert_at_def vs_empty_def vs_size_def vs_data_def vs_clear_def
  vs_at_def vs_new_def Let_def

lemma strict_sorted_remdups_adj: "sorted xs \<Longrightarrow> sorted_wrt (<) (remdups_adj xs)"
proof (induction xs rule: remdups_adj.induct)
  case (3 x y xs)
  then show ?case
    by (cases "x = y") (auto intro: order_le_less_trans dest: order_le_imp_less_or_eq)
qed simp_all

lemma vs_update_set [simp]: "vs_set (vs_update v) = vs_set v"
  by (simp add: vs_defs)

lemma vs_update_sorted: "vs_inv v \<Longrightarrow> sorted_wrt (<) (vs_container (vs_update v))"
  by (auto simp: vs_defs strict_sorted_remdups_adj)

lemma vs_update_inv [simp]: "vs_inv v \<Longrightarrow> vs_inv (vs_update v)"
  by (simp add: vs_inv_def [of "vs_update v"] vs_update_sorted)

lemma lower_bound_less: "lower_bound x xs < length xs \<longleftrightarrow> (\<exists>y\<in>set xs. x \<le> y)"
  by (simp add: lower_bound_def find_index_less not_less)

lemma lower_bound_end: "lower_bound x xs = length xs \<longleftrightarrow> (\<forall>y\<in>set xs. y < x)"
  using lower_bound_less [of x xs] find_index_le [of "\<lambda>y. \<not> y < x" xs]
  by (auto simp: lower_bound_def not_le)

lemma lower_bound_nth:
  "sorted_wrt (<) xs \<Longrightarrow> \<exists>y\<in>set xs. x \<le> y \<Longrightarrow>
    xs ! lower_bound x xs = Min {y \<in> set xs. x \<le> y}"
proof (induction xs)
  case Nil
  then show ?case by simp
next
  case (Cons a xs)
  show ?case
  proof (cases "a < x")
    case True
    then have "{y \<in> set (a # xs). x \<le> y} = {y \<in> set xs. x \<le> y}" by auto
    then show ?thesis using Cons True by (auto simp: lower_bound_def)
  next
    case False
    have "Min {y \<in> set (a # xs). x \<le> y} = a"
      by (rule Min_eqI) (use False Cons.prems(1) in auto)
    then show ?thesis using False by (simp add: lower_bound_def)
  qed
qed

lemma erase_at_strict:
  "sorted_wrt (<) (xs :: 'a::linorder list) \<Longrightarrow> i < length xs \<Longrightarrow>
    set (erase_at i xs) = set xs - {xs ! i} \<and> sorted_wrt (<) (erase_at i xs)"
proof (induction xs arbitrary: i)
  case Nil
  then show ?case by simp
next
  case (Cons a xs)
  show ?case
  proof (cases i)
    case 0
    have "a \<notin> set xs" using Cons.prems(1) by auto
    then show ?thesis using Cons.prems 0 by (simp add: erase_at_def)
  next
    case (Suc j)
    have e: "erase_at (Suc j) (a # xs) = a # erase_at j xs" by (simp add: erase_at_def)
    have IH: "set (erase_at j xs) = set xs - {xs ! j} \<and> sorted_wrt (<) (erase_at j xs)"
      using Cons Suc by simp
    have "a \<noteq> xs ! j" using Cons.prems Suc by auto
    then show ?thesis using IH Cons.prems(1) by (auto simp: e Suc)
  qed
qed

text \<open>
  The interface of a set with a membership test, as the callers of \<open>vector_set\<close> use it.
  \<open>erase\<close> is not part of it: it does not remove the element it is given.
\<close>

locale set_container =
  fixes abs :: "'s \<Rightarrow> 'a set"
    and inv :: "'s \<Rightarrow> bool"
    and insert_op :: "'a \<Rightarrow> 's \<Rightarrow> 's"
    and contains_op :: "'a \<Rightarrow> 's \<Rightarrow> bool \<times> 's"
    and filter_op :: "('a \<Rightarrow> bool) \<Rightarrow> 's \<Rightarrow> bool \<times> 's"
    and clear_op :: "'s \<Rightarrow> 's"
  assumes insert_law: "inv s \<Longrightarrow> inv (insert_op x s) \<and> abs (insert_op x s) = insert x (abs s)"
    and contains_law: "inv s \<Longrightarrow> contains_op x s = (b, s') \<Longrightarrow>
      (b \<longleftrightarrow> x \<in> abs s) \<and> inv s' \<and> abs s' = abs s"
    and filter_law: "inv s \<Longrightarrow> filter_op f s = (b, s') \<Longrightarrow>
      (b \<longleftrightarrow> (\<exists>x\<in>abs s. f x)) \<and> inv s' \<and> abs s' = {x \<in> abs s. \<not> f x}"
    and clear_law: "inv s \<Longrightarrow> inv (clear_op s) \<and> abs (clear_op s) = {}"
begin

lemma insert_many: "inv s \<Longrightarrow> inv (fold insert_op xs s) \<and> abs (fold insert_op xs s) = set xs \<union> abs s"
  by (induction xs arbitrary: s) (simp_all add: insert_law)

lemma contains_after_inserts:
  "inv s \<Longrightarrow> fst (contains_op x (fold insert_op xs s)) \<longleftrightarrow> x \<in> set xs \<or> x \<in> abs s"
  using insert_many [of s xs] contains_law [of "fold insert_op xs s" x]
  by (metis UnE UnI1 UnI2 prod.collapse)

lemma contains_after_filter:
  "inv s \<Longrightarrow> fst (contains_op x (snd (filter_op f s))) \<longleftrightarrow> x \<in> abs s \<and> \<not> f x"
  using filter_law [of s f] contains_law [of "snd (filter_op f s)" x]
  by (metis (mono_tags, lifting) mem_Collect_eq prod.collapse)

end

lemma vs_contains_iff:
  assumes "vs_inv v"
  shows "fst (vs_contains x v) \<longleftrightarrow> x \<in> vs_set v"
proof -
  let ?xs = "vs_container (vs_update v)"
  have s: "sorted_wrt (<) ?xs" using assms by (rule vs_update_sorted)
  have e: "set ?xs = vs_set v" using vs_update_set [of v] by (simp add: vs_set_def)
  have "lower_bound x ?xs < length ?xs \<and> \<not> x < ?xs ! lower_bound x ?xs \<longleftrightarrow> x \<in> set ?xs"
  proof
    assume a: "lower_bound x ?xs < length ?xs \<and> \<not> x < ?xs ! lower_bound x ?xs"
    then have "\<not> ?xs ! lower_bound x ?xs < x"
      using find_index_nth [of "\<lambda>y. \<not> y < x" ?xs] by (simp add: lower_bound_def)
    with a show "x \<in> set ?xs" by (metis nth_mem neqE)
  next
    assume a: "x \<in> set ?xs"
    then have "Min {y \<in> set ?xs. x \<le> y} = x" by (intro Min_eqI) auto
    then show "lower_bound x ?xs < length ?xs \<and> \<not> x < ?xs ! lower_bound x ?xs"
      using a lower_bound_nth [OF s, of x] lower_bound_less [of x ?xs] by fastforce
  qed
  then show ?thesis by (simp add: vs_contains_def Let_def e)
qed

interpretation vs: set_container vs_set vs_inv vs_insert vs_contains vs_erase_if vs_clear
proof unfold_locales
  fix v v' :: "'a::linorder vector_set" and x b f
  assume i: "vs_inv v"
  show "vs_inv (vs_insert x v) \<and> vs_set (vs_insert x v) = insert x (vs_set v)"
    by (auto simp: vs_defs)
  show "vs_inv (vs_clear v) \<and> vs_set (vs_clear v) = {}"
    by (simp add: vs_defs)
  assume c: "vs_contains x v = (b, v')"
  then have "v' = vs_update v" by (simp add: vs_contains_def Let_def)
  then show "(b \<longleftrightarrow> x \<in> vs_set v) \<and> vs_inv v' \<and> vs_set v' = vs_set v"
    using i vs_contains_iff [OF i, of x] c by simp
next
  fix v v' :: "'a::linorder vector_set" and b f
  assume i: "vs_inv v" and c: "vs_erase_if f v = (b, v')"
  have e: "set (vs_container (vs_update v)) = vs_set v"
    using vs_update_set [of v] by (simp add: vs_set_def)
  have "v' = vs_update v\<lparr>vs_container := filter (\<lambda>x. \<not> f x) (vs_container (vs_update v))\<rparr>"
    using c by (simp add: vs_erase_if_def Let_def)
  then have s: "vs_inv v' \<and> vs_set v' = {x \<in> vs_set v. \<not> f x}"
    using vs_update_sorted [OF i] e by (auto simp: vs_inv_def vs_set_def sorted_wrt_filter)
  have "b \<longleftrightarrow> length (filter (\<lambda>x. \<not> f x) (vs_container (vs_update v))) < length (vs_container (vs_update v))"
    using c by (auto simp: vs_erase_if_def Let_def)
  then show "(b \<longleftrightarrow> (\<exists>x\<in>vs_set v. f x)) \<and> vs_inv v' \<and> vs_set v' = {x \<in> vs_set v. \<not> f x}"
    using s by (simp add: filter_shorter e)
qed

text \<open>\<open>vector_set::erase\<close> removes the least element that is not below the argument: the
  argument itself when it is present, a larger element when it is not, and nothing only when no
  element is at least as large.\<close>

lemma vector_set_erase_least:
  assumes "vs_inv v" and "vs_erase x v = (b, v')"
  shows "vs_inv v' \<and> (b \<longleftrightarrow> (\<exists>y\<in>vs_set v. x \<le> y)) \<and>
    vs_set v' = (if b then vs_set v - {Min {y \<in> vs_set v. x \<le> y}} else vs_set v)"
proof -
  let ?xs = "vs_container (vs_update v)"
  have s: "sorted_wrt (<) ?xs" using assms(1) by (rule vs_update_sorted)
  have e: "set ?xs = vs_set v" using vs_update_set [of v] by (simp add: vs_set_def)
  show ?thesis
  proof (cases "\<exists>y\<in>vs_set v. x \<le> y")
    case True
    then have l: "lower_bound x ?xs < length ?xs" by (simp add: lower_bound_less e)
    then have "b" and v': "v' = vs_update v\<lparr>vs_container := erase_at (lower_bound x ?xs) ?xs\<rparr>"
      using assms(2) by (auto simp: vs_erase_def Let_def)
    then show ?thesis
      using True erase_at_strict [OF s l] lower_bound_nth [OF s, of x]
      by (simp add: vs_inv_def vs_set_def [of "vs_update v\<lparr>vs_container := _\<rparr>"] e)
  next
    case False
    then have l: "lower_bound x ?xs = length ?xs" by (auto simp: lower_bound_end e)
    then show ?thesis
      using False assms by (auto simp: vs_erase_def Let_def)
  qed
qed

theorem vector_set_erase_least_witness:
  "let v = fold vs_insert [5, 9, 3::nat] vs_new
   in vs_inv v \<and> fst (vs_erase 6 v) \<and> vs_set (snd (vs_erase 6 v)) = {3, 5}"
proof -
  let ?v = "fold vs_insert [5, 9, 3::nat] vs_new"
  have i: "vs_inv ?v" and s: "vs_set ?v = {5, 9, 3}"
    by (auto simp: vs_inv_def vs_insert_def vs_set_def vs_new_def)
  have m: "{y \<in> {5, 9, 3::nat}. 6 \<le> y} = {9}" by auto
  obtain b v' where e: "vs_erase 6 ?v = (b, v')" by fastforce
  have r: "vs_inv v' \<and> (b \<longleftrightarrow> (\<exists>y\<in>{5, 9, 3::nat}. 6 \<le> y)) \<and>
      vs_set v' = (if b then {5, 9, 3} - {Min {9}} else {5, 9, 3})"
    using vector_set_erase_least [OF i e] by (simp only: s m)
  then have b: b by simp
  have d: "{5, 9, 3} - {9} = {3, 5::nat}" by auto
  have "vs_set v' = {3, 5}" using r b d by simp
  with b i show ?thesis unfolding Let_def e by simp
qed

end
