(* ===== verification/File_Stream.thy ===== *)
theory File_Stream
  imports Prelude
begin

text \<open>
  The reader of map files (\<open>io/filestream.cpp\<close>): a byte vector with a 32-bit cursor and a
  count of the nodes that are open. Inside a node every special byte of the file is preceded by an
  escape byte. The exceptions of the source are values; an access to the vector past its end, which
  C++ leaves undefined, is the value \<open>Out_Of_Range\<close>.
\<close>

subsection \<open>State and operations\<close>

record filestream =
  fs_nodes :: u32
  fs_pos :: u32
  fs_data :: "u8 list"

datatype fs_error = Seek_Failed | Size_Overflow | Read_Failed | Get_U8_Failed
  | String_Read_Failed | String_Too_Big | Out_Of_Range

abbreviation OTB_ESCAPE :: u8 where "OTB_ESCAPE \<equiv> 0xFD"
abbreviation OTB_START :: u8 where "OTB_START \<equiv> 0xFE"
abbreviation OTB_END :: u8 where "OTB_END \<equiv> 0xFF"

type_synonym 'a fs = "filestream \<Rightarrow> (fs_error + 'a) \<times> filestream"

definition fs_bind :: "'a fs \<Rightarrow> ('a \<Rightarrow> 'b fs) \<Rightarrow> 'b fs" where
  "fs_bind m f s = (case m s of (Inl e, s') \<Rightarrow> (Inl e, s') | (Inr x, s') \<Rightarrow> f x s')"

definition fs_open :: "u8 list \<Rightarrow> filestream" where
  "fs_open data = \<lparr>fs_nodes = 0, fs_pos = 0, fs_data = data\<rparr>"

definition fs_tell :: "filestream \<Rightarrow> u32" where
  "fs_tell s = fs_pos s"

definition fs_seek :: "u32 \<Rightarrow> unit fs" where
  "fs_seek pos s =
     (if unat pos > length (fs_data s) then (Inl Seek_Failed, s) else (Inr (), s\<lparr>fs_pos := pos\<rparr>))"

definition fs_skip :: "u32 \<Rightarrow> unit fs" where
  "fs_skip len s = fs_seek (fs_tell s + len) s"

definition fs_size :: "u32 fs" where
  "fs_size s = (if length (fs_data s) > 2 ^ 32 - 1 then (Inl Size_Overflow, s)
     else (Inr (of_nat (length (fs_data s))), s))"

text \<open>\<open>m_data[m_pos]\<close> followed by \<open>++m_pos\<close>, and the test of the escape byte before it.\<close>

definition fs_take :: "u8 fs" where
  "fs_take s = (if unat (fs_pos s) < length (fs_data s)
     then (Inr (fs_data s ! unat (fs_pos s)), s\<lparr>fs_pos := fs_pos s + 1\<rparr>) else (Inl Out_Of_Range, s))"

definition fs_take_escaped :: "u8 fs" where
  "fs_take_escaped s =
     (if unat (fs_pos s) < length (fs_data s)
      then fs_take (if fs_data s ! unat (fs_pos s) = OTB_ESCAPE then s\<lparr>fs_pos := fs_pos s + 1\<rparr> else s)
      else (Inl Out_Of_Range, s))"

fun fs_take_many :: "nat \<Rightarrow> u8 list fs" where
  "fs_take_many 0 s = (Inr [], s)"
| "fs_take_many (Suc n) s =
     fs_bind fs_take_escaped (\<lambda>b. fs_bind (fs_take_many n) (\<lambda>bs. Pair (Inr (b # bs)))) s"

definition fs_read :: "bool \<Rightarrow> 'a::len word fs" where
  "fs_read escape s =
     (let n = LENGTH('a) div 8 in
      if unat (fs_pos s) + n > length (fs_data s) then (Inl Read_Failed, s)
      else if escape then fs_bind (fs_take_many n) (\<lambda>bs. Pair (Inr (of_le bs))) s
      else (Inr (of_le (take n (drop (unat (fs_pos s)) (fs_data s)))), s\<lparr>fs_pos := fs_pos s + of_nat n\<rparr>))"

text \<open>The sum \<open>m_pos + 1\<close> is computed with 32 bits.\<close>

definition fs_getU8 :: "u8 fs" where
  "fs_getU8 s =
     (if unat (fs_pos s + 1) > length (fs_data s) then (Inl Get_U8_Failed, s)
      else if fs_nodes s > 0 then fs_take_escaped s else fs_take s)"

definition fs_getU16 :: "u16 fs" where "fs_getU16 s = fs_read (fs_nodes s > 0) s"
definition fs_getU32 :: "u32 fs" where "fs_getU32 s = fs_read (fs_nodes s > 0) s"
definition fs_getU64 :: "u64 fs" where "fs_getU64 s = fs_read (fs_nodes s > 0) s"

definition fs_getString :: "u8 list fs" where
  "fs_getString = fs_bind fs_getU16 (\<lambda>len s.
     if len > 0 \<and> len < 8192 then
       if unat (fs_pos s + ucast len) > length (fs_data s) then (Inl String_Read_Failed, s)
       else if unat (fs_pos s) + unat len > length (fs_data s) then (Inl Out_Of_Range, s)
       else (Inr (take (unat len) (drop (unat (fs_pos s)) (fs_data s))), s\<lparr>fs_pos := fs_pos s + ucast len\<rparr>)
     else if len \<noteq> 0 then (Inl String_Too_Big, s) else (Inr [], s))"

definition fs_back :: "u32 \<Rightarrow> filestream \<Rightarrow> filestream" where
  "fs_back n s = s\<lparr>fs_pos := fs_pos s - n\<rparr>"

definition fs_isProp :: "u8 \<Rightarrow> bool \<Rightarrow> bool fs" where
  "fs_isProp prop toNext = fs_bind fs_getU8 (\<lambda>b s.
     if b = prop then (Inr True, if \<not> toNext then fs_back 1 s else s)
     else (Inr False, fs_back 1 s))"

definition fs_startNode :: "u8 \<Rightarrow> bool fs" where
  "fs_startNode ty = fs_bind fs_getU8 (\<lambda>b s.
     if b = OTB_START then
       if ty = 0 then (Inr True, s\<lparr>fs_nodes := fs_nodes s + 1\<rparr>)
       else fs_bind fs_getU8 (\<lambda>t s1.
         if t = ty then (Inr True, s1\<lparr>fs_nodes := fs_nodes s1 + 1\<rparr>)
         else (Inr False, fs_back 1 (fs_back 1 s1))) s
     else (Inr False, fs_back 1 s))"

definition fs_endNode :: "bool fs" where
  "fs_endNode = fs_bind fs_getU8 (\<lambda>b s.
     if b = OTB_END then (Inr True, s\<lparr>fs_nodes := fs_nodes s - 1\<rparr>)
     else (Inr False, fs_back 1 s))"

subsection \<open>What the bytes of a node stand for\<close>

text \<open>
  \<open>unesc\<close> lists the bytes a node holds; an escape byte at the very end escapes nothing.
  \<open>escape\<close> is the encoding a map writer uses.
\<close>

fun unesc :: "u8 list \<Rightarrow> u8 list" where
  "unesc [] = []"
| "unesc [x] = (if x = OTB_ESCAPE then [] else [x])"
| "unesc (x # y # r) = (if x = OTB_ESCAPE then y # unesc r else x # unesc (y # r))"

definition special :: "u8 \<Rightarrow> bool" where
  "special b \<longleftrightarrow> b = OTB_ESCAPE \<or> b = OTB_START \<or> b = OTB_END"

definition escape :: "u8 list \<Rightarrow> u8 list" where
  "escape bs = concat (map (\<lambda>b. if special b then [OTB_ESCAPE, b] else [b]) bs)"

lemma escape_simps [simp]:
  "escape [] = []"
  "escape (b # bs) = (if special b then OTB_ESCAPE # b # escape bs else b # escape bs)"
  "escape (xs @ ys) = escape xs @ escape ys"
  by (simp_all add: escape_def)

lemma special_escape [simp]: "special OTB_ESCAPE" "special OTB_START" "special OTB_END"
  by (simp_all add: special_def)

lemma unesc_cons: "x \<noteq> OTB_ESCAPE \<Longrightarrow> unesc (x # r) = x # unesc r"
  by (cases r) simp_all

lemma unesc_escape [simp]: "unesc (escape bs @ r) = bs @ unesc r"
  by (induction bs) (auto simp: unesc_cons special_def)

lemma length_unesc: "length (unesc bs) \<le> length bs"
  by (induction bs rule: unesc.induct) auto

definition fs_rest :: "filestream \<Rightarrow> u8 list" where
  "fs_rest s = drop (unat (fs_pos s)) (fs_data s)"

definition fs_ok :: "filestream \<Rightarrow> bool" where
  "fs_ok s \<longleftrightarrow> length (fs_data s) < 2 ^ 32 - 1"

lemma fs_pos_Suc: "fs_ok s \<Longrightarrow> unat (fs_pos s) < length (fs_data s) \<Longrightarrow>
    unat (fs_pos s + 1) = Suc (unat (fs_pos s))"
  using unat_plus_of_nat [of "fs_pos s" 1] by (simp add: fs_ok_def)

lemma fs_take_rest:
  assumes "fs_ok s" and "fs_rest s = x # r"
  shows "\<exists>s'. fs_take s = (Inr x, s') \<and> fs_rest s' = r \<and> fs_ok s' \<and> fs_nodes s' = fs_nodes s
    \<and> fs_data s' = fs_data s \<and> unat (fs_pos s') = unat (fs_pos s) + 1"
proof -
  have l: "unat (fs_pos s) < length (fs_data s)"
    using assms(2) by (metis drop_all fs_rest_def list.distinct(1) not_less)
  then have "fs_data s ! unat (fs_pos s) = x \<and> drop (Suc (unat (fs_pos s))) (fs_data s) = r"
    using assms(2) by (metis Cons_nth_drop_Suc fs_rest_def list.inject)
  then show ?thesis
    using l assms(1) fs_pos_Suc [OF assms(1) l] by (simp add: fs_take_def fs_rest_def fs_ok_def)
qed

lemma fs_rest_Nil: "fs_rest s = [] \<longleftrightarrow> \<not> unat (fs_pos s) < length (fs_data s)"
  by (simp add: fs_rest_def not_less)

lemma fs_rest_Cons: "fs_rest s = x # r \<Longrightarrow>
    unat (fs_pos s) < length (fs_data s) \<and> fs_data s ! unat (fs_pos s) = x"
  by (metis Cons_nth_drop_Suc drop_all fs_rest_def list.distinct(1) list.inject not_less)

lemma fs_take_escaped_rest:
  assumes "fs_ok s"
  shows "case unesc (fs_rest s) of
      [] \<Rightarrow> fst (fs_take_escaped s) = Inl Out_Of_Range
    | x # u \<Rightarrow> \<exists>s'. fs_take_escaped s = (Inr x, s') \<and> unesc (fs_rest s') = u \<and> fs_ok s'
        \<and> fs_nodes s' = fs_nodes s \<and> fs_data s' = fs_data s"
proof (cases "fs_rest s" rule: unesc.cases)
  case 1
  moreover have "\<not> unat (fs_pos s) < length (fs_data s)" using 1 by (simp add: fs_rest_Nil)
  ultimately show ?thesis by (simp add: fs_take_escaped_def)
next
  case (2 x)
  then show ?thesis
    using fs_take_rest [OF assms 2] fs_rest_Cons [OF 2] fs_pos_Suc [OF assms]
    by (auto simp: fs_take_escaped_def fs_take_def fs_rest_def)
next
  case (3 x y r)
  show ?thesis
  proof (cases "x = OTB_ESCAPE")
    case True
    let ?t = "s\<lparr>fs_pos := fs_pos s + 1\<rparr>"
    have "fs_rest ?t = y # r \<and> fs_ok ?t"
      using fs_take_rest [OF assms 3] fs_rest_Cons [OF 3] by (auto simp: fs_take_def)
    then show ?thesis
      using fs_take_rest [of ?t y r] fs_rest_Cons [OF 3] True 3 by (auto simp: fs_take_escaped_def)
  next
    case False
    then show ?thesis
      using fs_take_rest [OF assms 3] fs_rest_Cons [OF 3] 3 by (auto simp: fs_take_escaped_def)
  qed
qed

lemma fs_take_many_rest:
  assumes "fs_ok s"
  shows "if length (unesc (fs_rest s)) < n then fst (fs_take_many n s) = Inl Out_Of_Range
    else \<exists>s'. fs_take_many n s = (Inr (take n (unesc (fs_rest s))), s') \<and> fs_ok s'
      \<and> unesc (fs_rest s') = drop n (unesc (fs_rest s)) \<and> fs_nodes s' = fs_nodes s
      \<and> fs_data s' = fs_data s"
  using assms
proof (induction n arbitrary: s)
  case 0
  then show ?case by simp
next
  case (Suc n)
  show ?case
  proof (cases "unesc (fs_rest s)")
    case Nil
    then show ?thesis
      using fs_take_escaped_rest [OF Suc.prems] by (auto simp: fs_bind_def split: prod.splits)
  next
    case (Cons x u)
    then obtain s' where s': "fs_take_escaped s = (Inr x, s')" "unesc (fs_rest s') = u" "fs_ok s'"
      "fs_nodes s' = fs_nodes s" "fs_data s' = fs_data s"
      using fs_take_escaped_rest [OF Suc.prems] by auto
    then show ?thesis
      using Suc.IH [OF s'(3)] Cons
      by (auto simp: fs_bind_def split: prod.splits sum.splits if_splits)
  qed
qed

lemma fs_rest_length: "fs_ok s \<Longrightarrow> unat (fs_pos s) \<le> length (fs_data s) \<Longrightarrow>
    unat (fs_pos s) + n > length (fs_data s) \<longleftrightarrow> length (fs_rest s) < n"
  by (auto simp: fs_rest_def)

text \<open>Inside a node, reading a \<open>k\<close>-byte integer fails with the exception only when
  fewer than \<open>k\<close> raw bytes are left. When there are enough raw bytes but escape bytes among them
  leave fewer than \<open>k\<close> data bytes, the vector is accessed past its end; otherwise the value is the
  little-endian image of the next \<open>k\<close> unescaped bytes, and the stream is left at the bytes after
  them.\<close>

lemma read_in_node:
  assumes "fs_ok s" and "unat (fs_pos s) \<le> length (fs_data s)"
  shows "case fs_read True s :: (fs_error + 'a::len word) \<times> filestream of
      (Inl e, _) \<Rightarrow>
        (e = Read_Failed \<and> length (fs_rest s) < LENGTH('a) div 8) \<or>
        (e = Out_Of_Range \<and> length (unesc (fs_rest s)) < LENGTH('a) div 8
          \<and> LENGTH('a) div 8 \<le> length (fs_rest s))
    | (Inr v, s') \<Rightarrow>
        LENGTH('a) div 8 \<le> length (unesc (fs_rest s)) \<and>
        v = of_le (take (LENGTH('a) div 8) (unesc (fs_rest s))) \<and>
        unesc (fs_rest s') = drop (LENGTH('a) div 8) (unesc (fs_rest s)) \<and> fs_nodes s' = fs_nodes s"
proof -
  let ?n = "LENGTH('a) div 8"
  show ?thesis
    using fs_rest_length [OF assms, of ?n] fs_take_many_rest [OF assms(1), of ?n]
      length_unesc [of "fs_rest s"]
    by (auto simp: fs_read_def fs_bind_def Let_def split: prod.splits sum.splits if_splits)
qed

definition fs_sample :: filestream where
  "fs_sample = \<lparr>fs_nodes = 1, fs_pos = 0, fs_data = [0xFD, 0xFF, 0x01]\<rparr>"

theorem read_in_node_witness:
  "fs_ok fs_sample \<and> unat (fs_pos fs_sample) \<le> length (fs_data fs_sample) \<and>
   fst (fs_getU16 fs_sample) = Inr 0x1FF"
proof -
  have o: "fs_ok fs_sample" "unat (fs_pos fs_sample) \<le> length (fs_data fs_sample)"
    by (simp_all add: fs_sample_def fs_ok_def)
  have u: "unesc (fs_rest fs_sample) = [0xFF, 0x01]" and l: "length (fs_rest fs_sample) = 3"
    by (simp_all add: fs_sample_def fs_rest_def)
  have "(of_le [0xFF, 0x01] :: u16) = 0x1FF" by simp
  then show ?thesis
    using read_in_node [OF o, where ?'a = 16] u o l
    by (auto simp: fs_getU16_def fs_sample_def split: prod.splits sum.splits)
qed

text \<open>The values a map writer puts into a node, and reading them back one after the other.\<close>

datatype fs_value = VU8 u8 | VU16 u16 | VU32 u32 | VU64 u64

fun value_bytes :: "fs_value \<Rightarrow> u8 list" where
  "value_bytes (VU8 v) = [v]"
| "value_bytes (VU16 v) = le_bytes 2 v"
| "value_bytes (VU32 v) = le_bytes 4 v"
| "value_bytes (VU64 v) = le_bytes 8 v"

fun read_like :: "fs_value \<Rightarrow> fs_value fs" where
  "read_like (VU8 _) = fs_bind fs_getU8 (\<lambda>v. Pair (Inr (VU8 v)))"
| "read_like (VU16 _) = fs_bind fs_getU16 (\<lambda>v. Pair (Inr (VU16 v)))"
| "read_like (VU32 _) = fs_bind fs_getU32 (\<lambda>v. Pair (Inr (VU32 v)))"
| "read_like (VU64 _) = fs_bind fs_getU64 (\<lambda>v. Pair (Inr (VU64 v)))"

fun read_all_like :: "fs_value list \<Rightarrow> fs_value list fs" where
  "read_all_like [] = Pair (Inr [])"
| "read_all_like (v # vs) =
     fs_bind (read_like v) (\<lambda>w. fs_bind (read_all_like vs) (\<lambda>ws. Pair (Inr (w # ws))))"

lemma fs_rest_pos: "fs_rest s \<noteq> [] \<Longrightarrow> unat (fs_pos s) \<le> length (fs_data s)"
  by (simp add: fs_rest_def)

lemma fs_getU8_node:
  assumes "fs_ok s" and "fs_nodes s > 0" and "unesc (fs_rest s) = x # u"
  shows "\<exists>s'. fs_getU8 s = (Inr x, s') \<and> unesc (fs_rest s') = u \<and> fs_ok s' \<and> fs_nodes s' = fs_nodes s"
proof -
  have "unat (fs_pos s) < length (fs_data s)"
    using assms(3) fs_rest_Nil [of s] by fastforce
  then have "\<not> unat (fs_pos s + 1) > length (fs_data s)"
    using fs_pos_Suc [OF assms(1)] by simp
  then show ?thesis
    using fs_take_escaped_rest [OF assms(1)] assms by (auto simp: fs_getU8_def)
qed

lemma fs_read_node:
  fixes v :: "'a::len word"
  assumes "fs_ok s" and "unesc (fs_rest s) = le_bytes (LENGTH('a) div 8) v @ u"
    and "LENGTH('a) = 8 * (LENGTH('a) div 8)"
  shows "\<exists>s'. fs_read True s = (Inr v, s') \<and> unesc (fs_rest s') = u \<and> fs_ok s' \<and> fs_nodes s' = fs_nodes s"
proof -
  let ?n = "LENGTH('a) div 8"
  have "0 < ?n" using assms(3) len_gt_0 [where 'a = 'a] by linarith
  have l: "length (unesc (fs_rest s)) \<ge> ?n" using assms(2) by simp
  then have p: "unat (fs_pos s) \<le> length (fs_data s)" and r: "\<not> length (fs_rest s) < ?n"
    using \<open>0 < ?n\<close> length_unesc [of "fs_rest s"] by (auto intro!: fs_rest_pos)
  obtain s' where s': "fs_take_many ?n s = (Inr (take ?n (unesc (fs_rest s))), s')" "fs_ok s'"
      "unesc (fs_rest s') = drop ?n (unesc (fs_rest s))" "fs_nodes s' = fs_nodes s"
    using fs_take_many_rest [OF assms(1), of ?n] l by auto
  have "of_le (le_bytes ?n v) = v" using of_le_le_bytes [of ?n, where ?'a = 'a] assms(3) by simp
  then show ?thesis
    using s' assms(2) r fs_rest_length [OF assms(1) p, of ?n]
    by (simp add: fs_read_def fs_bind_def)
qed

lemma read_like_node:
  assumes "fs_ok s" and "fs_nodes s > 0" and "unesc (fs_rest s) = value_bytes v @ u"
  shows "\<exists>s'. read_like v s = (Inr v, s') \<and> unesc (fs_rest s') = u \<and> fs_ok s' \<and> fs_nodes s' = fs_nodes s"
proof (cases v)
  case (VU8 x)
  then show ?thesis using fs_getU8_node [OF assms(1,2), of x u] assms(3) by (auto simp: fs_bind_def)
next
  case (VU16 x)
  then show ?thesis
    using fs_read_node [OF assms(1), of x u] assms(2,3) by (auto simp: fs_bind_def fs_getU16_def)
next
  case (VU32 x)
  then show ?thesis
    using fs_read_node [OF assms(1), of x u] assms(2,3) by (auto simp: fs_bind_def fs_getU32_def)
next
  case (VU64 x)
  then show ?thesis
    using fs_read_node [OF assms(1), of x u] assms(2,3) by (auto simp: fs_bind_def fs_getU64_def)
qed

text \<open>Whatever integers of one, two, four or eight bytes a writer puts into a node in escaped
  form, whichever bytes follow, reading them with the same getters inside the node returns those
  integers.\<close>

lemma node_values_roundtrip:
  assumes "fs_ok s" and "fs_nodes s > 0"
    and "fs_rest s = escape (concat (map value_bytes vs)) @ rest"
  shows "fst (read_all_like vs s) = Inr vs"
proof -
  have "unesc (fs_rest s) = concat (map value_bytes vs) @ unesc rest"
    using assms(3) by simp
  with assms(1,2) have "\<exists>s'. read_all_like vs s = (Inr vs, s')"
  proof (induction vs arbitrary: s)
    case Nil
    then show ?case by simp
  next
    case (Cons v vs)
    obtain s' where s': "read_like v s = (Inr v, s')" "fs_ok s'" "fs_nodes s' = fs_nodes s"
      "unesc (fs_rest s') = concat (map value_bytes vs) @ unesc rest"
      using read_like_node [OF Cons.prems(1,2), of v "concat (map value_bytes vs) @ unesc rest"] Cons.prems(3)
      by auto
    then show ?case using Cons.IH [OF s'(2)] Cons.prems(2) by (auto simp: fs_bind_def)
  qed
  then show ?thesis by auto
qed

theorem node_values_roundtrip_witness:
  "fst (read_all_like [VU16 0x1FF] fs_sample) = Inr [VU16 0x1FF]"
  by (rule node_values_roundtrip [where rest = "[]"])
    (simp_all add: fs_sample_def fs_ok_def fs_rest_def special_def le_bytes_numeral)

text \<open>A property test that fails inside a node puts the cursor back to where it was exactly
  when the byte at the cursor is not an escape byte; in front of an escaped byte it leaves the cursor
  between the escape byte and the byte it escapes.\<close>

lemma isProp_restores_cursor:
  assumes "fs_ok s" and "fs_nodes s > 0" and "fs_isProp prop toNext s = (Inr False, s')"
  shows "unat (fs_pos s') =
    (if fs_data s ! unat (fs_pos s) = OTB_ESCAPE then unat (fs_pos s) + 1 else unat (fs_pos s))"
proof -
  obtain b s1 where g: "fs_getU8 s = (Inr b, s1)" and s': "s' = fs_back 1 s1"
    using assms(3) by (auto simp: fs_isProp_def fs_bind_def split: prod.splits sum.splits if_splits)
  have e: "fs_take_escaped s = (Inr b, s1)"
    using g assms(2) by (simp add: fs_getU8_def split: if_splits)
  then have l: "unat (fs_pos s) < length (fs_data s)"
    by (simp add: fs_take_escaped_def split: if_splits)
  then have "fs_pos s1 = (if fs_data s ! unat (fs_pos s) = OTB_ESCAPE then fs_pos s + 2 else fs_pos s + 1)"
    using e by (auto simp: fs_take_escaped_def fs_take_def split: if_splits)
  then show ?thesis
    using fs_pos_Suc [OF assms(1) l] by (simp add: s' fs_back_def add.commute)
qed

theorem isProp_restores_cursor_witness:
  "fst (fs_isProp 7 True fs_sample) = Inr False \<and> unat (fs_pos (snd (fs_isProp 7 True fs_sample))) = 1"
proof -
  have e: "fs_isProp 7 True fs_sample = (Inr False, snd (fs_isProp 7 True fs_sample))"
    by (simp add: fs_isProp_def fs_bind_def fs_getU8_def fs_take_escaped_def fs_take_def fs_sample_def)
  have "unat (fs_pos (snd (fs_isProp 7 True fs_sample))) = 1"
    using isProp_restores_cursor [OF _ _ e] by (simp add: fs_sample_def fs_ok_def)
  then show ?thesis by (metis e fst_conv)
qed

end
