(* ===== verification/Otb_Loader.thy ===== *)
theory Otb_Loader
  imports File_Stream
begin

text \<open>
  The tree reader of \<open>io/fileloader.cpp\<close>. A node of the result keeps its type, the half-open
  range of its property bytes in the file and its children. The stack of pointers to open nodes is
  a list of frames, the top first; a finished node is moved into the frame below it.
\<close>

subsection \<open>The loader\<close>

datatype otb_error = InvalidOTBFormat

datatype otb_node = OtbNode (otb_type: u8) (propsBegin: nat) (propsEnd: nat) (otb_children: "otb_node list")

record frame =
  fr_type :: u8
  fr_begin :: nat
  fr_end :: nat
  fr_children :: "otb_node list"

definition otb_open :: "u8 list \<Rightarrow> u8 list \<Rightarrow> otb_error + u8 list" where
  "otb_open accepted data =
     (if length data \<le> 4 + 1 + 1 + 1 then Inl InvalidOTBFormat
      else if take 4 data \<noteq> accepted \<and> take 4 data \<noteq> [0, 0, 0, 0] then Inl InvalidOTBFormat
      else Inr data)"

definition set_props_end :: "nat \<Rightarrow> frame \<Rightarrow> frame" where
  "set_props_end it f = (if fr_children f = [] then f\<lparr>fr_end := it\<rparr> else f)"

definition close_frame :: "frame \<Rightarrow> otb_node" where
  "close_frame f = OtbNode (fr_type f) (fr_begin f) (fr_end f) (fr_children f)"

definition open_frame :: "u8 \<Rightarrow> nat \<Rightarrow> frame" where
  "open_frame t b = \<lparr>fr_type = t, fr_begin = b, fr_end = 0, fr_children = []\<rparr>"

text \<open>\<open>otb_loop bytes it stack root\<close>: the loop at file offset \<open>it\<close> with
  \<open>bytes\<close> left to read.\<close>

fun otb_loop :: "u8 list \<Rightarrow> nat \<Rightarrow> frame list \<Rightarrow> otb_node option \<Rightarrow> otb_error + otb_node" where
  "otb_loop [] it stack root =
     (if stack \<noteq> [] then Inl InvalidOTBFormat
      else case root of None \<Rightarrow> Inl InvalidOTBFormat | Some n \<Rightarrow> Inr n)"
| "otb_loop (b # bs) it stack root =
     (if b = OTB_START then
        (case stack of
           [] \<Rightarrow> Inl InvalidOTBFormat
         | f # fs \<Rightarrow> (case bs of
             [] \<Rightarrow> Inl InvalidOTBFormat
           | t # bs' \<Rightarrow> otb_loop bs' (it + 2) (open_frame t (it + 2) # set_props_end it f # fs) root))
      else if b = OTB_END then
        (case stack of
           [] \<Rightarrow> Inl InvalidOTBFormat
         | f # fs \<Rightarrow> (let n = close_frame (set_props_end it f) in case fs of
             [] \<Rightarrow> otb_loop bs (it + 1) [] (Some n)
           | g # gs \<Rightarrow> otb_loop bs (it + 1) (g\<lparr>fr_children := fr_children g @ [n]\<rparr> # gs) root))
      else if b = OTB_ESCAPE then
        (case bs of [] \<Rightarrow> Inl InvalidOTBFormat | _ # bs' \<Rightarrow> otb_loop bs' (it + 2) stack root)
      else otb_loop bs (it + 1) stack root)"

definition parseTree :: "u8 list \<Rightarrow> otb_error + otb_node" where
  "parseTree data = (case drop 4 data of
       b # t # bs \<Rightarrow> if b \<noteq> OTB_START then Inl InvalidOTBFormat
                   else otb_loop bs 6 [open_frame t 6] None
     | _ \<Rightarrow> Inl InvalidOTBFormat)"

text \<open>The filter of \<open>getProps\<close> drops an escape byte unless the byte before it was one that
  escapes it.\<close>

fun drop_escapes :: "bool \<Rightarrow> u8 list \<Rightarrow> u8 list" where
  "drop_escapes lastEscaped [] = []"
| "drop_escapes lastEscaped (b # bs) =
     (let l = (b = OTB_ESCAPE \<and> \<not> lastEscaped) in
      if l then drop_escapes l bs else b # drop_escapes l bs)"

definition getProps :: "u8 list \<Rightarrow> otb_node \<Rightarrow> u8 list option" where
  "getProps data n =
     (if propsEnd n - propsBegin n = 0 then None
      else Some (drop_escapes False (take (propsEnd n - propsBegin n) (drop (propsBegin n) data))))"

definition load_tree :: "u8 list \<Rightarrow> u8 list \<Rightarrow> otb_error + otb_node" where
  "load_tree accepted data =
     (case otb_open accepted data of Inl e \<Rightarrow> Inl e | Inr d \<Rightarrow> parseTree d)"

subsection \<open>The format\<close>

text \<open>The trees an OTB file stands for, and their encoding.\<close>

datatype otb_tree = OtbTree u8 "u8 list" "otb_tree list"

fun encode_tree :: "otb_tree \<Rightarrow> u8 list" where
  "encode_tree (OtbTree t ps cs) =
     OTB_START # t # escape ps @ concat (map encode_tree cs) @ [OTB_END]"

fun node_tree :: "u8 list \<Rightarrow> otb_node \<Rightarrow> otb_tree" where
  "node_tree data (OtbNode t b e cs) =
     OtbTree t (case getProps data (OtbNode t b e cs) of None \<Rightarrow> [] | Some ps \<Rightarrow> ps) (map (node_tree data) cs)"

fun located :: "nat \<Rightarrow> otb_tree \<Rightarrow> otb_node" and locateds :: "nat \<Rightarrow> otb_tree list \<Rightarrow> otb_node list" where
  "located i (OtbTree t ps cs) =
     (let e = i + 2 + length (escape ps) in OtbNode t (i + 2) e (locateds e cs))"
| "locateds i [] = []"
| "locateds i (c # cs) = located i c # locateds (i + length (encode_tree c)) cs"

lemma drop_escapes_escape [simp]: "drop_escapes False (escape bs) = bs"
  by (induction bs) (auto simp: special_def Let_def)

lemma escape_Nil [simp]: "escape bs = [] \<longleftrightarrow> bs = []"
  by (cases bs) auto

lemma otb_loop_props [simp]:
  "otb_loop (escape ps @ rest) i stack r = otb_loop rest (i + length (escape ps)) stack r"
  by (induction ps arbitrary: i) (auto simp: special_def)

definition add_children :: "nat \<Rightarrow> otb_node list \<Rightarrow> frame \<Rightarrow> frame" where
  "add_children i ns f = (if ns = [] then f else (set_props_end i f)\<lparr>fr_children := fr_children f @ ns\<rparr>)"

lemma add_children_Nil [simp]: "add_children i [] f = f"
  by (simp add: add_children_def)

lemma add_children_Cons: "add_children j ns (add_children i [n] f) = add_children i (n # ns) f"
  by (cases f) (simp add: add_children_def set_props_end_def)

lemma locateds_Nil [simp]: "locateds i cs = [] \<longleftrightarrow> cs = []"
  by (cases cs) auto

lemma close_body:
  "close_frame (set_props_end (i + length (concat (map encode_tree cs))) (add_children i (locateds i cs) (open_frame t b)))
    = OtbNode t b i (locateds i cs)"
  by (cases cs) (simp_all add: close_frame_def set_props_end_def add_children_def open_frame_def)

lemma otb_loop_start:
  "otb_loop (OTB_START # t # bs) i (f # fs) r =
     otb_loop bs (i + 2) (open_frame t (i + 2) # set_props_end i f # fs) r"
  by simp

lemma otb_loop_end:
  "otb_loop (OTB_END # rest) j (g # f # fs) r =
     otb_loop rest (j + 1) (f\<lparr>fr_children := fr_children f @ [close_frame (set_props_end j g)]\<rparr> # fs) r"
  by (simp add: Let_def)

lemma length_encode_tree:
  "length (encode_tree (OtbTree t ps cs)) = 2 + length (escape ps) + length (concat (map encode_tree cs)) + 1"
  by simp

lemma otb_loop_tree:
  "otb_loop (encode_tree t @ rest) i (f # fs) r =
     otb_loop rest (i + length (encode_tree t)) (add_children i [located i t] f # fs) r"
  "otb_loop (concat (map encode_tree ts) @ rest) i (f # fs) r =
     otb_loop rest (i + length (concat (map encode_tree ts))) (add_children i (locateds i ts) f # fs) r"
proof (induction i t and i ts arbitrary: f fs rest and f fs rest rule: located_locateds.induct)
  case (1 i t ps cs)
  let ?e = "i + 2 + length (escape ps)"
  let ?body = "concat (map encode_tree cs)"
  have "otb_loop (encode_tree (OtbTree t ps cs) @ rest) i (f # fs) r =
      otb_loop (?body @ OTB_END # rest) ?e (open_frame t (i + 2) # set_props_end i f # fs) r"
    by (simp add: otb_loop_start del: otb_loop.simps)
  also have "\<dots> = otb_loop (OTB_END # rest) (?e + length ?body)
      (add_children ?e (locateds ?e cs) (open_frame t (i + 2)) # set_props_end i f # fs) r"
    by (rule 1 [OF refl])
  also have "\<dots> = otb_loop rest (?e + length ?body + 1)
      (add_children i [located i (OtbTree t ps cs)] f # fs) r"
    unfolding otb_loop_end close_body located.simps Let_def by (simp add: add_children_def set_props_end_def)
  finally show ?case unfolding length_encode_tree by (simp only: add.assoc)
next
  case (2 i)
  then show ?case by simp
next
  case (3 i c cs)
  show ?case
    using 3(1) [of "concat (map encode_tree cs) @ rest" f fs]
      3(2) [of rest "add_children i [located i c] f" fs]
    by (simp add: add_children_Cons add.assoc)
qed

text \<open>Reading the property bytes back from the ranges of the located nodes.\<close>

lemma node_tree_located:
  "drop i data = encode_tree t @ rest \<Longrightarrow> node_tree data (located i t) = t"
  "drop i data = concat (map encode_tree ts) @ rest \<Longrightarrow> map (node_tree data) (locateds i ts) = ts"
proof (induction i t and i ts arbitrary: rest and rest rule: located_locateds.induct)
  case (1 i t ps cs)
  let ?e = "i + 2 + length (escape ps)"
  have d: "drop (i + 2) data = escape ps @ concat (map encode_tree cs) @ OTB_END # rest"
    using arg_cong [OF 1(2), of "drop 2"] by (simp add: add.commute)
  then have "drop ?e data = concat (map encode_tree cs) @ OTB_END # rest"
    by (metis append_eq_conv_conj drop_drop add.commute)
  then have "map (node_tree data) (locateds ?e cs) = cs"
    by (rule 1(1) [OF refl])
  moreover have "take (length (escape ps)) (drop (i + 2) data) = escape ps"
    unfolding d by simp
  ultimately show ?case by (auto simp: Let_def getProps_def)
next
  case (2 i)
  then show ?case by simp
next
  case (3 i c cs)
  have "drop (i + length (encode_tree c)) data = concat (map encode_tree cs) @ rest"
    using arg_cong [OF 3(3), of "drop (length (encode_tree c))"] by (simp add: add.commute)
  then show ?case using 3(1) [of "concat (map encode_tree cs) @ rest"] 3(2) 3(3) by simp
qed


definition sample_tree :: otb_tree where
  "sample_tree = OtbTree 7 [1, 0xFE, 2] [OtbTree 8 [] [], OtbTree 9 [0xFD] []]"


subsection \<open>Truncated files\<close>

lemma otb_loop_props_error:
  "otb_loop (take n (escape ps)) i (f # fs) r = Inl InvalidOTBFormat"
proof (induction ps arbitrary: n i)
  case Nil
  then show ?case by simp
next
  case (Cons p ps)
  show ?case
  proof (cases "special p")
    case True
    then show ?thesis using Cons by (cases n; cases "n - 1") auto
  next
    case False
    then show ?thesis using Cons by (cases n) (auto simp: special_def)
  qed
qed

lemma otb_loop_truncated:
  "n \<le> length (encode_tree t) \<Longrightarrow> otb_loop (take n (encode_tree t)) i (f # fs) r = Inl InvalidOTBFormat"
  "n \<le> length (concat (map encode_tree ts)) \<Longrightarrow>
     otb_loop (take n (concat (map encode_tree ts))) i (f # fs) r = Inl InvalidOTBFormat"
proof (induction i t and i ts arbitrary: n f fs and n f fs rule: located_locateds.induct)
  case (1 i t ps cs)
  let ?e = "i + 2 + length (escape ps)"
  let ?body = "concat (map encode_tree cs)"
  consider "n = 0" | "n = 1" | k where "n = Suc (Suc k)" by (metis One_nat_def not0_implies_Suc)
  then show ?case
  proof cases
    case 3
    show ?thesis
    proof (cases "k < length (escape ps) + length ?body + 1")
      case True
      let ?g = "open_frame t (i + 2)" and ?fs = "set_props_end i f # fs"
      have step: "otb_loop (take n (encode_tree (OtbTree t ps cs))) i (f # fs) r
          = otb_loop (take k (escape ps @ ?body)) (i + 2) (?g # ?fs) r"
        using True by (simp add: 3)
      show ?thesis
      proof (cases "k < length (escape ps)")
        case True
        then show ?thesis using step by (simp add: otb_loop_props_error)
      next
        case False
        then have "otb_loop (take k (escape ps @ ?body)) (i + 2) (?g # ?fs) r
            = otb_loop (take (k - length (escape ps)) ?body) ?e (?g # ?fs) r"
          by simp
        also have "\<dots> = Inl InvalidOTBFormat"
          by (rule 1(1) [OF refl]) (use True in simp)
        finally show ?thesis using step by simp
      qed
    next
      case False
      then have "n = length (encode_tree (OtbTree t ps cs))" using 1(2) 3 by simp
      then show ?thesis
        using otb_loop_tree(1) [of "OtbTree t ps cs" "[]" i f fs r] by simp
    qed
  qed simp_all
next
  case (2 i)
  then show ?case by simp
next
  case (3 i c cs)
  show ?case
  proof (cases "n \<le> length (encode_tree c)")
    case True
    then show ?thesis using 3(1) by simp
  next
    case False
    then have "take n (concat (map encode_tree (c # cs)))
        = encode_tree c @ take (n - length (encode_tree c)) (concat (map encode_tree cs))"
      by simp
    then show ?thesis
      using otb_loop_tree(1) [of c _ i f fs r] 3(2) 3(3) by simp
  qed
qed

text \<open>A file that was cut off anywhere, down to the smallest size the loader looks at, is
  refused with the format exception; no truncated tree is ever returned.\<close>

lemma otb_truncated_rejected:
  assumes "length ident = 4" and "n < length (encode_tree t)"
  shows "load_tree accepted (ident @ take n (encode_tree t)) = Inl InvalidOTBFormat"
proof (cases "otb_open accepted (ident @ take n (encode_tree t))")
  case (Inl e)
  then show ?thesis by (cases e) (simp add: load_tree_def)
next
  case (Inr d)
  obtain ty ps cs where t: "t = OtbTree ty ps cs" by (cases t)
  let ?body = "concat (map encode_tree cs)" and ?g = "open_frame ty 6"
  have d: "d = ident @ take n (encode_tree t)" and "3 < n"
    using Inr assms by (auto simp: otb_open_def split: if_splits)
  then obtain k where k: "n = Suc (Suc k)" by (metis Suc_lessD Suc_lessE numeral_3_eq_3)
  have kb: "k \<le> length (escape ps @ ?body)" using assms(2) by (simp add: t k)
  have "otb_loop (take k (escape ps @ ?body)) 6 [?g] None = Inl InvalidOTBFormat"
  proof (cases "k < length (escape ps)")
    case True
    then show ?thesis by (simp add: otb_loop_props_error)
  next
    case False
    then show ?thesis
      using kb otb_loop_truncated(2) [of "k - length (escape ps)" cs "6 + length (escape ps)" ?g "[]" None]
      by simp
  qed
  then have "parseTree d = Inl InvalidOTBFormat"
    using assms(1) kb by (simp add: parseTree_def d t k)
  then show ?thesis using Inr by (simp add: load_tree_def)
qed

theorem otb_truncated_rejected_witness:
  "load_tree [0, 0, 0, 0] ([0, 0, 0, 0] @ take 7 (encode_tree sample_tree)) = Inl InvalidOTBFormat"
  by (rule otb_truncated_rejected) (simp_all add: sample_tree_def special_def)

end
