(* ===== verification/Wildcard_Tree.thy ===== *)
theory Wildcard_Tree
  imports Prelude "HOL-Library.AList"
begin

text \<open>
  The tree of the names of the players that are online (\<open>utils/wildcardtree.cpp\<close>), which
  completes a name typed with a trailing wildcard. The ordered map of a node's children is an
  association list with distinct keys: the code asks it for a key, for its size, and for its first
  entry only when it is the only one.
\<close>

subsection \<open>The tree and its operations\<close>

datatype wnode = WNode (breakpoint: bool) (children: "(char \<times> wnode) list")

datatype find_result = FR_NOERROR | FR_PLAYERWITHTHISNAMEISNOTONLINE | FR_NAMEISTOOAMBIGUOUS

definition wt_new :: wnode where "wt_new = WNode False []"

definition getChild :: "wnode \<Rightarrow> char \<Rightarrow> wnode option" where
  "getChild n ch = map_of (children n) ch"

text \<open>\<open>addChild\<close> returns the child; here it is returned with the map entry it occupies.\<close>

definition addChild :: "wnode \<Rightarrow> char \<Rightarrow> bool \<Rightarrow> wnode" where
  "addChild n ch breakp = (case getChild n ch of
       Some child \<Rightarrow> (if breakp \<and> \<not> breakpoint child then WNode True (children child) else child)
     | None \<Rightarrow> WNode breakp [])"

definition setChild :: "wnode \<Rightarrow> char \<Rightarrow> wnode \<Rightarrow> wnode" where
  "setChild n ch child = WNode (breakpoint n) (AList.update ch child (children n))"

text \<open>For the empty string the loop bound is \<open>0 - 1\<close> and the code reads past the string:
  \<open>None\<close>.\<close>

fun wt_insert_chars :: "wnode \<Rightarrow> string \<Rightarrow> wnode" where
  "wt_insert_chars n [] = n"
| "wt_insert_chars n [c] = setChild n c (addChild n c True)"
| "wt_insert_chars n (c # d # s) = setChild n c (wt_insert_chars (addChild n c False) (d # s))"

definition wt_insert :: "wnode \<Rightarrow> string \<Rightarrow> wnode option" where
  "wt_insert n s = (if s = [] then None else Some (wt_insert_chars n s))"

text \<open>\<open>wt_remove_path\<close> is \<open>None\<close> where the walk down finds no child and the method
  returns; on the way up a node that is neither a name nor has children is erased from its parent,
  the root excepted.\<close>

definition prunable :: "wnode \<Rightarrow> bool" where
  "prunable n \<longleftrightarrow> children n = [] \<and> \<not> breakpoint n"

fun wt_remove_path :: "wnode \<Rightarrow> string \<Rightarrow> wnode option" where
  "wt_remove_path n [] = Some (WNode False (children n))"
| "wt_remove_path n (c # s) = (case getChild n c of
       None \<Rightarrow> None
     | Some child \<Rightarrow> (case wt_remove_path child s of
         None \<Rightarrow> None
       | Some child' \<Rightarrow> Some (if prunable child'
           then WNode (breakpoint n) (AList.delete c (children n))
           else setChild n c child')))"

definition wt_remove :: "wnode \<Rightarrow> string \<Rightarrow> wnode" where
  "wt_remove n s = (case wt_remove_path n s of None \<Rightarrow> n | Some n' \<Rightarrow> n')"

fun wt_walk :: "wnode \<Rightarrow> string \<Rightarrow> wnode option" where
  "wt_walk n [] = Some n"
| "wt_walk n (c # s) = (case getChild n c of None \<Rightarrow> None | Some child \<Rightarrow> wt_walk child s)"

fun wt_complete :: "wnode \<Rightarrow> string \<Rightarrow> find_result \<times> string" where
  "wt_complete (WNode b []) result = (FR_NOERROR, result)"
| "wt_complete (WNode b [(c, child)]) result =
     (if b then (FR_NAMEISTOOAMBIGUOUS, result) else wt_complete child (result @ [c]))"
| "wt_complete (WNode b (x # y # zs)) result = (FR_NAMEISTOOAMBIGUOUS, result)"

definition findOne :: "wnode \<Rightarrow> string \<Rightarrow> string \<Rightarrow> find_result \<times> string" where
  "findOne n query result0 = (case wt_walk n query of
       None \<Rightarrow> (FR_PLAYERWITHTHISNAMEISNOTONLINE, result0)
     | Some cur \<Rightarrow> wt_complete cur query)"

subsection \<open>The names a tree holds\<close>

fun wt_isin :: "wnode \<Rightarrow> string \<Rightarrow> bool" where
  "wt_isin n [] = breakpoint n"
| "wt_isin n (c # s) = (case getChild n c of None \<Rightarrow> False | Some child \<Rightarrow> wt_isin child s)"

definition wt_names :: "wnode \<Rightarrow> string set" where
  "wt_names n = {s. wt_isin n s}"

inductive wt_ok :: "wnode \<Rightarrow> bool" where
  wt_okI: "distinct (map fst ch) \<Longrightarrow> (\<And>c n. map_of ch c = Some n \<Longrightarrow> wt_ok n \<and> \<not> prunable n) \<Longrightarrow>
    wt_ok (WNode b ch)"

inductive_simps wt_ok_simps: "wt_ok (WNode b ch)"

lemma wt_ok_child: "wt_ok n \<Longrightarrow> getChild n c = Some m \<Longrightarrow> wt_ok m \<and> \<not> prunable m"
  by (cases n) (simp add: wt_ok_simps getChild_def)

lemma wt_ok_setChild: "wt_ok n \<Longrightarrow> wt_ok m \<Longrightarrow> \<not> prunable m \<Longrightarrow> wt_ok (setChild n c m)"
  by (cases n) (auto simp: wt_ok_simps setChild_def distinct_update update_conv')

lemma wt_ok_delete: "wt_ok n \<Longrightarrow> wt_ok (WNode b (AList.delete c (children n)))"
  by (cases n) (auto simp: wt_ok_simps distinct_delete delete_conv' split: if_splits)

lemma getChild_setChild [simp]:
  "getChild (setChild n c m) d = (if d = c then Some m else getChild n d)"
  "breakpoint (setChild n c m) = breakpoint n"
  by (simp_all add: getChild_def setChild_def update_conv')

lemma getChild_delete [simp]:
  "getChild (WNode b (AList.delete c (children n))) d = (if d = c then None else getChild n d)"
  by (simp add: getChild_def delete_conv')

lemma not_prunable_setChild [simp]: "\<not> prunable (setChild n c m)"
  by (simp add: prunable_def setChild_def)

lemma wt_ok_leaf [simp]: "wt_ok (WNode b [])"
  by (simp add: wt_ok_simps)

lemma wt_ok_breakpoint: "wt_ok n \<Longrightarrow> wt_ok (WNode b (children n))"
  by (cases n) (simp add: wt_ok_simps)

lemma wt_isin_leaf: "wt_isin (WNode b []) q \<longleftrightarrow> b \<and> q = []"
  by (cases q) (simp_all add: getChild_def)

lemma wt_isin_breakpoint: "wt_isin (WNode b (children n)) q \<longleftrightarrow> (if q = [] then b else wt_isin n q)"
  by (cases q) (simp_all add: getChild_def)

lemma wt_ok_addChild_True: "wt_ok n \<Longrightarrow> wt_ok (addChild n c True) \<and> \<not> prunable (addChild n c True)"
  by (auto simp: addChild_def prunable_def wt_ok_breakpoint dest: wt_ok_child split: option.splits)

lemma wt_ok_addChild_False: "wt_ok n \<Longrightarrow> wt_ok (addChild n c False)"
  by (auto simp: addChild_def dest: wt_ok_child split: option.splits)

lemma wt_isin_addChild_False:
  "wt_isin (addChild n c False) q \<longleftrightarrow> (case getChild n c of None \<Rightarrow> False | Some m \<Rightarrow> wt_isin m q)"
  by (auto simp: addChild_def wt_isin_leaf split: option.splits)

lemma wt_isin_addChild_True:
  "wt_isin (addChild n c True) q \<longleftrightarrow> q = [] \<or> (case getChild n c of None \<Rightarrow> False | Some m \<Rightarrow> wt_isin m q)"
  by (cases q) (auto simp: addChild_def wt_isin_leaf wt_isin_breakpoint getChild_def split: option.splits)

lemma wt_insert_chars_ok:
  "wt_ok n \<Longrightarrow> wt_ok (wt_insert_chars n s) \<and> (s \<noteq> [] \<longrightarrow> \<not> prunable (wt_insert_chars n s))"
  by (induction n s rule: wt_insert_chars.induct)
    (auto simp: wt_ok_setChild wt_ok_addChild_True wt_ok_addChild_False)

lemma wt_insert_chars_isin:
  "s \<noteq> [] \<Longrightarrow> wt_isin (wt_insert_chars n s) q \<longleftrightarrow> q = s \<or> wt_isin n q"
proof (induction n s arbitrary: q rule: wt_insert_chars.induct)
  case (2 n c)
  then show ?case by (cases q) (auto simp: wt_isin_addChild_True)
next
  case (3 n c d s)
  then show ?case by (cases q) (auto simp: wt_isin_addChild_False)
qed simp

lemma wt_remove_path_ok: "wt_ok n \<Longrightarrow> wt_remove_path n s = Some n' \<Longrightarrow> wt_ok n'"
  by (induction n s arbitrary: n' rule: wt_remove_path.induct)
    (auto simp: wt_ok_breakpoint wt_ok_delete split: option.splits if_splits,
      metis wt_ok_setChild wt_ok_child)

lemma prunable_isin: "prunable n \<Longrightarrow> \<not> wt_isin n q"
  by (cases n; cases q) (auto simp: prunable_def getChild_def)

lemma wt_remove_path_isin:
  "(case wt_remove_path n s of None \<Rightarrow> \<not> wt_isin n s
    | Some n' \<Rightarrow> wt_isin n' q \<longleftrightarrow> q \<noteq> s \<and> wt_isin n q)"
proof (induction n s arbitrary: q rule: wt_remove_path.induct)
  case (1 n)
  then show ?case by (simp add: wt_isin_breakpoint)
next
  case (2 n c s)
  show ?case
  proof (cases "getChild n c")
    case None
    then show ?thesis by simp
  next
    case (Some child)
    show ?thesis
    proof (cases "wt_remove_path child s")
      case None
      then show ?thesis using 2 [OF Some] Some by simp
    next
      case (Some child')
      have IH: "wt_isin child' q \<longleftrightarrow> q \<noteq> s \<and> wt_isin child q" for q
        using 2 [OF \<open>getChild n c = Some child\<close>, of q] Some by simp
      show ?thesis
        using Some \<open>getChild n c = Some child\<close> IH prunable_isin [of child']
        by (cases q) auto
    qed
  qed
qed

text \<open>
  What the server relies on: a set of names with insertion and removal.
\<close>

locale name_index =
  fixes names :: "'s \<Rightarrow> string set"
    and inv :: "'s \<Rightarrow> bool"
    and empty_index :: 's
    and add :: "'s \<Rightarrow> string \<Rightarrow> 's option"
    and del :: "'s \<Rightarrow> string \<Rightarrow> 's"
  assumes empty_law: "inv empty_index \<and> names empty_index = {}"
    and add_law: "inv t \<Longrightarrow> s \<noteq> [] \<Longrightarrow> \<exists>t'. add t s = Some t' \<and> inv t' \<and> names t' = insert s (names t)"
    and del_law: "inv t \<Longrightarrow> inv (del t s) \<and> names (del t s) = names t - {s}"
begin

lemma add_del: "inv t \<Longrightarrow> s \<noteq> [] \<Longrightarrow> \<exists>t'. add t s = Some t' \<and> names (del t' s) = names t - {s}"
  using add_law [of t s] del_law by auto

lemma del_absent: "inv t \<Longrightarrow> s \<notin> names t \<Longrightarrow> names (del t s) = names t"
  using del_law by simp

end

interpretation wt: name_index wt_names wt_ok wt_new wt_insert wt_remove
proof unfold_locales
  show "wt_ok wt_new \<and> wt_names wt_new = {}"
    by (simp add: wt_new_def wt_names_def wt_isin_leaf)
  show "\<exists>t'. wt_insert t s = Some t' \<and> wt_ok t' \<and> wt_names t' = insert s (wt_names t)"
    if "wt_ok t" "s \<noteq> []" for t s
    using that wt_insert_chars_ok [of t s] wt_insert_chars_isin [of s t]
    by (auto simp: wt_insert_def wt_names_def)
  show "wt_ok (wt_remove t s) \<and> wt_names (wt_remove t s) = wt_names t - {s}" if "wt_ok t" for t s
  proof (cases "wt_remove_path t s")
    case None
    then show ?thesis using that wt_remove_path_isin [of t s] by (auto simp: wt_remove_def wt_names_def)
  next
    case (Some t')
    then show ?thesis
      using that wt_remove_path_isin [of t s] wt_remove_path_ok [OF that]
      by (auto simp: wt_remove_def wt_names_def)
  qed
qed

subsection \<open>Histories of logins and logouts\<close>

datatype name_op = Login string | Logout string

fun wt_run :: "name_op list \<Rightarrow> wnode \<Rightarrow> wnode option" where
  "wt_run [] t = Some t"
| "wt_run (Login s # ops) t = Option.bind (wt_insert t s) (wt_run ops)"
| "wt_run (Logout s # ops) t = wt_run ops (wt_remove t s)"

fun online :: "name_op list \<Rightarrow> string set \<Rightarrow> string set" where
  "online [] A = A"
| "online (Login s # ops) A = online ops (insert s A)"
| "online (Logout s # ops) A = online ops (A - {s})"

fun named :: "name_op \<Rightarrow> bool" where
  "named (Login s) = (s \<noteq> [])"
| "named (Logout s) = True"

lemma wt_run_names:
  "wt_ok t \<Longrightarrow> list_all named ops \<Longrightarrow>
    \<exists>t'. wt_run ops t = Some t' \<and> wt_ok t' \<and> wt_names t' = online ops (wt_names t)"
proof (induction ops arbitrary: t)
  case Nil
  then show ?case by simp
next
  case (Cons x ops)
  show ?case
  proof (cases x)
    case (Login s)
    then obtain t1 where "wt_insert t s = Some t1" "wt_ok t1" "wt_names t1 = insert s (wt_names t)"
      using wt.add_law [OF Cons.prems(1), of s] Cons.prems(2) by auto
    then show ?thesis using Cons.IH [of t1] Cons.prems(2) Login by simp
  next
    case (Logout s)
    then show ?thesis using Cons.IH [of "wt_remove t s"] wt.del_law [OF Cons.prems(1), of s] Cons.prems(2) by simp
  qed
qed

lemma wt_live: "wt_ok n \<Longrightarrow> \<not> prunable n \<Longrightarrow> \<exists>q. wt_isin n q"
proof (induction rule: wt_ok.induct)
  case (wt_okI ch b)
  show ?case
  proof (cases ch)
    case Nil
    then show ?thesis using wt_okI.prems by (intro exI [of _ "[]"]) (simp add: prunable_def)
  next
    case (Cons x xs)
    obtain c m where x: "x = (c, m)" by fastforce
    then have "map_of ch c = Some m" using Cons by simp
    then obtain q where "wt_isin m q" using wt_okI(2) by blast
    then have "wt_isin (WNode b ch) (c # q)" by (simp add: getChild_def Cons x)
    then show ?thesis by blast
  qed
qed

lemma wt_walk_isin:
  "case wt_walk n q of None \<Rightarrow> \<not> wt_isin n (q @ s) | Some m \<Rightarrow> wt_isin n (q @ s) \<longleftrightarrow> wt_isin m s"
  by (induction n q rule: wt_walk.induct) (auto split: option.splits)

lemma wt_walk_ok: "wt_ok n \<Longrightarrow> wt_walk n q = Some m \<Longrightarrow> wt_ok m \<and> (q \<noteq> [] \<longrightarrow> \<not> prunable m)"
proof (induction n q rule: wt_walk.induct)
  case (2 n c s)
  then obtain child where c: "getChild n c = Some child" by (auto split: option.splits)
  then show ?case using 2 wt_ok_child [OF 2(2) c] by (cases s) auto
qed simp

lemma wt_complete_spec:
  "wt_ok m \<Longrightarrow> \<not> prunable m \<Longrightarrow>
    (case wt_complete m r of
       (FR_NOERROR, r') \<Rightarrow> \<exists>s. r' = r @ s \<and> wt_names m = {s}
     | (FR_NAMEISTOOAMBIGUOUS, r') \<Rightarrow> \<exists>s1 s2. s1 \<noteq> s2 \<and> s1 \<in> wt_names m \<and> s2 \<in> wt_names m
     | (FR_PLAYERWITHTHISNAMEISNOTONLINE, r') \<Rightarrow> False)"
proof (induction m r rule: wt_complete.induct)
  case (1 b r)
  then show ?case by (auto simp: prunable_def wt_names_def wt_isin_leaf)
next
  case (2 b c m r)
  have ok: "wt_ok m" "\<not> prunable m" using 2(2) by (auto simp: wt_ok_simps)
  have e: "wt_isin (WNode b' [(c, m)]) q \<longleftrightarrow> q = [] \<and> b' \<or> (\<exists>s. q = c # s \<and> wt_isin m s)" for b' q
    by (cases q) (auto simp: getChild_def)
  show ?case
  proof (cases b)
    case True
    obtain s where "wt_isin m s" using wt_live [OF ok] by blast
    then have "[] \<noteq> c # s \<and> [] \<in> wt_names (WNode b [(c, m)]) \<and> c # s \<in> wt_names (WNode b [(c, m)])"
      using True by (simp add: wt_names_def getChild_def)
    then show ?thesis using True by auto
  next
    case False
    have n: "wt_names (WNode b [(c, m)]) = (#) c ` wt_names m"
      using False by (auto simp: wt_names_def e getChild_def)
    have c: "wt_complete (WNode b [(c, m)]) r = wt_complete m (r @ [c])" using False by simp
    obtain res r' where w: "wt_complete m (r @ [c]) = (res, r')" by fastforce
    from 2(1) [OF False ok] show ?thesis
      unfolding c w n by (cases res) (auto, metis imageI list.inject)
  qed
next
  case (3 b x y zs r)
  obtain c m d k where xy: "x = (c, m)" "y = (d, k)" by fastforce
  then have cd: "c \<noteq> d" and "wt_ok m" "\<not> prunable m" "wt_ok k" "\<not> prunable k"
    using 3(1) by (auto simp: wt_ok_simps split: if_splits)
  then obtain s1 s2 where "wt_isin m s1" "wt_isin k s2" using wt_live by blast
  then have "c # s1 \<noteq> d # s2 \<and> c # s1 \<in> wt_names (WNode b (x # y # zs)) \<and> d # s2 \<in> wt_names (WNode b (x # y # zs))"
    using cd by (simp add: wt_names_def getChild_def xy)
  then show ?case by (auto intro: exI [of _ "c # s1"] exI [of _ "d # s2"])
qed

text \<open>After any history of logins (of non-empty names) and logouts, completing a non-empty
  query answers "not online" exactly when no online name starts with it, succeeds exactly when a
  single online name starts with it and then returns that name, and answers "too ambiguous"
  otherwise.\<close>

lemma findOne_unique_completion:
  assumes "list_all named ops" and "query \<noteq> []"
  defines "matches \<equiv> {s \<in> online ops {}. \<exists>r. s = query @ r}"
  shows "\<exists>t. wt_run ops wt_new = Some t \<and>
    (case findOne t query r0 of
       (FR_NOERROR, s) \<Rightarrow> matches = {s}
     | (FR_PLAYERWITHTHISNAMEISNOTONLINE, s) \<Rightarrow> matches = {} \<and> s = r0
     | (FR_NAMEISTOOAMBIGUOUS, s) \<Rightarrow> \<exists>s1 \<in> matches. \<exists>s2 \<in> matches. s1 \<noteq> s2)"
proof -
  obtain t where t: "wt_run ops wt_new = Some t" "wt_ok t" "wt_names t = online ops {}"
    using wt_run_names [of wt_new ops] wt.empty_law assms(1) by auto
  have m: "matches = (\<lambda>r. query @ r) ` {r. wt_isin t (query @ r)}"
    using t(3) by (auto simp: matches_def wt_names_def)
  show ?thesis
  proof (cases "wt_walk t query")
    case None
    then have "matches = {}" using wt_walk_isin [of t query] m by simp
    then show ?thesis using None t(1) by (simp add: findOne_def)
  next
    case (Some n)
    have n: "matches = (\<lambda>r. query @ r) ` wt_names n"
      using Some wt_walk_isin [of t query] m by (simp add: wt_names_def)
    have "wt_ok n" "\<not> prunable n" using wt_walk_ok [OF t(2) Some] assms(2) by simp_all
    from wt_complete_spec [OF this, of query] show ?thesis
      using Some t(1) n by (auto simp: findOne_def split: prod.splits find_result.splits)
  qed
qed

theorem findOne_unique_completion_witness:
  "\<exists>t. wt_run [Login ''Bob'', Login ''Alice'', Login ''Al'', Logout ''Al''] wt_new = Some t \<and>
     findOne t ''A'' [] = (FR_NOERROR, ''Alice'')"
proof -
  let ?ops = "[Login ''Bob'', Login ''Alice'', Login ''Al'', Logout ''Al'']"
  have m: "{s \<in> online ?ops {}. \<exists>r. s = ''A'' @ r} = {''Alice''}" by auto
  obtain t where "wt_run ?ops wt_new = Some t" and
    "case findOne t ''A'' [] of
       (FR_NOERROR, s) \<Rightarrow> {''Alice''} = {s}
     | (FR_PLAYERWITHTHISNAMEISNOTONLINE, s) \<Rightarrow> {''Alice''} = ({} :: string set) \<and> s = []
     | (FR_NAMEISTOOAMBIGUOUS, s) \<Rightarrow> \<exists>s1 \<in> {''Alice''}. \<exists>s2 \<in> {''Alice''}. s1 \<noteq> s2"
    using findOne_unique_completion [of ?ops "''A''" "[]"] unfolding m by auto
  then show ?thesis by (auto split: prod.splits find_result.splits)
qed

end
