(* ===== verification/Kv_Store.thy ===== *)
theory Kv_Store
  imports Prelude "HOL-Library.AList"
begin

text \<open>
  The key-value store (\<open>kv/\<close>): a write-back cache of a million entries in front of a
  database table, with a list of the keys in order of use. An entry of the cache points into that
  list, so the list cells carry addresses. The backend (\<open>load\<close>, \<open>save\<close>,
  \<open>loadPrefix\<close> and the transaction of \<open>saveAll\<close>, that is MySQL and protobuf) is a
  parameter. A lock taken twice by one thread never returns: \<open>None\<close>.
\<close>

subsection \<open>Values\<close>

text \<open>A double is kept as its 64 bits.\<close>

datatype vvariant = VString string | VBool bool | VInt "32 word" | VDouble u64
    | VArray "vwrapper list" | VMap "(string \<times> vwrapper option) list"
  and vwrapper = VW (vw_data: vvariant) (vw_timestamp: u64) (vw_deleted: bool)

definition vw_make :: "u64 \<Rightarrow> vvariant \<Rightarrow> u64 \<Rightarrow> vwrapper" where
  "vw_make now d timestamp = VW d (if timestamp = 0 then now else timestamp) False"

definition vw_default :: "u64 \<Rightarrow> vwrapper" where
  "vw_default now = vw_make now (VString []) 0"

definition vw_deleted_mark :: "u64 \<Rightarrow> vwrapper" where
  "vw_deleted_mark first_use = VW (VString []) first_use True"

definition vw_get_key :: "string \<Rightarrow> vwrapper \<Rightarrow> vwrapper option" where
  "vw_get_key key v = (case vw_data v of
       VMap m \<Rightarrow> (case map_of m key of None \<Rightarrow> None | Some None \<Rightarrow> None | Some (Some w) \<Rightarrow> Some w)
     | _ \<Rightarrow> None)"

definition vw_get_index :: "nat \<Rightarrow> vwrapper \<Rightarrow> vwrapper option" where
  "vw_get_index i v = (case vw_data v of
       VArray a \<Rightarrow> (if i < length a then Some (a ! i) else None)
     | _ \<Rightarrow> None)"

subsection \<open>The store\<close>

record 'db kv =
  kv_store :: "(string \<times> vwrapper \<times> nat) list"
  kv_queue :: "(nat \<times> string) list"
  kv_fresh :: nat
  kv_locked :: bool
  kv_db :: 'db

abbreviation KV_MAX_SIZE :: nat where "KV_MAX_SIZE \<equiv> 1000000"

type_synonym 'db kv_load = "'db \<Rightarrow> string \<Rightarrow> vwrapper option"
type_synonym 'db kv_save = "string \<Rightarrow> vwrapper \<Rightarrow> 'db \<Rightarrow> 'db"

text \<open>\<open>std::list::splice\<close> of one cell to either end.\<close>

definition to_front :: "nat \<Rightarrow> (nat \<times> string) list \<Rightarrow> (nat \<times> string) list" where
  "to_front i q = filter (\<lambda>c. fst c = i) q @ filter (\<lambda>c. fst c \<noteq> i) q"

definition to_back :: "nat \<Rightarrow> (nat \<times> string) list \<Rightarrow> (nat \<times> string) list" where
  "to_back i q = filter (\<lambda>c. fst c \<noteq> i) q @ filter (\<lambda>c. fst c = i) q"

text \<open>\<open>store_[*last]\<close> makes a default value when the key has no entry; the end of an empty
  list has no predecessor.\<close>

definition kv_evict :: "'db kv_save \<Rightarrow> u64 \<Rightarrow> 'db kv \<Rightarrow> 'db kv option" where
  "kv_evict save now s =
     (if kv_queue s = [] then None
      else let k = snd (last (kv_queue s));
               v = (case map_of (kv_store s) k of None \<Rightarrow> vw_default now | Some (v, _) \<Rightarrow> v)
           in Some (s\<lparr>kv_db := save k v (kv_db s),
                      kv_store := AList.delete k (kv_store s),
                      kv_queue := butlast (kv_queue s)\<rparr>))"

definition kv_setLocked :: "'db kv_save \<Rightarrow> u64 \<Rightarrow> string \<Rightarrow> vwrapper \<Rightarrow> 'db kv \<Rightarrow> 'db kv option" where
  "kv_setLocked save now key value s = (case map_of (kv_store s) key of
       Some (_, i) \<Rightarrow>
         Some (s\<lparr>kv_store := AList.update key (value, i) (kv_store s), kv_queue := to_front i (kv_queue s)\<rparr>)
     | None \<Rightarrow>
         map_option (\<lambda>s1. s1\<lparr>kv_queue := (kv_fresh s1, key) # kv_queue s1,
                            kv_store := AList.update key (value, kv_fresh s1) (kv_store s1),
                            kv_fresh := kv_fresh s1 + 1\<rparr>)
           (if length (kv_store s) \<ge> KV_MAX_SIZE then kv_evict save now s else Some s))"

definition with_lock :: "('db kv \<Rightarrow> ('a \<times> 'db kv) option) \<Rightarrow> 'db kv \<Rightarrow> ('a \<times> 'db kv) option" where
  "with_lock f s = (if kv_locked s then None
     else map_option (map_prod id (\<lambda>t. t\<lparr>kv_locked := False\<rparr>)) (f (s\<lparr>kv_locked := True\<rparr>)))"

definition kv_set :: "'db kv_save \<Rightarrow> u64 \<Rightarrow> string \<Rightarrow> vwrapper \<Rightarrow> 'db kv \<Rightarrow> (unit \<times> 'db kv) option" where
  "kv_set save now key value = with_lock (\<lambda>s. map_option (Pair ()) (kv_setLocked save now key value s))"

definition kv_get :: "'db kv_load \<Rightarrow> 'db kv_save \<Rightarrow> u64 \<Rightarrow> string \<Rightarrow> bool \<Rightarrow> 'db kv
    \<Rightarrow> (vwrapper option \<times> 'db kv) option" where
  "kv_get load save now key forceLoad = with_lock (\<lambda>s.
     case (if forceLoad then None else map_of (kv_store s) key) of
       None \<Rightarrow> (case load (kv_db s) key of
           None \<Rightarrow> Some (None, s)
         | Some v \<Rightarrow> map_option (Pair (Some v)) (kv_setLocked save now key v s))
     | Some (v, i) \<Rightarrow>
         if vw_deleted v then Some (None, s\<lparr>kv_queue := to_back i (kv_queue s)\<rparr>)
         else Some (Some v, s\<lparr>kv_queue := to_front i (kv_queue s)\<rparr>))"

definition is_prefix :: "string \<Rightarrow> string \<Rightarrow> bool" where
  "is_prefix p s \<longleftrightarrow> take (length p) s = p"

definition kv_keys :: "('db \<Rightarrow> string \<Rightarrow> string list) \<Rightarrow> string \<Rightarrow> 'db kv \<Rightarrow> (string set \<times> 'db kv) option" where
  "kv_keys loadPrefix p = with_lock (\<lambda>s. Some
     ((\<lambda>k. drop (length p) k) ` set (filter (is_prefix p) (map fst (kv_store s)))
        \<union> set (loadPrefix (kv_db s) p), s))"

definition kv_remove :: "'db kv_save \<Rightarrow> u64 \<Rightarrow> u64 \<Rightarrow> string \<Rightarrow> 'db kv \<Rightarrow> (unit \<times> 'db kv) option" where
  "kv_remove save now first_use key = kv_set save now key (vw_deleted_mark first_use)"

definition kv_getStore :: "'db kv \<Rightarrow> ((string \<times> vwrapper \<times> nat) list \<times> 'db kv) option" where
  "kv_getStore = with_lock (\<lambda>s. Some (kv_store s, s))"

text \<open>\<open>flush\<close> runs the virtual \<open>saveAll\<close> with the lock held.\<close>

definition kv_flush :: "('db kv \<Rightarrow> (bool \<times> 'db kv) option) \<Rightarrow> 'db kv \<Rightarrow> (unit \<times> 'db kv) option" where
  "kv_flush saveAll = with_lock (\<lambda>s. map_option (\<lambda>(_, s1). ((), s1\<lparr>kv_store := []\<rparr>)) (saveAll s))"

definition kv_base_saveAll :: "'db kv \<Rightarrow> (bool \<times> 'db kv) option" where
  "kv_base_saveAll s = Some (True, s)"

definition kvsql_saveAll ::
    "((string \<times> vwrapper \<times> nat) list \<Rightarrow> 'db \<Rightarrow> bool \<times> 'db) \<Rightarrow> 'db kv \<Rightarrow> (bool \<times> 'db kv) option" where
  "kvsql_saveAll transaction s = map_option (\<lambda>(st, s1).
     case transaction st (kv_db s1) of (ok, db) \<Rightarrow> (ok, s1\<lparr>kv_db := db\<rparr>)) (kv_getStore s)"

definition buildKey :: "string \<Rightarrow> string \<Rightarrow> string" where
  "buildKey scope key = scope @ ''.'' @ key"

definition kv_new :: "'db \<Rightarrow> 'db kv" where
  "kv_new db = \<lparr>kv_store = [], kv_queue = [], kv_fresh = 0, kv_locked = False, kv_db = db\<rparr>"

subsection \<open>The map a store stands for\<close>

text \<open>
  What the code relies on: a saved value is loaded back, a saved deletion removes the row, other
  rows are untouched, and a value that was loaded is not marked as deleted.
\<close>

definition backend_ok :: "'db kv_load \<Rightarrow> 'db kv_save \<Rightarrow> bool" where
  "backend_ok load save \<longleftrightarrow>
     (\<forall>db k v k'. load (save k v db) k' =
        (if k' = k then (if vw_deleted v then None else Some v) else load db k')) \<and>
     (\<forall>db k v. load db k = Some v \<longrightarrow> \<not> vw_deleted v)"

definition live_value :: "vwrapper \<Rightarrow> vwrapper option" where
  "live_value v = (if vw_deleted v then None else Some v)"

definition kv_view :: "'db kv_load \<Rightarrow> 'db kv \<Rightarrow> string \<Rightarrow> vwrapper option" where
  "kv_view load s k = (case map_of (kv_store s) k of None \<Rightarrow> load (kv_db s) k | Some (v, _) \<Rightarrow> live_value v)"

definition kv_inv :: "'db kv \<Rightarrow> bool" where
  "kv_inv s \<longleftrightarrow> distinct (map fst (kv_store s)) \<and> distinct (map fst (kv_queue s)) \<and>
     (\<forall>k i. (\<exists>v. map_of (kv_store s) k = Some (v, i)) \<longleftrightarrow> (i, k) \<in> set (kv_queue s)) \<and>
     (\<forall>c\<in>set (kv_queue s). fst c < kv_fresh s) \<and> length (kv_store s) \<le> KV_MAX_SIZE"

declare map_of_eq_Some_iff [simp del]

lemma backend_save: "backend_ok load save \<Longrightarrow>
    load (save k v db) k' = (if k' = k then live_value v else load db k')"
  by (simp add: backend_ok_def live_value_def)

lemma backend_live: "backend_ok load save \<Longrightarrow> load db k = Some v \<Longrightarrow> live_value v = Some v"
  by (auto simp: backend_ok_def live_value_def)

lemma set_to_front [simp]: "set (to_front i q) = set q" "set (to_back i q) = set q"
  by (auto simp: to_front_def to_back_def)

lemma distinct_to_front:
  "distinct (map fst q) \<Longrightarrow> distinct (map fst (to_front i q))"
  "distinct (map fst q) \<Longrightarrow> distinct (map fst (to_back i q))"
  by (auto simp: to_front_def to_back_def distinct_map_filter)

lemma length_update_present: "k \<in> fst ` set al \<Longrightarrow> length (AList.update k v al) = length al"
  by (induction al) auto

lemma length_update_absent: "k \<notin> fst ` set al \<Longrightarrow> length (AList.update k v al) = Suc (length al)"
  by (induction al) auto

lemma length_delete_present:
  "distinct (map fst al) \<Longrightarrow> k \<in> fst ` set al \<Longrightarrow> Suc (length (AList.delete k al)) = length al"
proof (induction al)
  case (Cons x al)
  show ?case
  proof (cases "fst x = k")
    case True
    then have "filter (\<lambda>(k', _). k \<noteq> k') al = al"
      using Cons.prems(1) by (auto simp: filter_id_conv image_iff)
    then show ?thesis using True by (cases x) (simp add: AList.delete_eq)
  next
    case False
    then show ?thesis using Cons by (cases x) (auto simp: AList.delete_eq)
  qed
qed simp

lemma kv_view_update: "kv_db t = kv_db s \<Longrightarrow> kv_store t = AList.update k (v, i) (kv_store s) \<Longrightarrow>
    kv_view load t = (kv_view load s)(k := live_value v)"
  by (auto simp: kv_view_def update_conv' fun_eq_iff split: option.splits)

lemma kv_view_same: "kv_db t = kv_db s \<Longrightarrow> kv_store t = kv_store s \<Longrightarrow> kv_view load t = kv_view load s"
  by (simp add: kv_view_def fun_eq_iff split: option.splits)

lemma kv_inv_queue: "kv_inv s \<Longrightarrow> kv_store t = kv_store s \<Longrightarrow> kv_fresh t = kv_fresh s \<Longrightarrow>
    kv_queue t = to_back i (kv_queue s) \<or> kv_queue t = to_front i (kv_queue s) \<Longrightarrow> kv_inv t"
  by (auto simp: kv_inv_def distinct_to_front)

lemma kv_queue_cell: "kv_inv s \<Longrightarrow> map_of (kv_store s) k = Some (v, i) \<Longrightarrow> (j, k) \<in> set (kv_queue s) \<longleftrightarrow> j = i"
  unfolding kv_inv_def by (metis Pair_inject option.inject)

lemma kv_evict_spec:
  assumes "kv_inv s" and "backend_ok load save" and "length (kv_store s) \<ge> KV_MAX_SIZE"
    and "map_of (kv_store s) key = None"
  shows "\<exists>s'. kv_evict save now s = Some s' \<and> kv_inv s' \<and> length (kv_store s') < KV_MAX_SIZE
    \<and> kv_view load s' = kv_view load s \<and> map_of (kv_store s') key = None \<and> kv_locked s' = kv_locked s"
proof -
  have "kv_store s \<noteq> []" using assms(3) by auto
  then obtain k0 v0 i0 where "map_of (kv_store s) k0 = Some (v0, i0)"
    by (metis (no_types) list.set_intros(1) map_of_eq_None_iff neq_Nil_conv not_Some_eq
        old.prod.exhaust weak_map_of_SomeI)
  then have q: "kv_queue s \<noteq> []" using assms(1) unfolding kv_inv_def by (metis empty_iff empty_set)
  then obtain q0 i k where qk: "kv_queue s = q0 @ [(i, k)]" by (metis rev_exhaust old.prod.exhaust)
  then obtain v where v: "map_of (kv_store s) k = Some (v, i)" using assms(1) unfolding kv_inv_def by force
  let ?s' = "s\<lparr>kv_db := save k v (kv_db s), kv_store := AList.delete k (kv_store s), kv_queue := q0\<rparr>"
  have e: "kv_evict save now s = Some ?s'" by (simp add: kv_evict_def qk v)
  have view: "kv_view load ?s' = kv_view load s"
    using v backend_save [OF assms(2)] by (auto simp: kv_view_def delete_conv' fun_eq_iff split: option.splits)
  have len: "Suc (length (AList.delete k (kv_store s))) = length (kv_store s)"
    using assms(1) v by (intro length_delete_present) (force simp: kv_inv_def dest: map_of_SomeD)+
  have "(\<exists>w. map_of (AList.delete k (kv_store s)) k' = Some (w, j)) \<longleftrightarrow> (j, k') \<in> set q0" for k' j
  proof (cases "k' = k")
    case True
    have "(j, k) \<notin> set q0"
    proof
      assume a: "(j, k) \<in> set q0"
      then have "j = i" using kv_queue_cell [OF assms(1) v, of j] qk by simp
      then show False using a assms(1) qk unfolding kv_inv_def by force
    qed
    then show ?thesis using True by (simp add: delete_conv')
  next
    case False
    then show ?thesis using assms(1) qk unfolding kv_inv_def by (auto simp: delete_conv')
  qed
  moreover have "\<forall>c\<in>set q0. fst c < kv_fresh s" "distinct (map fst q0)"
    using assms(1) qk by (auto simp: kv_inv_def)
  ultimately have "kv_inv ?s'"
    using assms(1) len by (auto simp: kv_inv_def distinct_delete)
  moreover have "length (kv_store ?s') < KV_MAX_SIZE" using len assms(1) by (simp add: kv_inv_def)
  ultimately show ?thesis using e view assms(4) by (auto simp: delete_conv')
qed

lemma kv_setLocked_spec:
  assumes "kv_inv s" and "backend_ok load save"
  shows "\<exists>s'. kv_setLocked save now key value s = Some s' \<and> kv_inv s' \<and> kv_locked s' = kv_locked s
    \<and> kv_view load s' = (kv_view load s)(key := live_value value)"
proof (cases "map_of (kv_store s) key")
  case (Some vi)
  then obtain v i where v: "map_of (kv_store s) key = Some (v, i)" by (cases vi) auto
  let ?s' = "s\<lparr>kv_store := AList.update key (value, i) (kv_store s), kv_queue := to_front i (kv_queue s)\<rparr>"
  have "key \<in> fst ` set (kv_store s)" using v by (force dest: map_of_SomeD)
  then have "kv_inv ?s'"
    using assms(1) v kv_queue_cell [OF assms(1) v]
    by (auto simp: kv_inv_def distinct_to_front distinct_update update_conv' length_update_present)
  moreover have "kv_view load ?s' = (kv_view load s)(key := live_value value)"
    by (rule kv_view_update) simp_all
  ultimately show ?thesis using v by (simp add: kv_setLocked_def)
next
  case None
  obtain s1 where s1: "(if length (kv_store s) \<ge> KV_MAX_SIZE then kv_evict save now s else Some s) = Some s1"
    "kv_inv s1" "length (kv_store s1) < KV_MAX_SIZE" "kv_view load s1 = kv_view load s"
    "map_of (kv_store s1) key = None" "kv_locked s1 = kv_locked s"
    using kv_evict_spec [OF assms _ None, of now] assms(1) None
    by (cases "length (kv_store s) \<ge> KV_MAX_SIZE") (auto simp: kv_inv_def)
  let ?n = "kv_fresh s1"
  let ?s' = "s1\<lparr>kv_queue := (?n, key) # kv_queue s1,
       kv_store := AList.update key (value, ?n) (kv_store s1), kv_fresh := ?n + 1\<rparr>"
  have new: "key \<notin> fst ` set (kv_store s1)" using s1(5) by (simp add: map_of_eq_None_iff)
  have "(\<exists>v. map_of (AList.update key (value, ?n) (kv_store s1)) k = Some (v, j))
      \<longleftrightarrow> (j, k) \<in> set ((?n, key) # kv_queue s1)" for k j
    using s1(2,5) by (cases "k = key") (auto simp: kv_inv_def update_conv', metis option.distinct(1))
  then have "kv_inv ?s'"
    using s1(2,3) new
    by (auto simp: kv_inv_def distinct_update length_update_absent less_Suc_eq)
  moreover have "kv_view load ?s' = (kv_view load s1)(key := live_value value)"
    by (rule kv_view_update) simp_all
  ultimately show ?thesis using None s1(1,4,6) by (simp add: kv_setLocked_def)
qed

lemma kv_get_spec:
  assumes "kv_inv s" and "backend_ok load save" and "\<not> kv_locked s"
  shows "\<exists>s'. kv_get load save now key False s = Some (kv_view load s key, s') \<and> kv_inv s'
    \<and> \<not> kv_locked s' \<and> kv_view load s' = kv_view load s"
proof -
  let ?l = "s\<lparr>kv_locked := True\<rparr>"
  have l: "kv_inv ?l" "kv_view load ?l = kv_view load s" "kv_store ?l = kv_store s" "kv_db ?l = kv_db s"
    using assms(1) by (simp_all add: kv_inv_def kv_view_def fun_eq_iff split: option.splits)
  have unlock: "kv_inv t \<Longrightarrow> kv_inv (t\<lparr>kv_locked := b\<rparr>)" "kv_view load (t\<lparr>kv_locked := b\<rparr>) = kv_view load t" for t b
    by (simp_all add: kv_inv_def kv_view_def fun_eq_iff split: option.splits)
  show ?thesis
  proof (cases "map_of (kv_store s) key")
    case None
    show ?thesis
    proof (cases "load (kv_db s) key")
      case None
      then show ?thesis
        using \<open>map_of (kv_store s) key = None\<close> assms l unlock
        by (auto simp: kv_get_def with_lock_def kv_view_def)
    next
      case (Some v)
      obtain t where t: "kv_setLocked save now key v ?l = Some t" "kv_inv t"
        "kv_view load t = (kv_view load ?l)(key := live_value v)"
        using kv_setLocked_spec [OF l(1) assms(2)] by blast
      have v: "live_value v = Some v" "kv_view load s key = Some v"
        using backend_live [OF assms(2) Some] \<open>map_of (kv_store s) key = None\<close> Some
        by (simp_all add: kv_view_def)
      then have "kv_view load t = kv_view load s" using t(3) l(2) by (simp add: fun_upd_idem)
      then show ?thesis
        using t(1,2) unlock \<open>map_of (kv_store s) key = None\<close> Some assms(3) v
        by (simp add: kv_get_def with_lock_def)
    qed
  next
    case (Some vi)
    then obtain v i where v: "map_of (kv_store s) key = Some (v, i)" by (cases vi) auto
    let ?q = "if vw_deleted v then to_back i (kv_queue s) else to_front i (kv_queue s)"
    let ?t = "s\<lparr>kv_queue := ?q, kv_locked := False\<rparr>"
    have "kv_inv ?t" by (rule kv_inv_queue [OF assms(1), where i = i]) simp_all
    moreover have "kv_view load ?t = kv_view load s" by (rule kv_view_same) simp_all
    moreover have "kv_get load save now key False s = Some (kv_view load s key, ?t)"
      using v assms(3) by (simp add: kv_get_def with_lock_def kv_view_def live_value_def)
    ultimately show ?thesis by (intro exI [of _ ?t]) simp
  qed
qed

text \<open>One call of the interface, and its effect on a plain map.\<close>

datatype kv_op = KvSet string vwrapper | KvGet string | KvRemove string

fun kv_step :: "'db kv_load \<Rightarrow> 'db kv_save \<Rightarrow> u64 \<Rightarrow> kv_op \<Rightarrow> 'db kv \<Rightarrow> (vwrapper option \<times> 'db kv) option" where
  "kv_step load save now (KvSet k v) s = map_option (map_prod (\<lambda>_. None) id) (kv_set save now k v s)"
| "kv_step load save now (KvGet k) s = kv_get load save now k False s"
| "kv_step load save now (KvRemove k) s = map_option (map_prod (\<lambda>_. None) id) (kv_remove save now now k s)"

fun kv_steps :: "'db kv_load \<Rightarrow> 'db kv_save \<Rightarrow> u64 \<Rightarrow> kv_op list \<Rightarrow> 'db kv \<Rightarrow> (vwrapper option list \<times> 'db kv) option" where
  "kv_steps load save now [] s = Some ([], s)"
| "kv_steps load save now (x # xs) s = Option.bind (kv_step load save now x s)
     (\<lambda>(r, s1). map_option (map_prod (Cons r) id) (kv_steps load save now xs s1))"

fun map_step :: "kv_op \<Rightarrow> (string \<Rightarrow> vwrapper option) \<Rightarrow> vwrapper option \<times> (string \<Rightarrow> vwrapper option)" where
  "map_step (KvSet k v) m = (None, m(k := live_value v))"
| "map_step (KvGet k) m = (m k, m)"
| "map_step (KvRemove k) m = (None, m(k := None))"

fun map_steps :: "kv_op list \<Rightarrow> (string \<Rightarrow> vwrapper option) \<Rightarrow> vwrapper option list \<times> (string \<Rightarrow> vwrapper option)" where
  "map_steps [] m = ([], m)"
| "map_steps (x # xs) m = (let (r, m1) = map_step x m; (rs, m2) = map_steps xs m1 in (r # rs, m2))"

lemma kv_set_spec:
  assumes "kv_inv s" and "backend_ok load save" and "\<not> kv_locked s"
  shows "\<exists>s'. kv_set save now k v s = Some ((), s') \<and> kv_inv s' \<and> \<not> kv_locked s'
    \<and> kv_view load s' = (kv_view load s)(k := live_value v)"
proof -
  have "kv_inv (s\<lparr>kv_locked := True\<rparr>)" using assms(1) by (simp add: kv_inv_def)
  from kv_setLocked_spec [OF this assms(2)] obtain t where
    t: "kv_setLocked save now k v (s\<lparr>kv_locked := True\<rparr>) = Some t" "kv_inv t"
      "kv_view load t = (kv_view load (s\<lparr>kv_locked := True\<rparr>))(k := live_value v)" by blast
  have "kv_inv (t\<lparr>kv_locked := False\<rparr>)" "kv_view load (t\<lparr>kv_locked := False\<rparr>) = kv_view load t"
    "kv_view load (s\<lparr>kv_locked := True\<rparr>) = kv_view load s"
    using t(2) by (simp_all add: kv_inv_def kv_view_def fun_eq_iff split: option.splits)
  then show ?thesis using t assms(3) by (simp add: kv_set_def with_lock_def)
qed

lemma kv_step_refines:
  assumes "kv_inv s" and "backend_ok load save" and "\<not> kv_locked s"
  shows "\<exists>s'. kv_step load save now x s = Some (fst (map_step x (kv_view load s)), s')
    \<and> kv_inv s' \<and> \<not> kv_locked s' \<and> kv_view load s' = snd (map_step x (kv_view load s))"
proof (cases x)
  case (KvSet k v)
  then show ?thesis using kv_set_spec [OF assms, of now k v] by auto
next
  case (KvGet k)
  then show ?thesis using kv_get_spec [OF assms, of now k] by auto
next
  case (KvRemove k)
  then show ?thesis
    using kv_set_spec [OF assms, of now k "vw_deleted_mark now"]
    by (auto simp: kv_remove_def live_value_def vw_deleted_mark_def)
qed


definition table_load :: "(string \<Rightarrow> vwrapper option) \<Rightarrow> string \<Rightarrow> vwrapper option" where
  "table_load db k = (case db k of None \<Rightarrow> None | Some v \<Rightarrow> live_value v)"

definition table_save :: "string \<Rightarrow> vwrapper \<Rightarrow> (string \<Rightarrow> vwrapper option) \<Rightarrow> string \<Rightarrow> vwrapper option" where
  "table_save k v db = db(k := live_value v)"


text \<open>Flushing the database-backed store never returns: \<open>flush\<close> holds the lock that
  the \<open>saveAll\<close> it calls takes again to copy the entries.\<close>

lemma kv_flush_deadlocks: "kv_flush (kvsql_saveAll transaction) s = None"
  by (simp add: kv_flush_def kvsql_saveAll_def kv_getStore_def with_lock_def)

text \<open>A key that was removed is still listed by \<open>keys\<close> while its entry is cached.\<close>

lemma removed_key_still_listed:
  assumes "kv_inv s" and "backend_ok load save" and "\<not> kv_locked s" and "is_prefix p key"
  shows "\<exists>s1 ks s2. kv_remove save now first_use key s = Some ((), s1) \<and> kv_view load s1 key = None
    \<and> kv_keys loadPrefix p s1 = Some (ks, s2) \<and> drop (length p) key \<in> ks"
proof -
  let ?d = "vw_deleted_mark first_use"
  obtain s1 where s1: "kv_set save now key ?d s = Some ((), s1)" "\<not> kv_locked s1"
    "kv_view load s1 = (kv_view load s)(key := live_value ?d)"
    using kv_set_spec [OF assms(1-3)] by blast
  have "map_of (kv_store s1) key \<noteq> None"
    using s1(1) by (auto simp: kv_set_def with_lock_def kv_setLocked_def update_conv' split: option.splits if_splits)
  then have "key \<in> set (map fst (kv_store s1))" by (simp add: map_of_eq_None_iff)
  then have "drop (length p) key \<in> (\<lambda>k. drop (length p) k) ` set (filter (is_prefix p) (map fst (kv_store s1)))"
    using assms(4) by auto
  then show ?thesis
    using s1 by (simp add: kv_remove_def kv_keys_def with_lock_def live_value_def vw_deleted_mark_def)
qed

lemma removed_key_still_listed_witness:
  "\<exists>s1 ks s2. kv_remove table_save 5 5 ''a.b'' (kv_new (\<lambda>_. None)) = Some ((), s1)
    \<and> kv_keys (\<lambda>_ _. []) ''a.'' s1 = Some (ks, s2) \<and> ''b'' \<in> ks"
proof -
  have b: "backend_ok table_load table_save"
    by (auto simp: backend_ok_def table_load_def table_save_def live_value_def split: option.splits if_splits)
  have i: "kv_inv (kv_new (\<lambda>_. None))" "\<not> kv_locked (kv_new (\<lambda>_. None))"
    by (simp_all add: kv_inv_def kv_new_def)
  have "is_prefix ''a.'' ''a.b''" by (simp add: is_prefix_def)
  from removed_key_still_listed [OF i(1) b i(2) this, of 5 5 "\<lambda>_ _. []"] show ?thesis by auto
qed

end
