(* ===== verification/Bank.thy ===== *)
theory Bank
  imports Prelude
begin

text \<open>
  Bank accounts (\<open>game/bank/\<close>). A \<open>Bank\<close> is a pointer to a \<open>Bankable\<close>, that
  is a player or a guild; the bankables live in a heap. Dereferencing the null player of a guild
  crashes the server: the outcome \<open>Null_Dereference\<close>, with the state reached by then. The
  functions of \<open>Game\<close> that hand out and collect coins are parameters.
\<close>

subsection \<open>State and operations\<close>

record bank_player =
  bp_name :: string
  bp_town :: "u32 option"

record bankable =
  bk_balance :: u64
  bk_player :: "bank_player option"
  bk_isGuild :: bool
  bk_online :: bool

record 'm bank_world =
  bw_heap :: "nat \<Rightarrow> bankable option"
  bw_money :: 'm

type_synonym bank = "nat option"

datatype bank_outcome = Done bool | Null_Dereference

definition getBankable :: "bank \<Rightarrow> 'm bank_world \<Rightarrow> bankable option" where
  "getBankable b w = Option.bind b (bw_heap w)"

definition bank_setBalance :: "bank \<Rightarrow> u64 \<Rightarrow> 'm bank_world \<Rightarrow> bool \<times> 'm bank_world" where
  "bank_setBalance b amount w = (case b of
       Some i \<Rightarrow> (case bw_heap w i of
           Some k \<Rightarrow> (True, w\<lparr>bw_heap := (bw_heap w)(i := Some (k\<lparr>bk_balance := amount\<rparr>))\<rparr>)
         | None \<Rightarrow> (False, w))
     | None \<Rightarrow> (False, w))"

definition bank_balance :: "bank \<Rightarrow> 'm bank_world \<Rightarrow> u64" where
  "bank_balance b w = (case getBankable b w of None \<Rightarrow> 0 | Some k \<Rightarrow> bk_balance k)"

definition hasBalance :: "bank \<Rightarrow> u64 \<Rightarrow> 'm bank_world \<Rightarrow> bool" where
  "hasBalance b amount w \<longleftrightarrow> bank_balance b w \<ge> amount"

definition bank_credit :: "bank \<Rightarrow> u64 \<Rightarrow> 'm bank_world \<Rightarrow> bool \<times> 'm bank_world" where
  "bank_credit b amount w = bank_setBalance b (bank_balance b w + amount) w"

definition bank_debit :: "bank \<Rightarrow> u64 \<Rightarrow> 'm bank_world \<Rightarrow> bool \<times> 'm bank_world" where
  "bank_debit b amount w =
     (if \<not> hasBalance b amount w then (False, w) else bank_setBalance b (bank_balance b w - amount) w)"

definition to_lower :: "char \<Rightarrow> char" where
  "to_lower c = (let n = of_char c :: nat in if 65 \<le> n \<and> n \<le> 90 then char_of (n + 32) else c)"

definition compact_name :: "string \<Rightarrow> string" where
  "compact_name s = filter (\<lambda>c. c \<noteq> CHR '' '') (map to_lower s)"

definition deniedNames :: "string list" where
  "deniedNames = [''accountmanager'', ''rooksample'', ''druidsample'', ''sorcerersample'',
     ''knightsample'', ''paladinsample'']"

definition minTownId :: u32 where "minTownId = 3"

text \<open>Whether the owner of the destination refuses transfers; a player without a town is
  dereferenced all the same.\<close>

definition transfer_denied :: "bankable \<Rightarrow> bool option" where
  "transfer_denied k = (case bk_player k of
       None \<Rightarrow> Some False
     | Some p \<Rightarrow> if compact_name (bp_name p) \<in> set deniedNames then Some True
                else map_option (\<lambda>t. t < minTownId) (bp_town p))"

definition bank_transferTo :: "bank \<Rightarrow> bank option \<Rightarrow> u64 \<Rightarrow> 'm bank_world \<Rightarrow> bank_outcome \<times> 'm bank_world" where
  "bank_transferTo source destination amount w = (case destination of
       None \<Rightarrow> (Done False, w)
     | Some d \<Rightarrow> (case (getBankable source w, getBankable d w) of
         (Some sb, Some db) \<Rightarrow> (case transfer_denied db of
             None \<Rightarrow> (Null_Dereference, w)
           | Some True \<Rightarrow> (Done False, w)
           | Some False \<Rightarrow>
               (case bank_debit source amount w of
                  (False, w1) \<Rightarrow> (Done False, w1)
                | (True, w1) \<Rightarrow> (case bank_credit d amount w1 of
                    (False, w2) \<Rightarrow> (Done False, w2)
                  | (True, w2) \<Rightarrow>
                      if bk_player db = None \<or> bk_player sb = None then (Null_Dereference, w2)
                      else (Done True, w2))))
       | _ \<Rightarrow> (Done False, w)))"

definition bank_withdraw ::
    "(bank_player option \<Rightarrow> u64 \<Rightarrow> 'm \<Rightarrow> 'm) \<Rightarrow> bank \<Rightarrow> bank_player option \<Rightarrow> u64 \<Rightarrow> 'm bank_world
      \<Rightarrow> bank_outcome \<times> 'm bank_world" where
  "bank_withdraw addMoney b player amount w = (case bank_debit b amount w of
       (False, w1) \<Rightarrow> (Done False, w1)
     | (True, w1) \<Rightarrow> (if player = None then Null_Dereference else Done True,
                    w1\<lparr>bw_money := addMoney player amount (bw_money w1)\<rparr>))"

definition bank_deposit_amount ::
    "(bank_player option \<Rightarrow> u64 \<Rightarrow> 'm \<Rightarrow> bool \<times> 'm) \<Rightarrow> bank \<Rightarrow> bank option \<Rightarrow> u64 \<Rightarrow> 'm bank_world
      \<Rightarrow> bank_outcome \<times> 'm bank_world" where
  "bank_deposit_amount removeMoney b destination amount w = (case (destination, getBankable b w) of
       (Some d, Some k) \<Rightarrow>
         (case removeMoney (bk_player k) amount (bw_money w) of
            (False, m) \<Rightarrow> (Done False, w\<lparr>bw_money := m\<rparr>)
          | (True, m) \<Rightarrow>
              if bk_player k = None then (Null_Dereference, w\<lparr>bw_money := m\<rparr>)
              else (case bank_credit d amount (w\<lparr>bw_money := m\<rparr>) of (ok, w1) \<Rightarrow> (Done ok, w1)))
     | _ \<Rightarrow> (Done False, w))"

definition bank_deposit ::
    "(bank_player option \<Rightarrow> u64 \<Rightarrow> 'm \<Rightarrow> bool \<times> 'm) \<Rightarrow> (bank_player \<Rightarrow> 'm \<Rightarrow> u64) \<Rightarrow> bank \<Rightarrow> bank option
      \<Rightarrow> 'm bank_world \<Rightarrow> bank_outcome \<times> 'm bank_world" where
  "bank_deposit removeMoney getMoney b destination w = (case getBankable b w of
       None \<Rightarrow> (Done False, w)
     | Some k \<Rightarrow> (case bk_player k of
         None \<Rightarrow> (Done False, w)
       | Some p \<Rightarrow> bank_deposit_amount removeMoney b destination (getMoney p (bw_money w)) w))"

datatype bank_save = No_Save | Save_Player | Save_Guild

text \<open>What the destructor saves. A player is online while its bankable is.\<close>

definition bank_release :: "bank \<Rightarrow> 'm bank_world \<Rightarrow> bank_save" where
  "bank_release b w = (case getBankable b w of
       None \<Rightarrow> No_Save
     | Some k \<Rightarrow> if bk_online k then No_Save
                else if bk_player k \<noteq> None then Save_Player
                else if bk_isGuild k then Save_Guild else No_Save)"

subsection \<open>Ledgers\<close>

text \<open>
  The contract of a balance: removing an amount succeeds exactly when the balance covers it, and
  both directions move the balance by the amount as long as it stays below the word size.
\<close>

locale ledger =
  fixes held :: "'s \<Rightarrow> nat"
    and valid :: "'s \<Rightarrow> bool"
    and limit :: nat
    and put :: "nat \<Rightarrow> 's \<Rightarrow> bool \<times> 's"
    and take_out :: "nat \<Rightarrow> 's \<Rightarrow> bool \<times> 's"
  assumes put_law: "valid s \<Longrightarrow> held s + n < limit \<Longrightarrow>
      \<exists>s'. put n s = (True, s') \<and> valid s' \<and> held s' = held s + n"
    and take_law: "valid s \<Longrightarrow> n < limit \<Longrightarrow>
      (if n \<le> held s then \<exists>s'. take_out n s = (True, s') \<and> valid s' \<and> held s' = held s - n
       else take_out n s = (False, s))"
begin

lemma put_take:
  assumes "valid s" and "held s + n < limit"
  shows "\<exists>s1 s2. put n s = (True, s1) \<and> take_out n s1 = (True, s2) \<and> held s2 = held s"
proof -
  obtain s1 where s1: "put n s = (True, s1)" "valid s1" "held s1 = held s + n"
    using put_law [OF assms] by blast
  then show ?thesis using take_law [of s1 n] assms(2) by auto
qed

lemma never_overdrawn: "valid s \<Longrightarrow> n < limit \<Longrightarrow> take_out n s = (True, s') \<Longrightarrow> n \<le> held s"
  using take_law [of s n] by (auto split: if_splits)

end

definition bank_valid :: "nat \<Rightarrow> 'm bank_world \<Rightarrow> bool" where
  "bank_valid i w \<longleftrightarrow> bw_heap w i \<noteq> None"

definition bank_held :: "nat \<Rightarrow> 'm bank_world \<Rightarrow> nat" where
  "bank_held i w = unat (bank_balance (Some i) w)"

lemma bank_setBalance_Some:
  "bank_valid i w \<Longrightarrow> \<exists>w'. bank_setBalance (Some i) a w = (True, w') \<and> bank_valid i w'
    \<and> bank_held i w' = unat a \<and> (\<forall>j. j \<noteq> i \<longrightarrow> bw_heap w' j = bw_heap w j)
    \<and> bw_money w' = bw_money w
    \<and> (\<forall>k. bw_heap w i = Some k \<longrightarrow> bw_heap w' i = Some (k\<lparr>bk_balance := a\<rparr>))"
  by (auto simp: bank_valid_def bank_setBalance_def bank_held_def bank_balance_def getBankable_def)

lemma bank_credit_Some:
  assumes "bank_valid i w" and "bank_held i w + unat a < 2 ^ 64"
  shows "\<exists>w'. bank_credit (Some i) a w = (True, w') \<and> bank_valid i w'
    \<and> bank_held i w' = bank_held i w + unat a \<and> (\<forall>j. j \<noteq> i \<longrightarrow> bw_heap w' j = bw_heap w j)
    \<and> bw_money w' = bw_money w"
proof -
  have "unat (bank_balance (Some i) w + a) = bank_held i w + unat a"
    using assms(2) by (simp add: bank_held_def unat_word_ariths)
  then show ?thesis
    using bank_setBalance_Some [OF assms(1), of "bank_balance (Some i) w + a"]
    by (auto simp: bank_credit_def)
qed

lemma bank_debit_Some:
  assumes "bank_valid i w"
  shows "if unat a \<le> bank_held i w
    then \<exists>w'. bank_debit (Some i) a w = (True, w') \<and> bank_valid i w'
      \<and> bank_held i w' = bank_held i w - unat a \<and> (\<forall>j. j \<noteq> i \<longrightarrow> bw_heap w' j = bw_heap w j)
      \<and> bw_money w' = bw_money w
    else bank_debit (Some i) a w = (False, w)"
  using bank_setBalance_Some [OF assms, of "bank_balance (Some i) w - a"]
  by (auto simp: bank_debit_def hasBalance_def bank_held_def word_le_nat_alt unat_sub)

interpretation bank: ledger "bank_held i" "bank_valid i" "2 ^ 64"
  "\<lambda>n. bank_credit (Some i) (of_nat n)" "\<lambda>n. bank_debit (Some i) (of_nat n)" for i
proof unfold_locales
  fix w :: "'m bank_world" and n
  assume v: "bank_valid i w"
  show "\<exists>w'. bank_credit (Some i) (of_nat n) w = (True, w') \<and> bank_valid i w' \<and> bank_held i w' = bank_held i w + n"
    if "bank_held i w + n < 2 ^ 64"
    using that bank_credit_Some [OF v, of "of_nat n"] by (auto simp: unat_of_nat)
  show "if n \<le> bank_held i w
    then \<exists>w'. bank_debit (Some i) (of_nat n) w = (True, w') \<and> bank_valid i w' \<and> bank_held i w' = bank_held i w - n
    else bank_debit (Some i) (of_nat n) w = (False, w)" if "n < 2 ^ 64"
    using that bank_debit_Some [OF v, of "of_nat n"] by (auto simp: unat_of_nat split: if_splits)
qed

subsection \<open>Transfers\<close>

lemma bank_held_cong: "bw_heap w' k = bw_heap w k \<Longrightarrow> bank_held k w' = bank_held k w"
  by (simp add: bank_held_def bank_balance_def getBankable_def)

text \<open>Debit followed by credit, the two moves of every transfer.\<close>

lemma debit_credit:
  assumes v: "bank_valid i w" "bank_valid j w" and le: "unat a \<le> bank_held i w"
    and fit: "bank_held j w + unat a < 2 ^ 64"
  shows "\<exists>w1 w2. bank_debit (Some i) a w = (True, w1) \<and> bank_credit (Some j) a w1 = (True, w2)
    \<and> (if i = j then bank_held i w2 = bank_held i w
       else bank_held i w2 = bank_held i w - unat a \<and> bank_held j w2 = bank_held j w + unat a)
    \<and> (\<forall>k. k \<noteq> i \<and> k \<noteq> j \<longrightarrow> bank_held k w2 = bank_held k w)"
proof -
  obtain w1 where w1: "bank_debit (Some i) a w = (True, w1)" "bank_held i w1 = bank_held i w - unat a"
    "\<And>k. k \<noteq> i \<Longrightarrow> bw_heap w1 k = bw_heap w k" "bank_valid i w1"
    using bank_debit_Some [OF v(1), of a] le by auto
  have v1: "bank_valid j w1" using v(2) w1(3,4) by (cases "j = i") (auto simp: bank_valid_def)
  have h1: "bank_held k w1 = bank_held k w" if "k \<noteq> i" for k
    by (rule bank_held_cong) (rule w1(3) [OF that])
  have "bank_held j w1 \<le> bank_held j w" using w1(2) h1 [of j] by (cases "j = i") simp_all
  then have "bank_held j w1 + unat a < 2 ^ 64" using fit by (meson add_le_mono1 le_less_trans)
  from bank_credit_Some [OF v1 this]
  obtain w2 where w2: "bank_credit (Some j) a w1 = (True, w2)" "bank_held j w2 = bank_held j w1 + unat a"
    "\<And>k. k \<noteq> j \<Longrightarrow> bw_heap w2 k = bw_heap w1 k"
    by blast
  have h2: "bank_held k w2 = bank_held k w1" if "k \<noteq> j" for k
    by (rule bank_held_cong) (rule w2(3) [OF that])
  have b: "if i = j then bank_held i w2 = bank_held i w
     else bank_held i w2 = bank_held i w - unat a \<and> bank_held j w2 = bank_held j w + unat a"
    using w1(2) w2(2) h1 [of j] h2 [of i] le by (cases "i = j") auto
  have "\<forall>k. k \<noteq> i \<and> k \<noteq> j \<longrightarrow> bank_held k w2 = bank_held k w" using h1 h2 by simp
  with b w1(1) w2(1) show ?thesis by blast
qed

lemma sum_moved:
  assumes "finite A" and "i \<in> A" and "j \<in> A" and "i \<noteq> j" and "n \<le> f i"
    and "g i = f i - n" and "g j = f j + n" and "\<And>k. k \<noteq> i \<Longrightarrow> k \<noteq> j \<Longrightarrow> g k = f k"
  shows "(\<Sum>k\<in>A. g k) = (\<Sum>k\<in>A. (f k :: nat))"
proof -
  have A: "A = insert i (insert j (A - {i, j}))" using assms(2,3) by auto
  have "sum g (A - {i, j}) = sum f (A - {i, j})" by (rule sum.cong) (use assms(8) in auto)
  moreover have "sum h A = h i + (h j + sum h (A - {i, j}))" for h :: "_ \<Rightarrow> nat"
    by (subst A) (use assms(1,4) in simp)
  ultimately show ?thesis using assms(5-7) by simp
qed

text \<open>C8: no transfer creates or destroys money: the sum of the balances of any set of accounts
  that contains both sides is the same before and after, whatever the outcome; a refused transfer
  changes nothing, and an accepted one moves exactly the amount, which the source held.\<close>

theorem bank_transfer_conserves:
  assumes "bank_transferTo (Some i) (Some (Some j)) amount w = (r, w')"
    and "finite A" and "i \<in> A" and "j \<in> A" and "bank_held j w + unat amount < 2 ^ 64"
  shows "(\<Sum>k\<in>A. bank_held k w') = (\<Sum>k\<in>A. bank_held k w)
    \<and> (r = Done False \<longrightarrow> w' = w)
    \<and> (r = Done True \<longrightarrow> unat amount \<le> bank_held i w
        \<and> (i \<noteq> j \<longrightarrow> bank_held i w' = bank_held i w - unat amount \<and> bank_held j w' = bank_held j w + unat amount))"
proof (cases "bank_valid i w \<and> bank_valid j w \<and> unat amount \<le> bank_held i w")
  case True
  then obtain w1 w2 where m: "bank_debit (Some i) amount w = (True, w1)" "bank_credit (Some j) amount w1 = (True, w2)"
    "if i = j then bank_held i w2 = bank_held i w
     else bank_held i w2 = bank_held i w - unat amount \<and> bank_held j w2 = bank_held j w + unat amount"
    "\<And>k. k \<noteq> i \<Longrightarrow> k \<noteq> j \<Longrightarrow> bank_held k w2 = bank_held k w"
    using debit_credit [of i w j amount] assms(5) by blast
  have "(\<Sum>k\<in>A. bank_held k w2) = (\<Sum>k\<in>A. bank_held k w)"
  proof (cases "i = j")
    case True
    then show ?thesis using m(3,4) by (intro sum.cong) (auto, metis)
  next
    case False
    then show ?thesis
      using sum_moved [OF assms(2-4) False, of "unat amount" "\<lambda>k. bank_held k w" "\<lambda>k. bank_held k w2"]
        m(3,4) True by auto
  qed
  moreover have "w' = w \<and> r \<noteq> Done True \<or> w' = w2 \<and> r \<noteq> Done False"
    using assms(1) m(1,2)
    by (auto simp: bank_transferTo_def split: option.splits if_splits bool.splits)
  ultimately show ?thesis using True m(3) by (auto split: if_splits)
next
  case False
  have "w' = w \<and> r \<noteq> Done True"
  proof (cases "bank_valid i w \<and> bank_valid j w")
    case True
    then have "bank_debit (Some i) amount w = (False, w)"
      using False bank_debit_Some [of i w amount] by auto
    then show ?thesis using assms(1) by (auto simp: bank_transferTo_def split: option.splits if_splits bool.splits)
  next
    case False
    then show ?thesis
      using assms(1) by (auto simp: bank_transferTo_def bank_valid_def getBankable_def split: option.splits)
  qed
  then show ?thesis by auto
qed

definition sample_world :: "unit bank_world" where
  "sample_world = \<lparr>bw_heap = [0 \<mapsto> \<lparr>bk_balance = 100, bk_player = Some \<lparr>bp_name = ''Ann'', bp_town = Some 8\<rparr>,
       bk_isGuild = False, bk_online = True\<rparr>,
     1 \<mapsto> \<lparr>bk_balance = 5, bk_player = Some \<lparr>bp_name = ''Bob'', bp_town = Some 8\<rparr>,
       bk_isGuild = False, bk_online = True\<rparr>,
     2 \<mapsto> \<lparr>bk_balance = 7, bk_player = None, bk_isGuild = True, bk_online = True\<rparr>], bw_money = ()\<rparr>"

lemma sample_names: "compact_name ''Bob'' \<notin> set deniedNames"
  by (simp add: compact_name_def deniedNames_def to_lower_def Let_def)

lemma sample_held:
  "bank_held 0 sample_world = 100" "bank_held (Suc 0) sample_world = 5" "bank_held 2 sample_world = 7"
  by (simp_all add: bank_held_def bank_balance_def getBankable_def sample_world_def)

theorem bank_transfer_conserves_witness:
  "let (r, w') = bank_transferTo (Some 0) (Some (Some 1)) 30 sample_world
   in r = Done True \<and> (\<Sum>k\<in>{0, 1}. bank_held k w') = 105 \<and> bank_held 1 w' = 35"
proof -
  obtain r w' where t: "bank_transferTo (Some 0) (Some (Some 1)) 30 sample_world = (r, w')" by fastforce
  have r: "r = Done True"
    using t sample_names
    by (simp add: bank_transferTo_def getBankable_def transfer_denied_def bank_debit_def bank_credit_def
        hasBalance_def bank_balance_def bank_setBalance_def sample_world_def minTownId_def)
  show ?thesis
    using bank_transfer_conserves [OF t, of "{0, 1}"] r sample_held t by (simp add: Let_def)
qed

text \<open>A transfer between accounts one of which is a guild's crashes the server whenever it
  is not refused, after the money has been moved: the metrics code asks a guild for its player.\<close>

lemma guild_transfer_crashes:
  assumes "bw_heap w i = Some sb" and "bw_heap w j = Some db" and "i \<noteq> j"
    and "bk_player sb = None \<or> bk_player db = None"
    and "transfer_denied db = Some False" and "amount \<le> bk_balance sb"
    and "bank_held j w + unat amount < 2 ^ 64"
  shows "\<exists>w'. bank_transferTo (Some i) (Some (Some j)) amount w = (Null_Dereference, w')
    \<and> bank_held i w' = bank_held i w - unat amount \<and> bank_held j w' = bank_held j w + unat amount"
proof -
  have le: "unat amount \<le> bank_held i w"
    using assms(1,6) by (simp add: bank_held_def bank_balance_def getBankable_def word_le_nat_alt)
  obtain w1 w2 where m: "bank_debit (Some i) amount w = (True, w1)" "bank_credit (Some j) amount w1 = (True, w2)"
    "bank_held i w2 = bank_held i w - unat amount \<and> bank_held j w2 = bank_held j w + unat amount"
    using debit_credit [of i w j amount] le assms(1-3,7) by (auto simp: bank_valid_def)
  then show ?thesis
    using assms(1,2,4,5) by (auto simp: bank_transferTo_def getBankable_def)
qed

theorem guild_transfer_crashes_witness:
  "\<exists>w'. bank_transferTo (Some 0) (Some (Some 2)) 30 sample_world = (Null_Dereference, w')
    \<and> bank_held 2 w' = 37"
proof -
  have h: "bw_heap sample_world 0 = Some \<lparr>bk_balance = 100, bk_player = Some \<lparr>bp_name = ''Ann'', bp_town = Some 8\<rparr>,
       bk_isGuild = False, bk_online = True\<rparr>"
    "bw_heap sample_world 2 = Some \<lparr>bk_balance = 7, bk_player = None, bk_isGuild = True, bk_online = True\<rparr>"
    by (simp_all add: sample_world_def)
  show ?thesis
    using guild_transfer_crashes [OF h, of 30] sample_held
    by (auto simp: transfer_denied_def word_le_nat_alt)
qed

text \<open>Depositing carried money is all or nothing for the bank's balance, but the money is
  collected from the player before the destination is looked at: when the destination bank has no
  owner the deposit fails and the money is gone.\<close>

lemma deposit_accounts:
  assumes "getBankable b w = Some k" and "bk_player k = Some p"
    and "removeMoney (Some p) amount (bw_money w) = (ok, m)"
    and "\<And>i. d = Some i \<Longrightarrow> bank_valid i w \<Longrightarrow> bank_held i w + unat amount < 2 ^ 64"
  shows "\<exists>w'. bank_deposit_amount removeMoney b (Some d) amount w = (Done (ok \<and> getBankable d w \<noteq> None), w')
    \<and> bw_money w' = m
    \<and> (\<forall>i. bank_held i w' = (if ok \<and> d = Some i \<and> bank_valid i w then bank_held i w + unat amount else bank_held i w))"
proof (cases "ok \<and> getBankable d w \<noteq> None")
  case True
  then obtain i where d: "d = Some i" "bank_valid i w"
    by (auto simp: getBankable_def bank_valid_def split: bind_splits)
  let ?w = "w\<lparr>bw_money := m\<rparr>"
  have v: "bank_valid i ?w" and h: "bank_held k ?w = bank_held k w" for k
    using d(2) by (simp_all add: bank_valid_def bank_held_def bank_balance_def getBankable_def)
  obtain w' where w': "bank_credit (Some i) amount ?w = (True, w')" "bank_held i w' = bank_held i w + unat amount"
    "\<And>j. j \<noteq> i \<Longrightarrow> bw_heap w' j = bw_heap ?w j" "bw_money w' = m"
    using bank_credit_Some [OF v, of amount] assms(4) [OF d] h by auto
  have o: "bank_held j w' = bank_held j w" if "j \<noteq> i" for j
    using bank_held_cong [OF w'(3) [OF that]] h by simp
  have "\<forall>j. bank_held j w' = (if ok \<and> d = Some j \<and> bank_valid j w then bank_held j w + unat amount else bank_held j w)"
    using True d w'(2) o by (metis option.inject)
  moreover have "bank_deposit_amount removeMoney b (Some d) amount w = (Done (ok \<and> getBankable d w \<noteq> None), w')"
    using True assms(1-3) w'(1) d(1) by (simp add: bank_deposit_amount_def)
  ultimately show ?thesis using w'(4) by blast
next
  case False
  have h: "bank_held j (w\<lparr>bw_money := m\<rparr>) = bank_held j w" for j
    by (simp add: bank_held_def bank_balance_def getBankable_def)
  show ?thesis
  proof (cases ok)
    case True
    then have "getBankable d w = None" using False by simp
    then have "bank_credit d amount (w\<lparr>bw_money := m\<rparr>) = (False, w\<lparr>bw_money := m\<rparr>)"
      by (auto simp: bank_credit_def bank_setBalance_def getBankable_def split: option.splits bind_splits)
    moreover have "\<not> (d = Some i \<and> bank_valid i w)" for i
      using \<open>getBankable d w = None\<close> by (auto simp: getBankable_def bank_valid_def)
    ultimately show ?thesis
      using True assms(1-3) h \<open>getBankable d w = None\<close> by (auto simp: bank_deposit_amount_def)
  next
    case False
    then show ?thesis using assms(1-3) h by (auto simp: bank_deposit_amount_def)
  qed
qed

theorem deposit_accounts_witness:
  "\<exists>w'. bank_deposit_amount (\<lambda>_ _ m. (True, m)) (Some 0) (Some (Some 1)) 30 sample_world = (Done True, w')
    \<and> bank_held 1 w' = 35"
proof -
  have g: "getBankable (Some 0) sample_world = Some \<lparr>bk_balance = 100,
       bk_player = Some \<lparr>bp_name = ''Ann'', bp_town = Some 8\<rparr>, bk_isGuild = False, bk_online = True\<rparr>"
    "getBankable (Some 1) sample_world \<noteq> None" "bank_valid 1 sample_world"
    by (simp_all add: sample_world_def getBankable_def bank_valid_def)
  show ?thesis
    using deposit_accounts [OF g(1), of _ "\<lambda>_ _ m. (True, m)" 30 True _ "Some 1"] g(2,3) sample_held
    by auto
qed

end
