(* ===== verification/Account.thy ===== *)
theory Account
  imports Complex_Main Bank "HOL-Library.Signed_Division"
begin

text \<open>
  Accounts (\<open>account/\<close>): loading and saving, coins, premium time, authentication. The account
  repository is an interface of the program; its methods are a record of functions over a state
  \<open>'r\<close>, and the rows the database implementation reads are arguments. The clock is a parameter
  in seconds; an \<open>int\<close> product that overflows is undefined: \<open>None\<close>.
\<close>

subsection \<open>Data\<close>

datatype acc_error = ERROR_NO | ERROR_STORAGE | ERROR_REMOVE_COINS | ERROR_INVALID_LAST_DAY
  | ERROR_LOADING_ACCOUNT | ERROR_NOT_INITIALIZED

datatype account_type = ACCOUNT_TYPE_NORMAL | ACCOUNT_TYPE_TUTOR | ACCOUNT_TYPE_SENIORTUTOR
  | ACCOUNT_TYPE_GAMEMASTER | ACCOUNT_TYPE_GOD

datatype coin_transaction = COIN_ADD | COIN_REMOVE

datatype coin_type = COIN | TOURNAMENT | TRANSFERABLE

record account_info =
  ai_id :: u32
  ai_premiumRemainingDays :: u32
  ai_premiumLastDay :: int
  ai_accountType :: account_type
  ai_players :: "(string \<times> u64) list"
  ai_oldProtocol :: bool
  ai_sessionExpires :: int
  ai_premiumDaysPurchased :: u32
  ai_creationTime :: u32

record 'r repository =
  rp_loadByID :: "u32 \<Rightarrow> account_info \<Rightarrow> 'r \<Rightarrow> bool \<times> account_info \<times> 'r"
  rp_loadByEmailOrName :: "bool \<Rightarrow> string \<Rightarrow> account_info \<Rightarrow> 'r \<Rightarrow> bool \<times> account_info \<times> 'r"
  rp_loadBySession :: "string \<Rightarrow> account_info \<Rightarrow> 'r \<Rightarrow> bool \<times> account_info \<times> 'r"
  rp_save :: "account_info \<Rightarrow> 'r \<Rightarrow> bool \<times> 'r"
  rp_getPassword :: "u32 \<Rightarrow> 'r \<Rightarrow> string option"
  rp_getCoins :: "u32 \<Rightarrow> coin_type \<Rightarrow> 'r \<Rightarrow> u32 option"
  rp_setCoins :: "u32 \<Rightarrow> coin_type \<Rightarrow> u32 \<Rightarrow> 'r \<Rightarrow> bool \<times> 'r"
  rp_registerCoins :: "u32 \<Rightarrow> coin_transaction \<Rightarrow> u32 \<Rightarrow> coin_type \<Rightarrow> string \<Rightarrow> 'r \<Rightarrow> bool \<times> 'r"

record 'r account =
  ac_descriptor :: string
  ac_info :: account_info
  ac_loaded :: bool
  ac_repo :: 'r

definition default_info :: account_info where
  "default_info = \<lparr>ai_id = 0, ai_premiumRemainingDays = 0, ai_premiumLastDay = 0,
     ai_accountType = ACCOUNT_TYPE_NORMAL, ai_players = [], ai_oldProtocol = False,
     ai_sessionExpires = 0, ai_premiumDaysPurchased = 0, ai_creationTime = 0\<rparr>"

definition account_by_id :: "u32 \<Rightarrow> 'r \<Rightarrow> 'r account" where
  "account_by_id i r = \<lparr>ac_descriptor = [], ac_info = default_info\<lparr>ai_id := i\<rparr>, ac_loaded = False, ac_repo = r\<rparr>"

definition account_by_descriptor :: "string \<Rightarrow> 'r \<Rightarrow> 'r account" where
  "account_by_descriptor d r = \<lparr>ac_descriptor = d, ac_info = default_info, ac_loaded = False, ac_repo = r\<rparr>"

subsection \<open>Premium time\<close>

definition int32 :: "int \<Rightarrow> bool" where
  "int32 n \<longleftrightarrow> - (2 ^ 31) \<le> n \<and> n < 2 ^ 31"

definition setPremiumDays :: "int \<Rightarrow> 32 word \<Rightarrow> 'r account \<Rightarrow> 'r account option" where
  "setPremiumDays now days a =
     (if \<not> int32 (sint days * 86400) then None
      else let i = (ac_info a)\<lparr>ai_premiumRemainingDays := days,
                               ai_premiumLastDay := now + sint days * 86400\<rparr>
           in Some (a\<lparr>ac_info := (if sint days \<le> 0
                then i\<lparr>ai_premiumLastDay := 0, ai_premiumRemainingDays := 0\<rparr> else i)\<rparr>))"

definition addPremiumDays :: "int \<Rightarrow> 32 word \<Rightarrow> 'r account \<Rightarrow> 'r account option" where
  "addPremiumDays now days a =
     (let timeLeft = max 0 ((ai_premiumLastDay (ac_info a) - now) smod 86400)
      in map_option (\<lambda>a1.
           let i = (ac_info a1)\<lparr>ai_premiumDaysPurchased := ai_premiumDaysPurchased (ac_info a1) + days\<rparr>
           in a1\<lparr>ac_info := (if timeLeft > 0
                then i\<lparr>ai_premiumLastDay := ai_premiumLastDay i + timeLeft\<rparr> else i)\<rparr>)
         (setPremiumDays now (ai_premiumRemainingDays (ac_info a) + days) a))"

definition acc_save :: "'r repository \<Rightarrow> 'r account \<Rightarrow> acc_error \<times> 'r account" where
  "acc_save rp a =
     (if \<not> ac_loaded a then (ERROR_NOT_INITIALIZED, a)
      else case rp_save rp (ac_info a) (ac_repo a) of
        (ok, r) \<Rightarrow> (if ok then ERROR_NO else ERROR_STORAGE, a\<lparr>ac_repo := r\<rparr>))"

definition clear_premium :: "'r account \<Rightarrow> 'r account" where
  \<comment> \<open>\<open>setPremiumDays(0)\<close>\<close>
  "clear_premium a = a\<lparr>ac_info := (ac_info a)\<lparr>ai_premiumLastDay := 0, ai_premiumRemainingDays := 0\<rparr>\<rparr>"

definition updatePremiumTime :: "'r repository \<Rightarrow> int \<Rightarrow> 'r account \<Rightarrow> 'r account" where
  "updatePremiumTime rp now a =
     (let lastDay = ai_premiumLastDay (ac_info a);
          remainingDays = ai_premiumRemainingDays (ac_info a);
          daysLeft = (of_int ((lastDay - now) sdiv 86400) :: 32 word);
          timeLeft = (of_int ((lastDay - now) smod 86400) :: 32 word);
          a1 = a\<lparr>ac_info := (ac_info a)\<lparr>ai_premiumRemainingDays := (if sint daysLeft > 0 then daysLeft else 0)\<rparr>\<rparr>;
          a2 = (if daysLeft = 0 \<and> timeLeft = 0 then clear_premium a1 else a1);
          a3 = (if lastDay < now \<or> lastDay = 0 then clear_premium a2 else a2)
      in if remainingDays = ai_premiumRemainingDays (ac_info a3) then a3 else snd (acc_save rp a3))"

definition getPremiumRemainingDays :: "int \<Rightarrow> 'r account \<Rightarrow> u32" where
  "getPremiumRemainingDays now a = (if ai_premiumLastDay (ac_info a) > now
     then of_int ((ai_premiumLastDay (ac_info a) - now) sdiv 86400) else 0)"

text \<open>The quotient is an integer before \<open>std::ceil\<close> sees it.\<close>

definition getAccountAgeInDays :: "int \<Rightarrow> 'r account \<Rightarrow> u32" where
  "getAccountAgeInDays now a =
     of_int (ceiling (real_of_int ((now - uint (ai_creationTime (ac_info a))) sdiv 86400)))"

subsection \<open>Loading\<close>

definition acc_load :: "'r repository \<Rightarrow> int \<Rightarrow> 'r account \<Rightarrow> acc_error \<times> 'r account" where
  "acc_load rp now a0 =
     (let store = (\<lambda>a (ok, i, r). (ok :: bool, a\<lparr>ac_info := i, ac_repo := r\<rparr>));
          (ok1, a1) = (if ai_id (ac_info a0) \<noteq> 0
             then store a0 (rp_loadByID rp (ai_id (ac_info a0)) (ac_info a0) (ac_repo a0)) else (False, a0))
      in if ok1 then (ERROR_NO, a1\<lparr>ac_loaded := True\<rparr>)
      else let (ok2, a2) = (if ac_descriptor a1 \<noteq> []
             then store a1 (rp_loadByEmailOrName rp (ai_oldProtocol (ac_info a1)) (ac_descriptor a1) (ac_info a1) (ac_repo a1))
             else (False, a1))
      in if ok2 then (ERROR_NO, a2\<lparr>ac_loaded := True\<rparr>)
      else let (ok3, a3) = (if ac_descriptor a2 \<noteq> []
             then store a2 (rp_loadBySession rp (ac_descriptor a2) (ac_info a2) (ac_repo a2)) else (False, a2))
      in if ok3 then (ERROR_NO, a3\<lparr>ac_loaded := True\<rparr>)
      else (ERROR_LOADING_ACCOUNT, updatePremiumTime rp now a3))"

definition acc_reload :: "'r repository \<Rightarrow> int \<Rightarrow> 'r account \<Rightarrow> acc_error \<times> 'r account" where
  "acc_reload rp now a = (if \<not> ac_loaded a then (ERROR_NOT_INITIALIZED, a) else acc_load rp now a)"

subsection \<open>The rows of the database repository\<close>

record account_row =
  ar_id :: u32
  ar_type :: account_type
  ar_lastday :: int
  ar_expires :: int
  ar_purchased :: u32
  ar_creation :: u32

text \<open>\<open>try_emplace\<close> keeps an entry that exists; a query without rows is a failure.\<close>

definition try_emplace :: "string \<times> u64 \<Rightarrow> (string \<times> u64) list \<Rightarrow> (string \<times> u64) list" where
  "try_emplace p m = (if map_of m (fst p) = None then p # m else m)"

definition loadAccountPlayers :: "(string \<times> u64) list option \<Rightarrow> account_info \<Rightarrow> bool \<times> account_info" where
  "loadAccountPlayers rows acc = (case rows of
       None \<Rightarrow> (False, acc)
     | Some rs \<Rightarrow> (True, acc\<lparr>ai_players := fold try_emplace (filter (\<lambda>(n, deletion). deletion = 0) rs) (ai_players acc)\<rparr>))"

definition setupLoyaltyInfo :: "int \<Rightarrow> account_info \<Rightarrow> account_info \<times> bool" where
  \<comment> \<open>the second component says whether the account is saved\<close>
  "setupLoyaltyInfo now acc =
     (if ai_premiumDaysPurchased acc \<ge> ai_premiumRemainingDays acc \<and> ai_creationTime acc \<noteq> 0 then (acc, False)
      else let a1 = (if ai_premiumDaysPurchased acc < ai_premiumRemainingDays acc
                 then acc\<lparr>ai_premiumDaysPurchased := ai_premiumRemainingDays acc\<rparr> else acc);
               a2 = (if ai_creationTime a1 = 0 then a1\<lparr>ai_creationTime := of_int now\<rparr> else a1)
           in (a2, True))"

definition load_row ::
    "int \<Rightarrow> account_row option \<Rightarrow> (string \<times> u64) list option \<Rightarrow> account_info \<Rightarrow> bool \<times> account_info \<times> bool" where
  "load_row now row players acc = (case row of
       None \<Rightarrow> (False, acc, False)
     | Some r \<Rightarrow>
        let a1 = acc\<lparr>ai_id := ar_id r, ai_accountType := ar_type r, ai_premiumLastDay := ar_lastday r,
                    ai_sessionExpires := ar_expires r, ai_premiumDaysPurchased := ar_purchased r,
                    ai_creationTime := ar_creation r,
                    ai_premiumRemainingDays := (if ar_lastday r > now
                       then of_int ((ar_lastday r - now) sdiv 86400) else 0)\<rparr>;
            (a2, saved) = setupLoyaltyInfo now a1;
            (ok, a3) = loadAccountPlayers players a2
        in (ok, a3, saved))"

subsection \<open>Coins\<close>

definition acc_getCoins :: "'r repository \<Rightarrow> coin_type \<Rightarrow> 'r account \<Rightarrow> u32 \<times> acc_error" where
  "acc_getCoins rp ty a =
     (if \<not> ac_loaded a then (0, ERROR_NOT_INITIALIZED)
      else case rp_getCoins rp (ai_id (ac_info a)) ty (ac_repo a) of
        None \<Rightarrow> (0, ERROR_STORAGE) | Some c \<Rightarrow> (c, ERROR_NO))"

definition registerCoinTransaction ::
    "'r repository \<Rightarrow> coin_transaction \<Rightarrow> coin_type \<Rightarrow> u32 \<Rightarrow> string \<Rightarrow> 'r account \<Rightarrow> 'r account" where
  "registerCoinTransaction rp tr ty amount detail a =
     (if \<not> ac_loaded a then a else if detail = [] then a
      else a\<lparr>ac_repo := snd (rp_registerCoins rp (ai_id (ac_info a)) tr amount ty detail (ac_repo a))\<rparr>)"

definition addCoins :: "'r repository \<Rightarrow> coin_type \<Rightarrow> u32 \<Rightarrow> string \<Rightarrow> 'r account \<Rightarrow> acc_error \<times> 'r account" where
  "addCoins rp ty amount detail a =
     (if \<not> ac_loaded a then (ERROR_NOT_INITIALIZED, a)
      else if amount = 0 then (ERROR_NO, a)
      else let (coins, result) = acc_getCoins rp ty a in
        if result \<noteq> ERROR_NO then (result, a)
        else case rp_setCoins rp (ai_id (ac_info a)) ty (coins + amount) (ac_repo a) of
          (False, r) \<Rightarrow> (ERROR_STORAGE, a\<lparr>ac_repo := r\<rparr>)
        | (True, r) \<Rightarrow> (ERROR_NO, registerCoinTransaction rp COIN_ADD ty amount detail (a\<lparr>ac_repo := r\<rparr>)))"

definition removeCoins :: "'r repository \<Rightarrow> coin_type \<Rightarrow> u32 \<Rightarrow> string \<Rightarrow> 'r account \<Rightarrow> acc_error \<times> 'r account" where
  "removeCoins rp ty amount detail a =
     (if \<not> ac_loaded a then (ERROR_NOT_INITIALIZED, a)
      else if amount = 0 then (ERROR_NO, a)
      else let (coins, result) = acc_getCoins rp ty a in
        if result \<noteq> ERROR_NO then (result, a)
        else if coins < amount then (ERROR_REMOVE_COINS, a)
        else case rp_setCoins rp (ai_id (ac_info a)) ty (coins - amount) (ac_repo a) of
          (False, r) \<Rightarrow> (ERROR_STORAGE, a\<lparr>ac_repo := r\<rparr>)
        | (True, r) \<Rightarrow> (ERROR_NO, registerCoinTransaction rp COIN_REMOVE ty amount detail (a\<lparr>ac_repo := r\<rparr>)))"

subsection \<open>Authentication\<close>

definition acc_getPassword :: "'r repository \<Rightarrow> 'r account \<Rightarrow> string" where
  "acc_getPassword rp a = (if \<not> ac_loaded a then []
     else case rp_getPassword rp (ai_id (ac_info a)) (ac_repo a) of None \<Rightarrow> [] | Some p \<Rightarrow> p)"

definition authenticateSession :: "int \<Rightarrow> 'r account \<Rightarrow> bool" where
  "authenticateSession now a \<longleftrightarrow> \<not> ai_sessionExpires (ac_info a) < now"

text \<open>\<open>argon\<close> and \<open>sha1\<close> are the two hash checks.\<close>

definition authenticatePassword ::
    "(string \<Rightarrow> string \<Rightarrow> bool) \<Rightarrow> (string \<Rightarrow> string) \<Rightarrow> 'r repository \<Rightarrow> string \<Rightarrow> 'r account \<Rightarrow> bool" where
  "authenticatePassword argon sha1 rp password a =
     (if argon password (acc_getPassword rp a) then True
      else sha1 password = acc_getPassword rp a)"

definition getAccountPlayers :: "'r account \<Rightarrow> (string \<times> u64) list \<times> acc_error" where
  "getAccountPlayers a = (ai_players (ac_info a), if ac_loaded a then ERROR_NO else ERROR_NOT_INITIALIZED)"

definition setAccountType :: "account_type \<Rightarrow> 'r account \<Rightarrow> acc_error \<times> 'r account" where
  "setAccountType t a = (ERROR_NO, a\<lparr>ac_info := (ac_info a)\<lparr>ai_accountType := t\<rparr>\<rparr>)"

subsection \<open>Properties\<close>

text \<open>What the coin operations rely on: a stored amount is read back, and neither other
  columns nor the transaction log affect it.\<close>

definition coin_repo_ok :: "'r repository \<Rightarrow> bool" where
  "coin_repo_ok rp \<longleftrightarrow>
     (\<forall>i ty n r i' ty'. rp_getCoins rp i ty r \<noteq> None \<longrightarrow> fst (rp_setCoins rp i ty n r) \<and>
        rp_getCoins rp i' ty' (snd (rp_setCoins rp i ty n r)) =
          (if i' = i \<and> ty' = ty then Some n else rp_getCoins rp i' ty' r)) \<and>
     (\<forall>i tr n ty d r i' ty'. rp_getCoins rp i' ty' (snd (rp_registerCoins rp i tr n ty d r)) = rp_getCoins rp i' ty' r)"

definition coins_valid :: "'r repository \<Rightarrow> coin_type \<Rightarrow> 'r account \<Rightarrow> bool" where
  "coins_valid rp ty a \<longleftrightarrow> coin_repo_ok rp \<and> ac_loaded a \<and> rp_getCoins rp (ai_id (ac_info a)) ty (ac_repo a) \<noteq> None"

definition coins_held :: "'r repository \<Rightarrow> coin_type \<Rightarrow> 'r account \<Rightarrow> nat" where
  "coins_held rp ty a = unat (the (rp_getCoins rp (ai_id (ac_info a)) ty (ac_repo a)))"

definition coin_call :: "acc_error \<times> 'r account \<Rightarrow> bool \<times> 'r account" where
  "coin_call p = (fst p = ERROR_NO, snd p)"

lemma u32_less: "unat (w :: u32) < 2 ^ 32"
  using unsigned_less [of w, where ?'a = nat] by simp

lemma coins_stored:
  assumes "coins_valid rp ty a"
  shows "\<exists>r. rp_setCoins rp (ai_id (ac_info a)) ty n (ac_repo a) = (True, r)
    \<and> coins_valid rp ty (registerCoinTransaction rp tr ty m detail (a\<lparr>ac_repo := r\<rparr>))
    \<and> coins_held rp ty (registerCoinTransaction rp tr ty m detail (a\<lparr>ac_repo := r\<rparr>)) = unat n"
proof -
  obtain ok r where r: "rp_setCoins rp (ai_id (ac_info a)) ty n (ac_repo a) = (ok, r)" by fastforce
  have k: "coin_repo_ok rp" and g: "rp_getCoins rp (ai_id (ac_info a)) ty (ac_repo a) \<noteq> None"
    using assms by (simp_all add: coins_valid_def)
  have "fst (rp_setCoins rp (ai_id (ac_info a)) ty n (ac_repo a))"
    "rp_getCoins rp (ai_id (ac_info a)) ty (snd (rp_setCoins rp (ai_id (ac_info a)) ty n (ac_repo a))) = Some n"
    using k g unfolding coin_repo_ok_def by (blast, simp)
  then have s: "ok" "rp_getCoins rp (ai_id (ac_info a)) ty r = Some n" by (simp_all add: r)
  have t: "rp_getCoins rp i' ty' (snd (rp_registerCoins rp i tr m ty'' d r')) = rp_getCoins rp i' ty' r'" for i i' ty' ty'' d r'
    using k unfolding coin_repo_ok_def by blast
  show ?thesis
    using r s assms by (auto simp: registerCoinTransaction_def coins_valid_def coins_held_def t)
qed

lemma addCoins_spec:
  assumes "coins_valid rp ty a"
  shows "\<exists>a'. addCoins rp ty n detail a = (ERROR_NO, a') \<and> coins_valid rp ty a'
    \<and> coins_held rp ty a' = (coins_held rp ty a + unat n) mod 2 ^ 32"
proof (cases "n = 0")
  case True
  then show ?thesis
    using assms u32_less [of "the (rp_getCoins rp (ai_id (ac_info a)) ty (ac_repo a))"]
    by (simp add: addCoins_def coins_valid_def coins_held_def)
next
  case False
  obtain c where c: "rp_getCoins rp (ai_id (ac_info a)) ty (ac_repo a) = Some c"
    using assms by (auto simp: coins_valid_def)
  obtain r where r: "rp_setCoins rp (ai_id (ac_info a)) ty (c + n) (ac_repo a) = (True, r)"
    "coins_valid rp ty (registerCoinTransaction rp COIN_ADD ty n detail (a\<lparr>ac_repo := r\<rparr>))"
    "coins_held rp ty (registerCoinTransaction rp COIN_ADD ty n detail (a\<lparr>ac_repo := r\<rparr>)) = unat (c + n)"
    using coins_stored [OF assms] by blast
  have "coins_held rp ty a = unat c" by (simp add: coins_held_def c)
  moreover have "unat (c + n) = (unat c + unat n) mod 2 ^ 32" by (simp add: unat_word_ariths)
  ultimately show ?thesis
    using r False assms by (simp add: addCoins_def acc_getCoins_def coins_valid_def [of rp ty a] c)
qed

lemma removeCoins_spec:
  assumes "coins_valid rp ty a"
  shows "if unat n \<le> coins_held rp ty a
    then \<exists>a'. removeCoins rp ty n detail a = (ERROR_NO, a') \<and> coins_valid rp ty a'
      \<and> coins_held rp ty a' = coins_held rp ty a - unat n
    else removeCoins rp ty n detail a = (ERROR_REMOVE_COINS, a)"
proof (cases "n = 0")
  case True
  then show ?thesis using assms by (simp add: removeCoins_def coins_valid_def)
next
  case False
  obtain c where c: "rp_getCoins rp (ai_id (ac_info a)) ty (ac_repo a) = Some c"
    using assms by (auto simp: coins_valid_def)
  obtain r where r: "rp_setCoins rp (ai_id (ac_info a)) ty (c - n) (ac_repo a) = (True, r)"
    "coins_valid rp ty (registerCoinTransaction rp COIN_REMOVE ty n detail (a\<lparr>ac_repo := r\<rparr>))"
    "coins_held rp ty (registerCoinTransaction rp COIN_REMOVE ty n detail (a\<lparr>ac_repo := r\<rparr>)) = unat (c - n)"
    using coins_stored [OF assms] by blast
  have "coins_held rp ty a = unat c" by (simp add: coins_held_def c)
  then show ?thesis
    using r False assms
    by (simp add: removeCoins_def acc_getCoins_def coins_valid_def [of rp ty a] c
        word_le_nat_alt word_less_nat_alt unat_sub)
qed

interpretation coins: ledger "coins_held rp ty" "coins_valid rp ty" "2 ^ 32"
  "\<lambda>n a. coin_call (addCoins rp ty (of_nat n) detail a)"
  "\<lambda>n a. coin_call (removeCoins rp ty (of_nat n) detail a)" for rp ty detail
proof unfold_locales
  fix a n
  assume v: "coins_valid rp ty a"
  show "\<exists>a'. coin_call (addCoins rp ty (of_nat n) detail a) = (True, a') \<and> coins_valid rp ty a'
      \<and> coins_held rp ty a' = coins_held rp ty a + n" if "coins_held rp ty a + n < 2 ^ 32"
    using that addCoins_spec [OF v, of "of_nat n" detail] by (auto simp: coin_call_def unat_of_nat)
  show "if n \<le> coins_held rp ty a
    then \<exists>a'. coin_call (removeCoins rp ty (of_nat n) detail a) = (True, a') \<and> coins_valid rp ty a'
      \<and> coins_held rp ty a' = coins_held rp ty a - n
    else coin_call (removeCoins rp ty (of_nat n) detail a) = (False, a)" if "n < 2 ^ 32"
    using that removeCoins_spec [OF v, of "of_nat n" detail] by (auto simp: coin_call_def unat_of_nat split: if_splits)
qed

text \<open>Coins that were bought can be spent: adding an amount that fits and then removing it
  succeeds and restores the balance; removing more than the balance is refused with its own error
  code and changes nothing.\<close>

lemma coins_add_remove:
  assumes "coins_valid rp ty a" and "coins_held rp ty a + n < 2 ^ 32"
  shows "\<exists>a1 a2. addCoins rp ty (of_nat n) d1 a = (ERROR_NO, a1) \<and> removeCoins rp ty (of_nat n) d2 a1 = (ERROR_NO, a2)
    \<and> coins_held rp ty a2 = coins_held rp ty a
    \<and> (\<forall>m. coins_held rp ty a2 < m \<and> m < 2 ^ 32 \<longrightarrow> removeCoins rp ty (of_nat m) d2 a2 = (ERROR_REMOVE_COINS, a2))"
proof -
  obtain a1 where a1: "addCoins rp ty (of_nat n) d1 a = (ERROR_NO, a1)" "coins_valid rp ty a1"
    "coins_held rp ty a1 = coins_held rp ty a + n"
    using addCoins_spec [OF assms(1), of "of_nat n" d1] assms(2) by (auto simp: unat_of_nat)
  obtain a2 where a2: "removeCoins rp ty (of_nat n) d2 a1 = (ERROR_NO, a2)" "coins_valid rp ty a2"
    "coins_held rp ty a2 = coins_held rp ty a"
    using removeCoins_spec [OF a1(2), of "of_nat n" d2] a1(3) assms(2) by (auto simp: unat_of_nat)
  have "removeCoins rp ty (of_nat m) d2 a2 = (ERROR_REMOVE_COINS, a2)"
    if "coins_held rp ty a2 < m" "m < 2 ^ 32" for m
    using removeCoins_spec [OF a2(2), of "of_nat m" d2] that by (auto simp: unat_of_nat)
  then show ?thesis using a1(1) a2(1,3) by blast
qed

definition sample_repo :: "(u32 \<Rightarrow> u32) repository" where
  "sample_repo = \<lparr>rp_loadByID = (\<lambda>_ i r. (True, i, r)), rp_loadByEmailOrName = (\<lambda>_ _ i r. (False, i, r)),
     rp_loadBySession = (\<lambda>_ i r. (False, i, r)), rp_save = (\<lambda>_ r. (True, r)),
     rp_getPassword = (\<lambda>_ _. None), rp_getCoins = (\<lambda>i ty r. if ty = COIN then Some (r i) else None),
     rp_setCoins = (\<lambda>i ty n r. if ty = COIN then (True, r(i := n)) else (False, r)),
     rp_registerCoins = (\<lambda>_ _ _ _ _ r. (True, r))\<rparr>"

definition sample_account :: "(u32 \<Rightarrow> u32) account" where
  "sample_account = (account_by_id 7 (\<lambda>_. 5))\<lparr>ac_loaded := True\<rparr>"

theorem coins_add_remove_witness:
  "\<exists>a1 a2. addCoins sample_repo COIN 10 [] sample_account = (ERROR_NO, a1)
    \<and> removeCoins sample_repo COIN 10 [] a1 = (ERROR_NO, a2) \<and> coins_held sample_repo COIN a2 = 5"
proof -
  have h: "coins_held sample_repo COIN sample_account = 5"
    by (simp add: coins_held_def sample_repo_def sample_account_def account_by_id_def)
  have v: "coins_valid sample_repo COIN sample_account"
    by (auto simp: coins_valid_def coin_repo_ok_def sample_repo_def sample_account_def account_by_id_def)
  show ?thesis using coins_add_remove [OF v, of 10 "[]" "[]"] h by auto
qed

text \<open>A coin purchase that would exceed 32 bits is not refused: it reports success and
  leaves the remainder modulo 2^32.\<close>

lemma addCoins_wraps:
  assumes "coins_valid rp ty a" and "2 ^ 32 \<le> coins_held rp ty a + unat n"
  shows "\<exists>a'. addCoins rp ty n detail a = (ERROR_NO, a') \<and> coins_held rp ty a' < coins_held rp ty a"
proof -
  have "coins_held rp ty a < 2 ^ 32" "unat n < 2 ^ 32"
    using u32_less [of "the (rp_getCoins rp (ai_id (ac_info a)) ty (ac_repo a))"] u32_less [of n]
    by (simp_all add: coins_held_def)
  then have "(coins_held rp ty a + unat n) mod 2 ^ 32 = coins_held rp ty a + unat n - 2 ^ 32"
    using assms(2) by (simp add: mod_if)
  then show ?thesis
    using addCoins_spec [OF assms(1), of n detail] \<open>unat n < 2 ^ 32\<close> assms(2) by force
qed

theorem addCoins_wraps_witness:
  "\<exists>a'. addCoins sample_repo COIN 0xFFFFFFFF [] sample_account = (ERROR_NO, a')
    \<and> coins_held sample_repo COIN a' < 5"
proof -
  have h: "coins_held sample_repo COIN sample_account = 5"
    by (simp add: coins_held_def sample_repo_def sample_account_def account_by_id_def)
  have v: "coins_valid sample_repo COIN sample_account"
    by (auto simp: coins_valid_def coin_repo_ok_def sample_repo_def sample_account_def account_by_id_def)
  show ?thesis using addCoins_wraps [OF v, of "0xFFFFFFFF" "[]"] h by simp
qed

text \<open>Premium time. While premium time is running, the stored number of days is the number of
  full days that remain.\<close>

definition premium_running :: "int \<Rightarrow> 'r account \<Rightarrow> bool" where
  "premium_running now a \<longleftrightarrow> now < ai_premiumLastDay (ac_info a) \<and>
     int32 ((ai_premiumLastDay (ac_info a) - now) div 86400) \<and>
     ai_premiumRemainingDays (ac_info a) = of_int ((ai_premiumLastDay (ac_info a) - now) div 86400)"

lemma sdiv_pos: "0 \<le> x \<Longrightarrow> (x :: int) sdiv 86400 = x div 86400"
  by (cases "x = 0") (simp_all add: signed_divide_int_def sgn_if)

lemma smod_pos: "0 \<le> x \<Longrightarrow> (x :: int) smod 86400 = x mod 86400"
  by (cases "x = 0") (simp_all add: signed_modulo_int_def sgn_if)

lemma sint_of_int: "int32 n \<Longrightarrow> sint (of_int n :: 32 word) = n"
  unfolding int32_def by (subst sint_sbintrunc') (simp add: signed_take_bit_int_eq_self)

text \<open>Buying premium days while premium time is running prolongs it by exactly that many
  days, to the second, and keeps the stored number of days right; the product of days and seconds
  stays within an \<open>int\<close> for less than 24,856 days in total.\<close>

lemma addPremiumDays_prolongs:
  assumes "premium_running now a" and "0 < d"
    and "(ai_premiumLastDay (ac_info a) - now) div 86400 + d \<le> 24855"
  shows "\<exists>a'. addPremiumDays now (of_int d) a = Some a'
    \<and> ai_premiumLastDay (ac_info a') = ai_premiumLastDay (ac_info a) + d * 86400
    \<and> premium_running now a'
    \<and> ai_premiumDaysPurchased (ac_info a') = ai_premiumDaysPurchased (ac_info a) + of_int d"
proof -
  let ?x = "ai_premiumLastDay (ac_info a) - now"
  let ?q = "?x div 86400" and ?r = "?x mod 86400"
  have x: "0 < ?x" "0 \<le> ?q" and rem: "ai_premiumRemainingDays (ac_info a) = of_int ?q"
    using assms(1) by (simp_all add: premium_running_def pos_imp_zdiv_nonneg_iff)
  have t: "?q + d \<le> 24855" "0 < ?q + d" using assms(2,3) x(2) by linarith+
  have w: "ai_premiumRemainingDays (ac_info a) + of_int d = of_int (?q + d)" by (simp add: rem)
  have s: "sint (of_int (?q + d) :: 32 word) = ?q + d"
    by (rule sint_of_int) (use t in \<open>simp add: int32_def\<close>)
  have i: "int32 ((?q + d) * 86400)" using t by (simp add: int32_def)
  have m: "max 0 (?x smod 86400) = ?r" using x(1) by (simp add: smod_pos)
  have r0: "0 \<le> ?r" by simp
  define q r last where "q = ?q" and "r = ?r" and "last = ai_premiumLastDay (ac_info a)"
  have l: "last = now + q * 86400 + r"
    using div_mult_mod_eq [of ?x 86400] by (simp add: q_def r_def last_def)
  have "setPremiumDays now (ai_premiumRemainingDays (ac_info a) + of_int d) a
      = Some (a\<lparr>ac_info := (ac_info a)\<lparr>ai_premiumRemainingDays := of_int (q + d),
          ai_premiumLastDay := now + (q + d) * 86400\<rparr>\<rparr>)"
    unfolding w setPremiumDays_def s Let_def using i t(2) by (simp add: q_def)
  then have e: "addPremiumDays now (of_int d) a = Some (a\<lparr>ac_info := (ac_info a)\<lparr>ai_premiumRemainingDays := of_int (q + d),
      ai_premiumLastDay := now + (q + d) * 86400 + r,
      ai_premiumDaysPurchased := ai_premiumDaysPurchased (ac_info a) + of_int d\<rparr>\<rparr>)"
    unfolding addPremiumDays_def m using r0 by (auto simp: Let_def r_def)
  have "(now + (q + d) * 86400 + r - now) div 86400 = q + d"
    by (simp add: r_def)
  moreover have "now < now + (q + d) * 86400 + r" using t(2) r0 by (simp add: q_def r_def)
  moreover have "int32 (q + d)" using t by (simp add: int32_def q_def)
  ultimately show ?thesis
    unfolding e premium_running_def by (simp add: l [unfolded last_def] algebra_simps)
qed

definition premium_account :: "(u32 \<Rightarrow> u32) account" where
  "premium_account = sample_account\<lparr>ac_info := default_info\<lparr>ai_premiumLastDay := 200000, ai_premiumRemainingDays := 1\<rparr>\<rparr>"

theorem addPremiumDays_prolongs_witness:
  "\<exists>a'. addPremiumDays 100000 (of_int 3) premium_account = Some a' \<and> ai_premiumLastDay (ac_info a') = 459200"
proof -
  have r: "premium_running 100000 premium_account"
    by (simp add: premium_running_def premium_account_def int32_def)
  show ?thesis
    using addPremiumDays_prolongs [OF r, of 3] by (auto simp: premium_account_def)
qed

text \<open>The account age is rounded down: the call of \<open>std::ceil\<close> has no effect, since
  the division it is applied to is an integer division.\<close>

lemma account_age_rounds_down:
  assumes "uint (ai_creationTime (ac_info a)) \<le> now" and "now < 2 ^ 32"
  shows "uint (getAccountAgeInDays now a) = (now - uint (ai_creationTime (ac_info a))) div 86400"
proof -
  let ?x = "now - uint (ai_creationTime (ac_info a))"
  have "0 \<le> ?x" "?x < 2 ^ 32" using assms uint_ge_0 [of "ai_creationTime (ac_info a)"] by linarith+
  then have "0 \<le> ?x div 86400" "?x div 86400 < 2 ^ 32"
    by (simp_all add: pos_imp_zdiv_nonneg_iff)
  then show ?thesis
    using \<open>0 \<le> ?x\<close> by (simp add: getAccountAgeInDays_def sdiv_pos uint_word_of_int_eq take_bit_int_eq_self)
qed

theorem account_age_rounds_down_witness:
  "uint (getAccountAgeInDays 86399 sample_account) = 0"
  using account_age_rounds_down [of sample_account 86399]
  by (simp add: sample_account_def account_by_id_def default_info_def)

lemma fold_try_emplace: "map_of (fold try_emplace rs m) n = (case map_of m n of Some d \<Rightarrow> Some d
    | None \<Rightarrow> map_of rs n)"
  by (induction rs arbitrary: m) (auto simp: try_emplace_def split: option.splits)

text \<open>Loading the characters of an account adds the rows that are not marked for deletion
  and keeps every name that was there before: a character deleted since the last load stays in the
  list after a reload.\<close>

lemma loaded_players:
  assumes "loadAccountPlayers (Some rows) acc = (ok, acc')"
  shows "ok \<and> fst ` set (ai_players acc') = fst ` set (ai_players acc) \<union> {n. (n, 0) \<in> set rows}"
proof -
  let ?rs = "filter (\<lambda>(n, deletion). deletion = 0) rows"
  have "ok" and p: "ai_players acc' = fold try_emplace ?rs (ai_players acc)"
    using assms by (auto simp: loadAccountPlayers_def)
  have "dom (map_of (fold try_emplace ?rs m)) = dom (map_of m) \<union> dom (map_of ?rs)" for m
    by (auto simp: fold_try_emplace split: option.splits)
  then have "fst ` set (ai_players acc') = fst ` set (ai_players acc) \<union> fst ` set ?rs"
    unfolding p by (simp add: dom_map_of_conv_image_fst)
  moreover have "fst ` set ?rs = {n. (n, 0) \<in> set rows}" by force
  ultimately show ?thesis using \<open>ok\<close> by simp
qed

theorem loaded_players_witness:
  "fst ` set (ai_players (snd (loadAccountPlayers (Some [(''New'', 0), (''Old'', 9)])
     (default_info\<lparr>ai_players := [(''Old'', 0)]\<rparr>)))) = {''Old'', ''New''}"
proof -
  obtain ok acc' where l: "loadAccountPlayers (Some [(''New'', 0), (''Old'', 9)])
     (default_info\<lparr>ai_players := [(''Old'', 0)]\<rparr>) = (ok, acc')" by fastforce
  show ?thesis using loaded_players [OF l] unfolding l by auto
qed

end
