(* ===== verification/Admission.thy ===== *)
theory Admission
  imports Prelude "HOL-Library.AList"
begin

text \<open>
  What a client passes before its player enters the game: the limit on connections per address
  (\<open>Ban::acceptConnection\<close>) and the waiting list of a full server
  (\<open>creatures/players/management/waitlist.cpp\<close>). List iterators are the addresses of the list
  cells; a call that uses an iterator with the wrong list is undefined: \<open>None\<close>. The clock is a
  parameter in milliseconds.
\<close>

subsection \<open>The waiting list\<close>

record wait =
  wt_timeout :: int
  wt_guid :: u32

record wait_info =
  wl_priority :: "(nat \<times> wait) list"
  wl_normal :: "(nat \<times> wait) list"
  wl_refs :: "(u32 \<times> nat \<times> nat) list"
  wl_fresh :: nat

record wait_player =
  wp_guid :: u32
  wp_premium :: bool
  wp_canAlwaysLogin :: bool
  wp_gamemaster :: bool

definition SLOT_LIMIT_ONE :: nat where "SLOT_LIMIT_ONE = 5"
definition SLOT_LIMIT_TWO :: nat where "SLOT_LIMIT_TWO = 10"
definition SLOT_LIMIT_THREE :: nat where "SLOT_LIMIT_THREE = 20"
definition SLOT_LIMIT_FOUR :: nat where "SLOT_LIMIT_FOUR = 50"
definition TIMEOUT_EXTRA :: nat where "TIMEOUT_EXTRA = 15"

definition wl_getTime :: "nat \<Rightarrow> nat" where
  "wl_getTime slot =
     (if slot < SLOT_LIMIT_ONE then 5
      else if slot < SLOT_LIMIT_TWO then 10
      else if slot < SLOT_LIMIT_THREE then 20
      else if slot < SLOT_LIMIT_FOUR then 60
      else 120)"

definition wl_getTimeout :: "nat \<Rightarrow> nat" where
  "wl_getTimeout slot = wl_getTime slot + TIMEOUT_EXTRA"

definition wl_deadline :: "int \<Rightarrow> nat \<Rightarrow> int" where
  "wl_deadline now slot = now + int (wl_getTimeout slot * 1000)"

text \<open>One pass over a list: what stays, and the players whose references are dropped.\<close>

fun cleanup_entries :: "int \<Rightarrow> (nat \<times> wait) list \<Rightarrow> (u32 \<times> nat \<times> nat) list
    \<Rightarrow> (nat \<times> wait) list \<times> (u32 \<times> nat \<times> nat) list" where
  "cleanup_entries now [] refs = ([], refs)"
| "cleanup_entries now ((i, w) # ws) refs =
     (if wt_timeout w - now \<le> 0 then cleanup_entries now ws (AList.delete (wt_guid w) refs)
      else case cleanup_entries now ws refs of (ws', refs') \<Rightarrow> ((i, w) # ws', refs'))"

definition cleanup_priority :: "int \<Rightarrow> wait_info \<Rightarrow> wait_info" where
  "cleanup_priority now s = (case cleanup_entries now (wl_priority s) (wl_refs s) of
     (l, r) \<Rightarrow> s\<lparr>wl_priority := l, wl_refs := r\<rparr>)"

definition cleanup_normal :: "int \<Rightarrow> wait_info \<Rightarrow> wait_info" where
  "cleanup_normal now s = (case cleanup_entries now (wl_normal s) (wl_refs s) of
     (l, r) \<Rightarrow> s\<lparr>wl_normal := l, wl_refs := r\<rparr>)"

text \<open>\<open>std::distance(list.begin(), it)\<close>: walking a list to a cell of another list never
  arrives.\<close>

definition cell_distance :: "nat \<Rightarrow> (nat \<times> wait) list \<Rightarrow> nat option" where
  "cell_distance i l = (let k = find_index (\<lambda>c. fst c = i) l in if k < length l then Some k else None)"

definition player_slot :: "wait_info \<Rightarrow> wait_player \<Rightarrow> nat \<Rightarrow> nat option" where
  "player_slot s p i =
     (if wp_premium p then map_option Suc (cell_distance i (wl_priority s))
      else map_option (\<lambda>d. length (wl_priority s) + d + 1) (cell_distance i (wl_normal s)))"

definition set_timeout :: "nat \<Rightarrow> int \<Rightarrow> (nat \<times> wait) list \<Rightarrow> (nat \<times> wait) list" where
  "set_timeout i t = map (\<lambda>(j, w). (j, if j = i then w\<lparr>wt_timeout := t\<rparr> else w))"

definition addPlayerToList :: "int \<Rightarrow> wait_player \<Rightarrow> wait_info \<Rightarrow> wait_info option" where
  "addPlayerToList now p s = (case map_of (wl_refs s) (wp_guid p) of
       Some (i, _) \<Rightarrow> map_option (\<lambda>slot.
           s\<lparr>wl_refs := AList.update (wp_guid p) (i, slot) (wl_refs s),
             wl_priority := set_timeout i (wl_deadline now slot) (wl_priority s),
             wl_normal := set_timeout i (wl_deadline now slot) (wl_normal s)\<rparr>)
         (player_slot s p i)
     | None \<Rightarrow>
         let slot = length (wl_priority s) in
         if wp_premium p then
           Some (s\<lparr>wl_priority := wl_priority s
                    @ [(wl_fresh s, \<lparr>wt_timeout = wl_deadline now (slot + 1), wt_guid = wp_guid p\<rparr>)],
                  wl_refs := AList.update (wp_guid p) (wl_fresh s, slot + 1) (wl_refs s),
                  wl_fresh := wl_fresh s + 1\<rparr>)
         else let slot = slot + length (wl_normal s) in
           Some (s\<lparr>wl_normal := wl_normal s
                    @ [(wl_fresh s, \<lparr>wt_timeout = wl_deadline now (slot + 1), wt_guid = wp_guid p\<rparr>)],
                  wl_refs := AList.update (wp_guid p) (wl_fresh s, slot + 1) (wl_refs s),
                  wl_fresh := wl_fresh s + 1\<rparr>))"

text \<open>\<open>waitList.erase(it)\<close> with a cell of the other list is undefined.\<close>

definition clientLogin :: "nat \<Rightarrow> nat \<Rightarrow> int \<Rightarrow> wait_player \<Rightarrow> wait_info \<Rightarrow> (bool \<times> wait_info) option" where
  "clientLogin maxPlayers playersOnline now p s =
     (if wp_canAlwaysLogin p \<or> wp_gamemaster p then Some (True, s)
      else if maxPlayers = 0 \<or> (wl_priority s = [] \<and> wl_normal s = [] \<and> playersOnline < maxPlayers)
      then Some (True, s)
      else case addPlayerToList now p (cleanup_normal now (cleanup_priority now s)) of
        None \<Rightarrow> None
      | Some s1 \<Rightarrow> (case map_of (wl_refs s1) (wp_guid p) of
          None \<Rightarrow> None
        | Some (i, slot) \<Rightarrow>
            if playersOnline + slot \<le> maxPlayers then
              (case cell_distance i (wl_normal s1) of
                 None \<Rightarrow> None
               | Some k \<Rightarrow> Some (True, s1\<lparr>wl_normal := erase_at k (wl_normal s1),
                                       wl_refs := AList.delete (wp_guid p) (wl_refs s1)\<rparr>))
            else Some (False, s1)))"

definition getClientSlot :: "wait_player \<Rightarrow> wait_info \<Rightarrow> nat option" where
  "getClientSlot p s = (case map_of (wl_refs s) (wp_guid p) of
       None \<Rightarrow> Some 0 | Some (i, _) \<Rightarrow> player_slot s p i)"

subsection \<open>The limit on connections\<close>

record connect_block =
  cb_lastAttempt :: u64
  cb_blockTime :: u64
  cb_count :: u32

definition acceptConnection :: "u64 \<Rightarrow> u32 \<Rightarrow> (u32 \<times> connect_block) list \<Rightarrow> bool \<times> (u32 \<times> connect_block) list" where
  "acceptConnection currentTime clientIP m = (case map_of m clientIP of
       None \<Rightarrow> (True, AList.update clientIP \<lparr>cb_lastAttempt = currentTime, cb_blockTime = 0, cb_count = 1\<rparr> m)
     | Some b \<Rightarrow>
        if cb_blockTime b > currentTime
        then (False, AList.update clientIP (b\<lparr>cb_blockTime := cb_blockTime b + 250\<rparr>) m)
        else
          let timeDiff = sint (currentTime - cb_lastAttempt b);
              b1 = b\<lparr>cb_lastAttempt := currentTime\<rparr>
          in if timeDiff \<le> 5000 then
               if cb_count b1 + 1 > 5 then
                 let b2 = b1\<lparr>cb_count := 0\<rparr> in
                 if timeDiff \<le> 500
                 then (False, AList.update clientIP (b2\<lparr>cb_blockTime := currentTime + 3000\<rparr>) m)
                 else (True, AList.update clientIP b2 m)
               else (True, AList.update clientIP (b1\<lparr>cb_count := cb_count b1 + 1\<rparr>) m)
             else (True, AList.update clientIP (b1\<lparr>cb_count := 1\<rparr>) m))"

fun accept_all :: "u32 \<Rightarrow> u64 list \<Rightarrow> (u32 \<times> connect_block) list \<Rightarrow> bool list \<times> (u32 \<times> connect_block) list" where
  "accept_all ip [] m = ([], m)"
| "accept_all ip (t # ts) m =
     (let (b, m1) = acceptConnection t ip m; (bs, m2) = accept_all ip ts m1 in (b # bs, m2))"

subsection \<open>Invariant of the waiting list\<close>

definition guid_of :: "nat \<times> wait \<Rightarrow> u32" where
  "guid_of c = wt_guid (snd c)"

definition alive :: "int \<Rightarrow> nat \<times> wait \<Rightarrow> bool" where
  "alive now c \<longleftrightarrow> now < wt_timeout (snd c)"

text \<open>\<open>prem\<close> tells which players are premium: those of the priority list, and no other.\<close>

definition wl_ok :: "(u32 \<Rightarrow> bool) \<Rightarrow> wait_info \<Rightarrow> bool" where
  "wl_ok prem s \<longleftrightarrow> distinct (map fst (wl_priority s @ wl_normal s)) \<and>
     distinct (map guid_of (wl_priority s @ wl_normal s)) \<and>
     (\<forall>g i. (\<exists>slot. map_of (wl_refs s) g = Some (i, slot)) \<longleftrightarrow>
        (\<exists>c\<in>set (wl_priority s @ wl_normal s). fst c = i \<and> guid_of c = g)) \<and>
     (\<forall>c\<in>set (wl_priority s @ wl_normal s). fst c < wl_fresh s) \<and>
     (\<forall>c\<in>set (wl_priority s). prem (guid_of c)) \<and> (\<forall>c\<in>set (wl_normal s). \<not> prem (guid_of c))"

lemma cleanup_entries_eq:
  "cleanup_entries now l refs =
     (filter (alive now) l, fold (\<lambda>c. AList.delete (guid_of c)) (filter (\<lambda>c. \<not> alive now c) l) refs)"
  by (induction now l refs rule: cleanup_entries.induct) (auto simp: alive_def guid_of_def)

lemma map_of_fold_delete:
  "map_of (fold (\<lambda>c. AList.delete (guid_of c)) es refs) g =
     (if g \<in> guid_of ` set es then None else map_of refs g)"
  by (induction es arbitrary: refs) (auto simp: delete_conv')

definition cleaned :: "int \<Rightarrow> wait_info \<Rightarrow> wait_info" where
  "cleaned now s = cleanup_normal now (cleanup_priority now s)"

lemma cleaned_lists [simp]:
  "wl_priority (cleaned now s) = filter (alive now) (wl_priority s)"
  "wl_normal (cleaned now s) = filter (alive now) (wl_normal s)"
  "wl_fresh (cleaned now s) = wl_fresh s"
  by (simp_all add: cleaned_def cleanup_normal_def cleanup_priority_def cleanup_entries_eq)

lemma cleaned_refs:
  "map_of (wl_refs (cleaned now s)) g =
     (if \<exists>c\<in>set (wl_priority s @ wl_normal s). guid_of c = g \<and> \<not> alive now c then None else map_of (wl_refs s) g)"
  by (auto simp: cleaned_def cleanup_normal_def cleanup_priority_def cleanup_entries_eq map_of_fold_delete)

lemma guid_unique:
  "wl_ok prem s \<Longrightarrow> c \<in> set (wl_priority s @ wl_normal s) \<Longrightarrow> d \<in> set (wl_priority s @ wl_normal s) \<Longrightarrow>
    guid_of c = guid_of d \<Longrightarrow> c = d"
  unfolding wl_ok_def distinct_map by (meson inj_onD)

lemma wl_refs_iff: "wl_ok prem s \<Longrightarrow> (\<exists>slot. map_of (wl_refs s) g = Some (i, slot)) \<longleftrightarrow>
    (\<exists>c\<in>set (wl_priority s @ wl_normal s). fst c = i \<and> guid_of c = g)"
  unfolding wl_ok_def by blast

lemma wl_refs_None: "wl_ok prem s \<Longrightarrow> map_of (wl_refs s) g = None \<Longrightarrow>
    c \<in> set (wl_priority s @ wl_normal s) \<Longrightarrow> guid_of c \<noteq> g"
  using wl_refs_iff [of prem s g "fst c"] by (metis option.distinct(1))

lemma wl_ok_cleaned:
  assumes "wl_ok prem s"
  shows "wl_ok prem (cleaned now s)"
proof -
  have "(\<exists>slot. map_of (wl_refs (cleaned now s)) g = Some (i, slot)) \<longleftrightarrow>
      (\<exists>c\<in>set (wl_priority (cleaned now s) @ wl_normal (cleaned now s)). fst c = i \<and> guid_of c = g)" for g i
  proof -
    have "(\<exists>slot. map_of (wl_refs s) g = Some (i, slot)) \<longleftrightarrow>
        (\<exists>c\<in>set (wl_priority s @ wl_normal s). fst c = i \<and> guid_of c = g)"
      using assms unfolding wl_ok_def by blast
    moreover have "alive now c" if "c \<in> set (wl_priority s @ wl_normal s)" "guid_of c = g"
      "\<not> (\<exists>c\<in>set (wl_priority s @ wl_normal s). guid_of c = g \<and> \<not> alive now c)" for c
      using that by blast
    moreover have "\<not> (\<exists>c\<in>set (wl_priority s @ wl_normal s). guid_of c = g \<and> \<not> alive now c)"
      if "c \<in> set (wl_priority s @ wl_normal s)" "guid_of c = g" "alive now c" for c
      using that guid_unique [OF assms] by blast
    ultimately show ?thesis unfolding cleaned_refs by (auto split: if_splits)
  qed
  moreover have "distinct (map fst (wl_priority (cleaned now s) @ wl_normal (cleaned now s)))"
    "distinct (map guid_of (wl_priority (cleaned now s) @ wl_normal (cleaned now s)))"
    using assms unfolding wl_ok_def by (auto simp: distinct_map_filter)
  ultimately show ?thesis using assms unfolding wl_ok_def by auto
qed

lemma set_timeout_ids [simp]:
  "map fst (set_timeout i t l) = map fst l" "map guid_of (set_timeout i t l) = map guid_of l"
  "length (set_timeout i t l) = length l"
  by (auto simp: set_timeout_def guid_of_def intro!: map_cong)

lemma cell_distance_Some: "cell_distance i l = Some k \<Longrightarrow> k < length l \<and> fst (l ! k) = i"
  using find_index_nth [of "\<lambda>c. fst c = i" l] by (auto simp: cell_distance_def Let_def split: if_splits)

lemma cell_distance_ids: "cell_distance i l = (let k = find_index (\<lambda>j. j = i) (map fst l) in
    if k < length l then Some k else None)"
proof -
  have "find_index (\<lambda>c. fst c = i) l = find_index (\<lambda>j. j = i) (map fst l)" by (induction l) auto
  then show ?thesis by (simp add: cell_distance_def)
qed

lemma cell_distance_None: "cell_distance i l = None \<longleftrightarrow> i \<notin> fst ` set l"
  using find_index_less [of "\<lambda>c. fst c = i" l] by (auto simp: cell_distance_def Let_def)

lemma cell_distance_guid:
  assumes "distinct (map fst l)" and "distinct (map guid_of l)" and "c \<in> set l"
  shows "cell_distance (fst c) l = Some (find_index (\<lambda>g. g = guid_of c) (map guid_of l))"
  using assms
proof (induction l)
  case (Cons d l)
  show ?case
  proof (cases "c = d")
    case True
    then show ?thesis by (simp add: cell_distance_def)
  next
    case False
    then have "c \<in> set l" using Cons.prems(3) by simp
    then have n: "fst d \<noteq> fst c" "guid_of d \<noteq> guid_of c" using Cons.prems by auto
    have "cell_distance (fst c) (d # l) = map_option Suc (cell_distance (fst c) l)"
      using n by (simp add: cell_distance_def Let_def)
    then show ?thesis using Cons n \<open>c \<in> set l\<close> by simp
  qed
qed simp

text \<open>The players of a list in order, and joining at its end.\<close>

definition guids :: "(nat \<times> wait) list \<Rightarrow> u32 list" where
  "guids l = map guid_of l"

definition joined :: "u32 \<Rightarrow> u32 list \<Rightarrow> u32 list" where
  "joined g gs = (if g \<in> set gs then gs else gs @ [g])"

definition place :: "u32 \<Rightarrow> u32 list \<Rightarrow> nat" where
  "place g gs = find_index (\<lambda>x. x = g) gs + 1"

lemma place_last: "g \<notin> set gs \<Longrightarrow> place g (gs @ [g]) = length gs + 1"
  by (induction gs) (auto simp: place_def)

lemma guids_set_timeout [simp]: "guids (set_timeout i t l) = guids l"
  by (simp add: guids_def)

lemma set_timeout_cells:
  "(\<exists>c\<in>set (set_timeout i t l). P (fst c) (guid_of c)) \<longleftrightarrow> (\<exists>c\<in>set l. P (fst c) (guid_of c))"
proof -
  have "fst (case c of (j, w) \<Rightarrow> (j, if j = i then w\<lparr>wt_timeout := t\<rparr> else w)) = fst c
    \<and> guid_of (case c of (j, w) \<Rightarrow> (j, if j = i then w\<lparr>wt_timeout := t\<rparr> else w)) = guid_of c" for c
    by (cases c) (simp add: guid_of_def)
  then show ?thesis by (simp add: set_timeout_def)
qed

lemma wl_ok_retimed:
  assumes "wl_ok prem s" and "map_of (wl_refs s) g = Some (i, k)"
  shows "wl_ok prem (s\<lparr>wl_refs := AList.update g (i, k') (wl_refs s),
    wl_priority := set_timeout i t (wl_priority s), wl_normal := set_timeout i t (wl_normal s)\<rparr>)"
proof -
  have d: "set_timeout i t (wl_priority s) @ set_timeout i t (wl_normal s)
      = set_timeout i t (wl_priority s @ wl_normal s)"
    by (simp add: set_timeout_def)
  have all: "(\<forall>c\<in>set (set_timeout i t l). P (fst c) (guid_of c)) \<longleftrightarrow> (\<forall>c\<in>set l. P (fst c) (guid_of c))" for P l
    using set_timeout_cells [of i t l "\<lambda>a b. \<not> P a b"] by blast
  have "(\<exists>slot. map_of (AList.update g (i, k') (wl_refs s)) g' = Some (i', slot))
      \<longleftrightarrow> (\<exists>slot. map_of (wl_refs s) g' = Some (i', slot))" for g' i'
    using assms(2) by (auto simp: update_conv')
  then show ?thesis
    using assms(1) all [where P = "\<lambda>_ b. prem b"] all [where P = "\<lambda>_ b. \<not> prem b"]
      all [where P = "\<lambda>a _. a < wl_fresh s"]
    unfolding wl_ok_def by (simp add: d set_timeout_cells [where P = "\<lambda>a b. a = _ \<and> b = _"] del: map_append set_append)
qed

lemma wl_ok_appended:
  assumes "wl_ok prem s" and "map_of (wl_refs s) g = None" and "wt_guid w = g"
    and "s' = s\<lparr>wl_priority := (if prem g then wl_priority s @ [(wl_fresh s, w)] else wl_priority s),
      wl_normal := (if prem g then wl_normal s else wl_normal s @ [(wl_fresh s, w)]),
      wl_refs := AList.update g (wl_fresh s, k) (wl_refs s), wl_fresh := wl_fresh s + 1\<rparr>"
  shows "wl_ok prem s'"
proof -
  let ?l = "wl_priority s @ wl_normal s" and ?n = "(wl_fresh s, w)"
  have g: "guid_of ?n = g" by (simp add: guid_of_def assms(3))
  have cells: "set (wl_priority s' @ wl_normal s') = insert ?n (set ?l)"
    by (auto simp: assms(4))
  have refs: "(\<exists>slot. map_of (wl_refs s) g' = Some (i, slot)) \<longleftrightarrow> (\<exists>c\<in>set ?l. fst c = i \<and> guid_of c = g')" for g' i
    using assms(1) unfolding wl_ok_def by blast
  have new: "\<forall>c\<in>set ?l. guid_of c \<noteq> g" using refs [of g] assms(2) by auto
  have bnd: "\<forall>c\<in>set ?l. fst c < wl_fresh s" using assms(1) unfolding wl_ok_def by blast
  then have old: "\<forall>c\<in>set ?l. fst c \<noteq> wl_fresh s" by (metis less_irrefl)
  have "(\<exists>slot. map_of (wl_refs s') g' = Some (i, slot)) \<longleftrightarrow>
      (\<exists>c\<in>set (wl_priority s' @ wl_normal s'). fst c = i \<and> guid_of c = g')" for g' i
    unfolding cells using refs [of g' i] new g by (auto simp: assms(4) update_conv')
  moreover have "\<forall>c\<in>set (wl_priority s' @ wl_normal s'). fst c < wl_fresh s'"
  proof -
    have "\<forall>c\<in>set ?l. fst c < wl_fresh s + 1" using bnd by (meson trans_less_add1)
    then show ?thesis unfolding cells by (simp add: assms(4))
  qed
  moreover have "distinct (map fst (wl_priority s' @ wl_normal s')) \<and>
    distinct (map guid_of (wl_priority s' @ wl_normal s'))"
  proof -
    have "wl_fresh s \<notin> fst ` set (wl_priority s)" "wl_fresh s \<notin> fst ` set (wl_normal s)"
      "g \<notin> guid_of ` set (wl_priority s)" "g \<notin> guid_of ` set (wl_normal s)"
      using new old by (metis Un_iff imageE set_append)+
    then show ?thesis
      using assms(1) g by (simp add: assms(4) wl_ok_def)
  qed
  ultimately show ?thesis
    using assms(1) g unfolding wl_ok_def by (auto simp: assms(4))
qed

lemma addPlayerToList_spec:
  assumes "wl_ok prem s" and "wp_premium p = prem (wp_guid p)"
  shows "\<exists>s' i slot. addPlayerToList now p s = Some s' \<and> wl_ok prem s'
    \<and> map_of (wl_refs s') (wp_guid p) = Some (i, slot)
    \<and> (if prem (wp_guid p)
       then guids (wl_priority s') = joined (wp_guid p) (guids (wl_priority s)) \<and> guids (wl_normal s') = guids (wl_normal s)
         \<and> slot = place (wp_guid p) (guids (wl_priority s'))
       else guids (wl_priority s') = guids (wl_priority s) \<and> guids (wl_normal s') = joined (wp_guid p) (guids (wl_normal s))
         \<and> slot = length (wl_priority s) + place (wp_guid p) (guids (wl_normal s')))"
proof (cases "map_of (wl_refs s) (wp_guid p)")
  case None
  let ?g = "wp_guid p"
  have new: "\<forall>c\<in>set (wl_priority s @ wl_normal s). guid_of c \<noteq> ?g"
    using wl_refs_None [OF assms(1) None] by blast
  then have n: "?g \<notin> set (guids (wl_priority s))" "?g \<notin> set (guids (wl_normal s))"
    by (auto simp: guids_def)
  define k where "k = length (wl_priority s) + (if prem ?g then 0 else length (wl_normal s)) + 1"
  define w where "w = \<lparr>wt_timeout = wl_deadline now k, wt_guid = ?g\<rparr>"
  define s' where "s' = s\<lparr>wl_priority := (if prem ?g then wl_priority s @ [(wl_fresh s, w)] else wl_priority s),
      wl_normal := (if prem ?g then wl_normal s else wl_normal s @ [(wl_fresh s, w)]),
      wl_refs := AList.update ?g (wl_fresh s, k) (wl_refs s), wl_fresh := wl_fresh s + 1\<rparr>"
  have "addPlayerToList now p s = Some s'"
    using None assms(2)
    by (cases "prem ?g") (simp_all add: addPlayerToList_def Let_def s'_def k_def w_def)
  moreover have "wl_ok prem s'"
    by (rule wl_ok_appended [OF assms(1) None, of w, OF _ s'_def]) (simp add: w_def)
  moreover have "guid_of (wl_fresh s, w) = ?g" by (simp add: guid_of_def w_def)
  ultimately show ?thesis
    using n place_last [OF n(1)] place_last [OF n(2)]
    by (auto simp: s'_def update_conv' joined_def guids_def k_def)
next
  case (Some ik)
  let ?g = "wp_guid p"
  obtain i k where ik: "map_of (wl_refs s) ?g = Some (i, k)" using Some by (cases ik) auto
  then obtain c where c: "c \<in> set (wl_priority s @ wl_normal s)" "fst c = i" "guid_of c = ?g"
    using assms(1) unfolding wl_ok_def by blast
  have side: "c \<in> set (if prem ?g then wl_priority s else wl_normal s)"
    using assms(1) c unfolding wl_ok_def by auto
  have d: "distinct (map fst (wl_priority s))" "distinct (map fst (wl_normal s))"
    "distinct (map guid_of (wl_priority s))" "distinct (map guid_of (wl_normal s))"
    using assms(1) unfolding wl_ok_def by auto
  define slot where "slot = (if prem ?g then place ?g (guids (wl_priority s))
     else length (wl_priority s) + place ?g (guids (wl_normal s)))"
  have "player_slot s p i = Some slot"
    using side c(2,3) cell_distance_guid [OF d(1,3), of c] cell_distance_guid [OF d(2,4), of c] assms(2)
    by (auto simp: player_slot_def slot_def place_def guids_def)
  then have "addPlayerToList now p s = Some (s\<lparr>wl_refs := AList.update ?g (i, slot) (wl_refs s),
      wl_priority := set_timeout i (wl_deadline now slot) (wl_priority s),
      wl_normal := set_timeout i (wl_deadline now slot) (wl_normal s)\<rparr>)"
    using ik by (simp add: addPlayerToList_def)
  moreover have "?g \<in> set (guids (if prem ?g then wl_priority s else wl_normal s))"
    using side c(3) by (cases "prem ?g") (auto simp: guids_def image_iff intro!: bexI [of _ c])
  ultimately show ?thesis
    using wl_ok_retimed [OF assms(1) ik, where k' = slot and t = "wl_deadline now slot"]
    by (cases "prem ?g") (simp_all add: update_conv' joined_def slot_def)
qed

lemma erase_cell:
  assumes "distinct (map fst l)" and "distinct (map guid_of l)" and "c \<in> set l"
    and "cell_distance (fst c) l = Some k"
  shows "guids (erase_at k l) = remove1 (guid_of c) (guids l) \<and> set (erase_at k l) = set l - {c}
    \<and> distinct (map fst (erase_at k l)) \<and> distinct (map guid_of (erase_at k l))"
proof -
  have k: "k < length l" "fst (l ! k) = fst c" using cell_distance_Some [OF assms(4)] by simp_all
  then have lk: "l ! k = c" using assms(1,3) by (metis distinct_map inj_onD nth_mem)
  obtain xs ys where l: "l = xs @ c # ys" "length xs = k"
    using k(1) lk id_take_nth_drop [of k l] by (metis length_take less_or_eq_imp_le min.absorb2)
  then have e: "erase_at k l = xs @ ys" by (auto simp: erase_at_def)
  have g: "guid_of c \<notin> set (map guid_of xs)" using assms(2) unfolding l(1) by auto
  then have g1: "guids (xs @ ys) = remove1 (guid_of c) (guids (xs @ c # ys))"
    by (simp add: guids_def remove1_append remove1_idem)
  have "c \<notin> set xs" "c \<notin> set ys" using assms(1) unfolding l(1) by auto
  then have g2: "set (xs @ ys) = set (xs @ c # ys) - {c}" by auto
  have g3: "distinct (map fst (xs @ ys))" "distinct (map guid_of (xs @ ys))"
    using assms(1,2) unfolding l(1) by simp_all
  show ?thesis unfolding e unfolding l(1) using g1 g2 g3 by (intro conjI)
qed

lemma wl_ok_erased:
  assumes "wl_ok prem s" and "c \<in> set (wl_normal s)" and "cell_distance (fst c) (wl_normal s) = Some k"
  shows "wl_ok prem (s\<lparr>wl_normal := erase_at k (wl_normal s), wl_refs := AList.delete (guid_of c) (wl_refs s)\<rparr>)"
proof -
  let ?s' = "s\<lparr>wl_normal := erase_at k (wl_normal s), wl_refs := AList.delete (guid_of c) (wl_refs s)\<rparr>"
  have d: "distinct (map fst (wl_normal s))" "distinct (map guid_of (wl_normal s))"
    using assms(1) unfolding wl_ok_def by auto
  note e = erase_cell [OF d assms(2,3)]
  have cells: "set (wl_priority ?s' @ wl_normal ?s') = set (wl_priority s @ wl_normal s) - {c}"
  proof -
    have "c \<notin> set (wl_priority s)" using assms(1,2) unfolding wl_ok_def by blast
    then show ?thesis using e by auto
  qed
  have "(\<exists>slot. map_of (wl_refs ?s') g = Some (i, slot)) \<longleftrightarrow>
      (\<exists>d\<in>set (wl_priority ?s' @ wl_normal ?s'). fst d = i \<and> guid_of d = g)" for g i
  proof (cases "g = guid_of c")
    case True
    have "guid_of d \<noteq> g" if "d \<in> set (wl_priority s @ wl_normal s) - {c}" for d
      using that guid_unique [OF assms(1), of d c] assms(2) True by auto
    then show ?thesis using True unfolding cells by (auto simp: delete_conv')
  next
    case False
    then show ?thesis using wl_refs_iff [OF assms(1), of g i] unfolding cells by (auto simp: delete_conv')
  qed
  moreover have "distinct (map fst (wl_priority ?s' @ wl_normal ?s'))" "distinct (map guid_of (wl_priority ?s' @ wl_normal ?s'))"
    using assms(1) e unfolding wl_ok_def by auto
  ultimately show ?thesis
    using assms(1) e cells unfolding wl_ok_def by auto
qed

lemma full_server:
  assumes "\<not> wp_canAlwaysLogin p" and "\<not> wp_gamemaster p"
    and "0 < maxPlayers" and "wl_priority s \<noteq> [] \<or> wl_normal s \<noteq> [] \<or> maxPlayers \<le> online"
  shows "clientLogin maxPlayers online now p s = (case addPlayerToList now p (cleaned now s) of
        None \<Rightarrow> None
      | Some s1 \<Rightarrow> (case map_of (wl_refs s1) (wp_guid p) of
          None \<Rightarrow> None
        | Some (i, slot) \<Rightarrow>
            if online + slot \<le> maxPlayers then
              (case cell_distance i (wl_normal s1) of
                 None \<Rightarrow> None
               | Some k \<Rightarrow> Some (True, s1\<lparr>wl_normal := erase_at k (wl_normal s1),
                                       wl_refs := AList.delete (wp_guid p) (wl_refs s1)\<rparr>))
            else Some (False, s1)))"
  using assms unfolding clientLogin_def cleaned_def by auto


definition queue_sample :: wait_info where
  "queue_sample = \<lparr>wl_priority = [], wl_normal = [(0, \<lparr>wt_timeout = 9000, wt_guid = 5\<rparr>)],
     wl_refs = [(5, 0, 1)], wl_fresh = 1\<rparr>"

lemma queue_sample_ok: "wl_ok (\<lambda>g. g = 1) queue_sample"
  by (auto simp: wl_ok_def queue_sample_def guid_of_def)


text \<open>When the turn of a premium player comes, the code erases the player's cell of the
  priority list through the other list, which is undefined.\<close>

lemma premium_admission_undefined:
  assumes "wl_ok prem s" and "wp_premium p = prem (wp_guid p)" and "wp_premium p"
    and "\<not> wp_canAlwaysLogin p" and "\<not> wp_gamemaster p"
    and "0 < maxPlayers" and "wl_priority s \<noteq> [] \<or> wl_normal s \<noteq> [] \<or> maxPlayers \<le> online"
    and "online + place (wp_guid p) (joined (wp_guid p) (guids (filter (alive now) (wl_priority s)))) \<le> maxPlayers"
  shows "clientLogin maxPlayers online now p s = None"
proof -
  have pr: "prem (wp_guid p)" using assms(2,3) by simp
  obtain t i slot where t: "addPlayerToList now p (cleaned now s) = Some t" "wl_ok prem t"
    "map_of (wl_refs t) (wp_guid p) = Some (i, slot)"
    "slot = place (wp_guid p) (joined (wp_guid p) (guids (filter (alive now) (wl_priority s))))"
    using addPlayerToList_spec [OF wl_ok_cleaned [OF assms(1)] assms(2), of now now] pr by auto
  obtain c where c: "c \<in> set (wl_priority t @ wl_normal t)" "fst c = i" "guid_of c = wp_guid p"
    using wl_refs_iff [OF t(2), of "wp_guid p" i] t(3) by blast
  then have "c \<in> set (wl_priority t)" using t(2) pr unfolding wl_ok_def by auto
  then have "i \<notin> fst ` set (wl_normal t)" using t(2) c(2) unfolding wl_ok_def by auto
  then have "cell_distance i (wl_normal t) = None" by (simp add: cell_distance_None)
  then show ?thesis using t assms(8) by (simp add: full_server [OF assms(4-7)])
qed

theorem premium_admission_undefined_witness:
  "clientLogin 10 9 1000 \<lparr>wp_guid = 1, wp_premium = True, wp_canAlwaysLogin = False, wp_gamemaster = False\<rparr>
     queue_sample = None"
  by (rule premium_admission_undefined [OF queue_sample_ok])
    (simp_all add: queue_sample_def guids_def joined_def place_def)

subsection \<open>Floods of connections\<close>

lemma sint_small: "d < 2 ^ 63 \<Longrightarrow> sint (of_nat d :: u64) = int d"
  by (simp add: signed_of_nat signed_take_bit_int_eq_self)

lemma time_diff:
  assumes "t \<le> t'" and "t' < 2 ^ 63"
  shows "sint (of_nat t' - of_nat t :: u64) = int t' - int t"
proof -
  have "of_nat t' - of_nat t = (of_nat (t' - t) :: u64)" using assms(1) by (simp add: of_nat_diff)
  then show ?thesis using assms sint_small [of "t' - t"] by simp
qed

lemma accept_in_burst:
  assumes "map_of m ip = Some \<lparr>cb_lastAttempt = of_nat t, cb_blockTime = 0, cb_count = c\<rparr>"
    and "t \<le> t'" and "t' \<le> t + 500" and "t' < 2 ^ 63"
  shows "acceptConnection (of_nat t') ip m =
    (if c + 1 > 5
     then (False, AList.update ip \<lparr>cb_lastAttempt = of_nat t', cb_blockTime = of_nat (t' + 3000), cb_count = 0\<rparr> m)
     else (True, AList.update ip \<lparr>cb_lastAttempt = of_nat t', cb_blockTime = 0, cb_count = c + 1\<rparr> m))"
  using assms time_diff [OF assms(2,4)] by (simp add: acceptConnection_def Let_def)

fun burst :: "nat \<Rightarrow> nat list \<Rightarrow> bool" where
  "burst t [] \<longleftrightarrow> t + 3000 < 2 ^ 63"
| "burst t (u # us) \<longleftrightarrow> t \<le> u \<and> u \<le> t + 500 \<and> u < 2 ^ 63 \<and> burst u us"

lemma accept_burst:
  assumes "map_of m ip = Some \<lparr>cb_lastAttempt = of_nat t, cb_blockTime = 0, cb_count = of_nat (6 - length us)\<rparr>"
    and "burst t us" and "0 < length us" and "length us \<le> 5"
  shows "\<exists>m'. accept_all ip (map of_nat us) m = (replicate (length us - 1) True @ [False], m') \<and>
    map_of m' ip = Some \<lparr>cb_lastAttempt = of_nat (last us), cb_blockTime = of_nat (last us + 3000), cb_count = 0\<rparr>"
  using assms
proof (induction us arbitrary: m t)
  case (Cons u us)
  let ?c = "of_nat (6 - length (u # us)) :: u32"
  note step = accept_in_burst [OF Cons.prems(1), of u]
  show ?case
  proof (cases us)
    case Nil
    then show ?thesis using step Cons.prems(2) by (simp add: update_conv')
  next
    case (Cons v vs)
    have n: "?c + 1 = of_nat (6 - length us)"
      using Cons.prems(4) by (simp add: Suc_diff_le flip: of_nat_Suc)
    have "6 - length us \<le> 5" using Cons by simp
    then have "\<not> ?c + 1 > 5" unfolding n by (simp add: word_less_nat_alt unat_of_nat)
    then have s: "acceptConnection (of_nat u) ip m =
        (True, AList.update ip \<lparr>cb_lastAttempt = of_nat u, cb_blockTime = 0, cb_count = of_nat (6 - length us)\<rparr> m)"
      using step Cons.prems(2) n by simp
    have "burst u us" "0 < length us" "length us \<le> 5" using Cons Cons.prems(2,4) by simp_all
    from Cons.IH [OF _ this, of "snd (acceptConnection (of_nat u) ip m)"] show ?thesis
      using s Cons by (auto simp: update_conv')
  qed
qed simp

text \<open>An address that opens six connections, each at most half a second after the one
  before, has the first five accepted and the sixth refused, and from then on every attempt in the
  next three seconds is refused.\<close>

lemma flood_blocked:
  assumes "map_of m ip = None" and "burst t us" and "length us = 5"
  shows "\<exists>m'. accept_all ip (map of_nat (t # us)) m = ([True, True, True, True, True, False], m') \<and>
    (\<forall>u. u < last us + 3000 \<longrightarrow> \<not> fst (acceptConnection (of_nat u) ip m'))"
proof -
  obtain m1 where f: "acceptConnection (of_nat t) ip m = (True, m1)"
    and m: "map_of m1 ip = Some \<lparr>cb_lastAttempt = of_nat t, cb_blockTime = 0, cb_count = of_nat (6 - length us)\<rparr>"
    using assms(1,3) by (simp add: acceptConnection_def update_conv')
  have r: "replicate 4 True @ [False] = [True, True, True, True, False]" by (simp add: eval_nat_numeral)
  obtain m' where m': "accept_all ip (map of_nat us) m1 = (replicate 4 True @ [False], m')"
    "map_of m' ip = Some \<lparr>cb_lastAttempt = of_nat (last us), cb_blockTime = of_nat (last us + 3000), cb_count = 0\<rparr>"
    using accept_burst [OF m assms(2)] assms(3) by auto
  have "burst t us \<Longrightarrow> us \<noteq> [] \<Longrightarrow> last us + 3000 < 2 ^ 63" for t us
    by (induction t us rule: burst.induct) (auto split: if_splits)
  then have b: "last us + 3000 < 2 ^ 63" using assms(2,3) by fastforce
  have "\<not> fst (acceptConnection (of_nat u) ip m')" if "u < last us + 3000" for u
  proof -
    have "(of_nat u :: u64) < of_nat (last us + 3000)"
      using that b by (simp add: word_less_nat_alt unat_of_nat del: of_nat_add)
    then show ?thesis using m'(2) by (simp add: acceptConnection_def)
  qed
  moreover have "accept_all ip (map of_nat (t # us)) m = ([True, True, True, True, True, False], m')"
    using f m'(1) unfolding r by (simp add: Let_def split: prod.splits)
  ultimately show ?thesis by blast
qed

theorem flood_blocked_witness:
  "fst (accept_all 1 (map of_nat [1000, 1100, 1200, 1300, 1400, 1900]) []) = [True, True, True, True, True, False]"
  using flood_blocked [of "[]" 1 1000 "[1100, 1200, 1300, 1400, 1900]"] by auto

end
