(* ===== verification/Wheel.thy ===== *)
theory Wheel
  imports Net_Message Prop_Stream
begin

text \<open>
  The wheel of destiny (\<open>creatures/players/wheel/player_wheel.cpp\<close>): the points a player has,
  the slots they may be spent on, the save procedure run on a client's request, and the blob the
  allocation is stored in. The order in which \<open>std::ranges::sort\<close> leaves slots of equal priority
  is unspecified, so the arrangement of the request is an argument.
\<close>

subsection \<open>Slots\<close>

datatype wheel_slot = GREEN_200 | GREEN_TOP_150 | GREEN_TOP_100
  | RED_TOP_100 | RED_TOP_150 | RED_200 | GREEN_BOTTOM_150 | GREEN_MIDDLE_100 | GREEN_TOP_75 | RED_TOP_75
  | RED_MIDDLE_100 | RED_BOTTOM_150 | GREEN_BOTTOM_100 | GREEN_BOTTOM_75 | GREEN_50 | RED_50 | RED_BOTTOM_75 | RED_BOTTOM_100
  | BLUE_TOP_100 | BLUE_TOP_75 | BLUE_50 | PURPLE_50 | PURPLE_TOP_75 | PURPLE_TOP_100 | BLUE_TOP_150 | BLUE_MIDDLE_100 | BLUE_BOTTOM_75
  | PURPLE_BOTTOM_75 | PURPLE_MIDDLE_100 | PURPLE_TOP_150 | BLUE_200 | BLUE_BOTTOM_150 | BLUE_BOTTOM_100 | PURPLE_BOTTOM_100 | PURPLE_BOTTOM_150 | PURPLE_200

definition all_slots :: "wheel_slot list" where
  "all_slots = [GREEN_200, GREEN_TOP_150, GREEN_TOP_100, RED_TOP_100, RED_TOP_150, RED_200, GREEN_BOTTOM_150, GREEN_MIDDLE_100, GREEN_TOP_75, RED_TOP_75, RED_MIDDLE_100, RED_BOTTOM_150, GREEN_BOTTOM_100, GREEN_BOTTOM_75, GREEN_50, RED_50, RED_BOTTOM_75, RED_BOTTOM_100, BLUE_TOP_100, BLUE_TOP_75, BLUE_50, PURPLE_50, PURPLE_TOP_75, PURPLE_TOP_100, BLUE_TOP_150, BLUE_MIDDLE_100, BLUE_BOTTOM_75, PURPLE_BOTTOM_75, PURPLE_MIDDLE_100, PURPLE_TOP_150, BLUE_200, BLUE_BOTTOM_150, BLUE_BOTTOM_100, PURPLE_BOTTOM_100, PURPLE_BOTTOM_150, PURPLE_200]"

definition slot_code :: "wheel_slot \<Rightarrow> nat" where
  "slot_code s = find_index (\<lambda>t. t = s) all_slots + 1"

fun getMaxPointsPerSlot :: "wheel_slot \<Rightarrow> nat" where
  "getMaxPointsPerSlot GREEN_50 = 50"
| "getMaxPointsPerSlot RED_50 = 50"
| "getMaxPointsPerSlot BLUE_50 = 50"
| "getMaxPointsPerSlot PURPLE_50 = 50"
| "getMaxPointsPerSlot GREEN_TOP_75 = 75"
| "getMaxPointsPerSlot RED_TOP_75 = 75"
| "getMaxPointsPerSlot GREEN_BOTTOM_75 = 75"
| "getMaxPointsPerSlot RED_BOTTOM_75 = 75"
| "getMaxPointsPerSlot BLUE_TOP_75 = 75"
| "getMaxPointsPerSlot PURPLE_TOP_75 = 75"
| "getMaxPointsPerSlot BLUE_BOTTOM_75 = 75"
| "getMaxPointsPerSlot PURPLE_BOTTOM_75 = 75"
| "getMaxPointsPerSlot GREEN_TOP_100 = 100"
| "getMaxPointsPerSlot RED_TOP_100 = 100"
| "getMaxPointsPerSlot GREEN_MIDDLE_100 = 100"
| "getMaxPointsPerSlot RED_MIDDLE_100 = 100"
| "getMaxPointsPerSlot GREEN_BOTTOM_100 = 100"
| "getMaxPointsPerSlot RED_BOTTOM_100 = 100"
| "getMaxPointsPerSlot BLUE_TOP_100 = 100"
| "getMaxPointsPerSlot PURPLE_TOP_100 = 100"
| "getMaxPointsPerSlot BLUE_MIDDLE_100 = 100"
| "getMaxPointsPerSlot PURPLE_MIDDLE_100 = 100"
| "getMaxPointsPerSlot BLUE_BOTTOM_100 = 100"
| "getMaxPointsPerSlot PURPLE_BOTTOM_100 = 100"
| "getMaxPointsPerSlot GREEN_TOP_150 = 150"
| "getMaxPointsPerSlot RED_TOP_150 = 150"
| "getMaxPointsPerSlot GREEN_BOTTOM_150 = 150"
| "getMaxPointsPerSlot RED_BOTTOM_150 = 150"
| "getMaxPointsPerSlot BLUE_TOP_150 = 150"
| "getMaxPointsPerSlot PURPLE_TOP_150 = 150"
| "getMaxPointsPerSlot BLUE_BOTTOM_150 = 150"
| "getMaxPointsPerSlot PURPLE_BOTTOM_150 = 150"
| "getMaxPointsPerSlot GREEN_200 = 200"
| "getMaxPointsPerSlot RED_200 = 200"
| "getMaxPointsPerSlot BLUE_200 = 200"
| "getMaxPointsPerSlot PURPLE_200 = 200"

fun getSlotPrioritaryOrder :: "wheel_slot \<Rightarrow> int" where
  "getSlotPrioritaryOrder GREEN_50 = 0"
| "getSlotPrioritaryOrder RED_50 = 0"
| "getSlotPrioritaryOrder BLUE_50 = 0"
| "getSlotPrioritaryOrder PURPLE_50 = 0"
| "getSlotPrioritaryOrder GREEN_TOP_75 = 1"
| "getSlotPrioritaryOrder RED_TOP_75 = 1"
| "getSlotPrioritaryOrder GREEN_BOTTOM_75 = 1"
| "getSlotPrioritaryOrder RED_BOTTOM_75 = 1"
| "getSlotPrioritaryOrder BLUE_TOP_75 = 1"
| "getSlotPrioritaryOrder PURPLE_TOP_75 = 1"
| "getSlotPrioritaryOrder BLUE_BOTTOM_75 = 1"
| "getSlotPrioritaryOrder PURPLE_BOTTOM_75 = 1"
| "getSlotPrioritaryOrder GREEN_TOP_100 = 2"
| "getSlotPrioritaryOrder RED_TOP_100 = 2"
| "getSlotPrioritaryOrder GREEN_MIDDLE_100 = 2"
| "getSlotPrioritaryOrder RED_MIDDLE_100 = 2"
| "getSlotPrioritaryOrder GREEN_BOTTOM_100 = 2"
| "getSlotPrioritaryOrder RED_BOTTOM_100 = 2"
| "getSlotPrioritaryOrder BLUE_TOP_100 = 2"
| "getSlotPrioritaryOrder PURPLE_TOP_100 = 2"
| "getSlotPrioritaryOrder BLUE_MIDDLE_100 = 2"
| "getSlotPrioritaryOrder PURPLE_MIDDLE_100 = 2"
| "getSlotPrioritaryOrder BLUE_BOTTOM_100 = 2"
| "getSlotPrioritaryOrder PURPLE_BOTTOM_100 = 2"
| "getSlotPrioritaryOrder GREEN_TOP_150 = 3"
| "getSlotPrioritaryOrder RED_TOP_150 = 3"
| "getSlotPrioritaryOrder GREEN_BOTTOM_150 = 3"
| "getSlotPrioritaryOrder RED_BOTTOM_150 = 3"
| "getSlotPrioritaryOrder BLUE_TOP_150 = 3"
| "getSlotPrioritaryOrder PURPLE_TOP_150 = 3"
| "getSlotPrioritaryOrder BLUE_BOTTOM_150 = 3"
| "getSlotPrioritaryOrder PURPLE_BOTTOM_150 = 3"
| "getSlotPrioritaryOrder GREEN_200 = 4"
| "getSlotPrioritaryOrder RED_200 = 4"
| "getSlotPrioritaryOrder BLUE_200 = 4"
| "getSlotPrioritaryOrder PURPLE_200 = 4"

subsection \<open>Points\<close>

record wheel =
  wh_slots :: "u16 list"
  wh_level :: u32
  wh_pointsPerLevel :: u16
  wh_scrolls :: "string \<Rightarrow> int"

definition minLevelToStartCountPoints :: u32 where "minLevelToStartCountPoints = 50"

definition promotion_scrolls :: "(u16 \<times> string \<times> u16) list" where
  "promotion_scrolls = [(43946, ''wheel.scroll.abridged'', 3), (43947, ''wheel.scroll.basic'', 5),
     (43948, ''wheel.scroll.revised'', 9), (43949, ''wheel.scroll.extended'', 13),
     (43950, ''wheel.scroll.advanced'', 20)]"

definition getExtraPoints :: "wheel \<Rightarrow> u16" where
  "getExtraPoints w = (if wh_level w < 51 then 0
     else fold (\<lambda>(_, key, n) total. if wh_scrolls w key > 0 then total + n else total) promotion_scrolls 0)"

text \<open>\<open>std::max(0u, level - 50)\<close> is computed without a sign.\<close>

definition getWheelPoints :: "bool \<Rightarrow> wheel \<Rightarrow> u16" where
  "getWheelPoints includeExtraPoints w =
     (let totalPoints = max 0 (wh_level w - minLevelToStartCountPoints) * ucast (wh_pointsPerLevel w)
      in ucast (if includeExtraPoints then totalPoints + ucast (getExtraPoints w) else totalPoints))"

text \<open>An index past the array is reported and ignored.\<close>

definition getPoints :: "wheel \<Rightarrow> nat \<Rightarrow> u16" where
  "getPoints w i = (if i < length (wh_slots w) then wh_slots w ! i else 0)"

definition setPoints :: "nat \<Rightarrow> u16 \<Rightarrow> wheel \<Rightarrow> wheel" where
  "setPoints i p w = (if i < length (wh_slots w) then w\<lparr>wh_slots := (wh_slots w)[i := p]\<rparr> else w)"

definition getUnusedPoints :: "wheel \<Rightarrow> u16" where
  "getUnusedPoints w =
     (let totalPoints = getWheelPoints True w in
      if totalPoints = 0 then 0
      else fold (\<lambda>s t. t - getPoints w (slot_code s)) all_slots totalPoints)"

definition slot_full :: "wheel \<Rightarrow> wheel_slot \<Rightarrow> bool" where
  \<comment> \<open>\<open>canSelectSlotFullOrPartial\<close>\<close>
  "slot_full w s \<longleftrightarrow> unat (getPoints w (slot_code s)) = getMaxPointsPerSlot s"

text \<open>One branch: the points that must have been earned, and the slots one of which must be
  full; \<open>None\<close> when no return statement is reached.\<close>

definition select_step :: "wheel \<Rightarrow> u16 \<Rightarrow> wheel_slot list \<Rightarrow> bool option" where
  "select_step w need neighbours =
     (if getWheelPoints True w < need then Some False
      else if \<exists>s\<in>set neighbours. slot_full w s then Some True else None)"

definition canSelectGreen :: "wheel \<Rightarrow> wheel_slot \<Rightarrow> bool \<Rightarrow> bool option" where
  "canSelectGreen w slot r = (case slot of
       GREEN_200 \<Rightarrow> select_step w 375 [GREEN_TOP_150, GREEN_BOTTOM_150]
     | GREEN_TOP_150 \<Rightarrow> select_step w 225 [GREEN_TOP_100, GREEN_MIDDLE_100, GREEN_BOTTOM_150]
     | GREEN_BOTTOM_150 \<Rightarrow> select_step w 225 [GREEN_MIDDLE_100, GREEN_BOTTOM_100, GREEN_TOP_150]
     | GREEN_TOP_100 \<Rightarrow> select_step w 125 [RED_TOP_100, GREEN_TOP_75, GREEN_MIDDLE_100, GREEN_MIDDLE_100]
     | GREEN_MIDDLE_100 \<Rightarrow> select_step w 125 [GREEN_TOP_100, GREEN_TOP_75, GREEN_BOTTOM_75, GREEN_BOTTOM_100]
     | GREEN_BOTTOM_100 \<Rightarrow> select_step w 125 [GREEN_MIDDLE_100, GREEN_BOTTOM_75, BLUE_TOP_100, GREEN_BOTTOM_150]
     | GREEN_TOP_75 \<Rightarrow> select_step w 50 [GREEN_50, RED_TOP_75, GREEN_BOTTOM_75, GREEN_MIDDLE_100, GREEN_TOP_100]
     | GREEN_BOTTOM_75 \<Rightarrow> select_step w 50 [GREEN_50, BLUE_TOP_75, GREEN_MIDDLE_100, GREEN_BOTTOM_100, GREEN_TOP_75]
     | GREEN_50 \<Rightarrow> Some ((r \<and> slot_full w GREEN_50) \<or> True)
     | _ \<Rightarrow> None)"

definition canSelectRed :: "wheel \<Rightarrow> wheel_slot \<Rightarrow> bool \<Rightarrow> bool option" where
  "canSelectRed w slot r = (case slot of
       RED_200 \<Rightarrow> select_step w 375 [RED_TOP_150, RED_BOTTOM_150]
     | RED_TOP_150 \<Rightarrow> select_step w 225 [RED_TOP_100, RED_MIDDLE_100, RED_BOTTOM_150]
     | RED_BOTTOM_150 \<Rightarrow> select_step w 225 [RED_MIDDLE_100, RED_BOTTOM_100, RED_TOP_150]
     | RED_TOP_100 \<Rightarrow> select_step w 125 [RED_TOP_75, GREEN_TOP_100, RED_MIDDLE_100, RED_TOP_150]
     | RED_MIDDLE_100 \<Rightarrow> select_step w 125 [RED_TOP_75, RED_BOTTOM_75, RED_BOTTOM_100, RED_TOP_100]
     | RED_BOTTOM_100 \<Rightarrow> select_step w 125 [RED_BOTTOM_75, PURPLE_TOP_100, RED_MIDDLE_100, RED_BOTTOM_150]
     | RED_TOP_75 \<Rightarrow> select_step w 50 [RED_50, GREEN_TOP_75, RED_TOP_100, RED_MIDDLE_100, RED_BOTTOM_75]
     | RED_BOTTOM_75 \<Rightarrow> select_step w 50 [RED_50, PURPLE_TOP_75, RED_BOTTOM_100, RED_MIDDLE_100, RED_TOP_75]
     | RED_50 \<Rightarrow> Some ((r \<and> slot_full w RED_50) \<or> True)
     | _ \<Rightarrow> None)"

definition canSelectPurple :: "wheel \<Rightarrow> wheel_slot \<Rightarrow> bool \<Rightarrow> bool option" where
  "canSelectPurple w slot r = (case slot of
       PURPLE_200 \<Rightarrow> select_step w 375 [PURPLE_TOP_150, PURPLE_BOTTOM_150]
     | PURPLE_TOP_150 \<Rightarrow> select_step w 225 [PURPLE_MIDDLE_100, PURPLE_TOP_100, PURPLE_BOTTOM_150]
     | PURPLE_BOTTOM_150 \<Rightarrow> select_step w 225 [PURPLE_MIDDLE_100, PURPLE_BOTTOM_100, PURPLE_TOP_150]
     | PURPLE_TOP_100 \<Rightarrow> select_step w 125 [PURPLE_TOP_75, RED_BOTTOM_100, PURPLE_MIDDLE_100, PURPLE_TOP_150]
     | PURPLE_MIDDLE_100 \<Rightarrow> select_step w 125 [PURPLE_TOP_75, PURPLE_BOTTOM_75, PURPLE_BOTTOM_100, PURPLE_TOP_100]
     | PURPLE_BOTTOM_100 \<Rightarrow> select_step w 125 [PURPLE_BOTTOM_75, BLUE_BOTTOM_100, PURPLE_MIDDLE_100, PURPLE_BOTTOM_150]
     | PURPLE_TOP_75 \<Rightarrow> select_step w 50 [PURPLE_50, RED_BOTTOM_75, PURPLE_BOTTOM_75, PURPLE_MIDDLE_100, PURPLE_TOP_100]
     | PURPLE_BOTTOM_75 \<Rightarrow> select_step w 50 [PURPLE_50, BLUE_BOTTOM_75, PURPLE_TOP_75, PURPLE_MIDDLE_100, PURPLE_BOTTOM_100]
     | PURPLE_50 \<Rightarrow> Some ((r \<and> slot_full w PURPLE_50) \<or> True)
     | _ \<Rightarrow> None)"

definition canSelectBlue :: "wheel \<Rightarrow> wheel_slot \<Rightarrow> bool \<Rightarrow> bool option" where
  "canSelectBlue w slot r = (case slot of
       BLUE_200 \<Rightarrow> select_step w 375 [BLUE_TOP_150, BLUE_BOTTOM_150]
     | BLUE_TOP_150 \<Rightarrow> select_step w 225 [BLUE_MIDDLE_100, BLUE_TOP_100, BLUE_BOTTOM_150]
     | BLUE_BOTTOM_150 \<Rightarrow> select_step w 225 [BLUE_MIDDLE_100, BLUE_BOTTOM_100, BLUE_TOP_150]
     | BLUE_TOP_100 \<Rightarrow> select_step w 125 [BLUE_TOP_75, GREEN_BOTTOM_100, BLUE_MIDDLE_100, BLUE_TOP_150]
     | BLUE_MIDDLE_100 \<Rightarrow> select_step w 125 [BLUE_TOP_75, BLUE_BOTTOM_75, BLUE_BOTTOM_100, BLUE_TOP_100]
     | BLUE_BOTTOM_100 \<Rightarrow> select_step w 125 [BLUE_BOTTOM_75, PURPLE_BOTTOM_100, BLUE_MIDDLE_100, BLUE_BOTTOM_150]
     | BLUE_TOP_75 \<Rightarrow> select_step w 50 [BLUE_50, GREEN_BOTTOM_75, BLUE_BOTTOM_75, BLUE_MIDDLE_100, BLUE_TOP_100]
     | BLUE_BOTTOM_75 \<Rightarrow> select_step w 50 [BLUE_50, PURPLE_BOTTOM_75, BLUE_TOP_75, BLUE_MIDDLE_100, BLUE_BOTTOM_100]
     | BLUE_50 \<Rightarrow> Some ((r \<and> slot_full w BLUE_50) \<or> True)
     | _ \<Rightarrow> None)"

definition canPlayerSelectPointOnSlot :: "wheel \<Rightarrow> wheel_slot \<Rightarrow> bool \<Rightarrow> bool" where
  "canPlayerSelectPointOnSlot w slot recursive = (case canSelectGreen w slot recursive of Some b \<Rightarrow> b
     | None \<Rightarrow> (case canSelectRed w slot recursive of Some b \<Rightarrow> b
       | None \<Rightarrow> (case canSelectPurple w slot recursive of Some b \<Rightarrow> b
         | None \<Rightarrow> (case canSelectBlue w slot recursive of Some b \<Rightarrow> b | None \<Rightarrow> False))))"

subsection \<open>Saving\<close>

type_synonym slot_info = "int \<times> wheel_slot \<times> u16"

definition checkSavePoints :: "wheel_slot \<Rightarrow> u16 \<Rightarrow> wheel \<Rightarrow> bool \<times> wheel" where
  "checkSavePoints slot points w =
     (if points > 0 \<and> \<not> canPlayerSelectPointOnSlot w slot False then (False, w)
      else let w1 = setPoints (slot_code slot) 0 w in
        if points > getUnusedPoints w1 then (False, w1)
        else (True, setPoints (slot_code slot) points w1))"

text \<open>One pass over a table; the entries that could not be saved are kept.\<close>

fun save_pass :: "slot_info list \<Rightarrow> wheel \<Rightarrow> slot_info list \<times> wheel" where
  "save_pass [] w = ([], w)"
| "save_pass (d # ds) w = (case checkSavePoints (fst (snd d)) (snd (snd d)) w of
     (saved, w1) \<Rightarrow> (case save_pass ds w1 of (rest, w2) \<Rightarrow> (if saved then rest else d # rest, w2)))"

fun save_retries :: "nat \<Rightarrow> slot_info list \<Rightarrow> wheel \<Rightarrow> slot_info list \<times> wheel" where
  "save_retries 0 retry w = (retry, w)"
| "save_retries (Suc n) retry w = (case save_pass retry w of (retry', w1) \<Rightarrow> save_retries n retry' w1)"

text \<open>\<open>while (maxLoop <= 5)\<close> runs six times.\<close>

definition wheel_store :: "slot_info list \<Rightarrow> wheel \<Rightarrow> slot_info list \<times> wheel" where
  "wheel_store table w = (case save_pass table w of
     (retry, w1) \<Rightarrow> if retry \<noteq> [] then save_retries 6 retry w1 else (retry, w1))"

text \<open>Reading the request; \<open>None\<close> when a slot exceeds its maximum and the request is dropped.\<close>

fun read_request :: "wheel_slot list \<Rightarrow> netmsg \<Rightarrow> slot_info list option \<times> netmsg" where
  "read_request [] m = (Some [], m)"
| "read_request (s # ss) m = (let (points, m1) = nm_get m in
     if unat points > getMaxPointsPerSlot s then (None, m1)
     else let (rest, m2) = read_request ss m1 in
       (map_option (\<lambda>t. if getSlotPrioritaryOrder s = -1 then t else (getSlotPrioritaryOrder s, s, points) # t) rest, m2))"

datatype vocation_cip = VOCATION_NONE | VOCATION_KNIGHT_CIP | VOCATION_PALADIN_CIP
  | VOCATION_SORCERER_CIP | VOCATION_DRUID_CIP

definition getPlayerVocationEnum :: "int \<Rightarrow> vocation_cip" where
  "getPlayerVocationEnum cipTibiaId =
     (if cipTibiaId = 1 \<or> cipTibiaId = 11 then VOCATION_KNIGHT_CIP
      else if cipTibiaId = 2 \<or> cipTibiaId = 12 then VOCATION_PALADIN_CIP
      else if cipTibiaId = 3 \<or> cipTibiaId = 13 then VOCATION_SORCERER_CIP
      else if cipTibiaId = 4 \<or> cipTibiaId = 14 then VOCATION_DRUID_CIP
      else VOCATION_NONE)"

definition canOpenWheel :: "int \<Rightarrow> bool \<Rightarrow> bool \<Rightarrow> wheel \<Rightarrow> bool" where
  "canOpenWheel clientId premium promoted w =
     (if getPlayerVocationEnum clientId = VOCATION_NONE then False
      else if wh_level w \<le> 50 then False
      else if \<not> premium then False
      else if \<not> promoted then False
      else True)"

datatype save_outcome = Save_Ignored | Save_Manipulated | Save_Done "slot_info list"

definition wheel_save ::
    "(slot_info list \<Rightarrow> slot_info list) \<Rightarrow> bool \<Rightarrow> bool \<Rightarrow> netmsg \<Rightarrow> wheel \<Rightarrow> save_outcome \<times> netmsg \<times> wheel" where
  "wheel_save arrange oldProtocol canOpen msg w =
     (if oldProtocol then (Save_Ignored, msg, w)
      else if \<not> canOpen then (Save_Ignored, msg, w)
      else case read_request all_slots msg of
        (None, m) \<Rightarrow> (Save_Manipulated, m, w)
      | (Some table, m) \<Rightarrow> (case wheel_store (arrange table) w of (rest, w1) \<Rightarrow> (Save_Done rest, m, w1)))"

subsection \<open>The stored blob\<close>

fun save_blob :: "nat \<Rightarrow> u16 list \<Rightarrow> prop_write_stream \<Rightarrow> prop_write_stream" where
  "save_blob i [] st = st"
| "save_blob i (v # vs) st =
     save_blob (i + 1) vs (if v = 0 then st else pw_write v (pw_write (of_nat i :: u8) st))"

text \<open>The row is written only when the stream is not empty; otherwise the one there is stays.\<close>

definition saveDBPlayerSlotPoints :: "wheel \<Rightarrow> u8 list option \<Rightarrow> u8 list option" where
  "saveDBPlayerSlotPoints w row =
     (let st = fst (pw_getStream (save_blob 1 (drop 1 (wh_slots w)) []))
      in if st \<noteq> [] then Some st else row)"

fun load_blob :: "nat \<Rightarrow> prop_stream \<Rightarrow> wheel \<Rightarrow> wheel" where
  "load_blob 0 ps w = w"
| "load_blob (Suc n) ps w = (case (ps_read ps :: (u8 \<times> prop_stream) option) of
     None \<Rightarrow> load_blob n ps w
   | Some (slot, ps1) \<Rightarrow> (case (ps_read ps1 :: (u16 \<times> prop_stream) option) of
       None \<Rightarrow> load_blob n ps1 w
     | Some (points, ps2) \<Rightarrow> load_blob n ps2 (setPoints (unat slot) points w)))"

definition loadDBPlayerSlotPoints :: "u8 list option \<Rightarrow> wheel \<Rightarrow> wheel" where
  "loadDBPlayerSlotPoints row w = (case row of
       None \<Rightarrow> w | Some attribute \<Rightarrow> load_blob (length attribute) (ps_init attribute) w)"

subsection \<open>Stages\<close>

datatype wheel_stage = STAGE_NONE | STAGE_ONE | STAGE_TWO | STAGE_THREE

definition slice_slots :: "string \<Rightarrow> wheel_slot list" where
  "slice_slots color =
     (if color = ''green'' then [GREEN_50, GREEN_TOP_75, GREEN_BOTTOM_75, GREEN_TOP_100, GREEN_MIDDLE_100,
        GREEN_BOTTOM_100, GREEN_TOP_150, GREEN_BOTTOM_150, GREEN_200]
      else if color = ''red'' then [RED_50, RED_TOP_75, RED_BOTTOM_75, RED_TOP_100, RED_MIDDLE_100,
        RED_BOTTOM_100, RED_TOP_150, RED_BOTTOM_150, RED_200]
      else if color = ''purple'' then [PURPLE_50, PURPLE_TOP_75, PURPLE_BOTTOM_75, PURPLE_TOP_100,
        PURPLE_MIDDLE_100, PURPLE_BOTTOM_100, PURPLE_TOP_150, PURPLE_BOTTOM_150, PURPLE_200]
      else if color = ''blue'' then [BLUE_50, BLUE_TOP_75, BLUE_BOTTOM_75, BLUE_TOP_100, BLUE_MIDDLE_100,
        BLUE_BOTTOM_100, BLUE_TOP_150, BLUE_BOTTOM_150, BLUE_200]
      else [])"

text \<open>The last threshold, 250, is cast to a byte, which it fits.\<close>

definition getPlayerSliceStage :: "wheel \<Rightarrow> string \<Rightarrow> wheel_stage" where
  "getPlayerSliceStage w color =
     (let totalPoints = fold (\<lambda>s t. t + uint (getPoints w (slot_code s))) (slice_slots color) 0
      in if totalPoints \<ge> 1000 then STAGE_THREE
         else if totalPoints \<ge> 500 then STAGE_TWO
         else if totalPoints \<ge> uint (250 :: u8) then STAGE_ONE
         else STAGE_NONE)"

subsection \<open>The budget\<close>

definition spent :: "wheel \<Rightarrow> nat" where
  "spent w = (\<Sum>s\<leftarrow>all_slots. unat (getPoints w (slot_code s)))"

definition budget_ok :: "wheel \<Rightarrow> bool" where
  "budget_ok w \<longleftrightarrow> length (wh_slots w) = 37 \<and> spent w \<le> unat (getWheelPoints True w)"

lemma all_slots_complete [simp]: "s \<in> set all_slots"
  by (cases s) (simp_all add: all_slots_def)

lemma distinct_all_slots: "distinct all_slots"
  by (simp add: all_slots_def)

lemma length_all_slots: "length all_slots = 36"
  by (simp add: all_slots_def)

lemma slot_code_nth: "all_slots ! (slot_code s - 1) = s" and slot_code_range: "1 \<le> slot_code s \<and> slot_code s \<le> 36"
proof -
  have l: "find_index (\<lambda>t. t = s) all_slots < length all_slots"
    by (simp only: find_index_less) (use all_slots_complete in blast)
  show "all_slots ! (slot_code s - 1) = s" using find_index_nth [OF l] by (simp add: slot_code_def)
  show "1 \<le> slot_code s \<and> slot_code s \<le> 36" using l unfolding length_all_slots by (simp add: slot_code_def)
qed

lemma slot_code_inject: "slot_code s = slot_code t \<longleftrightarrow> s = t"
  by (metis slot_code_nth)

lemma setPoints_frame [simp]:
  "wh_level (setPoints i p w) = wh_level w" "wh_pointsPerLevel (setPoints i p w) = wh_pointsPerLevel w"
  "wh_scrolls (setPoints i p w) = wh_scrolls w" "length (wh_slots (setPoints i p w)) = length (wh_slots w)"
  by (simp_all add: setPoints_def)

lemma getWheelPoints_setPoints [simp]: "getWheelPoints b (setPoints i p w) = getWheelPoints b w"
proof -
  have "getExtraPoints (setPoints i p w) = getExtraPoints w" by (simp add: getExtraPoints_def)
  then show ?thesis by (cases b) (simp_all add: getWheelPoints_def)
qed

lemma getPoints_setPoints:
  "length (wh_slots w) = 37 \<Longrightarrow> getPoints (setPoints (slot_code s) p w) (slot_code t) =
    (if t = s then p else getPoints w (slot_code t))"
  using slot_code_range [of s] slot_code_range [of t] slot_code_inject [of s t]
  by (auto simp: getPoints_def setPoints_def)

lemma sum_list_except:
  "distinct xs \<Longrightarrow> x \<in> set xs \<Longrightarrow> (\<Sum>y\<leftarrow>xs. if y = x then a else f y) + f x = (\<Sum>y\<leftarrow>xs. f y) + (a :: nat)"
proof (induction xs)
  case (Cons y ys)
  show ?case
  proof (cases "y = x")
    case True
    then have "(\<Sum>y\<leftarrow>ys. if y = x then a else f y) = (\<Sum>y\<leftarrow>ys. f y)"
      using Cons.prems by (intro arg_cong [where f = sum_list] map_cong) auto
    then show ?thesis using True by simp
  next
    case False
    then show ?thesis using Cons by simp
  qed
qed simp

lemma spent_setPoints:
  assumes "length (wh_slots w) = 37"
  shows "spent (setPoints (slot_code s) p w) + unat (getPoints w (slot_code s)) = spent w + unat p"
proof -
  have "spent (setPoints (slot_code s) p w) =
      (\<Sum>t\<leftarrow>all_slots. if t = s then unat p else unat (getPoints w (slot_code t)))"
    unfolding spent_def by (intro arg_cong [where f = sum_list] map_cong) (simp_all add: getPoints_setPoints [OF assms])
  then show ?thesis
    using sum_list_except [OF distinct_all_slots all_slots_complete [of s], of "unat p" "\<lambda>t. unat (getPoints w (slot_code t))"]
    by (simp add: spent_def)
qed

lemma fold_minus: "(\<Sum>s\<leftarrow>xs. unat (f s :: u16)) \<le> unat t \<Longrightarrow>
    unat (fold (\<lambda>s t. t - f s) xs t) = unat t - (\<Sum>s\<leftarrow>xs. unat (f s))"
proof (induction xs arbitrary: t)
  case (Cons x xs)
  then have "unat (t - f x) = unat t - unat (f x)" by (intro unat_sub) (simp add: word_le_nat_alt)
  then show ?case using Cons by simp
qed simp

lemma getUnusedPoints_budget:
  "spent w \<le> unat (getWheelPoints True w) \<Longrightarrow> unat (getUnusedPoints w) = unat (getWheelPoints True w) - spent w"
  unfolding getUnusedPoints_def spent_def using fold_minus [of "\<lambda>s. getPoints w (slot_code s)" all_slots]
  by (simp add: Let_def unat_eq_0)

lemma checkSavePoints_budget:
  assumes "budget_ok w" and "checkSavePoints s p w = (b, w')"
  shows "budget_ok w' \<and> getWheelPoints True w' = getWheelPoints True w"
proof -
  let ?w1 = "setPoints (slot_code s) 0 w"
  have l: "length (wh_slots w) = 37" "spent w \<le> unat (getWheelPoints True w)"
    using assms(1) by (simp_all add: budget_ok_def)
  have b1: "budget_ok ?w1" using spent_setPoints [OF l(1), of s 0] l by (simp add: budget_ok_def)
  have "budget_ok (setPoints (slot_code s) p ?w1)" if "p \<le> getUnusedPoints ?w1"
  proof -
    have s1: "spent ?w1 \<le> unat (getWheelPoints True w)" using b1 by (simp add: budget_ok_def)
    then have "unat p \<le> unat (getWheelPoints True w) - spent ?w1"
      using that getUnusedPoints_budget [of ?w1] by (simp add: word_le_nat_alt)
    moreover have "spent (setPoints (slot_code s) p ?w1) = spent ?w1 + unat p"
      using spent_setPoints [of ?w1 s p] l(1) by (simp add: getPoints_setPoints)
    ultimately show ?thesis using s1 l(1) by (simp add: budget_ok_def)
  qed
  then show ?thesis
    using assms b1 by (auto simp: checkSavePoints_def Let_def not_less split: if_splits)
qed

lemma save_pass_budget: "budget_ok w \<Longrightarrow> save_pass ds w = (r, w') \<Longrightarrow> budget_ok w'"
proof (induction ds arbitrary: w r)
  case (Cons d ds)
  then show ?case
    using checkSavePoints_budget [OF Cons.prems(1), of "fst (snd d)" "snd (snd d)"]
    by (auto split: prod.splits)
qed simp

lemma save_retries_budget: "budget_ok w \<Longrightarrow> save_retries n ds w = (r, w') \<Longrightarrow> budget_ok w'"
  by (induction n arbitrary: ds w) (auto split: prod.splits dest: save_pass_budget)

text \<open>C10: whatever a client asks for, in whatever order the slots of equal priority are tried and
  however many are refused and retried, the points spent on the wheel never exceed the points earned.\<close>

theorem wheel_save_budget:
  assumes "budget_ok w" and "wheel_save arrange old canOpen msg w = (out, m, w')"
  shows "budget_ok w'"
proof -
  have "budget_ok w2" if "wheel_store t w = (r, w2)" for t r w2
    using that assms(1)
    by (auto simp: wheel_store_def split: prod.splits if_splits dest: save_pass_budget save_retries_budget)
  then show ?thesis using assms by (auto simp: wheel_save_def split: if_splits prod.splits option.splits)
qed

definition sample_wheel :: wheel where
  "sample_wheel = \<lparr>wh_slots = replicate 37 0, wh_level = 100, wh_pointsPerLevel = 1, wh_scrolls = (\<lambda>_. 0)\<rparr>"

lemma sample_budget: "budget_ok sample_wheel"
proof -
  have "getPoints sample_wheel i = 0" for i by (simp add: getPoints_def sample_wheel_def)
  then show ?thesis by (simp add: budget_ok_def spent_def) (simp add: sample_wheel_def)
qed

theorem wheel_save_budget_witness:
  "budget_ok (snd (snd (wheel_save id False True
     \<lparr>nm_length = 80, nm_position = 8, nm_overrun = False, nm_buffer = (\<lambda>_. 0)\<rparr> sample_wheel)))"
proof -
  let ?m = "\<lparr>nm_length = 80, nm_position = 8, nm_overrun = False, nm_buffer = (\<lambda>_. 0)\<rparr> :: netmsg"
  obtain a b c where e: "wheel_save id False True ?m sample_wheel = (a, b, c)" by (metis prod_cases3)
  show ?thesis using wheel_save_budget [OF sample_budget e] by (simp add: e)
qed

lemma fold_minus_word: "fold (\<lambda>s t. t - f s) xs t = t - (\<Sum>s\<leftarrow>xs. f s :: u16)"
  by (induction xs arbitrary: t) (simp_all add: algebra_simps)

text \<open>When the points spent exceed the points earned (a promotion scroll was lost, or
  levels were), the free points are computed modulo 2^16: the player may spend more instead of
  nothing.\<close>

lemma overspent_wheel_gains_points:
  assumes "unat (getWheelPoints True w) < spent w" and "spent w < 2 ^ 16" and "getWheelPoints True w \<noteq> 0"
  shows "unat (getUnusedPoints w) = 2 ^ 16 - (spent w - unat (getWheelPoints True w))"
proof -
  let ?W = "getWheelPoints True w"
  have "(of_nat (\<Sum>s\<leftarrow>xs. unat (getPoints w (slot_code s))) :: u16) = (\<Sum>s\<leftarrow>xs. getPoints w (slot_code s))" for xs
    by (induction xs) simp_all
  then have u: "getUnusedPoints w = ?W - of_nat (spent w)"
    using assms(3) by (simp add: getUnusedPoints_def Let_def fold_minus_word spent_def)
  have "?W - of_nat (spent w) = of_nat (2 ^ 16 + unat ?W - spent w)"
    using assms(2) by (subst of_nat_diff) simp_all
  moreover have "2 ^ 16 + unat ?W - spent w < 2 ^ 16" using assms(1,2) by simp
  ultimately have "unat (getUnusedPoints w) = 2 ^ 16 + unat ?W - spent w"
    by (simp only: u unat_of_nat) simp
  then show ?thesis using assms(1,2) by simp
qed

definition overspent_wheel :: wheel where
  "overspent_wheel = \<lparr>wh_slots = (replicate 37 0)[slot_code GREEN_50 := 50], wh_level = 60,
     wh_pointsPerLevel = 1, wh_scrolls = (\<lambda>_. 0)\<rparr>"

theorem overspent_wheel_gains_points_witness: "unat (getUnusedPoints overspent_wheel) = 2 ^ 16 - 40"
proof -
  let ?z = "overspent_wheel\<lparr>wh_slots := replicate 37 0\<rparr>"
  have w: "getWheelPoints True overspent_wheel = 10"
    by (simp add: getWheelPoints_def overspent_wheel_def minLevelToStartCountPoints_def getExtraPoints_def
        promotion_scrolls_def Let_def max_def)
  have "getPoints ?z i = 0" for i by (simp add: getPoints_def)
  then have "spent (setPoints (slot_code GREEN_50) 50 ?z) = 50"
    using spent_setPoints [of ?z GREEN_50 50] by (simp add: spent_def [of ?z])
  moreover have "setPoints (slot_code GREEN_50) 50 ?z = overspent_wheel"
    using slot_code_range [of GREEN_50] by (simp add: setPoints_def overspent_wheel_def)
  ultimately show ?thesis using overspent_wheel_gains_points [of overspent_wheel] w by simp
qed

subsection \<open>Symmetry of the selection rules\<close>

fun mirror :: "wheel_slot \<Rightarrow> wheel_slot" where
  "mirror GREEN_200 = RED_200" | "mirror RED_200 = GREEN_200"
| "mirror GREEN_TOP_150 = RED_TOP_150" | "mirror RED_TOP_150 = GREEN_TOP_150"
| "mirror GREEN_BOTTOM_150 = RED_BOTTOM_150" | "mirror RED_BOTTOM_150 = GREEN_BOTTOM_150"
| "mirror GREEN_TOP_100 = RED_TOP_100" | "mirror RED_TOP_100 = GREEN_TOP_100"
| "mirror GREEN_MIDDLE_100 = RED_MIDDLE_100" | "mirror RED_MIDDLE_100 = GREEN_MIDDLE_100"
| "mirror GREEN_BOTTOM_100 = RED_BOTTOM_100" | "mirror RED_BOTTOM_100 = GREEN_BOTTOM_100"
| "mirror GREEN_TOP_75 = RED_TOP_75" | "mirror RED_TOP_75 = GREEN_TOP_75"
| "mirror GREEN_BOTTOM_75 = RED_BOTTOM_75" | "mirror RED_BOTTOM_75 = GREEN_BOTTOM_75"
| "mirror GREEN_50 = RED_50" | "mirror RED_50 = GREEN_50"
| "mirror BLUE_200 = PURPLE_200" | "mirror PURPLE_200 = BLUE_200"
| "mirror BLUE_TOP_150 = PURPLE_TOP_150" | "mirror PURPLE_TOP_150 = BLUE_TOP_150"
| "mirror BLUE_BOTTOM_150 = PURPLE_BOTTOM_150" | "mirror PURPLE_BOTTOM_150 = BLUE_BOTTOM_150"
| "mirror BLUE_TOP_100 = PURPLE_TOP_100" | "mirror PURPLE_TOP_100 = BLUE_TOP_100"
| "mirror BLUE_MIDDLE_100 = PURPLE_MIDDLE_100" | "mirror PURPLE_MIDDLE_100 = BLUE_MIDDLE_100"
| "mirror BLUE_BOTTOM_100 = PURPLE_BOTTOM_100" | "mirror PURPLE_BOTTOM_100 = BLUE_BOTTOM_100"
| "mirror BLUE_TOP_75 = PURPLE_TOP_75" | "mirror PURPLE_TOP_75 = BLUE_TOP_75"
| "mirror BLUE_BOTTOM_75 = PURPLE_BOTTOM_75" | "mirror PURPLE_BOTTOM_75 = BLUE_BOTTOM_75"
| "mirror BLUE_50 = PURPLE_50" | "mirror PURPLE_50 = BLUE_50"

lemma mirror_mirror [simp]: "mirror (mirror s) = s"
  by (cases s) simp_all

lemmas can_select_defs = canPlayerSelectPointOnSlot_def canSelectGreen_def canSelectRed_def
  canSelectPurple_def canSelectBlue_def select_step_def

text \<open>The wheel is meant to be symmetric, and the selection rules are, under exchanging green
  with red and blue with purple, at every slot but one: the slot \<open>GREEN_TOP_100\<close> cannot be reached
  from \<open>GREEN_TOP_150\<close>, while its mirror image \<open>RED_TOP_100\<close> can from \<open>RED_TOP_150\<close>.\<close>

lemma wheel_rules_mirror:
  assumes "\<And>s. slot_full w' s = slot_full w (mirror s)" and "getWheelPoints True w' = getWheelPoints True w"
  shows "(s \<noteq> GREEN_TOP_100 \<and> s \<noteq> RED_TOP_100 \<longrightarrow>
      canPlayerSelectPointOnSlot w' (mirror s) r = canPlayerSelectPointOnSlot w s r)
    \<and> (canPlayerSelectPointOnSlot w RED_TOP_100 r \<longleftrightarrow>
        canPlayerSelectPointOnSlot w' GREEN_TOP_100 r \<or> 125 \<le> getWheelPoints True w \<and> slot_full w RED_TOP_150)"
proof
  show "s \<noteq> GREEN_TOP_100 \<and> s \<noteq> RED_TOP_100 \<longrightarrow>
      canPlayerSelectPointOnSlot w' (mirror s) r = canPlayerSelectPointOnSlot w s r"
    by (cases s) (auto simp: can_select_defs assms)
  show "canPlayerSelectPointOnSlot w RED_TOP_100 r \<longleftrightarrow>
        canPlayerSelectPointOnSlot w' GREEN_TOP_100 r \<or> 125 \<le> getWheelPoints True w \<and> slot_full w RED_TOP_150"
    by (auto simp: can_select_defs assms not_less)
qed


definition one_full :: "wheel_slot \<Rightarrow> wheel" where
  "one_full s = setPoints (slot_code s) (of_nat (getMaxPointsPerSlot s)) (sample_wheel\<lparr>wh_level := 200\<rparr>)"

lemma slot_full_one_full: "getMaxPointsPerSlot s < 65536 \<Longrightarrow> slot_full (one_full s) t \<longleftrightarrow> t = s"
proof -
  assume m: "getMaxPointsPerSlot s < 65536"
  have z: "getPoints (sample_wheel\<lparr>wh_level := 200\<rparr>) i = 0" for i by (simp add: getPoints_def sample_wheel_def)
  have n: "length (wh_slots (sample_wheel\<lparr>wh_level := 200\<rparr>)) = 37" by (simp add: sample_wheel_def)
  have "getMaxPointsPerSlot t \<noteq> 0" by (cases t) simp_all
  then show ?thesis
    using m by (auto simp: slot_full_def one_full_def getPoints_setPoints [OF n] z unat_of_nat)
qed

theorem wheel_rules_mirror_witness:
  "canPlayerSelectPointOnSlot (one_full RED_TOP_150) RED_TOP_100 False
    \<and> \<not> canPlayerSelectPointOnSlot (one_full GREEN_TOP_150) GREEN_TOP_100 False"
proof -
  have f: "slot_full (one_full GREEN_TOP_150) s = slot_full (one_full RED_TOP_150) (mirror s)" for s
    by (cases s) (simp_all add: slot_full_one_full)
  have p: "getWheelPoints True (one_full s) = 150" for s
    by (simp add: one_full_def getWheelPoints_def sample_wheel_def minLevelToStartCountPoints_def
        getExtraPoints_def promotion_scrolls_def Let_def max_def)
  have g: "getWheelPoints True (one_full GREEN_TOP_150) = getWheelPoints True (one_full RED_TOP_150)"
    by (simp only: p)
  have "\<not> canPlayerSelectPointOnSlot (one_full GREEN_TOP_150) GREEN_TOP_100 False"
    by (simp add: can_select_defs p slot_full_one_full)
  then show ?thesis
    using wheel_rules_mirror [of "one_full GREEN_TOP_150" "one_full RED_TOP_150" GREEN_200 False, OF f g]
    by (simp add: p slot_full_one_full)
qed

subsection \<open>Storing the allocation\<close>

lemma save_blob_append: "save_blob i vs st = st @ save_blob i vs []"
proof (induction vs arbitrary: i st)
  case (Cons v vs)
  show ?case
    using Cons.IH [of "i + 1" "pw_write v (pw_write (of_nat i :: u8) st)"]
      Cons.IH [of "i + 1" "pw_write v (pw_write (of_nat i :: u8) [])"] Cons.IH [of "i + 1" st]
    by (simp add: pw_write_def)
qed simp

definition slot_image :: "u8 \<Rightarrow> u16 \<Rightarrow> u8 list" where
  "slot_image b v = le_bytes 1 b @ le_bytes 2 v"

lemma length_slot_image [simp]: "length (slot_image b v) = 3"
  by (simp add: slot_image_def)

lemma save_blob_Cons:
  "save_blob i (v # vs) [] = (if v = 0 then [] else slot_image (of_nat i) v) @ save_blob (i + 1) vs []"
  using save_blob_append [of "i + 1" vs "pw_write v (pw_write (of_nat i :: u8) [])"]
  by (simp add: pw_write_def slot_image_def)

lemma load_blob_empty [simp]: "load_blob n [] w = w"
  by (induction n) (simp_all add: ps_read_def ps_size_def)

lemma load_blob_entry:
  "load_blob (Suc n) (slot_image b v @ rest) w = load_blob n rest (setPoints (unat b) v w)"
  by (simp add: slot_image_def ps_read_image del: le_bytes.simps One_nat_def)

lemma getPoints_setPoints_index:
  "i < length (wh_slots w) \<Longrightarrow> getPoints (setPoints i p w) j = (if j = i then p else getPoints w j)"
  by (auto simp: getPoints_def setPoints_def)

lemma load_saved:
  "i + length vs \<le> 37 \<Longrightarrow> length (wh_slots w) = 37 \<Longrightarrow> length (save_blob i vs []) \<le> n \<Longrightarrow>
    getPoints (load_blob n (save_blob i vs []) w) j =
      (if i \<le> j \<and> j < i + length vs \<and> vs ! (j - i) \<noteq> 0 then vs ! (j - i) else getPoints w j)"
proof (induction vs arbitrary: i n w)
  case (Cons v vs)
  have tail: "j \<noteq> i \<Longrightarrow> (i \<le> j \<and> j < i + length (v # vs) \<and> (v # vs) ! (j - i) \<noteq> 0) =
      (i + 1 \<le> j \<and> j < i + 1 + length vs \<and> vs ! (j - (i + 1)) \<noteq> 0)"
    by (cases "j \<le> i") (auto simp: nth_Cons')
  show ?case
  proof (cases "v = 0")
    case True
    then show ?thesis using Cons.IH [of "i + 1" w n] Cons.prems tail
      by (cases "j = i") (auto simp: save_blob_Cons nth_Cons')
  next
    case False
    then obtain m where n: "n = Suc m" "length (save_blob (i + 1) vs []) \<le> m"
      using Cons.prems(3) by (cases n) (simp_all add: save_blob_Cons del: save_blob.simps)
    have b: "unat (of_nat i :: u8) = i" using Cons.prems(1) by (simp add: unat_of_nat)
    show ?thesis
      using False Cons.IH [of "i + 1" "setPoints i v w" m] Cons.prems n tail
      by (cases "j = i") (auto simp: save_blob_Cons load_blob_entry b getPoints_setPoints_index nth_Cons'
          simp del: load_blob.simps save_blob.simps)
  qed
qed auto

lemma save_blob_empty: "save_blob i vs [] = [] \<longleftrightarrow> (\<forall>v\<in>set vs. v = 0)"
proof (induction vs arbitrary: i)
  case (Cons v vs)
  have "slot_image b v \<noteq> []" for b using length_slot_image [of b v] by (metis list.size(3) zero_neq_numeral)
  then show ?case using Cons by (simp add: save_blob_Cons del: save_blob.simps)
qed simp

text \<open>An allocation that spends a point is restored by the next login exactly as it was at the
  logout. One that spends none (a wheel the player has reset) is not written: the old row stays,
  and the next login brings the old allocation back.\<close>

lemma wheel_row_restored:
  assumes "length (wh_slots w) = 37" and "wh_slots w0 = replicate 37 0" and "1 \<le> i" and "i \<le> 36"
  shows "getPoints (loadDBPlayerSlotPoints (saveDBPlayerSlotPoints w row) w0) i =
    (if \<exists>v\<in>set (drop 1 (wh_slots w)). v \<noteq> 0 then getPoints w i
     else getPoints (loadDBPlayerSlotPoints row w0) i)"
proof (cases "\<exists>v\<in>set (drop 1 (wh_slots w)). v \<noteq> 0")
  case False
  then have "save_blob 1 (drop 1 (wh_slots w)) [] = []" by (simp only: save_blob_empty) blast
  then show ?thesis using False by (simp add: saveDBPlayerSlotPoints_def pw_getStream_def)
next
  case True
  let ?b = "save_blob 1 (drop 1 (wh_slots w)) []"
  have "?b \<noteq> []" using True by (simp only: save_blob_empty) blast
  then have "getPoints (loadDBPlayerSlotPoints (saveDBPlayerSlotPoints w row) w0) i = getPoints (load_blob (length ?b) ?b w0) i"
    by (simp add: saveDBPlayerSlotPoints_def loadDBPlayerSlotPoints_def pw_getStream_def ps_init_def)
  also have "\<dots> = getPoints w i"
    using load_saved [of 1 "drop 1 (wh_slots w)" w0 "length ?b" i] assms by (simp add: getPoints_def)
  finally show ?thesis using True by simp
qed

theorem wheel_row_restored_witness:
  "getPoints (loadDBPlayerSlotPoints
      (saveDBPlayerSlotPoints sample_wheel (saveDBPlayerSlotPoints overspent_wheel None)) sample_wheel) (slot_code GREEN_50) = 50"
proof -
  have c: "slot_code GREEN_50 = 15" by (simp add: slot_code_def all_slots_def)
  have o: "\<exists>v\<in>set (drop 1 (wh_slots overspent_wheel)). v \<noteq> 0"
    by (intro bexI [of _ "wh_slots overspent_wheel ! 15"])
      (simp_all add: overspent_wheel_def c in_set_conv_nth, intro exI [of _ 14], simp)
  have z: "\<not> (\<exists>v\<in>set (drop 1 (wh_slots sample_wheel)). v \<noteq> 0)" by (simp add: sample_wheel_def)
  have "getPoints overspent_wheel 15 = 50" by (simp add: getPoints_def overspent_wheel_def c)
  moreover have "length (wh_slots overspent_wheel) = 37" "length (wh_slots sample_wheel) = 37"
    "wh_slots sample_wheel = replicate 37 0"
    by (simp_all add: overspent_wheel_def sample_wheel_def)
  ultimately show ?thesis
    using wheel_row_restored [of sample_wheel sample_wheel 15] wheel_row_restored [of overspent_wheel sample_wheel 15]
    by (simp only: c z o if_True if_False simp_thms) simp
qed

end
