(* ===== verification/Party.thy ===== *)
theory Party
  imports Positions
begin

text \<open>
  Parties (\<open>creatures/players/grouping/party.cpp\<close>), the handlers of \<open>game/game.cpp\<close> that drive
  them, and the party state each player keeps (\<open>creatures/players/player.cpp\<close>). Party objects live
  in a store; players are named by their ids. The script hooks, the clock, levels and positions
  are an environment that may differ from call to call. Messages to clients are not modelled.
\<close>

subsection \<open>State\<close>

type_synonym player_id = u32

datatype shared_exp_status = SHAREDEXP_OK | SHAREDEXP_TOOFARAWAY | SHAREDEXP_LEVELDIFFTOOLARGE
  | SHAREDEXP_MEMBERINACTIVE | SHAREDEXP_EMPTYPARTY

datatype party_analyzer_price = MARKET_PRICE | LEADER_PRICE

record party_analyzer =
  an_id :: player_id
  an_damage :: u64
  an_healing :: u64
  an_lootPrice :: u64
  an_supplyPrice :: u64
  an_lootMap :: "(u16 \<times> u64) list"
  an_supplyMap :: "(u16 \<times> u64) list"

record party =
  pa_leader :: "player_id option"
  pa_members :: "player_id list"
  pa_invites :: "player_id list"
  pa_active :: bool
  pa_enabled :: bool
  pa_ticks :: "player_id \<rightharpoonup> int"
  pa_tracker :: int
  pa_priceType :: party_analyzer_price
  pa_data :: "party_analyzer list"

record world =
  w_parties :: "nat \<Rightarrow> party"
  w_next :: nat
  w_partyOf :: "player_id \<Rightarrow> nat option"
  w_invitations :: "player_id \<Rightarrow> nat list"

record env =
  en_now :: int
  en_online :: "player_id \<Rightarrow> bool"
  en_level :: "player_id \<Rightarrow> u32"
  en_position :: "player_id \<Rightarrow> position"
  en_noGain :: "player_id \<Rightarrow> bool"
  en_infight :: "player_id \<Rightarrow> bool"
  en_zone :: "player_id \<Rightarrow> nat"
  en_tileProtection :: "player_id \<Rightarrow> bool option"
  en_onDisband :: "nat \<Rightarrow> bool"
  en_onLeave :: "nat \<Rightarrow> player_id \<Rightarrow> bool"
  en_onJoin :: "nat \<Rightarrow> player_id \<Rightarrow> bool"
  en_autoShare :: bool

abbreviation lead :: "nat \<Rightarrow> world \<Rightarrow> player_id option" where "lead p w \<equiv> pa_leader (w_parties w p)"
abbreviation mems :: "nat \<Rightarrow> world \<Rightarrow> player_id list" where "mems p w \<equiv> pa_members (w_parties w p)"
abbreviation invs :: "nat \<Rightarrow> world \<Rightarrow> player_id list" where "invs p w \<equiv> pa_invites (w_parties w p)"

definition upd_party :: "nat \<Rightarrow> (party \<Rightarrow> party) \<Rightarrow> world \<Rightarrow> world" where
  "upd_party p f w = w\<lparr>w_parties := (w_parties w)(p := f (w_parties w p))\<rparr>"

definition setParty :: "player_id \<Rightarrow> nat option \<Rightarrow> world \<Rightarrow> world" where
  "setParty x po w = w\<lparr>w_partyOf := (w_partyOf w)(x := po)\<rparr>"

definition addPartyInvitation :: "player_id \<Rightarrow> nat \<Rightarrow> world \<Rightarrow> world" where
  "addPartyInvitation x p w =
     (if p \<in> set (w_invitations w x) then w
      else w\<lparr>w_invitations := (w_invitations w)(x := p # w_invitations w x)\<rparr>)"

definition removePartyInvitation :: "player_id \<Rightarrow> nat \<Rightarrow> world \<Rightarrow> world" where
  "removePartyInvitation x p w = w\<lparr>w_invitations := (w_invitations w)(x := removeAll p (w_invitations w x))\<rparr>"

definition party_empty :: "party \<Rightarrow> bool" where
  "party_empty pa \<longleftrightarrow> pa_members pa = [] \<and> pa_invites pa = []"

definition getPlayers :: "party \<Rightarrow> player_id option list" where
  "getPlayers pa = List.map Some (pa_members pa) @ [pa_leader pa]"

definition isPlayerInvited :: "player_id \<Rightarrow> party \<Rightarrow> bool" where
  "isPlayerInvited x pa \<longleftrightarrow> x \<in> set (pa_invites pa)"

subsection \<open>Shared experience\<close>

definition getHighestLevel :: "env \<Rightarrow> party \<Rightarrow> u32" where
  "getHighestLevel e pa = (case pa_leader pa of None \<Rightarrow> 0 | Some l \<Rightarrow>
     fold (\<lambda>m h. if en_level e m > h then en_level e m else h) (pa_members pa) (en_level e l))"

definition getLowestLevel :: "env \<Rightarrow> party \<Rightarrow> u32" where
  "getLowestLevel e pa = (case pa_leader pa of None \<Rightarrow> 0 | Some l \<Rightarrow>
     fold (\<lambda>m h. if en_level e m < h then en_level e m else h) (pa_members pa) (en_level e l))"

text \<open>The code computes \<open>std::ceil(2h / 3)\<close> and \<open>std::floor(3l / 2)\<close> in single precision, which is
  exact for the levels below 2^21.\<close>

definition getMinLevel :: "env \<Rightarrow> party \<Rightarrow> u32" where
  "getMinLevel e pa = of_nat ((unat (getHighestLevel e pa) * 2 + 2) div 3)"

definition getMaxLevel :: "env \<Rightarrow> party \<Rightarrow> u32" where
  "getMaxLevel e pa = of_nat ((unat (getLowestLevel e pa) * 3) div 2)"

definition isPlayerActive :: "env \<Rightarrow> party \<Rightarrow> player_id \<Rightarrow> bool" where
  "isPlayerActive e pa x = (case pa_ticks pa x of None \<Rightarrow> False
     | Some t \<Rightarrow> (of_int (en_now e - t) :: u64) \<le> 2 * 60 * 1000)"

definition getMemberSharedExperienceStatus :: "env \<Rightarrow> party \<Rightarrow> player_id \<Rightarrow> shared_exp_status" where
  "getMemberSharedExperienceStatus e pa x = (case pa_leader pa of None \<Rightarrow> SHAREDEXP_EMPTYPARTY | Some l \<Rightarrow>
     if pa_members pa = [] then SHAREDEXP_EMPTYPARTY
     else if en_level e x < getMinLevel e pa then SHAREDEXP_LEVELDIFFTOOLARGE
     else if \<not> areInRange3 30 30 1 (en_position e l) (en_position e x) then SHAREDEXP_TOOFARAWAY
     else if \<not> en_noGain e x \<and> \<not> isPlayerActive e pa x then SHAREDEXP_MEMBERINACTIVE
     else SHAREDEXP_OK)"

definition canUseSharedExperience :: "env \<Rightarrow> party \<Rightarrow> player_id \<Rightarrow> bool" where
  "canUseSharedExperience e pa x \<longleftrightarrow> getMemberSharedExperienceStatus e pa x = SHAREDEXP_OK"

fun first_failure :: "(player_id \<Rightarrow> shared_exp_status) \<Rightarrow> player_id list \<Rightarrow> shared_exp_status" where
  "first_failure f [] = SHAREDEXP_OK"
| "first_failure f (x # xs) = (if f x \<noteq> SHAREDEXP_OK then f x else first_failure f xs)"

definition getSharedExperienceStatus :: "env \<Rightarrow> party \<Rightarrow> shared_exp_status" where
  "getSharedExperienceStatus e pa = (case pa_leader pa of None \<Rightarrow> SHAREDEXP_EMPTYPARTY | Some l \<Rightarrow>
     first_failure (getMemberSharedExperienceStatus e pa) (l # pa_members pa))"

definition updateSharedExperience :: "env \<Rightarrow> party \<Rightarrow> party" where
  "updateSharedExperience e pa =
     (if pa_active pa then
        (let result = (getSharedExperienceStatus e pa = SHAREDEXP_OK)
         in if result \<noteq> pa_enabled pa then pa\<lparr>pa_enabled := result\<rparr> else pa)
      else pa)"

definition setSharedExperience :: "env \<Rightarrow> player_id \<Rightarrow> bool \<Rightarrow> party \<Rightarrow> bool \<times> party" where
  "setSharedExperience e x newActive pa =
     (if pa_leader pa \<noteq> Some x then (False, pa)
      else if pa_active pa = newActive then (True, pa)
      else let pa1 = pa\<lparr>pa_active := newActive\<rparr>
        in (True, if newActive then pa1\<lparr>pa_enabled := getSharedExperienceStatus e pa1 = SHAREDEXP_OK\<rparr> else pa1))"

definition updatePlayerTicks :: "env \<Rightarrow> player_id \<Rightarrow> u32 \<Rightarrow> party \<Rightarrow> party" where
  "updatePlayerTicks e x points pa =
     (if points \<noteq> 0 \<and> \<not> en_noGain e x
      then updateSharedExperience e (pa\<lparr>pa_ticks := (pa_ticks pa)(x \<mapsto> en_now e)\<rparr>) else pa)"

definition clearPlayerPoints :: "env \<Rightarrow> player_id \<Rightarrow> party \<Rightarrow> party" where
  "clearPlayerPoints e x pa =
     (if pa_ticks pa x \<noteq> None then updateSharedExperience e (pa\<lparr>pa_ticks := (pa_ticks pa)(x := None)\<rparr>) else pa)"

subsection \<open>Membership\<close>

definition disband :: "env \<Rightarrow> nat \<Rightarrow> world \<Rightarrow> world" where
  "disband e p w =
     (if \<not> en_onDisband e p then w
      else case lead p w of
        None \<Rightarrow> w
      | Some currentLeader \<Rightarrow>
          let w1 = setParty currentLeader None (upd_party p (pa_leader_update (\<lambda>_. None)) w);
              w2 = upd_party p (pa_invites_update (\<lambda>_. []))
                     (fold (\<lambda>i. removePartyInvitation i p) (invs p w1) w1);
              members = mems p w2;
              w3 = fold (\<lambda>m. setParty m None) members w2
          in upd_party p (\<lambda>pa. pa\<lparr>pa_members := [], pa_data := []\<rparr>) w3)"

definition passPartyLeadership :: "env \<Rightarrow> nat \<Rightarrow> player_id \<Rightarrow> world \<Rightarrow> bool \<times> world" where
  "passPartyLeadership e p x w = (case lead p w of
       None \<Rightarrow> (False, w)
     | Some leader \<Rightarrow>
         if leader = x \<or> w_partyOf w x \<noteq> Some p then (False, w)
         else (True, upd_party p (\<lambda>pa. updateSharedExperience e
                (pa\<lparr>pa_members := leader # remove1 x (pa_members pa), pa_leader := Some x\<rparr>)) w))"

text \<open>The members are live objects here, so the loop over null entries at the front ends at once.\<close>

definition leaveParty :: "env \<Rightarrow> nat \<Rightarrow> player_id \<Rightarrow> world \<Rightarrow> bool \<times> world" where
  "leaveParty e p x w = (case lead p w of
       None \<Rightarrow> (False, w)
     | Some leader \<Rightarrow>
         if w_partyOf w x \<noteq> Some p \<and> leader \<noteq> x then (False, w)
         else if \<not> en_onLeave e p x then (False, w)
         else
           let (missingLeader, w1) =
                 (if leader = x then
                    (if mems p w \<noteq> [] then
                       (if length (mems p w) = 1 \<and> invs p w = [] then (True, w)
                        else (False, snd (passPartyLeadership e p (hd (mems p w)) w)))
                     else (True, w))
                  else (False, w));
               w2 = setParty x None (upd_party p (\<lambda>pa. pa\<lparr>pa_members := remove1 x (pa_members pa)\<rparr>) w1);
               w3 = upd_party p (\<lambda>pa. clearPlayerPoints e x (updateSharedExperience e pa)) w2
           in (True, if missingLeader \<or> party_empty (w_parties w3 p) then disband e p w3 else w3))"

definition joinParty :: "env \<Rightarrow> nat \<Rightarrow> player_id \<Rightarrow> world \<Rightarrow> bool \<times> world" where
  "joinParty e p x w =
     (if lead p w = None then (False, w)
      else if \<not> en_onJoin e p x then (False, w)
      else if x \<notin> set (invs p w) then (False, w)
      else
        let w1 = upd_party p (\<lambda>pa. pa\<lparr>pa_invites := remove1 x (pa_invites pa)\<rparr>) w;
            w2 = upd_party p (\<lambda>pa. pa\<lparr>pa_members := pa_members pa @ [x]\<rparr>) (setParty x (Some p) w1)
        in (True, upd_party p (updateSharedExperience e) (removePartyInvitation x p w2)))"

definition removeInvite :: "env \<Rightarrow> nat \<Rightarrow> player_id \<Rightarrow> bool \<Rightarrow> world \<Rightarrow> bool \<times> world" where
  "removeInvite e p x removeFromPlayer w =
     (if lead p w = None then (False, w)
      else if x \<notin> set (invs p w) then (False, w)
      else
        let w1 = upd_party p (\<lambda>pa. pa\<lparr>pa_invites := remove1 x (pa_invites pa)\<rparr>) w;
            w2 = (if removeFromPlayer then removePartyInvitation x p w1 else w1)
        in (True, if party_empty (w_parties w2 p) then disband e p w2 else w2))"

definition revokeInvitation :: "env \<Rightarrow> nat \<Rightarrow> player_id \<Rightarrow> world \<Rightarrow> world" where
  "revokeInvitation e p x w = (if lead p w = None then w else snd (removeInvite e p x True w))"

definition invitePlayer :: "env \<Rightarrow> nat \<Rightarrow> player_id \<Rightarrow> world \<Rightarrow> bool \<times> world" where
  "invitePlayer e p x w =
     (if lead p w = None then (False, w)
      else if isPlayerInvited x (w_parties w p) then (False, w)
      else (True, addPartyInvitation x p (upd_party p (\<lambda>pa. pa\<lparr>pa_invites := pa_invites pa @ [x]\<rparr>) w)))"

definition new_party :: "env \<Rightarrow> player_id \<Rightarrow> party" where
  "new_party e leader = \<lparr>pa_leader = Some leader, pa_members = [], pa_invites = [], pa_active = False,
     pa_enabled = False, pa_ticks = Map.empty, pa_tracker = en_now e, pa_priceType = MARKET_PRICE, pa_data = []\<rparr>"

definition create_party :: "env \<Rightarrow> player_id \<Rightarrow> world \<Rightarrow> nat \<times> world" where
  "create_party e leader w =
     (let p = w_next w;
          w1 = setParty leader (Some p) (w\<lparr>w_parties := (w_parties w)(p := new_party e leader), w_next := p + 1\<rparr>)
      in (p, if en_autoShare e then upd_party p (\<lambda>pa. snd (setSharedExperience e leader True pa)) w1 else w1))"

definition canOpenCorpse :: "env \<Rightarrow> nat \<Rightarrow> player_id \<Rightarrow> world \<Rightarrow> bool" where
  "canOpenCorpse e p ownerId w = (case lead p w of
       None \<Rightarrow> False
     | Some leader \<Rightarrow> if en_online e ownerId then leader = ownerId \<or> w_partyOf w ownerId = Some p else False)"

subsection \<open>A player's view\<close>

definition isInviting :: "player_id \<Rightarrow> player_id \<Rightarrow> world \<Rightarrow> bool" where
  "isInviting self x w = (case w_partyOf w self of
       None \<Rightarrow> False
     | Some p \<Rightarrow> if lead p w \<noteq> Some self then False else isPlayerInvited x (w_parties w p))"

definition isPartner :: "player_id \<Rightarrow> player_id \<Rightarrow> world \<Rightarrow> bool" where
  "isPartner self x w \<longleftrightarrow> \<not> (w_partyOf w self = None \<or> x = self) \<and> w_partyOf w self = w_partyOf w x"

definition clearPartyInvitations :: "env \<Rightarrow> player_id \<Rightarrow> world \<Rightarrow> world" where
  "clearPartyInvitations e x w =
     (let w1 = fold (\<lambda>p w. snd (removeInvite e p x False w)) (w_invitations w x) w
      in w1\<lparr>w_invitations := (w_invitations w1)(x := [])\<rparr>)"

datatype party_shield = SHIELD_NONE | SHIELD_WHITEYELLOW | SHIELD_WHITEBLUE | SHIELD_BLUE | SHIELD_YELLOW
  | SHIELD_BLUE_SHAREDEXP | SHIELD_YELLOW_SHAREDEXP | SHIELD_BLUE_NOSHAREDEXP_BLINK
  | SHIELD_YELLOW_NOSHAREDEXP_BLINK | SHIELD_BLUE_NOSHAREDEXP | SHIELD_YELLOW_NOSHAREDEXP | SHIELD_GRAY

definition getPartyShield :: "env \<Rightarrow> player_id \<Rightarrow> player_id \<Rightarrow> world \<Rightarrow> party_shield" where
  "getPartyShield e self x w =
     (let last = (if isInviting x self w then SHIELD_WHITEYELLOW
                  else if w_partyOf w x \<noteq> None then SHIELD_GRAY else SHIELD_NONE)
      in case w_partyOf w self of
        None \<Rightarrow> last
      | Some p \<Rightarrow>
          if lead p w = Some x then
            (if pa_active (w_parties w p) then
               (if pa_enabled (w_parties w p) then SHIELD_YELLOW_SHAREDEXP
                else if canUseSharedExperience e (w_parties w p) x then SHIELD_YELLOW_NOSHAREDEXP
                else SHIELD_YELLOW_NOSHAREDEXP_BLINK)
             else SHIELD_YELLOW)
          else if w_partyOf w x = Some p then
            (if pa_active (w_parties w p) then
               (if pa_enabled (w_parties w p) then SHIELD_BLUE_SHAREDEXP
                else if canUseSharedExperience e (w_parties w p) x then SHIELD_BLUE_NOSHAREDEXP
                else SHIELD_BLUE_NOSHAREDEXP_BLINK)
             else SHIELD_BLUE)
          else if isInviting self x w then SHIELD_WHITEBLUE
          else last)"

subsection \<open>The handlers\<close>

definition playerInviteToParty :: "env \<Rightarrow> player_id \<Rightarrow> player_id \<Rightarrow> world \<Rightarrow> world" where
  "playerInviteToParty e x invited w =
     (if x = invited then w
      else if \<not> en_online e x then w
      else if \<not> en_online e invited \<or> isInviting invited x w then w
      else if w_partyOf w invited \<noteq> None then w
      else case w_partyOf w x of
          None \<Rightarrow> (case create_party e x w of (p, w1) \<Rightarrow> snd (invitePlayer e p invited w1))
        | Some p \<Rightarrow> if lead p w \<noteq> Some x then w else snd (invitePlayer e p invited w))"

definition playerJoinParty :: "env \<Rightarrow> player_id \<Rightarrow> player_id \<Rightarrow> world \<Rightarrow> world" where
  "playerJoinParty e x leader w =
     (if \<not> en_online e x then w
      else if \<not> en_online e leader \<or> \<not> isInviting leader x w then w
      else case w_partyOf w leader of
          None \<Rightarrow> w
        | Some p \<Rightarrow> if lead p w \<noteq> Some leader then w
            else if w_partyOf w x \<noteq> None then w
            else snd (joinParty e p x w))"

definition playerRevokePartyInvitation :: "env \<Rightarrow> player_id \<Rightarrow> player_id \<Rightarrow> world \<Rightarrow> world" where
  "playerRevokePartyInvitation e x invited w =
     (if \<not> en_online e x then w
      else case w_partyOf w x of
          None \<Rightarrow> w
        | Some p \<Rightarrow> if lead p w \<noteq> Some x then w
            else if \<not> en_online e invited \<or> \<not> isInviting x invited w then w
            else revokeInvitation e p invited w)"

definition playerPassPartyLeadership :: "env \<Rightarrow> player_id \<Rightarrow> player_id \<Rightarrow> world \<Rightarrow> world" where
  "playerPassPartyLeadership e x newLeader w =
     (if \<not> en_online e x then w
      else case w_partyOf w x of
          None \<Rightarrow> w
        | Some p \<Rightarrow> if lead p w \<noteq> Some x then w
            else if \<not> en_online e newLeader \<or> \<not> isPartner x newLeader w then w
            else snd (passPartyLeadership e p newLeader w))"

text \<open>The condition compares a negated zone with \<open>ZONE_PROTECTION\<close>, which is 0.\<close>

definition playerLeaveParty :: "env \<Rightarrow> player_id \<Rightarrow> world \<Rightarrow> world" where
  "playerLeaveParty e x w =
     (if \<not> en_online e x then w
      else case w_partyOf w x of
          None \<Rightarrow> w
        | Some p \<Rightarrow> if en_infight e x \<and> (if en_zone e x = 0 then 1 else 0 :: nat) = 0 then w
            else snd (leaveParty e p x w))"

definition playerEnableSharedPartyExperience :: "env \<Rightarrow> player_id \<Rightarrow> bool \<Rightarrow> world \<Rightarrow> world" where
  "playerEnableSharedPartyExperience e x active w =
     (if \<not> en_online e x then w
      else case w_partyOf w x of
          None \<Rightarrow> w
        | Some p \<Rightarrow> if en_infight e x \<and> en_tileProtection e x = Some False then w
            else upd_party p (\<lambda>pa. snd (setSharedExperience e x active pa)) w)"

text \<open>The part of \<open>Player::onRemoveCreature\<close> that runs on a logout.\<close>

definition logout_party :: "env \<Rightarrow> player_id \<Rightarrow> world \<Rightarrow> world" where
  "logout_party e x w =
     (let w1 = (case w_partyOf w x of None \<Rightarrow> w | Some p \<Rightarrow> snd (leaveParty e p x w))
      in clearPartyInvitations e x w1)"

inductive party_step :: "world \<Rightarrow> world \<Rightarrow> bool" where
  Step_Invite: "(\<And>p. en_onDisband e p) \<Longrightarrow> party_step w (playerInviteToParty e x y w)"
| Step_Join: "(\<And>p. en_onDisband e p) \<Longrightarrow> party_step w (playerJoinParty e x y w)"
| Step_Revoke: "(\<And>p. en_onDisband e p) \<Longrightarrow> party_step w (playerRevokePartyInvitation e x y w)"
| Step_Pass: "(\<And>p. en_onDisband e p) \<Longrightarrow> party_step w (playerPassPartyLeadership e x y w)"
| Step_Leave: "(\<And>p. en_onDisband e p) \<Longrightarrow> party_step w (playerLeaveParty e x w)"
| Step_Share: "party_step w (playerEnableSharedPartyExperience e x b w)"
| Step_Ticks: "party_step w (upd_party p (updatePlayerTicks e x n) w)"
| Step_Logout: "(\<And>p. en_onDisband e p) \<Longrightarrow> party_step w (logout_party e x w)"

inductive reachable_world :: "world \<Rightarrow> bool" where
  start: "w_partyOf w = (\<lambda>_. None) \<Longrightarrow> w_invitations w = (\<lambda>_. []) \<Longrightarrow>
    (\<And>p. lead p w = None \<and> mems p w = [] \<and> invs p w = []) \<Longrightarrow> reachable_world w"
| step: "reachable_world w \<Longrightarrow> party_step w w' \<Longrightarrow> reachable_world w'"

subsection \<open>The membership invariant\<close>

text \<open>\<open>party_ok False\<close> is what holds of every party between two handlers; \<open>party_ok True\<close> what is
  left of it while a leader is on the way out and the party about to be disbanded.\<close>

definition party_ok :: "bool \<Rightarrow> world \<Rightarrow> nat \<Rightarrow> bool" where
  "party_ok leaving w p \<longleftrightarrow>
     (\<forall>l. lead p w = Some l \<longrightarrow> l \<notin> set (mems p w) \<and> (w_partyOf w l = Some p \<or> leaving \<and> w_partyOf w l = None))
   \<and> (\<forall>m\<in>set (mems p w). w_partyOf w m = Some p)
   \<and> (\<forall>x. w_partyOf w x = Some p \<longrightarrow> lead p w = Some x \<or> x \<in> set (mems p w))
   \<and> (lead p w = None \<longrightarrow> mems p w = [] \<and> invs p w = [])
   \<and> distinct (mems p w) \<and> distinct (invs p w)
   \<and> (\<forall>x. x \<in> set (invs p w) \<longleftrightarrow> p \<in> set (w_invitations w x))
   \<and> (\<forall>x\<in>set (invs p w). w_partyOf w x \<noteq> Some p)
   \<and> (lead p w \<noteq> None \<longrightarrow> leaving \<or> mems p w \<noteq> [] \<or> invs p w \<noteq> [])
   \<and> (lead p w \<noteq> None \<longrightarrow> p < w_next w)"

definition party_inv :: "world \<Rightarrow> bool" where
  "party_inv w \<longleftrightarrow> (\<forall>p. party_ok False w p)"

text \<open>An operation on \<open>p\<close> is invisible to the other parties.\<close>

definition party_frame :: "nat \<Rightarrow> world \<Rightarrow> world \<Rightarrow> bool" where
  "party_frame p w w' \<longleftrightarrow> w_next w \<le> w_next w' \<and>
     (\<forall>q. q \<noteq> p \<longrightarrow> w_parties w' q = w_parties w q \<and>
       (\<forall>x. (w_partyOf w' x = Some q) = (w_partyOf w x = Some q) \<and>
            (q \<in> set (w_invitations w' x)) = (q \<in> set (w_invitations w x))))"

lemma party_ok_frame: "party_frame p w w' \<Longrightarrow> q \<noteq> p \<Longrightarrow> party_ok False w q \<Longrightarrow> party_ok False w' q"
proof -
  assume f: "party_frame p w w'" and q: "q \<noteq> p" and ok: "party_ok False w q"
  then have e: "w_parties w' q = w_parties w q" "w_next w \<le> w_next w'"
    "\<And>x. (w_partyOf w' x = Some q) = (w_partyOf w x = Some q)"
    "\<And>x. (q \<in> set (w_invitations w' x)) = (q \<in> set (w_invitations w x))"
    by (simp_all add: party_frame_def)
  from ok show ?thesis
    unfolding party_ok_def simp_thms e(1) e(3) e(4) using e(2) by (meson less_le_trans)
qed

lemma party_inv_frame:
  "party_inv w \<Longrightarrow> party_frame p w w' \<Longrightarrow> party_ok False w' p \<Longrightarrow> party_inv w'"
  unfolding party_inv_def by (metis party_ok_frame)

lemma party_frame_trans: "party_frame p w w1 \<Longrightarrow> party_frame p w1 w2 \<Longrightarrow> party_frame p w w2"
  by (auto simp: party_frame_def)

lemma party_frame_refl [simp]: "party_frame p w w"
  by (simp add: party_frame_def)

lemma upd_party_simps [simp]:
  "w_parties (upd_party p f w) q = (if q = p then f (w_parties w p) else w_parties w q)"
  "w_partyOf (upd_party p f w) = w_partyOf w" "w_invitations (upd_party p f w) = w_invitations w"
  "w_next (upd_party p f w) = w_next w"
  by (simp_all add: upd_party_def)

lemma setParty_simps [simp]:
  "w_parties (setParty x po w) = w_parties w" "w_invitations (setParty x po w) = w_invitations w"
  "w_next (setParty x po w) = w_next w" "w_partyOf (setParty x po w) y = (if y = x then po else w_partyOf w y)"
  by (simp_all add: setParty_def)

lemma removePartyInvitation_simps [simp]:
  "w_parties (removePartyInvitation x p w) = w_parties w" "w_partyOf (removePartyInvitation x p w) = w_partyOf w"
  "w_next (removePartyInvitation x p w) = w_next w"
  "w_invitations (removePartyInvitation x p w) y = (if y = x then removeAll p (w_invitations w x) else w_invitations w y)"
  by (simp_all add: removePartyInvitation_def)

lemma fold_setParty:
  "w_parties (fold (\<lambda>m. setParty m None) ms w) = w_parties w"
  "w_invitations (fold (\<lambda>m. setParty m None) ms w) = w_invitations w"
  "w_next (fold (\<lambda>m. setParty m None) ms w) = w_next w"
  "w_partyOf (fold (\<lambda>m. setParty m None) ms w) y = (if y \<in> set ms then None else w_partyOf w y)"
  by (induction ms arbitrary: w) simp_all

lemma fold_removePartyInvitation:
  "w_parties (fold (\<lambda>i. removePartyInvitation i p) xs w) = w_parties w"
  "w_partyOf (fold (\<lambda>i. removePartyInvitation i p) xs w) = w_partyOf w"
  "w_next (fold (\<lambda>i. removePartyInvitation i p) xs w) = w_next w"
  "w_invitations (fold (\<lambda>i. removePartyInvitation i p) xs w) y =
     (if y \<in> set xs then removeAll p (w_invitations w y) else w_invitations w y)"
  by (induction xs arbitrary: w) simp_all

lemmas party_folds = fold_setParty fold_removePartyInvitation

lemma updateSharedExperience_frame [simp]:
  "pa_leader (updateSharedExperience e pa) = pa_leader pa" "pa_members (updateSharedExperience e pa) = pa_members pa"
  "pa_invites (updateSharedExperience e pa) = pa_invites pa"
  by (simp_all add: updateSharedExperience_def Let_def)

lemma clearPlayerPoints_frame [simp]:
  "pa_leader (clearPlayerPoints e x pa) = pa_leader pa" "pa_members (clearPlayerPoints e x pa) = pa_members pa"
  "pa_invites (clearPlayerPoints e x pa) = pa_invites pa"
  by (simp_all add: clearPlayerPoints_def)

lemma updatePlayerTicks_frame [simp]:
  "pa_leader (updatePlayerTicks e x n pa) = pa_leader pa" "pa_members (updatePlayerTicks e x n pa) = pa_members pa"
  "pa_invites (updatePlayerTicks e x n pa) = pa_invites pa"
  by (simp_all add: updatePlayerTicks_def)

lemma setSharedExperience_frame [simp]:
  "pa_leader (snd (setSharedExperience e x b pa)) = pa_leader pa"
  "pa_members (snd (setSharedExperience e x b pa)) = pa_members pa"
  "pa_invites (snd (setSharedExperience e x b pa)) = pa_invites pa"
  by (simp_all add: setSharedExperience_def Let_def)

lemma party_ok_core:
  assumes "\<And>q. lead q w' = lead q w \<and> mems q w' = mems q w \<and> invs q w' = invs q w"
    and "w_partyOf w' = w_partyOf w" "w_invitations w' = w_invitations w" "w_next w' = w_next w"
  shows "party_ok b w' p = party_ok b w p"
  using assms by (simp add: party_ok_def)

lemma upd_party_inv:
  assumes "party_inv w" and "\<And>pa. pa_leader (f pa) = pa_leader pa \<and> pa_members (f pa) = pa_members pa \<and> pa_invites (f pa) = pa_invites pa"
  shows "party_inv (upd_party p f w)"
proof -
  have "party_ok False (upd_party p f w) q = party_ok False w q" for q
    by (rule party_ok_core) (simp_all add: assms(2))
  then show ?thesis using assms(1) by (simp add: party_inv_def)
qed

text \<open>Disbanding leaves no trace of the party.\<close>

lemma disband_ok:
  assumes "party_ok b w p" and "en_onDisband e p"
  shows "party_ok False (disband e p w) p \<and> party_frame p w (disband e p w)"
proof (cases "lead p w")
  case None
  then show ?thesis using assms by (auto simp: disband_def party_ok_def)
next
  case (Some l)
  let ?w = "disband e p w"
  have c: "w_parties ?w p = (w_parties w p)\<lparr>pa_leader := None, pa_members := [], pa_invites := [], pa_data := []\<rparr>"
    "\<And>q. q \<noteq> p \<Longrightarrow> w_parties ?w q = w_parties w q" "w_next ?w = w_next w"
    "\<And>x. w_partyOf ?w x = (if x = l \<or> x \<in> set (mems p w) then None else w_partyOf w x)"
    "\<And>x. w_invitations ?w x = (if x \<in> set (invs p w) then removeAll p (w_invitations w x) else w_invitations w x)"
    using Some assms(2) by (simp_all add: disband_def Let_def party_folds)
  have k: "w_partyOf w x = Some p \<Longrightarrow> x = l \<or> x \<in> set (mems p w)" and
       m: "x \<in> set (mems p w) \<Longrightarrow> w_partyOf w x = Some p" and
       i: "p \<in> set (w_invitations w x) \<longleftrightarrow> x \<in> set (invs p w)" for x
    using assms(1) Some by (auto simp: party_ok_def)
  have "w_partyOf w l = Some p \<or> w_partyOf w l = None" using assms(1) Some by (auto simp: party_ok_def)
  then show ?thesis unfolding party_ok_def party_frame_def by (auto simp: c i dest: k m)
qed

lemma passPartyLeadership_ok:
  assumes "party_ok False w p"
  shows "party_ok False (snd (passPartyLeadership e p x w)) p \<and> party_frame p w (snd (passPartyLeadership e p x w))"
proof (cases "\<exists>l. lead p w = Some l \<and> l \<noteq> x \<and> w_partyOf w x = Some p")
  case False
  then show ?thesis using assms by (auto simp: passPartyLeadership_def split: option.splits)
next
  case True
  then obtain l where l: "lead p w = Some l" "l \<noteq> x" "w_partyOf w x = Some p" by blast
  then have "x \<in> set (mems p w)" "l \<notin> set (mems p w)" "distinct (mems p w)"
    using assms by (auto simp: party_ok_def)
  then show ?thesis
    using assms l by (auto simp: passPartyLeadership_def party_ok_def party_frame_def)
qed

lemma joinParty_ok:
  assumes "party_ok False w p" and "w_partyOf w x = None"
  shows "party_ok False (snd (joinParty e p x w)) p \<and> party_frame p w (snd (joinParty e p x w))"
  using assms by (auto simp: joinParty_def Let_def party_ok_def party_frame_def)

lemma removeInvite_ok:
  assumes ok: "party_ok False w p" and e: "en_onDisband e p"
  shows "party_ok False (snd (removeInvite e p x True w)) p \<and> party_frame p w (snd (removeInvite e p x True w))"
proof (cases "lead p w \<noteq> None \<and> x \<in> set (invs p w)")
  case False
  then show ?thesis using ok by (auto simp: removeInvite_def)
next
  case True
  let ?w = "removePartyInvitation x p (upd_party p (\<lambda>pa. pa\<lparr>pa_invites := remove1 x (pa_invites pa)\<rparr>) w)"
  have w: "party_ok True ?w p" "party_frame p w ?w"
    using ok True by (auto simp: party_ok_def party_frame_def)
  have f: "\<not> party_empty (w_parties ?w p) \<Longrightarrow> party_ok False ?w p"
    using ok True by (auto simp: party_ok_def party_empty_def)
  have "snd (removeInvite e p x True w) = (if party_empty (w_parties ?w p) then disband e p ?w else ?w)"
    using True by (auto simp: removeInvite_def Let_def)
  then show ?thesis
    using disband_ok [OF w(1) e] w f party_frame_trans by auto
qed

lemma invitePlayer_ok:
  assumes "party_ok True w p" and "lead p w = Some l" and "w_partyOf w l = Some p"
    and "w_partyOf w x \<noteq> Some p" and "x \<notin> set (invs p w)"
  shows "party_ok False (snd (invitePlayer e p x w)) p \<and> party_frame p w (snd (invitePlayer e p x w))"
  using assms by (auto simp: invitePlayer_def isPlayerInvited_def addPartyInvitation_def party_ok_def party_frame_def)


text \<open>What is left once the player has been taken off the list.\<close>

definition departed :: "env \<Rightarrow> nat \<Rightarrow> player_id \<Rightarrow> world \<Rightarrow> world" where
  "departed e p x w = upd_party p (\<lambda>pa. clearPlayerPoints e x (updateSharedExperience e pa))
     (setParty x None (upd_party p (\<lambda>pa. pa\<lparr>pa_members := remove1 x (pa_members pa)\<rparr>) w))"

lemma departed_ok:
  assumes "party_ok False w p" and "w_partyOf w x = Some p"
  shows "party_ok True (departed e p x w) p \<and> party_frame p w (departed e p x w)"
    and "lead p w \<noteq> Some x \<Longrightarrow> \<not> party_empty (w_parties (departed e p x w) p) \<Longrightarrow> party_ok False (departed e p x w) p"
  using assms by (auto simp: departed_def party_ok_def party_frame_def party_empty_def)

lemma leave_finish:
  assumes "party_ok False w p" and "w_partyOf w x = Some p" and "en_onDisband e p"
    and "\<not> missing \<Longrightarrow> lead p w \<noteq> Some x"
  defines "w' \<equiv> if missing \<or> party_empty (w_parties (departed e p x w) p) then disband e p (departed e p x w)
    else departed e p x w"
  shows "party_ok False w' p \<and> party_frame p w w'"
  using departed_ok [OF assms(1,2)] disband_ok [OF _ assms(3), of True "departed e p x w"] assms(4)
  unfolding w'_def by (auto intro: party_frame_trans)

definition hands_over :: "nat \<Rightarrow> player_id \<Rightarrow> world \<Rightarrow> bool" where
  "hands_over p x w \<longleftrightarrow> lead p w = Some x \<and> mems p w \<noteq> [] \<and> \<not> (length (mems p w) = 1 \<and> invs p w = [])"

lemma leaveParty_eq:
  assumes "lead p w = Some l" and "w_partyOf w x = Some p" and "en_onLeave e p x"
  defines "v \<equiv> if hands_over p x w then snd (passPartyLeadership e p (hd (mems p w)) w) else w"
  shows "snd (leaveParty e p x w) =
    (if (l = x \<and> \<not> hands_over p x w) \<or> party_empty (w_parties (departed e p x v) p)
     then disband e p (departed e p x v) else departed e p x v)"
proof (cases "hands_over p x w")
  case True
  then have h: "l = x" "mems p w \<noteq> []" "\<not> (length (mems p w) = 1 \<and> invs p w = [])"
    using assms(1) by (simp_all add: hands_over_def)
  then show ?thesis
    using assms(1-3) True unfolding v_def leaveParty_def departed_def Let_def by (simp only: option.case if_True if_False simp_thms prod.case snd_conv)
next
  case False
  then have "l \<noteq> x \<or> mems p w = [] \<or> (length (mems p w) = 1 \<and> invs p w = [])"
    using assms(1) by (auto simp: hands_over_def)
  then show ?thesis
    using assms(1-3) False unfolding v_def leaveParty_def departed_def Let_def by (elim disjE) simp_all
qed

lemma leaveParty_ok:
  assumes ok: "party_ok False w p" and e: "en_onDisband e p"
  shows "party_ok False (snd (leaveParty e p x w)) p \<and> party_frame p w (snd (leaveParty e p x w))"
proof (cases "\<exists>l. lead p w = Some l \<and> (w_partyOf w x = Some p \<or> l = x) \<and> en_onLeave e p x")
  case False
  then have "snd (leaveParty e p x w) = w" by (auto simp: leaveParty_def split: option.splits)
  then show ?thesis using ok by simp
next
  case True
  then obtain l where l: "lead p w = Some l" and x: "w_partyOf w x = Some p" and h: "en_onLeave e p x"
    using ok by (auto simp: party_ok_def)
  let ?pass = "snd (passPartyLeadership e p (hd (mems p w)) w)"
  show ?thesis
  proof (cases "hands_over p x w")
    case True
    then have m: "lead p w = Some x" "hd (mems p w) \<noteq> x" "w_partyOf w (hd (mems p w)) = Some p"
      using ok hd_in_set [of "mems p w"] by (auto simp: party_ok_def hands_over_def)
    then have p: "lead p ?pass \<noteq> Some x" "w_partyOf ?pass x = Some p"
      using x by (auto simp: passPartyLeadership_def)
    have q: "party_ok False ?pass p" "party_frame p w ?pass"
      using passPartyLeadership_ok [OF ok] by blast+
    have "party_ok False (snd (leaveParty e p x w)) p \<and> party_frame p ?pass (snd (leaveParty e p x w))"
      using leave_finish [OF q(1) p(2) e, of False] p(1) leaveParty_eq [OF l x h] True
      by (simp only: if_True not_True_eq_False simp_thms)
    then show ?thesis using q(2) party_frame_trans by blast
  next
    case False
    then show ?thesis
      using leave_finish [OF ok x e, of "l = x"] l leaveParty_eq [OF l x h]
      by (simp only: if_False not_False_eq_True simp_thms option.inject)
  qed
qed

lemma departed_partyOf: "w_partyOf (departed e p x v) x = None"
  by (simp add: departed_def)

lemma disband_partyOf: "w_partyOf v x = None \<Longrightarrow> w_partyOf (disband e p v) x = None"
  by (simp add: disband_def Let_def party_folds split: option.splits)

subsection \<open>The handlers preserve it\<close>

lemma inv_party: "party_inv w \<Longrightarrow> party_ok False w p"
  by (simp add: party_inv_def)

lemma leave_inv: "party_inv w \<Longrightarrow> (\<And>p. en_onDisband e p) \<Longrightarrow> party_inv (snd (leaveParty e p x w))"
  using leaveParty_ok inv_party party_inv_frame by meson

lemma removeInvite_inv: "party_inv w \<Longrightarrow> (\<And>p. en_onDisband e p) \<Longrightarrow> party_inv (snd (removeInvite e p x True w))"
  using removeInvite_ok inv_party party_inv_frame by meson

lemma create_party_ok:
  assumes "party_inv w" and "w_partyOf w x = None" and "create_party e x w = (p, w1)"
  shows "party_ok True w1 p \<and> lead p w1 = Some x \<and> w_partyOf w1 x = Some p \<and> invs p w1 = []
    \<and> party_frame p w w1 \<and> (\<forall>y. y \<noteq> x \<longrightarrow> w_partyOf w1 y = w_partyOf w y)"
proof -
  have p: "p = w_next w" and w1: "lead p w1 = Some x" "mems p w1 = []" "invs p w1 = []" "w_next w1 = p + 1"
    "w_invitations w1 = w_invitations w" "w_partyOf w1 = (w_partyOf w)(x := Some p)"
    "\<And>q. q \<noteq> p \<Longrightarrow> w_parties w1 q = w_parties w q"
    using assms(3) by (auto simp: create_party_def Let_def new_party_def setParty_def split: if_splits)
  have "party_ok False w p" using assms(1) by (rule inv_party)
  then have "lead p w = None" "mems p w = []" "invs p w = []"
    using p by (auto simp: party_ok_def)
  then have "p \<notin> set (w_invitations w y)" "w_partyOf w y \<noteq> Some p" for y
    using \<open>party_ok False w p\<close> by (auto simp: party_ok_def)
  then show ?thesis
    using assms(2) p w1 by (auto simp: party_ok_def party_frame_def)
qed

lemma invite_step:
  assumes "party_inv w" shows "party_inv (playerInviteToParty e x y w)"
proof (cases "x = y \<or> \<not> en_online e x \<or> \<not> en_online e y \<or> isInviting y x w \<or> w_partyOf w y \<noteq> None")
  case True
  then show ?thesis using assms by (auto simp: playerInviteToParty_def)
next
  case False
  show ?thesis
  proof (cases "w_partyOf w x")
    case None
    obtain p w1 where c: "create_party e x w = (p, w1)" by (cases "create_party e x w")
    have o: "party_ok True w1 p" "lead p w1 = Some x" "w_partyOf w1 x = Some p" "invs p w1 = []"
        "party_frame p w w1" "w_partyOf w1 y \<noteq> Some p"
      using create_party_ok [OF assms None c] False by auto
    have "playerInviteToParty e x y w = snd (invitePlayer e p y w1)"
      using False None c by (simp add: playerInviteToParty_def)
    then show ?thesis
      using invitePlayer_ok [OF o(1-3,6), of e] o(4,5) assms party_frame_trans party_inv_frame
      by (metis empty_iff list.set(1))
  next
    case (Some p)
    show ?thesis
    proof (cases "lead p w = Some x \<and> y \<notin> set (invs p w)")
      case True
      have "party_ok True w p" using inv_party [OF assms, of p] by (auto simp: party_ok_def)
      then have "party_ok False (snd (invitePlayer e p y w)) p \<and> party_frame p w (snd (invitePlayer e p y w))"
        using True Some False by (intro invitePlayer_ok) auto
      then show ?thesis
        using False Some True party_inv_frame [OF assms, of p "snd (invitePlayer e p y w)"]
        by (simp add: playerInviteToParty_def)
    next
      case no: False
      then show ?thesis
        using False Some assms by (auto simp: playerInviteToParty_def invitePlayer_def isPlayerInvited_def)
    qed
  qed
qed

lemma join_step:
  assumes "party_inv w" shows "party_inv (playerJoinParty e x y w)"
proof -
  have "w_partyOf w x = None \<Longrightarrow> party_inv (snd (joinParty e p x w))" for p
    using joinParty_ok [OF inv_party [OF assms]] party_inv_frame [OF assms] by meson
  then show ?thesis using assms by (auto simp: playerJoinParty_def split: option.splits)
qed

lemma pass_step:
  assumes "party_inv w" shows "party_inv (playerPassPartyLeadership e x y w)"
proof -
  have "party_inv (snd (passPartyLeadership e p y w))" for p
    using passPartyLeadership_ok [OF inv_party [OF assms]] party_inv_frame [OF assms] by meson
  then show ?thesis using assms by (auto simp: playerPassPartyLeadership_def split: option.splits)
qed

lemma revoke_step:
  "party_inv w \<Longrightarrow> (\<And>p. en_onDisband e p) \<Longrightarrow> party_inv (playerRevokePartyInvitation e x y w)"
  using removeInvite_inv [of w e] by (simp add: playerRevokePartyInvitation_def revokeInvitation_def split: option.splits)

lemma leave_step: "party_inv w \<Longrightarrow> (\<And>p. en_onDisband e p) \<Longrightarrow> party_inv (playerLeaveParty e x w)"
  using leave_inv [of w e] by (simp add: playerLeaveParty_def split: option.splits)

lemma share_step: "party_inv w \<Longrightarrow> party_inv (playerEnableSharedPartyExperience e x b w)"
  by (auto simp: playerEnableSharedPartyExperience_def intro: upd_party_inv split: option.splits)

text \<open>Clearing a player's invitations one side at a time is revoking them on both.\<close>

lemma removeInvite_one_side:
  "snd (removeInvite e p x False (w\<lparr>w_invitations := (w_invitations w)(x := z)\<rparr>)) =
    (snd (removeInvite e p x True w))\<lparr>w_invitations := (w_invitations (snd (removeInvite e p x True w)))(x := z)\<rparr>"
  by (simp add: removeInvite_def disband_def Let_def party_empty_def upd_party_def setParty_def
      removePartyInvitation_def fold_setParty split: option.splits)


lemma removeInvite_invitations:
  assumes "party_inv w" and "\<And>p. en_onDisband e p"
  shows "set (w_invitations (snd (removeInvite e p x True w)) x) \<subseteq> set (w_invitations w x) - {p}"
proof -
  let ?w = "snd (removeInvite e p x True w)"
  have "w_invitations ?w x = w_invitations w x \<or> w_invitations ?w x = removeAll p (w_invitations w x)"
    by (auto simp: removeInvite_def disband_def Let_def party_folds removeAll_filter_not_eq split: option.splits)
  moreover have "x \<notin> set (invs p w) \<Longrightarrow> p \<notin> set (w_invitations w x)" and "x \<notin> set (invs p ?w)"
    and "p \<in> set (w_invitations ?w x) \<longleftrightarrow> x \<in> set (invs p ?w)"
    using inv_party [OF assms(1), of p] inv_party [OF removeInvite_inv [OF assms], of p]
    by (auto simp: party_ok_def removeInvite_def disband_def Let_def party_folds split: option.splits)
  ultimately show ?thesis by auto
qed

lemma removeInvites_inv:
  assumes "party_inv w" and e: "\<And>p. en_onDisband e p"
  shows "party_inv (fold (\<lambda>p w. snd (removeInvite e p x True w)) ps w) \<and>
    set (w_invitations (fold (\<lambda>p w. snd (removeInvite e p x True w)) ps w) x) \<subseteq> set (w_invitations w x) - set ps"
  using assms(1)
proof (induction ps arbitrary: w)
  case (Cons p ps)
  then show ?case
    using removeInvite_inv [OF Cons.prems e] removeInvite_invitations [OF Cons.prems e] by fastforce
qed simp

lemma removeInvites_one_side:
  "fold (\<lambda>p w. snd (removeInvite e p x False w)) ps (w\<lparr>w_invitations := (w_invitations w)(x := z)\<rparr>) =
    (let w' = fold (\<lambda>p w. snd (removeInvite e p x True w)) ps w
     in w'\<lparr>w_invitations := (w_invitations w')(x := z)\<rparr>)"
  by (induction ps arbitrary: w) (simp_all add: removeInvite_one_side)

lemma clear_inv:
  assumes "party_inv w" and "\<And>p. en_onDisband e p"
  shows "party_inv (clearPartyInvitations e x w) \<and> w_invitations (clearPartyInvitations e x w) x = []"
proof -
  let ?r = "fold (\<lambda>p w. snd (removeInvite e p x True w)) (w_invitations w x) w"
  have r: "party_inv ?r" "w_invitations ?r x = []"
    using removeInvites_inv [OF assms, where ps = "w_invitations w x" and x = x] by auto
  have "clearPartyInvitations e x w = ?r\<lparr>w_invitations := (w_invitations ?r)(x := [])\<rparr>"
    using removeInvites_one_side [of e x "w_invitations w x" w "w_invitations w x"]
    by (simp add: clearPartyInvitations_def Let_def)
  also have "\<dots> = ?r" using r(2) by (simp add: fun_upd_idem)
  finally show ?thesis using r by simp
qed

lemma logout_step: "party_inv w \<Longrightarrow> (\<And>p. en_onDisband e p) \<Longrightarrow> party_inv (logout_party e x w)"
  using leave_inv [of w e] clear_inv [of _ e] by (simp add: logout_party_def Let_def split: option.splits)

lemma party_step_inv: "party_step w w' \<Longrightarrow> party_inv w \<Longrightarrow> party_inv w'"
  by (induction rule: party_step.induct)
    (auto intro: invite_step join_step revoke_step pass_step leave_step share_step logout_step upd_party_inv)

lemma reachable_inv: "reachable_world w \<Longrightarrow> party_inv w"
proof (induction rule: reachable_world.induct)
  case (start w)
  then show ?case by (auto simp: party_inv_def party_ok_def)
qed (rule party_step_inv)

inductive_cases reachable_worldE: "reachable_world w"

text \<open>C11: in every state the handlers can reach (with scripts that let a party be disbanded), a
  player is in at most one party and that party knows it: a party's leader and members are exactly
  the players that point to it, nobody is listed twice, invitations are recorded on both sides,
  and no party is kept without a member or an invitation.\<close>

theorem party_membership_consistent:
  assumes "reachable_world w"
  shows "(w_partyOf w x = Some p \<longleftrightarrow> Some x \<in> set (getPlayers (w_parties w p)))
    \<and> distinct (getPlayers (w_parties w p))
    \<and> (isPlayerInvited x (w_parties w p) \<longleftrightarrow> p \<in> set (w_invitations w x))
    \<and> (isPlayerInvited x (w_parties w p) \<longrightarrow> w_partyOf w x \<noteq> Some p)
    \<and> (lead p w = None \<longleftrightarrow> party_empty (w_parties w p))"
proof -
  have ok: "party_ok False w p" using inv_party [OF reachable_inv [OF assms]] .
  have g: "Some x \<in> set (getPlayers (w_parties w p)) \<longleftrightarrow> lead p w = Some x \<or> x \<in> set (mems p w)"
    by (auto simp: getPlayers_def)
  have d: "distinct (getPlayers (w_parties w p)) \<longleftrightarrow>
      distinct (mems p w) \<and> (\<forall>l. lead p w = Some l \<longrightarrow> l \<notin> set (mems p w))"
    by (cases "lead p w") (auto simp: getPlayers_def distinct_map)
  show ?thesis
    unfolding g d isPlayerInvited_def party_empty_def using ok unfolding party_ok_def by (intro conjI) blast+
qed

definition start_world :: world where
  "start_world = \<lparr>w_parties = (\<lambda>_. \<lparr>pa_leader = None, pa_members = [], pa_invites = [], pa_active = False,
     pa_enabled = False, pa_ticks = Map.empty, pa_tracker = 0, pa_priceType = MARKET_PRICE, pa_data = []\<rparr>),
     w_next = 0, w_partyOf = (\<lambda>_. None), w_invitations = (\<lambda>_. [])\<rparr>"

definition sample_env :: env where
  "sample_env = \<lparr>en_now = 0, en_online = (\<lambda>_. True), en_level = (\<lambda>_. 100), en_position = (\<lambda>_. Position 1 1 7),
     en_noGain = (\<lambda>_. False), en_infight = (\<lambda>_. False), en_zone = (\<lambda>_. 0), en_tileProtection = (\<lambda>_. None),
     en_onDisband = (\<lambda>_. True), en_onLeave = (\<lambda>_ _. True), en_onJoin = (\<lambda>_ _. True), en_autoShare = False\<rparr>"

lemma start_reachable: "reachable_world start_world"
  by (rule reachable_world.start) (simp_all add: start_world_def)

definition joined_world :: world where
  "joined_world = playerJoinParty sample_env 2 1 (playerInviteToParty sample_env 1 2 start_world)"

lemma joined_reachable: "reachable_world joined_world"
proof -
  have e: "en_onDisband sample_env p" for p by (simp add: sample_env_def)
  show ?thesis
    unfolding joined_world_def
    by (rule reachable_world.step [OF reachable_world.step [OF start_reachable Step_Invite [OF e]] Step_Join [OF e]])
qed

lemma joined_lead: "lead 0 joined_world = Some 1 \<and> mems 0 joined_world = [2] \<and> invs 0 joined_world = []"
  by (simp add: joined_world_def playerJoinParty_def playerInviteToParty_def create_party_def Let_def
      invitePlayer_def joinParty_def isInviting_def isPlayerInvited_def addPartyInvitation_def new_party_def
      sample_env_def start_world_def setParty_def upd_party_def removePartyInvitation_def updateSharedExperience_def)

theorem party_membership_consistent_witness:
  "w_partyOf joined_world 2 = Some 0 \<and> \<not> isPlayerInvited 2 (w_parties joined_world 0)"
proof -
  have "Some 2 \<in> set (getPlayers (w_parties joined_world 0))" using joined_lead by (simp add: getPlayers_def)
  then show ?thesis using party_membership_consistent [OF joined_reachable, of 2 0] by blast
qed

lemma party_ok_lead: "party_ok False w p \<Longrightarrow> w_partyOf w x = Some p \<Longrightarrow> \<exists>l. lead p w = Some l"
proof (cases "lead p w")
  case None
  assume ok: "party_ok False w p" and x: "w_partyOf w x = Some p"
  have "mems p w = []" using ok None by (simp add: party_ok_def)
  moreover have "lead p w = Some x \<or> x \<in> set (mems p w)" using ok x by (simp add: party_ok_def)
  ultimately show ?thesis using None by simp
qed simp

lemma party_ok_absent:
  assumes ok: "party_ok False w p" and "w_partyOf w x = None" and "w_invitations w x = []"
  shows "lead p w \<noteq> Some x \<and> x \<notin> set (mems p w) \<and> x \<notin> set (invs p w)"
proof -
  have "lead p w = Some x \<Longrightarrow> w_partyOf w x = Some p" using ok by (simp add: party_ok_def)
  moreover have "x \<in> set (mems p w) \<Longrightarrow> w_partyOf w x = Some p" using ok by (simp add: party_ok_def)
  moreover have "x \<in> set (invs p w) \<Longrightarrow> p \<in> set (w_invitations w x)" using ok by (simp add: party_ok_def)
  ultimately show ?thesis using assms(2,3) by auto
qed

text \<open>A player that logs out, if the leave script agrees, is in no party, and nobody's list of
  invitations names them; if the party's leader was leaving, someone else leads it or it is gone.\<close>

lemma logout_leaves_party:
  assumes "reachable_world w" and "\<And>p. en_onDisband e p" and "\<And>p. en_onLeave e p x"
  shows "w_partyOf (logout_party e x w) x = None \<and> (\<forall>p. lead p (logout_party e x w) \<noteq> Some x
    \<and> x \<notin> set (mems p (logout_party e x w)) \<and> \<not> isPlayerInvited x (w_parties (logout_party e x w) p))"
proof -
  let ?w1 = "case w_partyOf w x of None \<Rightarrow> w | Some p \<Rightarrow> snd (leaveParty e p x w)"
  have inv: "party_inv w" using assms(1) by (rule reachable_inv)
  have "party_inv ?w1" using leave_inv [OF inv assms(2)] inv by (simp split: option.splits)
  then have c: "party_inv (logout_party e x w)" "w_invitations (logout_party e x w) x = []"
    using clear_inv [OF _ assms(2), of ?w1 x] by (simp_all add: logout_party_def)
  have n: "w_partyOf ?w1 x = None"
  proof (cases "w_partyOf w x")
    case (Some p)
    then obtain l where "lead p w = Some l" using party_ok_lead [OF inv_party [OF inv]] by blast
    then show ?thesis
      using Some assms(3) by (simp add: leaveParty_eq departed_partyOf disband_partyOf)
  qed simp
  have "w_partyOf (fold (\<lambda>p w. snd (removeInvite e p x False w)) ps v) x = None" if "w_partyOf v x = None" for ps v
    using that by (induction ps arbitrary: v) (simp_all add: removeInvite_def Let_def disband_partyOf)
  then have "w_partyOf (logout_party e x w) x = None"
    using n by (simp add: logout_party_def clearPartyInvitations_def Let_def)
  then show ?thesis
    using party_ok_absent [OF inv_party [OF c(1)] _ c(2)] by (simp add: isPlayerInvited_def)
qed

theorem logout_leaves_party_witness: "w_partyOf (logout_party sample_env 1 joined_world) 1 = None"
  using logout_leaves_party [OF joined_reachable, of sample_env 1] by (simp add: sample_env_def)


subsection \<open>The advertised share range\<close>

lemma le_fold_min: "c \<le> fold (\<lambda>m h. if f m < h then f m else h) xs (a :: u32) \<longleftrightarrow> c \<le> a \<and> (\<forall>x\<in>set xs. c \<le> f x)"
proof (induction xs arbitrary: a)
  case (Cons x xs)
  show ?case by (cases "f x < a") (auto simp: Cons.IH)
qed simp

text \<open>Nobody's status is \<open>SHAREDEXP_LEVELDIFFTOOLARGE\<close>.\<close>

definition levels_fit :: "env \<Rightarrow> party \<Rightarrow> bool" where
  "levels_fit e pa \<longleftrightarrow> (\<forall>x. Some x \<in> set (getPlayers pa) \<longrightarrow> getMinLevel e pa \<le> en_level e x)"

lemma levels_fit_lowest:
  "pa_leader pa = Some l \<Longrightarrow> levels_fit e pa \<longleftrightarrow> getMinLevel e pa \<le> getLowestLevel e pa"
  by (auto simp: levels_fit_def getPlayers_def getLowestLevel_def le_fold_min)

lemma div_bounds: "((h :: nat) * 2 + 2) div 3 \<le> x \<longleftrightarrow> 2 * h \<le> 3 * x" "(v :: nat) \<le> x * 3 div 2 \<longleftrightarrow> 2 * v \<le> 3 * x"
  by linarith+

lemma share_range_arith:
  fixes h l v :: nat
  assumes "(h * 2 + 2) div 3 \<le> l"
  shows "(h * 2 + 2) div 3 \<le> v \<and> v \<le> l * 3 div 2 \<longleftrightarrow> (max h v * 2 + 2) div 3 \<le> min l v"
  using assms unfolding div_bounds by (simp add: max_def min_def)

lemma unat_of_nat_small: "n < 2 ^ 32 \<Longrightarrow> unat (of_nat n :: u32) = n"
  by (simp add: unat_of_nat take_bit_nat_eq_self)

text \<open>The level range a party advertises with an invitation is right: a player can join a
  party whose members may share experience, and leave its levels fit for sharing, exactly when the
  player's level is in the range (for levels below 2^21, where the floating-point bounds are exact).\<close>

lemma share_range_exact:
  assumes "pa_leader pa = Some l" and "levels_fit e pa" and "\<And>y. en_level e y < 2 ^ 21"
  shows "getMinLevel e pa \<le> en_level e x \<and> en_level e x \<le> getMaxLevel e pa
    \<longleftrightarrow> levels_fit e (pa\<lparr>pa_members := pa_members pa @ [x]\<rparr>)"
proof -
  let ?pa = "pa\<lparr>pa_members := pa_members pa @ [x]\<rparr>" and ?v = "unat (en_level e x)"
  let ?h = "unat (getHighestLevel e pa)" and ?l = "unat (getLowestLevel e pa)"
  have b: "unat (en_level e y) < 2 ^ 21" for y using assms(3) [of y] by (simp add: word_less_nat_alt)
  have h: "\<exists>y. fold (\<lambda>m h. if en_level e m > h then en_level e m else h) xs (en_level e z) = en_level e y"
    and g: "\<exists>y. fold (\<lambda>m h. if en_level e m < h then en_level e m else h) xs (en_level e z) = en_level e y" for xs z
    by (induction xs arbitrary: z) auto
  have hb: "?h < 2 ^ 21" "?l < 2 ^ 21"
    using h [of "pa_members pa" l] g [of "pa_members pa" l] b assms(1)
    by (auto simp: getHighestLevel_def getLowestLevel_def)
  have h': "unat (getHighestLevel e ?pa) = max ?h ?v" and l': "unat (getLowestLevel e ?pa) = min ?l ?v"
    using assms(1) by (simp_all add: getHighestLevel_def getLowestLevel_def max_def min_def word_less_nat_alt)
  have m: "unat (getMinLevel e pa) = (?h * 2 + 2) div 3" "unat (getMaxLevel e pa) = ?l * 3 div 2"
    "unat (getMinLevel e ?pa) = (max ?h ?v * 2 + 2) div 3"
    unfolding getMinLevel_def getMaxLevel_def h' using hb b [of x] by (simp_all add: unat_of_nat_small)
  have f: "levels_fit e pa \<longleftrightarrow> (?h * 2 + 2) div 3 \<le> ?l"
    "levels_fit e ?pa \<longleftrightarrow> (max ?h ?v * 2 + 2) div 3 \<le> min ?l ?v"
    using levels_fit_lowest [OF assms(1)] levels_fit_lowest [of ?pa l e] assms(1)
    by (simp_all add: word_le_nat_alt m l')
  show ?thesis
    using share_range_arith [of ?h ?l ?v] assms(2) unfolding f by (simp add: word_le_nat_alt m)
qed

theorem share_range_exact_witness:
  "levels_fit sample_env ((w_parties joined_world 0)\<lparr>pa_members := [2, 3]\<rparr>)"
proof -
  have l: "pa_leader (w_parties joined_world 0) = Some 1" and m: "pa_members (w_parties joined_world 0) = [2]"
    using joined_lead by blast+
  have r: "getMinLevel sample_env (w_parties joined_world 0) = 67" "getMaxLevel sample_env (w_parties joined_world 0) = 150"
    by (simp_all add: getMinLevel_def getMaxLevel_def getHighestLevel_def getLowestLevel_def l m sample_env_def)
  then have "levels_fit sample_env (w_parties joined_world 0)"
    by (simp add: levels_fit_def sample_env_def)
  then show ?thesis
    using share_range_exact [OF l, of sample_env 3] m r by (simp add: sample_env_def)
qed


subsection \<open>The loot analyzer\<close>

text \<open>Prices: the market's, per item and tier; the item type's own; and what a leader has set.\<close>

record price_list =
  pr_market :: "u16 \<Rightarrow> (u8 \<times> u64) list option"
  pr_buy :: "u16 \<Rightarrow> u32"
  pr_sell :: "u16 \<Rightarrow> u32"
  pr_custom :: "player_id \<Rightarrow> u16 \<rightharpoonup> u64"


definition getItemMarketPrice :: "price_list \<Rightarrow> (u16 \<times> u64) list \<Rightarrow> bool \<Rightarrow> u64" where
  "getItemMarketPrice pr itemMap buyPrice = fold (\<lambda>(item, n) total.
     if item = ITEM_GOLD_COIN then total + n
     else if item = ITEM_PLATINUM_COIN then total + 100 * n
     else if item = ITEM_CRYSTAL_COIN then total + 10000 * n
     else (case pr_market pr item of
         Some tiers \<Rightarrow> fold (\<lambda>(tier, price) total. total + price * n) tiers total
       | None \<Rightarrow> total + ucast (if buyPrice then pr_buy pr item else pr_sell pr item) * n)) itemMap 0"

definition getItemCustomPrice :: "price_list \<Rightarrow> player_id \<Rightarrow> u16 \<Rightarrow> bool \<Rightarrow> u64" where
  "getItemCustomPrice pr x item buyPrice = (case pr_custom pr x item of
       Some price \<Rightarrow> price | None \<Rightarrow> getItemMarketPrice pr [(item, 1)] buyPrice)"

text \<open>The \<open>std::map\<close> of counts, in key order.\<close>

fun map_increase :: "u16 \<Rightarrow> u64 \<Rightarrow> (u16 \<times> u64) list \<Rightarrow> (u16 \<times> u64) list" where
  "map_increase k n [] = [(k, n)]"
| "map_increase k n ((k', n') # m) =
     (if k = k' then (k', n' + n) # m
      else if k < k' then (k, n) # (k', n') # m
      else (k', n') # map_increase k n m)"

definition new_analyzer :: "player_id \<Rightarrow> party_analyzer" where
  "new_analyzer x = \<lparr>an_id = x, an_damage = 0, an_healing = 0, an_lootPrice = 0, an_supplyPrice = 0,
     an_lootMap = [], an_supplyMap = []\<rparr>"

text \<open>The first analyzer of the player is updated, one being appended when there is none.\<close>

fun upd_analyzer :: "player_id \<Rightarrow> (party_analyzer \<Rightarrow> party_analyzer) \<Rightarrow> party_analyzer list \<Rightarrow> party_analyzer list" where
  "upd_analyzer x f [] = [f (new_analyzer x)]"
| "upd_analyzer x f (a # as) = (if an_id a = x then f a # as else a # upd_analyzer x f as)"

definition addPlayerLoot :: "price_list \<Rightarrow> player_id \<Rightarrow> u16 \<Rightarrow> u16 \<Rightarrow> party \<Rightarrow> party" where
  "addPlayerLoot pr x item itemCount pa = (case pa_leader pa of None \<Rightarrow> pa | Some leader \<Rightarrow>
     let n = ucast (max 1 (ucast itemCount :: u32)) :: u64;
         price = (if pa_priceType pa = LEADER_PRICE then getItemCustomPrice pr leader item False * n
                  else getItemMarketPrice pr [(item, n)] False)
     in pa\<lparr>pa_data := upd_analyzer x (\<lambda>a. a\<lparr>an_lootMap := map_increase item n (an_lootMap a),
          an_lootPrice := an_lootPrice a + price\<rparr>) (pa_data pa)\<rparr>)"

definition addPlayerSupply :: "price_list \<Rightarrow> player_id \<Rightarrow> u16 \<Rightarrow> party \<Rightarrow> party" where
  "addPlayerSupply pr x item pa = (case pa_leader pa of None \<Rightarrow> pa | Some leader \<Rightarrow>
     let price = (if pa_priceType pa = LEADER_PRICE then getItemCustomPrice pr leader item True
                  else getItemMarketPrice pr [(item, 1)] True)
     in pa\<lparr>pa_data := upd_analyzer x (\<lambda>a. a\<lparr>an_supplyMap := map_increase item 1 (an_supplyMap a),
          an_supplyPrice := an_supplyPrice a + price\<rparr>) (pa_data pa)\<rparr>)"

definition addPlayerDamage :: "player_id \<Rightarrow> u64 \<Rightarrow> party \<Rightarrow> party" where
  "addPlayerDamage x amount pa = pa\<lparr>pa_data := upd_analyzer x (\<lambda>a. a\<lparr>an_damage := an_damage a + amount\<rparr>) (pa_data pa)\<rparr>"

definition addPlayerHealing :: "player_id \<Rightarrow> u64 \<Rightarrow> party \<Rightarrow> party" where
  "addPlayerHealing x amount pa = pa\<lparr>pa_data := upd_analyzer x (\<lambda>a. a\<lparr>an_healing := an_healing a + amount\<rparr>) (pa_data pa)\<rparr>"

definition custom_total :: "price_list \<Rightarrow> player_id \<Rightarrow> bool \<Rightarrow> (u16 \<times> u64) list \<Rightarrow> u64" where
  "custom_total pr leader buyPrice m = fold (\<lambda>(item, n) t. t + getItemCustomPrice pr leader item buyPrice * n) m 0"

definition reloadPrices :: "price_list \<Rightarrow> party \<Rightarrow> party" where
  "reloadPrices pr pa = (case pa_leader pa of None \<Rightarrow> pa | Some leader \<Rightarrow>
     pa\<lparr>pa_data := List.map (\<lambda>a.
       if pa_priceType pa = MARKET_PRICE
       then a\<lparr>an_lootPrice := getItemMarketPrice pr (an_lootMap a) False,
              an_supplyPrice := getItemMarketPrice pr (an_supplyMap a) True\<rparr>
       else a\<lparr>an_lootPrice := custom_total pr leader False (an_lootMap a),
              an_supplyPrice := custom_total pr leader True (an_supplyMap a)\<rparr>) (pa_data pa)\<rparr>)"

definition switchAnalyzerPriceType :: "price_list \<Rightarrow> party \<Rightarrow> party" where
  "switchAnalyzerPriceType pr pa = (if pa_leader pa = None then pa
     else reloadPrices pr (pa\<lparr>pa_priceType := (if pa_priceType pa = LEADER_PRICE then MARKET_PRICE else LEADER_PRICE)\<rparr>))"

definition resetAnalyzer :: "int \<Rightarrow> party \<Rightarrow> party" where
  "resetAnalyzer now pa = pa\<lparr>pa_tracker := now, pa_data := []\<rparr>"

text \<open>The totals are sums, so they may be kept up to date one item at a time.\<close>

definition market_value :: "price_list \<Rightarrow> bool \<Rightarrow> u16 \<Rightarrow> u64" where
  "market_value pr buyPrice item = getItemMarketPrice pr [(item, 1)] buyPrice"

lemma fold_tiers: "fold (\<lambda>(tier, price) total. total + price * n) tiers t = t + (\<Sum>(tier, price)\<leftarrow>tiers. price) * (n :: u64)"
  by (induction tiers arbitrary: t) (auto simp: algebra_simps)

lemma market_price_sum:
  "getItemMarketPrice pr m buyPrice = (\<Sum>(item, n)\<leftarrow>m. market_value pr buyPrice item * n)"
proof -
  define F where "F = (\<lambda>(item, n) total.
     if item = ITEM_GOLD_COIN then total + n
     else if item = ITEM_PLATINUM_COIN then total + 100 * n
     else if item = ITEM_CRYSTAL_COIN then total + 10000 * n
     else (case pr_market pr item of
         Some tiers \<Rightarrow> fold (\<lambda>(tier, price) total. total + price * n) tiers total
       | None \<Rightarrow> total + ucast (if buyPrice then pr_buy pr item else pr_sell pr item) * n) :: u64)"
  have v: "market_value pr buyPrice item = F (item, 1) 0" for item
    by (simp add: market_value_def getItemMarketPrice_def F_def)
  have s: "F (item, n) t = t + market_value pr buyPrice item * n" for item n t
    unfolding v by (cases "pr_market pr item") (simp_all add: F_def fold_tiers [of n for n] fold_tiers [of 1, simplified])
  have "fold F m t = t + (\<Sum>(item, n)\<leftarrow>m. market_value pr buyPrice item * n)" for t
    by (induction m arbitrary: t) (auto simp: s)
  then show ?thesis by (simp add: getItemMarketPrice_def F_def)
qed

lemma custom_total_sum:
  "custom_total pr l buyPrice m = (\<Sum>(item, n)\<leftarrow>m. getItemCustomPrice pr l item buyPrice * n)"
proof -
  have "fold (\<lambda>(item, n) t. t + getItemCustomPrice pr l item buyPrice * n) m t =
      t + (\<Sum>(item, n)\<leftarrow>m. getItemCustomPrice pr l item buyPrice * n)" for t
    by (induction m arbitrary: t) auto
  then show ?thesis by (simp add: custom_total_def)
qed

lemma map_increase_sum:
  "(\<Sum>(item, n)\<leftarrow>map_increase k c m. f item * n) = (\<Sum>(item, n)\<leftarrow>m. f item * n) + f k * (c :: u64)"
  by (induction k c m rule: map_increase.induct) (auto simp: algebra_simps)

definition total_price :: "price_list \<Rightarrow> party \<Rightarrow> bool \<Rightarrow> (u16 \<times> u64) list \<Rightarrow> u64" where
  "total_price pr pa buyPrice m = (case pa_leader pa of
     Some l \<Rightarrow> if pa_priceType pa = LEADER_PRICE then custom_total pr l buyPrice m else getItemMarketPrice pr m buyPrice
   | None \<Rightarrow> 0)"

definition prices_current :: "price_list \<Rightarrow> party \<Rightarrow> bool" where
  "prices_current pr pa \<longleftrightarrow> (\<forall>a\<in>set (pa_data pa).
     an_lootPrice a = total_price pr pa False (an_lootMap a) \<and> an_supplyPrice a = total_price pr pa True (an_supplyMap a))"

lemma total_price_increase:
  "total_price pr pa b (map_increase k n m) = total_price pr pa b m + total_price pr pa b [(k, n)]"
  by (simp add: total_price_def custom_total_sum market_price_sum map_increase_sum split: option.splits)

lemma total_price_Nil [simp]: "total_price pr pa b [] = 0"
  by (simp add: total_price_def custom_total_sum market_price_sum split: option.splits)

lemma upd_analyzer_all:
  "(\<forall>a\<in>set as. P a) \<Longrightarrow> P (new_analyzer x) \<Longrightarrow> (\<And>a. P a \<Longrightarrow> P (f a)) \<Longrightarrow> \<forall>a\<in>set (upd_analyzer x f as). P a"
  by (induction as) auto

lemma total_price_data [simp]: "total_price pr (pa\<lparr>pa_data := d\<rparr>) = total_price pr pa"
  by (intro ext) (simp add: total_price_def split: option.splits)

lemma addPlayerLoot_eq:
  assumes "pa_leader pa = Some l"
  obtains c where "addPlayerLoot pr x item n pa = pa\<lparr>pa_data := upd_analyzer x (\<lambda>a. a\<lparr>an_lootMap :=
    map_increase item c (an_lootMap a), an_lootPrice := an_lootPrice a + total_price pr pa False [(item, c)]\<rparr>) (pa_data pa)\<rparr>"
proof
  show "addPlayerLoot pr x item n pa = pa\<lparr>pa_data := upd_analyzer x (\<lambda>a. a\<lparr>an_lootMap :=
      map_increase item (ucast (max 1 (ucast n :: u32))) (an_lootMap a), an_lootPrice :=
      an_lootPrice a + total_price pr pa False [(item, ucast (max 1 (ucast n :: u32)))]\<rparr>) (pa_data pa)\<rparr>"
    using assms by (simp add: addPlayerLoot_def Let_def total_price_def custom_total_def)
qed

lemma addPlayerSupply_eq:
  "pa_leader pa = Some l \<Longrightarrow> addPlayerSupply pr x item pa = pa\<lparr>pa_data := upd_analyzer x (\<lambda>a. a\<lparr>an_supplyMap :=
    map_increase item 1 (an_supplyMap a), an_supplyPrice := an_supplyPrice a + total_price pr pa True [(item, 1)]\<rparr>) (pa_data pa)\<rparr>"
  by (simp add: addPlayerSupply_def Let_def total_price_def custom_total_def)

lemma prices_current_upd:
  assumes "prices_current pr pa"
    and "\<And>a. an_lootPrice a = total_price pr pa False (an_lootMap a) \<and> an_supplyPrice a = total_price pr pa True (an_supplyMap a)
      \<Longrightarrow> an_lootPrice (f a) = total_price pr pa False (an_lootMap (f a)) \<and> an_supplyPrice (f a) = total_price pr pa True (an_supplyMap (f a))"
  shows "prices_current pr (pa\<lparr>pa_data := upd_analyzer x f (pa_data pa)\<rparr>)"
proof -
  let ?P = "\<lambda>a. an_lootPrice a = total_price pr pa False (an_lootMap a) \<and> an_supplyPrice a = total_price pr pa True (an_supplyMap a)"
  have "\<forall>a\<in>set (upd_analyzer x f (pa_data pa)). ?P a"
    using assms(1) by (intro upd_analyzer_all assms(2)) (simp_all add: prices_current_def new_analyzer_def)
  then show ?thesis by (simp add: prices_current_def)
qed

text \<open>The analyzer's running totals are always what a full recomputation from the recorded
  loot and supplies would give, at either kind of price: every operation keeps them current, and on
  current totals a reload changes nothing.\<close>

lemma analyzer_totals_current:
  assumes "prices_current pr pa" and "pa_leader pa = Some l"
  shows "prices_current pr (addPlayerLoot pr x item n pa) \<and> prices_current pr (addPlayerSupply pr x item pa)
    \<and> prices_current pr (addPlayerDamage x amount pa) \<and> prices_current pr (switchAnalyzerPriceType pr pa)
    \<and> reloadPrices pr pa = pa"
proof (intro conjI)
  obtain c where "addPlayerLoot pr x item n pa = pa\<lparr>pa_data := upd_analyzer x (\<lambda>a. a\<lparr>an_lootMap :=
    map_increase item c (an_lootMap a), an_lootPrice := an_lootPrice a + total_price pr pa False [(item, c)]\<rparr>) (pa_data pa)\<rparr>"
    using addPlayerLoot_eq [OF assms(2)] .
  then show "prices_current pr (addPlayerLoot pr x item n pa)"
    using prices_current_upd [OF assms(1)] by (simp add: total_price_increase)
  show "prices_current pr (addPlayerSupply pr x item pa)"
    unfolding addPlayerSupply_eq [OF assms(2)]
    by (rule prices_current_upd [OF assms(1)]) (simp add: total_price_increase)
  show "prices_current pr (addPlayerDamage x amount pa)"
    unfolding addPlayerDamage_def by (rule prices_current_upd [OF assms(1)]) simp
  show "prices_current pr (switchAnalyzerPriceType pr pa)"
    using assms by (auto simp: prices_current_def switchAnalyzerPriceType_def reloadPrices_def total_price_def)
  show "reloadPrices pr pa = pa"
  proof -
    have "(if pa_priceType pa = MARKET_PRICE
       then a\<lparr>an_lootPrice := getItemMarketPrice pr (an_lootMap a) False,
              an_supplyPrice := getItemMarketPrice pr (an_supplyMap a) True\<rparr>
       else a\<lparr>an_lootPrice := custom_total pr l False (an_lootMap a),
              an_supplyPrice := custom_total pr l True (an_supplyMap a)\<rparr>) = a" if "a \<in> set (pa_data pa)" for a
      using assms that by (cases "pa_priceType pa") (auto simp: prices_current_def total_price_def)
    then show ?thesis using assms(2) by (simp add: reloadPrices_def map_idI)
  qed
qed

definition sample_prices :: price_list where
  "sample_prices = \<lparr>pr_market = (\<lambda>_. None), pr_buy = (\<lambda>_. 5), pr_sell = (\<lambda>_. 3), pr_custom = (\<lambda>_ _. None)\<rparr>"

theorem analyzer_totals_current_witness:
  "prices_current sample_prices (addPlayerLoot sample_prices 2 3031 7 (new_party sample_env 1))"
proof -
  have "prices_current sample_prices (new_party sample_env 1)" "pa_leader (new_party sample_env 1) = Some 1"
    by (simp_all add: prices_current_def new_party_def)
  then show ?thesis using analyzer_totals_current by blast
qed

end
