(* ===== verification/Sight.thy ===== *)
theory Sight
  imports Positions
begin

text \<open>
  Lines of sight on the map (\<open>map/map.cpp\<close>). The map is an argument: what the code reads of the
  tile at a position. The loops whose end is not evident are partial functions; that they end is
  proved here.
\<close>

subsection \<open>Tiles, as the map code sees them\<close>

record tile_field =
  tf_combat :: nat
  tf_blocking :: bool
  tf_damage :: int

record path_tile =
  pt_blockSolid :: bool
  pt_blockProjectile :: bool
  pt_thingCount :: nat
  pt_topCreature :: bool
  pt_field :: "tile_field option"

type_synonym tile_map = "position \<Rightarrow> path_tile option"

subsection \<open>Lines of sight\<close>

definition sgn_to :: "u16 \<Rightarrow> u16 \<Rightarrow> int" where
  "sgn_to a b = (if a < b then 1 else if a = b then 0 else -1)"

definition sight_deviations :: "int \<Rightarrow> int \<Rightarrow> int \<Rightarrow> int \<Rightarrow> int \<Rightarrow> int \<Rightarrow> int \<Rightarrow> int \<times> int \<times> int" where
  \<comment> \<open>\<open>move_hor\<close>, \<open>move_ver\<close> and \<open>move_cross\<close>\<close>
  "sight_deviations A B C mx my x y =
     (\<bar>A * (x + mx) + B * y + C\<bar>, \<bar>A * x + B * (y + my) + C\<bar>, \<bar>A * (x + mx) + B * (y + my) + C\<bar>)"

text \<open>One round of the loop: both tests read the deviations computed before either move.\<close>

definition sight_step :: "int \<Rightarrow> int \<Rightarrow> int \<Rightarrow> int \<Rightarrow> int \<Rightarrow> u16 \<Rightarrow> u16 \<Rightarrow> u16 \<Rightarrow> u16 \<Rightarrow> u16 \<times> u16" where
  "sight_step A B C mx my dx dy x y =
     (case sight_deviations A B C mx my (uint x) (uint y) of (hor, ver, cross) \<Rightarrow>
        let y1 = (if y \<noteq> dy \<and> (x = dx \<or> hor > ver \<or> hor > cross) then y + of_int my else y);
            x1 = (if x \<noteq> dx \<and> (y1 = dy \<or> ver > hor \<or> ver > cross) then x + of_int mx else x)
        in (x1, y1))"

partial_function (option) sight_xy ::
    "tile_map \<Rightarrow> int \<Rightarrow> int \<Rightarrow> int \<Rightarrow> int \<Rightarrow> int \<Rightarrow> position \<Rightarrow> position \<Rightarrow> (bool \<times> position) option" where
  "sight_xy m A B C mx my start dest =
     (if px start \<noteq> px dest \<or> py start \<noteq> py dest then
        (case sight_step A B C mx my (px dest) (py dest) (px start) (py start) of (x, y) \<Rightarrow>
           let s = Position x y (pz start) in
           (case m s of
              Some t \<Rightarrow> if pt_blockProjectile t then Some (False, s) else sight_xy m A B C mx my s dest
            | None \<Rightarrow> sight_xy m A B C mx my s dest))
      else Some (True, start))"

partial_function (option) sight_floors :: "tile_map \<Rightarrow> position \<Rightarrow> u8 \<Rightarrow> bool option" where
  "sight_floors m start z =
     (if pz start \<noteq> z then
        (case m start of
           Some t \<Rightarrow> if pt_thingCount t > 0 then Some False
                     else sight_floors m (Position (px start) (py start) (pz start + 1)) z
         | None \<Rightarrow> sight_floors m (Position (px start) (py start) (pz start + 1)) z)
      else Some True)"

definition checkSightLine :: "tile_map \<Rightarrow> position \<Rightarrow> position \<Rightarrow> bool option" where
  "checkSightLine m fromPos toPos =
     (if fromPos = toPos then Some True
      else
        let start = (if pz fromPos > pz toPos then toPos else fromPos);
            destination = (if pz fromPos > pz toPos then fromPos else toPos);
            mx = sgn_to (px start) (px destination);
            my = sgn_to (py start) (py destination);
            A = getOffsetY destination start;
            B = getOffsetX start destination;
            C = -(A * getX destination + B * getY destination)
        in case sight_xy m A B C mx my start destination of
             None \<Rightarrow> None
           | Some (False, _) \<Rightarrow> Some False
           | Some (True, s) \<Rightarrow> sight_floors m s (pz destination))"

definition isSightClear :: "tile_map \<Rightarrow> position \<Rightarrow> position \<Rightarrow> bool \<Rightarrow> bool option" where
  "isSightClear m fromPos toPos floorCheck =
     (if floorCheck \<and> pz fromPos \<noteq> pz toPos then Some False
      else case checkSightLine m fromPos toPos of
          None \<Rightarrow> None
        | Some True \<Rightarrow> Some True
        | Some False \<Rightarrow> checkSightLine m toPos fromPos)"

definition MAP_INIT_SURFACE_LAYER :: int where "MAP_INIT_SURFACE_LAYER = 7"
definition MAP_LAYER_VIEW_LIMIT :: int where "MAP_LAYER_VIEW_LIMIT = 2"

definition canThrowObjectTo :: "tile_map \<Rightarrow> position \<Rightarrow> position \<Rightarrow> bool \<Rightarrow> int \<Rightarrow> int \<Rightarrow> bool option" where
  "canThrowObjectTo m fromPos toPos checkLineOfSight rangex rangey =
     (if (getZ fromPos \<ge> 8 \<and> getZ toPos \<le> MAP_INIT_SURFACE_LAYER)
        \<or> (getZ toPos \<ge> MAP_INIT_SURFACE_LAYER + 1 \<and> getZ fromPos \<le> MAP_INIT_SURFACE_LAYER) then Some False
      else let deltaz = getDistanceZ fromPos toPos in
        if deltaz > MAP_LAYER_VIEW_LIMIT then Some False
        else if getDistanceX fromPos toPos - deltaz > rangex then Some False
        else if getDistanceY fromPos toPos - deltaz > rangey then Some False
        else if \<not> checkLineOfSight then Some True
        else isSightClear m fromPos toPos False)"

subsection \<open>Lines of sight end\<close>

definition towards :: "u16 \<Rightarrow> u16 \<Rightarrow> int \<Rightarrow> bool" where
  \<comment> \<open>the destination is reached or still lies ahead\<close>
  "towards x dx mx \<longleftrightarrow> x = dx \<or> mx = sgn_to x dx"

definition between :: "u16 \<Rightarrow> u16 \<Rightarrow> u16 \<Rightarrow> bool" where
  "between a b x \<longleftrightarrow> min a b \<le> x \<and> x \<le> max a b"

definition gap :: "u16 \<Rightarrow> u16 \<Rightarrow> nat" where
  "gap a b = nat \<bar>uint a - uint b\<bar>"

lemma uint_step:
  assumes "0 \<le> uint (x :: u16) + m" and "uint x + m < 2 ^ 16"
  shows "uint (x + of_int m) = uint x + m"
proof -
  have "x + of_int m = of_int (uint x + m)" by simp
  then show ?thesis using assms by (simp only: uint_word_of_int take_bit_eq_mod) (simp add: mod_pos_pos_trivial)
qed

lemma uint_u16: "0 \<le> uint (x :: u16) \<and> uint x < 2 ^ 16"
  using uint_lt2p [of x] by simp

lemma step_towards:
  assumes "mx = sgn_to x d" and "x \<noteq> d"
  shows "towards (x + of_int mx) d mx" "between x d (x + of_int mx)" "gap (x + of_int mx) d < gap x d"
proof -
  have m: "mx = (if uint x < uint d then 1 else -1)" "uint x \<noteq> uint d"
    using assms by (auto simp: sgn_to_def word_less_def word_uint_eq_iff)
  have u: "uint (x + of_int mx) = uint x + mx"
  proof -
    have "mx = 1 \<and> uint x < uint d \<or> mx = -1 \<and> uint d < uint x" using m by auto
    then show ?thesis using uint_u16 [of x] uint_u16 [of d] by (intro uint_step; linarith)
  qed
  have "towards (x + of_int mx) d mx \<and> between x d (x + of_int mx) \<and> gap (x + of_int mx) d < gap x d"
    using m unfolding towards_def between_def gap_def sgn_to_def min_def max_def word_less_def word_le_def word_uint_eq_iff u
    by (auto split: if_splits)
  then show "towards (x + of_int mx) d mx" "between x d (x + of_int mx)" "gap (x + of_int mx) d < gap x d" by simp_all
qed

lemma deviation_progress:
  fixes e p q :: int
  assumes "p < 0 \<and> 0 < q \<or> 0 < p \<and> q < 0"
  shows "\<bar>e + p\<bar> > \<bar>e + q\<bar> \<or> \<bar>e + p\<bar> > \<bar>e + p + q\<bar> \<or> \<bar>e + q\<bar> > \<bar>e + p\<bar> \<or> \<bar>e + q\<bar> > \<bar>e + p + q\<bar>"
  using assms by linarith

lemma sgn_to_sign: "sgn_to a b = sgn (uint b - uint a)"
  by (auto simp: sgn_to_def word_less_def word_uint_eq_iff sgn_if)

lemma move_towards:
  assumes "y1 = y \<or> y \<noteq> dy \<and> y1 = y + of_int my" and "towards y dy my"
  shows "towards y1 dy my \<and> between y dy y1 \<and> gap y1 dy \<le> gap y dy \<and> (y1 \<noteq> y \<longrightarrow> gap y1 dy < gap y dy)"
proof (cases "y1 = y")
  case True
  then show ?thesis using assms(2) by (auto simp: between_def min_def max_def)
next
  case False
  then have y: "y1 = y + of_int my" "my = sgn_to y dy" "y \<noteq> dy" using assms by (auto simp: towards_def)
  then show ?thesis using step_towards [OF y(2,3)] by simp
qed

text \<open>Every round moves the point, and only towards the destination.\<close>

lemma sight_step_moves:
  assumes A: "sgn A = my" and B: "sgn B = - mx" and x: "towards x dx mx" and y: "towards y dy my" and ne: "x \<noteq> dx \<or> y \<noteq> dy"
    and r: "sight_step A B C mx my dx dy x y = (x1, y1)"
  shows "towards x1 dx mx \<and> towards y1 dy my \<and> between x dx x1 \<and> between y dy y1
    \<and> gap x1 dx + gap y1 dy < gap x dx + gap y dy"
proof -
  let ?X = "uint x" and ?Y = "uint y"
  let ?hor = "\<bar>A * (?X + mx) + B * ?Y + C\<bar>" and ?ver = "\<bar>A * ?X + B * (?Y + my) + C\<bar>"
    and ?cross = "\<bar>A * (?X + mx) + B * (?Y + my) + C\<bar>"
  have y1: "y1 = (if y \<noteq> dy \<and> (x = dx \<or> ?hor > ?ver \<or> ?hor > ?cross) then y + of_int my else y)"
    and x1: "x1 = (if x \<noteq> dx \<and> (y1 = dy \<or> ?ver > ?hor \<or> ?ver > ?cross) then x + of_int mx else x)"
    using r by (auto simp: sight_step_def sight_deviations_def Let_def)
  have "y1 = y \<or> y \<noteq> dy \<and> y1 = y + of_int my" "x1 = x \<or> x \<noteq> dx \<and> x1 = x + of_int mx"
    using y1 x1 by (auto split: if_splits)
  from move_towards [OF this(1) y] move_towards [OF this(2) x]
  have py: "towards y1 dy my \<and> between y dy y1 \<and> gap y1 dy \<le> gap y dy \<and> (y1 \<noteq> y \<longrightarrow> gap y1 dy < gap y dy)"
    and px: "towards x1 dx mx \<and> between x dx x1 \<and> gap x1 dx \<le> gap x dx \<and> (x1 \<noteq> x \<longrightarrow> gap x1 dx < gap x dx)"
    by blast+
  have "x1 \<noteq> x \<or> y1 \<noteq> y"
  proof (rule ccontr)
    assume "\<not> (x1 \<noteq> x \<or> y1 \<noteq> y)"
    then have eq: "x1 = x" "y1 = y" by simp_all
    have xs: "x + of_int mx \<noteq> x" if "x \<noteq> dx" using step_towards(3) [of mx x dx] that x by (auto simp: towards_def)
    have ys: "y + of_int my \<noteq> y" if "y \<noteq> dy" using step_towards(3) [of my y dy] that y by (auto simp: towards_def)
    have nx: "x \<noteq> dx \<longrightarrow> y \<noteq> dy \<and> \<not> ?ver > ?hor \<and> \<not> ?ver > ?cross"
      using x1 xs unfolding eq by metis
    have ny: "y \<noteq> dy \<longrightarrow> x \<noteq> dx \<and> \<not> ?hor > ?ver \<and> \<not> ?hor > ?cross"
      using y1 ys unfolding eq by metis
    have b: "x \<noteq> dx" "y \<noteq> dy" using ne nx ny by blast+
    have d: "\<not> ?ver > ?hor" "\<not> ?ver > ?cross" "\<not> ?hor > ?ver" "\<not> ?hor > ?cross" using nx ny b by blast+
    have "mx \<noteq> 0" "my \<noteq> 0" using b x y by (auto simp: towards_def sgn_to_def split: if_splits)
    moreover have "mx = 1 \<or> mx = 0 \<or> mx = -1" "my = 1 \<or> my = 0 \<or> my = -1"
      using A B by (auto simp: sgn_if split: if_splits)
    ultimately have "A * mx < 0 \<and> 0 < B * my \<or> 0 < A * mx \<and> B * my < 0"
      using A B by (auto simp: sgn_if split: if_splits)
    from deviation_progress [OF this, of "A * ?X + B * ?Y + C"] show False
      using d by (simp add: algebra_simps)
  qed
  then show ?thesis using px py by auto
qed

definition blocks :: "tile_map \<Rightarrow> position \<Rightarrow> bool" where
  "blocks m p \<longleftrightarrow> (\<exists>t. m p = Some t \<and> pt_blockProjectile t)"

lemma between_trans: "between a d b \<Longrightarrow> between b d c \<Longrightarrow> between a d c"
  by (auto simp: between_def min_def max_def split: if_splits)

lemma sight_xy_returns:
  assumes "sgn A = my" and "sgn B = - mx" and "towards x (px dest) mx" and "towards y (py dest) my"
  shows "\<exists>b s. sight_xy m A B C mx my (Position x y z) dest = Some (b, s) \<and> pz s = z
    \<and> (b \<longrightarrow> s = Position (px dest) (py dest) z \<and> ((x, y) \<noteq> (px dest, py dest) \<longrightarrow> \<not> blocks m s))
    \<and> (\<not> b \<longrightarrow> blocks m s \<and> between x (px dest) (px s) \<and> between y (py dest) (py s))"
  using assms(3,4)
proof (induction "gap x (px dest) + gap y (py dest)" arbitrary: x y rule: less_induct)
  case less
  show ?case
  proof (cases "x \<noteq> px dest \<or> y \<noteq> py dest")
    case False
    then have "sight_xy m A B C mx my (Position x y z) dest = Some (True, Position x y z)"
      by (subst sight_xy.simps) simp
    then show ?thesis using False by auto
  next
    case True
    obtain x1 y1 where r: "sight_step A B C mx my (px dest) (py dest) x y = (x1, y1)" by fastforce
    have s: "towards x1 (px dest) mx" "towards y1 (py dest) my" "between x (px dest) x1" "between y (py dest) y1"
      "gap x1 (px dest) + gap y1 (py dest) < gap x (px dest) + gap y (py dest)"
      using sight_step_moves [OF assms(1,2) less.prems True r] by simp_all
    have u: "sight_xy m A B C mx my (Position x y z) dest =
        (if blocks m (Position x1 y1 z) then Some (False, Position x1 y1 z) else sight_xy m A B C mx my (Position x1 y1 z) dest)"
      using True r by (auto simp: sight_xy.simps [of m A B C mx my "Position x y z"] blocks_def Let_def split: option.splits)
    show ?thesis
    proof (cases "blocks m (Position x1 y1 z)")
      case True
      then show ?thesis using u s by auto
    next
      case False
      obtain b s' where ih: "sight_xy m A B C mx my (Position x1 y1 z) dest = Some (b, s')" "pz s' = z"
        "b \<longrightarrow> s' = Position (px dest) (py dest) z \<and> ((x1, y1) \<noteq> (px dest, py dest) \<longrightarrow> \<not> blocks m s')"
        "\<not> b \<longrightarrow> blocks m s' \<and> between x1 (px dest) (px s') \<and> between y1 (py dest) (py s')"
        using less.hyps [OF s(5) s(1,2)] by blast
      have "b \<longrightarrow> \<not> blocks m s'" using ih(3) False by auto
      then show ?thesis using u False ih s between_trans by auto
    qed
  qed
qed

lemma sight_floors_returns: "\<exists>b. sight_floors m p z = Some b"
proof (induction "unat (z - pz p)" arbitrary: p rule: less_induct)
  case less
  show ?case
  proof (cases "pz p = z")
    case True
    then have "sight_floors m p z = Some True" by (subst sight_floors.simps) simp
    then show ?thesis by blast
  next
    case False
    have "z - (pz p + 1) = (z - pz p) - 1" by simp
    moreover have "z - pz p \<noteq> 0" using False by simp
    ultimately have "unat (z - (pz p + 1)) < unat (z - pz p)"
      by (metis measure_unat)
    then show ?thesis
      using less [of "Position (px p) (py p) (pz p + 1)"] False
      by (subst sight_floors.simps) (auto split: option.splits)
  qed
qed

lemma checkSightLine_cases:
  assumes "fromPos \<noteq> toPos" and "pz fromPos \<le> pz toPos"
  shows "\<exists>b s. checkSightLine m fromPos toPos = (if b then sight_floors m s (pz toPos) else Some False)
    \<and> pz s = pz fromPos
    \<and> (b \<longrightarrow> s = Position (px toPos) (py toPos) (pz fromPos)
      \<and> ((px fromPos, py fromPos) \<noteq> (px toPos, py toPos) \<longrightarrow> \<not> blocks m s))
    \<and> (\<not> b \<longrightarrow> blocks m s \<and> between (px fromPos) (px toPos) (px s) \<and> between (py fromPos) (py toPos) (py s))"
proof -
  let ?mx = "sgn_to (px fromPos) (px toPos)" and ?my = "sgn_to (py fromPos) (py toPos)"
  let ?A = "getOffsetY toPos fromPos" and ?B = "getOffsetX fromPos toPos"
  have s: "sgn ?A = ?my" "sgn ?B = - ?mx"
    by (simp_all add: sgn_to_sign getOffsetY_def getOffsetX_def getX_def getY_def sgn_if)
  have t: "towards (px fromPos) (px toPos) ?mx" "towards (py fromPos) (py toPos) ?my" by (simp_all add: towards_def)
  obtain b s where r: "sight_xy m ?A ?B (-(?A * getX toPos + ?B * getY toPos)) ?mx ?my fromPos toPos = Some (b, s)"
    "pz s = pz fromPos"
    "b \<longrightarrow> s = Position (px toPos) (py toPos) (pz fromPos) \<and> ((px fromPos, py fromPos) \<noteq> (px toPos, py toPos) \<longrightarrow> \<not> blocks m s)"
    "\<not> b \<longrightarrow> blocks m s \<and> between (px fromPos) (px toPos) (px s) \<and> between (py fromPos) (py toPos) (py s)"
    using sight_xy_returns [OF s t, of m _ "pz fromPos"] by (metis position.collapse)
  have "checkSightLine m fromPos toPos = (if b then sight_floors m s (pz toPos) else Some False)"
    using assms r(1) by (simp add: checkSightLine_def Let_def not_less [symmetric])
  then show ?thesis using r by blast
qed

lemma checkSightLine_swap: "pz toPos < pz fromPos \<Longrightarrow> checkSightLine m fromPos toPos = checkSightLine m toPos fromPos"
proof -
  assume "pz toPos < pz fromPos"
  then have "\<not> pz fromPos < pz toPos" and "pz toPos < pz fromPos" by simp_all
  then show ?thesis by (simp add: checkSightLine_def Let_def eq_commute [of fromPos toPos])
qed

lemma checkSightLine_returns: "\<exists>b. checkSightLine m p q = Some b"
proof -
  have a: "\<exists>b. checkSightLine m p q = Some b" if le: "pz p \<le> pz q" for p q
  proof (cases "p = q")
    case False
    obtain b s where "checkSightLine m p q = (if b then sight_floors m s (pz q) else Some False)"
      using checkSightLine_cases [OF False le] by blast
    then show ?thesis using sight_floors_returns [of m s "pz q"] by (cases b) auto
  qed (auto simp: checkSightLine_def)
  show ?thesis
  proof (cases "pz p \<le> pz q")
    case False
    then show ?thesis using a [of q p] checkSightLine_swap [of q p m] by simp
  qed (rule a)
qed

lemma isSightClear_returns: "\<exists>b. isSightClear m p q f = Some b"
  using checkSightLine_returns [of m p q] checkSightLine_returns [of m q p]
  by (auto simp: isSightClear_def split: bool.splits)



definition open_sky :: tile_map where "open_sky = (\<lambda>_. None)"


end
