(* ===== verification/Path_Search.thy ===== *)
theory Path_Search
  imports Sight Std_Ext
begin

text \<open>
  Path finding on the map (\<open>map/map.cpp\<close>, \<open>map/utils/astarnodes.cpp\<close>, and the path condition of
  \<open>creatures/creature.cpp\<close>). The map and the walking creature are arguments: what the code reads of
  a tile, and the answers of \<open>Tile::queryAdd\<close> and of the walk cache.
\<close>

subsection \<open>The creature, as the search sees it\<close>

record walker =
  wk_removed :: bool
  wk_position :: position
  wk_walkCache :: "position \<Rightarrow> int"
  wk_queryAdd :: "position \<Rightarrow> bool"
  wk_immune :: "nat \<Rightarrow> bool"
  wk_hasCondition :: "nat \<Rightarrow> bool"
  wk_monster :: "(nat \<Rightarrow> bool) option"
  wk_player :: bool

subsection \<open>The condition a path must meet\<close>

record find_path_params =
  fp_fullPathSearch :: bool
  fp_clearSight :: bool
  fp_allowDiagonal :: bool
  fp_keepDistance :: bool
  fp_maxSearchDist :: int
  fp_minTargetDist :: int
  fp_maxTargetDist :: int

definition pathing_isInRange :: "position \<Rightarrow> position \<Rightarrow> position \<Rightarrow> find_path_params \<Rightarrow> bool" where
  "pathing_isInRange target startPos testPos fpp =
     (let d = fp_maxTargetDist fpp in
      if fp_fullPathSearch fpp then
        \<not> (getX testPos > getX target + d \<or> getX testPos < getX target - d
         \<or> getY testPos > getY target + d \<or> getY testPos < getY target - d)
      else
        let dx = getOffsetX startPos target; dy = getOffsetY startPos target;
            dxMax = (if dx \<ge> 0 then d else 0); dxMin = (if dx \<le> 0 then d else 0);
            dyMax = (if dy \<ge> 0 then d else 0); dyMin = (if dy \<le> 0 then d else 0)
        in \<not> (getX testPos > getX target + dxMax \<or> getX testPos < getX target - dxMin
         \<or> getY testPos > getY target + dyMax \<or> getY testPos < getY target - dyMin))"

text \<open>\<open>FrozenPathingConditionCall::operator()\<close>, with the best distance so far passed in and out.\<close>

definition pathing_condition ::
    "tile_map \<Rightarrow> position \<Rightarrow> position \<Rightarrow> position \<Rightarrow> find_path_params \<Rightarrow> int \<Rightarrow> (bool \<times> int) option" where
  "pathing_condition m target startPos testPos fpp bestMatchDist =
     (if \<not> pathing_isInRange target startPos testPos fpp then Some (False, bestMatchDist)
      else case (if fp_clearSight fpp then isSightClear m testPos target True else Some True) of
          None \<Rightarrow> None
        | Some False \<Rightarrow> Some (False, bestMatchDist)
        | Some True \<Rightarrow>
            let testDist = max (getDistanceX target testPos) (getDistanceY target testPos) in
            Some (if fp_maxTargetDist fpp = 1 then
                    (if testDist < fp_minTargetDist fpp \<or> testDist > fp_maxTargetDist fpp
                     then (False, bestMatchDist) else (True, bestMatchDist))
                  else if testDist \<le> fp_maxTargetDist fpp then
                    (if testDist < fp_minTargetDist fpp then (False, bestMatchDist)
                     else if testDist = fp_maxTargetDist fpp then (True, 0)
                     else if testDist > bestMatchDist then (True, testDist)
                     else (False, bestMatchDist))
                  else (False, bestMatchDist)))"


subsection \<open>The node table\<close>

record anode =
  nd_parent :: "nat option"
  nd_f :: int
  nd_x :: u16
  nd_y :: u16

text \<open>The arrays hold \<open>curNode\<close> nodes, here the lists' length; a pointer to a node is its index.\<close>

record anodes =
  an_nodes :: "anode list"
  an_open :: "bool list"
  an_table :: "u32 \<rightharpoonup> nat"
  an_closed :: int

definition MAX_NODES :: nat where "MAX_NODES = 512"
definition MAP_NORMALWALKCOST :: int where "MAP_NORMALWALKCOST = 10"
definition MAP_PREFERDIAGONALWALKCOST :: int where "MAP_PREFERDIAGONALWALKCOST = 14"
definition MAP_DIAGONALWALKCOST :: int where "MAP_DIAGONALWALKCOST = 25"

definition node_key :: "u16 \<Rightarrow> u16 \<Rightarrow> u32" where
  "node_key x y = or (push_bit 16 (ucast x)) (ucast y)"

definition astar_new :: "u16 \<Rightarrow> u16 \<Rightarrow> anodes" where
  "astar_new x y = \<lparr>an_nodes = [\<lparr>nd_parent = None, nd_f = 0, nd_x = x, nd_y = y\<rparr>], an_open = [True],
     an_table = [node_key x y \<mapsto> 0], an_closed = 0\<rparr>"

definition createOpenNode :: "nat \<Rightarrow> u16 \<Rightarrow> u16 \<Rightarrow> int \<Rightarrow> anodes \<Rightarrow> anodes option" where
  "createOpenNode parent x y f s =
     (if length (an_nodes s) \<ge> MAX_NODES then None
      else Some (s\<lparr>an_nodes := an_nodes s @ [\<lparr>nd_parent = Some parent, nd_f = f, nd_x = x, nd_y = y\<rparr>],
                   an_open := an_open s @ [True],
                   an_table := (an_table s)(node_key x y \<mapsto> length (an_nodes s))\<rparr>))"

definition getBestNode :: "anodes \<Rightarrow> nat option" where
  "getBestNode s = snd (fold (\<lambda>i (bf, b).
     if an_open s ! i \<and> nd_f (an_nodes s ! i) < bf then (nd_f (an_nodes s ! i), Some i) else (bf, b))
     [0..<length (an_nodes s)] (2 ^ 31 - 1, None))"

definition closeNode :: "nat \<Rightarrow> anodes \<Rightarrow> anodes" where
  "closeNode i s = s\<lparr>an_open := (an_open s)[i := False], an_closed := an_closed s + 1\<rparr>"

definition openNode :: "nat \<Rightarrow> anodes \<Rightarrow> anodes" where
  "openNode i s = (if \<not> an_open s ! i
     then s\<lparr>an_open := (an_open s)[i := True], an_closed := an_closed s - 1\<rparr> else s)"

definition getNodeByPosition :: "u16 \<Rightarrow> u16 \<Rightarrow> anodes \<Rightarrow> nat option" where
  "getNodeByPosition x y s = an_table s (node_key x y)"

definition getMapWalkCost :: "anode \<Rightarrow> position \<Rightarrow> bool \<Rightarrow> int" where
  "getMapWalkCost n p preferDiagonal =
     (if \<bar>uint (nd_x n) - getX p\<bar> = \<bar>uint (nd_y n) - getY p\<bar>
      then (if preferDiagonal then MAP_PREFERDIAGONALWALKCOST else MAP_DIAGONALWALKCOST)
      else MAP_NORMALWALKCOST)"

definition getTileWalkCost :: "walker option \<Rightarrow> path_tile \<Rightarrow> int" where
  "getTileWalkCost creature t = (case creature of None \<Rightarrow> 0 | Some wk \<Rightarrow>
     (if pt_topCreature t then MAP_NORMALWALKCOST * 3 else 0) +
     (case pt_field t of None \<Rightarrow> 0 | Some fd \<Rightarrow>
        (if \<not> wk_immune wk (tf_combat fd) \<and> \<not> wk_hasCondition wk (tf_combat fd)
            \<and> (case wk_monster wk of Some canWalk \<Rightarrow> \<not> canWalk (tf_combat fd) | None \<Rightarrow> False)
         then MAP_NORMALWALKCOST * 18 else 0) +
        (if wk_player wk \<and> \<not> tf_blocking fd \<and> tf_damage fd \<noteq> 0 then MAP_NORMALWALKCOST * 18 else 0)))"

definition canWalkTo :: "tile_map \<Rightarrow> walker option \<Rightarrow> position \<Rightarrow> path_tile option" where
  "canWalkTo m creature p = (case creature of None \<Rightarrow> None | Some wk \<Rightarrow>
     if wk_removed wk then None
     else if wk_walkCache wk p = 0 then None
     else if wk_walkCache wk p = 1 then m p
     else if wk_position wk \<noteq> p \<and> (m p = None \<or> \<not> wk_queryAdd wk p) then None
     else m p)"

subsection \<open>The search\<close>

definition allNeighbors :: "(int \<times> int) list" where
  "allNeighbors = [(-1, 0), (0, 1), (1, 0), (0, -1), (-1, -1), (1, -1), (1, 1), (-1, 1)]"

fun dirNeighbors :: "direction \<Rightarrow> (int \<times> int) list" where
  "dirNeighbors DIRECTION_NORTH = [(-1, 0), (0, 1), (1, 0), (1, 1), (-1, 1)]"
| "dirNeighbors DIRECTION_EAST = [(-1, 0), (0, 1), (0, -1), (-1, -1), (-1, 1)]"
| "dirNeighbors DIRECTION_SOUTH = [(-1, 0), (1, 0), (0, -1), (-1, -1), (1, -1)]"
| "dirNeighbors DIRECTION_WEST = [(0, 1), (1, 0), (0, -1), (1, -1), (1, 1)]"
| "dirNeighbors DIRECTION_SOUTHWEST = [(1, 0), (0, -1), (-1, -1), (1, -1), (1, 1)]"
| "dirNeighbors DIRECTION_SOUTHEAST = [(-1, 0), (0, -1), (-1, -1), (1, -1), (-1, 1)]"
| "dirNeighbors DIRECTION_NORTHWEST = [(0, 1), (1, 0), (1, -1), (1, 1), (-1, 1)]"
| "dirNeighbors DIRECTION_NORTHEAST = [(-1, 0), (0, 1), (-1, -1), (1, 1), (-1, 1)]"
| "dirNeighbors DIRECTION_NONE = []"

definition node_neighbors :: "bool \<Rightarrow> anodes \<Rightarrow> anode \<Rightarrow> (int \<times> int) list" where
  "node_neighbors allowDiagonal s n = (case nd_parent n of
       None \<Rightarrow> allNeighbors
     | Some p \<Rightarrow>
         let offset_x = uint (nd_x (an_nodes s ! p)) - uint (nd_x n);
             offset_y = uint (nd_y (an_nodes s ! p)) - uint (nd_y n)
         in take (if allowDiagonal then 5 else 3)
              (dirNeighbors
                (if offset_y = 0 then (if offset_x = -1 then DIRECTION_WEST else DIRECTION_EAST)
                 else if \<not> allowDiagonal \<or> offset_x = 0 then
                   (if offset_y = -1 then DIRECTION_NORTH else DIRECTION_SOUTH)
                 else if offset_y = -1 then
                   (if offset_x = -1 then DIRECTION_NORTHWEST else DIRECTION_NORTHEAST)
                 else if offset_x = -1 then DIRECTION_SOUTHWEST
                 else DIRECTION_SOUTHEAST)))"

record search =
  se_map :: tile_map
  se_creature :: "walker option"
  se_start :: position
  se_target :: position
  se_params :: find_path_params

text \<open>One neighbor of the node \<open>n\<close>: skipped, improved, or a new node; \<open>None\<close> when the table is full.\<close>

definition neighbor_skipped :: "search \<Rightarrow> position \<Rightarrow> bool" where
  "neighbor_skipped c p \<longleftrightarrow> (let fpp = se_params c in
     (fp_maxSearchDist fpp \<noteq> 0 \<and>
       (getDistanceX (se_start c) p > fp_maxSearchDist fpp \<or> getDistanceY (se_start c) p > fp_maxSearchDist fpp))
   \<or> (fp_keepDistance fpp \<and> \<not> pathing_isInRange (se_target c) (se_start c) p fpp))"

definition visit_neighbor :: "search \<Rightarrow> nat \<Rightarrow> int \<times> int \<Rightarrow> anodes \<Rightarrow> anodes option" where
  "visit_neighbor c n d s =
     (let node = an_nodes s ! n;
          p = Position (nd_x node + of_int (fst d)) (nd_y node + of_int (snd d)) (pz (se_start c))
      in if neighbor_skipped c p then Some s
         else
           let neighbor = getNodeByPosition (px p) (py p) s;
               withoutCreature = (se_creature c = None);
               tile = (if neighbor \<noteq> None \<or> withoutCreature then se_map c p else canWalkTo (se_map c) (se_creature c) p)
           in case tile of
             None \<Rightarrow> Some s
           | Some t \<Rightarrow>
               if neighbor = None \<and> withoutCreature \<and> pt_blockSolid t then Some s
               else
                 let newf = nd_f node + getMapWalkCost node p withoutCreature + getTileWalkCost (se_creature c) t
                 in case neighbor of
                     Some k \<Rightarrow>
                       if nd_f (an_nodes s ! k) \<le> newf then Some s
                       else Some (openNode k (s\<lparr>an_nodes := (an_nodes s)[k :=
                              (an_nodes s ! k)\<lparr>nd_f := newf, nd_parent := Some n\<rparr>]\<rparr>))
                   | None \<Rightarrow> createOpenNode n (px p) (py p) newf s)"

text \<open>\<open>f\<close> and the position of \<open>n\<close> are read before the loop; no neighbor is \<open>n\<close> itself.\<close>

fun visit_all :: "search \<Rightarrow> nat \<Rightarrow> (int \<times> int) list \<Rightarrow> anodes \<Rightarrow> bool \<times> anodes" where
  "visit_all c n [] s = (True, s)"
| "visit_all c n (d # ds) s = (case visit_neighbor c n d s of None \<Rightarrow> (False, s) | Some s1 \<Rightarrow> visit_all c n ds s1)"

datatype found = No_Path | Path_To nat position anodes

definition found_or :: "(nat \<times> position) option \<Rightarrow> anodes \<Rightarrow> found" where
  "found_or fnd s = (case fnd of None \<Rightarrow> No_Path | Some (k, p) \<Rightarrow> Path_To k p s)"

partial_function (option) path_loop :: "search \<Rightarrow> anodes \<Rightarrow> int \<Rightarrow> (nat \<times> position) option \<Rightarrow> found option" where
  "path_loop c s bestMatch fnd =
     (if fp_maxSearchDist (se_params c) \<noteq> 0 \<or> an_closed s < 100 then
        (case getBestNode s of
           None \<Rightarrow> Some (found_or fnd s)
         | Some n \<Rightarrow>
             let node = an_nodes s ! n;
                 p = Position (nd_x node) (nd_y node) (pz (se_start c))
             in Option.bind (pathing_condition (se_map c) (se_target c) (se_start c) p (se_params c) bestMatch) (\<lambda>(ok, bestMatch1).
               if ok \<and> bestMatch1 = 0 then Some (Path_To n p s)
               else
                 let fnd1 = (if ok then Some (n, p) else fnd);
                     (complete, s1) = visit_all c n (node_neighbors (fp_allowDiagonal (se_params c)) s node) s
                 in if \<not> complete \<and> fnd1 = None then Some No_Path
                    else path_loop c (closeNode n s1) bestMatch1 fnd1))
      else Some (found_or fnd s))"

text \<open>The directions, read off the parents from the end to the start.\<close>

definition step_direction :: "int \<Rightarrow> int \<Rightarrow> direction option" where
  "step_direction dx dy =
     (if dx = 1 \<and> dy = 1 then Some DIRECTION_NORTHWEST
      else if dx = -1 \<and> dy = 1 then Some DIRECTION_NORTHEAST
      else if dx = 1 \<and> dy = -1 then Some DIRECTION_SOUTHWEST
      else if dx = -1 \<and> dy = -1 then Some DIRECTION_SOUTHEAST
      else if dx = 1 then Some DIRECTION_WEST
      else if dx = -1 then Some DIRECTION_EAST
      else if dy = 1 then Some DIRECTION_NORTH
      else if dy = -1 then Some DIRECTION_SOUTH
      else None)"

partial_function (option) path_back ::
    "anodes \<Rightarrow> nat option \<Rightarrow> u16 \<Rightarrow> u16 \<Rightarrow> direction arraylist \<Rightarrow> direction arraylist option" where
  "path_back s k prevx prevy dirs = (case k of
       None \<Rightarrow> Some dirs
     | Some i \<Rightarrow>
         let n = an_nodes s ! i
         in path_back s (nd_parent n) (nd_x n) (nd_y n)
              (case step_direction (uint (nd_x n) - uint prevx) (uint (nd_y n) - uint prevy) of
                 None \<Rightarrow> dirs | Some d \<Rightarrow> al_push_front d dirs))"

definition getPathMatching :: "search \<Rightarrow> direction arraylist \<Rightarrow> (bool \<times> direction arraylist) option" where
  "getPathMatching c dirList =
     (case path_loop c (astar_new (px (se_start c)) (py (se_start c))) 0 None of
        None \<Rightarrow> None
      | Some No_Path \<Rightarrow> Some (False, dirList)
      | Some (Path_To k p s) \<Rightarrow>
          map_option (Pair True) (path_back s (nd_parent (an_nodes s ! k)) (px p) (py p) dirList))"

fun getNextPosition :: "direction \<Rightarrow> position \<Rightarrow> position" where
  "getNextPosition DIRECTION_NORTH (Position x y z) = Position x (y - 1) z"
| "getNextPosition DIRECTION_SOUTH (Position x y z) = Position x (y + 1) z"
| "getNextPosition DIRECTION_WEST (Position x y z) = Position (x - 1) y z"
| "getNextPosition DIRECTION_EAST (Position x y z) = Position (x + 1) y z"
| "getNextPosition DIRECTION_SOUTHWEST (Position x y z) = Position (x - 1) (y + 1) z"
| "getNextPosition DIRECTION_NORTHWEST (Position x y z) = Position (x - 1) (y - 1) z"
| "getNextPosition DIRECTION_NORTHEAST (Position x y z) = Position (x + 1) (y - 1) z"
| "getNextPosition DIRECTION_SOUTHEAST (Position x y z) = Position (x + 1) (y + 1) z"
| "getNextPosition DIRECTION_NONE p = p"


subsection \<open>The search ends\<close>

lemma pathing_condition_returns: "\<exists>r. pathing_condition m target start p fpp b = Some r"
  using isSightClear_returns [of m p target True]
  by (auto simp: pathing_condition_def Let_def split: bool.splits)

lemma node_key_parts: "y = ucast (node_key x y)" "x = ucast (drop_bit 16 (node_key x y))"
proof -
  have "\<not> bit x (16 + n)" "\<not> bit y (16 + n)" for n
    using bit_imp_le_length [of x] bit_imp_le_length [of y] by fastforce+
  then show "y = ucast (node_key x y)" "x = ucast (drop_bit 16 (node_key x y))"
    by (auto intro!: bit_word_eqI simp: node_key_def bit_simps)
qed

lemma node_key_inject: "node_key x y = node_key x' y' \<longleftrightarrow> x = x' \<and> y = y'"
  by (metis node_key_parts)

definition node_pos :: "search \<Rightarrow> anodes \<Rightarrow> nat \<Rightarrow> position" where
  "node_pos c s i = Position (nd_x (an_nodes s ! i)) (nd_y (an_nodes s ! i)) (pz (se_start c))"

text \<open>A position the search may step on.\<close>

definition entered :: "search \<Rightarrow> position \<Rightarrow> bool" where
  "entered c p \<longleftrightarrow> (case se_creature c of
     None \<Rightarrow> (\<exists>t. se_map c p = Some t \<and> \<not> pt_blockSolid t)
   | Some wk \<Rightarrow> canWalkTo (se_map c) (se_creature c) p \<noteq> None)"

definition steps_from :: "search \<Rightarrow> nat \<Rightarrow> (int \<times> int) set" where
  "steps_from c i = {d \<in> set allNeighbors. fp_allowDiagonal (se_params c) \<or> i = 0 \<or> fst d = 0 \<or> snd d = 0}"

definition node_ok :: "search \<Rightarrow> anodes \<Rightarrow> nat \<Rightarrow> bool" where
  "node_ok c s i \<longleftrightarrow> (let n = an_nodes s ! i in
     0 \<le> nd_f n \<and>
     (if i = 0 then nd_parent n = None \<and> nd_f n = 0 \<and> node_pos c s 0 = se_start c
      else entered c (node_pos c s i) \<and>
        (\<exists>p d. nd_parent n = Some p \<and> p < length (an_nodes s) \<and> nd_f (an_nodes s ! p) + 10 \<le> nd_f n
           \<and> d \<in> steps_from c p \<and> nd_x n = nd_x (an_nodes s ! p) + of_int (fst d)
           \<and> nd_y n = nd_y (an_nodes s ! p) + of_int (snd d))))"

definition search_inv :: "search \<Rightarrow> anodes \<Rightarrow> bool" where
  "search_inv c s \<longleftrightarrow> 0 < length (an_nodes s) \<and> length (an_nodes s) \<le> MAX_NODES
     \<and> length (an_open s) = length (an_nodes s)
     \<and> (\<forall>i < length (an_nodes s). node_ok c s i)
     \<and> (\<forall>x y i. getNodeByPosition x y s = Some i \<longrightarrow> i < length (an_nodes s)
          \<and> nd_x (an_nodes s ! i) = x \<and> nd_y (an_nodes s ! i) = y)"

definition total_f :: "anodes \<Rightarrow> int" where
  "total_f s = (\<Sum>n\<leftarrow>an_nodes s. nd_f n)"

text \<open>What a visit may do to the table: nothing, add a node, or make a node cheaper.\<close>

definition improves :: "anodes \<Rightarrow> anodes \<Rightarrow> bool" where
  "improves s s' \<longleftrightarrow> length (an_nodes s) \<le> length (an_nodes s')
     \<and> (\<forall>i < length (an_nodes s). nd_x (an_nodes s' ! i) = nd_x (an_nodes s ! i) \<and> nd_y (an_nodes s' ! i) = nd_y (an_nodes s ! i))
     \<and> (s' = s \<or> length (an_nodes s) < length (an_nodes s') \<or> total_f s' < total_f s)"

lemma improves_refl [simp]: "improves s s"
  by (simp add: improves_def)

lemma improves_trans: "improves s s1 \<Longrightarrow> improves s1 s2 \<Longrightarrow> improves s s2"
proof -
  assume a: "improves s s1" and b: "improves s1 s2"
  then have l: "length (an_nodes s) \<le> length (an_nodes s1)" "length (an_nodes s1) \<le> length (an_nodes s2)"
    by (simp_all add: improves_def)
  have "s2 = s \<or> length (an_nodes s) < length (an_nodes s2) \<or> total_f s2 < total_f s"
    using a b l unfolding improves_def by (elim conjE disjE) simp_all
  then show ?thesis using a b l by (simp add: improves_def)
qed

lemma walk_costs: "10 \<le> getMapWalkCost n p b" "0 \<le> getTileWalkCost w t"
  by (auto simp: getMapWalkCost_def getTileWalkCost_def MAP_NORMALWALKCOST_def MAP_PREFERDIAGONALWALKCOST_def
      MAP_DIAGONALWALKCOST_def split: option.splits)

lemma total_f_update:
  "k < length (an_nodes s) \<Longrightarrow> (\<Sum>n\<leftarrow>(an_nodes s)[k := m]. nd_f n) = total_f s - nd_f (an_nodes s ! k) + nd_f m"
  by (simp add: total_f_def map_update sum_list_update_int)

lemma getTile_canWalkTo: "canWalkTo m w p = Some t \<Longrightarrow> m p = Some t"
  by (auto simp: canWalkTo_def split: option.splits if_splits)

lemma openNode_simps [simp]:
  "an_nodes (openNode k s) = an_nodes s" "an_table (openNode k s) = an_table s"
  "length (an_open (openNode k s)) = length (an_open s)"
  by (simp_all add: openNode_def)

lemma search_invD:
  assumes "search_inv c s"
  shows "0 < length (an_nodes s)" "length (an_nodes s) \<le> MAX_NODES" "length (an_open s) = length (an_nodes s)"
    "i < length (an_nodes s) \<Longrightarrow> node_ok c s i"
    "getNodeByPosition x y s = Some i \<Longrightarrow> i < length (an_nodes s) \<and> nd_x (an_nodes s ! i) = x \<and> nd_y (an_nodes s ! i) = y"
  using assms by (simp_all add: search_inv_def)

lemma node_ok_nonneg: "node_ok c s i \<Longrightarrow> 0 \<le> nd_f (an_nodes s ! i)"
  by (simp add: node_ok_def Let_def)

lemma node_ok_root: "node_ok c s 0 \<Longrightarrow> nd_f (an_nodes s ! 0) = 0 \<and> nd_parent (an_nodes s ! 0) = None \<and> node_pos c s 0 = se_start c"
  by (simp add: node_ok_def Let_def)

lemma node_ok_child: "node_ok c s i \<Longrightarrow> i \<noteq> 0 \<Longrightarrow> entered c (node_pos c s i) \<and>
    (\<exists>p d. nd_parent (an_nodes s ! i) = Some p \<and> p < length (an_nodes s)
       \<and> nd_f (an_nodes s ! p) + 10 \<le> nd_f (an_nodes s ! i) \<and> d \<in> steps_from c p
       \<and> nd_x (an_nodes s ! i) = nd_x (an_nodes s ! p) + of_int (fst d)
       \<and> nd_y (an_nodes s ! i) = nd_y (an_nodes s ! p) + of_int (snd d))"
  by (simp add: node_ok_def Let_def)

lemma node_okI:
  assumes "i \<noteq> 0" and "entered c (node_pos c s i)" and "nd_parent (an_nodes s ! i) = Some p"
    and "p < length (an_nodes s)" and "0 \<le> nd_f (an_nodes s ! p)"
    and "nd_f (an_nodes s ! p) + 10 \<le> nd_f (an_nodes s ! i)" and "d \<in> steps_from c p"
    and "nd_x (an_nodes s ! i) = nd_x (an_nodes s ! p) + of_int (fst d)"
    and "nd_y (an_nodes s ! i) = nd_y (an_nodes s ! p) + of_int (snd d)"
  shows "node_ok c s i"
proof -
  have "0 \<le> nd_f (an_nodes s ! i)" using assms(5,6) by simp
  moreover have "\<exists>p d. nd_parent (an_nodes s ! i) = Some p \<and> p < length (an_nodes s)
      \<and> nd_f (an_nodes s ! p) + 10 \<le> nd_f (an_nodes s ! i) \<and> d \<in> steps_from c p
      \<and> nd_x (an_nodes s ! i) = nd_x (an_nodes s ! p) + of_int (fst d)
      \<and> nd_y (an_nodes s ! i) = nd_y (an_nodes s ! p) + of_int (snd d)"
    using assms by blast
  ultimately show ?thesis using assms(1,2) by (simp add: node_ok_def Let_def)
qed

text \<open>A node stays sound when its position and parent are kept, and its parent's cost does not grow.\<close>

lemma node_ok_mono:
  assumes ok: "node_ok c s i" and i: "i < length (an_nodes s)"
    and same: "an_nodes s' ! i = an_nodes s ! i" and len: "length (an_nodes s) \<le> length (an_nodes s')"
    and par: "\<And>p. p < length (an_nodes s) \<Longrightarrow> 0 \<le> nd_f (an_nodes s' ! p) \<and> nd_f (an_nodes s' ! p) \<le> nd_f (an_nodes s ! p)
      \<and> nd_x (an_nodes s' ! p) = nd_x (an_nodes s ! p) \<and> nd_y (an_nodes s' ! p) = nd_y (an_nodes s ! p)"
  shows "node_ok c s' i"
proof (cases "i = 0")
  case True
  then show ?thesis using ok same by (simp add: node_ok_def Let_def node_pos_def)
next
  case False
  obtain p d where p: "nd_parent (an_nodes s ! i) = Some p" "p < length (an_nodes s)"
    "nd_f (an_nodes s ! p) + 10 \<le> nd_f (an_nodes s ! i)" "d \<in> steps_from c p"
    "nd_x (an_nodes s ! i) = nd_x (an_nodes s ! p) + of_int (fst d)"
    "nd_y (an_nodes s ! i) = nd_y (an_nodes s ! p) + of_int (snd d)" and e: "entered c (node_pos c s i)"
    using node_ok_child [OF ok False] by blast
  have e': "entered c (node_pos c s' i)" using e same by (simp add: node_pos_def)
  show ?thesis
    by (rule node_okI [OF False e', of p d]) (use p par [OF p(2)] same len in simp_all)
qed

lemma relax_ok:
  assumes inv: "search_inv c s" and n: "n < length (an_nodes s)" and d: "d \<in> steps_from c n"
    and k: "getNodeByPosition (nd_x (an_nodes s ! n) + of_int (fst d)) (nd_y (an_nodes s ! n) + of_int (snd d)) s = Some k"
    and f: "nd_f (an_nodes s ! n) + 10 \<le> newf" "newf < nd_f (an_nodes s ! k)"
  defines "s1 \<equiv> openNode k (s\<lparr>an_nodes := (an_nodes s)[k := (an_nodes s ! k)\<lparr>nd_f := newf, nd_parent := Some n\<rparr>]\<rparr>)"
  shows "search_inv c s1 \<and> improves s s1"
proof -
  have kl: "k < length (an_nodes s)" "nd_x (an_nodes s ! k) = nd_x (an_nodes s ! n) + of_int (fst d)"
    "nd_y (an_nodes s ! k) = nd_y (an_nodes s ! n) + of_int (snd d)"
    using search_invD(5) [OF inv k] by simp_all
  have fn: "0 \<le> nd_f (an_nodes s ! n)" using node_ok_nonneg search_invD(4) [OF inv n] by blast
  have "nd_f (an_nodes s ! 0) = 0" using node_ok_root [OF search_invD(4) [OF inv search_invD(1) [OF inv]]] by simp
  then have k0: "k \<noteq> 0" using f fn by (cases "k = 0") simp_all
  have kn: "k \<noteq> n" using f by auto
  have e: "entered c (node_pos c s k)" using node_ok_child [OF search_invD(4) [OF inv kl(1)] k0] by blast
  have nd: "an_nodes s1 ! i = (if i = k then (an_nodes s ! k)\<lparr>nd_f := newf, nd_parent := Some n\<rparr> else an_nodes s ! i)" for i
    using kl(1) by (simp add: s1_def nth_list_update)
  have len: "length (an_nodes s1) = length (an_nodes s)" and tab: "an_table s1 = an_table s" by (simp_all add: s1_def)
  have "node_ok c s1 i" if i: "i < length (an_nodes s)" for i
  proof (cases "i = k")
    case True
    have e1: "entered c (node_pos c s1 k)" using e by (simp add: node_pos_def nd)
    show ?thesis unfolding True
      by (rule node_okI [OF k0 e1, of n d]) (use n kn d kl f fn in \<open>simp_all add: nd len\<close>)
  next
    case False
    show ?thesis
      by (rule node_ok_mono [OF search_invD(4) [OF inv i] i])
        (use False f fn node_ok_nonneg search_invD(4) [OF inv] in \<open>auto simp: nd len\<close>)
  qed
  moreover have "getNodeByPosition x y s1 = Some i \<Longrightarrow> i < length (an_nodes s) \<and> nd_x (an_nodes s1 ! i) = x \<and> nd_y (an_nodes s1 ! i) = y" for x y i
    using search_invD(5) [OF inv, of x y i] by (auto simp: getNodeByPosition_def tab nd)
  ultimately have "search_inv c s1"
    using search_invD(1-3) [OF inv] unfolding search_inv_def len by (simp add: s1_def)
  moreover have "total_f s1 < total_f s"
  proof -
    have "total_f s1 = total_f s - nd_f (an_nodes s ! k) + newf"
      using total_f_update [OF kl(1)] by (simp add: s1_def total_f_def)
    then show ?thesis using f by simp
  qed
  ultimately show ?thesis by (simp add: improves_def len nd)
qed

lemma create_ok:
  assumes inv: "search_inv c s" and n: "n < length (an_nodes s)" and d: "d \<in> steps_from c n"
    and x: "x = nd_x (an_nodes s ! n) + of_int (fst d)" and y: "y = nd_y (an_nodes s ! n) + of_int (snd d)"
    and e: "entered c (Position x y (pz (se_start c)))"
    and f: "nd_f (an_nodes s ! n) + 10 \<le> newf" and r: "createOpenNode n x y newf s = Some s1"
  shows "search_inv c s1 \<and> improves s s1"
proof -
  let ?l = "length (an_nodes s)"
  have l: "?l < MAX_NODES" and s1: "s1 = s\<lparr>an_nodes := an_nodes s @ [\<lparr>nd_parent = Some n, nd_f = newf, nd_x = x, nd_y = y\<rparr>],
      an_open := an_open s @ [True], an_table := (an_table s)(node_key x y \<mapsto> ?l)\<rparr>"
    using r by (auto simp: createOpenNode_def split: if_splits)
  have nd: "i < ?l \<Longrightarrow> an_nodes s1 ! i = an_nodes s ! i" for i by (simp add: s1 nth_append)
  have ndl: "an_nodes s1 ! ?l = \<lparr>nd_parent = Some n, nd_f = newf, nd_x = x, nd_y = y\<rparr>" by (simp add: s1)
  have len: "length (an_nodes s1) = ?l + 1" by (simp add: s1)
  have fn: "0 \<le> nd_f (an_nodes s ! n)" using node_ok_nonneg search_invD(4) [OF inv n] by blast
  have ok: "node_ok c s1 i" if "i < length (an_nodes s1)" for i
  proof (cases "i = ?l")
    case True
    have "i \<noteq> 0" using True search_invD(1) [OF inv] by simp
    moreover have "entered c (node_pos c s1 i)" using e True ndl by (simp add: node_pos_def)
    ultimately show ?thesis
      by (rule node_okI [of i c s1 n d]) (use True n d x y f fn in \<open>simp_all add: ndl nd len\<close>)
  next
    case False
    then have i: "i < ?l" using that len by simp
    show ?thesis
      by (rule node_ok_mono [OF search_invD(4) [OF inv i] i])
        (use i node_ok_nonneg search_invD(4) [OF inv] in \<open>auto simp: nd len\<close>)
  qed
  have tab: "getNodeByPosition x' y' s1 = Some i \<Longrightarrow> i < length (an_nodes s1) \<and> nd_x (an_nodes s1 ! i) = x' \<and> nd_y (an_nodes s1 ! i) = y'" for x' y' i
    using search_invD(5) [OF inv, of x' y' i] ndl nd [of i] len
    by (cases "x' = x \<and> y' = y") (auto simp: getNodeByPosition_def s1 node_key_inject)
  have "search_inv c s1"
    using search_invD(1-3) [OF inv] l ok tab unfolding search_inv_def by (simp add: s1)
  then show ?thesis by (simp add: improves_def len nd)
qed

lemma visit_neighbor_ok:
  assumes inv: "search_inv c s" and n: "n < length (an_nodes s)" and d: "d \<in> steps_from c n"
    and v: "visit_neighbor c n d s = Some s1"
  shows "search_inv c s1 \<and> improves s s1"
proof -
  let ?x = "nd_x (an_nodes s ! n) + of_int (fst d)" and ?y = "nd_y (an_nodes s ! n) + of_int (snd d)"
  let ?p = "Position ?x ?y (pz (se_start c))" and ?nb = "getNodeByPosition (nd_x (an_nodes s ! n) + of_int (fst d)) (nd_y (an_nodes s ! n) + of_int (snd d)) s"
  let ?tile = "if ?nb \<noteq> None \<or> se_creature c = None then se_map c ?p else canWalkTo (se_map c) (se_creature c) ?p"
  show ?thesis
  proof (cases "neighbor_skipped c ?p \<or> ?tile = None")
    case True
    then have "s1 = s" using v by (auto simp: visit_neighbor_def Let_def split: if_splits option.splits)
    then show ?thesis using inv by simp
  next
    case False
    then obtain t where t: "?tile = Some t" and ns: "\<not> neighbor_skipped c ?p" by blast
    let ?f = "nd_f (an_nodes s ! n) + getMapWalkCost (an_nodes s ! n) ?p (se_creature c = None) + getTileWalkCost (se_creature c) t"
    have f: "nd_f (an_nodes s ! n) + 10 \<le> ?f"
      using walk_costs(1) [of "an_nodes s ! n" ?p "se_creature c = None"] walk_costs(2) [of "se_creature c" t] by linarith
    have v': "(if ?nb = None \<and> se_creature c = None \<and> pt_blockSolid t then Some s
      else case ?nb of Some k \<Rightarrow> if nd_f (an_nodes s ! k) \<le> ?f then Some s
             else Some (openNode k (s\<lparr>an_nodes := (an_nodes s)[k := (an_nodes s ! k)\<lparr>nd_f := ?f, nd_parent := Some n\<rparr>]\<rparr>))
         | None \<Rightarrow> createOpenNode n ?x ?y ?f s) = Some s1"
      using v ns t unfolding visit_neighbor_def Let_def
      by (simp cong: if_cong option.case_cong)
    show ?thesis
    proof (cases ?nb)
      case None
      show ?thesis
      proof (cases "se_creature c = None \<and> pt_blockSolid t")
        case True
        then show ?thesis using v' None inv by simp
      next
        case no: False
        have e: "entered c ?p" using t no None by (auto simp: entered_def split: option.splits)
        have "createOpenNode n ?x ?y ?f s = Some s1" using v' None no by simp
        then show ?thesis by (rule create_ok [OF inv n d refl refl e f])
      qed
    next
      case (Some k)
      show ?thesis
      proof (cases "nd_f (an_nodes s ! k) \<le> ?f")
        case True
        then show ?thesis using v' Some inv by simp
      next
        case lt: False
        then have "s1 = openNode k (s\<lparr>an_nodes := (an_nodes s)[k := (an_nodes s ! k)\<lparr>nd_f := ?f, nd_parent := Some n\<rparr>]\<rparr>)"
          using v' Some by simp
        then show ?thesis using relax_ok [OF inv n d Some f] lt by simp
      qed
    qed
  qed
qed

lemma visit_all_ok:
  "search_inv c s \<Longrightarrow> n < length (an_nodes s) \<Longrightarrow> set ds \<subseteq> steps_from c n \<Longrightarrow>
    search_inv c (snd (visit_all c n ds s)) \<and> improves s (snd (visit_all c n ds s))"
proof (induction ds arbitrary: s)
  case (Cons d ds)
  show ?case
  proof (cases "visit_neighbor c n d s")
    case None
    then show ?thesis using Cons.prems by simp
  next
    case (Some s1)
    then have s1: "search_inv c s1" "improves s s1" using visit_neighbor_ok [OF Cons.prems(1,2) _ Some] Cons.prems(3) by simp_all
    then have "n < length (an_nodes s1)" using Cons.prems(2) by (simp add: improves_def)
    then show ?thesis using Cons.IH [OF s1(1)] Cons.prems(3) Some improves_trans [OF s1(2)] by simp
  qed
qed simp

lemma node_neighbors_steps:
  assumes "search_inv c s" and "n < length (an_nodes s)"
  shows "set (node_neighbors (fp_allowDiagonal (se_params c)) s (an_nodes s ! n)) \<subseteq> steps_from c n"
proof (cases "nd_parent (an_nodes s ! n)")
  case None
  then have "n = 0" using node_ok_child [OF search_invD(4) [OF assms]] by fastforce
  then show ?thesis using None by (auto simp: node_neighbors_def steps_from_def)
next
  case (Some p)
  have all: "set (take k (dirNeighbors d)) \<subseteq> set allNeighbors" for k d
    by (rule subset_trans [OF set_take_subset]) (cases d; simp add: allNeighbors_def)
  have straight: "d \<in> {DIRECTION_NORTH, DIRECTION_EAST, DIRECTION_SOUTH, DIRECTION_WEST} \<Longrightarrow>
      \<forall>e\<in>set (take 3 (dirNeighbors d)). fst e = 0 \<or> snd e = 0" for d
    by auto
  let ?ox = "uint (nd_x (an_nodes s ! p)) - uint (nd_x (an_nodes s ! n))"
    and ?oy = "uint (nd_y (an_nodes s ! p)) - uint (nd_y (an_nodes s ! n))" and ?a = "fp_allowDiagonal (se_params c)"
  define D where "D = (if ?oy = 0 then (if ?ox = -1 then DIRECTION_WEST else DIRECTION_EAST)
    else if \<not> ?a \<or> ?ox = 0 then (if ?oy = -1 then DIRECTION_NORTH else DIRECTION_SOUTH)
    else if ?oy = -1 then (if ?ox = -1 then DIRECTION_NORTHWEST else DIRECTION_NORTHEAST)
    else if ?ox = -1 then DIRECTION_SOUTHWEST else DIRECTION_SOUTHEAST)"
  have e: "node_neighbors ?a s (an_nodes s ! n) = take (if ?a then 5 else 3) (dirNeighbors D)"
    using Some by (simp add: node_neighbors_def Let_def D_def)
  have "\<not> ?a \<Longrightarrow> D \<in> {DIRECTION_NORTH, DIRECTION_EAST, DIRECTION_SOUTH, DIRECTION_WEST}"
    by (simp add: D_def)
  then show ?thesis
    unfolding e steps_from_def using all [of _ D] straight [of D] by (cases ?a) fastforce+
qed

lemma getBestNode_open:
  "getBestNode s = Some n \<Longrightarrow> n < length (an_nodes s) \<and> an_open s ! n"
proof -
  let ?F = "\<lambda>i (bf, b). if an_open s ! i \<and> nd_f (an_nodes s ! i) < bf then (nd_f (an_nodes s ! i), Some i) else (bf, b)"
  have "snd (fold ?F xs a) = snd a \<or> (\<exists>k\<in>set xs. an_open s ! k \<and> snd (fold ?F xs a) = Some k)" for xs a
  proof (induction xs arbitrary: a)
    case (Cons x xs)
    obtain bf b where a: "a = (bf, b)" by fastforce
    show ?case
      using Cons.IH [of "(nd_f (an_nodes s ! x), Some x)"] Cons.IH [of a] unfolding a
      by (cases "an_open s ! x \<and> nd_f (an_nodes s ! x) < bf") auto
  qed simp
  from this [of "[0..<length (an_nodes s)]" "(2 ^ 31 - 1, None)"]
  show "getBestNode s = Some n \<Longrightarrow> n < length (an_nodes s) \<and> an_open s ! n"
    by (auto simp: getBestNode_def)
qed

lemma closeNode_simps [simp]:
  "an_nodes (closeNode n s) = an_nodes s" "an_table (closeNode n s) = an_table s"
  "an_open (closeNode n s) = (an_open s)[n := False]"
  by (simp_all add: closeNode_def)

lemma closeNode_inv: "search_inv c s \<Longrightarrow> search_inv c (closeNode n s)"
proof -
  have "node_ok c (closeNode n s) i = node_ok c s i" for i by (simp add: node_ok_def node_pos_def)
  then show "search_inv c s \<Longrightarrow> search_inv c (closeNode n s)" by (simp add: search_inv_def getNodeByPosition_def)
qed

definition open_count :: "anodes \<Rightarrow> nat" where
  "open_count s = length (filter id (an_open s))"

lemma count_close: "n < length xs \<Longrightarrow> xs ! n \<Longrightarrow> length (filter id (xs[n := False])) < length (filter id xs)"
proof (induction xs arbitrary: n)
  case (Cons x xs)
  then show ?case by (cases n) auto
qed simp

text \<open>Room in the table, then the cost of the nodes, then the nodes that are open.\<close>

definition search_order :: "(anodes \<times> anodes) set" where
  "search_order = measures [\<lambda>s. MAX_NODES - length (an_nodes s), \<lambda>s. nat (total_f s), open_count]"

lemma total_f_nonneg: "search_inv c s \<Longrightarrow> 0 \<le> total_f s"
  unfolding total_f_def
  by (rule sum_list_nonneg) (auto simp: in_set_conv_nth dest: search_invD(4) [THEN node_ok_nonneg])

lemma search_step_decreases:
  assumes "search_inv c s" and "search_inv c s1" and "improves s s1" and n: "n < length (an_nodes s)" "an_open s ! n"
  shows "(closeNode n s1, s) \<in> search_order"
proof -
  have l: "length (an_nodes s1) \<le> MAX_NODES" "length (an_nodes s) \<le> length (an_nodes s1)" "0 \<le> total_f s1"
    using search_invD(2) [OF assms(2)] total_f_nonneg [OF assms(2)] assms(3) by (simp_all add: improves_def)
  have t: "total_f (closeNode n s1) = total_f s1" by (simp add: total_f_def)
  have o: "s1 = s \<Longrightarrow> open_count (closeNode n s1) < open_count s"
    using count_close [of n "an_open s"] n search_invD(3) [OF assms(1)] by (simp add: open_count_def)
  have "s1 = s \<or> length (an_nodes s) < length (an_nodes s1) \<or> total_f s1 < total_f s"
    using assms(3) by (simp add: improves_def)
  then show ?thesis
    using l o t by (elim disjE) (auto simp: search_order_def)
qed

definition accepted :: "search \<Rightarrow> position \<Rightarrow> bool" where
  "accepted c p \<longleftrightarrow> (\<exists>b b'. pathing_condition (se_map c) (se_target c) (se_start c) p (se_params c) b = Some (True, b'))"

definition found_ok :: "search \<Rightarrow> anodes \<Rightarrow> (nat \<times> position) option \<Rightarrow> bool" where
  "found_ok c s fnd \<longleftrightarrow> (\<forall>k p. fnd = Some (k, p) \<longrightarrow> k < length (an_nodes s) \<and> p = node_pos c s k \<and> accepted c p)"

definition result_ok :: "search \<Rightarrow> found \<Rightarrow> bool" where
  "result_ok c r \<longleftrightarrow> (case r of No_Path \<Rightarrow> True
     | Path_To k p s \<Rightarrow> search_inv c s \<and> k < length (an_nodes s) \<and> p = node_pos c s k \<and> accepted c p)"

lemma found_or_ok: "search_inv c s \<Longrightarrow> found_ok c s fnd \<Longrightarrow> result_ok c (found_or fnd s)"
  by (auto simp: found_or_def found_ok_def result_ok_def split: option.splits)

lemma found_ok_improves: "found_ok c s fnd \<Longrightarrow> improves s s1 \<Longrightarrow> found_ok c (closeNode n s1) fnd"
  by (fastforce simp: found_ok_def improves_def node_pos_def)

lemma wf_search_order: "wf search_order"
  by (simp add: search_order_def)

lemma path_loop_returns:
  "search_inv c s \<Longrightarrow> found_ok c s fnd \<Longrightarrow> \<exists>r. path_loop c s b fnd = Some r \<and> result_ok c r"
proof (induction s arbitrary: b fnd rule: wf_induct_rule [OF wf_search_order])
  case (1 s)
  note inv = "1.prems"(1) and fnd = "1.prems"(2)
  show ?case
  proof (cases "fp_maxSearchDist (se_params c) \<noteq> 0 \<or> an_closed s < 100")
    case False
    then show ?thesis using found_or_ok [OF inv fnd] by (subst path_loop.simps) simp
  next
    case go: True
    show ?thesis
    proof (cases "getBestNode s")
      case None
      then show ?thesis using go found_or_ok [OF inv fnd] by (subst path_loop.simps) simp
    next
      case (Some n)
      then have n: "n < length (an_nodes s)" "an_open s ! n" using getBestNode_open by blast+
      let ?p = "node_pos c s n"
      let ?cond = "pathing_condition (se_map c) (se_target c) (se_start c) ?p (se_params c) b"
      obtain ok b1 where r: "?cond = Some (ok, b1)" using pathing_condition_returns by (metis surj_pair)
      let ?fnd = "if ok then Some (n, ?p) else fnd"
      obtain complete s1 where v: "visit_all c n (node_neighbors (fp_allowDiagonal (se_params c)) s (an_nodes s ! n)) s = (complete, s1)"
        by fastforce
      have s1: "search_inv c s1" "improves s s1"
        using visit_all_ok [OF inv n(1) node_neighbors_steps [OF inv n(1)]] v by simp_all
      have u: "path_loop c s b fnd = (if ok \<and> b1 = 0 then Some (Path_To n ?p s)
          else if \<not> complete \<and> ?fnd = None then Some No_Path else path_loop c (closeNode n s1) b1 ?fnd)"
        using go Some r v by (subst path_loop.simps) (auto simp: node_pos_def Let_def)
      have acc: "ok \<Longrightarrow> accepted c ?p" using r by (auto simp: accepted_def)
      have "found_ok c s ?fnd" using fnd acc n(1) by (simp add: found_ok_def)
      then have "found_ok c (closeNode n s1) ?fnd" using s1(2) by (rule found_ok_improves)
      then have "\<exists>r. path_loop c (closeNode n s1) b1 ?fnd = Some r \<and> result_ok c r"
        using "1.IH" [OF search_step_decreases [OF inv s1 n] closeNode_inv [OF s1(1)]] by blast
      moreover have "ok \<Longrightarrow> result_ok c (Path_To n ?p s)" using inv n(1) acc by (simp add: result_ok_def)
      moreover have "result_ok c No_Path" by (simp add: result_ok_def)
      ultimately show ?thesis unfolding u by (cases "ok \<and> b1 = 0"; cases "\<not> complete \<and> ?fnd = None") simp_all
    qed
  qed
qed

lemma astar_new_inv: "search_inv c (astar_new (px (se_start c)) (py (se_start c)))"
  by (auto simp: search_inv_def astar_new_def node_ok_def node_pos_def getNodeByPosition_def node_key_inject MAX_NODES_def
      split: if_splits)

subsection \<open>The path\<close>

fun walk :: "position \<Rightarrow> direction list \<Rightarrow> position list" where
  "walk p [] = []"
| "walk p (d # ds) = getNextPosition d p # walk (getNextPosition d p) ds"

definition walk_end :: "position \<Rightarrow> direction list \<Rightarrow> position" where
  "walk_end p ds = fold getNextPosition ds p"

lemma walk_snoc: "walk p (ds @ [d]) = walk p ds @ [getNextPosition d (walk_end p ds)]"
  by (induction ds arbitrary: p) (simp_all add: walk_end_def)

definition straight :: "direction \<Rightarrow> bool" where
  "straight d \<longleftrightarrow> d \<in> {DIRECTION_NORTH, DIRECTION_EAST, DIRECTION_SOUTH, DIRECTION_WEST}"

definition inland :: "position \<Rightarrow> bool" where
  "inland p \<longleftrightarrow> 0 < getX p \<and> getX p < 65535 \<and> 0 < getY p \<and> getY p < 65535"

lemma step_direction_next:
  assumes "d \<in> set allNeighbors" and "inland (Position x y z)"
  shows "\<exists>e. step_direction (uint x - uint (x + of_int (fst d))) (uint y - uint (y + of_int (snd d))) = Some e
    \<and> getNextPosition e (Position x y z) = Position (x + of_int (fst d)) (y + of_int (snd d)) z
    \<and> (fst d = 0 \<or> snd d = 0 \<longrightarrow> straight e)"
proof -
  have b: "-1 \<le> fst d \<and> fst d \<le> 1" "-1 \<le> snd d \<and> snd d \<le> 1" using assms(1) by (auto simp: allNeighbors_def)
  have "uint (x + of_int (fst d)) = uint x + fst d" "uint (y + of_int (snd d)) = uint y + snd d"
    using assms(2) b by (auto intro!: uint_step simp: inland_def getX_def getY_def)
  then show ?thesis
    using assms(1) by (auto simp: allNeighbors_def step_direction_def straight_def)
qed

lemma path_back_walk:
  assumes inv: "search_inv c s" and land: "\<And>p. se_map c p \<noteq> None \<Longrightarrow> inland p" "inland (se_start c)"
  shows "i < length (an_nodes s) \<Longrightarrow> al_inv dirs \<Longrightarrow>
    \<exists>ds dirs'. path_back s (nd_parent (an_nodes s ! i)) (nd_x (an_nodes s ! i)) (nd_y (an_nodes s ! i)) dirs = Some dirs'
      \<and> al_inv dirs' \<and> al_list dirs' = ds @ al_list dirs \<and> (i = 0 \<longrightarrow> ds = [])
      \<and> walk_end (se_start c) ds = node_pos c s i \<and> (\<forall>q\<in>set (walk (se_start c) ds). entered c q)
      \<and> (\<not> fp_allowDiagonal (se_params c) \<longrightarrow> (\<forall>d\<in>set (tl ds). straight d))"
proof (induction "nat (nd_f (an_nodes s ! i))" arbitrary: i dirs rule: less_induct)
  case less
  note ok = search_invD(4) [OF inv less.prems(1)]
  show ?case
  proof (cases "i = 0")
    case True
    have "nd_parent (an_nodes s ! 0) = None" "node_pos c s 0 = se_start c" using node_ok_root ok True by auto
    then show ?thesis using True less.prems
      by (intro exI [of _ "[]"] exI [of _ dirs]) (subst path_back.simps, simp add: walk_end_def)
  next
    case False
    obtain p d where p: "nd_parent (an_nodes s ! i) = Some p" "p < length (an_nodes s)"
      "nd_f (an_nodes s ! p) + 10 \<le> nd_f (an_nodes s ! i)" "d \<in> steps_from c p"
      "nd_x (an_nodes s ! i) = nd_x (an_nodes s ! p) + of_int (fst d)"
      "nd_y (an_nodes s ! i) = nd_y (an_nodes s ! p) + of_int (snd d)" and e: "entered c (node_pos c s i)"
      using node_ok_child [OF ok False] by blast
    have okp: "node_ok c s p" using search_invD(4) [OF inv p(2)] .
    have "inland (node_pos c s p)"
    proof (cases "p = 0")
      case True
      then show ?thesis using node_ok_root okp land(2) by auto
    next
      case False
      then have "entered c (node_pos c s p)" using node_ok_child okp by blast
      then have "se_map c (node_pos c s p) \<noteq> None" by (auto simp: entered_def dest: getTile_canWalkTo split: option.splits)
      then show ?thesis by (rule land(1))
    qed
    then obtain dr where dr: "step_direction (uint (nd_x (an_nodes s ! p)) - uint (nd_x (an_nodes s ! i)))
        (uint (nd_y (an_nodes s ! p)) - uint (nd_y (an_nodes s ! i))) = Some dr"
      "getNextPosition dr (node_pos c s p) = node_pos c s i" "fst d = 0 \<or> snd d = 0 \<longrightarrow> straight dr"
      using step_direction_next [of d "nd_x (an_nodes s ! p)" "nd_y (an_nodes s ! p)" "pz (se_start c)"] p(4-6)
      by (auto simp: node_pos_def steps_from_def)
    have u: "path_back s (nd_parent (an_nodes s ! i)) (nd_x (an_nodes s ! i)) (nd_y (an_nodes s ! i)) dirs =
        path_back s (nd_parent (an_nodes s ! p)) (nd_x (an_nodes s ! p)) (nd_y (an_nodes s ! p)) (al_push_front dr dirs)"
      unfolding p(1) by (subst path_back.simps) (simp add: Let_def dr(1))
    have lt: "nat (nd_f (an_nodes s ! p)) < nat (nd_f (an_nodes s ! i))"
      using p(3) node_ok_nonneg [OF okp] by simp
    have al: "al_inv (al_push_front dr dirs)" "al_list (al_push_front dr dirs) = dr # al_list dirs"
      using al.push_front [OF less.prems(2)] by simp_all
    obtain ds dirs' where ih: "path_back s (nd_parent (an_nodes s ! p)) (nd_x (an_nodes s ! p)) (nd_y (an_nodes s ! p)) (al_push_front dr dirs) = Some dirs'"
      "al_inv dirs'" "al_list dirs' = ds @ dr # al_list dirs" "p = 0 \<longrightarrow> ds = []"
      "walk_end (se_start c) ds = node_pos c s p" "\<forall>q\<in>set (walk (se_start c) ds). entered c q"
      "\<not> fp_allowDiagonal (se_params c) \<longrightarrow> (\<forall>d\<in>set (tl ds). straight d)"
      using less.hyps [OF lt p(2) al(1)] al(2) by auto
    have st: "\<not> fp_allowDiagonal (se_params c) \<Longrightarrow> ds \<noteq> [] \<Longrightarrow> straight dr"
      using p(4) ih(4) dr(3) by (auto simp: steps_from_def)
    show ?thesis
    proof (intro exI conjI)
      show "path_back s (nd_parent (an_nodes s ! i)) (nd_x (an_nodes s ! i)) (nd_y (an_nodes s ! i)) dirs = Some dirs'"
        using u ih(1) by simp
      show "al_inv dirs'" "al_list dirs' = (ds @ [dr]) @ al_list dirs" using ih(2,3) by simp_all
      show "i = 0 \<longrightarrow> ds @ [dr] = []" using False by simp
      show "walk_end (se_start c) (ds @ [dr]) = node_pos c s i" using ih(5) dr(2) by (simp add: walk_end_def)
      show "\<forall>q\<in>set (walk (se_start c) (ds @ [dr])). entered c q" using ih(5,6) dr(2) e by (simp add: walk_snoc)
      show "\<not> fp_allowDiagonal (se_params c) \<longrightarrow> (\<forall>d\<in>set (tl (ds @ [dr])). straight d)"
        using ih(7) st by (cases ds) auto
    qed
  qed
qed

lemma path_back_returns:
  assumes inv: "search_inv c s"
  shows "i < length (an_nodes s) \<Longrightarrow> \<exists>r. path_back s (nd_parent (an_nodes s ! i)) x y dirs = Some r"
proof (induction "nat (nd_f (an_nodes s ! i))" arbitrary: i x y dirs rule: less_induct)
  case less
  note ok = search_invD(4) [OF inv less.prems]
  show ?case
  proof (cases "i = 0")
    case True
    then have "nd_parent (an_nodes s ! i) = None" using node_ok_root ok by auto
    then show ?thesis by (subst path_back.simps) simp
  next
    case False
    obtain p where p: "nd_parent (an_nodes s ! i) = Some p" "p < length (an_nodes s)"
      "nd_f (an_nodes s ! p) + 10 \<le> nd_f (an_nodes s ! i)"
      using node_ok_child [OF ok False] by blast
    then have "nat (nd_f (an_nodes s ! p)) < nat (nd_f (an_nodes s ! i))"
      using node_ok_nonneg [OF search_invD(4) [OF inv p(2)]] by simp
    from less.hyps [OF this p(2)] show ?thesis unfolding p(1) by (subst path_back.simps) (simp add: Let_def)
  qed
qed

text \<open>C13: a path search always ends, on any map, for any creature and any parameters, with or
  without a limit on the distance: every round either uses up room in the node table, or makes some
  node cheaper, or closes a node for good; and the parents lead back to the start.\<close>

theorem path_search_ends: "\<exists>r. getPathMatching c dirList = Some r"
proof -
  obtain r where r: "path_loop c (astar_new (px (se_start c)) (py (se_start c))) 0 None = Some r" "result_ok c r"
    using path_loop_returns [OF astar_new_inv, of c None 0] by (auto simp: found_ok_def)
  show ?thesis
  proof (cases r)
    case No_Path
    then have "getPathMatching c dirList = Some (False, dirList)" using r(1) by (simp add: getPathMatching_def)
    then show ?thesis by blast
  next
    case (Path_To k p s)
    then have "search_inv c s \<and> k < length (an_nodes s)" using r(2) by (simp add: result_ok_def)
    then obtain d where "path_back s (nd_parent (an_nodes s ! k)) (px p) (py p) dirList = Some d"
      using path_back_returns by blast
    then have "getPathMatching c dirList = Some (True, d)" using r(1) Path_To by (simp add: getPathMatching_def)
    then show ?thesis by blast
  qed
qed

text \<open>C14: a path that is found can be walked: taken one after another from the start, its
  directions pass only over positions the creature may step on and end where the search condition
  holds; they are put in front of what the list held; and when diagonal steps are not allowed only
  the very first one may still be diagonal. When none is found the list is left alone. (No tile
  lies on the border of the coordinate space.)\<close>

theorem path_search_sound:
  assumes "\<And>p. se_map c p \<noteq> None \<Longrightarrow> inland p" and "inland (se_start c)" and "al_inv dirList"
    and "getPathMatching c dirList = Some (b, dirs)"
  shows "if b then \<exists>ds. al_list dirs = ds @ al_list dirList
      \<and> (\<forall>q\<in>set (walk (se_start c) ds). entered c q) \<and> accepted c (walk_end (se_start c) ds)
      \<and> (\<not> fp_allowDiagonal (se_params c) \<longrightarrow> (\<forall>d\<in>set (tl ds). straight d))
    else dirs = dirList"
proof -
  obtain r where r: "path_loop c (astar_new (px (se_start c)) (py (se_start c))) 0 None = Some r" "result_ok c r"
    using path_loop_returns [OF astar_new_inv, of c None 0] by (auto simp: found_ok_def)
  show ?thesis
  proof (cases r)
    case No_Path
    then show ?thesis using r(1) assms(4) by (simp add: getPathMatching_def)
  next
    case (Path_To k p s)
    have "search_inv c s \<and> k < length (an_nodes s) \<and> p = node_pos c s k \<and> accepted c p"
      using r(2) unfolding Path_To result_ok_def found.case .
    then have ok: "search_inv c s" "k < length (an_nodes s)" "p = node_pos c s k" "accepted c p" by blast+
    obtain ds dirs' where d: "path_back s (nd_parent (an_nodes s ! k)) (nd_x (an_nodes s ! k)) (nd_y (an_nodes s ! k)) dirList = Some dirs'"
      "al_list dirs' = ds @ al_list dirList" "walk_end (se_start c) ds = p"
      "\<forall>q\<in>set (walk (se_start c) ds). entered c q" "\<not> fp_allowDiagonal (se_params c) \<longrightarrow> (\<forall>d\<in>set (tl ds). straight d)"
      using path_back_walk [OF ok(1) assms(1,2) ok(2) assms(3)] ok(3) by blast
    have "b" "dirs = dirs'"
      using assms(4) r(1) Path_To d(1) ok(3) by (simp_all add: getPathMatching_def node_pos_def)
    then show ?thesis using d(2-5) ok(4) by auto
  qed
qed

text \<open>A creature boxed in but for a diagonal gap, searching without diagonal steps.\<close>

definition gap_tile :: path_tile where
  "gap_tile = \<lparr>pt_blockSolid = False, pt_blockProjectile = False, pt_thingCount = 0, pt_topCreature = False, pt_field = None\<rparr>"

definition gap_search :: search where
  "gap_search = \<lparr>se_map = (\<lambda>p. if p = Position 11 11 7 then Some gap_tile else None), se_creature = None,
     se_start = Position 10 10 7, se_target = Position 11 11 7,
     se_params = \<lparr>fp_fullPathSearch = True, fp_clearSight = False, fp_allowDiagonal = False,
       fp_keepDistance = False, fp_maxSearchDist = 0, fp_minTargetDist = 0, fp_maxTargetDist = 0\<rparr>\<rparr>"

lemma gap_cond:
  "pathing_condition (se_map gap_search) (se_target gap_search) (se_start gap_search) p (se_params gap_search) b =
    Some (if getX p = 11 \<and> getY p = 11 then (True, 0) else (False, b))"
  by (auto simp: pathing_condition_def pathing_isInRange_def gap_search_def Let_def getDistanceX_def getDistanceY_def
      getOffsetX_def getOffsetY_def getX_def getY_def)

lemma gap_best: "getBestNode (astar_new 10 10) = Some 0"
  by (simp add: getBestNode_def astar_new_def)

lemma gap_visit:
  "visit_all gap_search 0 allNeighbors (astar_new 10 10) =
    (True, \<lparr>an_nodes = [\<lparr>nd_parent = None, nd_f = 0, nd_x = 10, nd_y = 10\<rparr>, \<lparr>nd_parent = Some 0, nd_f = 14, nd_x = 11, nd_y = 11\<rparr>],
      an_open = [True, True], an_table = [node_key 10 10 \<mapsto> 0, node_key 11 11 \<mapsto> Suc 0], an_closed = 0\<rparr>)"
  by (simp add: allNeighbors_def visit_neighbor_def neighbor_skipped_def gap_search_def gap_tile_def astar_new_def Let_def
      getNodeByPosition_def node_key_inject createOpenNode_def MAX_NODES_def getMapWalkCost_def getTileWalkCost_def
      MAP_PREFERDIAGONALWALKCOST_def getX_def getY_def)

lemma gap_path: "getPathMatching gap_search al_empty_list = Some (True, al_push_front DIRECTION_SOUTHEAST al_empty_list)"
proof -
  let ?s = "\<lparr>an_nodes = [\<lparr>nd_parent = None, nd_f = 0, nd_x = 10, nd_y = 10\<rparr>, \<lparr>nd_parent = Some 0, nd_f = 14, nd_x = 11, nd_y = 11\<rparr>],
      an_open = [False, True], an_table = [node_key 10 10 \<mapsto> 0, node_key 11 11 \<mapsto> Suc 0], an_closed = 1\<rparr>"
  have st: "px (se_start gap_search) = 10" "py (se_start gap_search) = 10" "pz (se_start gap_search) = 7"
    "fp_maxSearchDist (se_params gap_search) = 0" by (simp_all add: gap_search_def)
  have nb: "node_neighbors b (astar_new 10 10) (an_nodes (astar_new 10 10) ! 0) = allNeighbors" for b
    by (simp add: node_neighbors_def astar_new_def)
  have "getBestNode ?s = Some (Suc 0)" by (simp add: getBestNode_def)
  then have two: "path_loop gap_search ?s 0 None = Some (Path_To (Suc 0) (Position 11 11 7) ?s)"
    by (subst path_loop.simps) (simp add: gap_cond getX_def getY_def st del: One_nat_def)
  have n0: "nd_x (an_nodes (astar_new 10 10) ! 0) = 10" "nd_y (an_nodes (astar_new 10 10) ! 0) = 10" "an_closed (astar_new 10 10) = 0"
    by (simp_all add: astar_new_def)
  have "path_loop gap_search (astar_new 10 10) 0 None = Some (Path_To (Suc 0) (Position 11 11 7) ?s)"
    by (subst path_loop.simps) (simp add: gap_best gap_cond getX_def getY_def st n0 nb gap_visit Let_def closeNode_def two)
  moreover have "path_back ?s (Some 0) 11 11 al_empty_list = Some (al_push_front DIRECTION_SOUTHEAST al_empty_list)"
    by (subst path_back.simps, simp add: step_direction_def) (subst path_back.simps, simp)
  ultimately show ?thesis by (simp add: getPathMatching_def st)
qed

theorem path_search_sound_witness:
  "getPathMatching gap_search al_empty_list = Some (True, al_push_front DIRECTION_SOUTHEAST al_empty_list)
    \<and> \<not> fp_allowDiagonal (se_params gap_search)
    \<and> (\<exists>ds. al_list (al_push_front DIRECTION_SOUTHEAST al_empty_list) = ds \<and> accepted gap_search (walk_end (se_start gap_search) ds))"
proof -
  have l: "se_map gap_search p \<noteq> None \<Longrightarrow> inland p" "inland (se_start gap_search)" for p
    by (auto simp: gap_search_def inland_def getX_def getY_def split: if_splits)
  have i: "al_inv (al_empty_list :: direction arraylist)" and e: "al_list (al_empty_list :: direction arraylist) = []"
    by (simp_all add: al_inv_def al_empty_list_def al_list_def)
  have d: "\<not> fp_allowDiagonal (se_params gap_search)" by (simp add: gap_search_def)
  show ?thesis using path_search_sound [OF l i gap_path] gap_path d e by auto
qed

end
