(* ===== verification/Prey.thy ===== *)
theory Prey
  imports Net_Message "HOL-Library.Monad_Syntax"
begin

text \<open>
  Prey and hunting tasks (\<open>io/ioprey.cpp\<close>): the slots of both kinds, the rolls of bonus and
  reward, the grids of creatures, the handlers of the client's actions, the timer that runs a
  prey down, and the part of the player that holds the slots and pays for them. Random numbers
  come from a stream of naturals; a loop that may draw for ever returns \<open>None\<close> when it does.
  Messages to the client are kept as the refusal they report.
\<close>

subsection \<open>Random numbers\<close>

type_synonym rng = "nat \<Rightarrow> nat"

text \<open>The distribution of the standard library is some function of the generator onto the interval.\<close>

definition uniform_random :: "int \<Rightarrow> int \<Rightarrow> rng \<Rightarrow> int \<times> rng" where
  "uniform_random minNumber maxNumber r =
     (if minNumber = maxNumber then (minNumber, r)
      else let (a, b) = (if minNumber > maxNumber then (maxNumber, minNumber) else (minNumber, maxNumber))
        in (a + int (r 0) mod (b - a + 1), \<lambda>n. r (Suc n)))"

subsection \<open>Slots\<close>

datatype prey_state = PreyDataState_Locked | PreyDataState_Inactive | PreyDataState_Active | PreyDataState_Selection
  | PreyDataState_SelectionChangeMonster | PreyDataState_ListSelection | PreyDataState_WildcardSelection

datatype prey_bonus = PreyBonus_Damage | PreyBonus_Defense | PreyBonus_Experience | PreyBonus_Loot | PreyBonus_None

text \<open>The option and the actions are bytes of the client, cast without a check.\<close>

datatype prey_option = PreyOption_None | PreyOption_AutomaticReroll | PreyOption_Locked | PreyOption_Other u8

datatype prey_action = PreyAction_ListReroll | PreyAction_BonusReroll | PreyAction_MonsterSelection
  | PreyAction_ListAll_Cards | PreyAction_ListAll_Selection | PreyAction_Option | PreyAction_Other u8

datatype task_state = PreyTaskDataState_Locked | PreyTaskDataState_Inactive | PreyTaskDataState_Selection
  | PreyTaskDataState_ListSelection | PreyTaskDataState_Active | PreyTaskDataState_Completed

datatype task_action = PreyTaskAction_ListReroll | PreyTaskAction_RewardsReroll | PreyTaskAction_ListAll_Cards
  | PreyTaskAction_MonsterSelection | PreyTaskAction_Cancel | PreyTaskAction_Claim | PreyTaskAction_Other u8

datatype task_difficulty = PreyTaskDifficult_Easy | PreyTaskDifficult_Medium | PreyTaskDifficult_Hard

definition prey_option_of :: "u8 \<Rightarrow> prey_option" where
  "prey_option_of b = (if b = 0 then PreyOption_None else if b = 1 then PreyOption_AutomaticReroll
     else if b = 2 then PreyOption_Locked else PreyOption_Other b)"

definition prey_action_of :: "u8 \<Rightarrow> prey_action" where
  "prey_action_of b = (if b = 0 then PreyAction_ListReroll else if b = 1 then PreyAction_BonusReroll
     else if b = 2 then PreyAction_MonsterSelection else if b = 3 then PreyAction_ListAll_Cards
     else if b = 4 then PreyAction_ListAll_Selection else if b = 5 then PreyAction_Option else PreyAction_Other b)"

definition task_action_of :: "u8 \<Rightarrow> task_action" where
  "task_action_of b = (if b = 0 then PreyTaskAction_ListReroll else if b = 1 then PreyTaskAction_RewardsReroll
     else if b = 2 then PreyTaskAction_ListAll_Cards else if b = 3 then PreyTaskAction_MonsterSelection
     else if b = 4 then PreyTaskAction_Cancel else if b = 5 then PreyTaskAction_Claim else PreyTaskAction_Other b)"

record prey_slot =
  ps_id :: u8
  ps_bonus :: prey_bonus
  ps_state :: prey_state
  ps_option :: prey_option
  ps_raceIdList :: "u16 list"
  ps_bonusRarity :: u8
  ps_selectedRaceId :: u16
  ps_bonusPercentage :: u16
  ps_bonusTimeLeft :: u16
  ps_freeReroll :: int

record task_slot =
  ts_id :: u8
  ts_state :: task_state
  ts_upgrade :: bool
  ts_rarity :: u8
  ts_selectedRaceId :: u16
  ts_currentKills :: u16
  ts_disabledUntil :: int
  ts_freeReroll :: int
  ts_raceIdList :: "u16 list"

record task_option =
  to_difficult :: task_difficulty
  to_rarity :: u8
  to_firstKills :: u16
  to_secondKills :: u16
  to_firstReward :: u16
  to_secondReward :: u16

record monster_info =
  mi_raceid :: u16
  mi_experience :: u64
  mi_bestiaryStars :: u8
  mi_bestiaryToUnlock :: u16

text \<open>The settings, as the configuration returns them; \<open>getNumber\<close> is 32 bits wide, and the times
  in seconds are assumed to stay inside that width when they are multiplied by 1000.\<close>

record prey_config =
  pc_preyEnabled :: bool
  pc_preyFreeThirdSlot :: bool
  pc_preyRerollPriceLevel :: int
  pc_preySelectionListPrice :: int
  pc_preyBonusTime :: int
  pc_preyBonusRerollPrice :: int
  pc_preyFreeRerollTime :: int
  pc_taskEnabled :: bool
  pc_taskFreeThirdSlot :: bool
  pc_taskLimitExhaust :: int
  pc_taskRerollPriceLevel :: int
  pc_taskSelectionListPrice :: int
  pc_taskBonusRerollPrice :: int
  pc_taskFreeRerollTime :: int

text \<open>What a call reads: the clock, the bestiary in the order of its keys, the monster registry,
  the player's level, premium state and kill counts, and the task options set up at start.\<close>

record prey_env =
  pe_config :: prey_config
  pe_now :: int
  pe_bestiary :: "(u16 \<times> string) list"
  pe_monster :: "string \<Rightarrow> monster_info option"
  pe_level :: u32
  pe_premium :: bool
  pe_killCount :: "u16 \<Rightarrow> u32"
  pe_taskOption :: "task_option list"

definition getMonsterTypeByRaceId :: "prey_env \<Rightarrow> u16 \<Rightarrow> monster_info option" where
  "getMonsterTypeByRaceId e raceId = Option.bind (map_of (pe_bestiary e) raceId) (pe_monster e)"

definition prey_isOccupied :: "prey_slot \<Rightarrow> bool" where
  "prey_isOccupied s \<longleftrightarrow> ps_selectedRaceId s \<noteq> 0 \<and> ps_bonusTimeLeft s > 0"

definition prey_canSelect :: "prey_slot \<Rightarrow> bool" where
  "prey_canSelect s \<longleftrightarrow> ps_state s = PreyDataState_Selection \<or> ps_state s = PreyDataState_SelectionChangeMonster
     \<or> ps_state s = PreyDataState_ListSelection \<or> ps_state s = PreyDataState_Inactive"

definition eraseBonus :: "bool \<Rightarrow> prey_slot \<Rightarrow> prey_slot" where
  "eraseBonus maintainBonus s =
     (let s1 = (if \<not> maintainBonus then s\<lparr>ps_bonus := PreyBonus_None, ps_bonusPercentage := 5, ps_bonusRarity := 1\<rparr> else s)
      in s1\<lparr>ps_state := PreyDataState_Selection, ps_option := PreyOption_None, ps_selectedRaceId := 0, ps_bonusTimeLeft := 0\<rparr>)"

definition prey_removeMonsterType :: "u16 \<Rightarrow> prey_slot \<Rightarrow> prey_slot" where
  "prey_removeMonsterType raceId s = s\<lparr>ps_raceIdList := filter (\<lambda>r. r \<noteq> raceId) (ps_raceIdList s)\<rparr>"

definition prey_bonus_of :: "int \<Rightarrow> prey_bonus" where
  "prey_bonus_of n = (if n = 0 then PreyBonus_Damage else if n = 1 then PreyBonus_Defense
     else if n = 2 then PreyBonus_Experience else if n = 3 then PreyBonus_Loot else PreyBonus_None)"

partial_function (option) reroll_bonus :: "prey_bonus \<Rightarrow> prey_bonus \<Rightarrow> rng \<Rightarrow> (prey_bonus \<times> rng) option" where
  "reroll_bonus bonus_tmp bonus r =
     (if bonus_tmp = bonus then
        (let (n, r1) = uniform_random 0 3 r in reroll_bonus bonus_tmp (prey_bonus_of n) r1)
      else Some (bonus, r))"

definition reloadBonusType :: "prey_slot \<Rightarrow> rng \<Rightarrow> (prey_slot \<times> rng) option" where
  "reloadBonusType s r =
     (if ps_bonusRarity s = 10 then
        do {(b, r1) \<leftarrow> reroll_bonus (ps_bonus s) (ps_bonus s) r; Some (s\<lparr>ps_bonus := b\<rparr>, r1)}
      else let (n, r1) = uniform_random 0 3 r in Some (s\<lparr>ps_bonus := prey_bonus_of n\<rparr>, r1))"

definition bonus_percentage :: "prey_bonus \<Rightarrow> u8 \<Rightarrow> u16" where
  "bonus_percentage b rarity = (if b = PreyBonus_Damage then 2 * ucast rarity + 5
     else if b = PreyBonus_Defense then 2 * ucast rarity + 10 else 3 * ucast rarity + 10)"

definition reloadBonusValue :: "prey_slot \<Rightarrow> rng \<Rightarrow> prey_slot \<times> rng" where
  "reloadBonusValue s r =
     (let (rarity, r1) = (if ps_bonusRarity s \<ge> 9 then (10, r)
            else let (n, r2) = uniform_random (uint (ps_bonusRarity s) + 1) 10 r in (of_int n, r2))
      in (s\<lparr>ps_bonusRarity := rarity, ps_bonusPercentage := bonus_percentage (ps_bonus s) rarity\<rparr>, r1))"

definition PreySlot :: "prey_env \<Rightarrow> u8 \<Rightarrow> rng \<Rightarrow> (prey_slot \<times> rng) option" where
  "PreySlot e i r =
     (let s0 = eraseBonus False \<lparr>ps_id = i, ps_bonus = PreyBonus_None, ps_state = PreyDataState_Locked,
            ps_option = PreyOption_None, ps_raceIdList = [], ps_bonusRarity = 1, ps_selectedRaceId = 0,
            ps_bonusPercentage = 0, ps_bonusTimeLeft = 0, ps_freeReroll = 0\<rparr>;
          (s1, r1) = reloadBonusValue s0 r
      in do {(s2, r2) \<leftarrow> reloadBonusType s1 r1;
             Some (s2\<lparr>ps_freeReroll := pe_now e + pc_preyFreeRerollTime (pe_config e) * 1000\<rparr>, r2)})"

definition task_isOccupied :: "task_slot \<Rightarrow> bool" where
  "task_isOccupied s \<longleftrightarrow> ts_selectedRaceId s \<noteq> 0"

definition task_canSelect :: "task_slot \<Rightarrow> bool" where
  "task_canSelect s \<longleftrightarrow> ts_state s = PreyTaskDataState_Selection \<or> ts_state s = PreyTaskDataState_ListSelection"

definition eraseTask :: "task_slot \<Rightarrow> task_slot" where
  "eraseTask s = s\<lparr>ts_upgrade := False, ts_state := PreyTaskDataState_Selection, ts_selectedRaceId := 0,
     ts_currentKills := 0, ts_rarity := 1\<rparr>"

definition task_removeMonsterType :: "u16 \<Rightarrow> task_slot \<Rightarrow> task_slot" where
  "task_removeMonsterType raceId s = s\<lparr>ts_raceIdList := filter (\<lambda>r. r \<noteq> raceId) (ts_raceIdList s)\<rparr>"

definition isCreatureOnList :: "u16 \<Rightarrow> task_slot \<Rightarrow> bool" where
  "isCreatureOnList raceId s \<longleftrightarrow> raceId \<in> set (ts_raceIdList s)"

definition TaskHuntingSlot :: "prey_env \<Rightarrow> u8 \<Rightarrow> task_slot" where
  "TaskHuntingSlot e i = \<lparr>ts_id = i, ts_state = PreyTaskDataState_Inactive, ts_upgrade = False, ts_rarity = 1,
     ts_selectedRaceId = 0, ts_currentKills = 0, ts_disabledUntil = 0,
     ts_freeReroll = pe_now e + pc_taskFreeRerollTime (pe_config e) * 1000, ts_raceIdList = []\<rparr>"

definition reloadReward :: "prey_env \<Rightarrow> task_slot \<Rightarrow> rng \<Rightarrow> task_slot \<times> rng" where
  "reloadReward e s r =
     (if \<not> pc_taskEnabled (pe_config e) then (s, r)
      else if ts_rarity s \<ge> 4 then (s\<lparr>ts_rarity := 5\<rparr>, r)
      else let (chance, r1) =
             (if ts_rarity s = 0 then uniform_random 0 100 r
              else if ts_rarity s = 1 then uniform_random 0 70 r
              else if ts_rarity s = 2 then uniform_random 0 45 r
              else uniform_random 0 20 r)
        in (s\<lparr>ts_rarity := (if chance \<le> 5 then 5 else if chance \<le> 20 then 4 else if chance \<le> 45 then 3
                             else if chance \<le> 70 then 2 else 1)\<rparr>, r1))"

subsection \<open>Grids of creatures\<close>

text \<open>Both kinds of slot build their grid with the same loop; only the setting they test differs.\<close>

record grid =
  gr_list :: "u16 list"
  gr_black :: "u16 list"
  gr_tries :: u8
  gr_one :: u8
  gr_two :: u8
  gr_three :: u8
  gr_four :: u8

definition grid_start :: "u16 list \<Rightarrow> u32 \<Rightarrow> grid" where
  "grid_start blackList level =
     (let levelStage = level div 100;
          (a, b, c, d) = (if levelStage = 0 then (3, 3, 2, 1) else if levelStage \<le> 2 then (1, 3, 3, 2)
              else if levelStage \<le> 4 then (1, 2, 3, 3) else (1, 1, 3, 4))
      in \<lparr>gr_list = [], gr_black = blackList, gr_tries = 0, gr_one = a, gr_two = b, gr_three = c, gr_four = d\<rparr>)"

definition grid_step :: "(u16 \<Rightarrow> monster_info option) \<Rightarrow> u16 \<Rightarrow> grid \<Rightarrow> grid" where
  "grid_step mtype raceId g0 =
     (let g = g0\<lparr>gr_tries := gr_tries g0 + 1\<rparr> in
      if raceId \<in> set (gr_black g) then g
      else let g1 = g\<lparr>gr_black := gr_black g @ [raceId]\<rparr>;
               put = g1\<lparr>gr_list := gr_list g1 @ [raceId]\<rparr>
        in case mtype raceId of None \<Rightarrow> g1
           | Some mi \<Rightarrow>
               if mi_experience mi = 0 then g1
               else if gr_one g \<noteq> 0 \<and> mi_bestiaryStars mi \<le> 1 then put\<lparr>gr_one := gr_one g - 1\<rparr>
               else if gr_two g \<noteq> 0 \<and> mi_bestiaryStars mi = 2 then put\<lparr>gr_two := gr_two g - 1\<rparr>
               else if gr_three g \<noteq> 0 \<and> mi_bestiaryStars mi = 3 then put\<lparr>gr_three := gr_three g - 1\<rparr>
               else if gr_four g \<noteq> 0 \<and> mi_bestiaryStars mi \<ge> 4 then put\<lparr>gr_four := gr_four g - 1\<rparr>
               else if gr_tries g \<ge> 10 then put\<lparr>gr_tries := 0\<rparr>
               else g1)"

partial_function (option) grid_loop ::
    "(u16 \<Rightarrow> monster_info option) \<Rightarrow> u16 list \<Rightarrow> grid \<Rightarrow> rng \<Rightarrow> (u16 list \<times> rng) option" where
  "grid_loop mtype races g r =
     (if length (gr_list g) < 9 then
        (let (i, r1) = uniform_random 0 (int (length races) - 1) r
         in grid_loop mtype races (grid_step mtype (races ! nat i) g) r1)
      else Some (gr_list g, r))"

definition reload_grid :: "bool \<Rightarrow> prey_env \<Rightarrow> u16 list \<Rightarrow> rng \<Rightarrow> (u16 list \<times> rng) option" where
  "reload_grid enabled e blackList r =
     (if \<not> enabled then Some ([], r)
      else if length (pe_bestiary e) < 36 then Some ([], r)
      else grid_loop (getMonsterTypeByRaceId e) (map fst (pe_bestiary e)) (grid_start blackList (pe_level e)) r)"

definition prey_reloadMonsterGrid :: "prey_env \<Rightarrow> u16 list \<Rightarrow> prey_slot \<Rightarrow> rng \<Rightarrow> (prey_slot \<times> rng) option" where
  "prey_reloadMonsterGrid e blackList s r =
     do {(l, r1) \<leftarrow> reload_grid (pc_preyEnabled (pe_config e)) e blackList r; Some (s\<lparr>ps_raceIdList := l\<rparr>, r1)}"

definition task_reloadMonsterGrid :: "prey_env \<Rightarrow> u16 list \<Rightarrow> task_slot \<Rightarrow> rng \<Rightarrow> (task_slot \<times> rng) option" where
  "task_reloadMonsterGrid e blackList s r =
     do {(l, r1) \<leftarrow> reload_grid (pc_taskEnabled (pe_config e)) e blackList r; Some (s\<lparr>ts_raceIdList := l\<rparr>, r1)}"

subsection \<open>The player's slots\<close>

record 'm hunter =
  hu_preys :: "prey_slot list"
  hu_tasks :: "task_slot list"
  hu_preyCards :: u64
  hu_points :: u64
  hu_money :: 'm

definition getPreySlotById :: "u8 \<Rightarrow> 'm hunter \<Rightarrow> prey_slot option" where
  "getPreySlotById i h = List.find (\<lambda>s. ps_id s = i) (hu_preys h)"

definition getTaskHuntingSlotById :: "u8 \<Rightarrow> 'm hunter \<Rightarrow> task_slot option" where
  "getTaskHuntingSlotById i h = List.find (\<lambda>s. ts_id s = i) (hu_tasks h)"

text \<open>The handlers hold a reference to the slot that was found; storing through it replaces the first
  slot with its id.\<close>

definition store_prey :: "prey_slot \<Rightarrow> 'm hunter \<Rightarrow> 'm hunter" where
  "store_prey s h = h\<lparr>hu_preys := (hu_preys h)[find_index (\<lambda>t. ps_id t = ps_id s) (hu_preys h) := s]\<rparr>"

definition store_task :: "task_slot \<Rightarrow> 'm hunter \<Rightarrow> 'm hunter" where
  "store_task s h = h\<lparr>hu_tasks := (hu_tasks h)[find_index (\<lambda>t. ts_id t = ts_id s) (hu_tasks h) := s]\<rparr>"

definition setPreySlotClass :: "prey_slot \<Rightarrow> 'm hunter \<Rightarrow> bool \<times> 'm hunter" where
  "setPreySlotClass s h = (case getPreySlotById (ps_id s) h of
       Some _ \<Rightarrow> (False, h) | None \<Rightarrow> (True, h\<lparr>hu_preys := hu_preys h @ [s]\<rparr>))"

definition setTaskHuntingSlotClass :: "task_slot \<Rightarrow> 'm hunter \<Rightarrow> bool \<times> 'm hunter" where
  "setTaskHuntingSlotClass s h = (case getTaskHuntingSlotById (ts_id s) h of
       Some _ \<Rightarrow> (False, h) | None \<Rightarrow> (True, h\<lparr>hu_tasks := hu_tasks h @ [s]\<rparr>))"

definition removePreySlotById :: "u8 \<Rightarrow> 'm hunter \<Rightarrow> 'm hunter" where
  "removePreySlotById i h = h\<lparr>hu_preys := filter (\<lambda>s. ps_id s \<noteq> i) (hu_preys h)\<rparr>"

definition usePreyCards :: "u16 \<Rightarrow> 'm hunter \<Rightarrow> bool \<times> 'm hunter" where
  "usePreyCards amount h =
     (if hu_preyCards h < ucast amount then (False, h)
      else (True, h\<lparr>hu_preyCards := hu_preyCards h - ucast amount\<rparr>))"

definition addPreyCards :: "u64 \<Rightarrow> 'm hunter \<Rightarrow> 'm hunter" where
  "addPreyCards amount h = h\<lparr>hu_preyCards := hu_preyCards h + amount\<rparr>"

definition addTaskHuntingPoints :: "u64 \<Rightarrow> 'm hunter \<Rightarrow> 'm hunter" where
  "addTaskHuntingPoints amount h = h\<lparr>hu_points := hu_points h + amount\<rparr>"

definition useTaskHuntingPoints :: "u64 \<Rightarrow> 'm hunter \<Rightarrow> bool \<times> 'm hunter" where
  "useTaskHuntingPoints amount h =
     (if hu_points h < amount then (False, h) else (True, h\<lparr>hu_points := hu_points h - amount\<rparr>))"

definition getPreyRerollPrice :: "prey_env \<Rightarrow> u32" where
  "getPreyRerollPrice e = pe_level e * of_int (pc_preyRerollPriceLevel (pe_config e))"

definition getTaskHuntingRerollPrice :: "prey_env \<Rightarrow> u32" where
  "getTaskHuntingRerollPrice e = pe_level e * of_int (pc_taskRerollPriceLevel (pe_config e))"

definition getPreyBlackList :: "'m hunter \<Rightarrow> u16 list" where
  "getPreyBlackList h =
     concat (map (\<lambda>s. (if prey_isOccupied s then [ps_selectedRaceId s] else []) @ ps_raceIdList s) (hu_preys h))"

definition getTaskHuntingBlackList :: "'m hunter \<Rightarrow> u16 list" where
  "getTaskHuntingBlackList h =
     concat (map (\<lambda>s. if task_isOccupied s then [ts_selectedRaceId s] else ts_raceIdList s) (hu_tasks h))"

definition getPreyWithMonster :: "prey_env \<Rightarrow> u16 \<Rightarrow> 'm hunter \<Rightarrow> prey_slot option" where
  "getPreyWithMonster e raceId h =
     (if \<not> pc_preyEnabled (pe_config e) then None
      else List.find (\<lambda>s. ps_selectedRaceId s = raceId) (hu_preys h))"

definition getTaskHuntingWithCreature :: "prey_env \<Rightarrow> u16 \<Rightarrow> 'm hunter \<Rightarrow> task_slot option" where
  "getTaskHuntingWithCreature e raceId h =
     (if \<not> pc_taskEnabled (pe_config e) then None
      else List.find (\<lambda>s. ts_selectedRaceId s = raceId) (hu_tasks h))"

definition isCreatureUnlockedOnTaskHunting :: "prey_env \<Rightarrow> monster_info \<Rightarrow> bool" where
  "isCreatureUnlockedOnTaskHunting e mi \<longleftrightarrow> pe_killCount e (mi_raceid mi) \<ge> ucast (mi_bestiaryToUnlock mi)"

definition initial_prey :: "prey_env \<Rightarrow> u8 \<Rightarrow> 'm hunter \<Rightarrow> rng \<Rightarrow> ('m hunter \<times> rng) option" where
  "initial_prey e i h r =
     do {(s, r1) \<leftarrow> PreySlot e i r;
         (s1, r2) \<leftarrow>
           (if \<not> pc_preyEnabled (pe_config e) then Some (s\<lparr>ps_state := PreyDataState_Inactive\<rparr>, r1)
            else if i = 2 \<and> \<not> pc_preyFreeThirdSlot (pe_config e) then Some (s\<lparr>ps_state := PreyDataState_Locked\<rparr>, r1)
            else if i = 1 \<and> \<not> pe_premium e then Some (s\<lparr>ps_state := PreyDataState_Locked\<rparr>, r1)
            else prey_reloadMonsterGrid e (getPreyBlackList h) (s\<lparr>ps_state := PreyDataState_Selection\<rparr>) r1);
         Some (snd (setPreySlotClass s1 h), r2)}"

definition initializePrey :: "prey_env \<Rightarrow> 'm hunter \<Rightarrow> rng \<Rightarrow> ('m hunter \<times> rng) option" where
  "initializePrey e h r =
     (if hu_preys h = [] then
        do {(h1, r1) \<leftarrow> initial_prey e 0 h r; (h2, r2) \<leftarrow> initial_prey e 1 h1 r1; initial_prey e 2 h2 r2}
      else Some (h, r))"

definition initial_task :: "prey_env \<Rightarrow> u8 \<Rightarrow> 'm hunter \<Rightarrow> rng \<Rightarrow> ('m hunter \<times> rng) option" where
  "initial_task e i h r =
     (let s = TaskHuntingSlot e i in
      do {(s1, r1) \<leftarrow>
           (if \<not> pc_taskEnabled (pe_config e) then Some (s\<lparr>ts_state := PreyTaskDataState_Inactive\<rparr>, r)
            else if i = 2 \<and> \<not> pc_taskFreeThirdSlot (pe_config e) then Some (s\<lparr>ts_state := PreyTaskDataState_Locked\<rparr>, r)
            else if i = 1 \<and> \<not> pe_premium e then Some (s\<lparr>ts_state := PreyTaskDataState_Locked\<rparr>, r)
            else task_reloadMonsterGrid e (getTaskHuntingBlackList h) (s\<lparr>ts_state := PreyTaskDataState_Selection\<rparr>) r);
         Some (snd (setTaskHuntingSlotClass s1 h), r1)})"

definition initializeTaskHunting :: "prey_env \<Rightarrow> 'm hunter \<Rightarrow> rng \<Rightarrow> ('m hunter \<times> rng) option" where
  "initializeTaskHunting e h r =
     (if hu_tasks h = [] then
        do {(h1, r1) \<leftarrow> initial_task e 0 h r; (h2, r2) \<leftarrow> initial_task e 1 h1 r1; initial_task e 2 h2 r2}
      else Some (h, r))"

subsection \<open>Rewards of the hunting tasks\<close>

text \<open>The divisions are of integers; \<open>std::round\<close> is applied to their quotients.\<close>

fun star_loop :: "task_difficulty \<Rightarrow> int \<Rightarrow> u16 \<Rightarrow> u16 \<Rightarrow> u8 list \<Rightarrow> task_option list" where
  "star_loop d difficulty kills reward [] = []"
| "star_loop d difficulty kills reward (star # stars) =
     \<lparr>to_difficult = d, to_rarity = star, to_firstKills = kills, to_secondKills = kills * 2,
      to_firstReward = reward, to_secondReward = reward * 2\<rparr>
     # star_loop d difficulty kills (of_int (uint reward * (115 + difficulty * 5) div 100)) stars"

fun difficulty_loop :: "u16 \<Rightarrow> (task_difficulty \<times> int) list \<Rightarrow> task_option list" where
  "difficulty_loop kills [] = []"
| "difficulty_loop kills ((d, n) # ds) =
     star_loop d n kills (of_int (10 * uint kills div 25)) [1, 2, 3, 4, 5] @ difficulty_loop (kills * 4) ds"

definition task_stars_byte :: "u8 \<Rightarrow> u8" where
  "task_stars_byte stars = (if stars \<le> 1 then 1 else if stars \<le> 3 then 2 else 3)"

definition difficulty_byte :: "task_difficulty \<Rightarrow> u8" where
  "difficulty_byte d = (case d of PreyTaskDifficult_Easy \<Rightarrow> 1 | PreyTaskDifficult_Medium \<Rightarrow> 2 | PreyTaskDifficult_Hard \<Rightarrow> 3)"

definition hunt_base_message :: "prey_env \<Rightarrow> task_option list \<Rightarrow> netmsg \<Rightarrow> netmsg" where
  "hunt_base_message e options msg0 =
     (let msg1 = nm_add (of_nat (length (pe_bestiary e)) :: u16) (nm_addByte 0xBA msg0);
          msg2 = fold (\<lambda>(raceId, name) m. case pe_monster e name of None \<Rightarrow> m
                    | Some mi \<Rightarrow> nm_addByte (task_stars_byte (mi_bestiaryStars mi)) (nm_add (mi_raceid mi) m))
                   (pe_bestiary e) msg1;
          msg3 = nm_addByte (of_nat (length options)) msg2
      in fold (\<lambda>opt m. nm_add (to_secondReward opt) (nm_add (to_secondKills opt) (nm_add (to_firstReward opt)
                 (nm_add (to_firstKills opt) (nm_addByte (to_rarity opt) (nm_addByte (difficulty_byte (to_difficult opt)) m))))))
              options msg3)"

definition initializeTaskHuntOptions ::
    "prey_env \<Rightarrow> netmsg \<Rightarrow> task_option list \<times> netmsg \<Rightarrow> task_option list \<times> netmsg" where
  "initializeTaskHuntOptions e fresh io =
     (if \<not> pc_taskEnabled (pe_config e) then io
      else let options = fst io @ difficulty_loop 25
                  [(PreyTaskDifficult_Easy, 1), (PreyTaskDifficult_Medium, 2), (PreyTaskDifficult_Hard, 3)]
        in (options, hunt_base_message e options fresh))"

definition task_difficulty_of :: "u8 \<Rightarrow> task_difficulty" where
  "task_difficulty_of stars = (if stars \<le> 1 then PreyTaskDifficult_Easy
     else if stars \<le> 3 then PreyTaskDifficult_Medium else PreyTaskDifficult_Hard)"

definition getTaskRewardOption :: "prey_env \<Rightarrow> task_slot \<Rightarrow> task_option option" where
  "getTaskRewardOption e s = (case getMonsterTypeByRaceId e (ts_selectedRaceId s) of
       None \<Rightarrow> None
     | Some mi \<Rightarrow> List.find (\<lambda>opt. to_difficult opt = task_difficulty_of (mi_bestiaryStars mi)
                                    \<and> to_rarity opt = ts_rarity s) (pe_taskOption e))"

definition addHuntingTaskKill :: "prey_env \<Rightarrow> u16 \<Rightarrow> 'm hunter \<Rightarrow> 'm hunter" where
  "addHuntingTaskKill e raceId h = (case getTaskHuntingWithCreature e raceId h of
       None \<Rightarrow> h
     | Some s \<Rightarrow> (case getTaskRewardOption e s of
         None \<Rightarrow> h
       | Some opt \<Rightarrow>
           let s1 = s\<lparr>ts_currentKills := ts_currentKills s + 1\<rparr>;
               s2 = (if (ts_upgrade s1 \<and> ts_currentKills s1 \<ge> to_secondKills opt)
                        \<or> (\<not> ts_upgrade s1 \<and> ts_currentKills s1 \<ge> to_firstKills opt)
                     then s1\<lparr>ts_state := PreyTaskDataState_Completed\<rparr> else s1)
           in store_task s2 h))"

subsection \<open>The timer\<close>

definition check_prey :: "prey_env \<Rightarrow> u8 \<Rightarrow> u8 \<Rightarrow> 'm hunter \<times> rng \<Rightarrow> ('m hunter \<times> rng) option" where
  "check_prey e amount slotId hr = (case hr of (h, r) \<Rightarrow> (case getPreySlotById slotId h of
       None \<Rightarrow> Some (h, r)
     | Some s \<Rightarrow>
         if \<not> prey_isOccupied s then Some (h, r)
         else if ps_bonusTimeLeft s \<le> ucast amount then
           (if ps_option s = PreyOption_AutomaticReroll then
              (case usePreyCards (of_int (pc_preyBonusRerollPrice (pe_config e))) h of
                 (True, h1) \<Rightarrow>
                   do {(s1, r1) \<leftarrow> reloadBonusType s r;
                       let (s2, r2) = reloadBonusValue s1 r1;
                       Some (store_prey (s2\<lparr>ps_bonusTimeLeft := of_int (pc_preyBonusTime (pe_config e))\<rparr>) h1, r2)}
               | (False, h1) \<Rightarrow> Some (store_prey (eraseBonus False s) h1, r))
            else if ps_option s = PreyOption_Locked then
              (case usePreyCards (of_int (pc_preySelectionListPrice (pe_config e))) h of
                 (True, h1) \<Rightarrow> Some (store_prey (s\<lparr>ps_bonusTimeLeft := of_int (pc_preyBonusTime (pe_config e))\<rparr>) h1, r)
               | (False, h1) \<Rightarrow> Some (store_prey (eraseBonus False s) h1, r))
            else Some (store_prey (eraseBonus False s) h, r))
         else Some (store_prey (s\<lparr>ps_bonusTimeLeft := ps_bonusTimeLeft s - ucast amount\<rparr>) h, r)))"

definition checkPlayerPreys :: "prey_env \<Rightarrow> u8 \<Rightarrow> 'm hunter \<Rightarrow> rng \<Rightarrow> ('m hunter \<times> rng) option" where
  "checkPlayerPreys e amount h r =
     do {hr1 \<leftarrow> check_prey e amount 0 (h, r); hr2 \<leftarrow> check_prey e amount 1 hr1; check_prey e amount 2 hr2}"

subsection \<open>Actions of the client\<close>

datatype prey_refusal = Slot_Is_Locked | No_Money | No_Cards | Already_Active | No_Active_Monster | Selection_Error
  | Already_Selected | Wait_Minutes int | Claim_Empty | Claim_Error

text \<open>A handler refuses, ignores an action it does not know, or serves it; a claim reports its points.\<close>

datatype prey_reply = Refused prey_refusal | Unknown_Action | Served | Rewarded u64 int

type_synonym 'm prey_result = "(prey_reply \<times> 'm hunter \<times> rng) option"

definition reroll_bonus_both :: "prey_slot \<Rightarrow> rng \<Rightarrow> (prey_slot \<times> rng) option" where
  "reroll_bonus_both s r = do {(s1, r1) \<leftarrow> reloadBonusType s r; Some (reloadBonusValue s1 r1)}"

definition first_bonus :: "prey_slot \<Rightarrow> rng \<Rightarrow> (prey_slot \<times> rng) option" where
  "first_bonus s r = (if ps_bonus s = PreyBonus_None then reroll_bonus_both s r else Some (s, r))"

definition prey_activate :: "prey_env \<Rightarrow> u16 \<Rightarrow> prey_slot \<Rightarrow> prey_slot" where
  "prey_activate e raceId s =
     (prey_removeMonsterType raceId (s\<lparr>ps_state := PreyDataState_Active, ps_selectedRaceId := raceId\<rparr>))
       \<lparr>ps_bonusTimeLeft := of_int (pc_preyBonusTime (pe_config e))\<rparr>"

definition prey_listReroll ::
    "(u64 \<Rightarrow> 'm \<Rightarrow> bool \<times> 'm) \<Rightarrow> prey_env \<Rightarrow> prey_slot \<Rightarrow> 'm hunter \<Rightarrow> rng \<Rightarrow> 'm prey_result" where
  "prey_listReroll removeMoney e s h r =
     (case (if ps_freeReroll s > pe_now e then removeMoney (ucast (getPreyRerollPrice e)) (hu_money h)
            else (True, hu_money h)) of
        (False, m) \<Rightarrow> Some (Refused No_Money, h\<lparr>hu_money := m\<rparr>, r)
      | (True, m) \<Rightarrow>
          let s1 = (if ps_freeReroll s \<le> pe_now e
                    then s\<lparr>ps_freeReroll := pe_now e + pc_preyFreeRerollTime (pe_config e) * 1000\<rparr> else s);
              s2 = eraseBonus True s1;
              s3 = (if ps_bonus s2 \<noteq> PreyBonus_None then s2\<lparr>ps_state := PreyDataState_SelectionChangeMonster\<rparr> else s2);
              h1 = store_prey s3 (h\<lparr>hu_money := m\<rparr>)
          in do {(s4, r1) \<leftarrow> prey_reloadMonsterGrid e (getPreyBlackList h1) s3 r;
                 Some (Served, store_prey s4 h1, r1)})"

definition prey_listCards :: "prey_env \<Rightarrow> prey_slot \<Rightarrow> 'm hunter \<Rightarrow> rng \<Rightarrow> 'm prey_result" where
  "prey_listCards e s h r = (case usePreyCards (of_int (pc_preySelectionListPrice (pe_config e))) h of
       (False, h1) \<Rightarrow> Some (Refused No_Cards, h1, r)
     | (True, h1) \<Rightarrow> Some (Served, store_prey (s\<lparr>ps_bonusTimeLeft := 0, ps_selectedRaceId := 0,
                                            ps_state := PreyDataState_ListSelection\<rparr>) h1, r))"

definition prey_listSelection :: "prey_env \<Rightarrow> u16 \<Rightarrow> prey_slot \<Rightarrow> 'm hunter \<Rightarrow> rng \<Rightarrow> 'm prey_result" where
  "prey_listSelection e raceId s h r =
     (if prey_isOccupied s then Some (Refused Already_Active, h, r)
      else if \<not> prey_canSelect s \<or> ps_state s \<noteq> PreyDataState_ListSelection then Some (Refused Selection_Error, h, r)
      else if getPreyWithMonster e raceId h \<noteq> None then Some (Refused Already_Selected, h, r)
      else do {(s1, r1) \<leftarrow> first_bonus s r; Some (Served, store_prey (prey_activate e raceId s1) h, r1)})"

definition prey_bonusReroll :: "prey_env \<Rightarrow> prey_slot \<Rightarrow> 'm hunter \<Rightarrow> rng \<Rightarrow> 'm prey_result" where
  "prey_bonusReroll e s h r =
     (if \<not> prey_isOccupied s then Some (Refused No_Active_Monster, h, r)
      else case usePreyCards (of_int (pc_preyBonusRerollPrice (pe_config e))) h of
        (False, h1) \<Rightarrow> Some (Refused No_Cards, h1, r)
      | (True, h1) \<Rightarrow>
          do {(s1, r1) \<leftarrow> reroll_bonus_both s r;
              Some (Served, store_prey (s1\<lparr>ps_bonusTimeLeft := of_int (pc_preyBonusTime (pe_config e))\<rparr>) h1, r1)})"

text \<open>The sum \<open>index + 1\<close> of ints is compared with the unsigned size of the list.\<close>

definition prey_index_bad :: "8 word \<Rightarrow> u16 list \<Rightarrow> bool" where
  "prey_index_bad index l \<longleftrightarrow> sint index = -1 \<or> (of_int (sint index + 1) :: u64) > of_nat (length l)"

definition prey_monsterSelection :: "prey_env \<Rightarrow> 8 word \<Rightarrow> prey_slot \<Rightarrow> 'm hunter \<Rightarrow> rng \<Rightarrow> 'm prey_result" where
  "prey_monsterSelection e index s h r =
     (if prey_isOccupied s then Some (Refused Already_Active, h, r)
      else if \<not> prey_canSelect s \<or> prey_index_bad index (ps_raceIdList s) then Some (Refused Selection_Error, h, r)
      else let raceId = ps_raceIdList s ! nat (sint index) in
        if getPreyWithMonster e raceId h \<noteq> None then Some (Refused Already_Selected, h, r)
        else do {(s1, r1) \<leftarrow> first_bonus s r; Some (Served, store_prey (prey_activate e raceId s1) h, r1)})"

definition prey_setOption :: "prey_env \<Rightarrow> prey_option \<Rightarrow> prey_slot \<Rightarrow> 'm hunter \<Rightarrow> rng \<Rightarrow> 'm prey_result" where
  "prey_setOption e opt s h r =
     (if opt = PreyOption_AutomaticReroll \<and> hu_preyCards h < of_int (pc_preyBonusRerollPrice (pe_config e))
      then Some (Refused No_Cards, h, r)
      else if opt = PreyOption_Locked \<and> hu_preyCards h < of_int (pc_preySelectionListPrice (pe_config e))
      then Some (Refused No_Cards, h, r)
      else Some (Served, store_prey (s\<lparr>ps_option := opt\<rparr>) h, r))"

definition parsePreyAction ::
    "(u64 \<Rightarrow> 'm \<Rightarrow> bool \<times> 'm) \<Rightarrow> prey_env \<Rightarrow> u8 \<Rightarrow> prey_action \<Rightarrow> prey_option \<Rightarrow> 8 word \<Rightarrow> u16
      \<Rightarrow> 'm hunter \<Rightarrow> rng \<Rightarrow> 'm prey_result" where
  "parsePreyAction removeMoney e slotId action opt index raceId h r = (case getPreySlotById slotId h of
       None \<Rightarrow> Some (Refused Slot_Is_Locked, h, r)
     | Some s \<Rightarrow>
         if ps_state s = PreyDataState_Locked then Some (Refused Slot_Is_Locked, h, r)
         else (case action of
             PreyAction_ListReroll \<Rightarrow> prey_listReroll removeMoney e s h r
           | PreyAction_ListAll_Cards \<Rightarrow> prey_listCards e s h r
           | PreyAction_ListAll_Selection \<Rightarrow> prey_listSelection e raceId s h r
           | PreyAction_BonusReroll \<Rightarrow> prey_bonusReroll e s h r
           | PreyAction_MonsterSelection \<Rightarrow> prey_monsterSelection e index s h r
           | PreyAction_Option \<Rightarrow> prey_setOption e opt s h r
           | PreyAction_Other _ \<Rightarrow> Some (Unknown_Action, h, r)))"

definition task_wait :: "prey_env \<Rightarrow> task_slot \<Rightarrow> prey_refusal option" where
  "task_wait e s =
     (if ts_disabledUntil s \<ge> pe_now e then Some (Wait_Minutes ((ts_disabledUntil s - pe_now e) div 60000)) else None)"

definition task_restart :: "prey_env \<Rightarrow> task_slot \<Rightarrow> 'm hunter \<Rightarrow> rng \<Rightarrow> 'm prey_result" where
  "task_restart e s h r =
     (let (s1, r1) = reloadReward e (eraseTask s) r;
          s2 = s1\<lparr>ts_state := PreyTaskDataState_Selection\<rparr>;
          h1 = store_task s2 h
      in do {(s3, r2) \<leftarrow> task_reloadMonsterGrid e (getTaskHuntingBlackList h1) s2 r1;
             Some (Served, store_task s3 h1, r2)})"

definition task_listReroll ::
    "(u64 \<Rightarrow> 'm \<Rightarrow> bool \<times> 'm) \<Rightarrow> prey_env \<Rightarrow> task_slot \<Rightarrow> 'm hunter \<Rightarrow> rng \<Rightarrow> 'm prey_result" where
  "task_listReroll removeMoney e s h r = (case task_wait e s of
       Some w \<Rightarrow> Some (Refused w, h, r)
     | None \<Rightarrow>
         (case (if ts_freeReroll s > pe_now e then removeMoney (ucast (getTaskHuntingRerollPrice e)) (hu_money h)
                else (True, hu_money h)) of
            (False, m) \<Rightarrow> Some (Refused No_Money, h\<lparr>hu_money := m\<rparr>, r)
          | (True, m) \<Rightarrow>
              task_restart e (if ts_freeReroll s \<le> pe_now e
                  then s\<lparr>ts_freeReroll := pe_now e + pc_taskFreeRerollTime (pe_config e) * 1000\<rparr> else s)
                (h\<lparr>hu_money := m\<rparr>) r))"

definition task_rewardsReroll :: "prey_env \<Rightarrow> task_slot \<Rightarrow> 'm hunter \<Rightarrow> rng \<Rightarrow> 'm prey_result" where
  "task_rewardsReroll e s h r = (case usePreyCards (of_int (pc_taskBonusRerollPrice (pe_config e))) h of
       (False, h1) \<Rightarrow> Some (Refused No_Cards, h1, r)
     | (True, h1) \<Rightarrow> let (s1, r1) = reloadReward e s r in Some (Served, store_task s1 h1, r1))"

definition task_listCards :: "prey_env \<Rightarrow> task_slot \<Rightarrow> 'm hunter \<Rightarrow> rng \<Rightarrow> 'm prey_result" where
  "task_listCards e s h r = (case task_wait e s of
       Some w \<Rightarrow> Some (Refused w, h, r)
     | None \<Rightarrow> (case usePreyCards (of_int (pc_taskSelectionListPrice (pe_config e))) h of
         (False, h1) \<Rightarrow> Some (Refused No_Cards, h1, r)
       | (True, h1) \<Rightarrow> Some (Served, store_task (s\<lparr>ts_selectedRaceId := 0,
                                              ts_state := PreyTaskDataState_ListSelection\<rparr>) h1, r)))"

definition task_monsterSelection :: "prey_env \<Rightarrow> bool \<Rightarrow> u16 \<Rightarrow> task_slot \<Rightarrow> 'm hunter \<Rightarrow> rng \<Rightarrow> 'm prey_result" where
  "task_monsterSelection e upgrade raceId s h r = (case task_wait e s of
       Some w \<Rightarrow> Some (Refused w, h, r)
     | None \<Rightarrow>
         if \<not> task_canSelect s then Some (Refused Selection_Error, h, r)
         else if task_isOccupied s then Some (Refused Already_Active, h, r)
         else if ts_state s = PreyTaskDataState_Selection \<and> \<not> isCreatureOnList raceId s
         then Some (Refused Selection_Error, h, r)
         else if getTaskHuntingWithCreature e raceId h \<noteq> None then Some (Refused Already_Selected, h, r)
         else (case getMonsterTypeByRaceId e raceId of
             None \<Rightarrow> Some (Served, h, r)
           | Some mi \<Rightarrow>
               Some (Served, store_task ((task_removeMonsterType raceId (s\<lparr>ts_currentKills := 0, ts_selectedRaceId := raceId\<rparr>))
                   \<lparr>ts_state := PreyTaskDataState_Active,
                    ts_upgrade := upgrade \<and> isCreatureUnlockedOnTaskHunting e mi\<rparr>) h, r)))"

definition task_cancel ::
    "(u64 \<Rightarrow> 'm \<Rightarrow> bool \<times> 'm) \<Rightarrow> prey_env \<Rightarrow> task_slot \<Rightarrow> 'm hunter \<Rightarrow> rng \<Rightarrow> 'm prey_result" where
  "task_cancel removeMoney e s h r =
     (case removeMoney (ucast (getTaskHuntingRerollPrice e)) (hu_money h) of
        (False, m) \<Rightarrow> Some (Refused No_Money, h\<lparr>hu_money := m\<rparr>, r)
      | (True, m) \<Rightarrow> task_restart e s (h\<lparr>hu_money := m\<rparr>) r)"

definition claim_boost :: "u8 \<Rightarrow> int \<Rightarrow> int" where
  "claim_boost rarity boostChange =
     (if rarity \<ge> 4 \<and> boostChange \<le> 5 then 20 else if rarity \<ge> 4 \<and> boostChange \<le> 10 then 15 else 10)"

definition claim_reward :: "task_slot \<Rightarrow> task_option \<Rightarrow> u16 option" where
  "claim_reward s opt =
     (if ts_upgrade s \<and> ts_currentKills s \<ge> to_secondKills opt then Some (to_secondReward opt)
      else if \<not> ts_upgrade s \<and> ts_currentKills s \<ge> to_firstKills opt then Some (to_firstReward opt) else None)"

definition task_claim :: "prey_env \<Rightarrow> task_slot \<Rightarrow> 'm hunter \<Rightarrow> rng \<Rightarrow> 'm prey_result" where
  "task_claim e s h r =
     (if \<not> task_isOccupied s then Some (Refused Claim_Empty, h, r)
      else case getTaskRewardOption e s of
        None \<Rightarrow> Some (Served, h, r)
      | Some opt \<Rightarrow>
          let (chance, r1) = uniform_random 0 100 r;
              boostChange = claim_boost (ts_rarity s) chance
          in case claim_reward s opt of
               None \<Rightarrow> Some (Refused Claim_Error, h, r1)
             | Some base \<Rightarrow>
                 let reward = (ucast base :: u64) * of_int boostChange div 10;
                     (s1, r2) = reloadReward e (eraseTask s) r1;
                     s2 = s1\<lparr>ts_state := PreyTaskDataState_Inactive\<rparr>;
                     h1 = addTaskHuntingPoints reward (store_task s2 h)
                 in do {(s3, r3) \<leftarrow> task_reloadMonsterGrid e (getTaskHuntingBlackList h1) s2 r2;
                        Some (Rewarded reward boostChange,
                              store_task (s3\<lparr>ts_disabledUntil := pe_now e + pc_taskLimitExhaust (pe_config e) * 1000\<rparr>) h1, r3)})"

definition parseTaskHuntingAction ::
    "(u64 \<Rightarrow> 'm \<Rightarrow> bool \<times> 'm) \<Rightarrow> prey_env \<Rightarrow> u8 \<Rightarrow> task_action \<Rightarrow> bool \<Rightarrow> u16 \<Rightarrow> 'm hunter \<Rightarrow> rng \<Rightarrow> 'm prey_result" where
  "parseTaskHuntingAction removeMoney e slotId action upgrade raceId h r = (case getTaskHuntingSlotById slotId h of
       None \<Rightarrow> Some (Refused Slot_Is_Locked, h, r)
     | Some s \<Rightarrow>
         if ts_state s = PreyTaskDataState_Locked then Some (Refused Slot_Is_Locked, h, r)
         else (case action of
             PreyTaskAction_ListReroll \<Rightarrow> task_listReroll removeMoney e s h r
           | PreyTaskAction_RewardsReroll \<Rightarrow> task_rewardsReroll e s h r
           | PreyTaskAction_ListAll_Cards \<Rightarrow> task_listCards e s h r
           | PreyTaskAction_MonsterSelection \<Rightarrow> task_monsterSelection e upgrade raceId s h r
           | PreyTaskAction_Cancel \<Rightarrow> task_cancel removeMoney e s h r
           | PreyTaskAction_Claim \<Rightarrow> task_claim e s h r
           | PreyTaskAction_Other _ \<Rightarrow> Some (Unknown_Action, h, r)))"

subsection \<open>Packets\<close>

text \<open>The fields a packet carries depend on the action; a packet is dropped while the system is off.\<close>

definition proto_parsePreyAction ::
    "prey_env \<Rightarrow> netmsg \<Rightarrow> (u8 \<times> u8 \<times> u8 \<times> 8 word \<times> u16) option \<times> netmsg" where
  "proto_parsePreyAction e m0 =
     (let (slot, m1) = nm_getByte m0;
          (action, m2) = nm_getByte m1;
          (index, opt, raceId, m3) =
            (if action = 2 then let (b, m) = nm_getByte m2 in (b, 0, 0, m)
             else if action = 5 then let (b, m) = nm_getByte m2 in (-1, b, 0, m)
             else if action = 4 then let (v, m) = nm_get m2 in (-1, 0, v, m)
             else (-1, 0, 0, m2))
      in (if \<not> pc_preyEnabled (pe_config e) then None else Some (slot, action, opt, index, raceId), m3))"

definition proto_parseTaskHuntingAction ::
    "prey_env \<Rightarrow> bool \<Rightarrow> netmsg \<Rightarrow> (u8 \<times> u8 \<times> bool \<times> u16) option \<times> netmsg" where
  "proto_parseTaskHuntingAction e oldProtocol m0 =
     (if oldProtocol then (None, m0)
      else let (slot, m1) = nm_getByte m0;
          (action, m2) = nm_getByte m1;
          (upgrade, m3) = nm_getByte m2;
          (raceId, m4) = nm_get m3
      in (if \<not> pc_taskEnabled (pe_config e) then None else Some (slot, action, upgrade \<noteq> 0, raceId), m4))"

definition playerPreyAction ::
    "(u64 \<Rightarrow> 'm \<Rightarrow> bool \<times> 'm) \<Rightarrow> prey_env \<Rightarrow> u8 \<times> u8 \<times> u8 \<times> 8 word \<times> u16 \<Rightarrow> 'm hunter \<Rightarrow> rng \<Rightarrow> 'm prey_result" where
  "playerPreyAction removeMoney e args h r = (case args of (slot, action, opt, index, raceId) \<Rightarrow>
     parsePreyAction removeMoney e slot (prey_action_of action) (prey_option_of opt) index raceId h r)"

definition playerTaskHuntingAction ::
    "(u64 \<Rightarrow> 'm \<Rightarrow> bool \<times> 'm) \<Rightarrow> prey_env \<Rightarrow> u8 \<times> u8 \<times> bool \<times> u16 \<Rightarrow> 'm hunter \<Rightarrow> rng \<Rightarrow> 'm prey_result" where
  "playerTaskHuntingAction removeMoney e args h r = (case args of (slot, action, upgrade, raceId) \<Rightarrow>
     parseTaskHuntingAction removeMoney e slot (task_action_of action) upgrade raceId h r)"

end
