(* ===== verification/Prey_Grid.thy ===== *)
theory Prey_Grid
  imports Prey
begin

text \<open>
  The grids of creatures of the prey and task slots: what a completed grid contains, when the loop
  that fills it ends, and when it cannot.
\<close>

subsection \<open>One draw\<close>

lemma uniform_random_range:
  assumes "minNumber \<le> maxNumber"
  shows "minNumber \<le> fst (uniform_random minNumber maxNumber r) \<and> fst (uniform_random minNumber maxNumber r) \<le> maxNumber"
  using assms by (auto simp: uniform_random_def pos_mod_bound zle_add1_eq_le
      intro: order.trans [OF _ add_left_mono [of _ _ minNumber]])
     (metis add.commute diff_add_cancel less_iff_diff_less_0 not_less pos_mod_bound zle_add1_eq_le zle_diff1_eq add_le_cancel_right diff_add_eq le_diff_eq)

definition star_class :: "u8 \<Rightarrow> nat" where
  "star_class stars = (if stars \<le> 1 then 1 else if stars = 2 then 2 else if stars = 3 then 3 else 4)"

definition places :: "nat \<Rightarrow> grid \<Rightarrow> u8" where
  "places k g = (if k = 1 then gr_one g else if k = 2 then gr_two g else if k = 3 then gr_three g else gr_four g)"

definition huntable :: "(u16 \<Rightarrow> monster_info option) \<Rightarrow> u16 \<Rightarrow> bool" where
  "huntable mtype x \<longleftrightarrow> (case mtype x of None \<Rightarrow> False | Some mi \<Rightarrow> mi_experience mi \<noteq> 0)"

definition race_class :: "(u16 \<Rightarrow> monster_info option) \<Rightarrow> u16 \<Rightarrow> nat" where
  "race_class mtype x = star_class (mi_bestiaryStars (the (mtype x)))"

lemma race_class_range: "race_class mtype x \<in> {1, 2, 3, 4}"
  by (simp add: race_class_def star_class_def)

lemma stars_four: "\<not> stars \<le> 1 \<Longrightarrow> stars \<noteq> 2 \<Longrightarrow> stars \<noteq> 3 \<Longrightarrow> 4 \<le> (stars :: u8)"
  by (auto simp: word_le_nat_alt word_unat_eq_iff)

text \<open>The chain of tests picks the place of the creature's class.\<close>

lemma grid_step_black: "x \<in> set (gr_black g) \<Longrightarrow> grid_step mtype x g = g\<lparr>gr_tries := gr_tries g + 1\<rparr>"
  by (simp add: Let_def grid_step_def)

lemma grid_step_unhuntable:
  "x \<notin> set (gr_black g) \<Longrightarrow> \<not> huntable mtype x \<Longrightarrow>
   grid_step mtype x g = g\<lparr>gr_tries := gr_tries g + 1, gr_black := gr_black g @ [x]\<rparr>"
  by (auto simp: Let_def grid_step_def huntable_def split: option.splits)

lemma grid_step_huntable:
  assumes "x \<notin> set (gr_black g)" and "huntable mtype x"
  shows "gr_black (grid_step mtype x g) = gr_black g @ [x]"
    and "gr_list (grid_step mtype x g) =
      (if places (race_class mtype x) g \<noteq> 0 \<or> gr_tries g + 1 \<ge> 10 then gr_list g @ [x] else gr_list g)"
    and "k \<in> {1, 2, 3, 4} \<Longrightarrow> places k (grid_step mtype x g) =
      (if k = race_class mtype x \<and> places k g \<noteq> 0 then places k g - 1 else places k g)"
proof -
  obtain mi where mi: "mtype x = Some mi" "mi_experience mi \<noteq> 0"
    using assms(2) by (auto simp: huntable_def split: option.splits)
  have f1: "s \<le> 1 \<Longrightarrow> s \<noteq> 2 \<and> s \<noteq> 3 \<and> \<not> 4 \<le> s" and f4: "4 \<le> s \<Longrightarrow> \<not> s \<le> 1 \<and> s \<noteq> 2 \<and> s \<noteq> 3" for s :: u8
    by (auto simp: word_le_nat_alt word_unat_eq_iff)
  define s where "s = mi_bestiaryStars mi"
  consider "s \<le> 1" "s \<noteq> 2" "s \<noteq> 3" "\<not> 4 \<le> s" | "s = 2" "\<not> s \<le> 1" "\<not> 4 \<le> s" | "s = 3" "\<not> s \<le> 1" "\<not> 4 \<le> s"
    | "4 \<le> s" "\<not> s \<le> 1" "s \<noteq> 2" "s \<noteq> 3"
    using stars_four [of s] f1 [of s] f4 [of s] by blast
  note c = this
  show "gr_black (grid_step mtype x g) = gr_black g @ [x]"
    using assms(1) mi by (simp add: Let_def grid_step_def)
  show "gr_list (grid_step mtype x g) =
      (if places (race_class mtype x) g \<noteq> 0 \<or> gr_tries g + 1 \<ge> 10 then gr_list g @ [x] else gr_list g)"
    using c
    by cases (use assms(1) mi in \<open>simp_all add: Let_def grid_step_def race_class_def star_class_def places_def flip: s_def\<close>)
  show "k \<in> {1, 2, 3, 4} \<Longrightarrow> places k (grid_step mtype x g) =
      (if k = race_class mtype x \<and> places k g \<noteq> 0 then places k g - 1 else places k g)"
    using c
    by cases (use assms(1) mi in \<open>auto simp: Let_def grid_step_def race_class_def star_class_def places_def simp flip: s_def\<close>)
qed

subsection \<open>The supply of creatures\<close>

definition unseen :: "u16 list \<Rightarrow> grid \<Rightarrow> u16 set" where
  "unseen races g = set races - set (gr_black g)"

definition candidates :: "(u16 \<Rightarrow> monster_info option) \<Rightarrow> u16 list \<Rightarrow> u16 list \<Rightarrow> nat \<Rightarrow> u16 set" where
  "candidates mtype races black k = {x \<in> set races. x \<notin> set black \<and> huntable mtype x \<and> race_class mtype x = k}"

definition supplied :: "(u16 \<Rightarrow> monster_info option) \<Rightarrow> u16 list \<Rightarrow> grid \<Rightarrow> bool" where
  "supplied mtype races g \<longleftrightarrow>
     (\<forall>k\<in>{1, 2, 3, 4}. unat (places k g) \<le> card (candidates mtype races (gr_black g) k)) \<and>
     9 \<le> length (gr_list g) + (\<Sum>k\<in>{1, 2, 3, 4}. unat (places k g))"

lemma candidates_append:
  "candidates mtype races (black @ [x]) k = candidates mtype races black k - {x}"
  by (auto simp: candidates_def)

lemma finite_candidates [simp]: "finite (candidates mtype races black k)"
  by (simp add: candidates_def)

lemma unat_places_step:
  "unat (if c \<and> p \<noteq> 0 then p - 1 else p :: u8) = (if c then unat p - 1 else unat p)"
  by (auto simp: unat_minus_one)

lemma supplied_step:
  assumes s: "supplied mtype races g" and x: "x \<in> set races"
  shows "supplied mtype races (grid_step mtype x g)"
proof (cases "x \<in> set (gr_black g)")
  case True
  then show ?thesis using s by (simp add: grid_step_black supplied_def places_def)
next
  case new: False
  let ?g = "grid_step mtype x g"
  show ?thesis
  proof (cases "huntable mtype x")
    case False
    then have "candidates mtype races (gr_black g @ [x]) k = candidates mtype races (gr_black g) k" for k
      by (auto simp: candidates_append) (auto simp: candidates_def)
    then show ?thesis using s new False by (simp add: grid_step_unhuntable supplied_def places_def)
  next
    case h: True
    define c where "c = race_class mtype x"
    have c: "c \<in> {1, 2, 3, 4}" unfolding c_def by (rule race_class_range)
    note step = grid_step_huntable [OF new h, folded c_def]
    have mem: "x \<in> candidates mtype races (gr_black g) k \<longleftrightarrow> k = c" for k
      using x new h by (auto simp: candidates_def c_def)
    have card: "card (candidates mtype races (gr_black ?g) k)
        = (if k = c then card (candidates mtype races (gr_black g) k) - 1 else card (candidates mtype races (gr_black g) k))" for k
      by (simp add: step(1) candidates_append mem)
    have pl: "k \<in> {1, 2, 3, 4} \<Longrightarrow> unat (places k ?g) = (if k = c then unat (places k g) - 1 else unat (places k g))" for k
      by (simp only: step(3) unat_places_step)
    have le: "\<forall>k\<in>{1, 2, 3, 4}. unat (places k ?g) \<le> card (candidates mtype races (gr_black ?g) k)"
      using s by (auto simp: supplied_def card pl simp del: insert_iff singleton_iff)
    have sum: "(\<Sum>k\<in>{1, 2, 3, 4}. unat (places k ?g)) + (if places c g \<noteq> 0 then 1 else 0)
        = (\<Sum>k\<in>{1, 2, 3, 4}. unat (places k g))"
      using c pl [of 1] pl [of 2] pl [of 3] pl [of 4]
      by (auto simp: unat_eq_zero unat_gt_0 split: if_splits)
    have "length (gr_list g) + (if places c g \<noteq> 0 then 1 else 0) \<le> length (gr_list ?g)"
      by (simp add: step(2))
    then have "9 \<le> length (gr_list ?g) + (\<Sum>k\<in>{1, 2, 3, 4}. unat (places k ?g))"
      using s sum unfolding supplied_def by linarith
    with le show ?thesis by (simp add: supplied_def)
  qed
qed

lemma supplied_unseen:
  assumes "supplied mtype races g" and "length (gr_list g) < 9"
  shows "unseen races g \<noteq> {}"
proof -
  have "\<exists>k\<in>{1, 2, 3, 4}. unat (places k g) \<noteq> 0"
  proof (rule ccontr)
    assume "\<not> ?thesis"
    then have "(\<Sum>k\<in>{1, 2, 3, 4}. unat (places k g)) = 0" by simp
    then show False using assms unfolding supplied_def by linarith
  qed
  then obtain k where "k \<in> {1, 2, 3, 4}" "card (candidates mtype races (gr_black g) k) \<noteq> 0"
    using assms(1) unfolding supplied_def by (metis le_zero_eq)
  then have "candidates mtype races (gr_black g) k \<noteq> {}" by auto
  then show ?thesis by (auto simp: candidates_def unseen_def)
qed

definition fair :: "nat \<Rightarrow> rng \<Rightarrow> bool" where
  "fair n r \<longleftrightarrow> (\<forall>i<n. \<forall>m. \<exists>k\<ge>m. r k mod n = i)"

lemma fair_tail: "fair n r \<Longrightarrow> fair n (\<lambda>k. r (Suc k))"
  unfolding fair_def by (metis Suc_le_D Suc_le_mono)

lemma draw_index:
  assumes "1 < n"
  shows "uniform_random 0 (int n - 1) r = (int (r 0 mod n), \<lambda>k. r (Suc k))"
  using assms by (simp add: uniform_random_def zmod_int)

lemma unseen_step_subset: "unseen races (grid_step mtype x g) \<subseteq> unseen races g"
  by (cases "x \<in> set (gr_black g)"; cases "huntable mtype x")
     (auto simp: unseen_def grid_step_black grid_step_unhuntable grid_step_huntable(1))

lemma unseen_step_new: "x \<in> unseen races g \<Longrightarrow> unseen races (grid_step mtype x g) = unseen races g - {x}"
  by (cases "huntable mtype x") (auto simp: unseen_def grid_step_unhuntable grid_step_huntable(1))

lemma finite_unseen [simp]: "finite (unseen races g)"
  by (simp add: unseen_def)

text \<open>Every draw of a creature not seen before shrinks the supply, and a fair stream makes one come.\<close>

lemma grid_loop_returns:
  assumes "1 < length races" and "supplied mtype races g" and "fair (length races) r"
  shows "\<exists>res. grid_loop mtype races g r = Some res"
  using assms(2,3)
proof (induction "card (unseen races g)" arbitrary: g r rule: less_induct)
  case less
  let ?n = "length races"
  have step: "\<exists>res. grid_loop mtype races g' r' = Some res"
    if "supplied mtype races g'" and "fair ?n r'"
      and "\<exists>res. grid_loop mtype races (grid_step mtype (races ! (r' 0 mod ?n)) g') (\<lambda>k. r' (Suc k)) = Some res" for g' r'
    using that(3) assms(1) by (subst grid_loop.simps) (simp add: draw_index)
  have wait: "\<exists>res. grid_loop mtype races g' r' = Some res"
    if "supplied mtype races g'" and "fair ?n r'" and "unseen races g' = unseen races g"
      and "races ! (r' d mod ?n) \<in> unseen races g" for d g' r'
    using that
  proof (induction d arbitrary: g' r')
    case 0
    let ?x = "races ! (r' 0 mod ?n)"
    have lt: "card (unseen races (grid_step mtype ?x g')) < card (unseen races g)"
      using 0 by (metis unseen_step_new card_Diff1_less finite_unseen)
    have x: "?x \<in> set races" using assms(1) by (intro nth_mem mod_less_divisor) linarith
    show ?case
      by (rule step [OF 0(1,2)]) (rule less.hyps [OF lt supplied_step [OF 0(1) x] fair_tail [OF 0(2)]])
  next
    case (Suc d)
    let ?x = "races ! (r' 0 mod ?n)"
    have x: "?x \<in> set races" using assms(1) by (intro nth_mem mod_less_divisor) linarith
    have s: "supplied mtype races (grid_step mtype ?x g')" using supplied_step [OF Suc.prems(1) x] .
    show ?case
    proof (cases "?x \<in> unseen races g'")
      case True
      then have lt: "card (unseen races (grid_step mtype ?x g')) < card (unseen races g)"
        using Suc.prems(3) by (metis unseen_step_new card_Diff1_less finite_unseen)
      show ?thesis by (rule step [OF Suc.prems(1,2)]) (rule less.hyps [OF lt s fair_tail [OF Suc.prems(2)]])
    next
      case False
      then have same: "unseen races (grid_step mtype ?x g') = unseen races g"
        using x Suc.prems(3) by (auto simp: unseen_def grid_step_black)
      show ?thesis
        by (rule step [OF Suc.prems(1,2)]) (rule Suc.IH [OF s fair_tail [OF Suc.prems(2)] same Suc.prems(4)])
    qed
  qed
  show ?case
  proof (cases "length (gr_list g) < 9")
    case False
    then show ?thesis by (subst grid_loop.simps) simp
  next
    case True
    then obtain x where "x \<in> unseen races g" using supplied_unseen less.prems(1) by blast
    then obtain i where i: "i < length races" "races ! i \<in> unseen races g"
      by (metis DiffE in_set_conv_nth unseen_def)
    then obtain d where "r d mod length races = i" using less.prems(2) unfolding fair_def by blast
    then show ?thesis using wait [OF less.prems refl, of d] i by simp
  qed
qed

subsection \<open>Completed grids\<close>

definition grid_inv :: "(u16 \<Rightarrow> monster_info option) \<Rightarrow> u16 list \<Rightarrow> u16 list \<Rightarrow> grid \<Rightarrow> bool" where
  "grid_inv mtype races black0 g \<longleftrightarrow>
     length (gr_list g) \<le> 9 \<and> distinct (gr_list g) \<and> set (gr_list g) \<subseteq> set (gr_black g) \<and> set black0 \<subseteq> set (gr_black g) \<and>
     (\<forall>x\<in>set (gr_list g). x \<in> set races \<and> huntable mtype x \<and> x \<notin> set black0)"

lemma grid_inv_step:
  assumes "grid_inv mtype races black0 g" and "x \<in> set races" and "length (gr_list g) < 9"
  shows "grid_inv mtype races black0 (grid_step mtype x g)"
proof (cases "x \<in> set (gr_black g)")
  case True
  then show ?thesis using assms by (simp add: grid_step_black grid_inv_def)
next
  case False
  then show ?thesis
  proof (cases "huntable mtype x")
    case True
    with False show ?thesis using assms
      by (auto simp: grid_inv_def grid_step_huntable(1,2))
  next
    case u: False
    with False show ?thesis using assms by (auto simp: grid_inv_def grid_step_unhuntable)
  qed
qed

lemma grid_loop_sound_raw:
  assumes "grid_loop mtype races g r = Some res"
  shows "1 < length races \<longrightarrow> grid_inv mtype races black0 g \<longrightarrow> length (fst res) = 9 \<and> distinct (fst res) \<and>
     (\<forall>x\<in>set (fst res). x \<in> set races \<and> huntable mtype x \<and> x \<notin> set black0)"
proof (rule grid_loop.raw_induct [OF _ assms], intro impI)
  fix loop mtype races g r res
  assume IH: "\<And>races g r b y. loop races g r b = Some y \<Longrightarrow> 1 < length g \<longrightarrow> grid_inv races g black0 r \<longrightarrow>
      length (fst y) = 9 \<and> distinct (fst y) \<and> (\<forall>x\<in>set (fst y). x \<in> set g \<and> huntable races x \<and> x \<notin> set black0)"
    and eq: "(if length (gr_list g) < 9
       then let (i, r1) = uniform_random 0 (int (length races) - 1) r
            in loop mtype races (grid_step mtype (races ! nat i) g) r1
       else Some (gr_list g, r)) = Some res"
    and n: "1 < length races" and inv: "grid_inv mtype races black0 g"
  show "length (fst res) = 9 \<and> distinct (fst res) \<and> (\<forall>x\<in>set (fst res). x \<in> set races \<and> huntable mtype x \<and> x \<notin> set black0)"
  proof (cases "length (gr_list g) < 9")
    case True
    let ?x = "races ! (r 0 mod length races)"
    have "?x \<in> set races" using n by (intro nth_mem mod_less_divisor) linarith
    then have "grid_inv mtype races black0 (grid_step mtype ?x g)"
      using grid_inv_step [OF inv _ True] by blast
    moreover have "loop mtype races (grid_step mtype ?x g) (\<lambda>k. r (Suc k)) = Some res"
      using eq True n by (simp add: draw_index)
    ultimately show ?thesis using IH n by blast
  next
    case False
    then show ?thesis using eq inv by (auto simp: grid_inv_def)
  qed
qed

lemma grid_loop_sound:
  assumes "grid_loop mtype races g r = Some (l, r')" and "1 < length races" and "grid_inv mtype races black0 g"
  shows "length l = 9 \<and> distinct l \<and> (\<forall>x\<in>set l. x \<in> set races \<and> huntable mtype x \<and> x \<notin> set black0)"
  using grid_loop_sound_raw [OF assms(1), of black0] assms(2,3) by simp

lemma grid_start_simps [simp]:
  "gr_list (grid_start black level) = []" "gr_black (grid_start black level) = black"
  by (auto simp: grid_start_def Let_def split: prod.splits)

lemma grid_start_places: "(\<Sum>k\<in>{1, 2, 3, 4}. unat (places k (grid_start black level))) = 9"
  by (simp add: grid_start_def places_def Let_def)

lemma grid_inv_start: "grid_inv mtype races black (grid_start black level)"
  by (simp add: grid_inv_def)

abbreviation bestiary_races :: "prey_env \<Rightarrow> u16 list" where "bestiary_races e \<equiv> map fst (pe_bestiary e)"

lemma reload_grid_sound:
  assumes "reload_grid enabled e black r = Some (l, r')"
  shows "l = [] \<or> length l = 9" and "distinct l"
    and "\<forall>x\<in>set l. x \<in> set (bestiary_races e) \<and> huntable (getMonsterTypeByRaceId e) x \<and> x \<notin> set black"
proof -
  have "l = [] \<or> (length l = 9 \<and> distinct l \<and>
      (\<forall>x\<in>set l. x \<in> set (bestiary_races e) \<and> huntable (getMonsterTypeByRaceId e) x \<and> x \<notin> set black))"
  proof (cases "enabled \<and> 36 \<le> length (pe_bestiary e)")
    case True
    then have "grid_loop (getMonsterTypeByRaceId e) (bestiary_races e) (grid_start black (pe_level e)) r = Some (l, r')"
      using assms by (simp add: reload_grid_def)
    moreover have "1 < length (bestiary_races e)" using True by simp
    ultimately show ?thesis using grid_loop_sound grid_inv_start by blast
  next
    case False
    then show ?thesis using assms by (auto simp: reload_grid_def split: if_splits)
  qed
  then show "l = [] \<or> length l = 9" "distinct l"
    "\<forall>x\<in>set l. x \<in> set (bestiary_races e) \<and> huntable (getMonsterTypeByRaceId e) x \<and> x \<notin> set black"
    by auto
qed

text \<open>C16: with enough unused creatures of every difficulty the grid is completed on every stream of
  draws that is fair: nine different creatures of the bestiary, none of them on the black list.
\<close>

theorem grid_completed:
  assumes "36 \<le> length (pe_bestiary e)" and "fair (length (pe_bestiary e)) r"
    and "\<forall>k\<in>{1, 2, 3, 4}. unat (places k (grid_start black (pe_level e)))
           \<le> card (candidates (getMonsterTypeByRaceId e) (bestiary_races e) black k)"
  shows "\<exists>l r'. reload_grid True e black r = Some (l, r') \<and> length l = 9 \<and> distinct l \<and>
      (\<forall>x\<in>set l. x \<in> set (bestiary_races e) \<and> huntable (getMonsterTypeByRaceId e) x \<and> x \<notin> set black)"
proof -
  let ?m = "getMonsterTypeByRaceId e" and ?g = "grid_start black (pe_level e)"
  have n: "1 < length (bestiary_races e)" using assms(1) by simp
  have "supplied ?m (bestiary_races e) ?g" using assms(3) grid_start_places by (simp add: supplied_def del: insert_iff)
  then obtain l r' where res: "grid_loop ?m (bestiary_races e) ?g r = Some (l, r')"
    using grid_loop_returns [OF n] assms(2) by fastforce
  then have "reload_grid True e black r = Some (l, r')" using assms(1) by (simp add: reload_grid_def)
  then show ?thesis using grid_loop_sound [OF res n grid_inv_start] by blast
qed

definition sample_name :: "nat \<Rightarrow> string" where "sample_name n = replicate n CHR ''a''"

lemma length_sample_name [simp]: "length (sample_name n) = n"
  by (simp add: sample_name_def)

definition sample_bestiary :: "(u16 \<times> string) list" where
  "sample_bestiary =
     [(1, sample_name 1), (2, sample_name 1), (3, sample_name 1), (4, sample_name 1), (5, sample_name 1),
     (6, sample_name 1), (7, sample_name 1), (8, sample_name 1), (9, sample_name 1), (10, sample_name 2),
     (11, sample_name 2), (12, sample_name 2), (13, sample_name 2), (14, sample_name 2), (15, sample_name
     2), (16, sample_name 2), (17, sample_name 2), (18, sample_name 2), (19, sample_name 3), (20,
     sample_name 3), (21, sample_name 3), (22, sample_name 3), (23, sample_name 3), (24, sample_name 3),
     (25, sample_name 3), (26, sample_name 3), (27, sample_name 3), (28, sample_name 4), (29, sample_name
     4), (30, sample_name 4), (31, sample_name 4), (32, sample_name 4), (33, sample_name 4), (34,
     sample_name 4), (35, sample_name 4), (36, sample_name 4)]"

definition sample_monster :: "string \<Rightarrow> monster_info option" where
  "sample_monster name = Some \<lparr>mi_raceid = 1, mi_experience = 10,
     mi_bestiaryStars = of_nat (length name), mi_bestiaryToUnlock = 5\<rparr>"

definition sample_config :: prey_config where
  "sample_config = \<lparr>pc_preyEnabled = True, pc_preyFreeThirdSlot = False, pc_preyRerollPriceLevel = 200,
     pc_preySelectionListPrice = 5, pc_preyBonusTime = 7200, pc_preyBonusRerollPrice = 1,
     pc_preyFreeRerollTime = 72000, pc_taskEnabled = True, pc_taskFreeThirdSlot = False,
     pc_taskLimitExhaust = 72000, pc_taskRerollPriceLevel = 200, pc_taskSelectionListPrice = 5,
     pc_taskBonusRerollPrice = 1, pc_taskFreeRerollTime = 72000\<rparr>"

definition sample_prey_env :: prey_env where
  "sample_prey_env = \<lparr>pe_config = sample_config, pe_now = 1000, pe_bestiary = sample_bestiary,
     pe_monster = sample_monster, pe_level = 120, pe_premium = True, pe_killCount = (\<lambda>_. 3),
     pe_taskOption = difficulty_loop 25 [(PreyTaskDifficult_Easy, 1), (PreyTaskDifficult_Medium, 2), (PreyTaskDifficult_Hard, 3)]\<rparr>"

lemma fair_counter: "0 < n \<Longrightarrow> fair n (\<lambda>k. k)"
  unfolding fair_def
proof (intro allI impI)
  fix i m assume "0 < n" "i < n"
  then have "(i + m * n) mod n = i" by (simp only: mod_mult_self1 mod_less)
  moreover have "m * 1 \<le> m * n" using \<open>0 < n\<close> by (intro mult_le_mono2) linarith
  then have "m \<le> i + m * n" by linarith
  ultimately show "\<exists>k\<ge>m. k mod n = i" by blast
qed

lemma candidates_member:
  "(\<forall>x\<in>set xs. x \<in> set races \<and> x \<notin> set black \<and> huntable mtype x \<and> race_class mtype x = k) \<Longrightarrow>
   set xs \<subseteq> candidates mtype races black k"
  by (auto simp: candidates_def)

lemma candidates_card:
  assumes "set xs \<subseteq> candidates mtype races black k" and "distinct xs"
  shows "length xs \<le> card (candidates mtype races black k)"
  using card_mono [OF finite_candidates assms(1)] assms(2) by (simp add: distinct_card)

lemma grid_completed_witness:
  "36 \<le> length (pe_bestiary sample_prey_env) \<and>
   (\<exists>l r'. reload_grid True sample_prey_env [3, 7] (\<lambda>k. k) = Some (l, r') \<and> length l = 9 \<and> distinct l \<and>
      (\<forall>x\<in>set l. x \<in> set (bestiary_races sample_prey_env) \<and> huntable (getMonsterTypeByRaceId sample_prey_env) x \<and> x \<notin> set [3, 7]))"
proof
  show n: "36 \<le> length (pe_bestiary sample_prey_env)" by (simp only: sample_prey_env_def prey_env.simps sample_bestiary_def) simp
  show "\<exists>l r'. reload_grid True sample_prey_env [3, 7] (\<lambda>k. k) = Some (l, r') \<and> length l = 9 \<and> distinct l \<and>
      (\<forall>x\<in>set l. x \<in> set (bestiary_races sample_prey_env) \<and> huntable (getMonsterTypeByRaceId sample_prey_env) x \<and> x \<notin> set [3, 7])"
  proof (rule grid_completed [OF n])
    show "fair (length (pe_bestiary sample_prey_env)) (\<lambda>k. k)" using n by (intro fair_counter) linarith
    let ?c = "candidates (getMonsterTypeByRaceId sample_prey_env) (bestiary_races sample_prey_env) [3, 7]"
    have env: "getMonsterTypeByRaceId sample_prey_env = (\<lambda>x. Option.bind (map_of sample_bestiary x) sample_monster)"
      "bestiary_races sample_prey_env = map fst sample_bestiary"
      by (rule ext) (simp_all only: sample_prey_env_def getMonsterTypeByRaceId_def prey_env.simps)
    note sample = sample_bestiary_def sample_monster_def
      huntable_def race_class_def star_class_def word_le_nat_alt
    have "length [1 :: u16] \<le> card (?c 1)" "length [10 :: u16, 11, 12] \<le> card (?c 2)"
      "length [19 :: u16, 20, 21] \<le> card (?c 3)" "length [28 :: u16, 29] \<le> card (?c 4)"
      unfolding env by (rule candidates_card, rule candidates_member; simp add: sample)+
    then show "\<forall>k\<in>{1, 2, 3, 4}. unat (places k (grid_start [3, 7] (pe_level sample_prey_env))) \<le> card (?c k)"
      by (simp add: sample_prey_env_def grid_start_def places_def)
  qed
qed

subsection \<open>Starved grids\<close>

lemma find_find_index:
  "List.find p xs = (if find_index p xs < length xs then Some (xs ! find_index p xs) else None)"
  by (induction xs) auto

lemma reload_grid_starves:
  assumes "36 \<le> length (pe_bestiary e)"
    and "card {x \<in> set (bestiary_races e). huntable (getMonsterTypeByRaceId e) x \<and> x \<notin> set black} < 9"
  shows "reload_grid True e black r = None"
proof (rule ccontr)
  let ?m = "getMonsterTypeByRaceId e" and ?races = "bestiary_races e"
  assume "\<not> ?thesis"
  then obtain l r' where "grid_loop ?m ?races (grid_start black (pe_level e)) r = Some (l, r')"
    using assms(1) by (fastforce simp: reload_grid_def)
  moreover have "1 < length ?races" using assms(1) by simp
  ultimately have l: "length l = 9" "distinct l" "set l \<subseteq> {x \<in> set ?races. huntable ?m x \<and> x \<notin> set black}"
    using grid_loop_sound [OF _ _ grid_inv_start] by blast+
  then have "9 \<le> card {x \<in> set ?races. huntable ?m x \<and> x \<notin> set black}"
    using card_mono [OF _ l(3)] by (simp add: distinct_card)
  then show False using assms(2) by linarith
qed

lemma prey_found:
  assumes "getPreySlotById i h = Some s"
  obtains k where "k < length (hu_preys h)" "hu_preys h ! k = s" "ps_id s = i"
    "\<And>s'. ps_id s' = ps_id s \<Longrightarrow> store_prey s' h = h\<lparr>hu_preys := (hu_preys h)[k := s']\<rparr>"
proof -
  let ?k = "find_index (\<lambda>t. ps_id t = i) (hu_preys h)"
  have k: "?k < length (hu_preys h)" "hu_preys h ! ?k = s"
    using assms by (auto simp: getPreySlotById_def find_find_index split: if_splits)
  then have "ps_id s = i" using find_index_nth [OF k(1)] by simp
  with k show ?thesis by (intro that [of ?k]) (auto simp: store_prey_def)
qed

lemma black_list_covers:
  "t \<in> set (hu_preys h) \<Longrightarrow> set (ps_raceIdList t) \<subseteq> set (getPreyBlackList h)"
  by (auto simp: getPreyBlackList_def)

lemma eraseBonus_simps [simp]:
  "ps_id (eraseBonus b s) = ps_id s" "ps_raceIdList (eraseBonus b s) = ps_raceIdList s"
  "ps_selectedRaceId (eraseBonus b s) = 0" "ps_bonusTimeLeft (eraseBonus b s) = 0"
  "ps_state (eraseBonus b s) = PreyDataState_Selection" "ps_option (eraseBonus b s) = PreyOption_None"
  "ps_bonus (eraseBonus True s) = ps_bonus s" "ps_bonusRarity (eraseBonus True s) = ps_bonusRarity s"
  "ps_bonusPercentage (eraseBonus True s) = ps_bonusPercentage s"
  "ps_bonus (eraseBonus False s) = PreyBonus_None" "ps_bonusRarity (eraseBonus False s) = 1"
  "ps_bonusPercentage (eraseBonus False s) = 5"
  by (simp_all add: eraseBonus_def)

lemma finite_bestiary: "finite {x \<in> set (bestiary_races e). P x}"
  by simp

text \<open>When fewer than nine creatures with experience are left outside the lists of the player's
  slots, rerolling a list never returns: the loop that fills the grid has no other exit.
\<close>

lemma prey_reroll_hangs:
  assumes "getPreySlotById i h = Some s" and "ps_state s \<noteq> PreyDataState_Locked" and "ps_freeReroll s \<le> pe_now e"
    and "pc_preyEnabled (pe_config e)" and "36 \<le> length (pe_bestiary e)"
    and "card {x \<in> set (bestiary_races e). huntable (getMonsterTypeByRaceId e) x \<and>
               (\<forall>t\<in>set (hu_preys h). x \<notin> set (ps_raceIdList t))} < 9"
  shows "parsePreyAction removeMoney e i PreyAction_ListReroll opt index raceId h r = None"
proof -
  obtain k where k: "k < length (hu_preys h)" "hu_preys h ! k = s"
    and st: "\<And>s'. ps_id s' = ps_id s \<Longrightarrow> store_prey s' h = h\<lparr>hu_preys := (hu_preys h)[k := s']\<rparr>"
    using prey_found [OF assms(1)] by blast
  have starve: "reload_grid True e (getPreyBlackList h1) r = None"
    if h1: "hu_preys h1 = (hu_preys h)[k := s']" "ps_raceIdList s' = ps_raceIdList s" for h1 s'
  proof (rule reload_grid_starves [OF assms(5)])
    have covers: "x \<in> set (getPreyBlackList h1)" if t: "t \<in> set (hu_preys h)" and x: "x \<in> set (ps_raceIdList t)" for t x
    proof -
      obtain j where j: "j < length (hu_preys h)" "t = hu_preys h ! j" using t by (auto simp: in_set_conv_nth)
      then have "j < length (hu_preys h1)" "ps_raceIdList (hu_preys h1 ! j) = ps_raceIdList t"
        using h1 k by (auto simp: nth_list_update)
      then show ?thesis using black_list_covers [OF nth_mem, of j h1] x by auto
    qed
    have sub: "{x \<in> set (bestiary_races e). huntable (getMonsterTypeByRaceId e) x \<and> x \<notin> set (getPreyBlackList h1)}
        \<subseteq> {x \<in> set (bestiary_races e). huntable (getMonsterTypeByRaceId e) x \<and> (\<forall>t\<in>set (hu_preys h). x \<notin> set (ps_raceIdList t))}"
      by (intro Collect_mono) (auto dest: covers)
    show "card {x \<in> set (bestiary_races e). huntable (getMonsterTypeByRaceId e) x \<and> x \<notin> set (getPreyBlackList h1)} < 9"
      using card_mono [OF finite_bestiary sub] assms(6) by (rule le_less_trans)
  qed
  have same: "h\<lparr>hu_money := hu_money h\<rparr> = h" by simp
  show ?thesis
    using assms(1-4)
    by (simp add: parsePreyAction_def prey_listReroll_def Let_def prey_reloadMonsterGrid_def same st starve)
qed

definition sample_slot :: prey_slot where
  "sample_slot = \<lparr>ps_id = 0, ps_bonus = PreyBonus_Loot, ps_state = PreyDataState_Selection,
     ps_option = PreyOption_None, ps_raceIdList = [1, 2, 4, 5, 6, 8, 9], ps_bonusRarity = 3, ps_selectedRaceId = 0,
     ps_bonusPercentage = 19, ps_bonusTimeLeft = 0, ps_freeReroll = 0\<rparr>"

definition sample_hunter :: "unit hunter" where
  "sample_hunter = \<lparr>hu_preys = [sample_slot, sample_slot\<lparr>ps_id := 1, ps_raceIdList := [10]\<rparr>], hu_tasks = [],
     hu_preyCards = 2, hu_points = 0, hu_money = ()\<rparr>"

lemma prey_reroll_hangs_witness:
  "getPreySlotById 0 sample_hunter = Some sample_slot \<and>
   (let e = sample_prey_env\<lparr>pe_monster := \<lambda>name. if length name = 1 then sample_monster name else None\<rparr>
    in parsePreyAction (\<lambda>_ m. (True, m)) e 0 PreyAction_ListReroll PreyOption_None (-1) 0 sample_hunter (\<lambda>k. k) = None)"
proof -
  let ?e = "sample_prey_env\<lparr>pe_monster := \<lambda>name. if length name = 1 then sample_monster name else None\<rparr>"
  have slot: "getPreySlotById 0 sample_hunter = Some sample_slot"
    by (simp add: getPreySlotById_def sample_hunter_def sample_slot_def)
  have env: "getMonsterTypeByRaceId ?e x = Option.bind (map_of sample_bestiary x) (\<lambda>name. if length name = 1 then sample_monster name else None)"
    "bestiary_races ?e = map fst sample_bestiary" "length (pe_bestiary ?e) = 36" "ps_freeReroll sample_slot \<le> pe_now ?e"
    "pc_preyEnabled (pe_config ?e)" for x
    by (simp_all add: sample_prey_env_def getMonsterTypeByRaceId_def sample_bestiary_def sample_slot_def sample_config_def)
  have "{x \<in> set (bestiary_races ?e). huntable (getMonsterTypeByRaceId ?e) x \<and>
               (\<forall>t\<in>set (hu_preys sample_hunter). x \<notin> set (ps_raceIdList t))} \<subseteq> {3, 7}"
    unfolding env by (auto simp: sample_bestiary_def huntable_def sample_hunter_def sample_slot_def)
  then have "card {x \<in> set (bestiary_races ?e). huntable (getMonsterTypeByRaceId ?e) x \<and>
               (\<forall>t\<in>set (hu_preys sample_hunter). x \<notin> set (ps_raceIdList t))} < 9"
    by (rule order.strict_trans1 [OF card_mono, rotated]) simp_all
  from prey_reroll_hangs [OF slot _ env(4,5) _ this] slot env(3)
  show ?thesis by (simp add: Let_def sample_slot_def)
qed

end
