(* ===== verification/Money.thy ===== *)
theory Money
  imports Prelude "HOL-Library.Multiset"
begin

text \<open>
  The money a player carries (\<open>Game::removeMoney\<close>, \<open>Game::addMoney\<close> in \<open>game/game.cpp\<close>,
  \<open>Player::getMoney\<close>): coins lie in the inventory slots and in nested containers, next to the
  bank balance. Items are objects, so every stack has a reference. Where a new stack is put is
  decided by \<open>Game::internalAddItem\<close>, an argument here; a stack it refuses falls on the ground.
  Taking coins out of an inventory is taken to succeed.
\<close>

subsection \<open>Inventories\<close>


text \<open>A stack is a reference, an item id and a count; a container holds its items in order.\<close>

type_synonym stack = "nat \<times> u16 \<times> u8"

datatype inv_item = Stack stack | Container "inv_item list"

record wallet =
  wl_slots :: "inv_item option list"
  wl_balance :: u64
  wl_ground :: "(u16 \<times> u8) list"

definition unit_worth :: "u16 \<Rightarrow> u32" where
  "unit_worth i = (if i = ITEM_GOLD_COIN then 1 else if i = ITEM_PLATINUM_COIN then 100
     else if i = ITEM_CRYSTAL_COIN then 10000 else 0)"

definition getWorth :: "u16 \<Rightarrow> u8 \<Rightarrow> u32" where
  "getWorth i n = ucast n * unit_worth i"

definition stack_worth :: "stack \<Rightarrow> u32" where
  "stack_worth s = (case s of (r, i, n) \<Rightarrow> getWorth i n)"

text \<open>Both functions look at the slots first and then at the containers in the order they are met.\<close>

fun loose_stacks :: "inv_item list \<Rightarrow> stack list" where
  "loose_stacks [] = []"
| "loose_stacks (Stack s # l) = s # loose_stacks l"
| "loose_stacks (Container c # l) = loose_stacks l"

fun sub_containers :: "inv_item list \<Rightarrow> inv_item list list" where
  "sub_containers [] = []"
| "sub_containers (Stack s # l) = sub_containers l"
| "sub_containers (Container c # l) = c # sub_containers l"

lemma sub_containers_size: "size_list (size_list size) (sub_containers l) \<le> size_list size l"
  by (induction l rule: sub_containers.induct) auto

lemma size_list_append_eq: "size_list f (xs @ ys) = size_list f xs + size_list f ys"
  by (induction xs) auto

function visit_containers :: "inv_item list list \<Rightarrow> stack list" where
  "visit_containers [] = []"
| "visit_containers (c # cs) = loose_stacks c @ visit_containers (cs @ sub_containers c)"
  by pat_completeness auto
termination
proof (relation "measure (size_list (size_list size))")
  show "wf (measure (size_list (size_list (size :: inv_item \<Rightarrow> nat))))" by simp
  fix c :: "inv_item list" and cs
  show "(cs @ sub_containers c, c # cs) \<in> measure (size_list (size_list size))"
    using sub_containers_size [of c] by (simp add: size_list_append_eq)
qed

definition slot_items :: "inv_item option list \<Rightarrow> inv_item list" where
  "slot_items slots = List.map_filter id slots"

definition carried_stacks :: "inv_item option list \<Rightarrow> stack list" where
  "carried_stacks slots =
     (let items = slot_items slots in loose_stacks items @ visit_containers (sub_containers items))"

definition getMoney :: "wallet \<Rightarrow> u64" where
  "getMoney w = fold (\<lambda>s money. money + ucast (stack_worth s)) (carried_stacks (wl_slots w)) 0"

text \<open>\<open>internalRemoveItem\<close>: the stack with the reference loses the count, or disappears.\<close>

fun take_list :: "nat \<Rightarrow> u8 \<Rightarrow> inv_item list \<Rightarrow> inv_item list" where
  "take_list r n [] = []"
| "take_list r n (Stack (r', i, c) # l) =
     (if r' \<noteq> r then Stack (r', i, c) # take_list r n l
      else if c \<le> n then take_list r n l else Stack (r', i, c - n) # take_list r n l)"
| "take_list r n (Container items # l) = Container (take_list r n items) # take_list r n l"

definition take_slot :: "nat \<Rightarrow> u8 \<Rightarrow> inv_item option \<Rightarrow> inv_item option" where
  "take_slot r n x = (case x of None \<Rightarrow> None | Some item \<Rightarrow>
     (case take_list r n [item] of [] \<Rightarrow> None | item' # _ \<Rightarrow> Some item'))"

definition remove_item :: "nat \<Rightarrow> u8 \<Rightarrow> wallet \<Rightarrow> wallet" where
  "remove_item r n w = w\<lparr>wl_slots := map (take_slot r n) (wl_slots w)\<rparr>"

subsection \<open>Adding and removing money\<close>

definition add_stack ::
    "(u16 \<Rightarrow> u8 \<Rightarrow> inv_item option list \<Rightarrow> inv_item option list option) \<Rightarrow> u16 \<Rightarrow> u16 \<Rightarrow> wallet \<Rightarrow> wallet" where
  "add_stack addItem i n w = (case addItem i (ucast n) (wl_slots w) of
       Some slots \<Rightarrow> w\<lparr>wl_slots := slots\<rparr>
     | None \<Rightarrow> w\<lparr>wl_ground := (i, ucast n) # wl_ground w\<rparr>)"

function add_crystals ::
    "(u16 \<Rightarrow> u8 \<Rightarrow> inv_item option list \<Rightarrow> inv_item option list option) \<Rightarrow> u32 \<Rightarrow> wallet \<Rightarrow> wallet" where
  "add_crystals addItem n w =
     (if n > 0 then let stackCount = min 100 n
                    in add_crystals addItem (n - stackCount) (add_stack addItem ITEM_CRYSTAL_COIN (ucast stackCount) w)
      else w)"
  by pat_completeness auto
termination
  by (relation "measure (\<lambda>(_, n, _). unat n)")
     (auto simp: word_less_nat_alt min_def unat_sub_if' word_le_nat_alt)

definition addMoney ::
    "(u16 \<Rightarrow> u8 \<Rightarrow> inv_item option list \<Rightarrow> inv_item option list option) \<Rightarrow> u64 \<Rightarrow> wallet \<Rightarrow> wallet" where
  "addMoney addItem money w =
     (if money = 0 then w
      else let crystalCoins = ucast (money div 10000) :: u32;
               money1 = money - ucast (crystalCoins * 10000);
               w1 = add_crystals addItem crystalCoins w;
               platinumCoins = ucast (money1 div 100) :: u16;
               (w2, money2) = (if platinumCoins \<noteq> 0
                  then (add_stack addItem ITEM_PLATINUM_COIN platinumCoins w1, money1 - ucast platinumCoins * 100)
                  else (w1, money1))
        in if money2 \<noteq> 0 then add_stack addItem ITEM_GOLD_COIN (ucast money2) w2 else w2)"

text \<open>The map from worth to stacks keeps the stacks of one worth in the order they were found.\<close>

definition money_map :: "inv_item option list \<Rightarrow> (u32 \<times> stack) list" where
  "money_map slots = sort_key fst (map (\<lambda>s. (stack_worth s, s)) (filter (\<lambda>s. stack_worth s \<noteq> 0) (carried_stacks slots)))"

text \<open>\<open>None\<close>: the price is paid by a stack; otherwise what is left to pay.\<close>

fun pay_coins ::
    "(u16 \<Rightarrow> u8 \<Rightarrow> inv_item option list \<Rightarrow> inv_item option list option) \<Rightarrow> (u32 \<times> stack) list \<Rightarrow> u64 \<Rightarrow> wallet
      \<Rightarrow> u64 option \<times> wallet" where
  "pay_coins addItem [] money w = (Some money, w)"
| "pay_coins addItem ((worth1, r, i, c) # l) money w =
     (if ucast worth1 < money then pay_coins addItem l (money - ucast worth1) (remove_item r c w)
      else if ucast worth1 > money then
        let worth = worth1 div ucast c;
            removeCount = ucast ((money + ucast worth - 1) div ucast worth) :: u32
        in (None, remove_item r (ucast removeCount) (addMoney addItem (ucast (worth * removeCount) - money) w))
      else (None, remove_item r c w))"

definition removeMoney ::
    "(u16 \<Rightarrow> u8 \<Rightarrow> inv_item option list \<Rightarrow> inv_item option list option) \<Rightarrow> u64 \<Rightarrow> bool \<Rightarrow> wallet \<Rightarrow> bool \<times> wallet" where
  "removeMoney addItem money useBalance w =
     (if money = 0 then (True, w)
      else let balance = (if useBalance then wl_balance w else 0)
        in if getMoney w + balance < money then (False, w)
           else (case pay_coins addItem (money_map (wl_slots w)) money w of
               (None, w1) \<Rightarrow> (True, w1)
             | (Some rest, w1) \<Rightarrow>
                 (True, if useBalance \<and> wl_balance w1 \<ge> rest then w1\<lparr>wl_balance := wl_balance w1 - rest\<rparr> else w1)))"

subsection \<open>Stacks of an inventory\<close>

fun leaves :: "inv_item list \<Rightarrow> stack list" where
  "leaves [] = []"
| "leaves (Stack s # l) = s # leaves l"
| "leaves (Container c # l) = leaves c @ leaves l"

lemma leaves_append [simp]: "leaves (k @ l) = leaves k @ leaves l"
  by (induction k rule: leaves.induct) auto

lemma loose_and_nested: "mset (loose_stacks l) + (\<Sum>c\<leftarrow>sub_containers l. mset (leaves c)) = mset (leaves l)"
  by (induction l rule: sub_containers.induct) auto

lemma visit_containers_mset: "mset (visit_containers cs) = (\<Sum>c\<leftarrow>cs. mset (leaves c))"
proof (induction cs rule: visit_containers.induct)
  case (2 c cs)
  then show ?case using loose_and_nested [of c] by (simp add: ac_simps)
qed simp

text \<open>The two-level search meets every stack exactly once.\<close>

lemma carried_stacks_mset: "mset (carried_stacks slots) = mset (leaves (slot_items slots))"
  by (simp add: carried_stacks_def Let_def visit_containers_mset loose_and_nested)

definition reduce :: "nat \<Rightarrow> u8 \<Rightarrow> stack list \<Rightarrow> stack list" where
  "reduce r n l = concat (map (\<lambda>(r', i, c). if r' \<noteq> r then [(r', i, c)] else if c \<le> n then [] else [(r', i, c - n)]) l)"

lemma reduce_simps [simp]:
  "reduce r n [] = []" "reduce r n (k @ l) = reduce r n k @ reduce r n l"
  "reduce r n ((r', i, c) # l) = (if r' \<noteq> r then [(r', i, c)] else if c \<le> n then [] else [(r', i, c - n)]) @ reduce r n l"
  by (simp_all add: reduce_def)

lemma leaves_take_list: "leaves (take_list r n l) = reduce r n (leaves l)"
  by (induction r n l rule: take_list.induct) auto

lemma take_list_single: "take_list r n [x] = [] \<or> (\<exists>y. take_list r n [x] = [y])"
proof (cases x)
  case (Stack s)
  obtain r' i c where "s = (r', i, c)" by (cases s)
  then show ?thesis using Stack by (cases "r' = r"; cases "c \<le> n") simp_all
qed simp

lemma leaves_take_slot:
  "leaves (slot_items (map (take_slot r n) slots)) = reduce r n (leaves (slot_items slots))"
proof (induction slots)
  case (Cons x slots)
  show ?case
  proof (cases x)
    case (Some item)
    have "leaves (case take_list r n [item] of [] \<Rightarrow> [] | y # _ \<Rightarrow> [y]) = reduce r n (leaves [item])"
      using take_list_single [of r n item] leaves_take_list [of r n "[item]"] by auto
    then show ?thesis using Cons Some
      by (cases item) (auto simp: slot_items_def List.map_filter_def take_slot_def split: list.splits)
  qed (use Cons in \<open>simp add: slot_items_def List.map_filter_def take_slot_def\<close>)
qed (simp add: slot_items_def List.map_filter_def)

subsection \<open>Worth\<close>

definition worth_of :: "stack list \<Rightarrow> nat" where
  "worth_of l = sum_list (map (\<lambda>s. unat (stack_worth s)) l)"

definition carried :: "wallet \<Rightarrow> stack list" where
  "carried w = leaves (slot_items (wl_slots w))"

definition coins_worth :: "wallet \<Rightarrow> nat" where
  "coins_worth w = worth_of (carried w)"

definition ground_worth :: "wallet \<Rightarrow> nat" where
  "ground_worth w = sum_list (map (\<lambda>(i, n). unat (getWorth i n)) (wl_ground w))"

lemma worth_of_simps [simp]: "worth_of [] = 0" "worth_of (s # l) = unat (stack_worth s) + worth_of l"
  "worth_of (k @ l) = worth_of k + worth_of l"
  by (simp_all add: worth_of_def)

lemma worth_of_mset: "worth_of l = sum_mset (image_mset (\<lambda>s. unat (stack_worth s)) (mset l))"
  by (simp add: worth_of_def flip: sum_mset_sum_list)

lemma unit_worth_cases: "unit_worth i \<in> {0, 1, 100, 10000}"
  by (simp add: unit_worth_def)

lemma unat_getWorth: "unat (getWorth i n) = unat n * unat (unit_worth i)"
proof -
  have "unat n < 256" using unsigned_less [of n, where ?'a = nat] by simp
  moreover have "unat (unit_worth i) \<le> 10000" using unit_worth_cases [of i] by auto
  ultimately have "unat n * unat (unit_worth i) < 256 * 10001" by (intro mult_less_le_imp_less mult_strict_mono) auto
  then show ?thesis by (simp add: getWorth_def unat_word_ariths unat_ucast_up)
qed

lemma unat_stack_worth: "unat (stack_worth (r, i, n)) = unat n * unat (unit_worth i)"
  by (simp add: stack_worth_def unat_getWorth)

lemma reduce_other: "r \<notin> fst ` set l \<Longrightarrow> reduce r n l = l"
  by (induction l) (auto simp: reduce_def)

lemma reduce_worth:
  assumes "distinct (map fst l)" and "(r, i, c) \<in> set l" and "n \<le> c"
  shows "worth_of (reduce r n l) + unat n * unat (unit_worth i) = worth_of l"
  using assms
proof (induction l)
  case (Cons s l)
  obtain r' i' c' where s: "s = (r', i', c')" by (cases s)
  show ?case
  proof (cases "r' = r")
    case False
    then show ?thesis using Cons s by auto
  next
    case True
    then have "i' = i" "c' = c" "r \<notin> fst ` set l" using Cons.prems(1,2) s by force+
    moreover have "unat (c - n) + unat n = unat c" using Cons.prems(3) by (simp add: unat_sub word_le_nat_alt)
    then have "unat (c - n) * u + unat n * u = unat c * u" for u by (simp flip: add_mult_distrib)
    ultimately show ?thesis
      using Cons.prems(3) True s by (auto simp: reduce_other unat_stack_worth)
  qed
qed simp

lemma reduce_set: "(r', i, c) \<in> set l \<Longrightarrow> r' \<noteq> r \<Longrightarrow> (r', i, c) \<in> set (reduce r n l)"
  by (auto simp: reduce_def)

lemma reduce_refs: "set (map fst (reduce r n l)) \<subseteq> set (map fst l)"
  by (auto simp: reduce_def split: if_splits prod.splits) force+

lemma reduce_distinct: "distinct (map fst l) \<Longrightarrow> distinct (map fst (reduce r n l))"
proof (induction l)
  case (Cons s l)
  then show ?case using reduce_refs [of r n l] by (cases s) (auto simp: image_iff)
qed simp

lemma carried_remove [simp]: "carried (remove_item r n w) = reduce r n (carried w)"
  by (simp add: carried_def remove_item_def leaves_take_slot)

lemma remove_item_frame [simp]: "wl_balance (remove_item r n w) = wl_balance w" "wl_ground (remove_item r n w) = wl_ground w"
  by (simp_all add: remove_item_def)

lemma getMoney_worth:
  assumes "coins_worth w < 2 ^ 64"
  shows "unat (getMoney w) = coins_worth w"
proof -
  have fold: "fold (\<lambda>s money. money + ucast (stack_worth s)) l m = m + of_nat (worth_of l)" for l :: "stack list" and m :: u64
    by (induction l arbitrary: m) (auto simp: ac_simps)
  have "worth_of (carried_stacks (wl_slots w)) = coins_worth w"
    by (simp add: worth_of_mset coins_worth_def carried_def carried_stacks_mset)
  then have "getMoney w = of_nat (coins_worth w)" by (simp add: getMoney_def fold)
  then show ?thesis using assms by (simp add: unat_of_nat)
qed

subsection \<open>Adding money\<close>

text \<open>What the placement of a stack promises: when it succeeds, the worth of the stack is there,
  references stay unique and no stack shrinks.\<close>

definition add_law :: "(u16 \<Rightarrow> u8 \<Rightarrow> inv_item option list \<Rightarrow> inv_item option list option) \<Rightarrow> bool" where
  "add_law addItem \<longleftrightarrow> (\<forall>i n slots slots'. addItem i n slots = Some slots' \<longrightarrow>
     distinct (map fst (leaves (slot_items slots))) \<longrightarrow>
     worth_of (leaves (slot_items slots')) = worth_of (leaves (slot_items slots)) + unat (getWorth i n) \<and>
     distinct (map fst (leaves (slot_items slots'))) \<and>
     (\<forall>(r, j, c)\<in>set (leaves (slot_items slots)). \<exists>c'\<ge>c. (r, j, c') \<in> set (leaves (slot_items slots'))))"

definition purse_worth :: "wallet \<Rightarrow> nat" where
  "purse_worth w = coins_worth w + ground_worth w"

definition refs_ok :: "wallet \<Rightarrow> bool" where
  "refs_ok w \<longleftrightarrow> distinct (map fst (carried w))"

definition keeps_stacks :: "wallet \<Rightarrow> wallet \<Rightarrow> bool" where
  "keeps_stacks w w' \<longleftrightarrow> (\<forall>(r, j, c)\<in>set (carried w). \<exists>c'\<ge>c. (r, j, c') \<in> set (carried w'))"

lemma keeps_stacks_refl [simp]: "keeps_stacks w w"
  by (auto simp: keeps_stacks_def)

lemma keeps_stacks_trans: "keeps_stacks u v \<Longrightarrow> keeps_stacks v w \<Longrightarrow> keeps_stacks u w"
  unfolding keeps_stacks_def
proof (clarify, goal_cases)
  case (1 r j c)
  then obtain c' where "c \<le> c'" "(r, j, c') \<in> set (carried v)" by blast
  moreover then obtain c'' where "c' \<le> c''" "(r, j, c'') \<in> set (carried w)" using 1 by blast
  ultimately show ?case by (meson order.trans)
qed

definition added :: "nat \<Rightarrow> wallet \<Rightarrow> wallet \<Rightarrow> bool" where
  "added n w w' \<longleftrightarrow> refs_ok w' \<and> purse_worth w' = purse_worth w + n \<and> wl_balance w' = wl_balance w \<and> keeps_stacks w w'"

lemma added_refl: "refs_ok w \<Longrightarrow> added 0 w w"
  by (simp add: added_def)

lemma added_trans: "added m u v \<Longrightarrow> added n v w \<Longrightarrow> added (m + n) u w"
  by (auto simp: added_def intro: keeps_stacks_trans)

lemma add_stack_added:
  assumes "add_law addItem" and "refs_ok w"
  shows "added (unat (getWorth i (ucast n))) w (add_stack addItem i n w)"
proof (cases "addItem i (ucast n) (wl_slots w)")
  case None
  then show ?thesis using assms(2)
    by (simp add: add_stack_def added_def purse_worth_def coins_worth_def ground_worth_def carried_def refs_ok_def keeps_stacks_def)
       (auto simp: split_beta)
next
  case (Some slots')
  then show ?thesis using assms
    by (force simp: add_stack_def added_def purse_worth_def coins_worth_def ground_worth_def carried_def refs_ok_def keeps_stacks_def add_law_def)
qed

lemma unat_ucast_less:
  fixes n :: "'a::len word"
  assumes "unat n < 2 ^ LENGTH('b)"
  shows "unat (ucast n :: 'b::len word) = unat n"
proof -
  have "(ucast n :: 'b word) = of_nat (unat n)" by simp
  then show ?thesis using assms by (simp only: unat_of_nat) simp
qed

lemma ucast_small_stack:
  assumes "unat n \<le> 100"
  shows "unat (ucast (ucast n :: u16) :: u8) = unat n"
proof -
  have "unat (ucast n :: u16) = unat n" using assms by (intro unat_ucast_less) simp
  then show ?thesis using assms by (subst unat_ucast_less) simp_all
qed

lemma stack_of_coins:
  assumes "unat n \<le> 100"
  shows "unat (getWorth i (ucast (ucast n :: u16))) = unat n * unat (unit_worth i)"
  using assms by (simp add: unat_getWorth ucast_small_stack)

lemma unit_worths [simp]:
  "unit_worth ITEM_CRYSTAL_COIN = 10000" "unit_worth ITEM_PLATINUM_COIN = 100" "unit_worth ITEM_GOLD_COIN = 1"
  by (simp_all add: unit_worth_def ITEM_CRYSTAL_COIN_def ITEM_PLATINUM_COIN_def ITEM_GOLD_COIN_def)

declare add_crystals.simps [simp del]

lemma add_crystals_added:
  assumes "add_law addItem" and "refs_ok w"
  shows "added (unat n * 10000) w (add_crystals addItem n w)"
  using assms
proof (induction addItem n w rule: add_crystals.induct)
  case (1 addItem n w)
  show ?case
  proof (cases "n > 0")
    case True
    define k where "k = min 100 n"
    define v where "v = add_stack addItem ITEM_CRYSTAL_COIN (ucast k) w"
    have k: "k \<le> n" "unat k \<le> 100" by (auto simp: k_def min_def word_le_nat_alt)
    have "added (unat (getWorth ITEM_CRYSTAL_COIN (ucast (ucast k :: u16)))) w v"
      unfolding v_def by (rule add_stack_added [OF 1(2,3)])
    then have v: "added (unat k * 10000) w v" using k by (simp add: stack_of_coins)
    have rest: "added (unat (n - k) * 10000) v (add_crystals addItem (n - k) v)"
      using 1(1) [OF True k_def] 1(2) v by (simp add: v_def added_def)
    have "unat k + unat (n - k) = unat n" using k(1) by (simp add: unat_sub word_le_nat_alt)
    then have total: "unat k * 10000 + unat (n - k) * 10000 = unat n * 10000" by linarith
    have "added (unat n * 10000) w (add_crystals addItem (n - k) v)"
      using added_trans [OF v rest] unfolding total .
    then show ?thesis using True by (subst add_crystals.simps) (simp add: Let_def k_def v_def)
  next
    case False
    then have "n = 0" using word_gt_0 [of n] by simp
    then show ?thesis using added_refl [OF 1(3)] by (subst add_crystals.simps) simp
  qed
qed

text \<open>Below 2^32 the conversions do not wrap: exactly the amount is added, to the inventory or to the ground.\<close>

lemma addMoney_added:
  assumes "add_law addItem" and "refs_ok w" and "unat money < 2 ^ 32"
  shows "added (unat money) w (addMoney addItem money w)"
proof (cases "money = 0")
  case True
  then show ?thesis using added_refl [OF assms(2)] by (simp add: addMoney_def)
next
  case False
  define m where "m = unat money"
  define crystals where "crystals = (ucast (money div 10000) :: u32)"
  define money1 where "money1 = money - ucast (crystals * 10000)"
  define w1 where "w1 = add_crystals addItem crystals w"
  define platinum where "platinum = (ucast (money1 div 100) :: u16)"
  have c: "unat crystals = m div 10000"
    using assms(3) by (simp add: crystals_def m_def unsigned_ucast_eq take_bit_nat_eq_self unat_div_distrib div_less_dividend less_imp_diff_less order.strict_trans1 [OF div_le_dividend])
  have "m div 10000 * 10000 \<le> m" by simp
  then have prod: "m div 10000 * 10000 < 2 ^ 32" using assms(3) by (simp add: m_def)
  then have "unat (ucast (crystals * 10000) :: u64) = m div 10000 * 10000"
    using c by (simp add: unat_ucast_up unat_word_ariths)
  then have m1: "unat money1 = m mod 10000"
    unfolding money1_def by (subst unat_sub) (auto simp: word_le_nat_alt m_def minus_div_mult_eq_mod)
  have p: "unat platinum = m mod 10000 div 100"
    using m1 by (simp add: platinum_def unsigned_ucast_eq take_bit_nat_eq_self unat_div_distrib)
  have p100: "m mod 10000 div 100 < 100" by (simp add: div_less_iff_less_mult)
  have w1: "added (m div 10000 * 10000) w w1"
    using add_crystals_added [OF assms(1,2), of crystals] by (simp add: w1_def c)
  define w2 where "w2 = (if platinum \<noteq> 0 then add_stack addItem ITEM_PLATINUM_COIN platinum w1 else w1)"
  define money2 where "money2 = (if platinum \<noteq> 0 then money1 - ucast platinum * 100 else money1)"
  have w2: "added (m mod 10000 div 100 * 100) w1 w2"
  proof (cases "platinum = 0")
    case True
    then show ?thesis using p w1 by (simp add: w2_def added_refl added_def)
  next
    case False
    have "added (unat (getWorth ITEM_PLATINUM_COIN (ucast platinum))) w1 (add_stack addItem ITEM_PLATINUM_COIN platinum w1)"
      using w1 by (intro add_stack_added [OF assms(1)]) (simp add: added_def)
    moreover have "unat (getWorth ITEM_PLATINUM_COIN (ucast platinum)) = m mod 10000 div 100 * 100"
      using stack_of_coins [of platinum ITEM_PLATINUM_COIN] p p100 by simp
    ultimately show ?thesis using False by (simp add: w2_def)
  qed
  have m2: "unat money2 = m mod 100"
  proof -
    have "unat (ucast platinum * 100 :: u64) = m mod 10000 div 100 * 100"
      using p p100 by (simp add: unat_word_ariths unat_ucast_up)
    moreover have "m mod 10000 mod 100 = m mod 100" by (simp add: mod_mod_cancel)
    ultimately have "unat (money1 - ucast platinum * 100) = m mod 100"
      using m1 by (subst unat_sub) (auto simp: word_le_nat_alt minus_div_mult_eq_mod)
    moreover have "platinum = 0 \<Longrightarrow> unat money1 = m mod 100"
      using p m1 \<open>m mod 10000 mod 100 = m mod 100\<close> by (simp add: div_eq_0_iff)
    ultimately show ?thesis by (simp add: money2_def)
  qed
  have "m mod 100 < 100" by simp
  have w3: "added (m mod 100) w2 (if money2 \<noteq> 0 then add_stack addItem ITEM_GOLD_COIN (ucast money2) w2 else w2)"
  proof (cases "money2 = 0")
    case True
    then show ?thesis using m2 w2 by (simp add: added_refl added_def)
  next
    case False
    have "added (unat (getWorth ITEM_GOLD_COIN (ucast (ucast money2 :: u16)))) w2 (add_stack addItem ITEM_GOLD_COIN (ucast money2) w2)"
      using w2 by (intro add_stack_added [OF assms(1)]) (simp add: added_def)
    then show ?thesis using False stack_of_coins [of money2 ITEM_GOLD_COIN] m2 \<open>m mod 100 < 100\<close> by simp
  qed
  have eq: "addMoney addItem money w = (if money2 \<noteq> 0 then add_stack addItem ITEM_GOLD_COIN (ucast money2) w2 else w2)"
    using False by (simp add: addMoney_def Let_def money2_def w2_def platinum_def money1_def crystals_def w1_def)
  have "m mod 10000 mod 100 = m mod 100" by (simp add: mod_mod_cancel)
  then have total: "m div 10000 * 10000 + (m mod 10000 div 100 * 100 + m mod 100) = m"
    using div_mult_mod_eq [of m 10000] div_mult_mod_eq [of "m mod 10000" 100] by linarith
  show ?thesis using added_trans [OF w1 added_trans [OF w2 w3]] total by (simp add: eq m_def)
qed

subsection \<open>Paying\<close>

definition entries_ok :: "(u32 \<times> stack) list \<Rightarrow> wallet \<Rightarrow> bool" where
  "entries_ok l w \<longleftrightarrow> distinct (map (\<lambda>(_, s). fst s) l) \<and>
     (\<forall>(p, s)\<in>set l. p = stack_worth s \<and> p \<noteq> 0 \<and> s \<in> set (carried w))"

lemma remove_item_worth:
  assumes "refs_ok w" and "(r, i, c) \<in> set (carried w)" and "n \<le> c"
  shows "purse_worth (remove_item r n w) + unat n * unat (unit_worth i) = purse_worth w" and "refs_ok (remove_item r n w)"
  using reduce_worth [OF _ assms(2,3)] reduce_distinct assms(1)
  by (auto simp: purse_worth_def coins_worth_def ground_worth_def refs_ok_def)

lemma entries_ok_step:
  assumes "entries_ok ((p, r, i, c) # l) w"
  shows "entries_ok l (remove_item r n w)"
proof -
  have "s \<in> set (reduce r n (carried w))" if "(p', s) \<in> set l" for p' s
  proof -
    have "fst s \<noteq> r" "s \<in> set (carried w)" using assms that by (auto simp: entries_ok_def image_iff split_beta)
    then show ?thesis using reduce_set by (cases s) simp
  qed
  then show ?thesis using assms by (auto simp: entries_ok_def)
qed

text \<open>A stack that is worth more than the price is broken: the coins it takes cover the price, and the
  change is put back.\<close>

lemma break_stack:
  assumes law: "add_law addItem" and ok: "refs_ok w" and stack: "(r, i, c) \<in> set (carried w)"
    and price: "0 < money" "money < ucast (stack_worth (r, i, c))"
    and worth: "worth = stack_worth (r, i, c) div ucast c"
    and coins: "removeCount = (ucast ((money + ucast worth - 1) div ucast worth) :: u32)"
  shows "purse_worth (remove_item r (ucast removeCount) (addMoney addItem (ucast (worth * removeCount) - money) w)) + unat money
      = purse_worth w"
    and "wl_balance (remove_item r (ucast removeCount) (addMoney addItem (ucast (worth * removeCount) - money) w)) = wl_balance w"
proof -
  define u where "u = unat (unit_worth i)"
  define m where "m = unat money"
  define k where "k = (m + u - 1) div u"
  have sw: "unat (stack_worth (r, i, c)) = unat c * u" by (simp add: unat_stack_worth u_def)
  have c256: "unat c < 256" using unsigned_less [of c, where ?'a = nat] by simp
  have mlt: "m < unat c * u" "0 < m"
    using price sw by (simp_all add: m_def word_less_nat_alt unat_ucast_up unat_gt_0)
  then have "0 < unat c * u" by linarith
  then have u0: "0 < u" "0 < unat c" by (simp_all add: zero_less_mult_iff)
  have u4: "u \<le> 10000" using unit_worth_cases [of i] by (auto simp: u_def)
  have wu: "unat worth = u"
    using u0 by (simp add: worth unat_div_distrib sw unat_ucast_up)
  have prod: "unat c * u \<le> 255 * 10000" using c256 u4 by (intro mult_le_mono) simp_all
  have kc: "k \<le> unat c" "m \<le> k * u" "k * u < m + u"
  proof -
    have "m + u - 1 < (unat c + 1) * u" using mlt u0 by (simp add: algebra_simps)
    then have "(m + u - 1) div u < unat c + 1" by (rule less_mult_imp_div_less)
    then show "k \<le> unat c" by (simp add: k_def)
    have "m + u - 1 < (k + 1) * u" unfolding k_def using dividend_less_div_times [OF u0(1), of "m + u - 1"] by (simp add: algebra_simps)
    then show "m \<le> k * u" using u0 by (simp add: algebra_simps)
    have "k * u \<le> m + u - 1" unfolding k_def by (rule div_times_less_eq_dividend)
    then show "k * u < m + u" using u0 by linarith
  qed
  have num: "unat (money + ucast worth - 1) = m + u - 1"
  proof -
    have "money = of_nat m" "(ucast worth :: u64) = of_nat u" by (simp_all add: m_def wu [symmetric])
    then have "money + ucast worth - 1 = of_nat (m + u - 1)" using u0 by (simp add: of_nat_diff)
    then show ?thesis using mlt(1) prod u4 by (simp add: unat_of_nat)
  qed
  have rc: "unat removeCount = k"
    unfolding coins using num wu kc(1) c256 by (subst unat_ucast_less) (simp_all add: unat_div_distrib unat_ucast_up k_def)
  have n: "unat (ucast removeCount :: u8) = k" using rc kc(1) c256 by (subst unat_ucast_less) simp_all
  have ku: "unat (worth * removeCount) = k * u"
    using rc wu kc(3) mlt(1) prod u4 by (simp add: unat_word_ariths mult.commute)
  define w1 where "w1 = addMoney addItem (ucast (worth * removeCount) - money) w"
  have change: "unat (ucast (worth * removeCount) - money) = k * u - m"
    using ku kc(2) by (subst unat_sub) (simp_all add: word_le_nat_alt unat_ucast_up m_def)
  have w1: "added (k * u - m) w w1"
    unfolding w1_def change [symmetric] using change kc(3) u4 by (intro addMoney_added [OF law ok]) simp
  then obtain c' where c': "c \<le> c'" "(r, i, c') \<in> set (carried w1)" using stack by (fastforce simp: added_def keeps_stacks_def)
  have le: "(ucast removeCount :: u8) \<le> c'" using c'(1) n kc(1) by (simp add: word_le_nat_alt)
  have "purse_worth (remove_item r (ucast removeCount) w1) + k * u = purse_worth w1"
    using remove_item_worth(1) [OF _ c'(2) le] w1 n by (simp add: added_def u_def)
  then have "purse_worth (remove_item r (ucast removeCount) w1) + m = purse_worth w"
    using w1 kc(2) by (simp add: added_def)
  then show "purse_worth (remove_item r (ucast removeCount) (addMoney addItem (ucast (worth * removeCount) - money) w)) + unat money
      = purse_worth w" by (simp add: w1_def m_def)
  show "wl_balance (remove_item r (ucast removeCount) (addMoney addItem (ucast (worth * removeCount) - money) w)) = wl_balance w"
    using w1 by (simp add: added_def flip: w1_def)
qed

text \<open>The stacks are spent in the order of their worth until the price is covered.\<close>

lemma pay_coins_result:
  assumes "add_law addItem" and "refs_ok w" and "entries_ok l w" and "0 < money"
    and "pay_coins addItem l money w = (rest, w')"
  shows "wl_balance w' = wl_balance w \<and> (case rest of
      None \<Rightarrow> purse_worth w' + unat money = purse_worth w
    | Some left \<Rightarrow> unat left + sum_list (map (\<lambda>(p, _). unat p) l) = unat money \<and> 0 < left \<and>
        purse_worth w' + sum_list (map (\<lambda>(p, _). unat p) l) = purse_worth w)"
  using assms(2-)
proof (induction l arbitrary: money w)
  case Nil
  then show ?case by auto
next
  case (Cons e l)
  obtain p r i c where e: "e = (p, r, i, c)" by (metis surj_pair)
  have stack: "(r, i, c) \<in> set (carried w)" "p = stack_worth (r, i, c)"
    using Cons.prems(2) e by (auto simp: entries_ok_def)
  have p: "unat p = unat c * unat (unit_worth i)" by (simp add: stack(2) unat_stack_worth)
  note rem = remove_item_worth [OF Cons.prems(1) stack(1) order_refl]
  have pu: "unat (ucast p :: u64) = unat p" by (simp add: unat_ucast_up)
  consider "(ucast p :: u64) < money" | "money < ucast p" | "money = ucast p" using less_linear by blast
  then show ?case
  proof cases
    case 1
    then have step: "pay_coins addItem l (money - ucast p) (remove_item r c w) = (rest, w')"
      using Cons.prems(4) e by simp
    have less: "unat p < unat money" using 1 pu by (simp add: word_less_nat_alt)
    then have left: "unat (money - ucast p) = unat money - unat p" using pu by (subst unat_sub) (simp_all add: word_le_nat_alt)
    then have "0 < money - ucast p" using less by (simp add: word_less_nat_alt)
    note IH = Cons.IH [OF rem(2) entries_ok_step [OF Cons.prems(2) [unfolded e]] this step]
    show ?thesis
    proof (cases rest)
      case None
      then have "purse_worth w' + (unat money - unat p) = purse_worth (remove_item r c w)" using IH left by simp
      then show ?thesis using IH None rem(1) less p by simp
    next
      case (Some a)
      define rest_sum where "rest_sum = sum_list (map (\<lambda>(p, _). unat p) l)"
      have "purse_worth (remove_item r c w) + unat p = purse_worth w" using rem(1) p by simp
      moreover have "unat a + rest_sum = unat money - unat p" "purse_worth w' + rest_sum = purse_worth (remove_item r c w)"
        using IH left Some by (simp_all add: rest_sum_def)
      moreover have "wl_balance w' = wl_balance w" "0 < a" using IH Some by simp_all
      ultimately show ?thesis using Some less e by (simp flip: rest_sum_def)
    qed
  next
    case 2
    then have "\<not> (ucast p :: u64) < money" by simp
    with 2 have "rest = None" "w' = remove_item r (ucast (ucast ((money + ucast (p div ucast c) - 1) div ucast (p div ucast c)) :: u32))
        (addMoney addItem (ucast (p div ucast c * ucast ((money + ucast (p div ucast c) - 1) div ucast (p div ucast c))) - money) w)"
      using Cons.prems(4) e by (auto simp: Let_def)
    then show ?thesis
      using break_stack [OF assms(1) Cons.prems(1) stack(1) Cons.prems(3) _ refl refl] 2 by (simp add: stack(2))
  next
    case 3
    then have "rest = None" "w' = remove_item r c w" using Cons.prems(4) e by auto
    then show ?thesis using rem(1) 3 pu p by simp
  qed
qed

lemma worth_filter:
  "sum_list (map (\<lambda>s. unat (stack_worth s)) (filter (\<lambda>s. stack_worth s \<noteq> 0) l)) = sum_list (map (\<lambda>s. unat (stack_worth s)) l)"
  by (induction l) auto

text \<open>The entries of the money map are the stacks that are worth something.\<close>

lemma money_map_entries:
  assumes "refs_ok w"
  shows "entries_ok (money_map (wl_slots w)) w"
    and "sum_list (map (\<lambda>(p, _). unat p) (money_map (wl_slots w))) = coins_worth w"
proof -
  let ?l = "map (\<lambda>s. (stack_worth s, s)) (filter (\<lambda>s. stack_worth s \<noteq> 0) (carried_stacks (wl_slots w)))"
  have perm: "mset (carried_stacks (wl_slots w)) = mset (carried w)" by (simp add: carried_def carried_stacks_mset)
  have set: "set (carried_stacks (wl_slots w)) = set (carried w)" using perm by (metis set_mset_mset)
  have "mset (map fst (carried_stacks (wl_slots w))) = mset (map fst (carried w))" by (simp add: perm)
  then have "distinct (map fst (carried_stacks (wl_slots w)))"
    using assms mset_eq_imp_distinct_iff unfolding refs_ok_def by blast
  then have "distinct (map (\<lambda>(_, s). fst s) ?l)" by (simp add: o_def distinct_map_filter)
  moreover have "mset (map (\<lambda>(_, s). fst s) (money_map (wl_slots w))) = mset (map (\<lambda>(_, s). fst s) ?l)"
    by (simp only: money_map_def mset_map mset_sort)
  ultimately have "distinct (map (\<lambda>(_, s). fst s) (money_map (wl_slots w)))"
    using mset_eq_imp_distinct_iff by blast
  then show "entries_ok (money_map (wl_slots w)) w" by (auto simp: entries_ok_def money_map_def set)
  have "mset (map (\<lambda>(p, _). unat p) (money_map (wl_slots w))) = mset (map (\<lambda>(p, _). unat p) ?l)"
    by (simp only: money_map_def mset_map mset_sort)
  then have "sum_list (map (\<lambda>(p, _). unat p) (money_map (wl_slots w))) = sum_list (map (\<lambda>(p, _). unat p) ?l)"
    by (simp only: flip: sum_mset_sum_list)
  also have "\<dots> = worth_of (carried_stacks (wl_slots w))"
    by (simp add: worth_of_def o_def worth_filter)
  also have "\<dots> = coins_worth w" by (simp add: worth_of_mset coins_worth_def perm)
  finally show "sum_list (map (\<lambda>(p, _). unat p) (money_map (wl_slots w))) = coins_worth w" .
qed

text \<open>The payment as a whole: coins first, and the balance for what they do not cover.\<close>

lemma removeMoney_effect:
  assumes "add_law addItem" and "refs_ok w" and "coins_worth w + unat (wl_balance w) < 2 ^ 64"
    and "removeMoney addItem money useBalance w = (ok, w')"
  shows "(ok \<longleftrightarrow> unat money \<le> coins_worth w + (if useBalance then unat (wl_balance w) else 0)) \<and>
    (ok \<longrightarrow> purse_worth w' + unat (wl_balance w') + unat money = purse_worth w + unat (wl_balance w)) \<and>
    (\<not> ok \<longrightarrow> w' = w)"
proof (cases "money = 0")
  case True
  then show ?thesis using assms(4) by (auto simp: removeMoney_def)
next
  case False
  define balance where "balance = (if useBalance then wl_balance w else 0)"
  have bal: "unat balance = (if useBalance then unat (wl_balance w) else 0)" by (simp add: balance_def)
  have total: "unat (getMoney w + balance) = coins_worth w + unat balance"
  proof -
    have "unat (getMoney w) = coins_worth w" using assms(3) by (intro getMoney_worth) simp
    then show ?thesis using assms(3) bal by (subst unat_plus_simple [THEN iffD1]) (auto simp: no_olen_add_nat split: if_splits)
  qed
  show ?thesis
  proof (cases "getMoney w + balance < money")
    case True
    then have "ok = False" "w' = w" using assms(4) False by (auto simp: removeMoney_def balance_def)
    then show ?thesis using True total bal by (simp add: word_less_nat_alt)
  next
    case enough: False
    obtain rest w1 where pay: "pay_coins addItem (money_map (wl_slots w)) money w = (rest, w1)" by fastforce
    have "0 < money" using False word_gt_0 by blast
    note res = pay_coins_result [OF assms(1,2) money_map_entries(1) [OF assms(2)] this pay, unfolded money_map_entries(2) [OF assms(2)]]
    have le: "unat money \<le> coins_worth w + unat balance" using enough total by (simp add: word_less_nat_alt)
    show ?thesis
    proof (cases rest)
      case None
      then have "ok = True" "w' = w1" using assms(4) False enough pay by (auto simp: removeMoney_def balance_def)
      then show ?thesis using res None le bal by simp
    next
      case (Some left)
      then have left: "unat left + coins_worth w = unat money" "0 < left" "purse_worth w1 + coins_worth w = purse_worth w"
          "wl_balance w1 = wl_balance w"
        using res by simp_all
      then have "unat left \<le> unat balance" using le by linarith
      moreover have "0 < unat left" using left(2) by (simp add: word_less_nat_alt)
      ultimately have use: "useBalance" "left \<le> wl_balance w" using bal by (auto simp: word_le_nat_alt split: if_splits)
      then have "ok = True" "w' = w1\<lparr>wl_balance := wl_balance w - left\<rparr>"
        using assms(4) False enough pay Some left(4) by (auto simp: removeMoney_def balance_def)
      moreover have "unat (wl_balance w - left) = unat (wl_balance w) - unat left" using use(2) by (simp add: unat_sub)
      moreover have "purse_worth (w1\<lparr>wl_balance := b\<rparr>) = purse_worth w1" for b
        by (simp add: purse_worth_def coins_worth_def ground_worth_def carried_def)
      ultimately show ?thesis using left use le bal by (simp add: word_le_nat_alt)
    qed
  qed
qed


definition append_stack :: "u16 \<Rightarrow> u8 \<Rightarrow> inv_item option list \<Rightarrow> inv_item option list option" where
  "append_stack i n slots =
     Some (slots @ [Some (Stack (Suc (sum_list (map fst (leaves (slot_items slots)))), i, n))])"

lemma append_stack_law: "add_law append_stack"
  unfolding add_law_def
proof (intro allI impI)
  fix i n slots slots'
  assume new: "append_stack i n slots = Some slots'" and ok: "distinct (map fst (leaves (slot_items slots)))"
  let ?l = "leaves (slot_items slots)" and ?r = "Suc (sum_list (map fst (leaves (slot_items slots))))"
  have l': "leaves (slot_items slots') = ?l @ [(?r, i, n)]"
    using new by (auto simp: append_stack_def slot_items_def List.map_filter_def)
  have "r \<noteq> ?r" if "r \<in> set (map fst ?l)" for r
    using member_le_sum_list [OF that] by simp
  then have "?r \<notin> set (map fst ?l)" by blast
  then show "worth_of (leaves (slot_items slots')) = worth_of ?l + unat (getWorth i n) \<and>
      distinct (map fst (leaves (slot_items slots'))) \<and>
      (\<forall>(r, j, c)\<in>set ?l. \<exists>c'\<ge>c. (r, j, c') \<in> set (leaves (slot_items slots')))"
    using ok by (auto simp: l' stack_worth_def)
qed

definition sample_wallet :: wallet where
  "sample_wallet = \<lparr>wl_slots = [None, Some (Container [Stack (1, ITEM_GOLD_COIN, 50),
       Container [Stack (2, ITEM_PLATINUM_COIN, 3), Stack (3, 2148, 9)]]), Some (Stack (4, ITEM_CRYSTAL_COIN, 1))],
     wl_balance = 20, wl_ground = []\<rparr>"




subsection \<open>Cashiers\<close>

text \<open>What a handler that charges a price relies on: a payment that is refused takes nothing.\<close>

locale cashier =
  fixes pay :: "u64 \<Rightarrow> 'm \<Rightarrow> bool \<times> 'm"
  assumes refused: "pay n m = (False, m') \<Longrightarrow> m' = m"
begin

lemma unpaid_keeps: "pay n m = (ok, m') \<Longrightarrow> \<not> ok \<Longrightarrow> m' = m"
  using refused by auto

end

definition player_pay ::
    "(u16 \<Rightarrow> u8 \<Rightarrow> inv_item option list \<Rightarrow> inv_item option list option) \<Rightarrow> u64 \<Rightarrow> wallet \<Rightarrow> bool \<times> wallet" where
  "player_pay addItem price w = removeMoney addItem price True w"

interpretation player_cashier: cashier "player_pay addItem" for addItem
  by unfold_locales (auto simp: player_pay_def removeMoney_def Let_def split: if_splits prod.splits option.splits)

end
