(* ===== verification/Prey_Slots.thy ===== *)
theory Prey_Slots
  imports Prey_Grid Money
begin

text \<open>
  The slots over time: the rolls, the well-formedness that every handler keeps, the runs of a
  player's slots, the refusals, and the rewards of the hunting tasks.
\<close>

subsection \<open>Rolls\<close>

lemma prey_bonus_of_range: "0 \<le> n \<Longrightarrow> n \<le> 3 \<Longrightarrow> prey_bonus_of n \<noteq> PreyBonus_None"
  by (simp add: prey_bonus_of_def)

lemma draw_bonus: "prey_bonus_of (fst (uniform_random 0 3 r)) \<noteq> PreyBonus_None"
  using uniform_random_range [of 0 3 r] prey_bonus_of_range by simp

lemma reroll_bonus_raw:
  assumes "reroll_bonus old b r = Some res"
  shows "(b = old \<or> b \<noteq> PreyBonus_None) \<longrightarrow> fst res \<noteq> old \<and> fst res \<noteq> PreyBonus_None"
proof (rule reroll_bonus.raw_induct [OF _ assms], intro impI)
  fix loop old b r res
  assume IH: "\<And>b r c y. loop b r c = Some y \<Longrightarrow> r = b \<or> r \<noteq> PreyBonus_None \<longrightarrow> fst y \<noteq> b \<and> fst y \<noteq> PreyBonus_None"
    and eq: "(if old = b then let (n, r1) = uniform_random 0 3 r in loop old (prey_bonus_of n) r1 else Some (b, r)) = Some res"
    and b: "b = old \<or> b \<noteq> PreyBonus_None"
  show "fst res \<noteq> old \<and> fst res \<noteq> PreyBonus_None"
  proof (cases "old = b")
    case True
    then have "loop old (prey_bonus_of (fst (uniform_random 0 3 r))) (snd (uniform_random 0 3 r)) = Some res"
      using eq by (simp add: case_prod_beta)
    then show ?thesis using IH draw_bonus by blast
  next
    case False
    then show ?thesis using eq b by auto
  qed
qed

lemma reloadBonusType_result:
  assumes "reloadBonusType s r = Some (s', r')"
  obtains b where "s' = s\<lparr>ps_bonus := b\<rparr>" "b \<noteq> PreyBonus_None" "ps_bonusRarity s = 10 \<Longrightarrow> b \<noteq> ps_bonus s"
proof (cases "ps_bonusRarity s = 10")
  case True
  then obtain b r1 where "reroll_bonus (ps_bonus s) (ps_bonus s) r = Some (b, r1)" "s' = s\<lparr>ps_bonus := b\<rparr>"
    using assms by (auto simp: reloadBonusType_def bind_eq_Some_conv)
  then show ?thesis using reroll_bonus_raw [of "ps_bonus s" "ps_bonus s" r] by (intro that [of b]) auto
next
  case False
  then have "s' = s\<lparr>ps_bonus := prey_bonus_of (fst (uniform_random 0 3 r))\<rparr>"
    using assms by (auto simp: reloadBonusType_def case_prod_beta)
  then show ?thesis using False draw_bonus by (intro that) auto
qed

text \<open>The rarity of a bonus only grows; its percentage follows from its type and rarity.\<close>

lemma reloadBonusValue_result:
  assumes "1 \<le> ps_bonusRarity s" and "ps_bonusRarity s \<le> 10" and "reloadBonusValue s r = (s', r')"
  obtains q where "s' = s\<lparr>ps_bonusRarity := q, ps_bonusPercentage := bonus_percentage (ps_bonus s) q\<rparr>"
    "2 \<le> q" "q \<le> 10" "ps_bonusRarity s \<le> q" "ps_bonusRarity s < 10 \<Longrightarrow> ps_bonusRarity s < q"
proof (cases "ps_bonusRarity s \<ge> 9")
  case True
  then show ?thesis using assms
    by (intro that [of 10]) (auto simp: reloadBonusValue_def)
next
  case False
  let ?q = "fst (uniform_random (uint (ps_bonusRarity s) + 1) 10 r)"
  have r: "uint (ps_bonusRarity s) < 9" "1 \<le> uint (ps_bonusRarity s)"
    using False assms(1) by (simp_all add: word_le_def)
  then have q: "uint (ps_bonusRarity s) + 1 \<le> ?q" "?q \<le> 10"
    using uniform_random_range [of "uint (ps_bonusRarity s) + 1" 10 r] by simp_all
  have u: "uint (of_int ?q :: u8) = ?q" using q r by (simp add: uint_word_of_int take_bit_int_eq_self)
  have "s' = s\<lparr>ps_bonusRarity := of_int ?q, ps_bonusPercentage := bonus_percentage (ps_bonus s) (of_int ?q)\<rparr>"
    using False assms(3) by (auto simp: reloadBonusValue_def case_prod_beta)
  then show ?thesis
    using q r by (intro that [of "of_int ?q"]) (simp_all add: word_le_def word_less_def u)
qed

definition prey_slot_ok :: "prey_slot \<Rightarrow> bool" where
  "prey_slot_ok s \<longleftrightarrow>
     1 \<le> ps_bonusRarity s \<and> ps_bonusRarity s \<le> 10 \<and> (ps_bonus s = PreyBonus_None \<longleftrightarrow> ps_bonusRarity s = 1) \<and>
     ps_bonusPercentage s \<le> 40 \<and>
     distinct (ps_raceIdList s) \<and> length (ps_raceIdList s) \<le> 9 \<and>
     (ps_state s = PreyDataState_Active \<longleftrightarrow> ps_selectedRaceId s \<noteq> 0) \<and>
     (ps_state s = PreyDataState_Active \<longrightarrow> ps_bonus s \<noteq> PreyBonus_None \<and> ps_selectedRaceId s \<notin> set (ps_raceIdList s))"

definition preys_ok :: "prey_slot list \<Rightarrow> bool" where
  "preys_ok l \<longleftrightarrow> distinct (map ps_id l) \<and> (\<forall>s\<in>set l. prey_slot_ok s) \<and>
     distinct (filter (\<lambda>x. x \<noteq> 0) (map ps_selectedRaceId l))"

lemma bonus_percentage_le: "q \<le> 10 \<Longrightarrow> bonus_percentage b q \<le> 40"
proof -
  assume "q \<le> 10"
  then have "uint q \<le> 10" by (simp add: word_le_def)
  then have "uint (ucast q :: u16) \<le> 10" by (simp add: unsigned_ucast_eq take_bit_int_eq_self)
  then show ?thesis by (auto simp: bonus_percentage_def word_le_def uint_word_ariths)
qed

lemma reroll_both_result:
  assumes "prey_slot_ok s" and "reroll_bonus_both s r = Some (s', r')"
  obtains b q where "s' = s\<lparr>ps_bonus := b, ps_bonusRarity := q, ps_bonusPercentage := bonus_percentage b q\<rparr>"
    "b \<noteq> PreyBonus_None" "2 \<le> q" "q \<le> 10"
proof -
  obtain s1 r1 where 1: "reloadBonusType s r = Some (s1, r1)" and 2: "reloadBonusValue s1 r1 = (s', r')"
    using assms(2) by (auto simp: reroll_bonus_both_def bind_eq_Some_conv)
  obtain b where b: "s1 = s\<lparr>ps_bonus := b\<rparr>" "b \<noteq> PreyBonus_None"
    using reloadBonusType_result [OF 1] by metis
  have "1 \<le> ps_bonusRarity s1" "ps_bonusRarity s1 \<le> 10" using assms(1) b by (simp_all add: prey_slot_ok_def)
  then obtain q where "s' = s1\<lparr>ps_bonusRarity := q, ps_bonusPercentage := bonus_percentage (ps_bonus s1) q\<rparr>" "2 \<le> q" "q \<le> 10"
    using reloadBonusValue_result [OF _ _ 2] by metis
  with b show ?thesis by (intro that) auto
qed

lemma distinct_nonzero_update:
  assumes "distinct (filter (\<lambda>x. x \<noteq> 0) xs)" and "k < length xs" and "v = (0 :: u16) \<or> v = xs ! k \<or> v \<notin> set xs"
  shows "distinct (filter (\<lambda>x. x \<noteq> 0) (xs[k := v]))"
proof (cases "v = xs ! k")
  case True
  then show ?thesis using assms(1) by simp
next
  case False
  have "xs = take k xs @ xs ! k # drop (Suc k) xs" using assms(2) by (rule id_take_nth_drop)
  then have "distinct (filter (\<lambda>x. x \<noteq> 0) (take k xs @ xs ! k # drop (Suc k) xs))" using assms(1) by simp
  moreover have "v = 0 \<or> (v \<notin> set (take k xs) \<and> v \<notin> set (drop (Suc k) xs))"
    using assms(3) False by (auto dest: in_set_takeD in_set_dropD)
  ultimately show ?thesis
    by (auto simp: upd_conv_take_nth_drop [OF assms(2)] split: if_splits)
qed

text \<open>Every handler stores one changed slot: it is enough that this slot is well formed and that its
  creature is not another slot's.\<close>

lemma preys_ok_store:
  assumes "preys_ok (hu_preys h)" and "getPreySlotById i h = Some s" and "ps_id s' = ps_id s" and "prey_slot_ok s'"
    and "ps_selectedRaceId s' = 0 \<or> ps_selectedRaceId s' = ps_selectedRaceId s \<or>
         ps_selectedRaceId s' \<notin> ps_selectedRaceId ` set (hu_preys h)"
  shows "preys_ok (hu_preys (store_prey s' h))"
proof -
  obtain k where k: "k < length (hu_preys h)" "hu_preys h ! k = s"
    "store_prey s' h = h\<lparr>hu_preys := (hu_preys h)[k := s']\<rparr>"
    using prey_found [OF assms(2)] assms(3) by metis
  have "map ps_id ((hu_preys h)[k := s']) = map ps_id (hu_preys h)"
    using k assms(3) by (simp add: map_update list_update_same_conv)
  moreover have "\<forall>t\<in>set ((hu_preys h)[k := s']). prey_slot_ok t"
    using assms(1,4) by (auto simp: preys_ok_def dest: set_update_subset_insert [THEN subsetD])
  moreover have "distinct (filter (\<lambda>x. x \<noteq> 0) (map ps_selectedRaceId ((hu_preys h)[k := s'])))"
    unfolding map_update using assms(1,5) k by (intro distinct_nonzero_update) (auto simp: preys_ok_def)
  ultimately show ?thesis using assms(1) k(3) by (simp add: preys_ok_def)
qed

lemma prey_found_ok: "preys_ok (hu_preys h) \<Longrightarrow> getPreySlotById i h = Some s \<Longrightarrow> prey_slot_ok s"
  by (metis prey_found nth_mem preys_ok_def)

lemma prey_found_money [simp]:
  "getPreySlotById i (h\<lparr>hu_money := m\<rparr>) = getPreySlotById i h"
  "getPreySlotById i (h\<lparr>hu_preyCards := c\<rparr>) = getPreySlotById i h"
  by (simp_all add: getPreySlotById_def)

lemma prey_slot_ok_list:
  "prey_slot_ok s \<Longrightarrow> ps_selectedRaceId s = 0 \<Longrightarrow> distinct l \<Longrightarrow> length l \<le> 9 \<Longrightarrow> prey_slot_ok (s\<lparr>ps_raceIdList := l\<rparr>)"
  by (simp add: prey_slot_ok_def)

lemma reload_grid_length: "reload_grid b e black r = Some (l, r') \<Longrightarrow> length l \<le> 9 \<and> distinct l"
  using reload_grid_sound by fastforce

subsection \<open>Prey handlers\<close>

lemma store_prey_twice:
  assumes "ps_id s = ps_id t"
  shows "store_prey s (store_prey t h) = store_prey s h"
proof -
  have "find_index (\<lambda>u. ps_id u = i) (l[find_index (\<lambda>u. ps_id u = i) l := t]) = find_index (\<lambda>u. ps_id u = i) l"
    if "ps_id t = i" for i l
    using that by (induction l) auto
  then show ?thesis using assms by (simp add: store_prey_def)
qed

lemma hu_preys_store_money [simp]:
  "hu_preys (store_prey s (h\<lparr>hu_money := m\<rparr>)) = hu_preys (store_prey s h)"
  "hu_preys (store_prey s (h\<lparr>hu_preyCards := c\<rparr>)) = hu_preys (store_prey s h)"
  by (simp_all add: store_prey_def)

lemma usePreyCards_cases:
  obtains "usePreyCards n h = (False, h)" "hu_preyCards h < ucast n"
  | "usePreyCards n h = (True, h\<lparr>hu_preyCards := hu_preyCards h - ucast n\<rparr>)" "ucast n \<le> hu_preyCards h"
  by (cases "hu_preyCards h < ucast n") (auto simp: usePreyCards_def)

lemma prey_slot_ok_erased:
  "prey_slot_ok s \<Longrightarrow> prey_slot_ok (eraseBonus b s)"
  by (cases b) (auto simp: prey_slot_ok_def)

lemma listReroll_ok:
  assumes ok: "preys_ok (hu_preys h)" and found: "getPreySlotById i h = Some s"
    and res: "prey_listReroll pay e s h r = Some (reply, h', r')"
  shows "preys_ok (hu_preys h')"
proof -
  define free where "free \<longleftrightarrow> ps_freeReroll s > pe_now e"
  obtain paid m where pay: "(if free then pay (ucast (getPreyRerollPrice e)) (hu_money h) else (True, hu_money h)) = (paid, m)"
    by fastforce
  show ?thesis
  proof (cases paid)
    case False
    then show ?thesis using res pay ok by (auto simp: prey_listReroll_def free_def)
  next
    case True
    define s1 where "s1 = (if ps_freeReroll s \<le> pe_now e
      then s\<lparr>ps_freeReroll := pe_now e + pc_preyFreeRerollTime (pe_config e) * 1000\<rparr> else s)"
    define s3 where "s3 = (if ps_bonus (eraseBonus True s1) \<noteq> PreyBonus_None
      then (eraseBonus True s1)\<lparr>ps_state := PreyDataState_SelectionChangeMonster\<rparr> else eraseBonus True s1)"
    define h1 where "h1 = store_prey s3 (h\<lparr>hu_money := m\<rparr>)"
    obtain l where l: "reload_grid (pc_preyEnabled (pe_config e)) e (getPreyBlackList h1) r = Some (l, r')"
      and h': "h' = store_prey (s3\<lparr>ps_raceIdList := l\<rparr>) h1"
      using res pay True
      by (auto simp: prey_listReroll_def free_def Let_def prey_reloadMonsterGrid_def bind_eq_Some_conv
          simp del: eraseBonus_simps simp flip: s1_def s3_def h1_def)
    have ok1: "prey_slot_ok s1" "ps_id s1 = ps_id s"
      using prey_found_ok [OF ok found] by (auto simp: s1_def prey_slot_ok_def)
    have ok3: "prey_slot_ok s3" "ps_selectedRaceId s3 = 0" "ps_id s3 = ps_id s"
      using prey_slot_ok_erased [OF ok1(1), of True] ok1(2) by (auto simp: s3_def prey_slot_ok_def)
    have "prey_slot_ok (s3\<lparr>ps_raceIdList := l\<rparr>)"
      using ok3 reload_grid_length [OF l] by (simp add: prey_slot_ok_list)
    then have "preys_ok (hu_preys (store_prey (s3\<lparr>ps_raceIdList := l\<rparr>) h))"
      using ok3 by (intro preys_ok_store [OF ok found]) simp_all
    then show ?thesis by (simp add: h' h1_def store_prey_twice)
  qed
qed

lemma listCards_ok:
  assumes ok: "preys_ok (hu_preys h)" and found: "getPreySlotById i h = Some s"
    and res: "prey_listCards e s h r = Some (reply, h', r')"
  shows "preys_ok (hu_preys h')"
proof -
  have "prey_slot_ok (s\<lparr>ps_bonusTimeLeft := 0, ps_selectedRaceId := 0, ps_state := PreyDataState_ListSelection\<rparr>)"
    using prey_found_ok [OF ok found] by (simp add: prey_slot_ok_def)
  then have "preys_ok (hu_preys (store_prey (s\<lparr>ps_bonusTimeLeft := 0, ps_selectedRaceId := 0,
      ps_state := PreyDataState_ListSelection\<rparr>) h))"
    by (intro preys_ok_store [OF ok found]) simp_all
  then show ?thesis using res ok by (auto simp: prey_listCards_def usePreyCards_def split: if_splits)
qed

lemma getPreyWithMonster_None:
  "pc_preyEnabled (pe_config e) \<Longrightarrow> getPreyWithMonster e x h = None \<longleftrightarrow> x \<notin> ps_selectedRaceId ` set (hu_preys h)"
  by (auto simp: getPreyWithMonster_def find_None_iff)

lemma first_bonus_result:
  assumes "prey_slot_ok s" and "first_bonus s r = Some (s', r')"
  shows "prey_slot_ok s' \<and> ps_bonus s' \<noteq> PreyBonus_None \<and> ps_id s' = ps_id s \<and> ps_state s' = ps_state s \<and>
    ps_selectedRaceId s' = ps_selectedRaceId s \<and> ps_raceIdList s' = ps_raceIdList s"
proof (cases "ps_bonus s = PreyBonus_None")
  case True
  then have "reroll_bonus_both s r = Some (s', r')" using assms(2) by (simp add: first_bonus_def)
  then obtain b q where s': "s' = s\<lparr>ps_bonus := b, ps_bonusRarity := q, ps_bonusPercentage := bonus_percentage b q\<rparr>"
    and b: "b \<noteq> PreyBonus_None" "2 \<le> q" "q \<le> 10"
    using reroll_both_result [OF assms(1)] by metis
  have "1 \<le> q" "q \<noteq> 1" using b(2) by (auto simp: word_le_nat_alt)
  with s' b assms(1) True show ?thesis by (auto simp: prey_slot_ok_def bonus_percentage_le)
next
  case False
  then show ?thesis using assms by (auto simp: first_bonus_def)
qed

text \<open>The new creature is on no slot; in particular it is not the null race, which the slot itself holds.\<close>

lemma activate_ok:
  assumes ok: "preys_ok (hu_preys h)" and found: "getPreySlotById i h = Some s" and on: "pc_preyEnabled (pe_config e)"
    and free: "ps_state s \<noteq> PreyDataState_Active" "getPreyWithMonster e x h = None"
    and bonus: "first_bonus s r = Some (s1, r1)"
  shows "preys_ok (hu_preys (store_prey (prey_activate e x s1) h))"
proof -
  have s: "prey_slot_ok s" by (rule prey_found_ok [OF ok found])
  note s1 = first_bonus_result [OF s bonus]
  have new: "x \<notin> ps_selectedRaceId ` set (hu_preys h)" using free(2) on by (simp add: getPreyWithMonster_None)
  have "s \<in> set (hu_preys h)" using prey_found [OF found] by (metis nth_mem)
  then have "x \<noteq> 0" using new s free(1) by (auto simp: prey_slot_ok_def)
  then have "prey_slot_ok (prey_activate e x s1)"
    using s1 by (auto simp: prey_slot_ok_def prey_activate_def prey_removeMonsterType_def intro: order.trans [OF length_filter_le])
  then show ?thesis
    using s1 new by (intro preys_ok_store [OF ok found]) (simp_all add: prey_activate_def prey_removeMonsterType_def)
qed

lemma listSelection_ok:
  assumes "preys_ok (hu_preys h)" and "getPreySlotById i h = Some s" and "pc_preyEnabled (pe_config e)"
    and "prey_listSelection e x s h r = Some (reply, h', r')"
  shows "preys_ok (hu_preys h')"
  using assms(1,4) activate_ok [OF assms(1-3), of x r]
  by (auto simp: prey_listSelection_def bind_eq_Some_conv split: if_splits)

lemma monsterSelection_ok:
  assumes "preys_ok (hu_preys h)" and "getPreySlotById i h = Some s" and "pc_preyEnabled (pe_config e)"
    and "prey_monsterSelection e index s h r = Some (reply, h', r')"
  shows "preys_ok (hu_preys h')"
  using assms(1,4) activate_ok [OF assms(1-3), of "ps_raceIdList s ! nat (sint index)" r]
  by (auto simp: prey_monsterSelection_def Let_def prey_canSelect_def bind_eq_Some_conv split: if_splits)

lemma reroll_both_ok:
  assumes "prey_slot_ok s" and "ps_state s = PreyDataState_Active" and "reroll_bonus_both s r = Some (s', r')"
  shows "prey_slot_ok s' \<and> ps_id s' = ps_id s \<and> ps_selectedRaceId s' = ps_selectedRaceId s"
proof -
  obtain b q where "s' = s\<lparr>ps_bonus := b, ps_bonusRarity := q, ps_bonusPercentage := bonus_percentage b q\<rparr>"
    and b: "b \<noteq> PreyBonus_None" "2 \<le> q" "q \<le> 10"
    using assms reroll_both_result by metis
  moreover have "1 \<le> q" "q \<noteq> 1" using b(2) by (auto simp: word_le_nat_alt)
  ultimately show ?thesis using assms(1) by (auto simp: prey_slot_ok_def bonus_percentage_le)
qed

lemma occupied_active: "prey_slot_ok s \<Longrightarrow> prey_isOccupied s \<Longrightarrow> ps_state s = PreyDataState_Active"
  by (auto simp: prey_slot_ok_def prey_isOccupied_def)

lemma slot_time_ok [simp]: "prey_slot_ok (s\<lparr>ps_bonusTimeLeft := t\<rparr>) = prey_slot_ok s"
  by (simp add: prey_slot_ok_def)

lemma bonusReroll_ok:
  assumes ok: "preys_ok (hu_preys h)" and found: "getPreySlotById i h = Some s"
    and res: "prey_bonusReroll e s h r = Some (reply, h', r')"
  shows "preys_ok (hu_preys h')"
proof (cases "\<not> prey_isOccupied s \<or> fst (usePreyCards (of_int (pc_preyBonusRerollPrice (pe_config e))) h) = False")
  case True
  then show ?thesis using res ok by (auto simp: prey_bonusReroll_def usePreyCards_def split: if_splits)
next
  case False
  then obtain s1 r1 where s1: "reroll_bonus_both s r = Some (s1, r1)"
    and h': "hu_preys h' = hu_preys (store_prey (s1\<lparr>ps_bonusTimeLeft := of_int (pc_preyBonusTime (pe_config e))\<rparr>) h)"
    using res by (auto simp: prey_bonusReroll_def usePreyCards_def bind_eq_Some_conv split: if_splits)
  have s: "prey_slot_ok s" by (rule prey_found_ok [OF ok found])
  then have "prey_slot_ok s1 \<and> ps_id s1 = ps_id s \<and> ps_selectedRaceId s1 = ps_selectedRaceId s"
    using False by (intro reroll_both_ok [OF _ _ s1] occupied_active) auto
  then show ?thesis unfolding h' by (intro preys_ok_store [OF ok found]) auto
qed

lemma setOption_ok:
  assumes ok: "preys_ok (hu_preys h)" and found: "getPreySlotById i h = Some s"
    and res: "prey_setOption e opt s h r = Some (reply, h', r')"
  shows "preys_ok (hu_preys h')"
proof -
  have "preys_ok (hu_preys (store_prey (s\<lparr>ps_option := opt\<rparr>) h))"
    using prey_found_ok [OF ok found] by (intro preys_ok_store [OF ok found]) (auto simp: prey_slot_ok_def)
  then show ?thesis using res ok by (auto simp: prey_setOption_def split: if_splits)
qed

lemma parsePreyAction_ok:
  assumes ok: "preys_ok (hu_preys h)" and on: "pc_preyEnabled (pe_config e)"
    and res: "parsePreyAction pay e i action opt index x h r = Some (reply, h', r')"
  shows "preys_ok (hu_preys h')"
proof (cases "getPreySlotById i h")
  case None
  then show ?thesis using res ok by (simp add: parsePreyAction_def)
next
  case (Some s)
  show ?thesis
  proof (cases "ps_state s = PreyDataState_Locked")
    case True
    then show ?thesis using Some res ok by (simp add: parsePreyAction_def)
  next
    case False
    then show ?thesis using Some res ok listReroll_ok [OF ok Some] listCards_ok [OF ok Some] listSelection_ok [OF ok Some on]
        bonusReroll_ok [OF ok Some] monsterSelection_ok [OF ok Some on] setOption_ok [OF ok Some]
      by (cases action) (simp_all add: parsePreyAction_def)
  qed
qed

lemma store_time_cards [simp]: "hu_preys (h\<lparr>hu_preyCards := c\<rparr>) = hu_preys h"
  by simp

lemma check_prey_ok:
  assumes ok: "preys_ok (hu_preys h)" and res: "check_prey e amount i (h, r) = Some (h', r')"
  shows "preys_ok (hu_preys h')"
proof (cases "getPreySlotById i h")
  case None
  then show ?thesis using res ok by (simp add: check_prey_def)
next
  case (Some s)
  let ?t = "of_int (pc_preyBonusTime (pe_config e)) :: u16"
  have s: "prey_slot_ok s" by (rule prey_found_ok [OF ok Some])
  have erased: "preys_ok (hu_preys (store_prey (eraseBonus False s) h))"
    using prey_slot_ok_erased [OF s] by (intro preys_ok_store [OF ok Some]) simp_all
  have timed: "preys_ok (hu_preys (store_prey (s\<lparr>ps_bonusTimeLeft := t\<rparr>) h))" for t
    using s by (intro preys_ok_store [OF ok Some]) simp_all
  show ?thesis
  proof (cases "prey_isOccupied s")
    case False
    then show ?thesis using Some res ok by (simp add: check_prey_def)
  next
    case occ: True
    have rolled: "preys_ok (hu_preys (store_prey (s'\<lparr>ps_bonusTimeLeft := ?t\<rparr>) h))"
      if "reloadBonusType s r = Some (s1, r1)" "reloadBonusValue s1 r1 = (s', r2)" for s1 r1 s' r2
    proof -
      have "reroll_bonus_both s r = Some (s', r2)" using that by (simp add: reroll_bonus_both_def)
      then show ?thesis using reroll_both_ok [OF s occupied_active [OF s occ]]
        by (intro preys_ok_store [OF ok Some]) auto
    qed
    then have rolled': "preys_ok (hu_preys (store_prey ((fst (reloadBonusValue s1 r1))\<lparr>ps_bonusTimeLeft := ?t\<rparr>) h))"
      if "reloadBonusType s r = Some (s1, r1)" for s1 r1
      using that by (metis prod.collapse)
    show ?thesis
      using res Some occ erased timed rolled'
      by (auto simp: check_prey_def usePreyCards_def bind_eq_Some_conv case_prod_beta split: if_splits)
  qed
qed

lemma checkPlayerPreys_ok:
  assumes "preys_ok (hu_preys h)" and "checkPlayerPreys e amount h r = Some (h', r')"
  shows "preys_ok (hu_preys h')"
  using assms by (auto simp: checkPlayerPreys_def bind_eq_Some_conv) (metis check_prey_ok)

lemma PreySlot_ok:
  assumes "PreySlot e i r = Some (s, r')"
  shows "prey_slot_ok s \<and> ps_bonus s \<noteq> PreyBonus_None \<and> ps_bonusPercentage s = 3 * ucast (ps_bonusRarity s) + 10 \<and>
    ps_id s = i \<and> ps_selectedRaceId s = 0 \<and> ps_state s = PreyDataState_Selection \<and> ps_raceIdList s = []"
proof -
  define s0 where "s0 = eraseBonus False \<lparr>ps_id = i, ps_bonus = PreyBonus_None, ps_state = PreyDataState_Locked,
            ps_option = PreyOption_None, ps_raceIdList = [], ps_bonusRarity = 1, ps_selectedRaceId = 0,
            ps_bonusPercentage = 0, ps_bonusTimeLeft = 0, ps_freeReroll = 0\<rparr>"
  obtain s1 r1 where 1: "reloadBonusValue s0 r = (s1, r1)" by fastforce
  then obtain s2 r2 where 2: "reloadBonusType s1 r1 = Some (s2, r2)"
    and s: "s = s2\<lparr>ps_freeReroll := pe_now e + pc_preyFreeRerollTime (pe_config e) * 1000\<rparr>"
    using assms by (auto simp: PreySlot_def bind_eq_Some_conv simp flip: s0_def)
  obtain q where q: "s1 = s0\<lparr>ps_bonusRarity := q, ps_bonusPercentage := bonus_percentage (ps_bonus s0) q\<rparr>" "2 \<le> q" "q \<le> 10"
  proof -
    have "1 \<le> ps_bonusRarity s0" "ps_bonusRarity s0 \<le> 10" by (simp_all add: s0_def)
    from reloadBonusValue_result [OF this 1] that show ?thesis by metis
  qed
  obtain b where b: "s2 = s1\<lparr>ps_bonus := b\<rparr>" "b \<noteq> PreyBonus_None" using reloadBonusType_result [OF 2] by metis
  have "1 \<le> q" "q \<noteq> 1" using q(2) by (auto simp: word_le_nat_alt)
  then show ?thesis using q b bonus_percentage_le [OF q(3), of PreyBonus_None]
    by (simp add: s prey_slot_ok_def) (simp add: s0_def eraseBonus_def bonus_percentage_def)
qed

lemma setPreySlotClass_ok:
  assumes "preys_ok (hu_preys h)" and "prey_slot_ok s" and "ps_selectedRaceId s = 0"
  shows "preys_ok (hu_preys (snd (setPreySlotClass s h)))"
  using assms by (auto simp: setPreySlotClass_def getPreySlotById_def preys_ok_def find_None_iff split: option.splits)

lemma initial_prey_ok:
  assumes ok: "preys_ok (hu_preys h)" and res: "initial_prey e i h r = Some (h', r')"
  shows "preys_ok (hu_preys h')"
proof -
  obtain s r1 where 1: "PreySlot e i r = Some (s, r1)" using res by (auto simp: initial_prey_def bind_eq_Some_conv)
  note s = PreySlot_ok [OF 1]
  obtain s1 where h': "h' = snd (setPreySlotClass s1 h)" and
    cases: "(\<exists>st. s1 = s\<lparr>ps_state := st\<rparr> \<and> st \<noteq> PreyDataState_Active) \<or>
      prey_reloadMonsterGrid e (getPreyBlackList h) (s\<lparr>ps_state := PreyDataState_Selection\<rparr>) r1 = Some (s1, r')"
    using res 1 by (auto simp: initial_prey_def bind_eq_Some_conv split: if_splits)
  have "prey_slot_ok s1 \<and> ps_selectedRaceId s1 = 0"
    using cases
  proof
    assume "\<exists>st. s1 = s\<lparr>ps_state := st\<rparr> \<and> st \<noteq> PreyDataState_Active"
    then show ?thesis using s by (auto simp: prey_slot_ok_def)
  next
    assume "prey_reloadMonsterGrid e (getPreyBlackList h) (s\<lparr>ps_state := PreyDataState_Selection\<rparr>) r1 = Some (s1, r')"
    then show ?thesis using s reload_grid_length
      by (fastforce simp: prey_reloadMonsterGrid_def bind_eq_Some_conv prey_slot_ok_def)
  qed
  then show ?thesis using setPreySlotClass_ok [OF ok] by (simp add: h')
qed

lemma initializePrey_ok:
  assumes "preys_ok (hu_preys h)" and "initializePrey e h r = Some (h', r')"
  shows "preys_ok (hu_preys h')"
proof (cases "hu_preys h = []")
  case True
  then obtain h1 r1 h2 r2 where "initial_prey e 0 h r = Some (h1, r1)" "initial_prey e 1 h1 r1 = Some (h2, r2)"
      "initial_prey e 2 h2 r2 = Some (h', r')"
    using assms(2) by (auto simp: initializePrey_def bind_eq_Some_conv)
  then show ?thesis using assms(1) initial_prey_ok by metis
next
  case False
  then show ?thesis using assms by (simp add: initializePrey_def)
qed

lemma distinct_nonzero_filter:
  "distinct (filter P (map f l)) \<Longrightarrow> distinct (filter P (map f (filter Q l)))"
  by (induction l) (auto split: if_splits)

lemma removePreySlotById_ok: "preys_ok (hu_preys h) \<Longrightarrow> preys_ok (hu_preys (removePreySlotById i h))"
  by (auto simp: preys_ok_def removePreySlotById_def distinct_map_filter intro: distinct_nonzero_filter)

subsection \<open>Task handlers\<close>

definition task_slot_ok :: "task_slot \<Rightarrow> bool" where
  "task_slot_ok s \<longleftrightarrow>
     1 \<le> ts_rarity s \<and> ts_rarity s \<le> 5 \<and> distinct (ts_raceIdList s) \<and> length (ts_raceIdList s) \<le> 9 \<and>
     (ts_state s \<in> {PreyTaskDataState_Active, PreyTaskDataState_Completed} \<longleftrightarrow> ts_selectedRaceId s \<noteq> 0)"

definition tasks_ok :: "task_slot list \<Rightarrow> bool" where
  "tasks_ok l \<longleftrightarrow> distinct (map ts_id l) \<and> (\<forall>s\<in>set l. task_slot_ok s) \<and>
     distinct (filter (\<lambda>x. x \<noteq> 0) (map ts_selectedRaceId l))"

lemma task_found:
  assumes "getTaskHuntingSlotById i h = Some s"
  obtains k where "k < length (hu_tasks h)" "hu_tasks h ! k = s" "ts_id s = i"
    "\<And>s'. ts_id s' = ts_id s \<Longrightarrow> store_task s' h = h\<lparr>hu_tasks := (hu_tasks h)[k := s']\<rparr>"
proof -
  let ?k = "find_index (\<lambda>t. ts_id t = i) (hu_tasks h)"
  have k: "?k < length (hu_tasks h)" "hu_tasks h ! ?k = s"
    using assms by (auto simp: getTaskHuntingSlotById_def find_find_index split: if_splits)
  then have "ts_id s = i" using find_index_nth [OF k(1)] by simp
  with k show ?thesis by (intro that [of ?k]) (auto simp: store_task_def)
qed

lemma task_found_ok: "tasks_ok (hu_tasks h) \<Longrightarrow> getTaskHuntingSlotById i h = Some s \<Longrightarrow> task_slot_ok s"
  by (metis task_found nth_mem tasks_ok_def)

lemma tasks_ok_store:
  assumes "tasks_ok (hu_tasks h)" and "getTaskHuntingSlotById i h = Some s" and "ts_id s' = ts_id s" and "task_slot_ok s'"
    and "ts_selectedRaceId s' = 0 \<or> ts_selectedRaceId s' = ts_selectedRaceId s \<or>
         ts_selectedRaceId s' \<notin> ts_selectedRaceId ` set (hu_tasks h)"
  shows "tasks_ok (hu_tasks (store_task s' h))"
proof -
  obtain k where k: "k < length (hu_tasks h)" "hu_tasks h ! k = s"
    "store_task s' h = h\<lparr>hu_tasks := (hu_tasks h)[k := s']\<rparr>"
    using task_found [OF assms(2)] assms(3) by metis
  have "map ts_id ((hu_tasks h)[k := s']) = map ts_id (hu_tasks h)"
    using k assms(3) by (simp add: map_update list_update_same_conv)
  moreover have "\<forall>t\<in>set ((hu_tasks h)[k := s']). task_slot_ok t"
    using assms(1,4) by (auto simp: tasks_ok_def dest: set_update_subset_insert [THEN subsetD])
  moreover have "distinct (filter (\<lambda>x. x \<noteq> 0) (map ts_selectedRaceId ((hu_tasks h)[k := s'])))"
    unfolding map_update using assms(1,5) k by (intro distinct_nonzero_update) (auto simp: tasks_ok_def)
  ultimately show ?thesis using assms(1) k(3) by (simp add: tasks_ok_def)
qed

lemma store_task_twice:
  assumes "ts_id s = ts_id t"
  shows "store_task s (store_task t h) = store_task s h"
proof -
  have "find_index (\<lambda>u. ts_id u = i) (l[find_index (\<lambda>u. ts_id u = i) l := t]) = find_index (\<lambda>u. ts_id u = i) l"
    if "ts_id t = i" for i l
    using that by (induction l) auto
  then show ?thesis using assms by (simp add: store_task_def)
qed

lemma store_task_points: "store_task s (addTaskHuntingPoints n h) = addTaskHuntingPoints n (store_task s h)"
  by (simp add: store_task_def addTaskHuntingPoints_def)

lemma hu_tasks_frame [simp]:
  "hu_tasks (store_task s (h\<lparr>hu_money := m\<rparr>)) = hu_tasks (store_task s h)"
  "hu_tasks (store_task s (h\<lparr>hu_preyCards := c\<rparr>)) = hu_tasks (store_task s h)"
  "hu_tasks (addTaskHuntingPoints n h) = hu_tasks h" "hu_tasks (store_prey p h) = hu_tasks h"
  "hu_preys (store_task s h) = hu_preys h" "hu_preys (addTaskHuntingPoints n h) = hu_preys h"
  "hu_points (store_task s h) = hu_points h" "hu_money (store_task s h) = hu_money h"
  "hu_preyCards (store_task s h) = hu_preyCards h"
  "getTaskHuntingSlotById i (h\<lparr>hu_money := m\<rparr>) = getTaskHuntingSlotById i h"
  by (simp_all add: store_task_def store_prey_def addTaskHuntingPoints_def getTaskHuntingSlotById_def)

lemma reloadReward_result:
  assumes "reloadReward e s r = (s', r')" and "1 \<le> ts_rarity s" and "ts_rarity s \<le> 5"
  obtains q where "s' = s\<lparr>ts_rarity := q\<rparr>" "1 \<le> q" "q \<le> 5"
proof -
  have "s' = s \<or> (\<exists>q. s' = s\<lparr>ts_rarity := q\<rparr> \<and> q \<in> {1, 2, 3, 4, 5})"
    using assms(1) by (auto simp: reloadReward_def case_prod_beta Let_def split: if_splits)
  then show ?thesis
  proof
    assume "s' = s"
    then show ?thesis using assms(2,3) by (intro that [of "ts_rarity s"]) auto
  next
    assume "\<exists>q. s' = s\<lparr>ts_rarity := q\<rparr> \<and> q \<in> {1, 2, 3, 4, 5}"
    then obtain q where "s' = s\<lparr>ts_rarity := q\<rparr>" "q \<in> {1, 2, 3, 4, 5}" by blast
    then show ?thesis by (intro that [of q]) (auto simp: word_le_nat_alt)
  qed
qed

lemma erased_reward:
  assumes "reloadReward e (eraseTask s) r = (s', r')"
  obtains q where "s' = (eraseTask s)\<lparr>ts_rarity := q\<rparr>" "1 \<le> q" "q \<le> 5"
proof -
  have "1 \<le> ts_rarity (eraseTask s)" "ts_rarity (eraseTask s) \<le> 5"
    by (simp_all add: eraseTask_def word_le_nat_alt)
  then show ?thesis using reloadReward_result [OF assms] that by metis
qed

lemma task_restart_ok:
  assumes ok: "tasks_ok (hu_tasks h)" and found: "getTaskHuntingSlotById i h = Some s"
    and s0: "ts_id s0 = ts_id s" "ts_raceIdList s0 = ts_raceIdList s"
    and res: "task_restart e s0 (h\<lparr>hu_money := m\<rparr>) r = Some (reply, h', r')"
  shows "tasks_ok (hu_tasks h')"
proof -
  obtain s1 r1 where 1: "reloadReward e (eraseTask s0) r = (s1, r1)" by fastforce
  define s2 where "s2 = s1\<lparr>ts_state := PreyTaskDataState_Selection\<rparr>"
  obtain l where l: "reload_grid (pc_taskEnabled (pe_config e)) e (getTaskHuntingBlackList (store_task s2 (h\<lparr>hu_money := m\<rparr>))) r1 = Some (l, r')"
    and h': "h' = store_task (s2\<lparr>ts_raceIdList := l\<rparr>) (store_task s2 (h\<lparr>hu_money := m\<rparr>))"
    using res 1 by (auto simp: task_restart_def task_reloadMonsterGrid_def bind_eq_Some_conv Let_def simp flip: s2_def)
  obtain q where q: "s1 = (eraseTask s0)\<lparr>ts_rarity := q\<rparr>" "1 \<le> q" "q \<le> 5" using erased_reward [OF 1] by metis
  have "tasks_ok (hu_tasks (store_task (s2\<lparr>ts_raceIdList := l\<rparr>) h))"
    using q s0 reload_grid_length [OF l]
    by (intro tasks_ok_store [OF ok found]) (simp_all add: s2_def eraseTask_def task_slot_ok_def)
  then show ?thesis by (simp add: h' store_task_twice)
qed

lemma task_listReroll_ok:
  assumes ok: "tasks_ok (hu_tasks h)" and found: "getTaskHuntingSlotById i h = Some s"
    and res: "task_listReroll pay e s h r = Some (reply, h', r')"
  shows "tasks_ok (hu_tasks h')"
proof (cases "task_wait e s")
  case None
  define free where "free \<longleftrightarrow> ts_freeReroll s > pe_now e"
  obtain paid m where pay: "(if free then pay (ucast (getTaskHuntingRerollPrice e)) (hu_money h) else (True, hu_money h)) = (paid, m)"
    by fastforce
  show ?thesis
  proof (cases paid)
    case False
    then show ?thesis using res None pay ok by (auto simp: task_listReroll_def free_def)
  next
    case True
    then have "task_restart e (if ts_freeReroll s \<le> pe_now e
        then s\<lparr>ts_freeReroll := pe_now e + pc_taskFreeRerollTime (pe_config e) * 1000\<rparr> else s)
        (h\<lparr>hu_money := m\<rparr>) r = Some (reply, h', r')"
      using res None pay by (simp add: task_listReroll_def free_def)
    then show ?thesis by (rule task_restart_ok [OF ok found, rotated 2]) auto
  qed
next
  case (Some w)
  then show ?thesis using res ok by (auto simp: task_listReroll_def)
qed

lemma task_cancel_ok:
  assumes ok: "tasks_ok (hu_tasks h)" and found: "getTaskHuntingSlotById i h = Some s"
    and res: "task_cancel pay e s h r = Some (reply, h', r')"
  shows "tasks_ok (hu_tasks h')"
proof -
  obtain paid m where pay: "pay (ucast (getTaskHuntingRerollPrice e)) (hu_money h) = (paid, m)" by fastforce
  show ?thesis
  proof (cases paid)
    case False
    then show ?thesis using res pay ok by (auto simp: task_cancel_def)
  next
    case True
    then have "task_restart e s (h\<lparr>hu_money := m\<rparr>) r = Some (reply, h', r')"
      using res pay by (simp add: task_cancel_def)
    then show ?thesis by (rule task_restart_ok [OF ok found refl refl])
  qed
qed

lemma task_rewardsReroll_ok:
  assumes ok: "tasks_ok (hu_tasks h)" and found: "getTaskHuntingSlotById i h = Some s"
    and res: "task_rewardsReroll e s h r = Some (reply, h', r')"
  shows "tasks_ok (hu_tasks h')"
proof -
  obtain s1 r1 where 1: "reloadReward e s r = (s1, r1)" by fastforce
  have s: "task_slot_ok s" by (rule task_found_ok [OF ok found])
  then obtain q where "s1 = s\<lparr>ts_rarity := q\<rparr>" "1 \<le> q" "q \<le> 5"
    using reloadReward_result [OF 1] unfolding task_slot_ok_def by metis
  then have "tasks_ok (hu_tasks (store_task s1 h))"
    using s by (intro tasks_ok_store [OF ok found]) (simp_all add: task_slot_ok_def)
  then show ?thesis using res ok 1 by (auto simp: task_rewardsReroll_def usePreyCards_def split: if_splits)
qed

lemma task_listCards_ok:
  assumes ok: "tasks_ok (hu_tasks h)" and found: "getTaskHuntingSlotById i h = Some s"
    and res: "task_listCards e s h r = Some (reply, h', r')"
  shows "tasks_ok (hu_tasks h')"
proof -
  have "tasks_ok (hu_tasks (store_task (s\<lparr>ts_selectedRaceId := 0, ts_state := PreyTaskDataState_ListSelection\<rparr>) h))"
    using task_found_ok [OF ok found] by (intro tasks_ok_store [OF ok found]) (simp_all add: task_slot_ok_def)
  then show ?thesis using res ok by (auto simp: task_listCards_def usePreyCards_def split: if_splits option.splits)
qed

lemma getTaskHuntingWithCreature_None:
  "pc_taskEnabled (pe_config e) \<Longrightarrow> getTaskHuntingWithCreature e x h = None \<longleftrightarrow> x \<notin> ts_selectedRaceId ` set (hu_tasks h)"
  by (auto simp: getTaskHuntingWithCreature_def find_None_iff)

lemma task_monsterSelection_ok:
  assumes ok: "tasks_ok (hu_tasks h)" and found: "getTaskHuntingSlotById i h = Some s" and on: "pc_taskEnabled (pe_config e)"
    and res: "task_monsterSelection e upgrade x s h r = Some (reply, h', r')"
  shows "tasks_ok (hu_tasks h')"
proof (cases "h' = h")
  case False
  then obtain u where free: "\<not> task_isOccupied s" "getTaskHuntingWithCreature e x h = None" and
    h': "h' = store_task ((task_removeMonsterType x (s\<lparr>ts_currentKills := 0, ts_selectedRaceId := x\<rparr>))
                   \<lparr>ts_state := PreyTaskDataState_Active, ts_upgrade := u\<rparr>) h"
    using res by (auto simp: task_monsterSelection_def split: option.splits if_splits)
  have s: "task_slot_ok s" by (rule task_found_ok [OF ok found])
  have new: "x \<notin> ts_selectedRaceId ` set (hu_tasks h)" using free(2) on by (simp add: getTaskHuntingWithCreature_None)
  have "s \<in> set (hu_tasks h)" using task_found [OF found] by (metis nth_mem)
  then have "x \<noteq> 0" using new free(1) by (auto simp: task_isOccupied_def)
  then show ?thesis unfolding h' using s new
    by (intro tasks_ok_store [OF ok found])
       (auto simp: task_slot_ok_def task_removeMonsterType_def intro: order.trans [OF length_filter_le])
qed (use ok in simp)

lemma task_claim_ok:
  assumes ok: "tasks_ok (hu_tasks h)" and found: "getTaskHuntingSlotById i h = Some s"
    and res: "task_claim e s h r = Some (reply, h', r')"
  shows "tasks_ok (hu_tasks h')"
proof (cases "\<exists>opt. task_isOccupied s \<and> getTaskRewardOption e s = Some opt \<and> claim_reward s opt \<noteq> None")
  case False
  then have "h' = h" using res by (auto simp: task_claim_def case_prod_beta Let_def split: if_splits option.splits)
  then show ?thesis using ok by simp
next
  case True
  then obtain opt base where opt: "task_isOccupied s" "getTaskRewardOption e s = Some opt" "claim_reward s opt = Some base" by blast
  define r1 where "r1 = snd (uniform_random 0 100 r)"
  define reward where "reward = (ucast base :: u64) * of_int (claim_boost (ts_rarity s) (fst (uniform_random 0 100 r))) div 10"
  obtain s1 r2 where 1: "reloadReward e (eraseTask s) r1 = (s1, r2)" by fastforce
  define s2 where "s2 = s1\<lparr>ts_state := PreyTaskDataState_Inactive\<rparr>"
  define h1 where "h1 = addTaskHuntingPoints reward (store_task s2 h)"
  obtain l where l: "reload_grid (pc_taskEnabled (pe_config e)) e (getTaskHuntingBlackList h1) r2 = Some (l, r')"
    and h': "h' = store_task (s2\<lparr>ts_raceIdList := l, ts_disabledUntil := pe_now e + pc_taskLimitExhaust (pe_config e) * 1000\<rparr>) h1"
    using res opt 1
    by (auto simp: task_claim_def case_prod_beta task_reloadMonsterGrid_def bind_eq_Some_conv
        simp flip: r1_def reward_def s2_def h1_def)
  obtain q where q: "s1 = (eraseTask s)\<lparr>ts_rarity := q\<rparr>" "1 \<le> q" "q \<le> 5" using erased_reward [OF 1] by metis
  have "tasks_ok (hu_tasks (store_task (s2\<lparr>ts_raceIdList := l, ts_disabledUntil := pe_now e + pc_taskLimitExhaust (pe_config e) * 1000\<rparr>) h))"
    using q reload_grid_length [OF l]
    by (intro tasks_ok_store [OF ok found]) (simp_all add: s2_def eraseTask_def task_slot_ok_def)
  then show ?thesis by (simp add: h' h1_def store_task_points store_task_twice)
qed

lemma task_by_id:
  assumes "tasks_ok (hu_tasks h)" and "s \<in> set (hu_tasks h)"
  shows "getTaskHuntingSlotById (ts_id s) h = Some s"
proof -
  have "distinct (map ts_id l) \<Longrightarrow> s \<in> set l \<Longrightarrow> List.find (\<lambda>t. ts_id t = ts_id s) l = Some s" for l
    by (induction l) force+
  then show ?thesis using assms by (simp add: getTaskHuntingSlotById_def tasks_ok_def)
qed

lemma addHuntingTaskKill_ok:
  assumes ok: "tasks_ok (hu_tasks h)" and zero: "getMonsterTypeByRaceId e 0 = None"
  shows "tasks_ok (hu_tasks (addHuntingTaskKill e x h))"
proof (cases "\<exists>s opt. getTaskHuntingWithCreature e x h = Some s \<and> getTaskRewardOption e s = Some opt")
  case False
  then show ?thesis using ok by (auto simp: addHuntingTaskKill_def split: option.splits)
next
  case True
  then obtain s opt where s: "getTaskHuntingWithCreature e x h = Some s" "getTaskRewardOption e s = Some opt" by blast
  have mem: "s \<in> set (hu_tasks h)"
    using s(1) by (auto simp: getTaskHuntingWithCreature_def find_Some_iff split: if_splits)
  have "ts_selectedRaceId s \<noteq> 0" using s(2) zero by (auto simp: getTaskRewardOption_def)
  moreover have "task_slot_ok s" using ok mem by (simp add: tasks_ok_def)
  ultimately have "tasks_ok (hu_tasks (store_task (s\<lparr>ts_currentKills := k\<rparr>) h))"
    "tasks_ok (hu_tasks (store_task (s\<lparr>ts_currentKills := k, ts_state := PreyTaskDataState_Completed\<rparr>) h))" for k
    by (intro tasks_ok_store [OF ok task_by_id [OF ok mem]]; simp add: task_slot_ok_def)+
  then show ?thesis using s by (simp add: addHuntingTaskKill_def Let_def)
qed

lemma initial_task_ok:
  assumes ok: "tasks_ok (hu_tasks h)" and res: "initial_task e i h r = Some (h', r')"
  shows "tasks_ok (hu_tasks h')"
proof -
  let ?s = "TaskHuntingSlot e i"
  obtain s1 where h': "h' = snd (setTaskHuntingSlotClass s1 h)" and
    cases: "(\<exists>st. s1 = ?s\<lparr>ts_state := st\<rparr> \<and> st \<notin> {PreyTaskDataState_Active, PreyTaskDataState_Completed}) \<or>
      task_reloadMonsterGrid e (getTaskHuntingBlackList h) (?s\<lparr>ts_state := PreyTaskDataState_Selection\<rparr>) r = Some (s1, r')"
    using res by (auto simp: initial_task_def Let_def bind_eq_Some_conv split: if_splits)
  have s: "1 \<le> ts_rarity ?s" "ts_rarity ?s \<le> 5" "ts_raceIdList ?s = []" "ts_selectedRaceId ?s = 0"
    by (simp_all add: TaskHuntingSlot_def word_le_nat_alt)
  from cases have "task_slot_ok s1 \<and> ts_selectedRaceId s1 = 0"
  proof
    assume "task_reloadMonsterGrid e (getTaskHuntingBlackList h) (?s\<lparr>ts_state := PreyTaskDataState_Selection\<rparr>) r = Some (s1, r')"
    then show ?thesis using s by (auto simp: task_reloadMonsterGrid_def bind_eq_Some_conv task_slot_ok_def dest: reload_grid_length)
  qed (use s in \<open>auto simp: task_slot_ok_def\<close>)
  then show ?thesis using ok
    by (auto simp: h' setTaskHuntingSlotClass_def getTaskHuntingSlotById_def tasks_ok_def find_None_iff split: option.splits)
qed

lemma initializeTaskHunting_ok:
  assumes "tasks_ok (hu_tasks h)" and "initializeTaskHunting e h r = Some (h', r')"
  shows "tasks_ok (hu_tasks h')"
proof (cases "hu_tasks h = []")
  case True
  then obtain h1 r1 h2 r2 where "initial_task e 0 h r = Some (h1, r1)" "initial_task e 1 h1 r1 = Some (h2, r2)"
      "initial_task e 2 h2 r2 = Some (h', r')"
    using assms(2) by (auto simp: initializeTaskHunting_def bind_eq_Some_conv)
  then show ?thesis using assms(1) initial_task_ok by metis
next
  case False
  then show ?thesis using assms by (simp add: initializeTaskHunting_def)
qed

lemma parseTaskHuntingAction_ok:
  assumes ok: "tasks_ok (hu_tasks h)" and on: "pc_taskEnabled (pe_config e)"
    and res: "parseTaskHuntingAction pay e i action upgrade x h r = Some (reply, h', r')"
  shows "tasks_ok (hu_tasks h')"
proof (cases "getTaskHuntingSlotById i h")
  case None
  then show ?thesis using res ok by (simp add: parseTaskHuntingAction_def)
next
  case (Some s)
  show ?thesis
  proof (cases "ts_state s = PreyTaskDataState_Locked")
    case True
    then show ?thesis using Some res ok by (simp add: parseTaskHuntingAction_def)
  next
    case False
    then show ?thesis using Some res ok task_listReroll_ok [OF ok Some] task_rewardsReroll_ok [OF ok Some]
        task_listCards_ok [OF ok Some] task_monsterSelection_ok [OF ok Some on] task_cancel_ok [OF ok Some] task_claim_ok [OF ok Some]
      by (cases action) (simp_all add: parseTaskHuntingAction_def)
  qed
qed

text \<open>The handlers of one kind of slot leave the other kind alone.\<close>

lemma hu_tasks_store_prey [simp]: "hu_tasks (store_prey s h) = hu_tasks h"
  by (simp add: store_prey_def)

lemma prey_actions_keep_tasks:
  "parsePreyAction pay e i action opt index x h r = Some (reply, h', r') \<Longrightarrow> hu_tasks h' = hu_tasks h"
  by (cases action)
     (auto simp: parsePreyAction_def prey_listReroll_def prey_listCards_def prey_listSelection_def prey_bonusReroll_def
        prey_monsterSelection_def prey_setOption_def usePreyCards_def Let_def bind_eq_Some_conv
        split: option.splits if_splits prod.splits bool.splits)

lemma task_restart_keeps_preys:
  "task_restart e s h r = Some (reply, h', r') \<Longrightarrow> hu_preys h' = hu_preys h"
  by (auto simp: task_restart_def Let_def bind_eq_Some_conv split: prod.splits)

lemma task_claim_keeps_preys:
  "task_claim e s h r = Some (reply, h', r') \<Longrightarrow> hu_preys h' = hu_preys h"
  by (auto simp: task_claim_def Let_def bind_eq_Some_conv split: option.splits if_splits prod.splits bool.splits)

lemma task_actions_keep_preys:
  "parseTaskHuntingAction pay e i action upgrade x h r = Some (reply, h', r') \<Longrightarrow> hu_preys h' = hu_preys h"
  by (cases action)
     (auto simp: parseTaskHuntingAction_def task_listReroll_def task_rewardsReroll_def task_listCards_def
        task_monsterSelection_def task_cancel_def usePreyCards_def
        dest: task_restart_keeps_preys task_claim_keeps_preys
        split: option.splits if_splits prod.splits bool.splits)

lemma check_prey_keeps_tasks: "check_prey e amount i (h, r) = Some (h', r') \<Longrightarrow> hu_tasks h' = hu_tasks h"
  by (auto simp: check_prey_def usePreyCards_def bind_eq_Some_conv case_prod_beta split: option.splits if_splits)

lemma checkPlayerPreys_keeps_tasks: "checkPlayerPreys e amount h r = Some (h', r') \<Longrightarrow> hu_tasks h' = hu_tasks h"
  by (auto simp: checkPlayerPreys_def bind_eq_Some_conv) (metis check_prey_keeps_tasks)

lemma initial_prey_keeps_tasks: "initial_prey e i h r = Some (h', r') \<Longrightarrow> hu_tasks h' = hu_tasks h"
  by (auto simp: initial_prey_def setPreySlotClass_def bind_eq_Some_conv split: option.splits)

lemma initializePrey_keeps_tasks: "initializePrey e h r = Some (h', r') \<Longrightarrow> hu_tasks h' = hu_tasks h"
  by (auto simp: initializePrey_def bind_eq_Some_conv split: if_splits) (metis initial_prey_keeps_tasks)

lemma initial_task_keeps_preys: "initial_task e i h r = Some (h', r') \<Longrightarrow> hu_preys h' = hu_preys h"
  by (auto simp: initial_task_def setTaskHuntingSlotClass_def Let_def bind_eq_Some_conv split: option.splits)

lemma initializeTaskHunting_keeps_preys: "initializeTaskHunting e h r = Some (h', r') \<Longrightarrow> hu_preys h' = hu_preys h"
  by (auto simp: initializeTaskHunting_def bind_eq_Some_conv split: if_splits) (metis initial_task_keeps_preys)

lemma addHuntingTaskKill_keeps_preys: "hu_preys (addHuntingTaskKill e x h) = hu_preys h"
  by (auto simp: addHuntingTaskKill_def Let_def split: option.splits)

subsection \<open>Runs\<close>

text \<open>
  The steps of a player's slots: the client's actions while the systems are enabled, the timer, the
  kills, the set-up at login and the changes made by items and scripts. The bestiary has no entry
  for the null race.
\<close>

inductive hunt_step :: "(u64 \<Rightarrow> 'm \<Rightarrow> bool \<times> 'm) \<Rightarrow> 'm hunter \<Rightarrow> 'm hunter \<Rightarrow> bool" for pay where
  prey_action: "pc_preyEnabled (pe_config e) \<Longrightarrow>
     parsePreyAction pay e i action opt index x h r = Some (reply, h', r') \<Longrightarrow> hunt_step pay h h'"
| task_action: "pc_taskEnabled (pe_config e) \<Longrightarrow>
     parseTaskHuntingAction pay e i taction upgrade x h r = Some (reply, h', r') \<Longrightarrow> hunt_step pay h h'"
| timer: "checkPlayerPreys e amount h r = Some (h', r') \<Longrightarrow> hunt_step pay h h'"
| kill: "getMonsterTypeByRaceId e 0 = None \<Longrightarrow> hunt_step pay h (addHuntingTaskKill e x h)"
| login_prey: "initializePrey e h r = Some (h', r') \<Longrightarrow> hunt_step pay h h'"
| login_task: "initializeTaskHunting e h r = Some (h', r') \<Longrightarrow> hunt_step pay h h'"
| lose_slot: "hunt_step pay h (removePreySlotById i h)"
| cards: "hunt_step pay h (addPreyCards n h)"
| money: "hunt_step pay h (h\<lparr>hu_money := m\<rparr>)"
| spend: "hunt_step pay h (snd (useTaskHuntingPoints n h))"

definition hunter_ok :: "'m hunter \<Rightarrow> bool" where
  "hunter_ok h \<longleftrightarrow> preys_ok (hu_preys h) \<and> tasks_ok (hu_tasks h)"

lemma hunt_step_ok: "hunt_step pay h h' \<Longrightarrow> hunter_ok h \<Longrightarrow> hunter_ok h'"
proof (induction rule: hunt_step.induct)
  case (prey_action e i action opt index x h r reply h' r')
  then show ?case using parsePreyAction_ok prey_actions_keep_tasks unfolding hunter_ok_def by metis
next
  case (task_action e i taction upgrade x h r reply h' r')
  then show ?case using parseTaskHuntingAction_ok task_actions_keep_preys unfolding hunter_ok_def by metis
next
  case (timer e amount h r h' r')
  then show ?case using checkPlayerPreys_ok checkPlayerPreys_keeps_tasks unfolding hunter_ok_def by metis
next
  case (kill e h x)
  then show ?case using addHuntingTaskKill_ok addHuntingTaskKill_keeps_preys unfolding hunter_ok_def by metis
next
  case (login_prey e h r h' r')
  then show ?case using initializePrey_ok initializePrey_keeps_tasks unfolding hunter_ok_def by metis
next
  case (login_task e h r h' r')
  then show ?case using initializeTaskHunting_ok initializeTaskHunting_keeps_preys unfolding hunter_ok_def by metis
next
  case (lose_slot h i)
  then show ?case using removePreySlotById_ok by (auto simp: hunter_ok_def removePreySlotById_def)
next
  case (spend h n)
  then show ?case by (auto simp: hunter_ok_def useTaskHuntingPoints_def)
qed (auto simp: hunter_ok_def addPreyCards_def)

text \<open>A packet that passes the protocol and reaches the handler is a step.\<close>

lemma prey_packet_step:
  "proto_parsePreyAction e m = (Some args, m') \<Longrightarrow> playerPreyAction pay e args h r = Some (reply, h', r') \<Longrightarrow>
   hunt_step pay h h'"
  by (auto simp: proto_parsePreyAction_def playerPreyAction_def Let_def case_prod_beta split: if_splits
      intro: hunt_step.prey_action)

lemma task_packet_step:
  "proto_parseTaskHuntingAction e old m = (Some args, m') \<Longrightarrow> playerTaskHuntingAction pay e args h r = Some (reply, h', r') \<Longrightarrow>
   hunt_step pay h h'"
  by (auto simp: proto_parseTaskHuntingAction_def playerTaskHuntingAction_def Let_def case_prod_beta split: if_splits
      intro: hunt_step.task_action)


definition new_hunter :: "unit hunter" where
  "new_hunter = \<lparr>hu_preys = [], hu_tasks = [], hu_preyCards = 7, hu_points = 0, hu_money = ()\<rparr>"

definition plain_env :: prey_env where
  "plain_env = \<lparr>pe_config = sample_config, pe_now = 1000, pe_bestiary = [(2, sample_name 1)],
     pe_monster = sample_monster, pe_level = 50, pe_premium = True, pe_killCount = (\<lambda>_. 9),
     pe_taskOption = difficulty_loop 25 [(PreyTaskDifficult_Easy, 1), (PreyTaskDifficult_Medium, 2), (PreyTaskDifficult_Hard, 3)]\<rparr>"

definition zeros :: rng where "zeros = (\<lambda>_. 0)"

text \<open>The constructor rolls the percentage before the bonus has a type, so a new slot carries the
  percentage of the other bonuses even when its bonus is damage or defense.
\<close>

lemma new_slot_percentage:
  assumes "PreySlot e i r = Some (s, r')"
  shows "ps_bonusPercentage s = 3 * ucast (ps_bonusRarity s) + 10 \<and>
    (ps_bonus s \<in> {PreyBonus_Damage, PreyBonus_Defense} \<longrightarrow>
       ps_bonusPercentage s > bonus_percentage (ps_bonus s) (ps_bonusRarity s))"
proof -
  note s = PreySlot_ok [OF assms]
  have "ps_bonusRarity s \<le> 10" "ps_bonusRarity s \<noteq> 1" "1 \<le> ps_bonusRarity s" using s by (auto simp: prey_slot_ok_def)
  then have "2 \<le> uint (ps_bonusRarity s) \<and> uint (ps_bonusRarity s) \<le> 10"
    by (auto simp: word_le_def word_uint_eq_iff)
  then have "2 \<le> uint (ucast (ps_bonusRarity s) :: u16) \<and> uint (ucast (ps_bonusRarity s) :: u16) \<le> 10"
    by (simp add: unsigned_ucast_eq take_bit_int_eq_self)
  then show ?thesis using s by (auto simp: bonus_percentage_def word_less_def uint_word_ariths)
qed

lemma new_slot_percentage_witness:
  "\<exists>s r'. PreySlot plain_env 0 (\<lambda>n. if n = 0 then 8 else 0) = Some (s, r') \<and> ps_bonus s = PreyBonus_Damage \<and>
    ps_bonusRarity s = 10 \<and> ps_bonusPercentage s = 40 \<and> bonus_percentage PreyBonus_Damage 10 = 25"
proof -
  let ?p = "PreySlot plain_env 0 (\<lambda>n. if n = 0 then 8 else 0)"
  have "reroll_bonus PreyBonus_None PreyBonus_Damage r = Some (PreyBonus_Damage, r)" for r
    by (subst reroll_bonus.simps) simp
  then have "reroll_bonus PreyBonus_None PreyBonus_None (\<lambda>n. 0) = Some (PreyBonus_Damage, \<lambda>n. 0)"
    by (subst reroll_bonus.simps) (simp add: uniform_random_def prey_bonus_of_def)
  then have "(case ?p of Some (s, _) \<Rightarrow> ps_bonus s = PreyBonus_Damage \<and> ps_bonusRarity s = 10 | None \<Rightarrow> False)"
    by (simp add: PreySlot_def reloadBonusValue_def eraseBonus_def uniform_random_def reloadBonusType_def word_le_nat_alt)
  then obtain s r' where s: "?p = Some (s, r')" "ps_bonus s = PreyBonus_Damage" "ps_bonusRarity s = 10"
    by (auto split: option.splits)
  have "bonus_percentage PreyBonus_Damage 10 = 25" by code_simp
  moreover have "ps_bonusPercentage s = 40" using new_slot_percentage [OF s(1)] s(3) by simp
  ultimately show ?thesis using s by blast
qed

context cashier
begin

lemma refused_action_keeps:
  assumes "reply = Unknown_Action \<or> (\<exists>c. reply = Refused c)"
    and "parsePreyAction pay e i action opt index x h r = Some (reply, h', r') \<or>
         parseTaskHuntingAction pay e i taction upgrade x h r = Some (reply, h', r')"
  shows "h' = h"
proof -
  have keep: "h\<lparr>hu_money := m\<rparr> = h" if "pay n (hu_money h) = (False, m)" for n m
    using refused [OF that] by simp
  have restart: "task_restart e s g r \<noteq> Some (reply, h', r')" for s g
    using assms(1) by (auto simp: task_restart_def Let_def bind_eq_Some_conv split: prod.splits)
  show ?thesis
    using assms(2)
  proof
    assume "parsePreyAction pay e i action opt index x h r = Some (reply, h', r')"
    then show ?thesis using assms(1) keep
      by (cases action)
         (auto simp: parsePreyAction_def prey_listReroll_def prey_listCards_def prey_listSelection_def prey_bonusReroll_def
            prey_monsterSelection_def prey_setOption_def usePreyCards_def Let_def bind_eq_Some_conv
            split: option.splits if_splits prod.splits bool.splits)
  next
    assume "parseTaskHuntingAction pay e i taction upgrade x h r = Some (reply, h', r')"
    then show ?thesis using assms(1) keep restart
      by (cases taction)
         (auto simp: parseTaskHuntingAction_def task_listReroll_def task_rewardsReroll_def task_listCards_def
            task_monsterSelection_def task_cancel_def task_claim_def usePreyCards_def Let_def bind_eq_Some_conv
            split: option.splits if_splits prod.splits bool.splits)
  qed
qed

end

text \<open>An action that is refused, or unknown, changes nothing and costs nothing: neither cards nor
  coins nor the balance.\<close>

lemma refused_action_free:
  assumes "reply = Unknown_Action \<or> (\<exists>c. reply = Refused c)"
    and "parsePreyAction (player_pay addItem) e i action opt index x h r = Some (reply, h', r') \<or>
         parseTaskHuntingAction (player_pay addItem) e i taction upgrade x h r = Some (reply, h', r')"
  shows "h' = h"
  by (rule player_cashier.refused_action_keeps [OF assms])

definition poor_hunter :: "wallet hunter" where
  "poor_hunter = \<lparr>hu_preys = [sample_slot\<lparr>ps_freeReroll := 5000\<rparr>], hu_tasks = [], hu_preyCards = 0, hu_points = 0,
     hu_money = \<lparr>wl_slots = [None], wl_balance = 3, wl_ground = []\<rparr>\<rparr>"

lemma refused_action_free_witness:
  "parsePreyAction (player_pay append_stack) plain_env 0 PreyAction_ListReroll PreyOption_None 0 0 poor_hunter zeros
     = Some (Refused No_Money, poor_hunter, zeros)"
proof -
  have poor: "\<exists>w'. player_pay append_stack (ucast (getPreyRerollPrice plain_env)) (hu_money poor_hunter) = (False, w')"
    by (simp add: player_pay_def removeMoney_def getMoney_def carried_stacks_def slot_items_def List.map_filter_def
        poor_hunter_def getPreyRerollPrice_def plain_env_def sample_config_def)
  obtain h' where res: "parsePreyAction (player_pay append_stack) plain_env 0 PreyAction_ListReroll PreyOption_None 0 0 poor_hunter zeros
     = Some (Refused No_Money, h', zeros)"
    using poor by (auto simp: parsePreyAction_def getPreySlotById_def prey_listReroll_def poor_hunter_def sample_slot_def plain_env_def)
  then have "h' = poor_hunter" using refused_action_free by blast
  with res show ?thesis by simp
qed

subsection \<open>Rewards\<close>

definition hunt_options :: "task_option list" where
  "hunt_options = difficulty_loop 25 [(PreyTaskDifficult_Easy, 1), (PreyTaskDifficult_Medium, 2), (PreyTaskDifficult_Hard, 3)]"

definition option_of :: "task_difficulty \<Rightarrow> u8 \<Rightarrow> task_option option" where
  "option_of d q = List.find (\<lambda>opt. to_difficult opt = d \<and> to_rarity opt = q) hunt_options"

lemma hunt_options_code: "hunt_options =
   [\<lparr>to_difficult = PreyTaskDifficult_Easy, to_rarity = 1, to_firstKills = 25, to_secondKills = 50, to_firstReward = 10, to_secondReward = 20\<rparr>,
    \<lparr>to_difficult = PreyTaskDifficult_Easy, to_rarity = 2, to_firstKills = 25, to_secondKills = 50, to_firstReward = 12, to_secondReward = 24\<rparr>,
    \<lparr>to_difficult = PreyTaskDifficult_Easy, to_rarity = 3, to_firstKills = 25, to_secondKills = 50, to_firstReward = 14, to_secondReward = 28\<rparr>,
    \<lparr>to_difficult = PreyTaskDifficult_Easy, to_rarity = 4, to_firstKills = 25, to_secondKills = 50, to_firstReward = 16, to_secondReward = 32\<rparr>,
    \<lparr>to_difficult = PreyTaskDifficult_Easy, to_rarity = 5, to_firstKills = 25, to_secondKills = 50, to_firstReward = 19, to_secondReward = 38\<rparr>,
    \<lparr>to_difficult = PreyTaskDifficult_Medium, to_rarity = 1, to_firstKills = 100, to_secondKills = 200, to_firstReward = 40, to_secondReward = 80\<rparr>,
    \<lparr>to_difficult = PreyTaskDifficult_Medium, to_rarity = 2, to_firstKills = 100, to_secondKills = 200, to_firstReward = 50, to_secondReward = 100\<rparr>,
    \<lparr>to_difficult = PreyTaskDifficult_Medium, to_rarity = 3, to_firstKills = 100, to_secondKills = 200, to_firstReward = 62, to_secondReward = 124\<rparr>,
    \<lparr>to_difficult = PreyTaskDifficult_Medium, to_rarity = 4, to_firstKills = 100, to_secondKills = 200, to_firstReward = 77, to_secondReward = 154\<rparr>,
    \<lparr>to_difficult = PreyTaskDifficult_Medium, to_rarity = 5, to_firstKills = 100, to_secondKills = 200, to_firstReward = 96, to_secondReward = 192\<rparr>,
    \<lparr>to_difficult = PreyTaskDifficult_Hard, to_rarity = 1, to_firstKills = 400, to_secondKills = 800, to_firstReward = 160, to_secondReward = 320\<rparr>,
    \<lparr>to_difficult = PreyTaskDifficult_Hard, to_rarity = 2, to_firstKills = 400, to_secondKills = 800, to_firstReward = 208, to_secondReward = 416\<rparr>,
    \<lparr>to_difficult = PreyTaskDifficult_Hard, to_rarity = 3, to_firstKills = 400, to_secondKills = 800, to_firstReward = 270, to_secondReward = 540\<rparr>,
    \<lparr>to_difficult = PreyTaskDifficult_Hard, to_rarity = 4, to_firstKills = 400, to_secondKills = 800, to_firstReward = 351, to_secondReward = 702\<rparr>,
    \<lparr>to_difficult = PreyTaskDifficult_Hard, to_rarity = 5, to_firstKills = 400, to_secondKills = 800, to_firstReward = 456, to_secondReward = 912\<rparr>]"
  by (simp add: hunt_options_def)

lemma rarity_cases:
  fixes q :: u8
  assumes "1 \<le> q" and "q \<le> 5"
  obtains "q = 1" | "q = 2" | "q = 3" | "q = 4" | "q = 5"
proof -
  have "unat q \<in> {1, 2, 3, 4, 5}" using assms by (auto simp: word_le_nat_alt)
  then show ?thesis using that by (auto simp: word_unat_eq_iff)
qed

lemma option_of_total:
  assumes "1 \<le> q" and "q \<le> 5"
  shows "\<exists>opt. option_of d q = Some opt \<and> to_difficult opt = d \<and> to_rarity opt = q \<and>
    to_secondKills opt = 2 * to_firstKills opt \<and> to_secondReward opt = 2 * to_firstReward opt \<and>
    10 \<le> to_firstReward opt \<and> 0 < to_firstKills opt \<and> to_firstReward opt \<le> 456"
  using rarity_cases [OF assms]
  by cases (cases d; simp add: option_of_def hunt_options_code word_le_nat_alt word_less_nat_alt)+

lemma getTask_frame [simp]:
  "getTaskHuntingSlotById i (addTaskHuntingPoints n h) = getTaskHuntingSlotById i h"
  by (simp add: getTaskHuntingSlotById_def addTaskHuntingPoints_def)

lemma task_stored:
  assumes "getTaskHuntingSlotById i h = Some s" and "ts_id s' = ts_id s"
  shows "getTaskHuntingSlotById i (store_task s' h) = Some s'"
proof -
  have "List.find (\<lambda>u. ts_id u = j) (l[find_index (\<lambda>u. ts_id u = j) l := t]) = Some t"
    if "List.find (\<lambda>u. ts_id u = j) l \<noteq> None" "ts_id t = j" for j t l
    using that by (induction l) auto
  note upd = this
  have "ts_id s = i" using task_found [OF assms(1)] by metis
  then show ?thesis using assms upd [of i "hu_tasks h" s'] by (simp add: getTaskHuntingSlotById_def store_task_def)
qed

definition claim_points :: "u16 \<Rightarrow> int \<Rightarrow> u64" where
  "claim_points base boost = of_int (uint base * boost div 10)"

lemma claim_points_word:
  assumes "boost \<in> {10, 15, 20}"
  shows "(ucast base :: u64) * of_int boost div 10 = claim_points base boost"
    and "uint (claim_points base boost) = uint base * boost div 10"
proof -
  have b: "uint base < 2 ^ 16" using uint_bounded [of base] by simp
  then have n: "0 \<le> uint base * boost" "uint base * boost < 2 ^ 16 * 20"
    using assms by (auto intro: mult_nonneg_nonneg mult_less_le_imp_less)
  have "uint ((ucast base :: u64) * of_int boost) = uint base * boost"
    using n assms by (auto simp: uint_word_ariths unsigned_ucast_eq take_bit_int_eq_self)
  then have q: "uint ((ucast base :: u64) * of_int boost div 10) = uint base * boost div 10"
    by (simp add: uint_div_distrib)
  have "uint base * boost div 10 \<le> uint base * boost" using n(1) by presburger
  then have "uint base * boost div 10 < 2 ^ 64" using n(2) by simp
  then show u: "uint (claim_points base boost) = uint base * boost div 10"
    using n(1) by (simp add: claim_points_def uint_word_of_int take_bit_int_eq_self)
  show "(ucast base :: u64) * of_int boost div 10 = claim_points base boost"
    using q u by (simp add: word_uint_eq_iff)
qed

lemma claim_boost_range: "claim_boost q n \<in> {10, 15, 20}" "q < 4 \<Longrightarrow> claim_boost q n = 10"
  by (auto simp: claim_boost_def)

lemma task_claim_eq:
  assumes "task_isOccupied s" and "getTaskRewardOption e s = Some opt" and "claim_reward s opt = Some base"
    and "reloadReward e (eraseTask s) (snd (uniform_random 0 100 r)) = (s1, r2)"
    and "boost = claim_boost (ts_rarity s) (fst (uniform_random 0 100 r))"
    and "h1 = addTaskHuntingPoints (claim_points base boost) (store_task (s1\<lparr>ts_state := PreyTaskDataState_Inactive\<rparr>) h)"
  shows "task_claim e s h r = do {(l, r3) \<leftarrow> reload_grid (pc_taskEnabled (pe_config e)) e (getTaskHuntingBlackList h1) r2;
     Some (Rewarded (claim_points base boost) boost,
       store_task (s1\<lparr>ts_state := PreyTaskDataState_Inactive, ts_raceIdList := l,
                     ts_disabledUntil := pe_now e + pc_taskLimitExhaust (pe_config e) * 1000\<rparr>) h1, r3)}"
proof -
  have "boost \<in> {10, 15, 20}" using assms(5) claim_boost_range(1) by blast
  note p = claim_points_word(1) [OF this, of base]
  obtain chance r1 where u: "uniform_random 0 100 r = (chance, r1)" by fastforce
  have "claim_boost (ts_rarity s) chance = boost" using assms(5) u by simp
  then show ?thesis
    using assms(4) unfolding assms(6)
    by (simp add: task_claim_def assms(1-3) u p Let_def task_reloadMonsterGrid_def case_prod_unfold bind_assoc)
qed

text \<open>Claiming a finished task adds its reward once, rounded down after the boost, charges nothing,
  empties the slot and locks it: until the waiting time is over, every way to start a task in it is refused.
\<close>

lemma task_claim_pays:
  assumes found: "getTaskHuntingSlotById i h = Some s" and open_slot: "ts_state s \<noteq> PreyTaskDataState_Locked"
    and reward: "task_isOccupied s" "getTaskRewardOption e s = Some opt" "claim_reward s opt = Some base"
    and res: "parseTaskHuntingAction pay e i PreyTaskAction_Claim upgrade x h r = Some (reply, h', r')"
  shows "\<exists>boost s'. boost \<in> {10, 15, 20} \<and> (ts_rarity s < 4 \<longrightarrow> boost = 10) \<and>
      reply = Rewarded (claim_points base boost) boost \<and> uint (claim_points base boost) = uint base * boost div 10 \<and>
      hu_points h' = hu_points h + claim_points base boost \<and> hu_money h' = hu_money h \<and> hu_preyCards h' = hu_preyCards h \<and>
      getTaskHuntingSlotById i h' = Some s' \<and> ts_state s' = PreyTaskDataState_Inactive \<and> \<not> task_isOccupied s' \<and>
      (\<forall>e2 a up y r2. pe_now e2 \<le> pe_now e + pc_taskLimitExhaust (pe_config e) * 1000 \<longrightarrow>
         a \<in> {PreyTaskAction_ListReroll, PreyTaskAction_ListAll_Cards, PreyTaskAction_MonsterSelection} \<longrightarrow>
         (\<exists>w. parseTaskHuntingAction pay e2 i a up y h' r2 = Some (Refused (Wait_Minutes w), h', r2)))"
proof -
  define boost where "boost = claim_boost (ts_rarity s) (fst (uniform_random 0 100 r))"
  obtain s1 r2 where 1: "reloadReward e (eraseTask s) (snd (uniform_random 0 100 r)) = (s1, r2)" by fastforce
  define s2 where "s2 = s1\<lparr>ts_state := PreyTaskDataState_Inactive\<rparr>"
  define h1 where "h1 = addTaskHuntingPoints (claim_points base boost) (store_task s2 h)"
  define until where "until = pe_now e + pc_taskLimitExhaust (pe_config e) * 1000"
  have b: "boost \<in> {10, 15, 20}" "ts_rarity s < 4 \<longrightarrow> boost = 10" unfolding boost_def using claim_boost_range by blast+
  have "task_claim e s h r = Some (reply, h', r')"
    using res found open_slot by (simp add: parseTaskHuntingAction_def)
  then obtain l where rep: "reply = Rewarded (claim_points base boost) boost"
    and h': "h' = store_task (s2\<lparr>ts_raceIdList := l, ts_disabledUntil := until\<rparr>) h1"
    unfolding task_claim_eq [OF reward 1 boost_def h1_def [unfolded s2_def]]
    by (auto simp: bind_eq_Some_conv s2_def until_def)
  have s2: "ts_id s2 = ts_id s" "ts_selectedRaceId s2 = 0" "ts_state s2 = PreyTaskDataState_Inactive"
  proof -
    obtain q where "s1 = (eraseTask s)\<lparr>ts_rarity := q\<rparr>" using erased_reward [OF 1] by metis
    then show "ts_id s2 = ts_id s" "ts_selectedRaceId s2 = 0" "ts_state s2 = PreyTaskDataState_Inactive"
      by (simp_all add: s2_def eraseTask_def)
  qed
  let ?s' = "s2\<lparr>ts_raceIdList := l, ts_disabledUntil := until\<rparr>"
  have slot: "getTaskHuntingSlotById i h' = Some ?s'"
    using s2 found unfolding h' h1_def by (intro task_stored [of _ _ s2]) (simp_all add: task_stored)
  have locked: "\<exists>w. parseTaskHuntingAction pay e2 i a up y h' r2 = Some (Refused (Wait_Minutes w), h', r2)"
    if "pe_now e2 \<le> until" "a \<in> {PreyTaskAction_ListReroll, PreyTaskAction_ListAll_Cards, PreyTaskAction_MonsterSelection}" for e2 a up y r2
    using that slot s2
    by (auto simp: parseTaskHuntingAction_def task_listReroll_def task_listCards_def task_monsterSelection_def task_wait_def)
  have acc: "hu_points h' = hu_points h + claim_points base boost" "hu_money h' = hu_money h" "hu_preyCards h' = hu_preyCards h"
    by (simp_all add: h' h1_def addTaskHuntingPoints_def)
  have free: "ts_state ?s' = PreyTaskDataState_Inactive" "\<not> task_isOccupied ?s'"
    using s2 by (simp_all add: task_isOccupied_def)
  show ?thesis
    by (rule exI [of _ boost], rule exI [of _ ?s'])
       (use b rep claim_points_word(2) [OF b(1)] acc slot free locked in \<open>auto simp: until_def\<close>)
qed

definition sample_task :: task_slot where
  "sample_task = \<lparr>ts_id = 0, ts_state = PreyTaskDataState_Completed, ts_upgrade = False, ts_rarity = 5,
     ts_selectedRaceId = 2, ts_currentKills = 25, ts_disabledUntil = 0, ts_freeReroll = 0, ts_raceIdList = []\<rparr>"

lemma task_claim_pays_witness:
  "\<exists>h'. parseTaskHuntingAction (\<lambda>_ m. (False, m)) plain_env 0 PreyTaskAction_Claim False 0
       (new_hunter\<lparr>hu_tasks := [sample_task]\<rparr>) (\<lambda>_. 7) = Some (Rewarded 28 15, h', \<lambda>_. 7) \<and> hu_points h' = 28"
proof -
  let ?h = "new_hunter\<lparr>hu_tasks := [sample_task]\<rparr>"
  let ?opt = "\<lparr>to_difficult = PreyTaskDifficult_Easy, to_rarity = 5, to_firstKills = 25, to_secondKills = 50, to_firstReward = 19, to_secondReward = 38\<rparr>"
  have found: "getTaskHuntingSlotById 0 ?h = Some sample_task" by (simp add: getTaskHuntingSlotById_def sample_task_def)
  have opt: "getTaskRewardOption plain_env sample_task = Some ?opt"
    using hunt_options_code
    by (simp add: getTaskRewardOption_def getMonsterTypeByRaceId_def plain_env_def sample_task_def sample_monster_def
        task_difficulty_of_def hunt_options_def)
  have base: "claim_reward sample_task ?opt = Some 19" "task_isOccupied sample_task" "ts_state sample_task \<noteq> PreyTaskDataState_Locked"
    by (simp_all add: claim_reward_def sample_task_def task_isOccupied_def)
  have grid: "reload_grid b plain_env bl r = Some ([], r)" for b bl r by (simp add: reload_grid_def plain_env_def)
  have u: "uniform_random 0 100 (\<lambda>_. 7) = (7, \<lambda>_. 7)" "uniform_random 0 70 (\<lambda>_. 7) = (7, \<lambda>_. 7)" by (simp_all add: uniform_random_def)
  have roll: "reloadReward plain_env (eraseTask sample_task) (snd (uniform_random 0 100 (\<lambda>_. 7))) = ((eraseTask sample_task)\<lparr>ts_rarity := 4\<rparr>, \<lambda>_. 7)"
    by (simp add: reloadReward_def eraseTask_def plain_env_def sample_config_def u word_le_nat_alt)
  have boost: "15 = claim_boost (ts_rarity sample_task) (fst (uniform_random 0 100 (\<lambda>_. 7)))"
    by (simp add: claim_boost_def u sample_task_def)
  obtain h' where res: "parseTaskHuntingAction (\<lambda>_ m. (False, m)) plain_env 0 PreyTaskAction_Claim False 0 ?h (\<lambda>_. 7)
      = Some (Rewarded (claim_points 19 15) 15, h', \<lambda>_. 7)"
    using found base(3) by (simp add: parseTaskHuntingAction_def task_claim_eq [OF base(2) opt base(1) roll boost refl] grid)
  have "hu_points h' = claim_points 19 15"
    using task_claim_pays [OF found base(3,2) opt base(1) res] by (auto simp: new_hunter_def)
  moreover have "claim_points 19 15 = 28" by (simp add: claim_points_def)
  ultimately show ?thesis using res by simp
qed

text \<open>C17: with the options the server sets up, every slot with a known creature has a reward: the kills
  depend on the creature's difficulty, and the upgraded task asks twice the kills for twice the points.
\<close>

theorem every_task_has_reward:
  assumes "pe_taskOption e = fst (initializeTaskHuntOptions e0 fresh ([], msg))" and "pc_taskEnabled (pe_config e0)"
    and "tasks_ok (hu_tasks h)" and "getTaskHuntingSlotById i h = Some s"
    and "getMonsterTypeByRaceId e (ts_selectedRaceId s) = Some mi"
  shows "\<exists>opt. getTaskRewardOption e s = Some opt \<and> to_difficult opt = task_difficulty_of (mi_bestiaryStars mi) \<and>
     to_secondKills opt = 2 * to_firstKills opt \<and> to_secondReward opt = 2 * to_firstReward opt \<and> 10 \<le> to_firstReward opt"
proof -
  have q: "1 \<le> ts_rarity s" "ts_rarity s \<le> 5"
    using task_found_ok [OF assms(3,4)] by (auto simp: task_slot_ok_def)
  have opts: "pe_taskOption e = hunt_options"
    using assms(1,2) by (simp only: initializeTaskHuntOptions_def hunt_options_def Let_def) simp
  have "getTaskRewardOption e s = option_of (task_difficulty_of (mi_bestiaryStars mi)) (ts_rarity s)"
    using assms(5) opts by (simp add: getTaskRewardOption_def option_of_def)
  then show ?thesis using option_of_total [OF q] by fastforce
qed



lemma every_task_has_reward_witness:
  "\<exists>opt. getTaskRewardOption plain_env sample_task = Some opt \<and> 10 \<le> to_firstReward opt"
proof -
  have "pe_taskOption plain_env = fst (initializeTaskHuntOptions plain_env msg ([], msg))" for msg
    by (simp only: plain_env_def initializeTaskHuntOptions_def Let_def) (simp add: sample_config_def)
  moreover have "pc_taskEnabled (pe_config plain_env)" by (simp add: plain_env_def sample_config_def)
  moreover have "tasks_ok (hu_tasks (new_hunter\<lparr>hu_tasks := [sample_task]\<rparr>))"
    by (simp add: tasks_ok_def task_slot_ok_def sample_task_def word_le_nat_alt)
  moreover have "getTaskHuntingSlotById 0 (new_hunter\<lparr>hu_tasks := [sample_task]\<rparr>) = Some sample_task"
    by (simp add: getTaskHuntingSlotById_def sample_task_def)
  moreover have "getMonsterTypeByRaceId plain_env (ts_selectedRaceId sample_task) = sample_monster (sample_name 1)"
    by (simp add: getMonsterTypeByRaceId_def plain_env_def sample_task_def)
  moreover have "sample_monster (sample_name 1) = Some (the (sample_monster (sample_name 1)))" by (simp add: sample_monster_def)
  ultimately show ?thesis using every_task_has_reward by metis
qed

end
