(* ===== verification/Market.thy ===== *)
theory Market
  imports Money "HOL-Library.Monad_Syntax"
begin

text \<open>
  The market (\<open>io/iomarket.cpp\<close> and the market handlers of \<open>game/game.cpp\<close>): offers are rows
  of a database table, buy offers hold the money and sell offers the items of their creator.
  Characters carry a \<open>wallet\<close> (Money) and a depot locker, with the inbox in it, as the list of its
  marketable items in the order they are searched. What the handlers read of item types, the clock
  and the settings, and where \<open>internalAddItem\<close> puts an item of the inbox, is an environment.
  Saving the characters and the messages to the client are not modelled.
\<close>

subsection \<open>State\<close>

record item_type =
  it_id :: u16
  it_wareId :: u16
  it_stackable :: bool
  it_stackSize :: u8

definition ITEM_STORE_COIN :: u16 where "ITEM_STORE_COIN = 22118"

datatype market_action = MARKETACTION_BUY | MARKETACTION_SELL

datatype offer_state = OFFERSTATE_CANCELLED | OFFERSTATE_EXPIRED | OFFERSTATE_ACCEPTED | OFFERSTATE_ACCEPTEDEX

record market_offer =
  mo_id :: u32
  mo_player :: u32
  mo_type :: market_action
  mo_item :: u16
  mo_amount :: u16
  mo_created :: int
  mo_anonymous :: bool
  mo_price :: u64
  mo_tier :: u8

record market_history =
  mh_player :: u32
  mh_type :: market_action
  mh_item :: u16
  mh_amount :: u16
  mh_price :: u64
  mh_time :: int
  mh_tier :: u8
  mh_state :: offer_state

record locker_item =
  lk_ref :: nat
  lk_item :: u16
  lk_tier :: u8
  lk_count :: u8
  lk_removable :: bool

record trader =
  tr_guid :: u32
  tr_account :: u32
  tr_online :: bool
  tr_inMarket :: bool
  tr_lastUIInteraction :: int
  tr_premium :: bool
  tr_wallet :: wallet
  tr_stash :: "u16 \<rightharpoonup> u32"
  tr_locker :: "locker_item list"

record market =
  mk_traders :: "trader list"
  mk_coins :: "u32 \<Rightarrow> u32"
  mk_offers :: "market_offer list"
  mk_history :: "market_history list"
  mk_nextId :: u32

record market_env =
  me_items :: "u16 \<Rightarrow> item_type"
  me_now :: int
  me_millis :: int
  me_duration :: int
  me_marketPremium :: bool
  me_maxOffers :: int
  me_maxTier :: int
  me_inboxAdd :: "u16 \<Rightarrow> u8 \<Rightarrow> u8 \<Rightarrow> locker_item list \<Rightarrow> locker_item list option"
  me_addItem :: "u16 \<Rightarrow> u8 \<Rightarrow> inv_item option list \<Rightarrow> inv_item option list option"

definition getPlayerByGUID :: "u32 \<Rightarrow> bool \<Rightarrow> market \<Rightarrow> trader option" where
  "getPlayerByGUID guid allowOffline m =
     (if guid = 0 then None
      else List.find (\<lambda>t. tr_guid t = guid \<and> (tr_online t \<or> allowOffline)) (mk_traders m))"

definition upd_trader :: "u32 \<Rightarrow> (trader \<Rightarrow> trader) \<Rightarrow> market \<Rightarrow> market" where
  "upd_trader guid f m = m\<lparr>mk_traders := map (\<lambda>t. if tr_guid t = guid then f t else t) (mk_traders m)\<rparr>"

definition isUIExhausted :: "market_env \<Rightarrow> int \<Rightarrow> trader \<Rightarrow> bool" where
  "isUIExhausted e exhaustionTime t \<longleftrightarrow> me_millis e - tr_lastUIInteraction t < exhaustionTime"

definition updateUIExhausted :: "market_env \<Rightarrow> trader \<Rightarrow> trader" where
  "updateUIExhausted e t = t\<lparr>tr_lastUIInteraction := me_millis e\<rparr>"

definition getBankBalance :: "trader \<Rightarrow> u64" where
  "getBankBalance t = wl_balance (tr_wallet t)"

definition setBankBalance :: "u64 \<Rightarrow> trader \<Rightarrow> trader" where
  "setBankBalance b t = t\<lparr>tr_wallet := (tr_wallet t)\<lparr>wl_balance := b\<rparr>\<rparr>"

definition trader_pay :: "market_env \<Rightarrow> u64 \<Rightarrow> bool \<Rightarrow> trader \<Rightarrow> trader" where
  "trader_pay e price useBalance t = t\<lparr>tr_wallet := snd (removeMoney (me_addItem e) price useBalance (tr_wallet t))\<rparr>"

definition addTransferableCoins :: "u32 \<Rightarrow> u16 \<Rightarrow> market \<Rightarrow> market" where
  "addTransferableCoins acc n m = m\<lparr>mk_coins := (mk_coins m)(acc := mk_coins m acc + ucast n)\<rparr>"

definition removeTransferableCoins :: "u32 \<Rightarrow> u16 \<Rightarrow> market \<Rightarrow> market" where
  "removeTransferableCoins acc n m =
     (if mk_coins m acc < ucast n then m else m\<lparr>mk_coins := (mk_coins m)(acc := mk_coins m acc - ucast n)\<rparr>)"

subsection \<open>The table of offers\<close>

definition getTierFromDatabaseTable :: "market_env \<Rightarrow> u8 \<Rightarrow> u8" where
  "getTierFromDatabaseTable e tier = (if uint tier > me_maxTier e then 0 else tier)"

definition read_row :: "market_env \<Rightarrow> market_offer \<Rightarrow> market_offer" where
  "read_row e q = q\<lparr>mo_tier := getTierFromDatabaseTable e (mo_tier q)\<rparr>"

definition createOffer :: "market_env \<Rightarrow> u32 \<Rightarrow> market_action \<Rightarrow> u16 \<Rightarrow> u16 \<Rightarrow> u64 \<Rightarrow> u8 \<Rightarrow> bool \<Rightarrow> market \<Rightarrow> market" where
  "createOffer e playerId act itemId amount price tier anonymous m =
     m\<lparr>mk_offers := mk_offers m @ [\<lparr>mo_id = mk_nextId m, mo_player = playerId, mo_type = act, mo_item = itemId,
          mo_amount = amount, mo_created = me_now e, mo_anonymous = anonymous, mo_price = price, mo_tier = tier\<rparr>],
       mk_nextId := mk_nextId m + 1\<rparr>"

definition acceptOffer :: "u32 \<Rightarrow> u16 \<Rightarrow> market \<Rightarrow> market" where
  "acceptOffer offerId amount m =
     m\<lparr>mk_offers := map (\<lambda>q. if mo_id q = offerId then q\<lparr>mo_amount := mo_amount q - amount\<rparr> else q) (mk_offers m)\<rparr>"

definition deleteOffer :: "u32 \<Rightarrow> market \<Rightarrow> market" where
  "deleteOffer offerId m = m\<lparr>mk_offers := filter (\<lambda>q. mo_id q \<noteq> offerId) (mk_offers m)\<rparr>"

definition appendHistory ::
    "u32 \<Rightarrow> market_action \<Rightarrow> u16 \<Rightarrow> u16 \<Rightarrow> u64 \<Rightarrow> int \<Rightarrow> u8 \<Rightarrow> offer_state \<Rightarrow> market \<Rightarrow> market" where
  "appendHistory playerId ty itemId amount price timestamp tier st m =
     m\<lparr>mk_history := mk_history m @ [\<lparr>mh_player = playerId, mh_type = ty, mh_item = itemId, mh_amount = amount,
          mh_price = price, mh_time = timestamp, mh_tier = tier, mh_state = st\<rparr>]\<rparr>"

definition moveOfferToHistory :: "market_env \<Rightarrow> u32 \<Rightarrow> offer_state \<Rightarrow> market \<Rightarrow> bool \<times> market" where
  "moveOfferToHistory e offerId st m = (case List.find (\<lambda>q. mo_id q = offerId) (mk_offers m) of
       None \<Rightarrow> (False, m)
     | Some q \<Rightarrow> (True, appendHistory (mo_player q) (mo_type q) (mo_item q) (mo_amount q) (mo_price q) (me_now e) (mo_tier (read_row e q)) st
                        (deleteOffer offerId m)))"

definition getPlayerOfferCount :: "u32 \<Rightarrow> market \<Rightarrow> u32" where
  "getPlayerOfferCount playerId m = of_nat (length (filter (\<lambda>q. mo_player q = playerId) (mk_offers m)))"

text \<open>The client names an offer by its end time and the low 16 bits of its number.\<close>

definition getOfferByCounter :: "market_env \<Rightarrow> u32 \<Rightarrow> u16 \<Rightarrow> market \<Rightarrow> market_offer option" where
  "getOfferByCounter e timestamp counter m =
     map_option (read_row e) (List.find (\<lambda>q. mo_created q = sint (timestamp - of_int (me_duration e)) \<and> mo_id q AND 65535 = ucast counter) (mk_offers m))"

definition getActiveOffers :: "market_env \<Rightarrow> market_action \<Rightarrow> u16 \<Rightarrow> u8 \<Rightarrow> market \<Rightarrow> market_offer list" where
  "getActiveOffers e act itemId tier m =
     map (read_row e) (filter (\<lambda>q. mo_type q = act \<and> mo_item q = itemId \<and> mo_tier q = tier) (mk_offers m))"

definition getOwnOffers :: "market_env \<Rightarrow> market_action \<Rightarrow> u32 \<Rightarrow> market \<Rightarrow> market_offer list" where
  "getOwnOffers e act playerId m = map (read_row e) (filter (\<lambda>q. mo_player q = playerId \<and> mo_type q = act) (mk_offers m))"

definition getOwnHistory :: "market_env \<Rightarrow> market_action \<Rightarrow> u32 \<Rightarrow> market \<Rightarrow> market_history list" where
  "getOwnHistory e act playerId m =
     map ((\<lambda>h. if mh_state h = OFFERSTATE_ACCEPTEDEX then h\<lparr>mh_state := OFFERSTATE_ACCEPTED\<rparr> else h) \<circ>
          (\<lambda>h. h\<lparr>mh_tier := getTierFromDatabaseTable e (mh_tier h)\<rparr>))
       (filter (\<lambda>h. mh_player h = playerId \<and> mh_type h = act) (mk_history m))"

subsection \<open>Items\<close>

definition withdrawItem :: "u16 \<Rightarrow> u32 \<Rightarrow> trader \<Rightarrow> bool \<times> trader" where
  "withdrawItem itemId amount t = (case tr_stash t itemId of
       None \<Rightarrow> (False, t)
     | Some n \<Rightarrow> if n > amount then (True, t\<lparr>tr_stash := (tr_stash t)(itemId \<mapsto> n - amount)\<rparr>)
                else if n = amount then (True, t\<lparr>tr_stash := (tr_stash t)(itemId := None)\<rparr>)
                else (False, t))"

definition getStashItemCount :: "u16 \<Rightarrow> trader \<Rightarrow> u32" where
  "getStashItemCount itemId t = (case tr_stash t itemId of None \<Rightarrow> 0 | Some n \<Rightarrow> n)"

definition locker_remove :: "nat \<Rightarrow> u8 \<Rightarrow> locker_item list \<Rightarrow> locker_item list" where
  "locker_remove r n l = concat (map (\<lambda>i. if lk_ref i \<noteq> r then [i] else if lk_count i \<le> n then []
       else [i\<lparr>lk_count := lk_count i - n\<rparr>]) l)"

text \<open>The loop over the items of the depot: whether no removal failed, how many are still to remove.\<close>

fun locker_loop :: "bool \<Rightarrow> u16 \<Rightarrow> locker_item list \<Rightarrow> u32 \<Rightarrow> u16 \<Rightarrow> locker_item list \<Rightarrow> bool \<times> u16 \<times> locker_item list" where
  "locker_loop stackable amount [] n removeAmount l = (True, removeAmount, l)"
| "locker_loop stackable amount (i # items) n removeAmount l =
     (if stackable then
        let removeCount = min removeAmount (ucast (lk_count i));
            left = removeAmount - removeCount
        in if \<not> lk_removable i then (False, left, l)
           else let l1 = locker_remove (lk_ref i) (ucast removeCount) l
             in if left = 0 then (True, left, l1) else locker_loop stackable amount items n left l1
      else let n1 = n + ucast (lk_count i) in
        if n1 > ucast amount then (True, removeAmount, l)
        else if \<not> lk_removable i then (False, removeAmount, l)
        else locker_loop stackable amount items n1 (removeAmount - 1) (locker_remove (lk_ref i) (lk_count i) l))"

definition removeOfferItems :: "item_type \<Rightarrow> u16 \<Rightarrow> u8 \<Rightarrow> trader \<Rightarrow> bool \<times> trader" where
  "removeOfferItems it amount tier t =
     (let stash = getStashItemCount (it_wareId it) t;
          (ok, removeAmount, t1) =
            (if stash > 0 then
               (case (if ucast amount > stash then withdrawItem (it_wareId it) stash t else (False, t)) of
                  (True, t1) \<Rightarrow> (True, amount - ucast stash, t1)
                | (False, _) \<Rightarrow> (case withdrawItem (it_wareId it) (ucast amount) t of
                    (True, t1) \<Rightarrow> (True, 0, t1)
                  | (False, _) \<Rightarrow> (False, amount, t)))
             else (True, amount, t))
      in if \<not> ok then (False, t1)
         else let items = filter (\<lambda>i. lk_item i = it_id it \<and> lk_tier i = tier) (tr_locker t) in
           if removeAmount > 0 \<and> items = [] then (False, t1)
           else if removeAmount > 0 then
             (case locker_loop (it_stackable it) amount items 0 removeAmount (tr_locker t) of
                (ok, left, l1) \<Rightarrow> (ok \<and> left = 0, t1\<lparr>tr_locker := l1\<rparr>))
           else (True, t1))"

definition inbox_add :: "market_env \<Rightarrow> u32 \<Rightarrow> u16 \<Rightarrow> u8 \<Rightarrow> u8 \<Rightarrow> market \<Rightarrow> bool \<times> market" where
  "inbox_add e guid itemId tier n m = (case getPlayerByGUID guid True m of
       None \<Rightarrow> (False, m)
     | Some t \<Rightarrow> (case me_inboxAdd e itemId tier n (tr_locker t) of
           None \<Rightarrow> (False, m)
         | Some l \<Rightarrow> (True, upd_trader guid (\<lambda>t. t\<lparr>tr_locker := l\<rparr>) m)))"

text \<open>A stack of size zero would never be used up; a created stack holds at least one item.\<close>

partial_function (option) give_stackable ::
    "market_env \<Rightarrow> u32 \<Rightarrow> u16 \<Rightarrow> u8 \<Rightarrow> u16 \<Rightarrow> u16 \<Rightarrow> market \<Rightarrow> (bool \<times> market) option" where
  "give_stackable e guid itemId tier stackSize tmpAmount m =
     (if tmpAmount > 0 then
        (let stackCount = min stackSize tmpAmount in
         let (ok, m1) = inbox_add e guid itemId tier (if stackCount = 0 then 1 else ucast stackCount) m in
         if ok then give_stackable e guid itemId tier stackSize (tmpAmount - stackCount) m1 else Some (False, m1))
      else Some (True, m))"

fun give_single :: "market_env \<Rightarrow> u32 \<Rightarrow> u16 \<Rightarrow> u8 \<Rightarrow> nat \<Rightarrow> market \<Rightarrow> bool \<times> market" where
  "give_single e guid itemId tier 0 m = (True, m)"
| "give_single e guid itemId tier (Suc n) m = (case inbox_add e guid itemId tier 1 m of
       (False, m1) \<Rightarrow> (False, m1)
     | (True, m1) \<Rightarrow> give_single e guid itemId tier n m1)"

definition give_items :: "market_env \<Rightarrow> u32 \<Rightarrow> item_type \<Rightarrow> u8 \<Rightarrow> u16 \<Rightarrow> u16 \<Rightarrow> market \<Rightarrow> (bool \<times> market) option" where
  "give_items e guid it tier stackSize amount m =
     (if it_stackable it then give_stackable e guid (it_id it) tier stackSize amount m
      else Some (give_single e guid (it_id it) tier (unat amount) m))"

subsection \<open>Handlers\<close>

text \<open>A handler refuses without a trace, stops on an error with what it has done so far, dereferences a
  null player, or finishes.\<close>

datatype market_reply = Market_Refused | Market_Error | Market_Null_Player | Market_Done

text \<open>The price is tested before the amount, so no product below leaves 64 bits.\<close>

definition checkCanInitCreateMarketOffer ::
    "market_env \<Rightarrow> trader \<Rightarrow> u8 \<Rightarrow> item_type \<Rightarrow> u16 \<Rightarrow> u64 \<Rightarrow> market \<Rightarrow> bool" where
  "checkCanInitCreateMarketOffer e t ty it amount price m \<longleftrightarrow>
     tr_inMarket t \<and> price \<noteq> 0 \<and> \<not> price > 999999999999 \<and> (ty = 0 \<or> ty = 1) \<and> \<not> isUIExhausted e 1000 t \<and>
     it_id it \<noteq> 0 \<and> it_wareId it \<noteq> 0 \<and>
     \<not> (amount = 0 \<or> (\<not> it_stackable it \<and> amount > 2000) \<or> (it_stackable it \<and> amount > 64000)) \<and>
     \<not> (me_marketPremium e \<and> \<not> tr_premium t) \<and>
     \<not> ((of_int (me_maxOffers e) :: u32) \<noteq> 0 \<and> getPlayerOfferCount (tr_guid t) m \<ge> of_int (me_maxOffers e))"

definition market_fee :: "u64 \<Rightarrow> u16 \<Rightarrow> u64" where
  "market_fee price amount = (let calcFee = price div 100 * ucast amount in max 20 (min 100000 calcFee))"

text \<open>The items that are sold, or the store coins, leave the character.\<close>

definition take_offered :: "market_env \<Rightarrow> trader \<Rightarrow> item_type \<Rightarrow> u16 \<Rightarrow> u8 \<Rightarrow> market \<Rightarrow> bool \<times> market" where
  "take_offered e t it amount tier m =
     (if it_id it = ITEM_STORE_COIN then
        if ucast amount > mk_coins m (tr_account t) then (False, m)
        else (True, removeTransferableCoins (tr_account t) amount m)
      else (case removeOfferItems it amount tier t of (ok, t1) \<Rightarrow> (ok, upd_trader (tr_guid t) (\<lambda>_. t1) m)))"

definition playerCreateMarketOffer ::
    "market_env \<Rightarrow> u32 \<Rightarrow> u8 \<Rightarrow> u16 \<Rightarrow> u16 \<Rightarrow> u64 \<Rightarrow> u8 \<Rightarrow> bool \<Rightarrow> market \<Rightarrow> market_reply \<times> market" where
  "playerCreateMarketOffer e guid ty itemId amount price tier anonymous m =
     (case getPlayerByGUID guid False m of
        None \<Rightarrow> (Market_Null_Player, m)
      | Some t \<Rightarrow>
          let it = me_items e itemId in
          if \<not> checkCanInitCreateMarketOffer e t ty it amount price m then (Market_Refused, m)
          else let fee = market_fee price amount in
            if ty = 1 then
              if fee > getBankBalance t + getMoney (tr_wallet t) then (Market_Refused, m)
              else let (ok, m1) = take_offered e t it amount tier m
                in if \<not> ok then (Market_Error, m1)
                   else (Market_Done, upd_trader guid (updateUIExhausted e)
                          (createOffer e guid MARKETACTION_SELL (it_id it) amount price tier anonymous
                            (upd_trader guid (trader_pay e fee True) m1)))
            else let totalPrice = price * ucast amount + fee in
              if totalPrice > getMoney (tr_wallet t) + getBankBalance t then (Market_Refused, m)
              else (Market_Done, upd_trader guid (updateUIExhausted e)
                      (createOffer e guid MARKETACTION_BUY (it_id it) amount price tier anonymous
                        (upd_trader guid (trader_pay e totalPrice True) m))))"

text \<open>The items of an offer, or its store coins, go to the character.\<close>

definition give_offer ::
    "market_env \<Rightarrow> u32 \<Rightarrow> u32 \<Rightarrow> item_type \<Rightarrow> u8 \<Rightarrow> u16 \<Rightarrow> market \<Rightarrow> (bool \<times> market) option" where
  "give_offer e guid acc it tier amount m =
     (if it_id it = ITEM_STORE_COIN then Some (True, addTransferableCoins acc amount m)
      else give_items e guid it tier (ucast (it_stackSize it)) amount m)"

definition playerCancelMarketOffer ::
    "market_env \<Rightarrow> u32 \<Rightarrow> u32 \<Rightarrow> u16 \<Rightarrow> market \<Rightarrow> (market_reply \<times> market) option" where
  "playerCancelMarketOffer e guid timestamp counter m =
     (case getPlayerByGUID guid False m of
        None \<Rightarrow> Some (Market_Refused, m)
      | Some t \<Rightarrow>
          if \<not> tr_inMarket t \<or> isUIExhausted e 1000 t then Some (Market_Refused, m)
          else (case getOfferByCounter e timestamp counter m of
              None \<Rightarrow> Some (Market_Refused, m)
            | Some q \<Rightarrow>
                if mo_player q \<noteq> tr_guid t then Some (Market_Refused, m)
                else if mo_type q = MARKETACTION_SELL \<and> it_id (me_items e (mo_item q)) = 0 then Some (Market_Refused, m)
                else do {
                  m1 \<leftarrow> (case mo_type q of
                      MARKETACTION_BUY \<Rightarrow>
                        Some (upd_trader guid (\<lambda>t. setBankBalance (getBankBalance t + mo_price q * ucast (mo_amount q)) t) m)
                    | MARKETACTION_SELL \<Rightarrow>
                        map_option snd (give_offer e guid (tr_account t) (me_items e (mo_item q)) (mo_tier q) (mo_amount q) m));
                  Some (Market_Done, upd_trader guid (updateUIExhausted e) (snd (moveOfferToHistory e (mo_id q) OFFERSTATE_CANCELLED m1)))
                }))"

definition finish_accept :: "market_env \<Rightarrow> u32 \<Rightarrow> market_offer \<Rightarrow> u16 \<Rightarrow> market \<Rightarrow> market" where
  "finish_accept e guid q amount m =
     (let m1 = appendHistory guid (if mo_type q = MARKETACTION_BUY then MARKETACTION_SELL else MARKETACTION_BUY)
                 (mo_item q) amount (mo_price q) (me_now e) (mo_tier q) OFFERSTATE_ACCEPTEDEX m;
          m2 = appendHistory (mo_player q) (mo_type q) (mo_item q) amount (mo_price q) (me_now e) (mo_tier q) OFFERSTATE_ACCEPTED m1;
          m3 = (if mo_amount q - amount = 0 then deleteOffer (mo_id q) m2 else acceptOffer (mo_id q) amount m2)
      in upd_trader guid (updateUIExhausted e) m3)"

text \<open>Every character has an account object of its own, also when two of them belong to the same
  account, so the comparison of the accounts' pointers says the same as that of the characters.\<close>

definition accept_buy_offer ::
    "market_env \<Rightarrow> trader \<Rightarrow> item_type \<Rightarrow> market_offer \<Rightarrow> u16 \<Rightarrow> market \<Rightarrow> (market_reply \<times> market) option" where
  "accept_buy_offer e t it q amount m =
     (case getPlayerByGUID (mo_player q) True m of
        None \<Rightarrow> Some (Market_Refused, m)
      | Some buyer \<Rightarrow>
          if tr_guid buyer = tr_guid t then Some (Market_Refused, m)
          else let (ok, m1) = take_offered e t it amount (mo_tier q) m
            in if \<not> ok then Some (Market_Error, m1)
               else let totalPrice = mo_price q * ucast amount;
                        m2 = upd_trader (tr_guid t) (\<lambda>t. setBankBalance (getBankBalance t + totalPrice) t) m1
                 in do {
                   (given, m3) \<leftarrow> give_offer e (tr_guid buyer) (tr_account buyer) it (mo_tier q) amount m2;
                   Some (if given then (Market_Done, finish_accept e (tr_guid t) q amount m3) else (Market_Error, m3))
                 })"

definition accept_sell_offer ::
    "market_env \<Rightarrow> trader \<Rightarrow> item_type \<Rightarrow> market_offer \<Rightarrow> u16 \<Rightarrow> market \<Rightarrow> (market_reply \<times> market) option" where
  "accept_sell_offer e t it q amount m =
     (case getPlayerByGUID (mo_player q) True m of
        None \<Rightarrow> Some (Market_Refused, m)
      | Some seller \<Rightarrow>
          let totalPrice = mo_price q * ucast amount in
          if tr_guid seller = tr_guid t then Some (Market_Refused, m)
          else if totalPrice > getBankBalance t + getMoney (tr_wallet t) then Some (Market_Refused, m)
          else let m1 = upd_trader (tr_guid t) (\<lambda>t.
                      if totalPrice \<le> getBankBalance t then setBankBalance (getBankBalance t - totalPrice) t
                      else trader_pay e (totalPrice - getBankBalance t) False (setBankBalance 0 t)) m
            in do {
              (given, m2) \<leftarrow> give_offer e (tr_guid t) (tr_account t) it (mo_tier q) amount m1;
              let m3 = upd_trader (tr_guid seller) (\<lambda>s. setBankBalance (getBankBalance s + totalPrice) s) m2;
              Some (if given then (Market_Done, finish_accept e (tr_guid t) q amount m3) else (Market_Error, m3))
            })"

definition playerAcceptMarketOffer ::
    "market_env \<Rightarrow> u32 \<Rightarrow> u32 \<Rightarrow> u16 \<Rightarrow> u16 \<Rightarrow> market \<Rightarrow> (market_reply \<times> market) option" where
  "playerAcceptMarketOffer e guid timestamp counter amount m =
     (case getPlayerByGUID guid False m of
        None \<Rightarrow> Some (Market_Refused, m)
      | Some t \<Rightarrow>
          if \<not> tr_inMarket t \<or> isUIExhausted e 1000 t then Some (Market_Refused, m)
          else (case getOfferByCounter e timestamp counter m of
              None \<Rightarrow> Some (Market_Refused, m)
            | Some q \<Rightarrow>
                let it = me_items e (mo_item q) in
                if it_id it = 0 then Some (Market_Refused, m)
                else if amount = 0 \<or> (\<not> it_stackable it \<and> amount > 2000) \<or> (it_stackable it \<and> amount > 64000) \<or> amount > mo_amount q
                then Some (Market_Refused, m)
                else if mo_type q = MARKETACTION_BUY then accept_buy_offer e t it q amount m
                else accept_sell_offer e t it q amount m))"

text \<open>The protocol drops a request whose counter is zero before it reaches the game.\<close>

definition parseMarketCancelOffer ::
    "market_env \<Rightarrow> u32 \<Rightarrow> u32 \<Rightarrow> u16 \<Rightarrow> market \<Rightarrow> (market_reply \<times> market) option" where
  "parseMarketCancelOffer e guid timestamp counter m =
     (if counter > 0 then playerCancelMarketOffer e guid timestamp counter m else Some (Market_Refused, m))"

definition parseMarketAcceptOffer ::
    "market_env \<Rightarrow> u32 \<Rightarrow> u32 \<Rightarrow> u16 \<Rightarrow> u16 \<Rightarrow> market \<Rightarrow> (market_reply \<times> market) option" where
  "parseMarketAcceptOffer e guid timestamp counter amount m =
     (if amount > 0 \<and> counter > 0 then playerAcceptMarketOffer e guid timestamp counter amount m else Some (Market_Refused, m))"

subsection \<open>Expired offers\<close>

definition expire_offer :: "market_env \<Rightarrow> market_offer \<Rightarrow> market \<Rightarrow> market option" where
  "expire_offer e q m = (case moveOfferToHistory e (mo_id q) OFFERSTATE_EXPIRED m of
       (False, m1) \<Rightarrow> Some m1
     | (True, m1) \<Rightarrow>
         (case mo_type q of
            MARKETACTION_SELL \<Rightarrow>
              let it = me_items e (mo_item q) in
              if it_id it = 0 then Some m1
              else (case getPlayerByGUID (mo_player q) True m1 of
                  None \<Rightarrow> Some m1
                | Some t \<Rightarrow> map_option snd (give_items e (tr_guid t) it (mo_tier (read_row e q)) 100 (mo_amount q) m1))
          | MARKETACTION_BUY \<Rightarrow>
              let totalPrice = mo_price q * ucast (mo_amount q)
              in Some (upd_trader (mo_player q) (\<lambda>t. setBankBalance (getBankBalance t + totalPrice) t) m1)))"

fun processExpiredOffers :: "market_env \<Rightarrow> market_offer list \<Rightarrow> market \<Rightarrow> market option" where
  "processExpiredOffers e [] m = Some m"
| "processExpiredOffers e (q # qs) m = do {m1 \<leftarrow> expire_offer e q m; processExpiredOffers e qs m1}"

definition checkExpiredOffers :: "market_env \<Rightarrow> market \<Rightarrow> market option" where
  "checkExpiredOffers e m =
     processExpiredOffers e (filter (\<lambda>q. mo_created q \<le> me_now e - me_duration e) (mk_offers m)) m"

definition playerLeaveMarket :: "u32 \<Rightarrow> market \<Rightarrow> market" where
  "playerLeaveMarket guid m = (case getPlayerByGUID guid False m of
       None \<Rightarrow> m | Some t \<Rightarrow> upd_trader guid (\<lambda>t. t\<lparr>tr_inMarket := False\<rparr>) m)"

end
