(* ===== verification/Market_Items.thy ===== *)
theory Market_Items
  imports Market
begin

text \<open>
  The items of the market: what leaves the stash and the locker when items are sold, and what reaches
  the inbox when they are bought. Where \<open>internalAddItem\<close> puts a stack is an argument with a law.
\<close>

subsection \<open>Items of a locker\<close>

definition locker_total :: "u16 \<Rightarrow> u8 \<Rightarrow> locker_item list \<Rightarrow> nat" where
  "locker_total i ti l = sum_list (map (\<lambda>x. unat (lk_count x)) (filter (\<lambda>x. lk_item x = i \<and> lk_tier x = ti) l))"

definition lockerrefs_ok :: "locker_item list \<Rightarrow> bool" where
  "lockerrefs_ok l \<longleftrightarrow> distinct (map lk_ref l)"

lemma locker_total_simps [simp]: "locker_total i ti [] = 0"
  "locker_total i ti (x # l) = (if lk_item x = i \<and> lk_tier x = ti then unat (lk_count x) else 0) + locker_total i ti l"
  "locker_total i ti (k @ l) = locker_total i ti k + locker_total i ti l"
  by (simp_all add: locker_total_def)

lemma locker_remove_simps [simp]: "locker_remove r n [] = []"
  "locker_remove r n (x # l) = (if lk_ref x \<noteq> r then [x] else if lk_count x \<le> n then [] else [x\<lparr>lk_count := lk_count x - n\<rparr>]) @ locker_remove r n l"
  by (simp_all add: locker_remove_def)

lemma locker_remove_other: "r \<notin> lk_ref ` set l \<Longrightarrow> locker_remove r n l = l"
  by (induction l) auto

lemma locker_remove_refs: "lk_ref ` set (locker_remove r n l) \<subseteq> lk_ref ` set l"
  by (induction l) auto

lemma locker_remove_ok: "lockerrefs_ok l \<Longrightarrow> lockerrefs_ok (locker_remove r n l)"
proof (induction l)
  case (Cons x l)
  then show ?case using locker_remove_refs [of r n l] by (auto simp: lockerrefs_ok_def)
qed (simp add: lockerrefs_ok_def)

lemma locker_remove_keeps: "x \<in> set l \<Longrightarrow> lk_ref x \<noteq> r \<Longrightarrow> x \<in> set (locker_remove r n l)"
  by (induction l) auto

lemma locker_remove_total:
  assumes "lockerrefs_ok l" and "x \<in> set l" and "n \<le> lk_count x"
  shows "locker_total i ti (locker_remove (lk_ref x) n l) + (if lk_item x = i \<and> lk_tier x = ti then unat n else 0) = locker_total i ti l"
  using assms
proof (induction l)
  case (Cons y l)
  show ?case
  proof (cases "y = x")
    case True
    then have "lk_ref x \<notin> lk_ref ` set l" using Cons.prems(1) by (auto simp: lockerrefs_ok_def)
    then have rest: "locker_remove (lk_ref x) n l = l" by (rule locker_remove_other)
    have "unat (lk_count x - n) + unat n = unat (lk_count x)" using Cons.prems(3) by (simp add: unat_sub word_le_nat_alt)
    moreover have "lk_count x \<le> n \<Longrightarrow> n = lk_count x" using Cons.prems(3) by simp
    ultimately show ?thesis using True rest by auto
  next
    case False
    then have "x \<in> set l" "lk_ref y \<noteq> lk_ref x" using Cons.prems(1,2) by (auto simp: lockerrefs_ok_def image_iff)
    then show ?thesis using Cons by (simp add: lockerrefs_ok_def)
  qed
qed simp

subsection \<open>Taking items out of the depot\<close>

definition same_kind :: "u16 \<Rightarrow> u8 \<Rightarrow> locker_item list \<Rightarrow> locker_item list \<Rightarrow> bool" where
  "same_kind i ti items l \<longleftrightarrow> distinct (map lk_ref items) \<and> (\<forall>x\<in>set items. x \<in> set l \<and> lk_item x = i \<and> lk_tier x = ti)"

lemma same_kind_step:
  assumes "same_kind i ti (x # items) l"
  shows "same_kind i ti items (locker_remove (lk_ref x) n l)"
  unfolding same_kind_def
proof (intro conjI ballI)
  show "distinct (map lk_ref items)" using assms by (simp add: same_kind_def)
  fix y assume y: "y \<in> set items"
  then have "lk_ref y \<in> lk_ref ` set items" by blast
  then have "lk_ref y \<noteq> lk_ref x" using assms by (auto simp: same_kind_def)
  then show "y \<in> set (locker_remove (lk_ref x) n l)" using assms y by (intro locker_remove_keeps) (simp_all add: same_kind_def)
  show "lk_item y = i" "lk_tier y = ti" using assms y by (simp_all add: same_kind_def)
qed

text \<open>The loop over stacks takes what the next stack has, or what is still missing.\<close>

lemma locker_loop_stacks:
  assumes "lockerrefs_ok l" and "same_kind i ti items l"
    and "locker_loop True amount items n missing l = (True, left, l')"
  shows "lockerrefs_ok l' \<and> left \<le> missing \<and> locker_total i ti l' + unat missing = locker_total i ti l + unat left \<and>
    (\<forall>j u. (j, u) \<noteq> (i, ti) \<longrightarrow> locker_total j u l' = locker_total j u l) \<and>
    (0 < left \<longrightarrow> unat missing = unat left + sum_list (map (\<lambda>x. unat (lk_count x)) items))"
  using assms
proof (induction items arbitrary: l missing)
  case Nil
  then show ?case by auto
next
  case (Cons x items)
  define k where "k = min missing (ucast (lk_count x))"
  define l1 where "l1 = locker_remove (lk_ref x) (ucast k) l"
  have x: "x \<in> set l" "lk_item x = i" "lk_tier x = ti" using Cons.prems(2) by (auto simp: same_kind_def)
  have c: "unat (ucast (lk_count x) :: u16) = unat (lk_count x)" "unat (lk_count x) < 256"
    using unsigned_less [of "lk_count x", where ?'a = nat] by (simp_all add: unat_ucast_up)
  have k: "unat k = min (unat missing) (unat (lk_count x))" using c(1) by (simp add: k_def min_def word_le_nat_alt)
  have k8: "unat (ucast k :: u8) = unat k" using k c(2) by (intro unat_ucast_less) simp
  then have le: "(ucast k :: u8) \<le> lk_count x" using k by (simp add: word_le_nat_alt)
  have left: "unat (missing - k) = unat missing - unat k" "k \<le> missing" using k by (simp_all add: unat_sub word_le_nat_alt)
  note total = locker_remove_total [OF Cons.prems(1) x(1) le, folded l1_def, unfolded x(2,3) k8]
  have other: "locker_total j u l1 = locker_total j u l" if "(j, u) \<noteq> (i, ti)" for j u
    using total [of j u] that by auto
  have same: "locker_total i ti l1 + unat k = locker_total i ti l" using total [of i ti] by simp
  have removable: "lk_removable x" using Cons.prems(3) by (auto simp: Let_def split: if_splits)
  show ?case
  proof (cases "missing - k = 0")
    case True
    then have "left = 0" "l' = l1" using Cons.prems(3) removable by (simp_all add: Let_def k_def l1_def)
    moreover have "unat missing = unat k" using True by simp
    ultimately show ?thesis using same other locker_remove_ok [OF Cons.prems(1)] by (simp add: l1_def)
  next
    case False
    then have "unat missing \<noteq> unat k" by (simp flip: word_unat_eq_iff)
    then have "unat k = unat (lk_count x)" using k by (simp add: min_def split: if_splits)
    moreover have "locker_loop True amount items n (missing - k) l1 = (True, left, l')"
      using Cons.prems(3) removable False by (simp add: Let_def k_def l1_def)
    note IH = Cons.IH [OF _ _ this]
    have "lockerrefs_ok l1" "same_kind i ti items l1"
      unfolding l1_def using locker_remove_ok [OF Cons.prems(1)] same_kind_step [OF Cons.prems(2)] by simp_all
    note IH = IH [OF this]
    have "unat k \<le> unat missing" using k by simp
    ultimately show ?thesis using IH left same other by (auto simp: word_le_nat_alt)
  qed
qed

text \<open>The loop over single items counts them against the amount of the offer.\<close>

lemma locker_loop_singles:
  assumes "lockerrefs_ok l" and "same_kind i ti items l" and "\<forall>x\<in>set items. lk_count x = 1"
    and "locker_loop False amount items n missing l = (True, left, l')" and "unat n + unat missing = unat amount"
  shows "lockerrefs_ok l' \<and> left \<le> missing \<and> locker_total i ti l' + unat missing = locker_total i ti l + unat left \<and>
    (\<forall>j u. (j, u) \<noteq> (i, ti) \<longrightarrow> locker_total j u l' = locker_total j u l)"
  using assms
proof (induction items arbitrary: l missing n)
  case Nil
  then show ?case by auto
next
  case (Cons x items)
  have x: "x \<in> set l" "lk_item x = i" "lk_tier x = ti" "lk_count x = 1" using Cons.prems(2,3) by (auto simp: same_kind_def)
  have a16: "unat amount < 2 ^ 16" using unsigned_less [of amount, where ?'a = nat] by simp
  then have n1: "unat (n + 1) = unat n + 1" using Cons.prems(5) by (simp add: unat_word_ariths)
  have amt: "unat (ucast amount :: u32) = unat amount" by (simp add: unat_ucast_up)
  show ?case
  proof (cases "missing = 0")
    case True
    then have "n + 1 > ucast amount" using n1 amt Cons.prems(5) by (simp add: word_less_nat_alt)
    then have "left = missing" "l' = l" using Cons.prems(4) x(4) by simp_all
    then show ?thesis using Cons.prems(1) by simp
  next
    case False
    then have pos: "0 < unat missing" by (simp add: unat_gt_0)
    then have more: "\<not> n + 1 > ucast amount" using n1 amt Cons.prems(5) by (simp add: word_less_nat_alt)
    define l1 where "l1 = locker_remove (lk_ref x) (lk_count x) l"
    have "locker_loop False amount items (n + 1) (missing - 1) l1 = (True, left, l')"
      using Cons.prems(4) more x(4) by (simp add: l1_def split: if_splits)
    note IH = Cons.IH [OF _ _ _ this]
    have m1: "unat (missing - 1) = unat missing - 1" using pos by (subst unat_sub) (simp_all add: word_le_nat_alt)
    note total = locker_remove_total [OF Cons.prems(1) x(1) order_refl, folded l1_def, unfolded x(2,3,4)]
    have other: "locker_total j u l1 = locker_total j u l" if "(j, u) \<noteq> (i, ti)" for j u
      using total [of j u] that by auto
    have same: "locker_total i ti l1 + 1 = locker_total i ti l" using total [of i ti] by simp
    have "lockerrefs_ok l1" "same_kind i ti items l1"
      unfolding l1_def using locker_remove_ok [OF Cons.prems(1)] same_kind_step [OF Cons.prems(2)] by simp_all
    note IH = IH [OF this]
    have "unat (n + 1) + unat (missing - 1) = unat amount" using n1 m1 pos Cons.prems(5) by simp
    then show ?thesis using IH Cons.prems(3) m1 pos same other by (auto simp: word_le_nat_alt)
  qed
qed

lemma sum_of_kind: "sum_list (map (\<lambda>x. unat (lk_count x)) (filter (\<lambda>x. lk_item x = i \<and> lk_tier x = ti) l)) = locker_total i ti l"
  by (simp add: locker_total_def)

lemma same_kind_filter: "lockerrefs_ok l \<Longrightarrow> same_kind i ti (filter (\<lambda>x. lk_item x = i \<and> lk_tier x = ti) l) l"
  by (auto simp: same_kind_def lockerrefs_ok_def distinct_map_filter)

text \<open>What the stash contributes before the depot is searched.\<close>

definition stash_part :: "u16 \<Rightarrow> u16 \<Rightarrow> trader \<Rightarrow> bool \<times> u16 \<times> trader" where
  "stash_part ware amount t =
     (let stash = getStashItemCount ware t
      in if stash > 0 then
           (case (if ucast amount > stash then withdrawItem ware stash t else (False, t)) of
              (True, t1) \<Rightarrow> (True, amount - ucast stash, t1)
            | (False, _) \<Rightarrow> (case withdrawItem ware (ucast amount) t of
                (True, t1) \<Rightarrow> (True, 0, t1)
              | (False, _) \<Rightarrow> (False, amount, t)))
         else (True, amount, t))"

lemma removeOfferItems_eq:
  "removeOfferItems it amount tier t = (case stash_part (it_wareId it) amount t of (ok, missing, t1) \<Rightarrow>
     if \<not> ok then (False, t1)
     else let items = filter (\<lambda>i. lk_item i = it_id it \<and> lk_tier i = tier) (tr_locker t) in
       if missing > 0 \<and> items = [] then (False, t1)
       else if missing > 0 then
         (case locker_loop (it_stackable it) amount items 0 missing (tr_locker t) of
            (ok, left, l1) \<Rightarrow> (ok \<and> left = 0, t1\<lparr>tr_locker := l1\<rparr>))
       else (True, t1))"
  unfolding removeOfferItems_def stash_part_def Let_def by (rule refl)

lemma stash_part_result:
  assumes "stash_part ware amount t = (ok, missing, t1)"
  shows "ok \<and> t1 = t\<lparr>tr_stash := tr_stash t1\<rparr> \<and>
    unat (getStashItemCount ware t1) + unat amount = unat (getStashItemCount ware t) + unat missing \<and>
    (getStashItemCount ware t = 0 \<longrightarrow> missing = amount) \<and> (getStashItemCount ware t1 = 0 \<or> missing = 0) \<and> (\<forall>w. w \<noteq> ware \<longrightarrow> tr_stash t1 w = tr_stash t w)"
proof (cases "tr_stash t ware")
  case None
  then show ?thesis using assms by (auto simp: stash_part_def getStashItemCount_def)
next
  case (Some n)
  have amt: "unat (ucast amount :: u32) = unat amount" by (simp add: unat_ucast_up)
  consider "n = 0" | "0 < n" "n < ucast amount" | "0 < n" "ucast amount < n" | "0 < n" "n = ucast amount"
    using word_gt_0 [of n] less_linear by blast
  then show ?thesis
  proof cases
    case 2
    then have le: "unat n < unat amount" using amt by (simp add: word_less_nat_alt)
    moreover have "unat amount < 2 ^ 16" using unsigned_less [of amount, where ?'a = nat] by simp
    ultimately have "unat (ucast n :: u16) = unat n" by (intro unat_ucast_less) simp
    then have "unat (amount - ucast n) = unat amount - unat n" using le by (subst unat_sub) (simp_all add: word_le_nat_alt)
    then show ?thesis using assms Some 2 le
      by (auto simp: stash_part_def getStashItemCount_def withdrawItem_def)
  next
    case 3
    then have "unat (n - ucast amount) + unat amount = unat n" using amt by (simp add: unat_sub word_le_nat_alt word_less_nat_alt)
    moreover have "\<not> n < ucast amount" using 3(2) by simp
    ultimately show ?thesis using assms Some 3
      by (auto simp: stash_part_def getStashItemCount_def withdrawItem_def)
  next
    case 4
    then show ?thesis using assms Some amt
      by (auto simp: stash_part_def getStashItemCount_def withdrawItem_def)
  qed (use assms Some in \<open>auto simp: stash_part_def getStashItemCount_def\<close>)
qed

text \<open>What a locker holds of items that do not stack is one of each.\<close>

definition kinds_ok :: "item_type \<Rightarrow> u8 \<Rightarrow> trader \<Rightarrow> bool" where
  "kinds_ok it tier t \<longleftrightarrow> lockerrefs_ok (tr_locker t) \<and>
     (\<not> it_stackable it \<longrightarrow> getStashItemCount (it_wareId it) t = 0 \<and>
       (\<forall>x\<in>set (tr_locker t). lk_item x = it_id it \<and> lk_tier x = tier \<longrightarrow> lk_count x = 1))"

definition offered :: "item_type \<Rightarrow> u8 \<Rightarrow> trader \<Rightarrow> nat" where
  "offered it tier t = locker_total (it_id it) tier (tr_locker t) + unat (getStashItemCount (it_wareId it) t)"

lemma locker_loop_exact:
  assumes "kinds_ok it tier t" and "locker_loop (it_stackable it) amount
      (filter (\<lambda>i. lk_item i = it_id it \<and> lk_tier i = tier) (tr_locker t)) 0 missing (tr_locker t) = (True, left, l')"
    and "getStashItemCount (it_wareId it) t = 0 \<longrightarrow> missing = amount"
  shows "lockerrefs_ok l' \<and> locker_total (it_id it) tier l' + unat missing = locker_total (it_id it) tier (tr_locker t) + unat left \<and>
    (\<forall>j u. (j, u) \<noteq> (it_id it, tier) \<longrightarrow> locker_total j u l' = locker_total j u (tr_locker t))"
proof (cases "it_stackable it")
  case True
  have ok: "lockerrefs_ok (tr_locker t)" using assms(1) by (simp add: kinds_ok_def)
  have "it_stackable it = True" using True by simp
  note loop = assms(2) [unfolded this]
  show ?thesis using locker_loop_stacks [OF ok same_kind_filter [OF ok] loop] by blast
next
  case False
  have ok: "lockerrefs_ok (tr_locker t)" "missing = amount"
      "\<forall>x\<in>set (filter (\<lambda>i. lk_item i = it_id it \<and> lk_tier i = tier) (tr_locker t)). lk_count x = 1"
    using assms(1,3) False by (auto simp: kinds_ok_def)
  have "it_stackable it = False" using False by simp
  note loop = assms(2) [unfolded this]
  have "unat (0 :: u32) + unat missing = unat amount" using ok(2) by simp
  then show ?thesis using locker_loop_singles [OF ok(1) same_kind_filter [OF ok(1)] ok(3) loop] by blast
qed

text \<open>C21: when items are taken for an offer, exactly the amount is gone from the stash and the locker
  together, nothing of any other kind is touched, and the rest of the character stays as it was.\<close>

theorem removeOfferItems_exact:
  assumes "kinds_ok it tier t" and "removeOfferItems it amount tier t = (True, t1)"
  shows "offered it tier t1 + unat amount = offered it tier t \<and>
    (\<forall>j u. (j, u) \<noteq> (it_id it, tier) \<longrightarrow> locker_total j u (tr_locker t1) = locker_total j u (tr_locker t)) \<and>
    (\<forall>w. w \<noteq> it_wareId it \<longrightarrow> tr_stash t1 w = tr_stash t w) \<and>
    t1 = t\<lparr>tr_stash := tr_stash t1, tr_locker := tr_locker t1\<rparr>"
proof -
  obtain ok missing t0 where part: "stash_part (it_wareId it) amount t = (ok, missing, t0)" by (metis surj_pair)
  define s where "s = tr_stash t0"
  have stash: "ok" "t0 = t\<lparr>tr_stash := s\<rparr>" "getStashItemCount (it_wareId it) t = 0 \<longrightarrow> missing = amount"
      "unat (getStashItemCount (it_wareId it) t0) + unat amount = unat (getStashItemCount (it_wareId it) t) + unat missing"
      "\<forall>w. w \<noteq> it_wareId it \<longrightarrow> s w = tr_stash t w"
    using stash_part_result [OF part] unfolding s_def by blast+
  have count: "getStashItemCount i (t\<lparr>tr_stash := s, tr_locker := l\<rparr>) = getStashItemCount i t0" for i l
    by (simp add: getStashItemCount_def stash(2))
  show ?thesis
  proof (cases "missing > 0")
    case False
    then have none: "missing = 0" using word_gt_0 by blast
    then have "t1 = t\<lparr>tr_stash := s\<rparr>" using assms(2) stash(1,2) part by (simp add: removeOfferItems_eq)
    then show ?thesis using stash(2,4,5) none by (simp add: offered_def)
  next
    case True
    define items where "items = filter (\<lambda>i. lk_item i = it_id it \<and> lk_tier i = tier) (tr_locker t)"
    obtain b left l1 where loop: "locker_loop (it_stackable it) amount items 0 missing (tr_locker t) = (b, left, l1)" by (metis surj_pair)
    have "(if items = [] then (False, t0) else (b \<and> left = 0, t0\<lparr>tr_locker := l1\<rparr>)) = (True, t1)"
      using assms(2) stash(1) part True loop
      by (cases "items = []") (simp_all add: removeOfferItems_eq Let_def flip: items_def)
    then have res: "b" "left = 0" "t1 = t\<lparr>tr_stash := s, tr_locker := l1\<rparr>"
      by (simp_all add: stash(2) split: if_splits)
    have exact: "locker_total (it_id it) tier l1 + unat missing = locker_total (it_id it) tier (tr_locker t)"
        "\<forall>j u. (j, u) \<noteq> (it_id it, tier) \<longrightarrow> locker_total j u l1 = locker_total j u (tr_locker t)"
      using locker_loop_exact [OF assms(1), of amount missing left l1] loop res(1,2) stash(3) by (simp_all add: items_def)
    have "offered it tier t1 + unat amount = offered it tier t"
      unfolding res(3) offered_def count using exact(1) stash(4) by simp
    then show ?thesis using exact(2) stash(5) unfolding res(3) by simp
  qed
qed

lemma locker_loop_removable:
  "\<forall>x\<in>set items. lk_removable x \<Longrightarrow> fst (locker_loop True amount items n missing l)"
proof (induction items arbitrary: missing l)
  case (Cons x items)
  then show ?case by (simp add: Let_def)
qed simp

text \<open>The depot is emptied before the code knows whether it holds enough.\<close>

lemma short_removal:
  assumes "lockerrefs_ok (tr_locker t)" and "it_stackable it" and "offered it tier t < unat amount"
    and "\<forall>x\<in>set (tr_locker t). lk_item x = it_id it \<and> lk_tier x = tier \<longrightarrow> lk_removable x"
  shows "\<exists>t1. removeOfferItems it amount tier t = (False, t1) \<and> offered it tier t1 = 0"
proof -
  obtain ok missing t0 where part: "stash_part (it_wareId it) amount t = (ok, missing, t0)" by (metis surj_pair)
  define s where "s = tr_stash t0"
  have stash: "ok" "t0 = t\<lparr>tr_stash := s\<rparr>" "getStashItemCount (it_wareId it) t0 = 0 \<or> missing = 0"
      "unat (getStashItemCount (it_wareId it) t0) + unat amount = unat (getStashItemCount (it_wareId it) t) + unat missing"
    using stash_part_result [OF part] unfolding s_def by blast+
  have missing: "locker_total (it_id it) tier (tr_locker t) < unat missing"
    using stash(4) assms(3) by (simp add: offered_def)
  then have pos: "missing > 0" by (simp add: word_less_nat_alt)
  then have empty: "getStashItemCount (it_wareId it) t0 = 0" using stash(3) by auto
  define items where "items = filter (\<lambda>i. lk_item i = it_id it \<and> lk_tier i = tier) (tr_locker t)"
  show ?thesis
  proof (cases "items = []")
    case True
    then have "locker_total (it_id it) tier (tr_locker t) = 0" by (simp add: locker_total_def items_def)
    then have "offered it tier t0 = 0" using empty by (simp add: offered_def stash(2))
    moreover have "removeOfferItems it amount tier t = (False, t0)"
      using True stash(1) part pos by (simp add: removeOfferItems_eq flip: items_def)
    ultimately show ?thesis by blast
  next
    case False
    obtain b left l1 where loop: "locker_loop True amount items 0 missing (tr_locker t) = (b, left, l1)" by (metis surj_pair)
    have "fst (locker_loop True amount items 0 missing (tr_locker t))"
      using assms(4) by (intro locker_loop_removable) (simp add: items_def)
    then have b: "b" using loop by simp
    have st: "it_stackable it = True" using assms(2) by simp
    note loop1 = loop [unfolded items_def, unfolded b [THEN eqTrueI]]
    note res = locker_loop_stacks [OF assms(1) same_kind_filter [OF assms(1)] loop1]
    have more: "unat left > 0" using res missing by linarith
    then have "unat missing = unat left + locker_total (it_id it) tier (tr_locker t)"
      using res by (simp add: sum_of_kind word_less_nat_alt)
    then have none: "locker_total (it_id it) tier l1 = 0" using res by simp
    have "removeOfferItems it amount tier t = (False, t0\<lparr>tr_locker := l1\<rparr>)"
      using False stash(1) part pos loop more st b by (auto simp: removeOfferItems_eq Let_def simp flip: items_def)
    moreover have "offered it tier (t0\<lparr>tr_locker := l1\<rparr>) = 0" using none empty by (simp add: offered_def getStashItemCount_def)
    ultimately show ?thesis by blast
  qed
qed

subsection \<open>Delivery to the inbox\<close>

text \<open>What the placement in an inbox without limit promises: the stack is there, nothing else changes.\<close>

definition inbox_law :: "(u16 \<Rightarrow> u8 \<Rightarrow> u8 \<Rightarrow> locker_item list \<Rightarrow> locker_item list option) \<Rightarrow> bool" where
  "inbox_law add \<longleftrightarrow> (\<forall>i ti n l. lockerrefs_ok l \<longrightarrow> (\<exists>l'. add i ti n l = Some l' \<and> lockerrefs_ok l' \<and>
     (\<forall>j u. locker_total j u l' = locker_total j u l + (if j = i \<and> u = ti then unat n else 0))))"

abbreviation put_locker :: "u32 \<Rightarrow> locker_item list \<Rightarrow> market \<Rightarrow> market" where
  "put_locker g l m \<equiv> upd_trader g (\<lambda>t. t\<lparr>tr_locker := l\<rparr>) m"

lemma find_put:
  "List.find (\<lambda>t. tr_guid t = g \<and> P t) (map (\<lambda>t. if tr_guid t = g then t\<lparr>tr_locker := l\<rparr> else t) ts) =
    map_option (\<lambda>t. t\<lparr>tr_locker := l\<rparr>) (List.find (\<lambda>t. tr_guid t = g \<and> P t) ts)"
  if "\<And>t. P (t\<lparr>tr_locker := l\<rparr>) = P t" for ts :: "trader list"
  using that by (induction ts) auto

lemma get_put: "getPlayerByGUID g b (put_locker g l m) = map_option (\<lambda>t. t\<lparr>tr_locker := l\<rparr>) (getPlayerByGUID g b m)"
  using find_put [of "\<lambda>t. tr_online t \<or> b" l g "mk_traders m"] by (simp add: getPlayerByGUID_def upd_trader_def)

lemma put_put [simp]: "put_locker g l (put_locker g k m) = put_locker g l m"
  by (simp add: upd_trader_def)

text \<open>\<open>holds g n i ti t m r\<close>: the result \<open>r\<close> of a delivery put \<open>n\<close> items of the kind into the locker of \<open>g\<close>.\<close>

definition delivered :: "u32 \<Rightarrow> nat \<Rightarrow> u16 \<Rightarrow> u8 \<Rightarrow> locker_item list \<Rightarrow> market \<Rightarrow> bool \<times> market \<Rightarrow> bool" where
  "delivered g n i ti l m r \<longleftrightarrow> (\<exists>l'. (r = (True, put_locker g l' m) \<or> l' = l \<and> r = (True, m)) \<and> lockerrefs_ok l' \<and>
     (\<forall>j u. locker_total j u l' = locker_total j u l + (if j = i \<and> u = ti then n else 0)))"

lemma delivered_none: "lockerrefs_ok l \<Longrightarrow> delivered g 0 i ti l m (True, m)"
  by (auto simp: delivered_def)

lemma delivered_more:
  assumes "lockerrefs_ok k" and "\<forall>j u. locker_total j u k = locker_total j u l + (if j = i \<and> u = ti then a else 0)"
    and "delivered g b i ti k (put_locker g k m) r"
  shows "delivered g (a + b) i ti l m r"
proof -
  obtain l' where l': "r = (True, put_locker g l' (put_locker g k m)) \<or> l' = k \<and> r = (True, put_locker g k m)" "lockerrefs_ok l'"
      "\<forall>j u. locker_total j u l' = locker_total j u k + (if j = i \<and> u = ti then b else 0)"
    using assms(3) unfolding delivered_def by blast
  have "r = (True, put_locker g l' m)" using l'(1) by auto
  then show ?thesis unfolding delivered_def using l'(2,3) assms(2) by (intro exI [of _ l']) simp
qed

lemma inbox_step:
  assumes "inbox_law (me_inboxAdd e)" and "getPlayerByGUID g True m = Some t" and "lockerrefs_ok (tr_locker t)"
  obtains k where "inbox_add e g i ti n m = (True, put_locker g k m)" and "lockerrefs_ok k"
    and "\<forall>j u. locker_total j u k = locker_total j u (tr_locker t) + (if j = i \<and> u = ti then unat n else 0)"
    and "getPlayerByGUID g True (put_locker g k m) = Some (t\<lparr>tr_locker := k\<rparr>)"
proof -
  obtain k where k: "me_inboxAdd e i ti n (tr_locker t) = Some k" "lockerrefs_ok k"
      "\<forall>j u. locker_total j u k = locker_total j u (tr_locker t) + (if j = i \<and> u = ti then unat n else 0)"
    using assms(1,3) unfolding inbox_law_def by blast
  show thesis
    by (rule that [OF _ k(2,3)]) (simp_all add: inbox_add_def assms(2) k(1) get_put)
qed

lemma give_stackable_all:
  assumes "inbox_law (me_inboxAdd e)" and "0 < k" and "unat k < 256"
    and "getPlayerByGUID g True m = Some t" and "lockerrefs_ok (tr_locker t)"
  shows "\<exists>r. give_stackable e g i ti k n m = Some r \<and> delivered g (unat n) i ti (tr_locker t) m r"
  using assms(4,5)
proof (induction "unat n" arbitrary: n m t rule: less_induct)
  case less
  show ?case
  proof (cases "n = 0")
    case True
    then show ?thesis using delivered_none [OF less.prems(2)] by (subst give_stackable.simps) simp
  next
    case False
    define c where "c = min k n"
    have pos: "0 < unat k" "0 < unat n" using assms(2) False by (simp_all add: word_less_nat_alt unat_gt_0)
    have c: "unat c = min (unat k) (unat n)" by (simp add: c_def min_def word_le_nat_alt)
    then have cpos: "0 < unat c" "c \<noteq> 0" using pos by auto
    have c8: "unat (ucast c :: u8) = unat c" using c assms(3) by (intro unat_ucast_less) simp
    have left: "unat (n - c) = unat n - unat c" using c by (simp add: unat_sub word_le_nat_alt)
    obtain l where l: "inbox_add e g i ti (ucast c) m = (True, put_locker g l m)" "lockerrefs_ok l"
        "\<forall>j u. locker_total j u l = locker_total j u (tr_locker t) + (if j = i \<and> u = ti then unat c else 0)"
        "getPlayerByGUID g True (put_locker g l m) = Some (t\<lparr>tr_locker := l\<rparr>)"
      using inbox_step [OF assms(1) less.prems, of i ti "ucast c"] unfolding c8 .
    have "unat (n - c) < unat n" "lockerrefs_ok (tr_locker (t\<lparr>tr_locker := l\<rparr>))" using left cpos pos l(2) by simp_all
    note less.hyps [OF this(1) l(4) this(2)]
    then have "\<exists>r. give_stackable e g i ti k (n - c) (put_locker g l m) = Some r \<and>
        delivered g (unat (n - c)) i ti l (put_locker g l m) r" by simp
    then obtain r where r: "give_stackable e g i ti k (n - c) (put_locker g l m) = Some r"
        "delivered g (unat (n - c)) i ti l (put_locker g l m) r" by blast
    have "give_stackable e g i ti k n m = Some r"
      using False r(1) l(1) cpos(2) word_gt_0 [of n] by (subst give_stackable.simps) (simp add: Let_def flip: c_def)
    moreover have "delivered g (unat c + unat (n - c)) i ti (tr_locker t) m r"
      using delivered_more [OF l(2,3) r(2)] .
    moreover have "unat c + unat (n - c) = unat n" using left c by simp
    ultimately show ?thesis by auto
  qed
qed

lemma give_single_all:
  assumes "inbox_law (me_inboxAdd e)" and "getPlayerByGUID g True m = Some t" and "lockerrefs_ok (tr_locker t)"
  shows "delivered g n i ti (tr_locker t) m (give_single e g i ti n m)"
  using assms(2,3)
proof (induction n arbitrary: m t)
  case 0
  then show ?case using delivered_none by simp
next
  case (Suc n)
  obtain l where l: "inbox_add e g i ti 1 m = (True, put_locker g l m)" "lockerrefs_ok l"
      "\<forall>j u. locker_total j u l = locker_total j u (tr_locker t) + (if j = i \<and> u = ti then unat (1 :: u8) else 0)"
      "getPlayerByGUID g True (put_locker g l m) = Some (t\<lparr>tr_locker := l\<rparr>)"
    using inbox_step [OF assms(1) Suc.prems, of i ti 1] .
  have "delivered g n i ti l (put_locker g l m) (give_single e g i ti n (put_locker g l m))"
    using Suc.IH [OF l(4)] l(2) by simp
  then have "delivered g (unat (1 :: u8) + n) i ti (tr_locker t) m (give_single e g i ti n (put_locker g l m))"
    using delivered_more [OF l(2,3)] by simp
  then show ?case using l(1) by simp
qed

text \<open>With a stack size of zero the loop never ends.\<close>

lemma give_stackable_endless_raw:
  assumes "give_stackable e g i ti k n m = Some r"
  shows "k = 0 \<and> inbox_law (me_inboxAdd e) \<and> 0 < n \<longrightarrow>
      (\<forall>t. getPlayerByGUID g True m = Some t \<longrightarrow> \<not> lockerrefs_ok (tr_locker t))"
proof (rule give_stackable.raw_induct [OF _ assms], intro impI allI)
  fix loop e g i ti n m r t and k :: u16
  assume IH: "\<And>e g i ti k n m r. loop e g i ti k n m = Some r \<Longrightarrow> k = 0 \<and> inbox_law (me_inboxAdd e) \<and> 0 < n \<longrightarrow>
      (\<forall>t. getPlayerByGUID g True m = Some t \<longrightarrow> \<not> lockerrefs_ok (tr_locker t))"
    and eq: "(if 0 < n then let stackCount = min k n;
        (ok, m1) = inbox_add e g i ti (if stackCount = 0 then 1 else ucast stackCount) m
      in if ok then loop e g i ti k (n - stackCount) m1 else Some (False, m1) else Some (True, m)) = Some r"
    and zero: "k = 0 \<and> inbox_law (me_inboxAdd e) \<and> 0 < n" and t: "getPlayerByGUID g True m = Some t"
  show "\<not> lockerrefs_ok (tr_locker t)"
  proof
    assume ok: "lockerrefs_ok (tr_locker t)"
    obtain l where l: "inbox_add e g i ti 1 m = (True, put_locker g l m)" "lockerrefs_ok l"
        "getPlayerByGUID g True (put_locker g l m) = Some (t\<lparr>tr_locker := l\<rparr>)"
      using inbox_step [OF _ t ok, of e i ti 1] zero by metis
    have "min k n = 0" using zero by (simp add: min_def)
    then have "loop e g i ti k n (put_locker g l m) = Some r" using eq zero l(1) by (simp add: Let_def)
    then show False using IH zero l(2,3) by fastforce
  qed
qed

lemma give_stackable_endless:
  assumes "inbox_law (me_inboxAdd e)" and "getPlayerByGUID g True m = Some t" and "lockerrefs_ok (tr_locker t)" and "0 < n"
  shows "give_stackable e g i ti 0 n m = None"
proof (cases "give_stackable e g i ti 0 n m")
  case (Some r)
  then show ?thesis using give_stackable_endless_raw [OF Some] assms by blast
qed

text \<open>C22: the items of an offer all reach the inbox, and the delivery ends, exactly when the size of a
  stack is not zero; a stackable item with a stack size of zero would be created for ever.\<close>

theorem bought_items_delivered:
  assumes "inbox_law (me_inboxAdd e)" and "getPlayerByGUID g True m = Some t" and "lockerrefs_ok (tr_locker t)"
  shows "if it_stackable it \<and> it_stackSize it = 0 \<and> 0 < n
    then give_items e g it tier (ucast (it_stackSize it)) n m = None
    else \<exists>r. give_items e g it tier (ucast (it_stackSize it)) n m = Some r \<and> delivered g (unat n) (it_id it) tier (tr_locker t) m r"
proof -
  consider (endless) "it_stackable it" "it_stackSize it = 0" "0 < n" | (none) "it_stackable it" "n = 0"
    | (stacks) "it_stackable it" "it_stackSize it \<noteq> 0" | (single) "\<not> it_stackable it"
    using word_gt_0 [of n] by blast
  then show ?thesis
  proof cases
    case endless
    then show ?thesis using give_stackable_endless [OF assms endless(3)] by (simp add: give_items_def)
  next
    case none
    then have "give_items e g it tier (ucast (it_stackSize it)) n m = Some (True, m)"
      unfolding give_items_def by (subst give_stackable.simps) simp
    then show ?thesis using none delivered_none [OF assms(3)] by simp
  next
    case stacks
    have "unat (ucast (it_stackSize it) :: u16) = unat (it_stackSize it)" "unat (it_stackSize it) < 256"
      using unsigned_less [of "it_stackSize it", where ?'a = nat] by (simp_all add: unat_ucast_up)
    moreover have "0 < unat (it_stackSize it)" using stacks(2) by (simp add: unat_gt_0)
    ultimately have "0 < (ucast (it_stackSize it) :: u16)" "unat (ucast (it_stackSize it) :: u16) < 256"
      by (simp_all add: word_less_nat_alt)
    then show ?thesis using give_stackable_all [OF assms(1) _ _ assms(2,3), of "ucast (it_stackSize it)" "it_id it" tier n] stacks
      by (simp add: give_items_def)
  next
    case single
    then show ?thesis using give_single_all [OF assms] by (simp add: give_items_def)
  qed
qed

text \<open>C23: a sell offer over more items than the stash and the depot hold is refused only after all of
  them have been taken: they are gone, and no offer was entered.\<close>

theorem short_offer_loses_items:
  assumes "getPlayerByGUID guid False m = Some t" and "checkCanInitCreateMarketOffer e t 1 (me_items e itemId) amount price m"
    and "\<not> market_fee price amount > getBankBalance t + getMoney (tr_wallet t)"
    and "it_id (me_items e itemId) \<noteq> ITEM_STORE_COIN" and "it_stackable (me_items e itemId)"
    and "lockerrefs_ok (tr_locker t)" and "offered (me_items e itemId) tier t < unat amount"
    and "\<forall>x\<in>set (tr_locker t). lk_item x = it_id (me_items e itemId) \<and> lk_tier x = tier \<longrightarrow> lk_removable x"
  shows "\<exists>t1. playerCreateMarketOffer e guid 1 itemId amount price tier anonymous m = (Market_Error, upd_trader guid (\<lambda>_. t1) m) \<and>
    offered (me_items e itemId) tier t1 = 0"
proof -
  obtain t1 where t1: "removeOfferItems (me_items e itemId) amount tier t = (False, t1)" "offered (me_items e itemId) tier t1 = 0"
    using short_removal [OF assms(6,5,7,8)] by blast
  have "tr_guid t = guid" using assms(1) by (auto simp: getPlayerByGUID_def find_Some_iff split: if_splits)
  then have "playerCreateMarketOffer e guid 1 itemId amount price tier anonymous m = (Market_Error, upd_trader guid (\<lambda>_. t1) m)"
    using assms(1-4) t1(1) by (simp add: playerCreateMarketOffer_def Let_def take_offered_def)
  then show ?thesis using t1(2) by blast
qed

subsection \<open>The name of an offer\<close>

text \<open>What the client is told of an offer, and sends back to name it.\<close>

definition offer_timestamp :: "market_env \<Rightarrow> market_offer \<Rightarrow> u32" where
  "offer_timestamp e q = of_int (mo_created q) + of_int (me_duration e)"

definition offer_counter :: "market_offer \<Rightarrow> u16" where
  "offer_counter q = ucast (mo_id q AND 65535)"

lemma counter_back: "ucast (offer_counter q) = mo_id q AND (65535 :: u32)"
proof -
  have m: "(65535 :: u32) = mask 16" by (simp add: mask_eq_exp_minus_1)
  show ?thesis unfolding offer_counter_def m
    by (intro bit_word_eqI) (auto simp: bit_simps)
qed

text \<open>The name of an offer leads back to it, unless an offer of the same second has the same low 16
  bits; but the protocol drops a request with the counter 0, so that every 65536th offer can neither
  be cancelled by its owner nor accepted.\<close>

lemma offer_named_by_counter:
  assumes "q \<in> set (mk_offers m)" and "0 \<le> mo_created q" and "mo_created q < 2 ^ 31"
    and "\<forall>p\<in>set (mk_offers m). mo_created p = mo_created q \<and> mo_id p AND 65535 = mo_id q AND 65535 \<longrightarrow> p = q"
  shows "getOfferByCounter e (offer_timestamp e q) (offer_counter q) m = Some (read_row e q) \<and>
    (mo_id q AND 65535 = 0 \<longrightarrow>
      parseMarketCancelOffer e guid (offer_timestamp e q) (offer_counter q) m = Some (Market_Refused, m) \<and>
      parseMarketAcceptOffer e guid (offer_timestamp e q) (offer_counter q) amount m = Some (Market_Refused, m))"
proof -
  have "sint (of_int (mo_created q) :: u32) = mo_created q"
    using assms(2,3) by (simp add: signed_of_int signed_take_bit_int_eq_self)
  then have "sint (offer_timestamp e q - of_int (me_duration e)) = mo_created q" by (simp add: offer_timestamp_def)
  then have test: "getOfferByCounter e (offer_timestamp e q) (offer_counter q) m =
      map_option (read_row e) (List.find (\<lambda>p. mo_created p = mo_created q \<and> mo_id p AND 65535 = mo_id q AND 65535) (mk_offers m))"
    by (simp only: getOfferByCounter_def counter_back)
  obtain p where p: "List.find (\<lambda>p. mo_created p = mo_created q \<and> mo_id p AND 65535 = mo_id q AND 65535) (mk_offers m) = Some p"
    using assms(1) by (cases "List.find (\<lambda>p. mo_created p = mo_created q \<and> mo_id p AND 65535 = mo_id q AND 65535) (mk_offers m)")
      (auto simp: find_None_iff)
  then have "p \<in> set (mk_offers m)" "mo_created p = mo_created q" "mo_id p AND 65535 = mo_id q AND 65535"
    by (auto simp: find_Some_iff)
  then have "p = q" using assms(4) by blast
  then have "getOfferByCounter e (offer_timestamp e q) (offer_counter q) m = Some (read_row e q)" using test p by simp
  moreover have "mo_id q AND 65535 = 0 \<Longrightarrow> offer_counter q = 0" by (simp add: offer_counter_def)
  ultimately show ?thesis by (auto simp: parseMarketCancelOffer_def parseMarketAcceptOffer_def)
qed

subsection \<open>A sample market\<close>

definition append_locker :: "u16 \<Rightarrow> u8 \<Rightarrow> u8 \<Rightarrow> locker_item list \<Rightarrow> locker_item list option" where
  "append_locker i ti n l =
     Some (\<lparr>lk_ref = Suc (sum_list (map lk_ref l)), lk_item = i, lk_tier = ti, lk_count = n, lk_removable = True\<rparr> # l)"

lemma append_locker_law: "inbox_law append_locker"
  unfolding inbox_law_def
proof (intro allI impI)
  fix i :: u16 and ti n :: u8 and l
  assume ok: "lockerrefs_ok l"
  have "r \<noteq> Suc (sum_list (map lk_ref l))" if "r \<in> set (map lk_ref l)" for r
    using member_le_sum_list [OF that] by simp
  then have "Suc (sum_list (map lk_ref l)) \<notin> set (map lk_ref l)" by blast
  then show "\<exists>l'. append_locker i ti n l = Some l' \<and> lockerrefs_ok l' \<and>
      (\<forall>j u. locker_total j u l' = locker_total j u l + (if j = i \<and> u = ti then unat n else 0))"
    using ok by (auto simp: append_locker_def lockerrefs_ok_def)
qed

definition sample_env :: market_env where
  "sample_env = \<lparr>me_items = (\<lambda>i. \<lparr>it_id = i, it_wareId = i, it_stackable = True, it_stackSize = 100\<rparr>), me_now = 1700000000,
     me_millis = 5000, me_duration = 2592000, me_marketPremium = False, me_maxOffers = 100, me_maxTier = 10,
     me_inboxAdd = append_locker, me_addItem = append_stack\<rparr>"

definition sample_trader :: "u32 \<Rightarrow> trader" where
  "sample_trader g = \<lparr>tr_guid = g, tr_account = g, tr_online = True, tr_inMarket = True, tr_lastUIInteraction = 0,
     tr_premium = True, tr_wallet = sample_wallet, tr_stash = [3354 \<mapsto> 7],
     tr_locker = [\<lparr>lk_ref = 1, lk_item = 3354, lk_tier = 0, lk_count = 40, lk_removable = True\<rparr>,
       \<lparr>lk_ref = 2, lk_item = 3354, lk_tier = 0, lk_count = 5, lk_removable = True\<rparr>]\<rparr>"

definition sample_offer :: market_offer where
  "sample_offer = \<lparr>mo_id = 65536, mo_player = 9, mo_type = MARKETACTION_SELL, mo_item = 3354, mo_amount = 3,
     mo_created = 1700000000, mo_anonymous = False, mo_price = 50, mo_tier = 0\<rparr>"

definition sample_market :: market where
  "sample_market = \<lparr>mk_traders = [sample_trader 7, sample_trader 9], mk_coins = (\<lambda>_. 0), mk_offers = [sample_offer],
     mk_history = [], mk_nextId = 65537\<rparr>"

lemma sample_lookup: "getPlayerByGUID 7 b sample_market = Some (sample_trader 7)"
  by (simp add: getPlayerByGUID_def sample_market_def sample_trader_def)

lemma sample_locker: "lockerrefs_ok (tr_locker (sample_trader 7))" "kinds_ok (me_items sample_env 3354) 0 (sample_trader 7)"
    "offered (me_items sample_env 3354) 0 (sample_trader 7) = 52"
  by (simp_all add: lockerrefs_ok_def kinds_ok_def offered_def sample_trader_def sample_env_def getStashItemCount_def)

lemma sample_money: "getBankBalance (sample_trader 7) + getMoney (tr_wallet (sample_trader 7)) = 10370"
proof -
  have "getMoney sample_wallet = 10350" by code_simp
  then show ?thesis by (simp add: getBankBalance_def sample_trader_def sample_wallet_def)
qed

lemma removeOfferItems_exact_witness:
  "\<exists>t1. removeOfferItems (me_items sample_env 3354) 20 0 (sample_trader 7) = (True, t1) \<and>
    offered (me_items sample_env 3354) 0 t1 = 32"
proof -
  obtain b t1 where r: "removeOfferItems (me_items sample_env 3354) 20 0 (sample_trader 7) = (b, t1)" by fastforce
  moreover have "fst (removeOfferItems (me_items sample_env 3354) 20 0 (sample_trader 7))" by code_simp
  ultimately have r1: "removeOfferItems (me_items sample_env 3354) 20 0 (sample_trader 7) = (True, t1)" by simp
  have "offered (me_items sample_env 3354) 0 t1 + 20 = 52"
    using removeOfferItems_exact [OF sample_locker(2) r1] by (simp add: sample_locker(3))
  then show ?thesis using r1 by auto
qed

lemma bought_items_delivered_witness:
  "\<exists>r. give_items sample_env 7 (me_items sample_env 3354) 0 100 250 sample_market = Some r \<and>
    delivered 7 250 3354 0 (tr_locker (sample_trader 7)) sample_market r"
  using bought_items_delivered [of sample_env 7 sample_market "sample_trader 7" "me_items sample_env 3354" 250 0,
      OF _ sample_lookup sample_locker(1)] append_locker_law
  by (simp add: sample_env_def)

lemma short_offer_loses_items_witness:
  "\<exists>t1. playerCreateMarketOffer sample_env 7 1 3354 100 30 0 False sample_market = (Market_Error, upd_trader 7 (\<lambda>_. t1) sample_market) \<and>
    offered (me_items sample_env 3354) 0 t1 = 0"
proof (rule short_offer_loses_items [OF sample_lookup _ _ _ _ sample_locker(1)])
  show "checkCanInitCreateMarketOffer sample_env (sample_trader 7) 1 (me_items sample_env 3354) 100 30 sample_market" by code_simp
  show "\<not> market_fee 30 100 > getBankBalance (sample_trader 7) + getMoney (tr_wallet (sample_trader 7))"
    unfolding sample_money by (simp add: market_fee_def)
  show "it_id (me_items sample_env 3354) \<noteq> ITEM_STORE_COIN" by (simp add: sample_env_def ITEM_STORE_COIN_def)
  show "it_stackable (me_items sample_env 3354)" by (simp add: sample_env_def)
  show "offered (me_items sample_env 3354) 0 (sample_trader 7) < unat (100 :: u16)" by (simp add: sample_locker(3))
  show "\<forall>x\<in>set (tr_locker (sample_trader 7)). lk_item x = it_id (me_items sample_env 3354) \<and> lk_tier x = 0 \<longrightarrow> lk_removable x"
    by (simp add: sample_trader_def)
qed

lemma offer_named_by_counter_witness:
  "parseMarketCancelOffer sample_env 9 1702592000 0 sample_market = Some (Market_Refused, sample_market) \<and>
    getOfferByCounter sample_env 1702592000 0 sample_market = Some (read_row sample_env sample_offer)"
proof -
  have q: "sample_offer \<in> set (mk_offers sample_market)" "0 \<le> mo_created sample_offer" "mo_created sample_offer < 2 ^ 31"
      "\<forall>p\<in>set (mk_offers sample_market). mo_created p = mo_created sample_offer \<and>
        mo_id p AND 65535 = mo_id sample_offer AND 65535 \<longrightarrow> p = sample_offer"
    by (simp_all add: sample_market_def sample_offer_def)
  have n: "offer_timestamp sample_env sample_offer = 1702592000" "offer_counter sample_offer = 0" "mo_id sample_offer AND 65535 = 0"
    by (simp_all add: offer_timestamp_def offer_counter_def sample_env_def sample_offer_def)
  show ?thesis using offer_named_by_counter [OF q, of sample_env 9 1] unfolding n by simp
qed

end
