(* ===== verification/Market_Gold.thy ===== *)
theory Market_Gold
  imports Market_Items
begin

text \<open>
  The gold of the market: what characters own and what the buy offers hold. No operation that runs
  to its end creates or destroys gold except for the fee of a new offer.
\<close>

subsection \<open>Gold of a market\<close>

definition trader_worth :: "trader \<Rightarrow> nat" where
  "trader_worth t = purse_worth (tr_wallet t) + unat (wl_balance (tr_wallet t))"

definition offer_gold :: "market_offer \<Rightarrow> nat" where
  "offer_gold q = (if mo_type q = MARKETACTION_BUY then unat (mo_price q) * unat (mo_amount q) else 0)"

definition market_gold :: "market \<Rightarrow> nat" where
  "market_gold m = sum_list (map trader_worth (mk_traders m)) + sum_list (map offer_gold (mk_offers m))"

definition market_wf :: "market \<Rightarrow> bool" where
  "market_wf m \<longleftrightarrow> distinct (map tr_guid (mk_traders m)) \<and> (\<forall>t\<in>set (mk_traders m). refs_ok (tr_wallet t)) \<and>
     distinct (map mo_id (mk_offers m)) \<and>
     (\<forall>q\<in>set (mk_offers m). mo_id q < mk_nextId m \<and> mo_price q \<le> 999999999999 \<and> mo_player q \<noteq> 0 \<and>
        mo_player q \<in> tr_guid ` set (mk_traders m))"

definition same_money :: "market \<Rightarrow> market \<Rightarrow> bool" where
  "same_money m m' \<longleftrightarrow> map (\<lambda>t. (tr_guid t, tr_wallet t)) (mk_traders m') = map (\<lambda>t. (tr_guid t, tr_wallet t)) (mk_traders m) \<and>
     mk_offers m' = mk_offers m \<and> mk_nextId m' = mk_nextId m"

lemma same_money_refl [simp]: "same_money m m"
  by (simp add: same_money_def)

lemma same_money_trans: "same_money a b \<Longrightarrow> same_money b c \<Longrightarrow> same_money a c"
  by (simp add: same_money_def)

lemma same_views:
  "map (\<lambda>t. (tr_guid t, tr_wallet t)) xs = map (\<lambda>t. (tr_guid t, tr_wallet t)) (ys :: trader list) \<Longrightarrow>
    map trader_worth xs = map trader_worth ys \<and> map tr_guid xs = map tr_guid ys \<and>
    (\<forall>t\<in>set xs. refs_ok (tr_wallet t)) = (\<forall>t\<in>set ys. refs_ok (tr_wallet t))"
proof (induction xs arbitrary: ys)
  case (Cons x xs)
  obtain y zs where ys: "ys = y # zs" using Cons.prems by (cases ys) simp_all
  have "map (\<lambda>t. (tr_guid t, tr_wallet t)) xs = map (\<lambda>t. (tr_guid t, tr_wallet t)) zs"
    and "tr_guid x = tr_guid y" "tr_wallet x = tr_wallet y" using Cons.prems by (simp_all add: ys)
  then show ?case using Cons.IH [of zs] by (simp add: ys trader_worth_def)
qed simp

lemma same_money_gold: "same_money m m' \<Longrightarrow> market_gold m' = market_gold m"
  using same_views [of "mk_traders m'" "mk_traders m"] by (simp add: same_money_def market_gold_def)

lemma same_money_wf:
  assumes "same_money m m'" and "market_wf m"
  shows "market_wf m'"
proof -
  have same: "map (\<lambda>t. (tr_guid t, tr_wallet t)) (mk_traders m') = map (\<lambda>t. (tr_guid t, tr_wallet t)) (mk_traders m)"
      "mk_offers m' = mk_offers m" "mk_nextId m' = mk_nextId m"
    using assms(1) unfolding same_money_def by blast+
  note v = same_views [OF same(1)]
  have "set (map tr_guid (mk_traders m')) = set (map tr_guid (mk_traders m))" using v by argo
  then have guids: "tr_guid ` set (mk_traders m') = tr_guid ` set (mk_traders m)" unfolding set_map .
  have "distinct (map tr_guid (mk_traders m'))" "\<forall>t\<in>set (mk_traders m'). refs_ok (tr_wallet t)"
    using v assms(2) unfolding market_wf_def by argo+
  then show ?thesis using assms(2) unfolding market_wf_def same(2,3) guids by blast
qed

subsection \<open>Looking up and changing characters\<close>

lemma getPlayerByGUID_Some:
  "getPlayerByGUID guid b m = Some t \<Longrightarrow> t \<in> set (mk_traders m) \<and> tr_guid t = guid \<and> guid \<noteq> 0"
  by (auto simp: getPlayerByGUID_def find_Some_iff split: if_splits)

lemma upd_trader_simps [simp]:
  "mk_offers (upd_trader g f m) = mk_offers m" "mk_nextId (upd_trader g f m) = mk_nextId m"
  "mk_coins (upd_trader g f m) = mk_coins m" "mk_history (upd_trader g f m) = mk_history m"
  "mk_traders (upd_trader g f m) = map (\<lambda>t. if tr_guid t = g then f t else t) (mk_traders m)"
  by (simp_all add: upd_trader_def)

lemma trader_unique:
  "distinct (map tr_guid ts) \<Longrightarrow> t \<in> set ts \<Longrightarrow> x \<in> set ts \<Longrightarrow> tr_guid x = tr_guid t \<Longrightarrow> x = t"
  by (metis distinct_map inj_onD)

lemma same_money_upd:
  assumes "\<And>x. x \<in> set (mk_traders m) \<Longrightarrow> tr_guid x = g \<Longrightarrow> tr_guid (f x) = tr_guid x \<and> tr_wallet (f x) = tr_wallet x"
  shows "same_money m (upd_trader g f m)"
  using assms by (auto simp: same_money_def)

lemma same_money_set:
  assumes "market_wf m" and "t \<in> set (mk_traders m)" and "tr_guid t1 = tr_guid t" and "tr_wallet t1 = tr_wallet t"
  shows "same_money m (upd_trader (tr_guid t) (\<lambda>_. t1) m)"
proof (rule same_money_upd)
  fix x assume "x \<in> set (mk_traders m)" "tr_guid x = tr_guid t"
  then have "x = t" using assms(1,2) trader_unique unfolding market_wf_def by blast
  then show "tr_guid t1 = tr_guid x \<and> tr_wallet t1 = tr_wallet x" using assms(3,4) by simp
qed

lemma sum_upd:
  assumes "distinct (map tr_guid ts)" and "t \<in> set ts"
  shows "sum_list (map h (map (\<lambda>x. if tr_guid x = tr_guid t then f x else x) ts)) + h t = sum_list (map h ts) + (h (f t) :: nat)"
  using assms
proof (induction ts)
  case (Cons x ts)
  show ?case
  proof (cases "x = t")
    case True
    then have "\<forall>y\<in>set ts. tr_guid y \<noteq> tr_guid t" using Cons.prems(1) by (auto simp: image_iff)
    then have "map (\<lambda>x. if tr_guid x = tr_guid t then f x else x) ts = ts" by (intro map_idI) auto
    then show ?thesis using True by simp
  next
    case False
    then have "t \<in> set ts" "tr_guid x \<noteq> tr_guid t" using Cons.prems by (auto simp: image_iff)
    then show ?thesis using Cons by simp
  qed
qed simp

lemma upd_gold:
  assumes "market_wf m" and "t \<in> set (mk_traders m)"
  shows "market_gold (upd_trader (tr_guid t) f m) + trader_worth t = market_gold m + trader_worth (f t)"
  using sum_upd [of "mk_traders m" t trader_worth f] assms by (simp add: market_gold_def market_wf_def)

lemma upd_wf:
  assumes "market_wf m" and "t \<in> set (mk_traders m)" and "tr_guid (f t) = tr_guid t" and "refs_ok (tr_wallet (f t))"
  shows "market_wf (upd_trader (tr_guid t) f m)"
proof -
  let ?f = "\<lambda>x. if tr_guid x = tr_guid t then f x else x"
  have f: "tr_guid (?f x) = tr_guid x \<and> refs_ok (tr_wallet (?f x))" if "x \<in> set (mk_traders m)" for x
  proof (cases "tr_guid x = tr_guid t")
    case True
    then have "x = t" using assms(1,2) that trader_unique unfolding market_wf_def by blast
    then show ?thesis using assms(3,4) by simp
  qed (use assms(1) that in \<open>simp add: market_wf_def\<close>)
  define ts where "ts = map ?f (mk_traders m)"
  have ts: "mk_traders (upd_trader (tr_guid t) f m) = ts" by (simp add: ts_def)
  have guids: "map tr_guid ts = map tr_guid (mk_traders m)" using f unfolding ts_def map_map by (intro map_cong) auto
  have "set (map tr_guid ts) = set (map tr_guid (mk_traders m))" by (rule arg_cong [OF guids])
  then have set: "tr_guid ` set ts = tr_guid ` set (mk_traders m)" unfolding set_map .
  have "\<forall>x\<in>set ts. refs_ok (tr_wallet x)" using f unfolding ts_def set_map by blast
  moreover have "distinct (map tr_guid ts)" unfolding guids using assms(1) unfolding market_wf_def by blast
  ultimately show ?thesis using assms(1) unfolding market_wf_def ts set upd_trader_simps(1,2) by blast
qed

lemma trader_le: "t \<in> set (mk_traders m) \<Longrightarrow> trader_worth t \<le> market_gold m"
  using member_le_sum_list [of "trader_worth t" "map trader_worth (mk_traders m)"] by (simp add: market_gold_def)

lemma trader_offer_le:
  assumes "t \<in> set (mk_traders m)" and "q \<in> set (mk_offers m)"
  shows "trader_worth t + offer_gold q \<le> market_gold m"
  using member_le_sum_list [of "trader_worth t" "map trader_worth (mk_traders m)"]
    member_le_sum_list [of "offer_gold q" "map offer_gold (mk_offers m)"] assms by (simp add: market_gold_def add_mono)

subsection \<open>Operations on items leave the money alone\<close>

lemma withdrawItem_same: "withdrawItem i n t = (b, t1) \<Longrightarrow> tr_guid t1 = tr_guid t \<and> tr_wallet t1 = tr_wallet t"
  by (auto simp: withdrawItem_def split: option.splits if_splits)

lemma removeOfferItems_same:
  assumes "removeOfferItems it n tier t = (b, t1)"
  shows "tr_guid t1 = tr_guid t \<and> tr_wallet t1 = tr_wallet t"
  using assms withdrawItem_same
  by (auto simp: removeOfferItems_def Let_def split: if_splits prod.splits bool.splits)

lemma take_offered_same:
  assumes "market_wf m" and "t \<in> set (mk_traders m)" and "take_offered e t it n tier m = (b, m1)"
  shows "same_money m m1"
proof (cases "it_id it = ITEM_STORE_COIN")
  case True
  then show ?thesis using assms(3)
    by (auto simp: take_offered_def removeTransferableCoins_def same_money_def split: if_splits)
next
  case False
  obtain ok t1 where r: "removeOfferItems it n tier t = (ok, t1)" by fastforce
  then have "m1 = upd_trader (tr_guid t) (\<lambda>_. t1) m" using assms(3) False by (simp add: take_offered_def)
  then show ?thesis using same_money_set [OF assms(1,2)] removeOfferItems_same [OF r] by simp
qed

lemma inbox_add_same: "inbox_add e g i tier n m = (b, m1) \<Longrightarrow> same_money m m1"
  by (auto simp: inbox_add_def split: option.splits intro!: same_money_upd)

lemma give_stackable_same:
  assumes "give_stackable e g i tier k n m = Some r"
  shows "same_money m (snd r)"
proof (rule give_stackable.raw_induct [OF _ assms])
  fix loop e g i tier k n m r
  assume IH: "\<And>e g i tier k n m r. loop e g i tier k n m = Some r \<Longrightarrow> same_money m (snd r)"
    and eq: "(if 0 < n then let stackCount = min k n;
        (ok, m1) = inbox_add e g i tier (if stackCount = 0 then 1 else ucast stackCount) m
      in if ok then loop e g i tier k (n - stackCount) m1 else Some (False, m1) else Some (True, m)) = Some r"
  obtain ok m1 where add: "inbox_add e g i tier (if min k n = 0 then 1 else ucast (min k n)) m = (ok, m1)" by fastforce
  show "same_money m (snd r)"
  proof (cases "0 < n \<and> ok")
    case True
    then have "loop e g i tier k (n - min k n) m1 = Some r" using eq add by (simp add: Let_def)
    then show ?thesis using IH inbox_add_same [OF add] same_money_trans by blast
  next
    case False
    then have "snd r = m \<or> snd r = m1" using eq add by (auto simp: Let_def split: if_splits)
    then show ?thesis using inbox_add_same [OF add] by auto
  qed
qed

lemma give_single_same: "same_money m (snd (give_single e g i tier n m))"
proof (induction n arbitrary: m)
  case (Suc n)
  obtain ok m1 where add: "inbox_add e g i tier 1 m = (ok, m1)" by fastforce
  show ?case using inbox_add_same [OF add] Suc [of m1] same_money_trans by (cases ok) (auto simp: add)
qed simp

lemma give_items_same: "give_items e g it tier k n m = Some r \<Longrightarrow> same_money m (snd r)"
  using give_stackable_same give_single_same by (auto simp: give_items_def split: if_splits)

lemma give_offer_same:
  assumes "give_offer e g acc it tier n m = Some r"
  shows "same_money m (snd r)"
proof (cases "it_id it = ITEM_STORE_COIN")
  case True
  then have "r = (True, addTransferableCoins acc n m)" using assms by (simp add: give_offer_def)
  then show ?thesis by (simp add: addTransferableCoins_def same_money_def)
qed (use assms give_items_same in \<open>auto simp: give_offer_def\<close>)

lemma exhausted_same: "same_money m (upd_trader g (updateUIExhausted e) m)"
  by (intro same_money_upd) (simp add: updateUIExhausted_def)

lemma history_same: "same_money m (appendHistory p ty i n price time tier st m)"
  by (simp add: appendHistory_def same_money_def)

subsection \<open>Payments\<close>

lemma refs_ok_remove: "refs_ok w \<Longrightarrow> refs_ok (remove_item r n w)"
  using reduce_distinct by (simp add: refs_ok_def)

lemma refs_ok_add_crystals: "add_law addItem \<Longrightarrow> refs_ok w \<Longrightarrow> refs_ok (add_crystals addItem n w)"
  using add_crystals_added by (simp add: added_def)

lemma refs_ok_add_stack: "add_law addItem \<Longrightarrow> refs_ok w \<Longrightarrow> refs_ok (add_stack addItem i n w)"
  using add_stack_added by (simp add: added_def)

lemma refs_ok_addMoney: "add_law addItem \<Longrightarrow> refs_ok w \<Longrightarrow> refs_ok (addMoney addItem money w)"
  by (simp add: addMoney_def Let_def refs_ok_add_crystals refs_ok_add_stack split: prod.split)

lemma refs_ok_pay_coins: "add_law addItem \<Longrightarrow> refs_ok w \<Longrightarrow> refs_ok (snd (pay_coins addItem l money w))"
proof (induction l arbitrary: money w)
  case (Cons e l)
  obtain p r i c where e: "e = (p, r, i, c)" by (metis surj_pair)
  show ?case using Cons.IH [OF Cons.prems(1) refs_ok_remove [OF Cons.prems(2)]] Cons.prems
    by (simp add: e Let_def refs_ok_remove refs_ok_addMoney)
qed simp

lemma refs_ok_removeMoney:
  assumes "add_law addItem" and "refs_ok w"
  shows "refs_ok (snd (removeMoney addItem money useBalance w))"
proof -
  obtain rest w1 where pay: "pay_coins addItem (money_map (wl_slots w)) money w = (rest, w1)" by fastforce
  have "refs_ok w1" using refs_ok_pay_coins [OF assms, of "money_map (wl_slots w)" money] pay by simp
  then have "refs_ok (w1\<lparr>wl_balance := b\<rparr>)" for b by (simp add: refs_ok_def carried_def)
  then show ?thesis using assms(2) \<open>refs_ok w1\<close> pay by (simp add: removeMoney_def Let_def split: option.split)
qed

lemma trader_pay_worth:
  assumes "add_law (me_addItem e)" and "refs_ok (tr_wallet t)" and "trader_worth t < 2 ^ 64"
    and "unat price \<le> coins_worth (tr_wallet t) + (if b then unat (wl_balance (tr_wallet t)) else 0)"
  shows "trader_worth (trader_pay e price b t) + unat price = trader_worth t"
    and "tr_guid (trader_pay e price b t) = tr_guid t" and "refs_ok (tr_wallet (trader_pay e price b t))"
proof -
  obtain ok w' where r: "removeMoney (me_addItem e) price b (tr_wallet t) = (ok, w')" by fastforce
  have "coins_worth (tr_wallet t) + unat (wl_balance (tr_wallet t)) < 2 ^ 64"
    using assms(3) by (simp add: trader_worth_def purse_worth_def)
  then show "trader_worth (trader_pay e price b t) + unat price = trader_worth t"
    using removeMoney_effect [OF assms(1,2) _ r] assms(4) r by (simp add: trader_pay_def trader_worth_def)
  show "tr_guid (trader_pay e price b t) = tr_guid t" by (simp add: trader_pay_def)
  show "refs_ok (tr_wallet (trader_pay e price b t))"
    using refs_ok_removeMoney [OF assms(1,2)] by (simp add: trader_pay_def)
qed

lemma purse_of_balance [simp]: "purse_worth (w\<lparr>wl_balance := b\<rparr>) = purse_worth w" "coins_worth (w\<lparr>wl_balance := b\<rparr>) = coins_worth w"
    "refs_ok (w\<lparr>wl_balance := b\<rparr>) = refs_ok w"
  by (simp_all add: purse_worth_def coins_worth_def ground_worth_def carried_def refs_ok_def)

lemma credit_worth:
  assumes "trader_worth t + unat n < 2 ^ 64"
  shows "trader_worth (setBankBalance (getBankBalance t + n) t) = trader_worth t + unat n"
    and "tr_guid (setBankBalance b t) = tr_guid t" and "refs_ok (tr_wallet (setBankBalance b t)) = refs_ok (tr_wallet t)"
proof -
  have "unat (wl_balance (tr_wallet t)) + unat n < 2 ^ 64" using assms by (simp add: trader_worth_def)
  then have "unat (wl_balance (tr_wallet t) + n) = unat (wl_balance (tr_wallet t)) + unat n" by (simp add: unat_word_ariths)
  then show "trader_worth (setBankBalance (getBankBalance t + n) t) = trader_worth t + unat n"
    by (simp add: trader_worth_def setBankBalance_def getBankBalance_def)
qed (simp_all add: setBankBalance_def)

subsection \<open>The table\<close>

lemma read_row_simps [simp]: "offer_gold (read_row e q) = offer_gold q" "mo_id (read_row e q) = mo_id q"
  "mo_player (read_row e q) = mo_player q" "mo_type (read_row e q) = mo_type q" "mo_price (read_row e q) = mo_price q"
  "mo_amount (read_row e q) = mo_amount q" "mo_item (read_row e q) = mo_item q"
  by (simp_all add: read_row_def offer_gold_def)

lemma find_member: "List.find P xs = Some x \<Longrightarrow> x \<in> set xs"
  by (auto simp: find_Some_iff)

lemma getOfferByCounter_Some:
  assumes "getOfferByCounter e ts c m = Some q"
  obtains p where "p \<in> set (mk_offers m)" and "q = read_row e p"
proof -
  define found where "found = List.find (\<lambda>q. mo_created q = sint (ts - of_int (me_duration e)) \<and> mo_id q AND 65535 = ucast c) (mk_offers m)"
  have "map_option (read_row e) found = Some q" using assms by (simp only: getOfferByCounter_def found_def)
  then obtain p where p: "found = Some p" "q = read_row e p" by (cases found) simp_all
  have "p \<in> set (mk_offers m)" using p(1) unfolding found_def by (rule find_member)
  then show thesis using p(2) by (rule that)
qed

lemma create_wf:
  assumes "market_wf m" and "price \<le> 999999999999" and "playerId \<noteq> 0" and "playerId \<in> tr_guid ` set (mk_traders m)"
    and "mk_nextId m \<noteq> - 1"
  shows "market_wf (createOffer e playerId act i n price tier anon m)"
proof -
  have nx: "mk_nextId m < mk_nextId m + 1" using assms(5) proof -
    have "1 + mk_nextId m \<noteq> 0" using assms(5) by (metis add.commute max_word_wrap)
    then show ?thesis using unatSuc [of "mk_nextId m"] by (simp add: word_less_nat_alt add.commute)
  qed
  have "mo_id q < mk_nextId m + 1 \<and> mo_id q \<noteq> mk_nextId m" if "q \<in> set (mk_offers m)" for q
    using assms(1) that nx by (auto simp: market_wf_def intro: less_trans)
  then show ?thesis using assms nx by (auto simp: market_wf_def createOffer_def)
qed

lemma create_gold:
  "market_gold (createOffer e playerId act i n price tier anon m) =
    market_gold m + (if act = MARKETACTION_BUY then unat price * unat n else 0)"
  by (simp add: market_gold_def createOffer_def offer_gold_def)

lemma sum_filter_id:
  assumes "distinct (map mo_id qs)" and "q \<in> set qs"
  shows "sum_list (map offer_gold (filter (\<lambda>p. mo_id p \<noteq> mo_id q) qs)) + offer_gold q = sum_list (map offer_gold qs)"
  using assms
proof (induction qs)
  case (Cons p qs)
  show ?case
  proof (cases "p = q")
    case True
    then have "filter (\<lambda>p. mo_id p \<noteq> mo_id q) qs = qs" using Cons.prems(1) by (intro filter_True) (auto simp: image_iff)
    then show ?thesis using True by simp
  next
    case False
    then have "q \<in> set qs" "mo_id p \<noteq> mo_id q" using Cons.prems by (auto simp: image_iff)
    then show ?thesis using Cons by simp
  qed
qed simp

lemma delete_gold:
  "market_wf m \<Longrightarrow> q \<in> set (mk_offers m) \<Longrightarrow> market_gold (deleteOffer (mo_id q) m) + offer_gold q = market_gold m"
  using sum_filter_id [of "mk_offers m" q] by (simp add: market_gold_def deleteOffer_def market_wf_def)

lemma delete_wf: "market_wf m \<Longrightarrow> market_wf (deleteOffer i m)"
  by (auto simp: market_wf_def deleteOffer_def distinct_map_filter)

lemma sum_accept_id:
  assumes "distinct (map mo_id qs)" and "q \<in> set qs"
  shows "sum_list (map offer_gold (map (\<lambda>p. if mo_id p = mo_id q then f p else p) qs)) + offer_gold q =
    sum_list (map offer_gold qs) + offer_gold (f q)"
  using assms
proof (induction qs)
  case (Cons p qs)
  show ?case
  proof (cases "p = q")
    case True
    then have "map (\<lambda>p. if mo_id p = mo_id q then f p else p) qs = qs"
      using Cons.prems(1) by (intro map_idI) (auto simp: image_iff)
    then show ?thesis using True by simp
  next
    case False
    then have "q \<in> set qs" "mo_id p \<noteq> mo_id q" using Cons.prems by (auto simp: image_iff)
    then show ?thesis using Cons by simp
  qed
qed simp

lemma accept_gold:
  assumes "market_wf m" and "q \<in> set (mk_offers m)" and "n \<le> mo_amount q"
  shows "market_gold (acceptOffer (mo_id q) n m) + (if mo_type q = MARKETACTION_BUY then unat (mo_price q) * unat n else 0) =
    market_gold m"
proof -
  have "unat (mo_amount q - n) + unat n = unat (mo_amount q)" using assms(3) by (simp add: unat_sub word_le_nat_alt)
  then have "unat (mo_price q) * unat (mo_amount q - n) + unat (mo_price q) * unat n = unat (mo_price q) * unat (mo_amount q)"
    by (simp flip: distrib_left)
  then have "offer_gold (q\<lparr>mo_amount := mo_amount q - n\<rparr>) + (if mo_type q = MARKETACTION_BUY then unat (mo_price q) * unat n else 0) =
      offer_gold q" by (simp add: offer_gold_def)
  then show ?thesis
    using sum_accept_id [of "mk_offers m" q "\<lambda>p. p\<lparr>mo_amount := mo_amount p - n\<rparr>"] assms(1,2)
    by (simp add: market_gold_def acceptOffer_def market_wf_def)
qed

lemma accept_wf:
  assumes "market_wf m"
  shows "market_wf (acceptOffer i n m)"
proof -
  let ?f = "\<lambda>q. if mo_id q = i then q\<lparr>mo_amount := mo_amount q - n\<rparr> else q"
  have "map mo_id (map ?f (mk_offers m)) = map mo_id (mk_offers m)" by simp
  then have "distinct (map mo_id (map ?f (mk_offers m)))" using assms unfolding market_wf_def by metis
  then show ?thesis using assms unfolding market_wf_def acceptOffer_def by (auto simp del: map_map)
qed

text \<open>The last steps of an accepted offer: the row loses the amount.\<close>

lemma finish_accept_gold:
  assumes "market_wf m" and "p \<in> set (mk_offers m)" and "n \<le> mo_amount p"
  shows "market_gold (finish_accept e g (read_row e p) n m) + (if mo_type p = MARKETACTION_BUY then unat (mo_price p) * unat n else 0) =
      market_gold m" and "market_wf (finish_accept e g (read_row e p) n m)"
proof -
  define m2 where "m2 = appendHistory (mo_player p) (mo_type p) (mo_item p) n (mo_price p) (me_now e) (mo_tier (read_row e p)) OFFERSTATE_ACCEPTED
    (appendHistory g (if mo_type p = MARKETACTION_BUY then MARKETACTION_SELL else MARKETACTION_BUY)
      (mo_item p) n (mo_price p) (me_now e) (mo_tier (read_row e p)) OFFERSTATE_ACCEPTEDEX m)"
  have m2: "same_money m m2" unfolding m2_def by (rule same_money_trans [OF history_same history_same])
  have "mk_offers m2 = mk_offers m" using m2 unfolding same_money_def by blast
  then have ok: "market_wf m2" "p \<in> set (mk_offers m2)" "market_gold m2 = market_gold m"
    using same_money_wf [OF m2 assms(1)] same_money_gold [OF m2] assms(2) by simp_all
  define m3 where "m3 = (if mo_amount p - n = 0 then deleteOffer (mo_id p) m2 else acceptOffer (mo_id p) n m2)"
  have eq: "finish_accept e g (read_row e p) n m = upd_trader g (updateUIExhausted e) m3"
    by (simp only: finish_accept_def Let_def m3_def m2_def read_row_simps)
  have "market_gold m3 + (if mo_type p = MARKETACTION_BUY then unat (mo_price p) * unat n else 0) = market_gold m2 \<and> market_wf m3"
  proof (cases "mo_amount p = n")
    case True
    then show ?thesis using delete_gold [OF ok(1,2)] delete_wf [OF ok(1)]
      by (simp add: m3_def offer_gold_def split: if_splits)
  next
    case False
    then show ?thesis using accept_gold [OF ok(1,2) assms(3)] accept_wf [OF ok(1)] by (simp add: m3_def)
  qed
  moreover have "same_money m3 (finish_accept e g (read_row e p) n m)" unfolding eq by (rule exhausted_same)
  ultimately show "market_gold (finish_accept e g (read_row e p) n m) + (if mo_type p = MARKETACTION_BUY then unat (mo_price p) * unat n else 0) =
      market_gold m" "market_wf (finish_accept e g (read_row e p) n m)"
    using same_money_gold same_money_wf ok(3) by simp_all
qed

subsection \<open>Handlers\<close>

definition market_ok :: "market \<Rightarrow> bool" where
  "market_ok m \<longleftrightarrow> market_wf m \<and> market_gold m < 2 ^ 64"

lemma market_okD: "market_ok m \<Longrightarrow> market_wf m" "market_ok m \<Longrightarrow> market_gold m < 2 ^ 64"
  by (simp_all add: market_ok_def)

lemma same_money_ok: "same_money m m' \<Longrightarrow> market_ok m \<Longrightarrow> market_gold m' = market_gold m \<and> market_ok m'"
  using same_money_gold same_money_wf by (simp add: market_ok_def)

text \<open>A product of price and amount fits: the amount has 16 bits and the price is at most 999999999999.\<close>

lemma price_product:
  fixes price :: u64 and n :: u16
  assumes "price \<le> 999999999999"
  shows "unat (price * ucast n) = unat price * unat n" and "unat price * unat n < 2 ^ 56"
proof -
  have "unat price \<le> 999999999999" using assms by (simp add: word_le_nat_alt)
  moreover have "unat n < 2 ^ 16" using unsigned_less [of n, where ?'a = nat] by simp
  ultimately have "unat price * unat n \<le> 999999999999 * 2 ^ 16" by (intro mult_le_mono) simp_all
  then show "unat price * unat n < 2 ^ 56" by simp
  then show "unat (price * ucast n) = unat price * unat n" by (simp add: unat_word_ariths unat_ucast_up)
qed

lemma fee_bounds: "20 \<le> market_fee price n" "market_fee price n \<le> 100000"
  by (simp_all add: market_fee_def Let_def)

lemma money_sum:
  assumes "trader_worth t < 2 ^ 64"
  shows "unat (getBankBalance t + getMoney (tr_wallet t)) = unat (wl_balance (tr_wallet t)) + coins_worth (tr_wallet t)"
proof -
  have "coins_worth (tr_wallet t) < 2 ^ 64" "unat (wl_balance (tr_wallet t)) + coins_worth (tr_wallet t) < 2 ^ 64"
    using assms by (simp_all add: trader_worth_def purse_worth_def)
  then show ?thesis by (simp add: getBankBalance_def unat_word_ariths getMoney_worth)
qed

text \<open>What is paid leaves the market.\<close>

lemma pay_market:
  assumes "add_law (me_addItem e)" and "market_ok m" and "t \<in> set (mk_traders m)"
    and "\<not> price > getBankBalance t + getMoney (tr_wallet t)"
  shows "market_gold (upd_trader (tr_guid t) (trader_pay e price True) m) + unat price = market_gold m \<and>
    market_wf (upd_trader (tr_guid t) (trader_pay e price True) m)"
proof -
  have wf: "market_wf m" and refs: "refs_ok (tr_wallet t)" using assms(2,3) by (simp_all add: market_ok_def market_wf_def)
  have small: "trader_worth t < 2 ^ 64" using trader_le [OF assms(3)] market_okD(2) [OF assms(2)] by simp
  have "unat price \<le> coins_worth (tr_wallet t) + (if True then unat (wl_balance (tr_wallet t)) else 0)"
    using assms(4) money_sum [OF small] by (simp add: word_less_nat_alt)
  note pay = trader_pay_worth [OF assms(1) refs small this]
  have "market_gold (upd_trader (tr_guid t) (trader_pay e price True) m) + trader_worth t =
      market_gold m + trader_worth (trader_pay e price True t)" by (rule upd_gold [OF wf assms(3)])
  then show ?thesis using pay upd_wf [OF wf assms(3), of "trader_pay e price True"] by simp
qed

text \<open>What is credited to a bank account joins the market.\<close>

lemma credit_market:
  assumes "market_wf m" and "t \<in> set (mk_traders m)" and "market_gold m + unat n < 2 ^ 64 \<or> trader_worth t + unat n < 2 ^ 64"
  shows "market_gold (upd_trader (tr_guid t) (\<lambda>t. setBankBalance (getBankBalance t + n) t) m) = market_gold m + unat n \<and>
    market_wf (upd_trader (tr_guid t) (\<lambda>t. setBankBalance (getBankBalance t + n) t) m)"
proof -
  have "trader_worth t + unat n < 2 ^ 64" using assms(3) trader_le [OF assms(2)] by auto
  note credit = credit_worth [OF this]
  have refs: "refs_ok (tr_wallet t)" using assms(1,2) by (simp add: market_wf_def)
  have "market_gold (upd_trader (tr_guid t) (\<lambda>t. setBankBalance (getBankBalance t + n) t) m) + trader_worth t =
      market_gold m + trader_worth (setBankBalance (getBankBalance t + n) t)" by (rule upd_gold [OF assms(1,2)])
  then show ?thesis using credit(1) upd_wf [OF assms(1,2), of "\<lambda>t. setBankBalance (getBankBalance t + n) t"] refs
    by (simp add: credit(2,3))
qed

lemma member_guid: "t \<in> set (mk_traders m) \<Longrightarrow> tr_guid t \<in> tr_guid ` set (mk_traders m)"
  by simp

lemma same_money_member:
  assumes "same_money m m1" and "t \<in> set (mk_traders m)"
  obtains t1 where "t1 \<in> set (mk_traders m1)" and "tr_guid t1 = tr_guid t" and "tr_wallet t1 = tr_wallet t"
proof -
  have same: "map (\<lambda>t. (tr_guid t, tr_wallet t)) (mk_traders m1) = map (\<lambda>t. (tr_guid t, tr_wallet t)) (mk_traders m)"
    using assms(1) unfolding same_money_def by blast
  have "(tr_guid t, tr_wallet t) \<in> set (map (\<lambda>t. (tr_guid t, tr_wallet t)) (mk_traders m))" using assms(2) by simp
  then have "(tr_guid t, tr_wallet t) \<in> set (map (\<lambda>t. (tr_guid t, tr_wallet t)) (mk_traders m1))" unfolding same .
  then show thesis using that by (auto simp del: map_map)
qed

text \<open>Paying and entering the offer, the common end of both kinds of new offers.\<close>

lemma enter_offer:
  assumes "add_law (me_addItem e)" and "market_ok m" and "t \<in> set (mk_traders m)" and "tr_guid t \<noteq> 0"
    and "\<not> paid > getBankBalance t + getMoney (tr_wallet t)" and "price \<le> 999999999999" and "mk_nextId m \<noteq> - 1"
    and "unat paid = unat fee + (if act = MARKETACTION_BUY then unat price * unat n else 0)"
  shows "market_gold (upd_trader (tr_guid t) (updateUIExhausted e) (createOffer e (tr_guid t) act i n price tier anon
        (upd_trader (tr_guid t) (trader_pay e paid True) m))) + unat fee = market_gold m \<and>
    market_ok (upd_trader (tr_guid t) (updateUIExhausted e) (createOffer e (tr_guid t) act i n price tier anon
        (upd_trader (tr_guid t) (trader_pay e paid True) m)))"
proof -
  let ?m1 = "upd_trader (tr_guid t) (trader_pay e paid True) m"
  let ?m2 = "createOffer e (tr_guid t) act i n price tier anon ?m1"
  note pay = pay_market [OF assms(1,2,3,5)]
  have "trader_pay e paid True t \<in> set (mk_traders ?m1)" using assms(3) by (auto simp: image_iff)
  then have "tr_guid t \<in> tr_guid ` set (mk_traders ?m1)" by (rule image_eqI [rotated]) (simp add: trader_pay_def)
  then have wf: "market_wf ?m2" using pay assms(4,6,7) by (intro create_wf) simp_all
  have "market_gold ?m2 + unat fee = market_gold m"
    using pay assms(8) create_gold [of e "tr_guid t" act i n price tier anon ?m1] by linarith
  moreover have "market_gold ?m2 < 2 ^ 64" using calculation market_okD(2) [OF assms(2)] by linarith
  ultimately show ?thesis
    using same_money_ok [OF exhausted_same [of ?m2 "tr_guid t" e]] wf by (simp add: market_ok_def)
qed

lemma create_effect:
  assumes "add_law (me_addItem e)" and "market_ok m" and "mk_nextId m \<noteq> - 1"
    and "playerCreateMarketOffer e guid ty i n price tier anon m = (r, m')"
  shows "market_gold m' + (if r = Market_Done then unat (market_fee price n) else 0) = market_gold m \<and> market_ok m'"
proof (cases "getPlayerByGUID guid False m")
  case None
  then show ?thesis using assms(2,4) by (auto simp: playerCreateMarketOffer_def)
next
  case (Some t)
  then have t: "t \<in> set (mk_traders m)" "guid = tr_guid t" "tr_guid t \<noteq> 0" using getPlayerByGUID_Some by blast+
  define fee where "fee = market_fee price n"
  have fee: "unat fee \<le> 100000" using fee_bounds(2) by (simp add: fee_def word_le_nat_alt)
  show ?thesis
  proof (cases "checkCanInitCreateMarketOffer e t ty (me_items e i) n price m")
    case False
    then show ?thesis using assms(2,4) Some by (auto simp: playerCreateMarketOffer_def Let_def)
  next
    case check: True
    then have price: "price \<le> 999999999999" by (simp add: checkCanInitCreateMarketOffer_def not_less)
    show ?thesis
    proof (cases "ty = 1")
      case sell: True
      obtain b m1 where take: "take_offered e t (me_items e i) n tier m = (b, m1)" by fastforce
      have same: "same_money m m1" using take_offered_same [OF market_okD(1) [OF assms(2)] t(1) take] .
      obtain t1 where t1: "t1 \<in> set (mk_traders m1)" "tr_guid t1 = tr_guid t" "tr_wallet t1 = tr_wallet t"
        using same_money_member [OF same t(1)] .
      have m1: "market_gold m1 = market_gold m" "market_ok m1" "mk_nextId m1 \<noteq> - 1"
        using same_money_ok [OF same assms(2)] same assms(3) by (simp_all add: same_money_def)
      consider (poor) "r = Market_Refused" "m' = m" | (none) "r = Market_Error" "m' = m1"
        | (paid) "\<not> fee > getBankBalance t1 + getMoney (tr_wallet t1)" "r = Market_Done"
          "m' = upd_trader (tr_guid t1) (updateUIExhausted e) (createOffer e (tr_guid t1) MARKETACTION_SELL (it_id (me_items e i)) n
             price tier anon (upd_trader (tr_guid t1) (trader_pay e fee True) m1))"
        using assms(4) Some check sell take t t1(2,3)
        by (auto simp: playerCreateMarketOffer_def Let_def fee_def getBankBalance_def split: if_splits)
      then show ?thesis
      proof cases
        case paid
        show ?thesis
          using enter_offer [OF assms(1) m1(2) t1(1) _ paid(1) price m1(3), of fee MARKETACTION_SELL n] t1(2) t(3) paid(2,3) m1(1)
          by (simp add: fee_def)
      qed (use assms(2) m1 in auto)
    next
      case buy: False
      define total where "total = price * ucast n + fee"
      have total: "unat total = unat fee + unat price * unat n"
        using price_product [OF price, of n] fee by (simp add: total_def unat_word_ariths)
      consider (poor) "r = Market_Refused" "m' = m"
        | (paid) "\<not> total > getBankBalance t + getMoney (tr_wallet t)" "r = Market_Done"
          "m' = upd_trader (tr_guid t) (updateUIExhausted e) (createOffer e (tr_guid t) MARKETACTION_BUY (it_id (me_items e i)) n
             price tier anon (upd_trader (tr_guid t) (trader_pay e total True) m))"
        using assms(4) Some check buy t(2)
        by (auto simp: playerCreateMarketOffer_def Let_def fee_def total_def add.commute split: if_splits)
      then show ?thesis
      proof cases
        case paid
        show ?thesis
          using enter_offer [OF assms(1,2) t(1,3) paid(1) price assms(3), of fee MARKETACTION_BUY n] total paid(2,3)
          by (simp add: fee_def)
      qed (use assms(2) in auto)
    qed
  qed
qed

text \<open>A row that is closed takes its gold out of the table.\<close>

lemma close_row:
  assumes "market_wf m" and "p \<in> set (mk_offers m)"
  obtains m1 where "moveOfferToHistory e (mo_id p) st m = (True, m1)" and "market_gold m1 + offer_gold p = market_gold m"
    and "market_wf m1" and "mk_traders m1 = mk_traders m" and "mk_offers m1 = filter (\<lambda>x. mo_id x \<noteq> mo_id p) (mk_offers m)"
proof -
  have "\<exists>x. List.find (\<lambda>x. mo_id x = mo_id p) (mk_offers m) = Some x" using assms(2) by (auto simp: find_None_iff simp flip: not_None_eq)
  then obtain x where x: "List.find (\<lambda>x. mo_id x = mo_id p) (mk_offers m) = Some x" by blast
  define m1 where "m1 = appendHistory (mo_player x) (mo_type x) (mo_item x) (mo_amount x) (mo_price x) (me_now e)
    (mo_tier (read_row e x)) st (deleteOffer (mo_id p) m)"
  have same: "same_money (deleteOffer (mo_id p) m) m1" unfolding m1_def by (rule history_same)
  show thesis
  proof (rule that)
    show "moveOfferToHistory e (mo_id p) st m = (True, m1)" by (simp add: moveOfferToHistory_def x m1_def)
    show "market_gold m1 + offer_gold p = market_gold m"
      using same_money_gold [OF same] delete_gold [OF assms] by simp
    show "market_wf m1" using same_money_wf [OF same delete_wf [OF assms(1)]] .
    show "mk_traders m1 = mk_traders m" "mk_offers m1 = filter (\<lambda>x. mo_id x \<noteq> mo_id p) (mk_offers m)"
      by (simp_all add: m1_def appendHistory_def deleteOffer_def)
  qed
qed

lemma row_price:
  fixes n :: u16
  assumes "market_wf m" and "p \<in> set (mk_offers m)"
  shows "mo_price p \<le> 999999999999" and "unat (mo_price p * ucast n) = unat (mo_price p) * unat n"
proof -
  show "mo_price p \<le> 999999999999" using assms by (simp add: market_wf_def)
  then show "unat (mo_price p * ucast n) = unat (mo_price p) * unat n" by (rule price_product)
qed

lemma refund_row:
  assumes "market_ok m" and "p \<in> set (mk_offers m)" and "t \<in> set (mk_traders m)" and "mo_type p = MARKETACTION_BUY"
  shows "market_gold (upd_trader (tr_guid t) (\<lambda>t. setBankBalance (getBankBalance t + mo_price p * ucast (mo_amount p)) t) m) =
      market_gold m + offer_gold p \<and>
    market_wf (upd_trader (tr_guid t) (\<lambda>t. setBankBalance (getBankBalance t + mo_price p * ucast (mo_amount p)) t) m)"
proof -
  have gold: "unat (mo_price p * ucast (mo_amount p)) = offer_gold p"
    using row_price [OF market_okD(1) [OF assms(1)] assms(2)] assms(4) by (simp add: offer_gold_def)
  have "trader_worth t + offer_gold p < 2 ^ 64" using trader_offer_le [OF assms(3,2)] market_okD(2) [OF assms(1)] by simp
  then show ?thesis
    using credit_market [OF market_okD(1) [OF assms(1)] assms(3), of "mo_price p * ucast (mo_amount p)"] gold by simp
qed

lemma cancel_effect:
  assumes "market_ok m" and "playerCancelMarketOffer e guid ts c m = Some (r, m')"
  shows "market_gold m' = market_gold m \<and> market_ok m'"
proof -
  consider (refused) "m' = m" | (closed) t q m1 where "getPlayerByGUID guid False m = Some t" "getOfferByCounter e ts c m = Some q"
      "m' = upd_trader guid (updateUIExhausted e) (snd (moveOfferToHistory e (mo_id q) OFFERSTATE_CANCELLED m1))"
      "(mo_type q = MARKETACTION_BUY \<and> m1 = upd_trader guid (\<lambda>t. setBankBalance (getBankBalance t + mo_price q * ucast (mo_amount q)) t) m) \<or>
       (mo_type q = MARKETACTION_SELL \<and>
        (\<exists>res. give_offer e guid (tr_account t) (me_items e (mo_item q)) (mo_tier q) (mo_amount q) m = Some res \<and> m1 = snd res))"
    using assms(2) unfolding playerCancelMarketOffer_def
    by (fastforce split: option.splits if_splits market_action.splits simp: bind_eq_Some_conv)
  then show ?thesis
  proof cases
    case closed
    have t: "t \<in> set (mk_traders m)" "guid = tr_guid t" using getPlayerByGUID_Some [OF closed(1)] by simp_all
    obtain p where p: "p \<in> set (mk_offers m)" "q = read_row e p" using getOfferByCounter_Some [OF closed(2)] .
    have m1: "market_gold m1 = market_gold m + offer_gold p \<and> market_wf m1 \<and> mk_offers m1 = mk_offers m"
      using closed(4)
    proof (elim disjE conjE exE)
      assume "mo_type q = MARKETACTION_BUY"
        "m1 = upd_trader guid (\<lambda>t. setBankBalance (getBankBalance t + mo_price q * ucast (mo_amount q)) t) m"
      then show ?thesis using refund_row [OF assms(1) p(1) t(1)] by (simp add: p(2) t(2))
    next
      fix res assume sell: "mo_type q = MARKETACTION_SELL"
        and give: "give_offer e guid (tr_account t) (me_items e (mo_item q)) (mo_tier q) (mo_amount q) m = Some res" "m1 = snd res"
      have same: "same_money m m1" using give_offer_same [OF give(1)] give(2) by simp
      then have "mk_offers m1 = mk_offers m" unfolding same_money_def by blast
      moreover have "offer_gold p = 0" using sell by (simp add: p(2) offer_gold_def)
      ultimately show ?thesis using same_money_ok [OF same assms(1)] market_okD(1) by simp
    qed
    then have "market_wf m1" "p \<in> set (mk_offers m1)" using p(1) by simp_all
    then obtain m2 where m2: "moveOfferToHistory e (mo_id p) OFFERSTATE_CANCELLED m1 = (True, m2)"
        "market_gold m2 + offer_gold p = market_gold m1" "market_wf m2" by (rule close_row)
    have m': "same_money m2 m'" using closed(3) m2(1) exhausted_same by (simp add: p(2))
    have "market_gold m2 = market_gold m" using m2(2) m1 by simp
    then show ?thesis using same_money_ok [OF m'] m2(3) market_okD(2) [OF assms(1)] by (simp add: market_ok_def)
  qed (use assms(1) in simp)
qed

lemma part_le:
  assumes "market_wf m" and "p \<in> set (mk_offers m)" and "n \<le> mo_amount p" and "mo_type p = MARKETACTION_BUY"
  shows "unat (mo_price p * ucast n) \<le> offer_gold p"
  using row_price(2) [OF assms(1,2), of n] assms(3,4) by (simp add: offer_gold_def word_le_nat_alt)

lemma accept_buy_cases:
  assumes "accept_buy_offer e t it q n m = Some (r, m')" and "r \<noteq> Market_Error" and "take_offered e t it n (mo_tier q) m = (b, m1)"
  obtains (refused) "m' = m" | (given) buyer :: trader and m3 where
    "give_offer e (tr_guid buyer) (tr_account buyer) it (mo_tier q) n
       (upd_trader (tr_guid t) (\<lambda>t. setBankBalance (getBankBalance t + mo_price q * ucast n) t) m1) = Some (True, m3)"
    "m' = finish_accept e (tr_guid t) q n m3"
proof (cases "getPlayerByGUID (mo_player q) True m")
  case None
  then show thesis using assms(1) refused by (simp add: accept_buy_offer_def)
next
  case (Some buyer)
  define m2 where "m2 = upd_trader (tr_guid t) (\<lambda>t. setBankBalance (getBankBalance t + mo_price q * ucast n) t) m1"
  show thesis
  proof (cases "tr_guid buyer = tr_guid t \<or> \<not> b")
    case True
    then show thesis using assms refused Some by (auto simp: accept_buy_offer_def split: if_splits)
  next
    case False
    then have run: "give_offer e (tr_guid buyer) (tr_account buyer) it (mo_tier q) n m2 \<bind>
        (\<lambda>(given, m3). Some (if given then (Market_Done, finish_accept e (tr_guid t) q n m3) else (Market_Error, m3))) = Some (r, m')"
      using assms Some by (simp add: accept_buy_offer_def Let_def m2_def)
    then obtain c m3 where give: "give_offer e (tr_guid buyer) (tr_account buyer) it (mo_tier q) n m2 = Some (c, m3)"
      by (cases "give_offer e (tr_guid buyer) (tr_account buyer) it (mo_tier q) n m2") auto
    then show thesis using given [of buyer m3] run assms(2) unfolding m2_def by (cases c) simp_all
  qed
qed

lemma accept_buy_effect:
  assumes "market_ok m" and "t \<in> set (mk_traders m)" and "p \<in> set (mk_offers m)" and "n \<le> mo_amount p"
    and "mo_type p = MARKETACTION_BUY" and "accept_buy_offer e t it (read_row e p) n m = Some (r, m')" and "r \<noteq> Market_Error"
  shows "market_gold m' = market_gold m \<and> market_ok m'"
proof -
  let ?price = "mo_price p * ucast n"
  obtain b m1 where take: "take_offered e t it n (mo_tier (read_row e p)) m = (b, m1)" by fastforce
  define m2 where "m2 = upd_trader (tr_guid t) (\<lambda>t. setBankBalance (getBankBalance t + ?price) t) m1"
  from accept_buy_cases [OF assms(6,7) take, unfolded read_row_simps, folded m2_def, case_names refused given]
  show ?thesis
  proof cases
    case (given buyer m3)
    have same: "same_money m m1" using take_offered_same [OF market_okD(1) [OF assms(1)] assms(2) take] .
    have m1: "market_gold m1 = market_gold m" "market_ok m1" using same_money_ok [OF same assms(1)] by simp_all
    obtain t1 where t1: "t1 \<in> set (mk_traders m1)" "tr_guid t1 = tr_guid t" using same_money_member [OF same assms(2)] by blast
    have rows: "mk_offers m1 = mk_offers m" using same unfolding same_money_def by blast
    then have "trader_worth t1 + offer_gold p < 2 ^ 64"
      using trader_offer_le [OF t1(1), of p] assms(3) market_okD(2) [OF m1(2)] by simp
    then have "trader_worth t1 + unat ?price < 2 ^ 64" using part_le [OF market_okD(1) [OF assms(1)] assms(3,4,5)] by linarith
    then have m2: "market_gold m2 = market_gold m + unat ?price" "market_wf m2"
      using credit_market [OF market_okD(1) [OF m1(2)] t1(1), of ?price] m1(1) t1(2) by (simp_all add: m2_def)
    have same2: "same_money m2 m3" using give_offer_same [OF given(1)] by simp
    then have "mk_offers m3 = mk_offers m" using rows unfolding same_money_def m2_def upd_trader_simps by simp
    then have "p \<in> set (mk_offers m3)" using assms(3) by simp
    note fin = finish_accept_gold [OF same_money_wf [OF same2 m2(2)] this assms(4), of e "tr_guid t"]
    have "market_gold m' = market_gold m"
      using fin(1) m2(1) same_money_gold [OF same2] row_price(2) [OF market_okD(1) [OF assms(1)] assms(3), of n] assms(5) given(2) by simp
    then show ?thesis using fin(2) given(2) market_okD(2) [OF assms(1)] by (simp add: market_ok_def)
  qed (use assms(1) in simp)
qed

text \<open>The buyer pays with the bank balance first and with coins for the rest.\<close>

definition pay_balance_first :: "market_env \<Rightarrow> u64 \<Rightarrow> trader \<Rightarrow> trader" where
  "pay_balance_first e price t = (if price \<le> getBankBalance t then setBankBalance (getBankBalance t - price) t
     else trader_pay e (price - getBankBalance t) False (setBankBalance 0 t))"

lemma pay_balance_first_worth:
  assumes "add_law (me_addItem e)" and "refs_ok (tr_wallet t)" and "trader_worth t < 2 ^ 64"
    and "\<not> price > getBankBalance t + getMoney (tr_wallet t)"
  shows "trader_worth (pay_balance_first e price t) + unat price = trader_worth t"
    and "tr_guid (pay_balance_first e price t) = tr_guid t" and "refs_ok (tr_wallet (pay_balance_first e price t))"
proof -
  let ?b = "wl_balance (tr_wallet t)" and ?t0 = "setBankBalance 0 t"
  have le: "unat price \<le> unat ?b + coins_worth (tr_wallet t)" using assms(4) money_sum [OF assms(3)] by (simp add: word_less_nat_alt)
  have t0: "refs_ok (tr_wallet ?t0)" "trader_worth ?t0 + unat ?b = trader_worth t" "coins_worth (tr_wallet ?t0) = coins_worth (tr_wallet t)"
    using assms(2) by (simp_all add: setBankBalance_def trader_worth_def)
  have small: "trader_worth ?t0 < 2 ^ 64" using t0(2) assms(3) by linarith
  show "trader_worth (pay_balance_first e price t) + unat price = trader_worth t" "tr_guid (pay_balance_first e price t) = tr_guid t"
    "refs_ok (tr_wallet (pay_balance_first e price t))"
  proof (cases "price \<le> ?b", goal_cases)
    case 1
    then have "unat (?b - price) + unat price = unat ?b" by (simp add: unat_sub word_le_nat_alt)
    then show ?case using 1 by (simp add: pay_balance_first_def getBankBalance_def setBankBalance_def trader_worth_def)
  next
    case 2
    then have diff: "unat (price - ?b) = unat price - unat ?b" "unat ?b < unat price" by (simp_all add: unat_sub word_le_nat_alt)
    then have "unat (price - ?b) \<le> coins_worth (tr_wallet ?t0) + (if False then unat (wl_balance (tr_wallet ?t0)) else 0)"
      using le t0(3) by simp
    note pay = trader_pay_worth [OF assms(1) t0(1) small this]
    show ?case using pay(1) diff t0(2) 2 by (simp add: pay_balance_first_def getBankBalance_def)
  next
    case 3
    show ?case by (simp add: pay_balance_first_def setBankBalance_def trader_pay_def)
  next
    case 4
    have "refs_ok (tr_wallet (setBankBalance b t))" for b using assms(2) by (simp add: setBankBalance_def)
    then show ?case using refs_ok_removeMoney [OF assms(1) t0(1)] by (simp add: pay_balance_first_def trader_pay_def)
  qed
qed

lemma accept_sell_cases:
  assumes "accept_sell_offer e t it q n m = Some (r, m')" and "r \<noteq> Market_Error"
  obtains (refused) "m' = m" | (given) seller :: trader and m2 where "getPlayerByGUID (mo_player q) True m = Some seller"
    "tr_guid seller \<noteq> tr_guid t" "\<not> mo_price q * ucast n > getBankBalance t + getMoney (tr_wallet t)"
    "give_offer e (tr_guid t) (tr_account t) it (mo_tier q) n (upd_trader (tr_guid t) (pay_balance_first e (mo_price q * ucast n)) m) =
       Some (True, m2)"
    "m' = finish_accept e (tr_guid t) q n
      (upd_trader (tr_guid seller) (\<lambda>s. setBankBalance (getBankBalance s + mo_price q * ucast n) s) m2)"
proof (cases "getPlayerByGUID (mo_player q) True m")
  case None
  then show thesis using assms(1) refused by (simp add: accept_sell_offer_def)
next
  case (Some seller)
  define m1 where "m1 = upd_trader (tr_guid t) (pay_balance_first e (mo_price q * ucast n)) m"
  have debit: "pay_balance_first e price = (\<lambda>t. if price \<le> getBankBalance t then setBankBalance (getBankBalance t - price) t
      else trader_pay e (price - getBankBalance t) False (setBankBalance 0 t))" for price
    by (rule ext) (simp only: pay_balance_first_def)
  show thesis
  proof (cases "tr_guid seller = tr_guid t \<or> mo_price q * ucast n > getBankBalance t + getMoney (tr_wallet t)")
    case True
    then show thesis using assms(1) refused Some by (auto simp: accept_sell_offer_def Let_def split: if_splits)
  next
    case False
    then have run: "give_offer e (tr_guid t) (tr_account t) it (mo_tier q) n m1 \<bind> (\<lambda>(given, m2).
        Some (if given then (Market_Done, finish_accept e (tr_guid t) q n
            (upd_trader (tr_guid seller) (\<lambda>s. setBankBalance (getBankBalance s + mo_price q * ucast n) s) m2))
          else (Market_Error, upd_trader (tr_guid seller) (\<lambda>s. setBankBalance (getBankBalance s + mo_price q * ucast n) s) m2))) =
        Some (r, m')"
      using assms(1) Some by (simp add: accept_sell_offer_def Let_def m1_def debit)
    then obtain b m2 where give: "give_offer e (tr_guid t) (tr_account t) it (mo_tier q) n m1 = Some (b, m2)"
      by (cases "give_offer e (tr_guid t) (tr_account t) it (mo_tier q) n m1") auto
    then show thesis using given [of seller m2] False Some assms(2) run unfolding m1_def by (cases b) simp_all
  qed
qed

lemma accept_sell_effect:
  assumes law: "add_law (me_addItem e)" and "market_ok m" and "t \<in> set (mk_traders m)" and "p \<in> set (mk_offers m)" and "n \<le> mo_amount p"
    and "mo_type p = MARKETACTION_SELL" and "accept_sell_offer e t it (read_row e p) n m = Some (r, m')" and "r \<noteq> Market_Error"
  shows "market_gold m' = market_gold m \<and> market_ok m'"
proof -
  let ?price = "mo_price p * ucast n"
  define m1 where "m1 = upd_trader (tr_guid t) (pay_balance_first e ?price) m"
  from accept_sell_cases [OF assms(7,8), unfolded read_row_simps, folded m1_def, case_names refused given]
  show ?thesis
  proof cases
    case (given seller m2)
    have wf: "market_wf m" using market_okD(1) [OF assms(2)] .
    have refs: "refs_ok (tr_wallet t)" using wf assms(3) by (simp add: market_wf_def)
    have small: "trader_worth t < 2 ^ 64" using trader_le [OF assms(3)] market_okD(2) [OF assms(2)] by simp
    note pay = pay_balance_first_worth [OF law refs small given(3)]
    have "market_gold m1 + trader_worth t = market_gold m + trader_worth (pay_balance_first e ?price t)"
      unfolding m1_def by (rule upd_gold [OF wf assms(3)])
    then have m1: "market_gold m1 + unat ?price = market_gold m" "market_wf m1"
      using pay upd_wf [OF wf assms(3), of "pay_balance_first e ?price"] by (simp_all add: m1_def)
    have same: "same_money m1 m2" using give_offer_same [OF given(4)] by simp
    have "seller \<in> set (mk_traders m)" using getPlayerByGUID_Some [OF given(1)] by simp
    then have "seller \<in> set (mk_traders m1)" using given(2) by (force simp: m1_def)
    then obtain s2 where s2: "s2 \<in> set (mk_traders m2)" "tr_guid s2 = tr_guid seller" using same_money_member [OF same] by blast
    define m3 where "m3 = upd_trader (tr_guid seller) (\<lambda>s. setBankBalance (getBankBalance s + ?price) s) m2"
    have "market_gold m2 + unat ?price = market_gold m" using m1(1) same_money_gold [OF same] by simp
    then have m3: "market_gold m3 = market_gold m" "market_wf m3"
      using credit_market [OF same_money_wf [OF same m1(2)] s2(1), of ?price] market_okD(2) [OF assms(2)] s2(2)
      by (simp_all add: m3_def)
    have "mk_offers m3 = mk_offers m" using same unfolding same_money_def m3_def m1_def upd_trader_simps by simp
    then have "p \<in> set (mk_offers m3)" using assms(4) by simp
    note fin = finish_accept_gold [OF m3(2) this assms(5), of e "tr_guid t"]
    then have "market_gold m' = market_gold m \<and> market_wf m'" using m3(1) assms(6) given(5) by (simp add: m3_def)
    then show ?thesis using market_okD(2) [OF assms(2)] by (simp add: market_ok_def)
  qed (use assms(2) in simp)
qed

lemma accept_effect:
  assumes "add_law (me_addItem e)" and "market_ok m" and "playerAcceptMarketOffer e guid ts c n m = Some (r, m')" and "r \<noteq> Market_Error"
  shows "market_gold m' = market_gold m \<and> market_ok m'"
proof -
  consider (refused) "m' = m" | (buy) t q where "getPlayerByGUID guid False m = Some t" "getOfferByCounter e ts c m = Some q"
      "n \<le> mo_amount q" "mo_type q = MARKETACTION_BUY" "accept_buy_offer e t (me_items e (mo_item q)) q n m = Some (r, m')"
    | (sell) t q where "getPlayerByGUID guid False m = Some t" "getOfferByCounter e ts c m = Some q"
      "n \<le> mo_amount q" "mo_type q \<noteq> MARKETACTION_BUY" "accept_sell_offer e t (me_items e (mo_item q)) q n m = Some (r, m')"
    using assms(3) unfolding playerAcceptMarketOffer_def Let_def
    by (auto split: option.splits if_splits simp: not_less)
  then show ?thesis
  proof cases
    case buy
    obtain p where "p \<in> set (mk_offers m)" "q = read_row e p" using getOfferByCounter_Some [OF buy(2)] .
    then show ?thesis using accept_buy_effect [OF assms(2) _ _ _ _ _ assms(4), of t p n e] buy getPlayerByGUID_Some [OF buy(1)] by simp
  next
    case sell
    obtain p where p: "p \<in> set (mk_offers m)" "q = read_row e p" using getOfferByCounter_Some [OF sell(2)] .
    have "mo_type p = MARKETACTION_SELL" using sell(4) p(2) by (cases "mo_type p") simp_all
    then show ?thesis
      using accept_sell_effect [OF assms(1,2) _ p(1) _ _ _ assms(4), of t n] sell getPlayerByGUID_Some [OF sell(1)] p(2) by simp
  qed (use assms(2) in simp)
qed

text \<open>An expired offer: its row is closed first, and a buy offer is refunded.\<close>

lemma expire_effect:
  assumes "market_ok m" and "p \<in> set (mk_offers m)" and "expire_offer e p m = Some m'"
  shows "market_gold m' = market_gold m \<and> market_ok m' \<and> mk_offers m' = filter (\<lambda>x. mo_id x \<noteq> mo_id p) (mk_offers m)"
proof -
  have wf: "market_wf m" and small: "market_gold m < 2 ^ 64" using assms(1) by (simp_all add: market_ok_def)
  obtain m1 where m1: "moveOfferToHistory e (mo_id p) OFFERSTATE_EXPIRED m = (True, m1)" "market_gold m1 + offer_gold p = market_gold m"
      "market_wf m1" "mk_traders m1 = mk_traders m" "mk_offers m1 = filter (\<lambda>x. mo_id x \<noteq> mo_id p) (mk_offers m)"
    using close_row [OF wf assms(2)] .
  show ?thesis
  proof (cases "mo_type p")
    case MARKETACTION_BUY
    have "mo_player p \<in> tr_guid ` set (mk_traders m)" using wf assms(2) by (simp add: market_wf_def)
    then obtain t where t: "t \<in> set (mk_traders m1)" "mo_player p = tr_guid t" by (auto simp: m1(4))
    have gold: "unat (mo_price p * ucast (mo_amount p)) = offer_gold p"
      using row_price(2) [OF wf assms(2)] MARKETACTION_BUY by (simp add: offer_gold_def)
    have "m' = upd_trader (tr_guid t) (\<lambda>t. setBankBalance (getBankBalance t + mo_price p * ucast (mo_amount p)) t) m1"
      using assms(3) MARKETACTION_BUY m1(1) t(2) by (simp add: expire_offer_def)
    then show ?thesis
      using credit_market [OF m1(3) t(1), of "mo_price p * ucast (mo_amount p)"] gold m1(2,5) small by (simp add: market_ok_def)
  next
    case MARKETACTION_SELL
    have zero: "offer_gold p = 0" using MARKETACTION_SELL by (simp add: offer_gold_def)
    have "same_money m1 m'"
    proof (cases "it_id (me_items e (mo_item p)) = 0 \<or> getPlayerByGUID (mo_player p) True m1 = None")
      case True
      then show ?thesis using assms(3) MARKETACTION_SELL m1(1) by (auto simp: expire_offer_def Let_def split: if_splits)
    next
      case False
      then obtain t where "getPlayerByGUID (mo_player p) True m1 = Some t" by blast
      then have "map_option snd (give_items e (tr_guid t) (me_items e (mo_item p)) (mo_tier (read_row e p)) 100 (mo_amount p) m1) = Some m'"
        using assms(3) MARKETACTION_SELL m1(1) False by (simp add: expire_offer_def Let_def)
      then show ?thesis using give_items_same by (auto simp: map_option_eq_Some)
    qed
    moreover have "market_ok m1" using m1(2,3) small by (simp add: market_ok_def)
    ultimately show ?thesis using same_money_ok [of m1 m'] m1(2,5) zero by (simp add: same_money_def)
  qed
qed

lemma expired_effect:
  assumes "market_ok m" and "set qs \<subseteq> set (mk_offers m)" and "distinct (map mo_id qs)" and "processExpiredOffers e qs m = Some m'"
  shows "market_gold m' = market_gold m \<and> market_ok m' \<and>
    mk_offers m' = filter (\<lambda>x. mo_id x \<notin> mo_id ` set qs) (mk_offers m)"
  using assms
proof (induction qs arbitrary: m)
  case Nil
  then show ?case by simp
next
  case (Cons q qs)
  obtain m1 where step: "expire_offer e q m = Some m1" "processExpiredOffers e qs m1 = Some m'"
    using Cons.prems(4) by (auto simp: bind_eq_Some_conv)
  have "q \<in> set (mk_offers m)" using Cons.prems(2) by simp
  note m1 = expire_effect [OF Cons.prems(1) this step(1)]
  have "set qs \<subseteq> set (mk_offers m1)" using Cons.prems(2,3) m1 by (auto simp: image_iff)
  then have "market_gold m' = market_gold m1 \<and> market_ok m' \<and> mk_offers m' = filter (\<lambda>x. mo_id x \<notin> mo_id ` set qs) (mk_offers m1)"
    using Cons.IH [of m1] m1 Cons.prems(3) step(2) by simp
  moreover have "filter (\<lambda>x. mo_id x \<notin> mo_id ` set qs) (mk_offers m1) = filter (\<lambda>x. mo_id x \<notin> mo_id ` set (q # qs)) (mk_offers m)"
    using m1 by (auto intro: filter_cong)
  ultimately show ?case using m1 by simp
qed

lemma checkExpiredOffers_effect:
  assumes "market_ok m" and "checkExpiredOffers e m = Some m'"
  shows "market_gold m' = market_gold m \<and> market_ok m'"
proof -
  have "distinct (map mo_id (filter P (mk_offers m)))" for P
    using market_okD(1) [OF assms(1)] by (simp add: market_wf_def distinct_map_filter)
  then show ?thesis using expired_effect [OF assms(1) _ _ assms(2) [unfolded checkExpiredOffers_def]] by auto
qed

subsection \<open>Runs of the market\<close>

text \<open>A step is one request or one sweep, with the fee it charges; settings, clock and placement of items
  may differ from step to step. An accepted offer whose items did not all fit into the inbox ends in
  an error and is no step.\<close>

inductive market_step :: "market_env \<Rightarrow> nat \<Rightarrow> market \<Rightarrow> market \<Rightarrow> bool" for e where
  create: "playerCreateMarketOffer e guid ty i n price tier anon m = (r, m') \<Longrightarrow> mk_nextId m \<noteq> - 1 \<Longrightarrow>
    market_step e (if r = Market_Done then unat (market_fee price n) else 0) m m'"
| cancel: "parseMarketCancelOffer e guid ts c m = Some (r, m') \<Longrightarrow> market_step e 0 m m'"
| accept: "parseMarketAcceptOffer e guid ts c n m = Some (r, m') \<Longrightarrow> r \<noteq> Market_Error \<Longrightarrow> market_step e 0 m m'"
| expire: "checkExpiredOffers e m = Some m' \<Longrightarrow> market_step e 0 m m'"
| leave: "market_step e 0 m (playerLeaveMarket guid m)"

inductive market_run :: "nat \<Rightarrow> market \<Rightarrow> market \<Rightarrow> bool" where
  start: "market_run 0 m m"
| more: "market_run fees m m1 \<Longrightarrow> add_law (me_addItem e) \<Longrightarrow> market_step e fee m1 m2 \<Longrightarrow> market_run (fees + fee) m m2"

lemma leave_same: "same_money m (playerLeaveMarket guid m)"
  by (auto simp: playerLeaveMarket_def split: option.split intro: same_money_upd)

lemma step_effect:
  assumes "market_step e fee m m'" and "add_law (me_addItem e)" and "market_ok m"
  shows "market_gold m' + fee = market_gold m \<and> market_ok m'"
  using assms(1)
proof cases
  case (create guid ty i n price tier anon r)
  then show ?thesis using create_effect [OF assms(2,3)] by blast
next
  case (cancel guid ts c r)
  then show ?thesis using cancel_effect [OF assms(3)] assms(3) by (auto simp: parseMarketCancelOffer_def split: if_splits)
next
  case (accept guid ts c n r)
  then show ?thesis using accept_effect [OF assms(2,3)] assms(3) by (auto simp: parseMarketAcceptOffer_def split: if_splits)
next
  case expire
  then show ?thesis using checkExpiredOffers_effect [OF assms(3)] by simp
next
  case (leave guid)
  then show ?thesis using same_money_ok [OF leave_same assms(3)] by simp
qed



end
