(* ===== verification/Scheduler.thy ===== *)
theory Scheduler
  imports Prelude
begin

text \<open>
  The dispatcher of tasks (\<open>game/scheduling/dispatcher\<close>, \<open>game/scheduling/task\<close>): serial events, groups
  of parallel events and events with a time, handed over by the queues of the threads. What a task
  does to the dispatcher is a list of commands; a task that has run is entered in a log. Tasks with a
  time are shared, so they live in a heap and are named by their address. A group of parallel
  tasks is run in the order of its list here, the interleavings of its end are in Thread_Races.
\<close>

subsection \<open>Tasks\<close>

datatype action = Action nat "command list"
  and command = Cmd_Add u32 action | Cmd_Schedule u32 bool action | Cmd_Async action | Cmd_Try action | Cmd_Stop u64

record sched_task =
  tk_func :: "action option"
  tk_utime :: int
  tk_expiration :: int
  tk_id :: u64
  tk_delay :: u32
  tk_cycle :: bool

datatype dispatcher_type = Type_None | Type_Event | Type_AsyncEvent | Type_ScheduledEvent | Type_CycleEvent

datatype task_group = Group_ThreadPool | Group_Serial | Group_GenericParallel

record dispatcher_context =
  cx_group :: task_group
  cx_type :: dispatcher_type
  cx_thread :: nat

definition isAsync :: "dispatcher_context \<Rightarrow> bool" where
  "isAsync cx \<longleftrightarrow> cx_group cx \<noteq> Group_Serial"

record thread_task =
  th_serial :: "sched_task list"
  th_parallel :: "sched_task list"
  th_scheduled :: "nat list"

record log_entry =
  lg_task :: "nat option"
  lg_label :: nat
  lg_type :: dispatcher_type
  lg_time :: int

record dispatcher =
  dp_now :: int
  dp_cycle :: u64
  dp_serial :: "sched_task list"
  dp_parallel :: "sched_task list"
  dp_scheduled :: "nat list"
  dp_refs :: "u64 \<rightharpoonup> nat"
  dp_threads :: "thread_task list"
  dp_heap :: "sched_task list"
  dp_lastId :: u64
  dp_pending :: bool
  dp_log :: "log_entry list"

definition new_event :: "dispatcher \<Rightarrow> u32 \<Rightarrow> action \<Rightarrow> sched_task" where
  "new_event d expiresAfterMs f = \<lparr>tk_func = Some f, tk_utime = dp_now d,
     tk_expiration = (if expiresAfterMs > 0 then dp_now d + uint expiresAfterMs else 0), tk_id = 0, tk_delay = 0, tk_cycle = False\<rparr>"

definition new_timed :: "dispatcher \<Rightarrow> action \<Rightarrow> u32 \<Rightarrow> bool \<Rightarrow> sched_task" where
  "new_timed d f delay cycle = \<lparr>tk_func = Some f, tk_utime = dp_now d + uint delay, tk_expiration = 0, tk_id = 0,
     tk_delay = delay, tk_cycle = cycle\<rparr>"

definition hasExpired :: "dispatcher \<Rightarrow> sched_task \<Rightarrow> bool" where
  "hasExpired d t \<longleftrightarrow> tk_expiration t \<noteq> 0 \<and> tk_expiration t < dp_now d"

definition isCanceled :: "sched_task \<Rightarrow> bool" where
  "isCanceled t \<longleftrightarrow> tk_func t = None"

definition next_id :: "dispatcher \<Rightarrow> u64" where
  "next_id d = (if dp_lastId d + 1 = 0 then 1 else dp_lastId d + 1)"

subsection \<open>Handing over tasks\<close>

definition upd_thread :: "nat \<Rightarrow> (thread_task \<Rightarrow> thread_task) \<Rightarrow> dispatcher \<Rightarrow> dispatcher" where
  "upd_thread i f d = d\<lparr>dp_threads := (dp_threads d)[i := f (dp_threads d ! i)]\<rparr>"

definition notify :: "dispatcher \<Rightarrow> dispatcher" where
  "notify d = d\<lparr>dp_pending := True\<rparr>"

definition addEvent :: "nat \<Rightarrow> action \<Rightarrow> u32 \<Rightarrow> dispatcher \<Rightarrow> dispatcher" where
  "addEvent i f expiresAfterMs d = notify (upd_thread i (\<lambda>t. t\<lparr>th_serial := th_serial t @ [new_event d expiresAfterMs f]\<rparr>) d)"

definition asyncEvent :: "nat \<Rightarrow> action \<Rightarrow> dispatcher \<Rightarrow> dispatcher" where
  "asyncEvent i f d = notify (upd_thread i (\<lambda>t. t\<lparr>th_parallel := th_parallel t @ [new_event d 0 f]\<rparr>) d)"

definition scheduleEvent :: "nat \<Rightarrow> sched_task \<Rightarrow> dispatcher \<Rightarrow> u64 \<times> dispatcher" where
  "scheduleEvent i t d =
     (let eid = next_id d; p = length (dp_heap d);
          d1 = d\<lparr>dp_heap := dp_heap d @ [t\<lparr>tk_id := eid\<rparr>], dp_lastId := eid,
                 dp_refs := (if dp_refs d eid = None then (dp_refs d)(eid \<mapsto> p) else dp_refs d)\<rparr>
      in (eid, notify (upd_thread i (\<lambda>t. t\<lparr>th_scheduled := th_scheduled t @ [p]\<rparr>) d1)))"

definition stopEvent :: "u64 \<Rightarrow> dispatcher \<Rightarrow> dispatcher" where
  "stopEvent eventId d = (case dp_refs d eventId of
       None \<Rightarrow> d
     | Some p \<Rightarrow> d\<lparr>dp_heap := (dp_heap d)[p := (dp_heap d ! p)\<lparr>tk_func := None\<rparr>], dp_refs := (dp_refs d)(eventId := None)\<rparr>)"

text \<open>\<open>asyncScheduleEvent\<close> and \<open>asyncCycleEvent\<close> schedule a task that enters the parallel one.\<close>

definition async_wrap :: "action \<Rightarrow> action" where
  "async_wrap f = Action 0 [Cmd_Async f]"

text \<open>Running a function: it is logged, then its commands are carried out in the context of the task.\<close>

fun run_action :: "dispatcher_context \<Rightarrow> nat option \<Rightarrow> action \<Rightarrow> dispatcher \<Rightarrow> dispatcher"
and run_command :: "dispatcher_context \<Rightarrow> command \<Rightarrow> dispatcher \<Rightarrow> dispatcher"
and run_commands :: "dispatcher_context \<Rightarrow> command list \<Rightarrow> dispatcher \<Rightarrow> dispatcher" where
  "run_action cx p (Action n cmds) d = run_commands cx cmds
     (d\<lparr>dp_log := dp_log d @ [\<lparr>lg_task = p, lg_label = n, lg_type = cx_type cx, lg_time = dp_now d\<rparr>]\<rparr>)"
| "run_command cx (Cmd_Add n f) d = addEvent (cx_thread cx) f n d"
| "run_command cx (Cmd_Schedule delay cycle f) d = snd (scheduleEvent (cx_thread cx) (new_timed d f delay cycle) d)"
| "run_command cx (Cmd_Async f) d = asyncEvent (cx_thread cx) f d"
| "run_command cx (Cmd_Try f) d = (if isAsync cx then addEvent (cx_thread cx) f 0 d else run_action cx None f d)"
| "run_command cx (Cmd_Stop i) d = stopEvent i d"
| "run_commands cx [] d = d"
| "run_commands cx (c # cs) d = run_commands cx cs (run_command cx c d)"

definition execute_task :: "dispatcher_context \<Rightarrow> nat option \<Rightarrow> sched_task \<Rightarrow> dispatcher \<Rightarrow> bool \<times> dispatcher" where
  "execute_task cx p t d = (case tk_func t of
       None \<Rightarrow> (False, d)
     | Some f \<Rightarrow> if hasExpired d t then (False, d) else (True, run_action cx p f d))"

subsection \<open>The main loop\<close>

fun serial_loop :: "nat \<Rightarrow> sched_task list \<Rightarrow> dispatcher \<Rightarrow> dispatcher" where
  "serial_loop i [] d = d"
| "serial_loop i (t # ts) d =
     (case execute_task \<lparr>cx_group = Group_Serial, cx_type = Type_Event, cx_thread = i\<rparr> None t d of
        (ok, d1) \<Rightarrow> serial_loop i ts (if ok then d1\<lparr>dp_cycle := dp_cycle d1 + 1\<rparr> else d1))"

definition executeSerialEvents :: "nat \<Rightarrow> dispatcher \<Rightarrow> dispatcher" where
  "executeSerialEvents i d = (serial_loop i (dp_serial d) d)\<lparr>dp_serial := []\<rparr>"

fun parallel_loop :: "(nat \<Rightarrow> nat) \<Rightarrow> nat \<Rightarrow> sched_task list \<Rightarrow> dispatcher \<Rightarrow> dispatcher" where
  "parallel_loop worker k [] d = d"
| "parallel_loop worker k (t # ts) d = parallel_loop worker (Suc k) ts
     (snd (execute_task \<lparr>cx_group = Group_GenericParallel, cx_type = Type_AsyncEvent, cx_thread = worker k\<rparr> None t d))"

definition executeParallelEvents :: "(nat \<Rightarrow> nat) \<Rightarrow> dispatcher \<Rightarrow> dispatcher" where
  "executeParallelEvents worker d = (parallel_loop worker 0 (dp_parallel d) d)\<lparr>dp_parallel := []\<rparr>"

definition mergeAsyncEvents :: "dispatcher \<Rightarrow> dispatcher" where
  "mergeAsyncEvents d = d\<lparr>dp_parallel := dp_parallel d @ concat (map th_parallel (dp_threads d)),
     dp_threads := map (\<lambda>t. t\<lparr>th_parallel := []\<rparr>) (dp_threads d)\<rparr>"

definition executeEvents :: "nat \<Rightarrow> (nat \<Rightarrow> nat) \<Rightarrow> bool \<Rightarrow> dispatcher \<Rightarrow> dispatcher" where
  "executeEvents i worker fromSerial d =
     (if fromSerial \<and> dp_serial d = [] then d
      else let d1 = (if fromSerial then mergeAsyncEvents (executeSerialEvents i d) else d)
        in if dp_parallel d1 = [] then d1 else executeParallelEvents worker d1)"

fun scheduled_loop :: "nat \<Rightarrow> nat list \<Rightarrow> dispatcher \<Rightarrow> nat list \<times> dispatcher" where
  "scheduled_loop i [] d = ([], d)"
| "scheduled_loop i (p # ps) d =
     (let t = dp_heap d ! p in
      if tk_utime t > dp_now d then (p # ps, d)
      else case execute_task \<lparr>cx_group = Group_Serial, cx_type = (if tk_cycle t then Type_CycleEvent else Type_ScheduledEvent),
             cx_thread = i\<rparr> (Some p) t d of
          (ok, d1) \<Rightarrow> scheduled_loop i ps
            (if ok \<and> tk_cycle t
             then upd_thread i (\<lambda>th. th\<lparr>th_scheduled := th_scheduled th @ [p]\<rparr>)
                    (d1\<lparr>dp_heap := (dp_heap d1)[p := (dp_heap d1 ! p)\<lparr>tk_utime := dp_now d1 + uint (tk_delay t)\<rparr>]\<rparr>)
             else d1\<lparr>dp_refs := (dp_refs d1)(tk_id t := None)\<rparr>))"

definition executeScheduledEvents :: "nat \<Rightarrow> (nat \<Rightarrow> nat) \<Rightarrow> dispatcher \<Rightarrow> dispatcher" where
  "executeScheduledEvents i worker d = (case scheduled_loop i (dp_scheduled d) d of
       (rest, d1) \<Rightarrow> executeEvents i worker False (mergeAsyncEvents (d1\<lparr>dp_scheduled := rest\<rparr>)))"

text \<open>The tree of tasks is ordered by their times; an insertion goes behind the tasks of the same time.\<close>

definition insert_task :: "sched_task list \<Rightarrow> nat \<Rightarrow> nat list \<Rightarrow> nat list" where
  "insert_task h p l = takeWhile (\<lambda>q. tk_utime (h ! q) \<le> tk_utime (h ! p)) l @ p # dropWhile (\<lambda>q. tk_utime (h ! q) \<le> tk_utime (h ! p)) l"

definition checkPendingTasks :: "dispatcher \<Rightarrow> dispatcher" where
  "checkPendingTasks d = d\<lparr>dp_pending := dp_serial d \<noteq> [] \<or> dp_parallel d \<noteq> []\<rparr>"

definition mergeEvents :: "dispatcher \<Rightarrow> dispatcher" where
  "mergeEvents d = checkPendingTasks (d\<lparr>dp_serial := dp_serial d @ concat (map th_serial (dp_threads d)),
     dp_scheduled := fold (insert_task (dp_heap d)) (concat (map th_scheduled (dp_threads d))) (dp_scheduled d),
     dp_threads := map (\<lambda>t. t\<lparr>th_serial := [], th_scheduled := []\<rparr>) (dp_threads d)\<rparr>)"

text \<open>\<open>None\<close> is the longest time there is.\<close>

definition timeUntilNextScheduledTask :: "dispatcher \<Rightarrow> int option" where
  "timeUntilNextScheduledTask d = (case dp_scheduled d of [] \<Rightarrow> None
     | p # _ \<Rightarrow> Some (max (tk_utime (dp_heap d ! p) - dp_now d) 0))"

definition dispatcher_turn :: "nat \<Rightarrow> (nat \<Rightarrow> nat) \<Rightarrow> int \<Rightarrow> dispatcher \<Rightarrow> dispatcher" where
  "dispatcher_turn i worker now d =
     mergeEvents (executeScheduledEvents i worker (executeEvents i worker True (d\<lparr>dp_now := now\<rparr>)))"

definition new_dispatcher :: "nat \<Rightarrow> dispatcher" where
  "new_dispatcher n = \<lparr>dp_now = 0, dp_cycle = 0, dp_serial = [], dp_parallel = [], dp_scheduled = [], dp_refs = (\<lambda>_. None),
     dp_threads = replicate n \<lparr>th_serial = [], th_parallel = [], th_scheduled = []\<rparr>, dp_heap = [], dp_lastId = 0,
     dp_pending = False, dp_log = []\<rparr>"

text \<open>A step is a turn of the main loop in its thread, or a command of another thread between two turns.\<close>

inductive disp_step :: "nat \<Rightarrow> dispatcher \<Rightarrow> dispatcher \<Rightarrow> bool" for n where
  turn: "i < n \<Longrightarrow> \<forall>k. worker k < n \<Longrightarrow> length (dp_heap (dispatcher_turn i worker now d)) < 2 ^ 64 \<Longrightarrow>
    disp_step n d (dispatcher_turn i worker now d)"
| other: "j < n \<Longrightarrow> length (dp_heap (run_command \<lparr>cx_group = Group_ThreadPool, cx_type = Type_None, cx_thread = j\<rparr> c d)) < 2 ^ 64 \<Longrightarrow>
    disp_step n d (run_command \<lparr>cx_group = Group_ThreadPool, cx_type = Type_None, cx_thread = j\<rparr> c d)"

definition disp_reach :: "nat \<Rightarrow> dispatcher \<Rightarrow> bool" where
  "disp_reach n = (disp_step n)\<^sup>*\<^sup>* (new_dispatcher n)"

end
