(* ===== verification/Scheduler_Order.thy ===== *)
theory Scheduler_Order
  imports Scheduler "HOL-Library.Multiset"
begin

text \<open>
  The order of the dispatcher's tasks with a time: none runs before its time, the due ones run in the
  order of their times, and a stopped one never runs again.
\<close>

subsection \<open>What a task can change\<close>

definition runs :: "dispatcher \<Rightarrow> nat list" where
  "runs d = List.map_filter lg_task (dp_log d)"

text \<open>Existing tasks can only be cancelled, new ones come behind them; the queues of the main loop stay.\<close>

definition later :: "dispatcher \<Rightarrow> dispatcher \<Rightarrow> bool" where
  "later d d' \<longleftrightarrow> length (dp_heap d) \<le> length (dp_heap d') \<and>
     (\<forall>p<length (dp_heap d). dp_heap d' ! p = dp_heap d ! p \<or> dp_heap d' ! p = (dp_heap d ! p)\<lparr>tk_func := None\<rparr>) \<and>
     dp_now d' = dp_now d \<and> dp_scheduled d' = dp_scheduled d \<and> length (dp_threads d') = length (dp_threads d)"

lemma later_refl [simp]: "later d d"
  by (simp add: later_def)

lemma later_trans:
  assumes "later a b" and "later b c"
  shows "later a c"
proof -
  have "dp_heap c ! p = dp_heap a ! p \<or> dp_heap c ! p = (dp_heap a ! p)\<lparr>tk_func := None\<rparr>" if "p < length (dp_heap a)" for p
  proof -
    have "p < length (dp_heap b)" using assms(1) that by (simp add: later_def)
    then have "dp_heap c ! p = dp_heap b ! p \<or> dp_heap c ! p = (dp_heap b ! p)\<lparr>tk_func := None\<rparr>"
      using assms(2) by (simp add: later_def)
    moreover have "dp_heap b ! p = dp_heap a ! p \<or> dp_heap b ! p = (dp_heap a ! p)\<lparr>tk_func := None\<rparr>"
      using assms(1) that by (simp add: later_def)
    ultimately show ?thesis by auto
  qed
  then show ?thesis using assms by (simp add: later_def)
qed

lemma handed_over [simp]:
  "dp_heap (addEvent i f n d) = dp_heap d" "dp_now (addEvent i f n d) = dp_now d" "dp_scheduled (addEvent i f n d) = dp_scheduled d"
  "dp_heap (asyncEvent i f d) = dp_heap d" "dp_now (asyncEvent i f d) = dp_now d" "dp_scheduled (asyncEvent i f d) = dp_scheduled d"
  "dp_log (addEvent i f n d) = dp_log d" "dp_log (asyncEvent i f d) = dp_log d"
  "length (dp_threads (addEvent i f n d)) = length (dp_threads d)" "length (dp_threads (asyncEvent i f d)) = length (dp_threads d)"
  "dp_refs (addEvent i f n d) = dp_refs d" "dp_refs (asyncEvent i f d) = dp_refs d"
  "dp_lastId (addEvent i f n d) = dp_lastId d" "dp_lastId (asyncEvent i f d) = dp_lastId d"
  by (simp_all add: addEvent_def asyncEvent_def upd_thread_def notify_def)

lemma scheduled_later: "later d (snd (scheduleEvent i t d))"
  by (auto simp: later_def scheduleEvent_def Let_def upd_thread_def notify_def nth_append)

lemma stopped_later: "later d (stopEvent eid d)"
proof (cases "dp_refs d eid")
  case (Some q)
  have "(dp_heap d)[q := (dp_heap d ! q)\<lparr>tk_func := None\<rparr>] ! p = dp_heap d ! p \<or>
      (dp_heap d)[q := (dp_heap d ! q)\<lparr>tk_func := None\<rparr>] ! p = (dp_heap d ! p)\<lparr>tk_func := None\<rparr>"
    if "p < length (dp_heap d)" for p using that by (cases "p = q") simp_all
  then show ?thesis using Some by (simp add: later_def stopEvent_def)
qed (simp add: stopEvent_def)

lemma handed_later: "later d (addEvent i f n d)" "later d (asyncEvent i f d)"
  by (simp_all add: later_def)

lemma scheduled_log [simp]: "dp_log (snd (scheduleEvent i t d)) = dp_log d"
  by (simp add: scheduleEvent_def Let_def upd_thread_def notify_def)

lemma stopped_log [simp]: "dp_log (stopEvent eid d) = dp_log d"
  by (simp add: stopEvent_def split: option.split)

lemma run_later:
  shows "later d (run_action cx p f d)" and "later d (run_command cx c d)" and "later d (run_commands cx cs d)"
proof (induction cx p f d and cx c d and cx cs d rule: run_action_run_command_run_commands.induct)
  case (1 cx p n cmds d)
  have "later d (d\<lparr>dp_log := l\<rparr>)" for l by (simp add: later_def)
  then show ?case using 1 later_trans by (simp only: run_action.simps) blast
next
  case (8 cx c cs d)
  then show ?case using later_trans by auto
qed (simp_all add: scheduled_later stopped_later handed_later)

lemma run_runs:
  shows "runs (run_action cx p f d) = runs d @ (case p of None \<Rightarrow> [] | Some q \<Rightarrow> [q])"
    and "runs (run_command cx c d) = runs d" and "runs (run_commands cx cs d) = runs d"
proof (induction cx p f d and cx c d and cx cs d rule: run_action_run_command_run_commands.induct)
  case (1 cx p n cmds d)
  then show ?case by (simp add: runs_def map_filter_def split: option.split)
qed (auto simp: runs_def)

subsection \<open>The tasks with a time\<close>

definition queued :: "dispatcher \<Rightarrow> nat list" where
  "queued d = concat (map th_scheduled (dp_threads d))"

text \<open>The tasks that are still to come are the addresses \<open>xs\<close> and those in the queues of the threads. Each
  is there once, and one that is not cancelled is found under its number.\<close>

definition sched_inv :: "nat list \<Rightarrow> dispatcher \<Rightarrow> bool" where
  "sched_inv xs d \<longleftrightarrow> unat (dp_lastId d) = length (dp_heap d) \<and>
     (\<forall>p<length (dp_heap d). unat (tk_id (dp_heap d ! p)) = Suc p \<and> tk_expiration (dp_heap d ! p) = 0) \<and>
     (\<forall>i p. dp_refs d i = Some p \<longrightarrow> p < length (dp_heap d) \<and> tk_id (dp_heap d ! p) = i) \<and>
     (\<forall>p\<in>set xs \<union> set (queued d). p < length (dp_heap d) \<and>
        (tk_func (dp_heap d ! p) \<noteq> None \<longrightarrow> dp_refs d (tk_id (dp_heap d ! p)) = Some p)) \<and>
     distinct (xs @ queued d)"

lemma queued_same:
  assumes "\<And>t. th_scheduled (f t) = th_scheduled t"
  shows "concat (map th_scheduled (ths[i := f (ths ! i)])) = concat (map th_scheduled ths)"
  by (simp add: map_update assms list_update_beyond) (metis assms list_update_id map_update nth_map list_update_beyond not_less length_map)

lemma queued_handed [simp]: "queued (addEvent i f n d) = queued d" "queued (asyncEvent i f d) = queued d"
  by (simp_all add: queued_def addEvent_def asyncEvent_def upd_thread_def notify_def queued_same)

lemma handed_inv: "sched_inv xs (addEvent i f n d) = sched_inv xs d" "sched_inv xs (asyncEvent i f d) = sched_inv xs d"
  by (simp_all add: sched_inv_def)

lemma queued_add:
  "i < length ths \<Longrightarrow> mset (concat (map th_scheduled (ths[i := (ths ! i)\<lparr>th_scheduled := th_scheduled (ths ! i) @ [p]\<rparr>]))) =
    add_mset p (mset (concat (map th_scheduled ths)))"
proof (induction ths arbitrary: i)
  case (Cons t ths)
  then show ?case by (cases i) (simp_all add: union_assoc)
qed simp

lemma queued_put:
  assumes "i < length (dp_threads d)"
  shows "mset (queued (upd_thread i (\<lambda>t. t\<lparr>th_scheduled := th_scheduled t @ [p]\<rparr>) d)) = add_mset p (mset (queued d))"
  using queued_add [OF assms, of p] by (simp add: queued_def upd_thread_def)

lemma put_members:
  assumes "mset l' = add_mset p (mset l)"
  shows "set l' = insert p (set l)" and "distinct (xs @ l') \<longleftrightarrow> distinct (xs @ l) \<and> p \<notin> set xs \<union> set l"
proof -
  show s: "set l' = insert p (set l)" using assms by (metis set_mset_add_mset_insert set_mset_mset)
  have "mset (xs @ l') = mset (p # xs @ l)" using assms by simp
  then have "distinct (xs @ l') = distinct (p # xs @ l)" by (rule mset_eq_imp_distinct_iff)
  then show "distinct (xs @ l') \<longleftrightarrow> distinct (xs @ l) \<and> p \<notin> set xs \<union> set l" by auto
qed

lemma next_id_fresh:
  assumes "unat (dp_lastId d) = length (dp_heap d)" and "Suc (length (dp_heap d)) < 2 ^ 64"
  shows "unat (next_id d) = Suc (length (dp_heap d))"
proof -
  have "unat (dp_lastId d + 1) = Suc (length (dp_heap d))" using assms by (simp add: unat_word_ariths)
  moreover then have "dp_lastId d + 1 \<noteq> 0" by (metis Zero_not_Suc unat_0)
  ultimately show ?thesis by (simp add: next_id_def)
qed

lemma schedule_inv:
  assumes "sched_inv xs d" and "i < length (dp_threads d)" and "tk_expiration t = 0"
    and "length (dp_heap (snd (scheduleEvent i t d))) < 2 ^ 64"
  shows "sched_inv xs (snd (scheduleEvent i t d))"
proof -
  let ?p = "length (dp_heap d)" and ?eid = "next_id d"
  let ?h = "dp_heap d @ [t\<lparr>tk_id := ?eid\<rparr>]"
  define d' where "d' = snd (scheduleEvent i t d)"
  have small: "Suc ?p < 2 ^ 64" using assms(4) by (simp add: scheduleEvent_def Let_def upd_thread_def notify_def)
  have eid: "unat ?eid = Suc ?p" using next_id_fresh [OF _ small] assms(1) by (simp add: sched_inv_def)
  have old: "tk_id (dp_heap d ! q) \<noteq> ?eid" if "q < ?p" for q
    using assms(1) eid that by (auto simp: sched_inv_def)
  have fresh: "dp_refs d ?eid = None"
  proof (cases "dp_refs d ?eid")
    case (Some q)
    then have "q < ?p" "tk_id (dp_heap d ! q) = ?eid" using assms(1) by (auto simp: sched_inv_def)
    then show ?thesis using old by blast
  qed
  have heap: "dp_heap d' = ?h" and last: "dp_lastId d' = ?eid" and refs: "dp_refs d' = (dp_refs d)(?eid \<mapsto> ?p)"
    by (simp_all add: d'_def scheduleEvent_def Let_def upd_thread_def notify_def fresh)
  have "queued d' = queued (upd_thread i (\<lambda>t. t\<lparr>th_scheduled := th_scheduled t @ [?p]\<rparr>) d)"
    by (simp add: d'_def scheduleEvent_def Let_def upd_thread_def notify_def queued_def)
  then have q: "mset (queued d') = add_mset ?p (mset (queued d))" using queued_put [OF assms(2)] by simp
  have new: "?p \<notin> set xs \<union> set (queued d)" using assms(1) by (auto simp: sched_inv_def)
  show ?thesis unfolding d'_def [symmetric] sched_inv_def
  proof (intro conjI ballI allI impI)
    show "unat (dp_lastId d') = length (dp_heap d')" by (simp add: heap last eid)
    show "distinct (xs @ queued d')" using put_members(2) [OF q, of xs] new assms(1) by (simp add: sched_inv_def)
  next
    fix q assume "q < length (dp_heap d')"
    then show "unat (tk_id (dp_heap d' ! q)) = Suc q" "tk_expiration (dp_heap d' ! q) = 0"
      using assms(1,3) eid by (auto simp: heap nth_append sched_inv_def less_Suc_eq)
  next
    fix j q assume "dp_refs d' j = Some q"
    then have "j = ?eid \<and> q = ?p \<or> q < ?p \<and> tk_id (dp_heap d ! q) = j"
      using assms(1) by (auto simp: refs sched_inv_def split: if_splits)
    then show "q < length (dp_heap d')" "tk_id (dp_heap d' ! q) = j" by (auto simp: heap nth_append)
  next
    fix q assume "q \<in> set xs \<union> set (queued d')"
    then have q': "q = ?p \<or> q < ?p \<and> q \<in> set xs \<union> set (queued d)"
      using put_members(1) [OF q] assms(1) unfolding sched_inv_def by blast
    then show "q < length (dp_heap d')" by (auto simp: heap)
    assume "tk_func (dp_heap d' ! q) \<noteq> None"
    then show "dp_refs d' (tk_id (dp_heap d' ! q)) = Some q"
      using q' assms(1) old by (auto simp: heap refs nth_append sched_inv_def)
  qed
qed

lemma stop_inv:
  assumes "sched_inv xs d"
  shows "sched_inv xs (stopEvent eid d)"
proof (cases "dp_refs d eid")
  case (Some p)
  let ?h = "(dp_heap d)[p := (dp_heap d ! p)\<lparr>tk_func := None\<rparr>]"
  have p: "p < length (dp_heap d)" "tk_id (dp_heap d ! p) = eid" using assms Some by (auto simp: sched_inv_def)
  have h: "tk_id (?h ! q) = tk_id (dp_heap d ! q)" "tk_expiration (?h ! q) = tk_expiration (dp_heap d ! q)"
      "tk_func (?h ! q) = (if q = p then None else tk_func (dp_heap d ! q))" if "q < length (dp_heap d)" for q
    using that by (cases "q = p"; simp)+
  have other: "tk_id (dp_heap d ! q) \<noteq> eid" if "q < length (dp_heap d)" "q \<noteq> p" for q
  proof
    assume "tk_id (dp_heap d ! q) = eid"
    then have "Suc q = Suc p" using assms p that(1) unfolding sched_inv_def by metis
    then show False using that(2) by simp
  qed
  have eq: "stopEvent eid d = d\<lparr>dp_heap := ?h, dp_refs := (dp_refs d)(eid := None)\<rparr>" by (simp add: stopEvent_def Some)
  show ?thesis unfolding eq sched_inv_def
  proof (intro conjI ballI allI impI, goal_cases)
    case (6 q)
    then show ?case using assms by (simp add: sched_inv_def queued_def)
  next
    case (7 q)
    then have "q < length (dp_heap d)" "q \<in> set xs \<union> set (queued d)" using assms by (auto simp: sched_inv_def queued_def)
    then show ?case using 7 h other assms by (auto simp: sched_inv_def split: if_splits)
  qed (use assms h in \<open>auto simp: sched_inv_def queued_def split: if_splits\<close>)
qed (use assms in \<open>simp add: stopEvent_def\<close>)

lemma run_inv:
  shows "sched_inv xs d \<Longrightarrow> cx_thread cx < length (dp_threads d) \<Longrightarrow> length (dp_heap (run_action cx p f d)) < 2 ^ 64 \<Longrightarrow>
      sched_inv xs (run_action cx p f d)"
    and "sched_inv xs d \<Longrightarrow> cx_thread cx < length (dp_threads d) \<Longrightarrow> length (dp_heap (run_command cx c d)) < 2 ^ 64 \<Longrightarrow>
      sched_inv xs (run_command cx c d)"
    and "sched_inv xs d \<Longrightarrow> cx_thread cx < length (dp_threads d) \<Longrightarrow> length (dp_heap (run_commands cx cs d)) < 2 ^ 64 \<Longrightarrow>
      sched_inv xs (run_commands cx cs d)"
proof (induction cx p f d and cx c d and cx cs d rule: run_action_run_command_run_commands.induct)
  case (1 cx p n cmds d)
  have "sched_inv xs (d\<lparr>dp_log := l\<rparr>)" for l using 1(2) by (simp add: sched_inv_def queued_def)
  then show ?case using 1 by simp
next
  case (3 cx delay cycle f d)
  then show ?case using schedule_inv [OF 3(1,2), of "new_timed d f delay cycle"] by (simp add: new_timed_def)
next
  case (8 cx c cs d)
  have "length (dp_heap (run_command cx c d)) \<le> length (dp_heap (run_commands cx cs (run_command cx c d)))"
      "length (dp_threads (run_command cx c d)) = length (dp_threads d)"
    using run_later(3) [of "run_command cx c d" cx cs] run_later(2) [of d cx c] by (simp_all add: later_def)
  then show ?case using 8 by simp
next
  case (5 cx f d)
  then show ?case by (cases "isAsync cx") (simp_all add: handed_inv)
qed (simp_all add: stop_inv handed_inv)

lemma execute_task_cases:
  assumes "execute_task cx p t d = (ok, d')"
  obtains (refused) "\<not> ok" "d' = d" "tk_func t = None \<or> hasExpired d t"
    | (ran) f where "ok" "tk_func t = Some f" "d' = run_action cx p f d"
  using assms by (auto simp: execute_task_def split: option.splits if_splits)

subsection \<open>The loop over the tasks with a time\<close>

lemma upd_thread_simps [simp]:
  "dp_heap (upd_thread i f d) = dp_heap d" "dp_now (upd_thread i f d) = dp_now d" "dp_scheduled (upd_thread i f d) = dp_scheduled d"
  "dp_refs (upd_thread i f d) = dp_refs d" "dp_lastId (upd_thread i f d) = dp_lastId d" "dp_log (upd_thread i f d) = dp_log d"
  "length (dp_threads (upd_thread i f d)) = length (dp_threads d)"
  by (simp_all add: upd_thread_def)

definition requeue :: "nat \<Rightarrow> nat \<Rightarrow> sched_task \<Rightarrow> dispatcher \<Rightarrow> dispatcher" where
  "requeue i p t d = upd_thread i (\<lambda>th. th\<lparr>th_scheduled := th_scheduled th @ [p]\<rparr>)
     (d\<lparr>dp_heap := (dp_heap d)[p := (dp_heap d ! p)\<lparr>tk_utime := dp_now d + uint (tk_delay t)\<rparr>]\<rparr>)"

definition release :: "sched_task \<Rightarrow> dispatcher \<Rightarrow> dispatcher" where
  "release t d = d\<lparr>dp_refs := (dp_refs d)(tk_id t := None)\<rparr>"

lemma requeue_inv:
  assumes "sched_inv (p # xs) d" and "i < length (dp_threads d)"
  shows "sched_inv xs (requeue i p t d)"
proof -
  let ?h = "(dp_heap d)[p := (dp_heap d ! p)\<lparr>tk_utime := dp_now d + uint (tk_delay t)\<rparr>]"
  have p: "p < length (dp_heap d)" using assms(1) by (simp add: sched_inv_def)
  have h: "tk_id (?h ! q) = tk_id (dp_heap d ! q)" "tk_expiration (?h ! q) = tk_expiration (dp_heap d ! q)"
      "tk_func (?h ! q) = tk_func (dp_heap d ! q)" if "q < length (dp_heap d)" for q
    using that by (cases "q = p"; simp)+
  have q: "mset (queued (requeue i p t d)) = add_mset p (mset (queued d))"
    using queued_put [of i "d\<lparr>dp_heap := ?h\<rparr>" p] assms(2) by (simp add: requeue_def queued_def upd_thread_def)
  have set: "set (queued (requeue i p t d)) = insert p (set (queued d))"
    and dist: "distinct (xs @ queued (requeue i p t d))"
    using put_members [OF q] put_members(2) [OF q, of xs] assms(1) by (auto simp: sched_inv_def)
  have parts: "dp_heap (requeue i p t d) = ?h" "dp_refs (requeue i p t d) = dp_refs d" "dp_lastId (requeue i p t d) = dp_lastId d"
    by (simp_all add: requeue_def)
  have members: "set xs \<union> set (queued (requeue i p t d)) = set (p # xs) \<union> set (queued d)" unfolding set by auto
  show ?thesis
    unfolding sched_inv_def members parts using assms(1) h dist by (auto simp: sched_inv_def)
qed

lemma release_inv:
  assumes "sched_inv (p # xs) d" and "tk_id t = tk_id (dp_heap d ! p)"
  shows "sched_inv xs (release t d)"
proof -
  have p: "p < length (dp_heap d)" "p \<notin> set xs \<union> set (queued d)" using assms(1) by (auto simp: sched_inv_def)
  have other: "tk_id (dp_heap d ! q) \<noteq> tk_id t" if "q < length (dp_heap d)" "q \<noteq> p" for q
  proof
    assume "tk_id (dp_heap d ! q) = tk_id t"
    then have "Suc q = Suc p" using assms p that(1) unfolding sched_inv_def by metis
    then show False using that(2) by simp
  qed
  have parts: "dp_heap (release t d) = dp_heap d" "dp_refs (release t d) = (dp_refs d)(tk_id t := None)"
      "dp_lastId (release t d) = dp_lastId d" "queued (release t d) = queued d"
    by (simp_all add: release_def queued_def)
  have "q \<noteq> p" if "q \<in> set xs \<union> set (queued d)" for q using p(2) that by blast
  then show ?thesis
    unfolding sched_inv_def parts using assms(1) other by (auto simp: sched_inv_def split: if_splits)
qed

text \<open>What stays of the tasks over a loop: only the tasks \<open>D\<close> that were due can have a new time.\<close>

definition task_kept :: "bool \<Rightarrow> sched_task \<Rightarrow> sched_task \<Rightarrow> bool" where
  "task_kept same_time t t' \<longleftrightarrow> tk_func t' \<in> {tk_func t, None} \<and> tk_cycle t' = tk_cycle t \<and> tk_id t' = tk_id t \<and>
     (same_time \<longrightarrow> tk_utime t' = tk_utime t)"

lemma task_kept_refl [simp]: "task_kept b t t"
  by (simp add: task_kept_def)

lemma task_kept_trans: "task_kept b t u \<Longrightarrow> task_kept b u v \<Longrightarrow> task_kept b t v"
  by (auto simp: task_kept_def)

lemma task_kept_mono: "task_kept b t u \<Longrightarrow> (c \<longrightarrow> b) \<Longrightarrow> task_kept c t u"
  by (auto simp: task_kept_def)

definition keeps_tasks :: "nat set \<Rightarrow> dispatcher \<Rightarrow> dispatcher \<Rightarrow> bool" where
  "keeps_tasks D d d' \<longleftrightarrow> length (dp_heap d) \<le> length (dp_heap d') \<and>
     (\<forall>p<length (dp_heap d). task_kept (p \<notin> D) (dp_heap d ! p) (dp_heap d' ! p)) \<and>
     dp_now d' = dp_now d \<and> dp_scheduled d' = dp_scheduled d \<and> length (dp_threads d') = length (dp_threads d)"

lemma keeps_refl [simp]: "keeps_tasks D d d"
  by (simp add: keeps_tasks_def)

lemma keepsD:
  assumes "keeps_tasks D d d'"
  shows "length (dp_heap d) \<le> length (dp_heap d')" and "p < length (dp_heap d) \<Longrightarrow> task_kept (p \<notin> D) (dp_heap d ! p) (dp_heap d' ! p)"
    and "dp_now d' = dp_now d" and "dp_scheduled d' = dp_scheduled d" and "length (dp_threads d') = length (dp_threads d)"
  using assms unfolding keeps_tasks_def by blast+

lemma keepsI:
  assumes "length (dp_heap d) \<le> length (dp_heap d')" and "\<And>p. p < length (dp_heap d) \<Longrightarrow> task_kept (p \<notin> D) (dp_heap d ! p) (dp_heap d' ! p)"
    and "dp_now d' = dp_now d" and "dp_scheduled d' = dp_scheduled d" and "length (dp_threads d') = length (dp_threads d)"
  shows "keeps_tasks D d d'"
  using assms unfolding keeps_tasks_def by blast

lemma keeps_mono:
  assumes "keeps_tasks D d d'" and "D \<subseteq> E"
  shows "keeps_tasks E d d'"
proof (rule keepsI)
  fix p assume "p < length (dp_heap d)"
  then show "task_kept (p \<notin> E) (dp_heap d ! p) (dp_heap d' ! p)"
    by (rule task_kept_mono [OF keepsD(2) [OF assms(1)]]) (use assms(2) in auto)
qed (rule keepsD [OF assms(1)])+

lemma keeps_trans:
  assumes "keeps_tasks D a b" and "keeps_tasks D b c"
  shows "keeps_tasks D a c"
proof (rule keepsI)
  fix p assume p: "p < length (dp_heap a)"
  then have "p < length (dp_heap b)" using keepsD(1) [OF assms(1)] by simp
  then show "task_kept (p \<notin> D) (dp_heap a ! p) (dp_heap c ! p)"
    by (rule task_kept_trans [OF keepsD(2) [OF assms(1) p] keepsD(2) [OF assms(2)]])
next
  show "length (dp_heap a) \<le> length (dp_heap c)" using keepsD(1) [OF assms(1)] keepsD(1) [OF assms(2)] by (rule order_trans)
qed (simp_all add: keepsD(3,4,5) [OF assms(1)] keepsD(3,4,5) [OF assms(2)])

lemma later_keeps:
  assumes "later d d'"
  shows "keeps_tasks D d d'"
proof (rule keepsI)
  fix p assume "p < length (dp_heap d)"
  then have "dp_heap d' ! p = dp_heap d ! p \<or> dp_heap d' ! p = (dp_heap d ! p)\<lparr>tk_func := None\<rparr>"
    using assms unfolding later_def by blast
  then show "task_kept (p \<notin> D) (dp_heap d ! p) (dp_heap d' ! p)" by (elim disjE) (simp_all add: task_kept_def)
qed (use assms in \<open>simp_all add: later_def\<close>)

lemma execute_keeps:
  assumes "execute_task cx p t d = (ok, d')"
  shows "keeps_tasks D d d'"
proof (cases rule: execute_task_cases [OF assms, case_names refused ran])
  case (ran f)
  show ?thesis unfolding ran(3) by (rule later_keeps [OF run_later(1)])
qed simp

lemma requeue_keeps: "p \<in> D \<Longrightarrow> keeps_tasks D d (requeue i p t d)"
proof (rule keepsI)
  let ?h = "(dp_heap d)[p := (dp_heap d ! p)\<lparr>tk_utime := dp_now d + uint (tk_delay t)\<rparr>]"
  fix q assume p: "p \<in> D" and q: "q < length (dp_heap d)"
  have "task_kept (q \<notin> D) (dp_heap d ! q) (?h ! q)" using p q by (cases "q = p") (simp_all add: task_kept_def)
  then show "task_kept (q \<notin> D) (dp_heap d ! q) (dp_heap (requeue i p t d) ! q)" by (simp add: requeue_def)
qed (simp_all add: requeue_def)

lemma release_keeps: "keeps_tasks D d (release t d)"
  by (simp add: keeps_tasks_def release_def)

definition timed_context :: "nat \<Rightarrow> sched_task \<Rightarrow> dispatcher_context" where
  "timed_context i t = \<lparr>cx_group = Group_Serial, cx_type = (if tk_cycle t then Type_CycleEvent else Type_ScheduledEvent), cx_thread = i\<rparr>"

lemma scheduled_loop_step:
  assumes "\<not> tk_utime (dp_heap d ! p) > dp_now d" and "execute_task (timed_context i (dp_heap d ! p)) (Some p) (dp_heap d ! p) d = (ok, d1)"
  shows "scheduled_loop i (p # ps) d = scheduled_loop i ps
    (if ok \<and> tk_cycle (dp_heap d ! p) then requeue i p (dp_heap d ! p) d1 else release (dp_heap d ! p) d1)"
  using assms by (simp add: Let_def timed_context_def requeue_def release_def)

lemma scheduled_loop_stop: "tk_utime (dp_heap d ! p) > dp_now d \<Longrightarrow> scheduled_loop i (p # ps) d = (p # ps, d)"
  by (simp add: Let_def)

declare scheduled_loop.simps(2) [simp del]

lemma scheduled_loop_keeps:
  "scheduled_loop i ps d = (rest, d') \<Longrightarrow> keeps_tasks (set ps) d d'"
proof (induction ps arbitrary: d)
  case (Cons p ps)
  show ?case
  proof (cases "tk_utime (dp_heap d ! p) > dp_now d")
    case True
    then show ?thesis using Cons.prems by (simp add: scheduled_loop_stop)
  next
    case False
    obtain ok d1 where ex: "execute_task (timed_context i (dp_heap d ! p)) (Some p) (dp_heap d ! p) d = (ok, d1)" by fastforce
    define d2 where "d2 = (if ok \<and> tk_cycle (dp_heap d ! p) then requeue i p (dp_heap d ! p) d1 else release (dp_heap d ! p) d1)"
    have "keeps_tasks (set (p # ps)) d1 d2" unfolding d2_def using requeue_keeps release_keeps by simp
    moreover have "scheduled_loop i ps d2 = (rest, d')"
      using Cons.prems unfolding scheduled_loop_step [OF False ex] d2_def .
    then have "keeps_tasks (set (p # ps)) d2 d'" by (rule keeps_mono [OF Cons.IH]) auto
    ultimately have "keeps_tasks (set (p # ps)) d1 d'" by (rule keeps_trans)
    then show ?thesis by (rule keeps_trans [OF execute_keeps [OF ex]])
  qed
qed simp

lemma runs_frames [simp]: "runs (requeue i p t d) = runs d" "runs (release t d) = runs d"
  by (simp_all add: runs_def requeue_def release_def)

text \<open>Only new tasks and the due ones enter the queues of the threads.\<close>

definition enqueues :: "nat set \<Rightarrow> dispatcher \<Rightarrow> dispatcher \<Rightarrow> bool" where
  "enqueues D d d' \<longleftrightarrow> set (queued d') \<subseteq> set (queued d) \<union> D \<union> {q. length (dp_heap d) \<le> q}"

lemma enqueues_refl [simp]: "enqueues D d d"
  by (auto simp: enqueues_def)

lemma enqueues_trans:
  "enqueues D a b \<Longrightarrow> enqueues E b c \<Longrightarrow> length (dp_heap a) \<le> length (dp_heap b) \<Longrightarrow> enqueues (D \<union> E) a c"
  unfolding enqueues_def by (auto dest: subsetD)

lemma put_enqueues: "set (queued (upd_thread i (\<lambda>th. th\<lparr>th_scheduled := th_scheduled th @ [p]\<rparr>) d)) \<subseteq> insert p (set (queued d))"
proof (cases "i < length (dp_threads d)")
  case True
  then show ?thesis using put_members(1) [OF queued_put [OF True]] by simp
qed (auto simp: queued_def upd_thread_def list_update_beyond)

lemma schedule_enqueues: "enqueues {} d (snd (scheduleEvent i t d))"
proof -
  have "queued (snd (scheduleEvent i t d)) = queued (upd_thread i (\<lambda>th. th\<lparr>th_scheduled := th_scheduled th @ [length (dp_heap d)]\<rparr>) d)"
    by (simp add: scheduleEvent_def Let_def upd_thread_def notify_def queued_def)
  then show ?thesis using put_enqueues [of i "length (dp_heap d)" d] by (auto simp: enqueues_def)
qed

lemma stop_queued [simp]: "queued (stopEvent eid d) = queued d"
  by (simp add: stopEvent_def queued_def split: option.split)

lemma run_enqueues:
  shows "enqueues {} d (run_action cx p f d)" and "enqueues {} d (run_command cx c d)" and "enqueues {} d (run_commands cx cs d)"
proof (induction cx p f d and cx c d and cx cs d rule: run_action_run_command_run_commands.induct)
  case (1 cx p n cmds d)
  then show ?case by (simp add: enqueues_def queued_def)
next
  case (8 cx c cs d)
  have "length (dp_heap d) \<le> length (dp_heap (run_command cx c d))" using run_later(2) by (simp add: later_def)
  then show ?case using enqueues_trans [OF 8(1,2)] by simp
qed (simp_all add: schedule_enqueues, simp_all add: enqueues_def)

lemma execute_enqueues:
  assumes "execute_task cx p t d = (ok, d')"
  shows "enqueues {} d d'"
  by (cases rule: execute_task_cases [OF assms]) (simp_all add: run_enqueues)

lemma requeue_enqueues: "enqueues {p} d (requeue i p t d)"
  using put_enqueues [of i p "d\<lparr>dp_heap := (dp_heap d)[p := (dp_heap d ! p)\<lparr>tk_utime := dp_now d + uint (tk_delay t)\<rparr>]\<rparr>"]
  by (auto simp: enqueues_def requeue_def queued_def)

lemma release_enqueues: "enqueues D d (release t d)"
  by (auto simp: enqueues_def release_def queued_def)

text \<open>The due tasks are a prefix of the queue; those that were not cancelled ran, in this order.\<close>

lemma scheduled_loop_result:
  assumes "scheduled_loop i ps d = (rest, d')" and "sched_inv ps d" and "i < length (dp_threads d)" and "length (dp_heap d') < 2 ^ 64"
  shows "\<exists>due ran. ps = due @ rest \<and> (\<forall>p\<in>set due. tk_utime (dp_heap d ! p) \<le> dp_now d) \<and>
    (rest \<noteq> [] \<longrightarrow> dp_now d < tk_utime (dp_heap d ! hd rest)) \<and> sched_inv rest d' \<and>
    runs d' = runs d @ ran \<and> ran = filter (\<lambda>p. p \<in> set ran) due \<and> (\<forall>p\<in>set due - set ran. tk_func (dp_heap d' ! p) = None) \<and>
    keeps_tasks (set due) d d' \<and> enqueues (set due) d d' \<and> (\<forall>p\<in>set ran. tk_func (dp_heap d ! p) \<noteq> None)"
  using assms
proof (induction ps arbitrary: d)
  case Nil
  then show ?case by auto
next
  case (Cons p ps)
  let ?t = "dp_heap d ! p"
  show ?case
  proof (cases "tk_utime ?t > dp_now d")
    case True
    then have "rest = p # ps" "d' = d" using Cons.prems(1) by (simp_all add: scheduled_loop_stop)
    then show ?thesis using Cons.prems(2) True by (intro exI [of _ "[]"]) simp
  next
    case False
    obtain ok d1 where ex: "execute_task (timed_context i ?t) (Some p) ?t d = (ok, d1)" by fastforce
    define d2 where "d2 = (if ok \<and> tk_cycle ?t then requeue i p ?t d1 else release ?t d1)"
    have loop: "scheduled_loop i ps d2 = (rest, d')" using Cons.prems(1) unfolding scheduled_loop_step [OF False ex] d2_def .
    have p: "p < length (dp_heap d)" "p \<notin> set ps" "tk_expiration ?t = 0" using Cons.prems(2) by (auto simp: sched_inv_def)
    have k1: "keeps_tasks {} d d1" using execute_keeps [OF ex] .
    have k2: "keeps_tasks {p} d1 d2" unfolding d2_def using requeue_keeps release_keeps by simp
    have k3: "keeps_tasks (set ps) d2 d'" using scheduled_loop_keeps [OF loop] .
    have len: "length (dp_heap d1) < 2 ^ 64" "length (dp_threads d1) = length (dp_threads d)" "length (dp_threads d2) = length (dp_threads d)"
        "p < length (dp_heap d1)" "p < length (dp_heap d2)" "dp_now d2 = dp_now d"
      using keepsD(1,3,5) [OF k1] keepsD(1,3,5) [OF k2] keepsD(1,3,5) [OF k3] Cons.prems(4) p(1) by simp_all
    have inv1: "sched_inv (p # ps) d1"
    proof (cases rule: execute_task_cases [OF ex, case_names refused ran])
      case (ran f)
      then show ?thesis using run_inv(1) [OF Cons.prems(2), of "timed_context i ?t" "Some p" f] len(1) Cons.prems(3)
        by (simp add: timed_context_def)
    qed (use Cons.prems(2) in simp)
    have "tk_id ?t = tk_id (dp_heap d1 ! p)" using keepsD(2) [OF k1 p(1)] by (simp add: task_kept_def)
    then have inv2: "sched_inv ps d2"
      unfolding d2_def using requeue_inv [OF inv1] release_inv [OF inv1] len(2) Cons.prems(3) by simp
    obtain due ran where IH: "ps = due @ rest" "\<forall>p\<in>set due. tk_utime (dp_heap d2 ! p) \<le> dp_now d2"
        "rest \<noteq> [] \<longrightarrow> dp_now d2 < tk_utime (dp_heap d2 ! hd rest)" "sched_inv rest d'" "runs d' = runs d2 @ ran"
        "ran = filter (\<lambda>p. p \<in> set ran) due" "\<forall>p\<in>set due - set ran. tk_func (dp_heap d' ! p) = None"
        "keeps_tasks (set due) d2 d'" "enqueues (set due) d2 d'" "\<forall>p\<in>set ran. tk_func (dp_heap d2 ! p) \<noteq> None"
      using Cons.IH [OF loop inv2 _ Cons.prems(4)] len(3) Cons.prems(3) by auto
    have same: "tk_utime (dp_heap d2 ! q) = tk_utime (dp_heap d ! q)" if "q \<in> set ps" for q
    proof -
      have "q < length (dp_heap d)" "q \<noteq> p" using that Cons.prems(2) by (auto simp: sched_inv_def)
      moreover then have "q < length (dp_heap d1)" using keepsD(1) [OF k1] by simp
      ultimately show ?thesis using keepsD(2) [OF k1] keepsD(2) [OF k2] by (simp add: task_kept_def)
    qed
    have notran: "p \<notin> set ran" proof
      assume "p \<in> set ran"
      then have "p \<in> set (filter (\<lambda>p. p \<in> set ran) due)" using IH(6) by simp
      then show False using IH(1) p(2) by simp
    qed
    have first: "(\<forall>q\<in>set (p # due). tk_utime (dp_heap d ! q) \<le> dp_now d) \<and> (rest \<noteq> [] \<longrightarrow> dp_now d < tk_utime (dp_heap d ! hd rest))"
      using IH(1,2,3) same False len(6) by (cases rest) auto
    have "keeps_tasks (insert p (set due)) d d1" using keeps_mono [OF k1] by simp
    moreover have "keeps_tasks (insert p (set due)) d1 d'"
      using keeps_trans [OF keeps_mono [OF k2] keeps_mono [OF IH(8)]] by blast
    ultimately have kept: "keeps_tasks (set (p # due)) d d'" using keeps_trans by auto
    have "enqueues {p} d1 d2" unfolding d2_def using requeue_enqueues release_enqueues by simp
    then have "enqueues ({} \<union> ({p} \<union> set due)) d d'"
      using enqueues_trans [OF execute_enqueues [OF ex] enqueues_trans [OF _ IH(9)]] keepsD(1) [OF k1] keepsD(1) [OF k2] by blast
    then have fresh: "enqueues (set (p # due)) d d'" by simp
    have live: "tk_func (dp_heap d ! q) \<noteq> None" if "q \<in> set ran" for q
    proof -
      have "q \<in> set (filter (\<lambda>p. p \<in> set ran) due)" using IH(6) that by simp
      then have q: "q < length (dp_heap d)" using IH(1) Cons.prems(2) by (auto simp: sched_inv_def)
      then have "q < length (dp_heap d1)" using keepsD(1) [OF k1] by simp
      then show ?thesis using IH(10) that keepsD(2) [OF k1 q] keepsD(2) [OF k2] by (fastforce simp: task_kept_def)
    qed
    show ?thesis
    proof (cases ok)
      case True
      have some: "tk_func ?t \<noteq> None" by (cases rule: execute_task_cases [OF ex]) (use True in auto)
      have "runs d1 = runs d @ [p]"
        by (cases rule: execute_task_cases [OF ex]) (use True run_runs(1) in auto)
      then have "runs d' = runs d @ p # ran" using IH(5) by (simp add: d2_def)
      moreover have "p # ran = filter (\<lambda>q. q \<in> set (p # ran)) (p # due)"
      proof -
        have "filter (\<lambda>q. q \<in> set (p # ran)) due = filter (\<lambda>q. q \<in> set ran) due"
          using IH(1) p(2) by (intro filter_cong) auto
        then show ?thesis using IH(6) by simp
      qed
      ultimately show ?thesis using IH(1,4,7) first kept fresh live some by (intro exI [of _ "p # due"] exI [of _ "p # ran"]) auto
    next
      case False
      have d1: "d1 = d" "tk_func ?t = None"
        by (cases rule: execute_task_cases [OF ex], use False p(3) in \<open>auto simp: hasExpired_def\<close>)+
      have "runs d' = runs d @ ran" using IH(5) d1(1) by (simp add: d2_def)
      moreover have "ran = filter (\<lambda>q. q \<in> set ran) (p # due)" using IH(6) notran by simp
      moreover have "tk_func (dp_heap d2 ! p) = None" using keepsD(2) [OF k2 len(4)] d1 by (simp add: task_kept_def)
      then have "tk_func (dp_heap d' ! p) = None" using keepsD(2) [OF k3 len(5)] by (simp add: task_kept_def)
      ultimately show ?thesis using IH(1,4,7) first kept fresh live by (intro exI [of _ "p # due"] exI [of _ ran]) auto
    qed
  qed
qed

subsection \<open>Turns of the main loop\<close>

definition disp_ok :: "dispatcher \<Rightarrow> bool" where
  "disp_ok d \<longleftrightarrow> sched_inv (dp_scheduled d) d \<and> sorted (map (\<lambda>p. tk_utime (dp_heap d ! p)) (dp_scheduled d))"

text \<open>What a part of a turn leaves as it is, besides the queues it works on.\<close>

lemma frames [simp]:
  "dp_heap (mergeAsyncEvents d) = dp_heap d" "dp_scheduled (mergeAsyncEvents d) = dp_scheduled d" "dp_now (mergeAsyncEvents d) = dp_now d"
  "queued (mergeAsyncEvents d) = queued d" "runs (mergeAsyncEvents d) = runs d" "dp_refs (mergeAsyncEvents d) = dp_refs d"
  "dp_lastId (mergeAsyncEvents d) = dp_lastId d" "length (dp_threads (mergeAsyncEvents d)) = length (dp_threads d)"
  by (simp_all add: mergeAsyncEvents_def queued_def runs_def comp_def)

text \<open>A step of the dispatcher that runs no task with a time.\<close>

definition quiet_step :: "dispatcher \<Rightarrow> dispatcher \<Rightarrow> bool" where
  "quiet_step d d' \<longleftrightarrow> keeps_tasks {} d d' \<and> enqueues {} d d' \<and> runs d' = runs d"

lemma quiet_refl [simp]: "quiet_step d d"
  by (simp add: quiet_step_def)

lemma quiet_trans: "quiet_step a b \<Longrightarrow> quiet_step b c \<Longrightarrow> quiet_step a c"
  unfolding quiet_step_def using keeps_trans enqueues_trans [of "{}" a b "{}" c] keepsD(1) [of "{}" a b] by auto

lemma execute_quiet: "quiet_step d (snd (execute_task cx None t d))"
proof -
  obtain ok d' where ex: "execute_task cx None t d = (ok, d')" by fastforce
  have "runs d' = runs d" by (cases rule: execute_task_cases [OF ex]) (simp_all add: run_runs)
  then show ?thesis using execute_keeps [OF ex] execute_enqueues [OF ex] ex by (simp add: quiet_step_def)
qed

lemma execute_inv:
  assumes "sched_inv xs d" and "cx_thread cx < length (dp_threads d)" and "length (dp_heap (snd (execute_task cx p t d))) < 2 ^ 64"
  shows "sched_inv xs (snd (execute_task cx p t d))"
proof -
  obtain ok d' where ex: "execute_task cx p t d = (ok, d')" by fastforce
  show ?thesis by (cases rule: execute_task_cases [OF ex]) (use assms ex run_inv(1) in auto)
qed

lemma quiet_update:
  assumes "dp_heap d' = dp_heap d" and "dp_now d' = dp_now d" and "dp_scheduled d' = dp_scheduled d" and "queued d' = queued d"
    and "runs d' = runs d" and "length (dp_threads d') = length (dp_threads d)"
  shows "quiet_step d d'"
  using assms by (simp add: quiet_step_def keeps_tasks_def enqueues_def)

lemma serial_loop_step:
  "serial_loop i (t # ts) d = serial_loop i ts
    (let r = execute_task \<lparr>cx_group = Group_Serial, cx_type = Type_Event, cx_thread = i\<rparr> None t d
     in if fst r then (snd r)\<lparr>dp_cycle := dp_cycle (snd r) + 1\<rparr> else snd r)"
  by (simp add: Let_def split: prod.split)

declare serial_loop.simps(2) [simp del]

lemma cycle_quiet: "quiet_step d (d\<lparr>dp_cycle := n\<rparr>)" "sched_inv xs (d\<lparr>dp_cycle := n\<rparr>) = sched_inv xs d"
  by (rule quiet_update) (simp_all add: queued_def runs_def sched_inv_def)

lemma serial_quiet: "quiet_step d (serial_loop i ts d)"
proof (induction ts arbitrary: d)
  case (Cons t ts)
  have "quiet_step d (if b then (snd (execute_task cx None t d))\<lparr>dp_cycle := n\<rparr> else snd (execute_task cx None t d))" for b cx n
    using execute_quiet cycle_quiet(1) quiet_trans by simp blast
  then show ?case unfolding serial_loop_step Let_def using Cons quiet_trans by blast
qed simp

lemma parallel_quiet: "quiet_step d (parallel_loop worker k ts d)"
proof (induction ts arbitrary: d k)
  case (Cons t ts)
  show ?case unfolding parallel_loop.simps using execute_quiet Cons quiet_trans by blast
qed simp

lemma serial_inv:
  assumes "sched_inv xs d" and "i < length (dp_threads d)" and "length (dp_heap (serial_loop i ts d)) < 2 ^ 64"
  shows "sched_inv xs (serial_loop i ts d)"
  using assms
proof (induction ts arbitrary: d)
  case (Cons t ts)
  define cx where "cx = \<lparr>cx_group = Group_Serial, cx_type = Type_Event, cx_thread = i\<rparr>"
  define d1 where "d1 = snd (execute_task cx None t d)"
  define d2 where "d2 = (if fst (execute_task cx None t d) then d1\<lparr>dp_cycle := dp_cycle d1 + 1\<rparr> else d1)"
  have step: "serial_loop i (t # ts) d = serial_loop i ts d2" unfolding serial_loop_step Let_def d2_def d1_def cx_def by (rule refl)
  have q1: "quiet_step d d1" unfolding d1_def by (rule execute_quiet)
  have same: "dp_heap d2 = dp_heap d1" "dp_threads d2 = dp_threads d1" by (simp_all add: d2_def)
  have "length (dp_heap d2) \<le> length (dp_heap (serial_loop i ts d2))"
    using serial_quiet [of d2 i ts] keepsD(1) by (auto simp: quiet_step_def)
  then have "length (dp_heap d1) < 2 ^ 64" using Cons.prems(3) unfolding step same by linarith
  then have "sched_inv xs d1" using execute_inv [OF Cons.prems(1), of cx None t] Cons.prems(2) by (simp add: d1_def cx_def)
  then have "sched_inv xs d2" using cycle_quiet(2) by (simp add: d2_def)
  moreover have "length (dp_threads d1) = length (dp_threads d)" using q1 keepsD(5) by (auto simp: quiet_step_def)
  ultimately show ?case unfolding step using Cons.IH [of d2] Cons.prems(2,3) same(2) by (simp add: step)
qed simp

lemma parallel_inv:
  assumes "sched_inv xs d" and "\<forall>k. worker k < length (dp_threads d)" and "length (dp_heap (parallel_loop worker k ts d)) < 2 ^ 64"
  shows "sched_inv xs (parallel_loop worker k ts d)"
  using assms
proof (induction ts arbitrary: d k)
  case (Cons t ts)
  define cx where "cx = \<lparr>cx_group = Group_GenericParallel, cx_type = Type_AsyncEvent, cx_thread = worker k\<rparr>"
  define d1 where "d1 = snd (execute_task cx None t d)"
  have step: "parallel_loop worker k (t # ts) d = parallel_loop worker (Suc k) ts d1" by (simp add: d1_def cx_def)
  have q1: "quiet_step d d1" unfolding d1_def by (rule execute_quiet)
  have "length (dp_heap d1) \<le> length (dp_heap (parallel_loop worker (Suc k) ts d1))"
    using parallel_quiet [of d1 worker "Suc k" ts] keepsD(1) by (auto simp: quiet_step_def)
  then have "length (dp_heap d1) < 2 ^ 64" using Cons.prems(3) unfolding step by linarith
  then have "sched_inv xs d1" using execute_inv [OF Cons.prems(1), of cx None t] Cons.prems(2) by (simp add: d1_def cx_def)
  moreover have "length (dp_threads d1) = length (dp_threads d)" using q1 keepsD(5) by (auto simp: quiet_step_def)
  ultimately show ?case unfolding step using Cons.IH [of d1 "Suc k"] Cons.prems(2) Cons.prems(3) [unfolded step] by simp
qed simp

lemma clear_quiet: "quiet_step d (d\<lparr>dp_serial := l\<rparr>)" "quiet_step d (d\<lparr>dp_parallel := l\<rparr>)"
    "sched_inv xs (d\<lparr>dp_serial := l\<rparr>) = sched_inv xs d" "sched_inv xs (d\<lparr>dp_parallel := l\<rparr>) = sched_inv xs d"
  by (rule quiet_update, simp_all add: queued_def runs_def)+ (simp_all add: sched_inv_def queued_def)

lemma merge_async_inv [simp]: "sched_inv xs (mergeAsyncEvents d) = sched_inv xs d"
  by (simp add: sched_inv_def)

lemma merge_async_quiet: "quiet_step d (mergeAsyncEvents d)"
  by (rule quiet_update) simp_all

lemma quiet_length: "quiet_step d d' \<Longrightarrow> length (dp_heap d) \<le> length (dp_heap d') \<and> length (dp_threads d') = length (dp_threads d) \<and>
    dp_scheduled d' = dp_scheduled d \<and> dp_now d' = dp_now d"
  using keepsD by (auto simp: quiet_step_def)

lemma executeSerial_quiet: "quiet_step d (executeSerialEvents i d)"
  unfolding executeSerialEvents_def by (rule quiet_trans [OF serial_quiet clear_quiet(1)])

lemma executeParallel_quiet: "quiet_step d (executeParallelEvents worker d)"
  unfolding executeParallelEvents_def by (rule quiet_trans [OF parallel_quiet clear_quiet(2)])

lemma executeEvents_quiet: "quiet_step d (executeEvents i worker b d)"
  unfolding executeEvents_def Let_def
  using quiet_trans [OF quiet_trans [OF executeSerial_quiet merge_async_quiet] executeParallel_quiet]
    quiet_trans [OF executeSerial_quiet merge_async_quiet] executeParallel_quiet
  by (simp split: if_split)

lemma executeSerial_inv:
  assumes "sched_inv xs d" and "i < length (dp_threads d)" and "length (dp_heap (executeSerialEvents i d)) < 2 ^ 64"
  shows "sched_inv xs (executeSerialEvents i d)"
  using serial_inv [OF assms(1,2), of "dp_serial d"] assms(3) clear_quiet(3) by (simp add: executeSerialEvents_def)

lemma executeParallel_inv:
  assumes "sched_inv xs d" and "\<forall>k. worker k < length (dp_threads d)" and "length (dp_heap (executeParallelEvents worker d)) < 2 ^ 64"
  shows "sched_inv xs (executeParallelEvents worker d)"
  using parallel_inv [OF assms(1,2), of 0 "dp_parallel d"] assms(3) clear_quiet(4) by (simp add: executeParallelEvents_def)

lemma executeEvents_inv:
  assumes "sched_inv xs d" and "i < length (dp_threads d)" and "\<forall>k. worker k < length (dp_threads d)"
    and "length (dp_heap (executeEvents i worker b d)) < 2 ^ 64"
  shows "sched_inv xs (executeEvents i worker b d)"
proof (cases "b \<and> dp_serial d = []")
  case True
  then show ?thesis using assms(1) by (simp add: executeEvents_def)
next
  case False
  define d1 where "d1 = (if b then mergeAsyncEvents (executeSerialEvents i d) else d)"
  have eq: "executeEvents i worker b d = (if dp_parallel d1 = [] then d1 else executeParallelEvents worker d1)"
    using False by (cases b) (simp_all add: executeEvents_def d1_def)
  have "length (dp_heap d1) \<le> length (dp_heap (executeEvents i worker b d))"
    unfolding eq using quiet_length [OF executeParallel_quiet, of d1 worker] by simp
  then have small: "length (dp_heap d1) < 2 ^ 64" using assms(4) by linarith
  have len: "length (dp_threads d1) = length (dp_threads d)"
    using quiet_length [OF executeSerial_quiet, of d i] by (simp add: d1_def)
  have "sched_inv xs d1" using executeSerial_inv [OF assms(1,2)] small assms(1) by (simp add: d1_def split: if_splits)
  then show ?thesis unfolding eq using executeParallel_inv [of xs d1 worker] assms(3) assms(4) [unfolded eq] len by (simp split: if_splits)
qed

lemma insert_task_mset: "mset (insert_task h p l) = add_mset p (mset l)"
proof -
  have "mset (takeWhile P l) + mset (dropWhile P l) = mset l" for P
    by (metis mset_append takeWhile_dropWhile_id)
  then show ?thesis by (simp add: insert_task_def)
qed

lemma insert_task_sorted:
  assumes "sorted (map (\<lambda>q. tk_utime (h ! q)) l)"
  shows "sorted (map (\<lambda>q. tk_utime (h ! q)) (insert_task h p l))"
proof -
  define T where "T = (\<lambda>q. tk_utime (h ! q))"
  define lo where "lo = takeWhile (\<lambda>q. T q \<le> T p) l"
  define hi where "hi = dropWhile (\<lambda>q. T q \<le> T p) l"
  have "l = lo @ hi" by (simp add: lo_def hi_def)
  then have s: "sorted (map T lo)" "sorted (map T hi)" "\<forall>a\<in>set lo. \<forall>b\<in>set hi. T a \<le> T b"
    using assms by (auto simp: sorted_append simp flip: T_def)
  have low: "\<forall>q\<in>set lo. T q \<le> T p" by (auto simp: lo_def dest: set_takeWhileD)
  have high: "\<forall>q\<in>set hi. T p \<le> T q"
  proof (cases hi)
    case (Cons a k)
    then have "\<not> T a \<le> T p" using hd_dropWhile [of "\<lambda>q. T q \<le> T p" l] by (simp add: hi_def)
    then show ?thesis using s(2) Cons by auto
  qed simp
  have "insert_task h p l = lo @ p # hi" by (simp add: insert_task_def lo_def hi_def T_def)
  then show ?thesis using s low high by (auto simp: sorted_append simp flip: T_def)
qed

lemma fold_insert: "mset (fold (insert_task h) ps l) = mset ps + mset l"
    "sorted (map (\<lambda>q. tk_utime (h ! q)) l) \<Longrightarrow> sorted (map (\<lambda>q. tk_utime (h ! q)) (fold (insert_task h) ps l))"
  by (induction ps arbitrary: l) (simp_all add: insert_task_mset insert_task_sorted)

lemma merge_parts:
  "dp_heap (mergeEvents d) = dp_heap d" "dp_refs (mergeEvents d) = dp_refs d" "dp_lastId (mergeEvents d) = dp_lastId d"
  "queued (mergeEvents d) = []" "mset (dp_scheduled (mergeEvents d)) = mset (dp_scheduled d @ queued d)" "runs (mergeEvents d) = runs d"
  "length (dp_threads (mergeEvents d)) = length (dp_threads d)" "dp_now (mergeEvents d) = dp_now d"
  by (simp_all add: mergeEvents_def checkPendingTasks_def queued_def runs_def comp_def fold_insert(1))

lemma merge_ok:
  assumes "disp_ok d"
  shows "disp_ok (mergeEvents d)"
proof -
  have set: "set (dp_scheduled (mergeEvents d)) = set (dp_scheduled d) \<union> set (queued d)"
    using arg_cong [OF merge_parts(5) [of d], of set_mset] by simp
  have "distinct (dp_scheduled (mergeEvents d)) = distinct (dp_scheduled d @ queued d)"
    by (rule mset_eq_imp_distinct_iff [OF merge_parts(5)])
  moreover have "sorted (map (\<lambda>p. tk_utime (dp_heap d ! p)) (dp_scheduled (mergeEvents d)))"
    using assms fold_insert(2) by (simp add: disp_ok_def mergeEvents_def checkPendingTasks_def)
  ultimately show ?thesis
    using assms unfolding disp_ok_def sched_inv_def merge_parts set by simp
qed

lemma executeScheduled_split:
  assumes "scheduled_loop i (dp_scheduled d) d = (rest, d1)"
  shows "executeScheduledEvents i worker d = executeEvents i worker False (mergeAsyncEvents (d1\<lparr>dp_scheduled := rest\<rparr>))"
  by (simp add: executeScheduledEvents_def assms)

lemma set_scheduled_simps [simp]: "queued (d\<lparr>dp_scheduled := l\<rparr>) = queued d" "runs (d\<lparr>dp_scheduled := l\<rparr>) = runs d"
  "sched_inv xs (d\<lparr>dp_scheduled := l\<rparr>) = sched_inv xs d"
  by (simp_all add: queued_def runs_def sched_inv_def)

lemma executeEvents_same: "dp_scheduled (executeEvents i worker b d) = dp_scheduled d"
    "length (dp_heap d) \<le> length (dp_heap (executeEvents i worker b d))" "runs (executeEvents i worker b d) = runs d"
  using quiet_length [OF executeEvents_quiet, of d i worker b] executeEvents_quiet [of d i worker b] by (simp_all add: quiet_step_def)

lemma quiet_ok:
  assumes "quiet_step d d'" and "sched_inv (dp_scheduled d) d'" and "disp_ok d"
  shows "disp_ok d'"
proof -
  have same: "dp_scheduled d' = dp_scheduled d" using quiet_length [OF assms(1)] by simp
  have "tk_utime (dp_heap d' ! p) = tk_utime (dp_heap d ! p)" if "p \<in> set (dp_scheduled d)" for p
  proof -
    have "p < length (dp_heap d)" using assms(3) that by (auto simp: disp_ok_def sched_inv_def)
    then show ?thesis using keepsD(2) assms(1) by (fastforce simp: quiet_step_def task_kept_def)
  qed
  then have times: "map (\<lambda>p. tk_utime (dp_heap d' ! p)) (dp_scheduled d) = map (\<lambda>p. tk_utime (dp_heap d ! p)) (dp_scheduled d)" by simp
  show ?thesis using assms(2,3) unfolding disp_ok_def same times by blast
qed

text \<open>The loop over the due tasks leaves a queue in order.\<close>

lemma scheduled_loop_ok:
  assumes "disp_ok d" and "scheduled_loop i (dp_scheduled d) d = (rest, d1)" and "i < length (dp_threads d)" and "length (dp_heap d1) < 2 ^ 64"
  shows "disp_ok (d1\<lparr>dp_scheduled := rest\<rparr>)"
proof -
  have inv: "sched_inv (dp_scheduled d) d" and sorted: "sorted (map (\<lambda>p. tk_utime (dp_heap d ! p)) (dp_scheduled d))"
    using assms(1) by (simp_all add: disp_ok_def)
  obtain due where due: "dp_scheduled d = due @ rest" "sched_inv rest d1" "keeps_tasks (set due) d d1"
    using scheduled_loop_result [OF assms(2) inv assms(3,4)] by blast
  have "tk_utime (dp_heap d1 ! p) = tk_utime (dp_heap d ! p)" if "p \<in> set rest" for p
  proof -
    have "p < length (dp_heap d)" "p \<notin> set due" using inv that due(1) by (auto simp: sched_inv_def)
    then show ?thesis using keepsD(2) [OF due(3)] by (simp add: task_kept_def)
  qed
  then have times: "map (\<lambda>p. tk_utime (dp_heap d1 ! p)) rest = map (\<lambda>p. tk_utime (dp_heap d ! p)) rest" by simp
  have "sorted (map (\<lambda>p. tk_utime (dp_heap d ! p)) rest)" using sorted due(1) by (simp add: sorted_append)
  then have "sorted (map (\<lambda>p. tk_utime (dp_heap d1 ! p)) rest)" unfolding times .
  then show ?thesis using due(2) by (simp add: disp_ok_def)
qed

lemma executeScheduled_ok:
  assumes "disp_ok d" and "i < length (dp_threads d)" and "\<forall>k. worker k < length (dp_threads d)"
    and "length (dp_heap (executeScheduledEvents i worker d)) < 2 ^ 64"
  shows "disp_ok (executeScheduledEvents i worker d)"
proof -
  obtain rest d1 where loop: "scheduled_loop i (dp_scheduled d) d = (rest, d1)" by fastforce
  define d2 where "d2 = mergeAsyncEvents (d1\<lparr>dp_scheduled := rest\<rparr>)"
  have eq: "executeScheduledEvents i worker d = executeEvents i worker False d2"
    unfolding d2_def by (rule executeScheduled_split [OF loop])
  have "length (dp_heap d1) < 2 ^ 64" using executeEvents_same(2) [of d2 i worker False] assms(4) [unfolded eq] by (simp add: d2_def)
  note ok1 = scheduled_loop_ok [OF assms(1) loop assms(2) this]
  have len: "length (dp_threads d1) = length (dp_threads d)" using keepsD(5) [OF scheduled_loop_keeps [OF loop]] by simp
  have "sched_inv (dp_scheduled d2) d2" using ok1 by (simp add: d2_def disp_ok_def)
  moreover have "disp_ok d2" using ok1 by (simp add: d2_def disp_ok_def)
  ultimately show ?thesis
    unfolding eq using quiet_ok [OF executeEvents_quiet] executeEvents_inv [of "dp_scheduled d2" d2 i worker False] assms(2,3) assms(4) [unfolded eq] len
    by (simp add: d2_def)
qed

lemma turn_ok:
  assumes "disp_ok d" and "i < length (dp_threads d)" and "\<forall>k. worker k < length (dp_threads d)"
    and "length (dp_heap (dispatcher_turn i worker now d)) < 2 ^ 64"
  shows "disp_ok (dispatcher_turn i worker now d)"
proof -
  define d0 where "d0 = d\<lparr>dp_now := now\<rparr>"
  define d1 where "d1 = executeEvents i worker True d0"
  define d2 where "d2 = executeScheduledEvents i worker d1"
  have eq: "dispatcher_turn i worker now d = mergeEvents d2" by (simp add: dispatcher_turn_def d0_def d1_def d2_def)
  have ok0: "disp_ok d0" using assms(1) by (simp add: d0_def disp_ok_def sched_inv_def queued_def)
  obtain rest e where loop: "scheduled_loop i (dp_scheduled d1) d1 = (rest, e)" by fastforce
  have "length (dp_heap d1) \<le> length (dp_heap e)" using keepsD(1) [OF scheduled_loop_keeps [OF loop]] .
  also have "\<dots> \<le> length (dp_heap d2)"
    unfolding d2_def executeScheduled_split [OF loop]
    using executeEvents_same(2) [of "mergeAsyncEvents (e\<lparr>dp_scheduled := rest\<rparr>)" i worker False] by simp
  finally have le: "length (dp_heap d1) \<le> length (dp_heap d2)" .
  have small: "length (dp_heap d2) < 2 ^ 64" using assms(4) by (simp add: eq merge_parts)
  have q: "quiet_step d0 d1" unfolding d1_def by (rule executeEvents_quiet)
  have len: "length (dp_threads d1) = length (dp_threads d)" "length (dp_threads d0) = length (dp_threads d)"
    using quiet_length [OF q] by (simp_all add: d0_def)
  have "sched_inv (dp_scheduled d0) d1"
    unfolding d1_def using executeEvents_inv [of "dp_scheduled d0" d0 i worker True] ok0 assms(2,3) len le small
    by (simp add: disp_ok_def d1_def)
  then have "disp_ok d1" by (rule quiet_ok [OF q _ ok0])
  then have "disp_ok d2" unfolding d2_def using executeScheduled_ok assms(2,3) len small by (simp add: d2_def)
  then show ?thesis unfolding eq by (rule merge_ok)
qed

lemma turn_parts:
  obtains d1 rest e where "quiet_step (d\<lparr>dp_now := now\<rparr>) d1" and "d1 = executeEvents i worker True (d\<lparr>dp_now := now\<rparr>)"
    and "scheduled_loop i (dp_scheduled d1) d1 = (rest, e)"
    and "quiet_step (e\<lparr>dp_scheduled := rest\<rparr>) (executeScheduledEvents i worker d1)"
    and "dispatcher_turn i worker now d = mergeEvents (executeScheduledEvents i worker d1)"
proof -
  define d1 where "d1 = executeEvents i worker True (d\<lparr>dp_now := now\<rparr>)"
  obtain rest e where loop: "scheduled_loop i (dp_scheduled d1) d1 = (rest, e)" by fastforce
  have "quiet_step (e\<lparr>dp_scheduled := rest\<rparr>) (executeScheduledEvents i worker d1)"
    unfolding executeScheduled_split [OF loop] by (rule quiet_trans [OF merge_async_quiet executeEvents_quiet])
  then show thesis
    using that [OF _ d1_def loop] executeEvents_quiet unfolding d1_def dispatcher_turn_def by blast
qed

lemma now_ok: "disp_ok (d\<lparr>dp_now := now\<rparr>) = disp_ok d" "dp_scheduled (d\<lparr>dp_now := now\<rparr>) = dp_scheduled d"
    "runs (d\<lparr>dp_now := now\<rparr>) = runs d" "queued (d\<lparr>dp_now := now\<rparr>) = queued d"
  by (simp_all add: disp_ok_def sched_inv_def queued_def runs_def)

text \<open>Before the timed tasks are run, a turn is in a state as good as the one it started in.\<close>

lemma turn_start_ok:
  assumes "disp_ok d" and "i < length (dp_threads d)" and "\<forall>k. worker k < length (dp_threads d)"
    and "length (dp_heap (executeEvents i worker True (d\<lparr>dp_now := now\<rparr>))) < 2 ^ 64"
  shows "disp_ok (executeEvents i worker True (d\<lparr>dp_now := now\<rparr>))"
proof -
  have "disp_ok (d\<lparr>dp_now := now\<rparr>)" using assms(1) now_ok(1) by simp
  moreover then have "sched_inv (dp_scheduled (d\<lparr>dp_now := now\<rparr>)) (executeEvents i worker True (d\<lparr>dp_now := now\<rparr>))"
    using executeEvents_inv [of "dp_scheduled d" "d\<lparr>dp_now := now\<rparr>" i worker True] assms(2,3,4) by (simp add: disp_ok_def)
  ultimately show ?thesis using quiet_ok [OF executeEvents_quiet] by blast
qed

lemma step_ok:
  assumes "disp_step n d d'" and "disp_ok d" and "length (dp_threads d) = n"
  shows "disp_ok d' \<and> length (dp_threads d') = n"
  using assms(1)
proof cases
  case (turn i worker now)
  have "length (dp_threads (dispatcher_turn i worker now d)) = n"
  proof (rule turn_parts [where d = d and now = now and i = i and worker = worker])
    fix d1 rest e
    assume q: "quiet_step (d\<lparr>dp_now := now\<rparr>) d1" "scheduled_loop i (dp_scheduled d1) d1 = (rest, e)"
      "quiet_step (e\<lparr>dp_scheduled := rest\<rparr>) (executeScheduledEvents i worker d1)"
      "dispatcher_turn i worker now d = mergeEvents (executeScheduledEvents i worker d1)"
    show ?thesis using quiet_length [OF q(1)] quiet_length [OF q(3)] keepsD(5) [OF scheduled_loop_keeps [OF q(2)]] assms(3)
      by (simp add: q(4) merge_parts)
  qed
  then show ?thesis using turn_ok [OF assms(2), of i worker now] turn assms(3) by simp
next
  case (other j c)
  define cx where "cx = \<lparr>cx_group = Group_ThreadPool, cx_type = Type_None, cx_thread = j\<rparr>"
  have d': "d' = run_command cx c d" "length (dp_heap d') < 2 ^ 64" "cx_thread cx < length (dp_threads d)"
    using other assms(3) by (simp_all add: cx_def)
  have q: "quiet_step d d'" unfolding d'(1) quiet_step_def
    using later_keeps [OF run_later(2)] run_enqueues(2) run_runs(2) by blast
  have "sched_inv (dp_scheduled d) d'" using run_inv(2) [of "dp_scheduled d" d cx c] d' assms(2) by (simp add: disp_ok_def)
  then show ?thesis using quiet_ok [OF q _ assms(2)] quiet_length [OF q] assms(3) by simp
qed

lemma new_ok: "disp_ok (new_dispatcher n)"
proof -
  have "queued (new_dispatcher n) = []" by (induction n) (simp_all add: queued_def new_dispatcher_def)
  then show ?thesis by (simp add: disp_ok_def sched_inv_def) (simp add: new_dispatcher_def)
qed

lemma reach_ok: "disp_reach n d \<Longrightarrow> disp_ok d \<and> length (dp_threads d) = n"
  unfolding disp_reach_def
proof (induction rule: rtranclp_induct)
  case base
  then show ?case using new_ok by (simp add: new_dispatcher_def)
next
  case (step d d')
  then show ?case using step_ok by blast
qed


subsection \<open>Stopped tasks\<close>

text \<open>A task that is cancelled, or that is neither in the queue nor on its way to it, is gone.\<close>

definition gone :: "nat \<Rightarrow> dispatcher \<Rightarrow> bool" where
  "gone p d \<longleftrightarrow> p < length (dp_heap d) \<and>
     (tk_func (dp_heap d ! p) = None \<or> p \<notin> set (dp_scheduled d) \<union> set (queued d))"

lemma gone_quiet:
  assumes "gone p d" and "quiet_step d d'"
  shows "gone p d'"
proof -
  have p: "p < length (dp_heap d)" using assms(1) by (simp add: gone_def)
  have kept: "task_kept True (dp_heap d ! p) (dp_heap d' ! p)" and len: "length (dp_heap d) \<le> length (dp_heap d')"
    and same: "dp_scheduled d' = dp_scheduled d"
    using keepsD [of "{}" d d'] p assms(2) by (auto simp: quiet_step_def)
  have "set (queued d') \<subseteq> set (queued d) \<union> {q. length (dp_heap d) \<le> q}" using assms(2) by (simp add: quiet_step_def enqueues_def)
  then have "p \<notin> set (queued d) \<Longrightarrow> p \<notin> set (queued d')" using p by auto
  then show ?thesis using assms(1) kept len same by (auto simp: gone_def task_kept_def)
qed

lemma gone_loop:
  assumes "gone p d" and "scheduled_loop i (dp_scheduled d) d = (rest, e)" and "disp_ok d" and "i < length (dp_threads d)"
    and "length (dp_heap e) < 2 ^ 64"
  shows "gone p (e\<lparr>dp_scheduled := rest\<rparr>) \<and> count_list (runs e) p = count_list (runs d) p"
proof -
  have p: "p < length (dp_heap d)" using assms(1) by (simp add: gone_def)
  obtain due ran where r: "dp_scheduled d = due @ rest" "runs e = runs d @ ran" "ran = filter (\<lambda>q. q \<in> set ran) due"
      "keeps_tasks (set due) d e" "enqueues (set due) d e" "\<forall>q\<in>set ran. tk_func (dp_heap d ! q) \<noteq> None"
    using scheduled_loop_result [OF assms(2) _ assms(4,5)] assms(3) unfolding disp_ok_def by blast
  have "set ran \<subseteq> set due" by (subst r(3)) auto
  then have "p \<notin> set ran" using assms(1) r(1,6) by (auto simp: gone_def)
  moreover have "gone p (e\<lparr>dp_scheduled := rest\<rparr>)"
  proof -
    have "tk_func (dp_heap d ! p) = None \<Longrightarrow> tk_func (dp_heap e ! p) = None"
      using keepsD(2) [OF r(4) p] by (auto simp: task_kept_def)
    moreover have "p \<notin> set (dp_scheduled d) \<union> set (queued d) \<Longrightarrow> p \<notin> set rest \<union> set (queued e)"
      using r(1,5) p by (auto simp: enqueues_def)
    moreover have "p < length (dp_heap e)" using keepsD(1) [OF r(4)] p by simp
    ultimately show ?thesis using assms(1) by (auto simp: gone_def)
  qed
  ultimately show ?thesis using r(2) by (simp add: count_list_0_iff)
qed

lemma gone_merge: "gone p d \<Longrightarrow> gone p (mergeEvents d)"
proof -
  have "set (dp_scheduled (mergeEvents d)) = set (dp_scheduled d) \<union> set (queued d)"
    using arg_cong [OF merge_parts(5) [of d], of set_mset] by simp
  then show "gone p d \<Longrightarrow> gone p (mergeEvents d)" by (simp add: gone_def merge_parts)
qed

lemma gone_step:
  assumes "disp_step n d d'" and "gone p d" and "disp_ok d" and "length (dp_threads d) = n"
  shows "gone p d' \<and> count_list (runs d') p = count_list (runs d) p"
  using assms(1)
proof cases
  case (turn i worker now)
  show ?thesis
  proof (rule turn_parts [where d = d and now = now and i = i and worker = worker])
    fix d1 rest e
    assume q1: "quiet_step (d\<lparr>dp_now := now\<rparr>) d1" and d1: "d1 = executeEvents i worker True (d\<lparr>dp_now := now\<rparr>)"
      and loop: "scheduled_loop i (dp_scheduled d1) d1 = (rest, e)"
      and q2: "quiet_step (e\<lparr>dp_scheduled := rest\<rparr>) (executeScheduledEvents i worker d1)"
      and eq: "dispatcher_turn i worker now d = mergeEvents (executeScheduledEvents i worker d1)"
    have len: "length (dp_heap d1) \<le> length (dp_heap e)" "length (dp_heap e) < 2 ^ 64" "i < length (dp_threads d1)"
      using quiet_length [OF q1] quiet_length [OF q2] keepsD(1) [OF scheduled_loop_keeps [OF loop]] assms(4) turn(1,2,4)
      by (simp_all add: eq merge_parts)
    have ok1: "disp_ok d1" unfolding d1 using turn_start_ok [OF assms(3)] turn(2,3) assms(4) len(1,2) by (simp add: d1)
    have "gone p (d\<lparr>dp_now := now\<rparr>)" using assms(2) by (simp add: gone_def now_ok)
    then have g1: "gone p d1" using gone_quiet q1 by blast
    note l = gone_loop [OF g1 loop ok1 len(3,2)]
    then have "gone p (dispatcher_turn i worker now d)" unfolding eq using gone_quiet [OF _ q2] gone_merge by blast
    moreover have "runs (dispatcher_turn i worker now d) = runs e" "runs d1 = runs d"
      using q1 q2 by (simp_all add: eq merge_parts quiet_step_def now_ok)
    ultimately show ?thesis using l turn(1) by simp
  qed
next
  case (other j c)
  have q: "quiet_step d d'" unfolding other(1) quiet_step_def
    using later_keeps [OF run_later(2)] run_enqueues(2) run_runs(2) by blast
  then show ?thesis using gone_quiet [OF assms(2)] by (simp add: quiet_step_def)
qed

lemma stop_gone:
  assumes "disp_ok d" and "p < length (dp_heap d)"
  shows "gone p (stopEvent (tk_id (dp_heap d ! p)) d)"
proof (cases "dp_refs d (tk_id (dp_heap d ! p))")
  case None
  then show ?thesis using assms by (auto simp: stopEvent_def gone_def disp_ok_def sched_inv_def)
next
  case (Some q)
  then have "q < length (dp_heap d)" "tk_id (dp_heap d ! q) = tk_id (dp_heap d ! p)"
    using assms(1) by (auto simp: disp_ok_def sched_inv_def)
  then have "Suc q = Suc p" using assms unfolding disp_ok_def sched_inv_def by metis
  then show ?thesis using Some assms(2) by (simp add: stopEvent_def gone_def)
qed

text \<open>C25: a task whose number is given to \<open>stopEvent\<close> never runs again, whatever happens afterwards in the
  main loop or in other threads; this holds for tasks that are waiting, for those still on their way
  to the queue, and for a repeating task that stops itself.\<close>

theorem stopped_never_runs:
  assumes "disp_reach n d" and "p < length (dp_heap d)" and "(disp_step n)\<^sup>*\<^sup>* (stopEvent (tk_id (dp_heap d ! p)) d) d'"
  shows "count_list (runs d') p = count_list (runs d) p"
proof -
  let ?s = "stopEvent (tk_id (dp_heap d ! p)) d"
  have ok: "disp_ok d" "length (dp_threads d) = n" using reach_ok [OF assms(1)] by simp_all
  have "later d ?s" by (rule stopped_later)
  then have q: "quiet_step d ?s" using later_keeps by (simp add: quiet_step_def enqueues_def runs_def)
  have "sched_inv (dp_scheduled d) ?s" using stop_inv ok(1) by (simp add: disp_ok_def)
  then have s: "disp_ok ?s" "length (dp_threads ?s) = n" using quiet_ok [OF q _ ok(1)] quiet_length [OF q] ok(2) by simp_all
  have "gone p d' \<and> count_list (runs d') p = count_list (runs ?s) p \<and> disp_ok d' \<and> length (dp_threads d') = n"
    using assms(3)
  proof (induction rule: rtranclp_induct)
    case base
    then show ?case using stop_gone [OF ok(1) assms(2)] s by simp
  next
    case (step y z)
    then show ?case using gone_step [of n y z p] step_ok [of n y z] by simp
  qed
  then show ?thesis using q by (simp add: quiet_step_def)
qed

subsection \<open>A sample run\<close>

text \<open>Three tasks handed over by thread 1: one after 50 milliseconds, one after 20 that stops the third, and
  one that repeats every 30. The first turn takes them into the queue.\<close>

definition sample_context :: dispatcher_context where
  "sample_context = \<lparr>cx_group = Group_ThreadPool, cx_type = Type_None, cx_thread = 1\<rparr>"

definition sample_dispatcher :: dispatcher where
  "sample_dispatcher = dispatcher_turn 0 (\<lambda>_. 1) 0
     (run_command sample_context (Cmd_Schedule 30 True (Action 9 []))
     (run_command sample_context (Cmd_Schedule 20 False (Action 8 [Cmd_Stop 3]))
     (run_command sample_context (Cmd_Schedule 50 False (Action 7 [])) (new_dispatcher 2))))"

lemma sample_step:
  assumes "d' = run_command sample_context c d" and "length (dp_heap d') = k" and "k < 2 ^ 64"
  shows "disp_step 2 d d'"
  using disp_step.other [of 1 2 c d] assms unfolding sample_context_def by simp

lemma sample_reach: "disp_reach 2 sample_dispatcher"
proof -
  define d1 where "d1 = run_command sample_context (Cmd_Schedule 50 False (Action 7 [])) (new_dispatcher 2)"
  define d2 where "d2 = run_command sample_context (Cmd_Schedule 20 False (Action 8 [Cmd_Stop 3])) d1"
  define d3 where "d3 = run_command sample_context (Cmd_Schedule 30 True (Action 9 [])) d2"
  have l1: "length (dp_heap d1) = 1" unfolding d1_def by code_simp
  have l2: "length (dp_heap d2) = 2" unfolding d2_def d1_def by code_simp
  have l3: "length (dp_heap d3) = 3" unfolding d3_def d2_def d1_def by code_simp
  have l4: "length (dp_heap sample_dispatcher) = 3" by code_simp
  have eq: "sample_dispatcher = dispatcher_turn 0 (\<lambda>_. 1) 0 d3"
    unfolding sample_dispatcher_def d3_def d2_def d1_def by (rule refl)
  have s1: "disp_step 2 (new_dispatcher 2) d1" by (rule sample_step [OF d1_def l1]) simp
  have s2: "disp_step 2 d1 d2" by (rule sample_step [OF d2_def l2]) simp
  have s3: "disp_step 2 d2 d3" by (rule sample_step [OF d3_def l3]) simp
  have s4: "disp_step 2 d3 sample_dispatcher"
    unfolding eq by (rule disp_step.turn) (simp, simp, unfold l4 [unfolded eq], simp)
  show ?thesis
    unfolding disp_reach_def
    by (rule rtranclp.rtrancl_into_rtrancl [OF rtranclp.rtrancl_into_rtrancl [OF rtranclp.rtrancl_into_rtrancl
      [OF r_into_rtranclp [of "disp_step 2", OF s1] s2] s3] s4])
qed

lemma sample_length: "length (dp_heap (dispatcher_turn 0 (\<lambda>_. 1) 40 sample_dispatcher)) = 3" by code_simp


lemma stopped_never_runs_witness:
  "count_list (runs (dispatcher_turn 0 (\<lambda>_. 1) 100 (stopEvent 1 sample_dispatcher))) 0 = count_list (runs sample_dispatcher) 0"
proof -
  have "length (dp_heap (dispatcher_turn 0 (\<lambda>_. 1) 100 (stopEvent 1 sample_dispatcher))) = 3" by code_simp
  then have "disp_step 2 (stopEvent 1 sample_dispatcher) (dispatcher_turn 0 (\<lambda>_. 1) 100 (stopEvent 1 sample_dispatcher))"
    by (intro disp_step.turn) simp_all
  then have run: "(disp_step 2)\<^sup>*\<^sup>* (stopEvent 1 sample_dispatcher) (dispatcher_turn 0 (\<lambda>_. 1) 100 (stopEvent 1 sample_dispatcher))" by blast
  have id: "tk_id (dp_heap sample_dispatcher ! 0) = 1" "0 < length (dp_heap sample_dispatcher)" by code_simp+
  show ?thesis using stopped_never_runs [OF sample_reach id(2)] run unfolding id(1) by blast
qed

end
