(* ===== verification/Thread_Races.thy ===== *)
theory Thread_Races
  imports Main
begin

text \<open>
  Two places where threads meet in the dispatcher (\<open>game/scheduling/dispatcher\<close>), with all their
  interleavings: the end of a group of parallel tasks (\<open>executeParallelEvents\<close>), and an event that is
  handed over while the main loop decides to sleep (\<open>addEvent\<close>, \<open>mergeEvents\<close>, \<open>init\<close>).
\<close>

subsection \<open>The end of a parallel group\<close>

text \<open>A worker runs its task, decrements the counter, loads it, and stores and announces the flag when it
  read zero. Counter and flag are local variables of the function that waits for the flag.\<close>

datatype worker_pc = W_Run | W_Ran | W_Load | W_Store | W_Notify | W_End

record group_state =
  gp_workers :: "worker_pc list"
  gp_total :: nat
  gp_completed :: bool
  gp_returned :: bool

definition start_group :: "nat \<Rightarrow> group_state" where
  "start_group n = \<lparr>gp_workers = replicate n W_Run, gp_total = n, gp_completed = False, gp_returned = False\<rparr>"

definition set_pc :: "nat \<Rightarrow> worker_pc \<Rightarrow> group_state \<Rightarrow> group_state" where
  "set_pc i pc s = s\<lparr>gp_workers := (gp_workers s)[i := pc]\<rparr>"

definition at_pc :: "nat \<Rightarrow> worker_pc \<Rightarrow> group_state \<Rightarrow> bool" where
  "at_pc i pc s \<longleftrightarrow> i < length (gp_workers s) \<and> gp_workers s ! i = pc"

inductive group_step :: "group_state \<Rightarrow> group_state \<Rightarrow> bool" where
  run: "at_pc i W_Run s \<Longrightarrow> group_step s (set_pc i W_Ran s)"
| sub: "at_pc i W_Ran s \<Longrightarrow> group_step s (set_pc i W_Load (s\<lparr>gp_total := gp_total s - 1\<rparr>))"
| load: "at_pc i W_Load s \<Longrightarrow> group_step s (set_pc i (if gp_total s = 0 then W_Store else W_End) s)"
| store: "at_pc i W_Store s \<Longrightarrow> group_step s (set_pc i W_Notify (s\<lparr>gp_completed := True\<rparr>))"
| notify: "at_pc i W_Notify s \<Longrightarrow> group_step s (set_pc i W_End s)"
| return: "gp_completed s \<Longrightarrow> group_step s (s\<lparr>gp_returned := True\<rparr>)"

definition group_reach :: "nat \<Rightarrow> group_state \<Rightarrow> bool" where
  "group_reach n = group_step\<^sup>*\<^sup>* (start_group n)"

text \<open>A worker at one of these points is about to use a local variable of the function that waits.\<close>

definition uses_frame :: "worker_pc \<Rightarrow> bool" where
  "uses_frame pc \<longleftrightarrow> pc \<in> {W_Ran, W_Load, W_Store, W_Notify}"

definition open_tasks :: "group_state \<Rightarrow> nat" where
  "open_tasks s = length (filter (\<lambda>pc. pc = W_Run \<or> pc = W_Ran) (gp_workers s))"

definition group_inv :: "nat \<Rightarrow> group_state \<Rightarrow> bool" where
  "group_inv n s \<longleftrightarrow> length (gp_workers s) = n \<and> gp_total s = open_tasks s \<and>
     (W_Store \<in> set (gp_workers s) \<or> W_Notify \<in> set (gp_workers s) \<or> gp_completed s \<longrightarrow> gp_total s = 0) \<and>
     (gp_returned s \<longrightarrow> gp_completed s) \<and>
     (0 < n \<and> gp_total s = 0 \<longrightarrow> gp_completed s \<or> W_Load \<in> set (gp_workers s) \<or> W_Store \<in> set (gp_workers s))"

lemma filter_update:
  "i < length l \<Longrightarrow> length (filter P (l[i := x])) + (if P (l ! i) then 1 else 0) = length (filter P l) + (if P x then 1 else 0)"
proof (induction l arbitrary: i)
  case (Cons a l)
  then show ?case by (cases i) auto
qed simp

lemma open_tasks_set:
  assumes "at_pc i pc s" and "gp_workers s' = gp_workers s"
  shows "open_tasks (set_pc i pc' s') + (if pc = W_Run \<or> pc = W_Ran then 1 else 0) =
    open_tasks s + (if pc' = W_Run \<or> pc' = W_Ran then 1 else 0)"
  using filter_update [of i "gp_workers s" "\<lambda>pc. pc = W_Run \<or> pc = W_Ran" pc'] assms
  by (simp add: open_tasks_def set_pc_def at_pc_def)

lemma set_pc_members:
  assumes "at_pc i pc s"
  shows "x \<in> set ((gp_workers s)[i := pc']) \<Longrightarrow> x = pc' \<or> x \<in> set (gp_workers s)"
    and "pc' \<in> set ((gp_workers s)[i := pc'])"
    and "x \<in> set (gp_workers s) \<Longrightarrow> x \<noteq> pc \<Longrightarrow> x \<in> set ((gp_workers s)[i := pc'])"
proof -
  have i: "i < length (gp_workers s)" "gp_workers s ! i = pc" using assms by (simp_all add: at_pc_def)
  show "x \<in> set ((gp_workers s)[i := pc']) \<Longrightarrow> x = pc' \<or> x \<in> set (gp_workers s)" by (meson insert_iff set_update_subset_insert subsetD)
  show "pc' \<in> set ((gp_workers s)[i := pc'])" using i(1) by (simp add: set_update_memI)
  assume "x \<in> set (gp_workers s)" "x \<noteq> pc"
  then obtain j where "j < length (gp_workers s)" "gp_workers s ! j = x" "j \<noteq> i" using i(2) by (metis in_set_conv_nth)
  then show "x \<in> set ((gp_workers s)[i := pc'])" by (metis length_list_update nth_list_update_neq nth_mem)
qed

lemma open_none: "open_tasks s = 0 \<longleftrightarrow> W_Run \<notin> set (gp_workers s) \<and> W_Ran \<notin> set (gp_workers s)"
  by (auto simp: open_tasks_def filter_empty_conv)

lemma at_pc_member: "at_pc i pc s \<Longrightarrow> pc \<in> set (gp_workers s)"
  unfolding at_pc_def using nth_mem by blast

lemma group_step_inv:
  assumes "group_step s s'" and "group_inv n s"
  shows "group_inv n s'"
  using assms(1)
proof cases
  case (run i)
  then show ?thesis using assms(2) open_tasks_set [OF run(2) refl, of W_Ran] set_pc_members [OF run(2), where pc' = W_Ran]
    unfolding group_inv_def by (auto simp: set_pc_def)
next
  case (sub i)
  have "W_Ran \<in> set (gp_workers s)" using at_pc_member [OF sub(2)] .
  then have pos: "0 < open_tasks s" using open_none [of s] by auto
  then have "W_Store \<notin> set (gp_workers s)" "W_Notify \<notin> set (gp_workers s)" "\<not> gp_completed s"
    using assms(2) by (auto simp: group_inv_def)
  then show ?thesis using assms(2) pos sub(1) open_tasks_set [OF sub(2), of "s\<lparr>gp_total := gp_total s - 1\<rparr>" W_Load] set_pc_members [OF sub(2), where pc' = W_Load]
    unfolding group_inv_def by (auto simp: set_pc_def)
next
  case (load i)
  then show ?thesis using assms(2) open_tasks_set [OF load(2) refl, of "if gp_total s = 0 then W_Store else W_End"]
      set_pc_members [OF load(2), where pc' = "if gp_total s = 0 then W_Store else W_End"]
    unfolding group_inv_def by (auto simp: set_pc_def split: if_splits)
next
  case (store i)
  have "W_Store \<in> set (gp_workers s)" using at_pc_member [OF store(2)] .
  then show ?thesis using assms(2) store(1) open_tasks_set [OF store(2), of "s\<lparr>gp_completed := True\<rparr>" W_Notify] set_pc_members [OF store(2), where pc' = W_Notify]
    unfolding group_inv_def by (auto simp: set_pc_def)
next
  case (notify i)
  have "W_Notify \<in> set (gp_workers s)" using at_pc_member [OF notify(2)] .
  then show ?thesis using assms(2) notify(1) open_tasks_set [OF notify(2) refl, of W_End] set_pc_members [OF notify(2), where pc' = W_End]
    unfolding group_inv_def by (auto simp: set_pc_def)
next
  case return
  then show ?thesis using assms(2) by (auto simp: group_inv_def open_tasks_def)
qed

lemma group_reach_inv: "group_reach n s \<Longrightarrow> group_inv n s"
  unfolding group_reach_def
proof (induction rule: rtranclp_induct)
  case base
  then show ?case by (auto simp: group_inv_def start_group_def open_tasks_def)
next
  case (step s s')
  then show ?case using group_step_inv by blast
qed

text \<open>Two workers: the second one sees zero and ends the wait while the first has still to load the counter.\<close>

definition race_state :: group_state where
  "race_state = \<lparr>gp_workers = [W_Load, W_Notify], gp_total = 0, gp_completed = True, gp_returned = True\<rparr>"

lemma race_reached: "group_reach 2 race_state"
proof -
  let ?s = "\<lambda>a b n f r. \<lparr>gp_workers = [a, b], gp_total = n, gp_completed = f, gp_returned = r\<rparr>"
  have start: "start_group 2 = ?s W_Run W_Run 2 False False" by (simp add: start_group_def numeral_2_eq_2)
  have 1: "group_step (?s W_Run W_Run 2 False False) (?s W_Ran W_Run 2 False False)"
    using group_step.run [of 0 "?s W_Run W_Run 2 False False"] by (simp add: at_pc_def set_pc_def)
  have 2: "group_step (?s W_Ran W_Run 2 False False) (?s W_Ran W_Ran 2 False False)"
    using group_step.run [of 1 "?s W_Ran W_Run 2 False False"] by (simp add: at_pc_def set_pc_def)
  have 3: "group_step (?s W_Ran W_Ran 2 False False) (?s W_Load W_Ran 1 False False)"
    using group_step.sub [of 0 "?s W_Ran W_Ran 2 False False"] by (simp add: at_pc_def set_pc_def)
  have 4: "group_step (?s W_Load W_Ran 1 False False) (?s W_Load W_Load 0 False False)"
    using group_step.sub [of 1 "?s W_Load W_Ran 1 False False"] by (simp add: at_pc_def set_pc_def)
  have 5: "group_step (?s W_Load W_Load 0 False False) (?s W_Load W_Store 0 False False)"
    using group_step.load [of 1 "?s W_Load W_Load 0 False False"] by (simp add: at_pc_def set_pc_def)
  have 6: "group_step (?s W_Load W_Store 0 False False) (?s W_Load W_Notify 0 True False)"
    using group_step.store [of 1 "?s W_Load W_Store 0 False False"] by (simp add: at_pc_def set_pc_def)
  have 7: "group_step (?s W_Load W_Notify 0 True False) race_state"
    using group_step.return [of "?s W_Load W_Notify 0 True False"] by (simp add: race_state_def)
  note run = converse_rtranclp_into_rtranclp [of group_step]
  show ?thesis unfolding group_reach_def start
    by (rule run [OF 1 run [OF 2 run [OF 3 run [OF 4 run [OF 5 run [OF 6 run [OF 7 rtranclp.rtrancl_refl]]]]]]])
qed

text \<open>C26: in every interleaving the wait for a parallel group ends only after all its tasks have run, and when
  all workers are through it does end; but it can end while a worker is still about to load the counter
  or to announce the flag, which are local variables of the function that has then returned.\<close>

theorem parallel_group_ends:
  assumes "group_reach n s"
  shows "(gp_returned s \<longrightarrow> W_Run \<notin> set (gp_workers s)) \<and>
    (0 < n \<and> set (gp_workers s) \<subseteq> {W_End} \<longrightarrow> gp_completed s) \<and>
    (\<exists>r. group_reach 2 r \<and> gp_returned r \<and> (\<exists>pc\<in>set (gp_workers r). uses_frame pc))"
proof (intro conjI impI)
  have inv: "group_inv n s" using group_reach_inv [OF assms] .
  show "W_Run \<notin> set (gp_workers s)" if "gp_returned s"
  proof -
    have "open_tasks s = 0" using inv that by (auto simp: group_inv_def)
    then show ?thesis by (simp add: open_none)
  qed
  show "gp_completed s" if "0 < n \<and> set (gp_workers s) \<subseteq> {W_End}"
  proof -
    have "open_tasks s = 0" "W_Load \<notin> set (gp_workers s)" "W_Store \<notin> set (gp_workers s)" using that open_none [of s] by auto
    then show ?thesis using inv that by (auto simp: group_inv_def)
  qed
  show "\<exists>r. group_reach 2 r \<and> gp_returned r \<and> (\<exists>pc\<in>set (gp_workers r). uses_frame pc)"
    using race_reached by (intro exI [of _ race_state]) (simp add: race_state_def uses_frame_def)
qed

lemma parallel_group_ends_witness: "W_Run \<notin> set (gp_workers race_state)"
  using parallel_group_ends [OF race_reached] by (simp add: race_state_def)

subsection \<open>An event on the way into the main loop\<close>

text \<open>The main loop runs its tasks, merges the queue of the other thread, clears the flag, sets it again when
  it has tasks, tests it, and when it is not set it goes to sleep, until it is signalled or the time of its
  next timed task has come. The other thread puts an event into its queue and then
  announces it: it sets the flag and signals, but only when the flag is not set. Each of these is taken
  to be atomic.\<close>

datatype main_pc = M_Run | M_Merge | M_Clear | M_Check | M_Test | M_Enter | M_Sleep

datatype giver_pc = G_Push | G_Notify | G_End

record handover =
  ho_queue :: bool
  ho_tasks :: bool
  ho_pending :: bool
  ho_ran :: bool
  ho_main :: main_pc
  ho_giver :: giver_pc

definition start_handover :: handover where
  "start_handover = \<lparr>ho_queue = False, ho_tasks = False, ho_pending = False, ho_ran = False, ho_main = M_Run, ho_giver = G_Push\<rparr>"

inductive handover_step :: "handover \<Rightarrow> handover \<Rightarrow> bool" where
  run: "ho_main s = M_Run \<Longrightarrow> handover_step s (s\<lparr>ho_ran := ho_ran s \<or> ho_tasks s, ho_tasks := False, ho_main := M_Merge\<rparr>)"
| merge: "ho_main s = M_Merge \<Longrightarrow> handover_step s (s\<lparr>ho_tasks := ho_tasks s \<or> ho_queue s, ho_queue := False, ho_main := M_Clear\<rparr>)"
| clear: "ho_main s = M_Clear \<Longrightarrow> handover_step s (s\<lparr>ho_pending := False, ho_main := M_Check\<rparr>)"
| check: "ho_main s = M_Check \<Longrightarrow> handover_step s (s\<lparr>ho_pending := ho_pending s \<or> ho_tasks s, ho_main := M_Test\<rparr>)"
| test: "ho_main s = M_Test \<Longrightarrow> handover_step s (s\<lparr>ho_main := (if ho_pending s then M_Run else M_Enter)\<rparr>)"
| enter: "ho_main s = M_Enter \<Longrightarrow> handover_step s (s\<lparr>ho_main := M_Sleep\<rparr>)"
| timeout: "ho_main s = M_Sleep \<Longrightarrow> handover_step s (s\<lparr>ho_main := M_Run\<rparr>)"
| push: "ho_giver s = G_Push \<Longrightarrow> handover_step s (s\<lparr>ho_queue := True, ho_giver := G_Notify\<rparr>)"
| notify: "ho_giver s = G_Notify \<Longrightarrow> handover_step s (s\<lparr>ho_pending := True, ho_giver := G_End,
    ho_main := (if \<not> ho_pending s \<and> ho_main s = M_Sleep then M_Run else ho_main s)\<rparr>)"

definition handover_reach :: "handover \<Rightarrow> bool" where
  "handover_reach = handover_step\<^sup>*\<^sup>* start_handover"

text \<open>The event is still to be run, and the main loop will not get to it by itself.\<close>

definition asleep_with_event :: "handover \<Rightarrow> bool" where
  "asleep_with_event s \<longleftrightarrow> ho_main s = M_Sleep \<and> ho_giver s = G_End \<and> ho_queue s \<and> \<not> ho_ran s"

inductive_cases handover_cases: "handover_step s s'"

definition handover_inv :: "handover \<Rightarrow> bool" where
  "handover_inv s \<longleftrightarrow> (ho_giver s = G_Push \<longrightarrow> \<not> ho_queue s \<and> \<not> ho_tasks s \<and> \<not> ho_ran s) \<and>
     (ho_giver s \<noteq> G_Push \<longrightarrow> ho_queue s \<or> ho_tasks s \<or> ho_ran s) \<and> (ho_queue s \<longrightarrow> \<not> ho_tasks s \<and> \<not> ho_ran s) \<and>
     (ho_main s = M_Test \<and> ho_tasks s \<longrightarrow> ho_pending s) \<and> (ho_main s \<in> {M_Enter, M_Sleep} \<longrightarrow> \<not> ho_tasks s)"

lemma handover_step_inv: "handover_step s s' \<Longrightarrow> handover_inv s \<Longrightarrow> handover_inv s'"
  by (induction rule: handover_step.induct) (auto simp: handover_inv_def)

lemma handover_reach_inv: "handover_reach s \<Longrightarrow> handover_inv s"
  unfolding handover_reach_def
proof (induction rule: rtranclp_induct)
  case base
  show ?case by (simp add: handover_inv_def start_handover_def)
next
  case (step s s')
  then show ?case using handover_step_inv by blast
qed

text \<open>The event is announced between the merge of the queues and the clearing of the flag (\<open>p\<close> is false),
  or between the test of the flag and the sleep (\<open>p\<close> is true).\<close>

definition lost_state :: "bool \<Rightarrow> handover" where
  "lost_state p = \<lparr>ho_queue = True, ho_tasks = False, ho_pending = p, ho_ran = False, ho_main = M_Sleep, ho_giver = G_End\<rparr>"

definition ho_at :: "bool \<Rightarrow> bool \<Rightarrow> main_pc \<Rightarrow> giver_pc \<Rightarrow> handover" where
  "ho_at q p m g = \<lparr>ho_queue = q, ho_tasks = False, ho_pending = p, ho_ran = False, ho_main = m, ho_giver = g\<rparr>"

lemma ho_at_steps:
  "handover_step (ho_at q p M_Run g) (ho_at q p M_Merge g)"
  "handover_step (ho_at False p M_Merge g) (ho_at False p M_Clear g)"
  "handover_step (ho_at q p M_Clear g) (ho_at q False M_Check g)"
  "handover_step (ho_at q p M_Check g) (ho_at q p M_Test g)"
  "handover_step (ho_at q False M_Test g) (ho_at q False M_Enter g)"
  "handover_step (ho_at q p M_Enter g) (ho_at q p M_Sleep g)"
  "handover_step (ho_at q p m G_Push) (ho_at True p m G_Notify)"
  "m \<noteq> M_Sleep \<Longrightarrow> handover_step (ho_at q p m G_Notify) (ho_at q True m G_End)"
  using handover_step.run [of "ho_at q p M_Run g"] handover_step.merge [of "ho_at False p M_Merge g"]
    handover_step.clear [of "ho_at q p M_Clear g"] handover_step.check [of "ho_at q p M_Check g"]
    handover_step.test [of "ho_at q False M_Test g"] handover_step.enter [of "ho_at q p M_Enter g"]
    handover_step.push [of "ho_at q p m G_Push"] handover_step.notify [of "ho_at q p m G_Notify"]
  by (simp_all add: ho_at_def)

lemma lost_reached: "handover_reach (lost_state p)"
proof -
  note run = converse_rtranclp_into_rtranclp [of handover_step] and st = ho_at_steps
  have start: "start_handover = ho_at False False M_Run G_Push" "lost_state p = ho_at True p M_Sleep G_End"
    by (simp_all add: start_handover_def ho_at_def lost_state_def)
  have merged: "handover_step\<^sup>*\<^sup>* start_handover (ho_at False False M_Clear G_Push)"
    unfolding start by (rule run [OF st(1) run [OF st(2) rtranclp.rtrancl_refl]])
  show ?thesis
  proof (cases p)
    case False
    have "handover_step\<^sup>*\<^sup>* (ho_at False False M_Clear G_Push) (ho_at True False M_Sleep G_End)"
      by (rule run [OF st(7) run [OF st(8) run [OF st(3) run [OF st(4) run [OF st(5) run [OF st(6) rtranclp.rtrancl_refl]]]]]]) simp
    with merged False show ?thesis unfolding handover_reach_def start(2) by (simp add: rtranclp_trans)
  next
    case True
    have "handover_step\<^sup>*\<^sup>* (ho_at False False M_Clear G_Push) (ho_at True True M_Sleep G_End)"
      by (rule run [OF st(3) run [OF st(4) run [OF st(5) run [OF st(7) run [OF st(8) run [OF st(6) rtranclp.rtrancl_refl]]]]]]) simp
    with merged True show ?thesis unfolding handover_reach_def start(2) by (simp add: rtranclp_trans)
  qed
qed

lemma asleep_steps: "asleep_with_event s \<Longrightarrow> handover_step s s' \<Longrightarrow> s' = s\<lparr>ho_main := M_Run\<rparr>"
  by (auto simp: asleep_with_event_def elim: handover_cases)

text \<open>C27: an event that was put into a queue is never dropped: it is in the queue, among the tasks of the
  main loop or was run, and the main loop never sleeps over one of its own tasks. But it can sleep
  while the announced event is in the queue, and then only the time of the next timed task wakes it; this happens
  with the flag cleared after the announcement, and with the flag set, when no later announcement
  signals either.\<close>

theorem handover_wakeup:
  assumes "handover_reach s"
  shows "(ho_giver s \<noteq> G_Push \<longrightarrow> ho_queue s \<or> ho_tasks s \<or> ho_ran s) \<and>
    (ho_main s = M_Sleep \<longrightarrow> \<not> ho_tasks s) \<and>
    (\<forall>p. \<exists>r. handover_reach r \<and> ho_pending r = p \<and> asleep_with_event r \<and> (\<forall>r'. handover_step r r' \<longrightarrow> r' = r\<lparr>ho_main := M_Run\<rparr>))"
proof (intro conjI allI)
  have inv: "handover_inv s" using handover_reach_inv [OF assms] .
  show "ho_giver s \<noteq> G_Push \<longrightarrow> ho_queue s \<or> ho_tasks s \<or> ho_ran s" "ho_main s = M_Sleep \<longrightarrow> \<not> ho_tasks s"
    using inv by (simp_all add: handover_inv_def)
  fix p
  have "asleep_with_event (lost_state p)" "ho_pending (lost_state p) = p" by (simp_all add: asleep_with_event_def lost_state_def)
  then show "\<exists>r. handover_reach r \<and> ho_pending r = p \<and> asleep_with_event r \<and> (\<forall>r'. handover_step r r' \<longrightarrow> r' = r\<lparr>ho_main := M_Run\<rparr>)"
    using lost_reached [of p] asleep_steps [of "lost_state p"] by blast
qed

lemma handover_wakeup_witness: "ho_queue (lost_state True) \<or> ho_tasks (lost_state True) \<or> ho_ran (lost_state True)"
  using handover_wakeup [OF lost_reached [of True]] by (simp add: lost_state_def)

end
