(* ===== verification/Item_Model.thy ===== *)
theory Item_Model
  imports Prelude
begin

text \<open>
  Items and their attributes (\<open>items/item\<close>, \<open>items/functions/item/attribute\<close>): the type table, the
  attribute vector, counts, weights, the comparison that decides whether two stacks can be merged, and
  copies. Custom attributes, which only scripts and imbuements use, are left out.
\<close>

subsection \<open>Attributes\<close>

datatype item_attr = Attr_NONE | ACTIONID | UNIQUEID | DESCRIPTION | TEXT | DATE | WRITER | NAME | ARTICLE | PLURALNAME
  | WEIGHT | ATTACK | DEFENSE | EXTRADEFENSE | ARMOR | HITCHANCE | SHOOTRANGE | OWNER | DURATION | DECAYSTATE
  | CORPSEOWNER | CHARGES | FLUIDTYPE | DOORID | SPECIAL | IMBUEMENT_SLOT | OPENCONTAINER | QUICKLOOTCONTAINER
  | DURATION_TIMESTAMP | AMOUNT | TIER | STORE | CUSTOM | LOOTMESSAGE_SUFFIX | STORE_INBOX_CATEGORY

definition isAttributeInteger :: "item_attr \<Rightarrow> bool" where
  "isAttributeInteger t \<longleftrightarrow> t \<in> {STORE, ACTIONID, UNIQUEID, DATE, WEIGHT, ATTACK, DEFENSE, EXTRADEFENSE, ARMOR, HITCHANCE,
     SHOOTRANGE, OWNER, DURATION, DECAYSTATE, CORPSEOWNER, CHARGES, FLUIDTYPE, DOORID, IMBUEMENT_SLOT, OPENCONTAINER,
     QUICKLOOTCONTAINER, DURATION_TIMESTAMP, TIER, AMOUNT}"

definition isAttributeString :: "item_attr \<Rightarrow> bool" where
  "isAttributeString t \<longleftrightarrow> t \<in> {DESCRIPTION, TEXT, WRITER, NAME, ARTICLE, PLURALNAME, SPECIAL, LOOTMESSAGE_SUFFIX, STORE_INBOX_CATEGORY}"

datatype attr_value = Int_Value u64 | Str_Value string

type_synonym attr_vector = "(item_attr \<times> attr_value) list"

definition default_value :: "item_attr \<Rightarrow> attr_value" where
  "default_value t = (if isAttributeString t then Str_Value [] else Int_Value 0)"

definition value_integer :: "attr_value \<Rightarrow> u64" where
  "value_integer v = (case v of Int_Value n \<Rightarrow> n | Str_Value _ \<Rightarrow> 0)"

definition value_string :: "attr_value \<Rightarrow> string" where
  "value_string v = (case v of Int_Value _ \<Rightarrow> [] | Str_Value s \<Rightarrow> s)"

definition attr_has :: "item_attr \<Rightarrow> attr_vector \<Rightarrow> bool" where
  "attr_has t l \<longleftrightarrow> t \<in> fst ` set l"

definition attr_find :: "item_attr \<Rightarrow> attr_vector \<Rightarrow> attr_value option" where
  "attr_find t l = map_of l t"

definition getAttributeValue :: "item_attr \<Rightarrow> attr_vector \<Rightarrow> u64" where
  "getAttributeValue t l = (if isAttributeInteger t then case attr_find t l of None \<Rightarrow> 0 | Some v \<Rightarrow> value_integer v else 0)"

definition getAttributeString :: "item_attr \<Rightarrow> attr_vector \<Rightarrow> string" where
  "getAttributeString t l = (if isAttributeString t then case attr_find t l of None \<Rightarrow> [] | Some v \<Rightarrow> value_string v else [])"

text \<open>\<open>getAttributesByType\<close> gives the first entry of the type, adding one at the end when there is
  none; \<open>setValue\<close> then replaces its value when the kind of value fits.\<close>

definition set_value :: "attr_value \<Rightarrow> attr_value \<Rightarrow> attr_value" where
  "set_value new old = (case (old, new) of (Int_Value _, Int_Value _) \<Rightarrow> new | (Str_Value _, Str_Value _) \<Rightarrow> new | _ \<Rightarrow> old)"

fun attr_put :: "item_attr \<Rightarrow> attr_value \<Rightarrow> attr_vector \<Rightarrow> attr_vector" where
  "attr_put t v [] = [(t, set_value v (default_value t))]"
| "attr_put t v ((s, w) # l) = (if s = t then (s, set_value v w) # l else (s, w) # attr_put t v l)"

definition attr_set_int :: "item_attr \<Rightarrow> u64 \<Rightarrow> attr_vector \<Rightarrow> attr_vector" where
  "attr_set_int t n l = (if isAttributeInteger t then attr_put t (Int_Value n) l else l)"

definition attr_set_string :: "item_attr \<Rightarrow> string \<Rightarrow> attr_vector \<Rightarrow> attr_vector" where
  "attr_set_string t s l = (if \<not> isAttributeString t \<or> s = [] then l else attr_put t (Str_Value s) l)"

text \<open>The last entry takes the place of the removed one.\<close>

definition attr_remove :: "item_attr \<Rightarrow> attr_vector \<Rightarrow> attr_vector" where
  "attr_remove t l = (let i = find_index (\<lambda>p. fst p = t) l in if i < length l then butlast (l[i := last l]) else l)"

subsection \<open>The type table and items\<close>

record ItemType =
  ty_id :: u16
  ty_stackable :: bool
  ty_stackSize :: u8
  ty_weight :: u32
  ty_pickupable :: bool
  ty_movable :: bool
  ty_fluid :: bool
  ty_container :: bool
  ty_charges :: u32
  ty_quiver :: bool
  ty_ammo :: bool
  ty_decayTo :: int
  ty_decayTime :: u32
  ty_stopTime :: bool
  ty_transformEquipTo :: u16
  ty_transformDeEquipTo :: u16
  ty_replacedBy :: "u16 option"

text \<open>Where an item is: in a container, on a tile, carried by a player, or nowhere.\<close>

datatype parent = No_Parent | In_Box nat | On_Tile nat | On_Player nat

record box =
  bx_items :: "nat list"
  bx_maxSize :: u32
  bx_maxItems :: u32
  bx_unlocked :: bool
  bx_pagination :: bool
  bx_inbox :: bool
  bx_weight :: u32

record item =
  it_id :: u16
  it_count :: u8
  it_attrs :: "attr_vector option"
  it_parent :: parent
  it_loadedFromMap :: bool
  it_decayDisabled :: bool
  it_box :: "box option"

type_synonym types = "u16 \<Rightarrow> ItemType"

definition item_vector :: "item \<Rightarrow> attr_vector" where
  "item_vector x = (case it_attrs x of None \<Rightarrow> [] | Some l \<Rightarrow> l)"

definition hasAttribute :: "item_attr \<Rightarrow> item \<Rightarrow> bool" where
  "hasAttribute t x = attr_has t (item_vector x)"

definition getInteger :: "item_attr \<Rightarrow> item \<Rightarrow> u64" where
  "getInteger t x = getAttributeValue t (item_vector x)"

definition setAttribute :: "item_attr \<Rightarrow> u64 \<Rightarrow> item \<Rightarrow> item" where
  "setAttribute t n x = x\<lparr>it_attrs := Some (attr_set_int t n (item_vector x))\<rparr>"

definition removeAttribute :: "item_attr \<Rightarrow> item \<Rightarrow> item" where
  "removeAttribute t x = x\<lparr>it_attrs := map_option (attr_remove t) (it_attrs x)\<rparr>"

definition isStackable :: "types \<Rightarrow> item \<Rightarrow> bool" where
  "isStackable T x = ty_stackable (T (it_id x))"

definition getStackSize :: "types \<Rightarrow> item \<Rightarrow> nat" where
  "getStackSize T x = (if isStackable T x then unat (ty_stackSize (T (it_id x))) else 1)"

definition isStoreItem :: "item \<Rightarrow> bool" where
  "isStoreItem x \<longleftrightarrow> sint (getInteger STORE x) > 0"

definition item_ownerId :: "item \<Rightarrow> u32" where
  "item_ownerId x = (if hasAttribute OWNER x then ucast (getInteger OWNER x) else 0)"

definition getBaseWeight :: "types \<Rightarrow> item \<Rightarrow> u32" where
  "getBaseWeight T x = (if hasAttribute WEIGHT x then ucast (getInteger WEIGHT x) else ty_weight (T (it_id x)))"

text \<open>\<open>Item::getWeight\<close>, and the weight of the contents that a container adds.\<close>

definition item_weight :: "types \<Rightarrow> item \<Rightarrow> u32" where
  "item_weight T x = (if isStackable T x then getBaseWeight T x * of_nat (max 1 (unat (it_count x))) else getBaseWeight T x)"

definition getWeight :: "types \<Rightarrow> item \<Rightarrow> u32" where
  "getWeight T x = item_weight T x + (case it_box x of None \<Rightarrow> 0 | Some b \<Rightarrow> bx_weight b)"

definition setSubType :: "types \<Rightarrow> u16 \<Rightarrow> item \<Rightarrow> item" where
  "setSubType T n x = (let ty = T (it_id x) in
     if ty_fluid ty then setAttribute FLUIDTYPE (ucast n) x
     else if ty_stackable ty then x\<lparr>it_count := ucast n\<rparr>
     else if ty_charges ty \<noteq> 0 then setAttribute CHARGES (ucast n) x
     else x\<lparr>it_count := ucast n\<rparr>)"

subsection \<open>Decay state\<close>

definition DECAYING_FALSE :: u64 where "DECAYING_FALSE = 0"
definition DECAYING_TRUE :: u64 where "DECAYING_TRUE = 1"
definition DECAYING_PENDING :: u64 where "DECAYING_PENDING = 2"
definition DECAYING_STOPPING :: u64 where "DECAYING_STOPPING = 3"

definition getDecaying :: "item \<Rightarrow> u64" where
  "getDecaying x = getInteger DECAYSTATE x AND 255"

definition setDecaying :: "u64 \<Rightarrow> item \<Rightarrow> item" where
  "setDecaying s x = (let y = setAttribute DECAYSTATE s x in if s = DECAYING_FALSE then removeAttribute DURATION_TIMESTAMP y else y)"

definition setDuration :: "u32 \<Rightarrow> item \<Rightarrow> item" where
  "setDuration d x = setAttribute DURATION (if sint d < 0 then 0 else ucast d) x"

definition getDuration :: "int \<Rightarrow> item \<Rightarrow> u32" where
  "getDuration now x =
     (if getDecaying x \<in> {DECAYING_TRUE, DECAYING_STOPPING}
      then (let d = ucast (getInteger DURATION_TIMESTAMP x) - word_of_int now in if sint d < 0 then 0 else d)
      else ucast (getInteger DURATION x))"

definition isRewardCorpse :: "item \<Rightarrow> bool" where
  "isRewardCorpse x \<longleftrightarrow> (ucast (getInteger CORPSEOWNER x) :: u32) = 2147483647"

definition setID :: "types \<Rightarrow> u16 \<Rightarrow> item \<Rightarrow> item" where
  "setID T newid x =
     (let prev = T (it_id x); ty = T newid; newDuration = ty_decayTime ty * 1000;
          x1 = x\<lparr>it_id := newid\<rparr>;
          x2 = (if newDuration = 0 \<and> \<not> ty_stopTime ty \<and> ty_decayTo ty < 0
                then removeAttribute DURATION (if hasAttribute DECAYSTATE x1 then setDecaying DECAYING_STOPPING x1 else x1)
                else x1);
          x3 = (if isRewardCorpse x2 then x2 else removeAttribute CORPSEOWNER x2)
      in if newDuration > 0 \<and> (\<not> ty_stopTime prev \<or> \<not> hasAttribute DURATION x3)
         then setDuration newDuration (setDecaying DECAYING_PENDING x3) else x3)"

subsection \<open>Creation, copies and comparison\<close>

definition FLUID_INK :: u16 where "FLUID_INK = 18"

text \<open>The constructor of a plain item; \<open>ty_replacedBy\<close> is the entry of the type in
  \<open>ItemTransformationMap\<close>, the ids that \<open>CreateItem\<close> replaces.\<close>

definition new_item :: "types \<Rightarrow> u16 \<Rightarrow> u16 \<Rightarrow> item" where
  "new_item T i n =
     (let ty = T i; x = \<lparr>it_id = i, it_count = 1, it_attrs = None, it_parent = No_Parent, it_loadedFromMap = False,
            it_decayDisabled = False, it_box = None\<rparr>;
          y = (if ty_fluid ty then setAttribute FLUIDTYPE (ucast (max 1 (min n FLUID_INK))) x
               else if ty_stackable ty then (if n \<noteq> 0 then x\<lparr>it_count := ucast n\<rparr>
                 else if ty_charges ty \<noteq> 0 then x\<lparr>it_count := ucast (ty_charges ty)\<rparr> else x)
               else if ty_charges ty \<noteq> 0 then setAttribute CHARGES (if n \<noteq> 0 then ucast n else ucast (ty_charges ty)) x
               else x);
          d = ty_decayTime ty * 1000
      in if d \<noteq> 0 then setDuration d y else y)"

definition create_item :: "types \<Rightarrow> u16 \<Rightarrow> u16 \<Rightarrow> item option" where
  "create_item T i n =
     (let n' = (if ty_stackable (T i) \<and> n = 0 then 1 else n)
      in if ty_id (T i) = 0 then None
         else Some (new_item T (case ty_replacedBy (T i) of Some j \<Rightarrow> j | None \<Rightarrow> i) n'))"

definition clone :: "types \<Rightarrow> item \<Rightarrow> item option" where
  "clone T x = (case create_item T (it_id x) (ucast (it_count x)) of
       None \<Rightarrow> None
     | Some y \<Rightarrow> Some (case it_attrs x of None \<Rightarrow> y | Some l \<Rightarrow> y\<lparr>it_attrs := Some l\<rparr>))"

text \<open>\<open>Item::equals\<close>; the owner of a container is that of its contents, so both owners are arguments.\<close>

definition equal_attr :: "item_attr \<times> attr_value \<Rightarrow> item_attr \<times> attr_value \<Rightarrow> bool" where
  "equal_attr a b \<longleftrightarrow> fst a \<noteq> fst b \<or> (\<not> (isAttributeInteger (fst a) \<and> value_integer (snd a) \<noteq> value_integer (snd b)) \<and>
     \<not> (isAttributeString (fst a) \<and> value_string (snd a) \<noteq> value_string (snd b)))"

definition item_equals :: "u32 \<Rightarrow> u32 \<Rightarrow> item \<Rightarrow> item \<Rightarrow> bool" where
  "item_equals owner1 owner2 x y \<longleftrightarrow> it_id x = it_id y \<and> isStoreItem x = isStoreItem y \<and> owner1 = owner2 \<and>
     (\<forall>a\<in>set (item_vector x). fst a = STORE \<or> (\<forall>b\<in>set (item_vector y). equal_attr a b))"

end
