(* ===== verification/Containers.thy ===== *)
theory Containers
  imports Item_Model
begin

text \<open>
  Containers (\<open>items/containers/container\<close>): the tree of items, with the weight every container keeps of
  its contents, the iterator over everything a container holds, the queries that decide what may be
  moved, and the operations on the list of items. Items are named by their address in a heap. What the
  clients are sent, and the containers of special kinds (depot, reward chest, store inbox, browse
  field), are left out; of the player that may carry a container only its capacity is used, which is an argument.
\<close>

type_synonym heap = "item list"

record world_env =
  ev_types :: types
  ev_maxContainer :: nat
  ev_isOwner :: "nat \<Rightarrow> u32 \<Rightarrow> bool"
  ev_hasCapacity :: "nat \<Rightarrow> nat \<Rightarrow> u32 \<Rightarrow> heap \<Rightarrow> bool"

datatype return_value = RET_NOERROR | RET_NOTPOSSIBLE | RET_CANNOTPICKUP | RET_THISISIMPOSSIBLE | RET_ITEMISNOTYOURS
  | RET_CONTAINERNOTENOUGHROOM | RET_CONTAINERISFULL | RET_ONLYAMMOINQUIVER | RET_NOTMOVABLE | RET_NOTENOUGHCAPACITY
  | RET_NOTENOUGHROOM | RET_CANNOTBEDRESSED | RET_PUTTHISOBJECTINBOTHHANDS | RET_BOTHHANDSNEEDTOBEFREE
  | RET_DROPTWOHANDEDITEM | RET_CANONLYUSEONESHIELD | RET_CANONLYUSEONEWEAPON | RET_NEEDEXCHANGE

record move_flags =
  fl_noLimit :: bool
  fl_childIsOwner :: bool
  fl_ignoreNotMovable :: bool
  fl_ignoreAutoStack :: bool

definition no_flags :: move_flags where
  "no_flags = \<lparr>fl_noLimit = False, fl_childIsOwner = False, fl_ignoreNotMovable = False, fl_ignoreAutoStack = False\<rparr>"

subsection \<open>The tree\<close>

definition upd_item :: "nat \<Rightarrow> (item \<Rightarrow> item) \<Rightarrow> heap \<Rightarrow> heap" where
  "upd_item a f h = h[a := f (h ! a)]"

definition is_box :: "heap \<Rightarrow> nat \<Rightarrow> bool" where
  "is_box h c \<longleftrightarrow> it_box (h ! c) \<noteq> None"

definition box_of :: "heap \<Rightarrow> nat \<Rightarrow> box" where
  "box_of h c = the (it_box (h ! c))"

definition itemlist :: "heap \<Rightarrow> nat \<Rightarrow> nat list" where
  "itemlist h c = (case it_box (h ! c) of None \<Rightarrow> [] | Some b \<Rightarrow> bx_items b)"

definition upd_box :: "nat \<Rightarrow> (box \<Rightarrow> box) \<Rightarrow> heap \<Rightarrow> heap" where
  "upd_box c f h = upd_item c (\<lambda>x. x\<lparr>it_box := map_option f (it_box x)\<rparr>) h"

definition parent_box :: "heap \<Rightarrow> nat \<Rightarrow> nat option" where
  "parent_box h a = (case it_parent (h ! a) of In_Box p \<Rightarrow> Some p | _ \<Rightarrow> None)"

text \<open>A container and the containers around it, from the inside out. The loops of the code have no bound; the first
  argument bounds the walk, and a heap without cycles never uses it up.\<close>

fun up_chain :: "nat \<Rightarrow> heap \<Rightarrow> nat \<Rightarrow> nat list" where
  "up_chain 0 h c = []"
| "up_chain (Suc n) h c = c # (case parent_box h c of None \<Rightarrow> [] | Some p \<Rightarrow> up_chain n h p)"

definition chain :: "heap \<Rightarrow> nat \<Rightarrow> nat list" where
  "chain h c = up_chain (length h) h c"

text \<open>\<open>updateItemWeight\<close>\<close>

definition updateItemWeight :: "nat \<Rightarrow> u32 \<Rightarrow> heap \<Rightarrow> heap" where
  "updateItemWeight c diff h = fold (\<lambda>p. upd_box p (\<lambda>b. b\<lparr>bx_weight := bx_weight b + diff\<rparr>)) (chain h c) h"

text \<open>The last but one of the cylinders from the container up to the tile: the carrying player, or a container.\<close>

datatype top = Top_Box nat | Top_Player nat

definition getTopParent :: "heap \<Rightarrow> nat \<Rightarrow> top" where
  "getTopParent h c = (let l = chain h c in
     case it_parent (h ! last l) of
       On_Player p \<Rightarrow> Top_Player p
     | On_Tile _ \<Rightarrow> Top_Box (last l)
     | _ \<Rightarrow> Top_Box (if length l < 2 then c else last (butlast l)))"

definition getTopParentContainer :: "heap \<Rightarrow> nat \<Rightarrow> nat" where
  "getTopParentContainer h c = (let l = chain h c in if length l < 2 then c else last (butlast l))"

text \<open>Going up from an item: removed when nothing is above it at the top.\<close>

definition item_isRemoved :: "heap \<Rightarrow> nat \<Rightarrow> bool" where
  "item_isRemoved h a \<longleftrightarrow> it_parent (h ! last (chain h a)) = No_Parent"

subsection \<open>Everything a container holds\<close>

text \<open>The iterator: the containers still to be visited, of which the first is being visited, and the position in it.\<close>

type_synonym box_iterator = "nat list \<times> nat"

definition box_iterator :: "heap \<Rightarrow> nat \<Rightarrow> box_iterator" where
  "box_iterator h c = (if itemlist h c = [] then ([], 0) else ([c], 0))"

definition hasNext :: "box_iterator \<Rightarrow> bool" where
  "hasNext it \<longleftrightarrow> fst it \<noteq> []"

definition iter_item :: "heap \<Rightarrow> box_iterator \<Rightarrow> nat" where
  "iter_item h it = itemlist h (hd (fst it)) ! snd it"

definition iter_advance :: "heap \<Rightarrow> box_iterator \<Rightarrow> box_iterator" where
  "iter_advance h it =
     (let over = (if itemlist h (iter_item h it) \<noteq> [] then fst it @ [iter_item h it] else fst it)
      in if Suc (snd it) = length (itemlist h (hd over)) then (tl over, 0) else (over, Suc (snd it)))"

fun iter_collect :: "nat \<Rightarrow> heap \<Rightarrow> box_iterator \<Rightarrow> nat list" where
  "iter_collect 0 h it = []"
| "iter_collect (Suc n) h it = (if hasNext it then iter_item h it # iter_collect n h (iter_advance h it) else [])"

text \<open>\<open>getItems(true)\<close>; an item is visited at most once, so the number of items bounds the loop.\<close>

definition getItems :: "heap \<Rightarrow> nat \<Rightarrow> nat list" where
  "getItems h c = iter_collect (length h) h (box_iterator h c)"

definition getItemHoldingCount :: "heap \<Rightarrow> nat \<Rightarrow> nat" where
  "getItemHoldingCount h c = length (getItems h c)"

definition getContainerHoldingCount :: "heap \<Rightarrow> nat \<Rightarrow> nat" where
  "getContainerHoldingCount h c = length (filter (is_box h) (getItems h c))"

definition isHoldingItem :: "heap \<Rightarrow> nat \<Rightarrow> nat \<Rightarrow> bool" where
  "isHoldingItem h c a \<longleftrightarrow> a \<in> set (getItems h c)"

definition isHoldingItemWithId :: "heap \<Rightarrow> nat \<Rightarrow> u16 \<Rightarrow> bool" where
  "isHoldingItemWithId h c i \<longleftrightarrow> (\<exists>a\<in>set (getItems h c). it_id (h ! a) = i)"

text \<open>The owner of a container without an owner is the first one found in it; an item of the list that is a
  container is asked in the same way. The first argument bounds the depth.\<close>

fun owner_in :: "nat \<Rightarrow> heap \<Rightarrow> nat \<Rightarrow> u32" where
  "owner_in 0 h a = item_ownerId (h ! a)"
| "owner_in (Suc n) h a = (if item_ownerId (h ! a) > 0 then item_ownerId (h ! a)
     else case filter (\<lambda>o'. o' > 0) (map (owner_in n h) (itemlist h a)) of [] \<Rightarrow> 0 | o' # _ \<Rightarrow> o')"

definition getOwnerId :: "heap \<Rightarrow> nat \<Rightarrow> u32" where
  "getOwnerId h a = owner_in (length h) h a"

definition heap_equals :: "heap \<Rightarrow> nat \<Rightarrow> nat \<Rightarrow> bool" where
  "heap_equals h a b = item_equals (getOwnerId h a) (getOwnerId h b) (h ! a) (h ! b)"

text \<open>The free places of a container and of the containers in it, in 16 bits.\<close>

fun free_in :: "nat \<Rightarrow> heap \<Rightarrow> nat \<Rightarrow> u16" where
  "free_in 0 h c = 0"
| "free_in (Suc n) h c = ucast (bx_maxSize (box_of h c)) - of_nat (length (itemlist h c)) +
     sum_list (map (free_in n h) (filter (is_box h) (itemlist h c)))"

definition getFreeSlots :: "heap \<Rightarrow> nat \<Rightarrow> u16" where
  "getFreeSlots h c = free_in (length h) h c"

definition getItemByIndex :: "heap \<Rightarrow> nat \<Rightarrow> int \<Rightarrow> nat option" where
  "getItemByIndex h c i = (if 0 \<le> i \<and> i < int (length (itemlist h c)) then Some (itemlist h c ! nat i) else None)"

definition getThingIndex :: "heap \<Rightarrow> nat \<Rightarrow> nat \<Rightarrow> int" where
  "getThingIndex h c a = (let i = find_index (\<lambda>x. x = a) (itemlist h c) in if i < length (itemlist h c) then int i else - 1)"

definition getItemTypeCount :: "types \<Rightarrow> heap \<Rightarrow> nat \<Rightarrow> u16 \<Rightarrow> u32" where
  "getItemTypeCount T h c i = sum_list (map (\<lambda>a. ucast (it_count (h ! a))) (filter (\<lambda>a. it_id (h ! a) = i) (itemlist h c)))"

subsection \<open>Queries\<close>

definition INDEX_WHEREEVER :: int where "INDEX_WHEREEVER = - 1"

fun ancestors_allow :: "heap \<Rightarrow> bool \<Rightarrow> nat \<Rightarrow> nat list \<Rightarrow> return_value" where
  "ancestors_allow h noLimit a [] = RET_NOERROR"
| "ancestors_allow h noLimit a (p # ps) =
     (if p = a then RET_THISISIMPOSSIBLE
      else if \<not> noLimit \<and> bx_inbox (box_of h p) then RET_CONTAINERNOTENOUGHROOM
      else ancestors_allow h noLimit a ps)"

definition owner_refuses :: "world_env \<Rightarrow> heap \<Rightarrow> nat \<Rightarrow> nat \<Rightarrow> bool" where
  "owner_refuses E h c a \<longleftrightarrow> getOwnerId h a \<noteq> 0 \<and>
     ((case getTopParent h c of Top_Player p \<Rightarrow> \<not> ev_isOwner E p (getOwnerId h a) | Top_Box _ \<Rightarrow> False) \<or>
      (getOwnerId h c \<noteq> 0 \<and> getOwnerId h c \<noteq> getOwnerId h a))"

definition holding_full :: "world_env \<Rightarrow> heap \<Rightarrow> nat \<Rightarrow> nat \<Rightarrow> bool" where
  "holding_full E h c a \<longleftrightarrow> (let t = getTopParentContainer h c; maxItems = unat (bx_maxItems (box_of h c)) in
     if is_box h a
     then getContainerHoldingCount h a + 1 + getContainerHoldingCount h t > ev_maxContainer E \<or>
       getItemHoldingCount h a + 1 + getItemHoldingCount h t > maxItems
     else getItemHoldingCount h t + 1 > maxItems)"

text \<open>\<open>Player::queryAdd\<close> as a container in the player's hands asks it.\<close>

definition carrier_queryAdd :: "world_env \<Rightarrow> heap \<Rightarrow> nat \<Rightarrow> nat \<Rightarrow> u32 \<Rightarrow> bool \<Rightarrow> return_value" where
  "carrier_queryAdd E h p a count noLimit =
     (if getOwnerId h a \<noteq> 0 \<and> \<not> ev_isOwner E p (getOwnerId h a) then RET_ITEMISNOTYOURS
      else if noLimit \<or> ev_hasCapacity E p a count h then RET_NOERROR else RET_NOTENOUGHCAPACITY)"

definition queryAdd :: "world_env \<Rightarrow> heap \<Rightarrow> nat \<Rightarrow> int \<Rightarrow> nat \<Rightarrow> u32 \<Rightarrow> move_flags \<Rightarrow> return_value" where
  "queryAdd E h c addIndex a addCount fl =
     (let b = box_of h c; ty = ev_types E (it_id (h ! a)); up = ancestors_allow h (fl_noLimit fl) a (tl (chain h c)) in
      if fl_childIsOwner fl then RET_NOERROR
      else if \<not> bx_unlocked b then RET_NOTPOSSIBLE
      else if \<not> ty_pickupable ty then RET_CANNOTPICKUP
      else if a = c then RET_THISISIMPOSSIBLE
      else if owner_refuses E h c a then RET_ITEMISNOTYOURS
      else if up \<noteq> RET_NOERROR then up
      else if \<not> fl_noLimit fl \<and> addIndex = INDEX_WHEREEVER \<and> unat (bx_maxSize b) \<le> length (bx_items b) \<and> \<not> bx_pagination b
      then RET_CONTAINERNOTENOUGHROOM
      else if holding_full E h c a then RET_CONTAINERISFULL
      else if ty_quiver (ev_types E (it_id (h ! c))) \<and> \<not> ty_ammo ty then RET_ONLYAMMOINQUIVER
      else case getTopParent h c of
          Top_Player p \<Rightarrow> carrier_queryAdd E h p a addCount (fl_noLimit fl)
        | Top_Box _ \<Rightarrow> RET_NOERROR)"

text \<open>A stack that more of the item can be put on.\<close>

definition stacks_with :: "types \<Rightarrow> heap \<Rightarrow> nat \<Rightarrow> nat \<Rightarrow> bool" where
  "stacks_with T h x a \<longleftrightarrow> heap_equals h x a \<and> unat (it_count (h ! x)) < getStackSize T (h ! x)"

fun stack_room :: "world_env \<Rightarrow> heap \<Rightarrow> nat \<Rightarrow> nat \<Rightarrow> move_flags \<Rightarrow> int \<Rightarrow> nat list \<Rightarrow> nat" where
  "stack_room E h c a fl slot [] = 0"
| "stack_room E h c a fl slot (x # xs) =
     (if x \<noteq> a \<and> stacks_with (ev_types E) h x a
      then (let r = getStackSize (ev_types E) (h ! x) - unat (it_count (h ! x))
            in (if queryAdd E h c slot a (of_nat r) fl = RET_NOERROR then r else 0) + stack_room E h c a fl (slot + 1) xs)
      else stack_room E h c a fl slot xs)"

definition queryMaxCount :: "world_env \<Rightarrow> heap \<Rightarrow> nat \<Rightarrow> int \<Rightarrow> nat \<Rightarrow> u32 \<Rightarrow> move_flags \<Rightarrow> return_value \<times> u32" where
  "queryMaxCount E h c index a count fl =
     (let b = box_of h c; T = ev_types E; d = bx_maxSize b - of_nat (length (bx_items b));
          freeSlots = (if sint d < 0 then 0 else d) in
      if fl_noLimit fl \<or> bx_pagination b then (RET_NOERROR, max 1 count)
      else if isStackable T (h ! a) then
        (let n = (if index = INDEX_WHEREEVER then stack_room E h c a fl 0 (bx_items b)
              else case getItemByIndex h c index of
                  None \<Rightarrow> 0
                | Some x \<Rightarrow> if heap_equals h a x \<and> unat (it_count (h ! x)) < getStackSize T (h ! x)
                    then getStackSize T (h ! x) - unat (it_count (h ! x)) else 0);
             m = freeSlots * of_nat (getStackSize T (h ! a)) + of_nat n
         in (if m < count then RET_CONTAINERNOTENOUGHROOM else RET_NOERROR, m))
      else (if freeSlots = 0 then RET_CONTAINERNOTENOUGHROOM else RET_NOERROR, freeSlots))"

text \<open>The top parent of an item in a container is never a tile, so the question to the tile of a
  house at the end of \<open>queryRemove\<close> is not reached.\<close>

definition queryRemove :: "types \<Rightarrow> heap \<Rightarrow> nat \<Rightarrow> nat \<Rightarrow> u32 \<Rightarrow> move_flags \<Rightarrow> return_value" where
  "queryRemove T h c a count fl =
     (if getThingIndex h c a = - 1 then RET_NOTPOSSIBLE
      else if count = 0 \<or> (isStackable T (h ! a) \<and> count > ucast (it_count (h ! a))) then RET_NOTPOSSIBLE
      else if \<not> ty_movable (T (it_id (h ! a))) \<and> \<not> fl_ignoreNotMovable fl then RET_NOTMOVABLE
      else RET_NOERROR)"

definition find_stack :: "types \<Rightarrow> heap \<Rightarrow> nat \<Rightarrow> nat \<Rightarrow> nat" where
  "find_stack T h c a = find_index (\<lambda>x. x \<noteq> a \<and> stacks_with T h x a) (itemlist h c)"

text \<open>The container that is asked next, the index in it and the item found there. \<open>search_place\<close> is the
  part after the index has been settled.\<close>

definition search_place :: "types \<Rightarrow> heap \<Rightarrow> nat \<Rightarrow> int \<Rightarrow> nat \<Rightarrow> nat option \<Rightarrow> move_flags \<Rightarrow> nat \<times> int \<times> nat option" where
  "search_place T h c index a dest fl =
     (case (if index = INDEX_WHEREEVER then None else case dest of Some x \<Rightarrow> if is_box h x then Some x else None | None \<Rightarrow> None) of
        Some s \<Rightarrow> (s, INDEX_WHEREEVER, None)
      | None \<Rightarrow>
          if \<not> fl_ignoreAutoStack fl \<and> isStackable T (h ! a) \<and> it_parent (h ! a) \<noteq> In_Box c \<and>
             \<not> (case dest of Some x \<Rightarrow> stacks_with T h x a | None \<Rightarrow> False) \<and> find_stack T h c a < length (itemlist h c)
          then (c, int (find_stack T h c a), Some (itemlist h c ! find_stack T h c a))
          else (c, index, dest))"

definition queryDestination :: "types \<Rightarrow> heap \<Rightarrow> nat \<Rightarrow> int \<Rightarrow> nat \<Rightarrow> nat option \<Rightarrow> move_flags \<Rightarrow> nat \<times> int \<times> nat option" where
  "queryDestination T h c index a dest fl =
     (let b = box_of h c in
      if \<not> bx_unlocked b then (c, index, None)
      else if index = 254 then (case parent_box h c of Some p \<Rightarrow> (p, INDEX_WHEREEVER, None) | None \<Rightarrow> (c, INDEX_WHEREEVER, None))
      else if index = 255 \<or> (sint (bx_maxSize b) \<le> index \<and> \<not> bx_pagination b) then search_place T h c INDEX_WHEREEVER a None fl
      else search_place T h c index a (if index = INDEX_WHEREEVER then dest
             else case getItemByIndex h c index of Some x \<Rightarrow> Some x | None \<Rightarrow> dest) fl)"

subsection \<open>The list of items\<close>

definition insert_front :: "nat \<Rightarrow> nat \<Rightarrow> heap \<Rightarrow> heap" where
  "insert_front c a h = upd_box c (\<lambda>b. b\<lparr>bx_items := a # bx_items b\<rparr>) (upd_item a (\<lambda>x. x\<lparr>it_parent := In_Box c\<rparr>) h)"

definition internalAddThing :: "types \<Rightarrow> nat \<Rightarrow> nat \<Rightarrow> heap \<Rightarrow> heap" where
  "internalAddThing T c a h = (let h1 = insert_front c a h in updateItemWeight c (getWeight T (h1 ! a)) h1)"

definition addThing :: "types \<Rightarrow> nat \<Rightarrow> int \<Rightarrow> nat \<Rightarrow> heap \<Rightarrow> heap" where
  "addThing T c index a h = (if sint (bx_maxSize (box_of h c)) \<le> index then h
     else (let h1 = insert_front c a h in updateItemWeight c (getWeight T (h1 ! a)) h1))"

definition addItem :: "nat \<Rightarrow> nat \<Rightarrow> heap \<Rightarrow> heap" where
  "addItem c a h = upd_item a (\<lambda>x. x\<lparr>it_parent := In_Box c\<rparr>) (upd_box c (\<lambda>b. b\<lparr>bx_items := bx_items b @ [a]\<rparr>) h)"

definition addItemBack :: "types \<Rightarrow> nat \<Rightarrow> nat \<Rightarrow> heap \<Rightarrow> heap" where
  "addItemBack T c a h = (let h1 = addItem c a h in updateItemWeight c (getWeight T (h1 ! a)) h1)"

definition updateThing :: "types \<Rightarrow> nat \<Rightarrow> nat \<Rightarrow> u16 \<Rightarrow> u32 \<Rightarrow> heap \<Rightarrow> heap" where
  "updateThing T c a i count h = (if getThingIndex h c a = - 1 then h
     else (let h1 = upd_item a (\<lambda>x. setSubType T (ucast count) (setID T i x)) h
           in updateItemWeight c (getWeight T (h1 ! a) - getWeight T (h ! a)) h1))"

definition replaceThing :: "types \<Rightarrow> nat \<Rightarrow> nat \<Rightarrow> nat \<Rightarrow> heap \<Rightarrow> heap" where
  "replaceThing T c index a h = (case getItemByIndex h c (int index) of
       None \<Rightarrow> h
     | Some r \<Rightarrow>
        (let h1 = upd_item a (\<lambda>x. x\<lparr>it_parent := In_Box c\<rparr>) (upd_box c (\<lambda>b. b\<lparr>bx_items := (bx_items b)[index := a]\<rparr>) h)
         in upd_item r (\<lambda>x. x\<lparr>it_parent := No_Parent\<rparr>) (updateItemWeight c (getWeight T (h1 ! a) - getWeight T (h1 ! r)) h1)))"

definition erase_item :: "nat \<Rightarrow> nat \<Rightarrow> heap \<Rightarrow> heap" where
  "erase_item c a h = upd_box c (\<lambda>b. b\<lparr>bx_items := erase_at (find_index (\<lambda>x. x = a) (bx_items b)) (bx_items b)\<rparr>)
     (upd_item a (\<lambda>x. x\<lparr>it_parent := No_Parent\<rparr>) h)"

definition removeThing :: "types \<Rightarrow> nat \<Rightarrow> nat \<Rightarrow> u32 \<Rightarrow> heap \<Rightarrow> heap" where
  "removeThing T c a count h = (if getThingIndex h c a = - 1 then h
     else if isStackable T (h ! a) \<and> count \<noteq> ucast (it_count (h ! a)) then
       (let d = ucast (it_count (h ! a)) - count;
            h1 = upd_item a (\<lambda>x. x\<lparr>it_count := ucast (if sint d < 0 then 0 else d)\<rparr>) h
        in updateItemWeight c (getWeight T (h1 ! a) - getWeight T (h ! a)) h1)
     else erase_item c a (updateItemWeight c (- getWeight T (h ! a)) h))"

text \<open>\<open>removeItem\<close> leaves the weight as it is.\<close>

definition removeItem :: "nat \<Rightarrow> nat \<Rightarrow> heap \<Rightarrow> heap" where
  "removeItem c a h = (if a \<in> set (itemlist h c) then erase_item c a h else h)"

end
