(* ===== verification/Container_Tree.thy ===== *)
theory Container_Tree
  imports Containers
begin

text \<open>
  The tree of containers: the invariant of a heap, the walk towards the top, and the weights. A container
  knows the weight of its contents; \<open>updateItemWeight\<close> carries a change to all containers around it,
  and the lemmas show that every operation keeps the sums exact in 32 bits.
\<close>

subsection \<open>Well-formed heaps\<close>

definition up :: "heap \<Rightarrow> (nat \<times> nat) set" where
  "up h = {(a, p). a < length h \<and> parent_box h a = Some p}"

definition tree_ok :: "heap \<Rightarrow> bool" where
  "tree_ok h \<longleftrightarrow> (\<forall>c<length h. distinct (itemlist h c) \<and> (\<forall>a\<in>set (itemlist h c). a < length h \<and> it_parent (h ! a) = In_Box c)) \<and>
     (\<forall>a p. a < length h \<longrightarrow> it_parent (h ! a) = In_Box p \<longrightarrow> p < length h \<and> a \<in> set (itemlist h p)) \<and> acyclic (up h)"

lemma parent_box_iff: "parent_box h a = Some p \<longleftrightarrow> it_parent (h ! a) = In_Box p"
  by (simp add: parent_box_def split: parent.splits)

lemma tree_okD:
  assumes "tree_ok h"
  shows "c < length h \<Longrightarrow> distinct (itemlist h c)"
    and "c < length h \<Longrightarrow> a \<in> set (itemlist h c) \<Longrightarrow> a < length h \<and> it_parent (h ! a) = In_Box c"
    and "a < length h \<Longrightarrow> it_parent (h ! a) = In_Box p \<Longrightarrow> p < length h \<and> a \<in> set (itemlist h p)"
    and "acyclic (up h)"
  using assms unfolding tree_ok_def by blast+

lemma up_iff: "(a, p) \<in> up h \<longleftrightarrow> a < length h \<and> it_parent (h ! a) = In_Box p"
  by (simp add: up_def parent_box_iff)

lemma up_single: "(a, p) \<in> up h \<Longrightarrow> (a, q) \<in> up h \<Longrightarrow> p = q"
  by (simp add: up_def)

lemma up_less: "tree_ok h \<Longrightarrow> (a, p) \<in> up h \<Longrightarrow> a < length h \<and> p < length h \<and> a \<in> set (itemlist h p)"
  using tree_okD(3) by (auto simp: up_iff)

lemma up_rtrancl_less:
  assumes "tree_ok h" and "(a, p) \<in> (up h)\<^sup>*" and "a < length h"
  shows "p < length h"
  using assms(2) by (induction rule: rtrancl_induct) (use assms up_less in auto)

subsection \<open>The walk towards the top\<close>

lemma up_chain_reach: "q \<in> set (up_chain n h c) \<Longrightarrow> c < length h \<Longrightarrow> tree_ok h \<Longrightarrow> (c, q) \<in> (up h)\<^sup>*"
proof (induction n h c rule: up_chain.induct)
  case (2 n h c)
  show ?case
  proof (cases "parent_box h c")
    case None
    then show ?thesis using 2(2) by simp
  next
    case (Some p)
    then have cp: "(c, p) \<in> up h" using 2(3) by (simp add: up_def)
    then have p: "p < length h" using up_less 2(4) by blast
    show ?thesis
    proof (cases "q = c")
      case False
      then have "(p, q) \<in> (up h)\<^sup>*" using 2 Some p by auto
      then show ?thesis using cp by (rule converse_rtrancl_into_rtrancl [rotated])
    qed simp
  qed
qed simp

lemma up_chain_distinct: "c < length h \<Longrightarrow> tree_ok h \<Longrightarrow> distinct (up_chain n h c)"
proof (induction n h c rule: up_chain.induct)
  case (2 n h c)
  show ?case
  proof (cases "parent_box h c")
    case (Some p)
    then have cp: "(c, p) \<in> up h" using 2(2) by (simp add: up_def)
    then have p: "p < length h" using up_less 2(3) by blast
    have "c \<notin> set (up_chain n h p)"
    proof
      assume "c \<in> set (up_chain n h p)"
      then have "(p, c) \<in> (up h)\<^sup>*" using up_chain_reach p 2(3) by blast
      then have "(c, c) \<in> (up h)\<^sup>+" using cp by (rule rtrancl_into_trancl2 [rotated])
      then show False using tree_okD(4) [OF 2(3)] by (simp add: acyclic_def)
    qed
    then show ?thesis using 2 Some p by simp
  qed simp
qed simp

lemma up_chain_length: "length (up_chain n h c) \<le> n"
  by (induction n h c rule: up_chain.induct) (auto split: option.splits)

lemma up_chain_ends:
  "0 < n \<Longrightarrow> up_chain n h c \<noteq> [] \<and> hd (up_chain n h c) = c \<and> (length (up_chain n h c) = n \<or> parent_box h (last (up_chain n h c)) = None)"
proof (induction n h c rule: up_chain.induct)
  case (2 n h c)
  show ?case
  proof (cases "parent_box h c")
    case (Some p)
    then show ?thesis
    proof (cases n)
      case (Suc m)
      then have "up_chain n h p \<noteq> []" "length (up_chain n h p) = n \<or> parent_box h (last (up_chain n h p)) = None"
        using 2(1) [OF Some] by auto
      then show ?thesis using Some by auto
    qed simp
  qed simp
qed simp

lemma up_chain_last:
  "tree_ok h \<Longrightarrow> c < length h \<Longrightarrow> q \<in> set (up_chain n h c) \<Longrightarrow> (q, last (up_chain n h c)) \<in> (up h)\<^sup>*"
proof (induction n h c arbitrary: q rule: up_chain.induct)
  case (2 n h c)
  show ?case
  proof (cases "parent_box h c")
    case None
    then show ?thesis using 2(4) by simp
  next
    case (Some p)
    then have cp: "(c, p) \<in> up h" using 2(3) by (simp add: up_def)
    then have p: "p < length h" using up_less 2(2) by blast
    show ?thesis
    proof (cases "up_chain n h p = []")
      case False
      then have "last (up_chain (Suc n) h c) = last (up_chain n h p)" using Some by simp
      moreover have "q = c \<or> q \<in> set (up_chain n h p)" using 2(4) Some by auto
      moreover have "(c, last (up_chain n h p)) \<in> (up h)\<^sup>*"
      proof -
        have "hd (up_chain n h p) = p" using up_chain_ends [of n h p] False by (cases n) auto
        then have "p \<in> set (up_chain n h p)" using False by (metis hd_in_set)
        then have "(p, last (up_chain n h p)) \<in> (up h)\<^sup>*" using 2(1) [OF Some 2(2) p] by blast
        then show ?thesis using cp by (rule converse_rtrancl_into_rtrancl [rotated])
      qed
      ultimately show ?thesis using 2(1) [OF Some 2(2) p] by auto
    qed (use 2(4) Some in simp)
  qed
qed simp

lemma chain_top:
  assumes "tree_ok h" and "c < length h"
  shows "parent_box h (last (chain h c)) = None"
proof (rule ccontr)
  assume "parent_box h (last (chain h c)) \<noteq> None"
  then obtain p where p: "parent_box h (last (chain h c)) = Some p" by blast
  have len: "length (chain h c) = length h" "chain h c \<noteq> []"
    using up_chain_ends [of "length h" h c] p assms(2) unfolding chain_def by fastforce+
  have d: "distinct (chain h c)" using up_chain_distinct assms by (simp add: chain_def)
  have sub: "set (chain h c) \<subseteq> {..<length h}"
    unfolding chain_def using up_chain_reach [OF _ assms(2,1)] up_rtrancl_less [OF assms(1) _ assms(2)] by blast
  have "card (set (chain h c)) = length h" using d len distinct_card by fastforce
  then have all: "set (chain h c) = {..<length h}" using sub by (simp add: card_subset_eq)
  have last: "last (chain h c) < length h" using sub len(2) last_in_set by blast
  then have e: "(last (chain h c), p) \<in> up h" using p by (simp add: up_def)
  then have "p \<in> set (chain h c)" using up_less assms(1) all by blast
  then have "(p, last (chain h c)) \<in> (up h)\<^sup>*" using up_chain_last assms by (simp add: chain_def)
  then have "(last (chain h c), last (chain h c)) \<in> (up h)\<^sup>+" using e by (rule rtrancl_into_trancl2 [rotated])
  then show False using tree_okD(4) [OF assms(1)] by (simp add: acyclic_def)
qed

lemma up_chain_closed:
  "q \<in> set (up_chain n h c) \<Longrightarrow> q = last (up_chain n h c) \<or> (\<exists>p. parent_box h q = Some p \<and> p \<in> set (up_chain n h c))"
proof (induction n h c rule: up_chain.induct)
  case (2 n h c)
  show ?case
  proof (cases "parent_box h c")
    case None
    then show ?thesis using 2(2) by simp
  next
    case (Some p)
    show ?thesis
    proof (cases "up_chain n h p = []")
      case False
      then have "hd (up_chain n h p) = p" using up_chain_ends [of n h p] by (cases n) auto
      then have "p \<in> set (up_chain n h p)" using False by (metis hd_in_set)
      then show ?thesis using 2 Some False by auto
    qed (use 2(2) Some in simp)
  qed
qed simp

lemma chain_set:
  assumes "tree_ok h" and "c < length h"
  shows "q \<in> set (chain h c) \<longleftrightarrow> (c, q) \<in> (up h)\<^sup>*"
proof
  show "q \<in> set (chain h c) \<Longrightarrow> (c, q) \<in> (up h)\<^sup>*" using up_chain_reach assms by (simp add: chain_def)
  have c: "c \<in> set (chain h c)"
    using up_chain_ends [of "length h" h c] assms(2) by (metis chain_def hd_in_set length_greater_0_conv list.size(3) not_less_zero)
  assume "(c, q) \<in> (up h)\<^sup>*"
  then show "q \<in> set (chain h c)"
  proof (induction rule: rtrancl_induct)
    case (step x y)
    then have "parent_box h x = Some y" by (simp add: up_def)
    then show ?case using up_chain_closed [of x "length h" h c] step(3) chain_top [OF assms] by (auto simp: chain_def)
  qed (rule c)
qed

lemma chain_distinct: "tree_ok h \<Longrightarrow> c < length h \<Longrightarrow> distinct (chain h c)"
  by (simp add: chain_def up_chain_distinct)

lemma chain_Cons:
  assumes "c < length h"
  shows "chain h c = c # tl (chain h c)"
  using up_chain_ends [of "length h" h c] assms by (metis chain_def gr_zeroI list.collapse not_less_zero)

lemma no_cycle: "tree_ok h \<Longrightarrow> (a, b) \<in> (up h)\<^sup>* \<Longrightarrow> (b, a) \<in> (up h)\<^sup>+ \<Longrightarrow> False"
  using tree_okD(4) by (meson acyclic_def trancl_rtrancl_trancl rtrancl_trancl_trancl)

text \<open>Of the items in a container, one is on the way from \<open>p\<close> to the top when the container is and is
  not \<open>p\<close> itself, and none otherwise.\<close>

lemma up_linear:
  assumes "(p, x) \<in> (up h)\<^sup>*" and "(p, y) \<in> (up h)\<^sup>*"
  shows "(x, y) \<in> (up h)\<^sup>* \<or> (y, x) \<in> (up h)\<^sup>*"
  using assms(1)
proof (induction rule: rtrancl_induct)
  case (step x z)
  from step(3) show ?case
  proof
    assume xy: "(x, y) \<in> (up h)\<^sup>*"
    show ?thesis
    proof (cases "x = y")
      case True
      then show ?thesis using step(2) by blast
    next
      case False
      then obtain w where "(x, w) \<in> up h" "(w, y) \<in> (up h)\<^sup>*" using xy by (meson converse_rtranclE)
      then show ?thesis using up_single step(2) by blast
    qed
  next
    assume "(y, x) \<in> (up h)\<^sup>*"
    then show ?thesis using step(2) by (meson rtrancl.rtrancl_into_rtrancl)
  qed
qed (use assms(2) in simp)

lemma chain_children:
  assumes "tree_ok h" and "p < length h" and "c < length h"
  shows "length (filter (\<lambda>a. a \<in> set (chain h p)) (itemlist h c)) = (if c \<in> set (chain h p) \<and> c \<noteq> p then 1 else 0)"
proof -
  have mem: "q \<in> set (chain h p) \<longleftrightarrow> (p, q) \<in> (up h)\<^sup>*" for q using chain_set assms by blast
  have child: "(a, c) \<in> up h" if "a \<in> set (itemlist h c)" for a using that tree_okD(2) assms by (simp add: up_iff)
  have one: "a = b" if "a \<in> set (itemlist h c)" "b \<in> set (itemlist h c)" "(p, a) \<in> (up h)\<^sup>*" "(p, b) \<in> (up h)\<^sup>*" for a b
  proof (rule ccontr)
    assume "a \<noteq> b"
    have no: False if ab: "(a, b) \<in> (up h)\<^sup>*" "a \<noteq> b" "(a, c) \<in> up h" "(b, c) \<in> up h" for a b
    proof -
      obtain w where "(a, w) \<in> up h" "(w, b) \<in> (up h)\<^sup>*" using ab by (meson converse_rtranclE)
      then have "(c, b) \<in> (up h)\<^sup>*" using up_single ab(3) by blast
      then show False using no_cycle assms(1) ab(4) by blast
    qed
    show False using up_linear [OF that(3,4)] no \<open>a \<noteq> b\<close> child that(1,2) by blast
  qed
  show ?thesis
  proof (cases "c \<in> set (chain h p) \<and> c \<noteq> p")
    case True
    then have "(p, c) \<in> (up h)\<^sup>*" "p \<noteq> c" using mem by blast+
    then obtain x where x: "(p, x) \<in> (up h)\<^sup>*" "(x, c) \<in> up h" by (meson rtranclE)
    then have xc: "x \<in> set (itemlist h c)" using up_less assms(1) by blast
    have "filter (\<lambda>a. a \<in> set (chain h p)) (itemlist h c) = filter (\<lambda>a. a = x) (itemlist h c)"
      by (rule filter_cong) (use one x xc mem in auto)
    moreover have "length (filter (\<lambda>a. a = x) (itemlist h c)) = 1"
      using xc tree_okD(1) [OF assms(1,3)] by (simp add: distinct_length_filter Int_absorb1 inf.absorb2 Collect_conv_if)
    ultimately show ?thesis using True by simp
  next
    case False
    have "a \<notin> set (chain h p)" if "a \<in> set (itemlist h c)" for a
    proof
      assume "a \<in> set (chain h p)"
      then have "(p, a) \<in> (up h)\<^sup>*" "(a, c) \<in> up h" using mem child that by blast+
      then have "(p, c) \<in> (up h)\<^sup>+" by simp
      then show False using False mem tree_okD(4) [OF assms(1)] by (auto simp: acyclic_def dest: trancl_into_rtrancl)
    qed
    then have "filter (\<lambda>a. a \<in> set (chain h p)) (itemlist h c) = []" by (simp add: filter_empty_conv)
    then show ?thesis using False by simp
  qed
qed

subsection \<open>Weights\<close>

text \<open>Everything of an item but the weight of its contents.\<close>

definition box_core :: "box \<Rightarrow> nat list \<times> u32 \<times> u32 \<times> bool \<times> bool \<times> bool" where
  "box_core b = (bx_items b, bx_maxSize b, bx_maxItems b, bx_unlocked b, bx_pagination b, bx_inbox b)"

definition item_core :: "item \<Rightarrow> u16 \<times> u8 \<times> attr_vector option \<times> parent \<times> bool \<times> bool \<times>
    (nat list \<times> u32 \<times> u32 \<times> bool \<times> bool \<times> bool) option" where
  "item_core x = (it_id x, it_count x, it_attrs x, it_parent x, it_loadedFromMap x, it_decayDisabled x, map_option box_core (it_box x))"

definition same_core :: "heap \<Rightarrow> heap \<Rightarrow> bool" where
  "same_core h h' \<longleftrightarrow> length h' = length h \<and> (\<forall>a<length h. item_core (h' ! a) = item_core (h ! a))"

lemma same_core_refl [simp]: "same_core h h"
  by (simp add: same_core_def)

lemma same_core_trans: "same_core h1 h2 \<Longrightarrow> same_core h2 h3 \<Longrightarrow> same_core h1 h3"
  by (simp add: same_core_def)

lemma item_core_facts:
  assumes "item_core x = item_core y"
  shows "it_id x = it_id y" and "it_count x = it_count y" and "it_attrs x = it_attrs y" and "it_parent x = it_parent y"
    and "it_loadedFromMap x = it_loadedFromMap y" and "it_decayDisabled x = it_decayDisabled y"
    and "map_option box_core (it_box x) = map_option box_core (it_box y)"
  using assms by (simp_all add: item_core_def)

lemma same_core_facts:
  assumes "same_core h h'" and "a < length h"
  shows "it_id (h' ! a) = it_id (h ! a)" and "it_count (h' ! a) = it_count (h ! a)" and "it_attrs (h' ! a) = it_attrs (h ! a)"
    and "it_parent (h' ! a) = it_parent (h ! a)" and "itemlist h' a = itemlist h a" and "is_box h' a = is_box h a"
    and "is_box h a \<Longrightarrow> bx_maxSize (box_of h' a) = bx_maxSize (box_of h a) \<and> bx_pagination (box_of h' a) = bx_pagination (box_of h a)"
    and "item_weight T (h' ! a) = item_weight T (h ! a)"
proof -
  have c: "item_core (h' ! a) = item_core (h ! a)" using assms by (simp add: same_core_def)
  show "it_id (h' ! a) = it_id (h ! a)" "it_count (h' ! a) = it_count (h ! a)" "it_attrs (h' ! a) = it_attrs (h ! a)"
    "it_parent (h' ! a) = it_parent (h ! a)" using c by (simp_all add: item_core_def)
  then show "item_weight T (h' ! a) = item_weight T (h ! a)"
    by (simp add: item_weight_def isStackable_def getBaseWeight_def hasAttribute_def getInteger_def item_vector_def)
  have b: "map_option box_core (it_box (h' ! a)) = map_option box_core (it_box (h ! a))" using c by (rule item_core_facts)
  then show "itemlist h' a = itemlist h a" "is_box h' a = is_box h a"
    "is_box h a \<Longrightarrow> bx_maxSize (box_of h' a) = bx_maxSize (box_of h a) \<and> bx_pagination (box_of h' a) = bx_pagination (box_of h a)"
    by (cases "it_box (h' ! a)"; cases "it_box (h ! a)"; simp add: itemlist_def is_box_def box_of_def box_core_def)+
qed

lemma same_core_up: "same_core h h' \<Longrightarrow> up h' = up h"
proof -
  assume a: "same_core h h'"
  have "(x, p) \<in> up h' \<longleftrightarrow> (x, p) \<in> up h" for x p
  proof (cases "x < length h")
    case True
    then show ?thesis using same_core_facts(4) [OF a True] a by (simp add: up_iff same_core_def)
  next
    case False
    then show ?thesis using a by (simp add: up_iff same_core_def)
  qed
  then show ?thesis by (simp add: set_eq_iff split_paired_all)
qed

lemma same_core_sym: "same_core h h' \<Longrightarrow> same_core h' h"
  by (simp add: same_core_def)

lemma same_core_tree1:
  assumes "same_core h h'" and "tree_ok h"
  shows "tree_ok h'"
proof -
  have len: "length h' = length h" using assms(1) by (simp add: same_core_def)
  note f = same_core_facts(4,5) [OF assms(1)]
  have "distinct (itemlist h' c) \<and> (\<forall>a\<in>set (itemlist h' c). a < length h' \<and> it_parent (h' ! a) = In_Box c)" if "c < length h'" for c
    using that tree_okD(1,2) [OF assms(2)] f len by simp
  moreover have "p < length h' \<and> a \<in> set (itemlist h' p)" if "a < length h'" "it_parent (h' ! a) = In_Box p" for a p
  proof -
    have a: "a < length h" "it_parent (h ! a) = In_Box p" using that f len by simp_all
    then have "p < length h \<and> a \<in> set (itemlist h p)" using tree_okD(3) [OF assms(2)] by blast
    then show ?thesis using f len by simp
  qed
  moreover have "acyclic (up h')" using same_core_up [OF assms(1)] tree_okD(4) [OF assms(2)] by simp
  ultimately show ?thesis unfolding tree_ok_def by blast
qed

lemma same_core_tree: "same_core h h' \<Longrightarrow> tree_ok h' = tree_ok h"
  using same_core_tree1 same_core_sym by blast

lemma length_upd_item [simp]: "length (upd_item a f h) = length h"
  by (simp add: upd_item_def)

lemma upd_item_nth: "upd_item a f h ! b = (if b = a \<and> a < length h then f (h ! a) else h ! b)"
  by (cases "a < length h") (simp_all add: upd_item_def nth_list_update list_update_beyond not_less)

lemma length_upd_box [simp]: "length (upd_box c f h) = length h"
  by (simp add: upd_box_def)

lemma upd_weight_core: "same_core h (upd_box c (\<lambda>b. b\<lparr>bx_weight := f b\<rparr>) h)"
proof -
  have "item_core (x\<lparr>it_box := map_option (\<lambda>b. b\<lparr>bx_weight := f b\<rparr>) (it_box x)\<rparr>) = item_core x" for x
    by (cases "it_box x") (simp_all add: item_core_def box_core_def)
  then show ?thesis by (simp add: same_core_def upd_box_def upd_item_nth)
qed

definition bump :: "u32 \<Rightarrow> nat list \<Rightarrow> heap \<Rightarrow> heap" where
  "bump d l h = fold (\<lambda>p. upd_box p (\<lambda>b. b\<lparr>bx_weight := bx_weight b + d\<rparr>)) l h"

lemma updateItemWeight_bump: "updateItemWeight c d h = bump d (chain h c) h"
  by (simp add: updateItemWeight_def bump_def)

lemma bump_core: "same_core h (bump d l h)"
  unfolding bump_def
proof (induction l arbitrary: h)
  case (Cons p l)
  then show ?case using same_core_trans [OF upd_weight_core Cons] by simp
qed simp

lemma length_bump [simp]: "length (bump d l h) = length h"
  using bump_core [of h d l] by (simp add: same_core_def)

definition contents :: "heap \<Rightarrow> nat \<Rightarrow> u32" where
  "contents h c = (case it_box (h ! c) of None \<Rightarrow> 0 | Some b \<Rightarrow> bx_weight b)"

lemma getWeight_contents: "getWeight T (h ! c) = item_weight T (h ! c) + contents h c"
  by (simp add: getWeight_def contents_def)

lemma bump_contents:
  assumes "c < length h" and "is_box h c"
  shows "contents (bump d l h) c = contents h c + of_nat (count_list l c) * d"
  using assms
proof (induction l arbitrary: h)
  case Nil
  then show ?case by (simp add: bump_def)
next
  case (Cons p l)
  let ?h = "upd_box p (\<lambda>b. b\<lparr>bx_weight := bx_weight b + d\<rparr>) h"
  have "is_box ?h c" using same_core_facts(6) [OF upd_weight_core Cons.prems(1)] Cons.prems(2) by simp
  then have "contents (bump d l ?h) c = contents ?h c + of_nat (count_list l c) * d" using Cons by simp
  moreover have "contents ?h c = contents h c + (if c = p then d else 0)"
    using Cons.prems by (auto simp: contents_def upd_box_def upd_item_nth is_box_def)
  ultimately show ?case by (simp add: bump_def algebra_simps)
qed

text \<open>The weight a container keeps is that of its contents, but for \<open>d\<close> in the container \<open>p\<close>.\<close>

definition held_weight :: "types \<Rightarrow> heap \<Rightarrow> nat \<Rightarrow> u32" where
  "held_weight T h c = sum_list (map (\<lambda>a. getWeight T (h ! a)) (itemlist h c))"

definition weights_off :: "types \<Rightarrow> nat \<Rightarrow> u32 \<Rightarrow> heap \<Rightarrow> bool" where
  "weights_off T p d h \<longleftrightarrow> (\<forall>c<length h. is_box h c \<longrightarrow> contents h c + (if c = p then d else 0) = held_weight T h c)"

definition weights_ok :: "types \<Rightarrow> heap \<Rightarrow> bool" where
  "weights_ok T h \<longleftrightarrow> (\<forall>c<length h. is_box h c \<longrightarrow> contents h c = held_weight T h c)"

lemma sum_list_indicator: "sum_list (map (\<lambda>a. if P a then d else 0) l) = of_nat (length (filter P l)) * (d :: u32)"
  by (induction l) (simp_all add: algebra_simps)

lemma count_distinct: "distinct l \<Longrightarrow> count_list l c = (if c \<in> set l then 1 else 0)"
  by (induction l) auto

lemma bump_weights:
  assumes ok: "tree_ok h" and p: "p < length h" and off: "weights_off T p d h"
    and boxes: "\<And>q. q \<in> set (chain h p) \<Longrightarrow> is_box h q"
  shows "weights_off T p (d - e) (updateItemWeight p e h)"
proof -
  let ?h = "updateItemWeight p e h"
  have core: "same_core h ?h" by (simp add: updateItemWeight_bump bump_core)
  have len: "length ?h = length h" using core by (simp add: same_core_def)
  have new: "contents ?h c = contents h c + (if c \<in> set (chain h p) then e else 0)" if "c < length h" for c
  proof (cases "is_box h c")
    case True
    have "count_list (chain h p) c = (if c \<in> set (chain h p) then 1 else 0)"
      by (rule count_distinct [OF chain_distinct [OF ok p]])
    then show ?thesis using bump_contents [OF that True] by (simp add: updateItemWeight_bump)
  next
    case False
    then have "contents h c = 0" "contents ?h c = 0" using same_core_facts(6) [OF core that] by (auto simp: contents_def is_box_def)
    then show ?thesis using boxes False by auto
  qed
  show ?thesis unfolding weights_off_def
  proof (intro allI impI)
    fix c assume c: "c < length ?h" and box: "is_box ?h c"
    then have c': "c < length h" and b': "is_box h c" using len same_core_facts(6) [OF core] by auto
    have "held_weight T ?h c = sum_list (map (\<lambda>a. getWeight T (h ! a) + (if a \<in> set (chain h p) then e else 0)) (itemlist h c))"
    proof -
      have "getWeight T (?h ! a) = getWeight T (h ! a) + (if a \<in> set (chain h p) then e else 0)" if "a \<in> set (itemlist h c)" for a
      proof -
        have a: "a < length h" using that tree_okD(2) [OF ok c'] by blast
        then show ?thesis using new [OF a] same_core_facts(8) [OF core a] by (simp add: getWeight_contents)
      qed
      then show ?thesis using same_core_facts(5) [OF core c'] by (simp add: held_weight_def cong: map_cong)
    qed
    also have "\<dots> = held_weight T h c + of_nat (length (filter (\<lambda>a. a \<in> set (chain h p)) (itemlist h c))) * e"
      by (simp only: sum_list_addf held_weight_def sum_list_indicator)
    also have "\<dots> = held_weight T h c + (if c \<in> set (chain h p) \<and> c \<noteq> p then e else 0)"
      by (simp add: chain_children [OF ok p c'])
    finally have held: "held_weight T ?h c = held_weight T h c + (if c \<in> set (chain h p) \<and> c \<noteq> p then e else 0)" .
    have p_in: "p \<in> set (chain h p)" using chain_Cons [OF p] by (metis list.set_intros(1))
    have "contents h c + (if c = p then d else 0) = held_weight T h c" using off c' b' by (simp add: weights_off_def)
    then show "contents ?h c + (if c = p then d - e else 0) = held_weight T ?h c"
      using held new [OF c'] p_in by auto
  qed
qed

end
