(* ===== verification/Container_Ops.thy ===== *)
theory Container_Ops
  imports Container_Tree
begin

text \<open>
  The operations on the list of items of a container: each keeps the tree well-formed and the weights exact,
  and changes the number of units of an item kind in the tree by exactly what it puts in or takes out.
\<close>

subsection \<open>Units in the tree\<close>

definition amount_of :: "types \<Rightarrow> u16 \<Rightarrow> item \<Rightarrow> nat" where
  "amount_of T k x = (if it_id x = k then if isStackable T x then unat (it_count x) else 1 else 0)"

definition placed_units :: "types \<Rightarrow> u16 \<Rightarrow> item \<Rightarrow> nat" where
  "placed_units T k x = (if it_parent x = No_Parent then 0 else amount_of T k x)"

definition units :: "types \<Rightarrow> u16 \<Rightarrow> heap \<Rightarrow> nat" where
  "units T k h = sum_list (map (placed_units T k) h)"

lemma sum_list_nth_update:
  "i < length l \<Longrightarrow> sum_list (map f (l[i := x])) + f (l ! i) = sum_list (map f l) + (f x :: nat)"
proof (induction l arbitrary: i)
  case (Cons y l)
  then show ?case by (cases i) auto
qed simp

lemma units_upd_item:
  "a < length h \<Longrightarrow> units T k (upd_item a f h) + placed_units T k (h ! a) = units T k h + placed_units T k (f (h ! a))"
  unfolding units_def upd_item_def by (rule sum_list_nth_update)

lemma units_append: "units T k (h @ [x]) = units T k h + placed_units T k x"
  by (simp add: units_def)

lemma core_placed_units: "item_core x = item_core y \<Longrightarrow> placed_units T k x = placed_units T k y"
  by (simp add: placed_units_def amount_of_def isStackable_def item_core_def)

lemma core_units:
  assumes "same_core h h'"
  shows "units T k h' = units T k h"
proof -
  have "map (placed_units T k) h' = map (placed_units T k) h"
  proof (rule nth_equalityI)
    show len: "length (map (placed_units T k) h') = length (map (placed_units T k) h)" using assms by (simp add: same_core_def)
    fix a assume "a < length (map (placed_units T k) h')"
    then have a: "a < length h" "a < length h'" using len by simp_all
    then have "item_core (h' ! a) = item_core (h ! a)" using assms by (simp add: same_core_def)
    then have "placed_units T k (h' ! a) = placed_units T k (h ! a)" by (rule core_placed_units)
    then show "map (placed_units T k) h' ! a = map (placed_units T k) h ! a" using a by simp
  qed
  then show ?thesis by (simp add: units_def)
qed

lemma units_upd_box: "units T k (upd_box c f h) = units T k h"
proof (cases "c < length h")
  case True
  have "placed_units T k (x\<lparr>it_box := b\<rparr>) = placed_units T k x" for x b
    by (simp add: placed_units_def amount_of_def isStackable_def)
  then show ?thesis using units_upd_item [OF True, of T k "\<lambda>x. x\<lparr>it_box := map_option f (it_box x)\<rparr>"] by (simp add: upd_box_def)
next
  case False
  then show ?thesis by (simp add: upd_box_def upd_item_def list_update_beyond)
qed

subsection \<open>The invariant of the heap\<close>

definition items_ok :: "types \<Rightarrow> heap \<Rightarrow> bool" where
  "items_ok T h \<longleftrightarrow> (\<forall>a<length h. (is_box h a \<longrightarrow> \<not> isStackable T (h ! a)) \<and>
     (isStackable T (h ! a) \<longrightarrow> unat (it_count (h ! a)) \<le> getStackSize T (h ! a) \<and> ty_replacedBy (T (it_id (h ! a))) = None))"

definition heap_ok :: "types \<Rightarrow> heap \<Rightarrow> bool" where
  "heap_ok T h \<longleftrightarrow> tree_ok h \<and> weights_ok T h \<and> items_ok T h"

lemma heap_okD: "heap_ok T h \<Longrightarrow> tree_ok h" "heap_ok T h \<Longrightarrow> weights_ok T h" "heap_ok T h \<Longrightarrow> items_ok T h"
  by (simp_all add: heap_ok_def)

lemma heap_okI: "tree_ok h \<Longrightarrow> weights_ok T h \<Longrightarrow> items_ok T h \<Longrightarrow> heap_ok T h"
  by (simp add: heap_ok_def)

lemma weights_off_0: "weights_off T p 0 h \<longleftrightarrow> weights_ok T h"
  by (simp add: weights_off_def weights_ok_def)

lemma core_items_ok:
  assumes "same_core h h'" and "items_ok T h"
  shows "items_ok T h'"
proof -
  have "isStackable T (h' ! a) = isStackable T (h ! a) \<and> getStackSize T (h' ! a) = getStackSize T (h ! a)" if "a < length h" for a
    using same_core_facts(1) [OF assms(1) that] by (simp add: isStackable_def getStackSize_def)
  then show ?thesis using assms(2) same_core_facts(1,2,6) [OF assms(1)] assms(1) by (simp add: items_ok_def same_core_def)
qed

lemma chain_boxes:
  assumes ok: "tree_ok h" and c: "c < length h" "is_box h c" and q: "q \<in> set (chain h c)"
  shows "is_box h q"
proof -
  have "(c, q) \<in> (up h)\<^sup>*" using q chain_set [OF ok c(1)] by blast
  then show ?thesis
  proof (cases rule: rtranclE)
    case (step x)
    then have "x \<in> set (itemlist h q)" using up_less [OF ok] by blast
    then show ?thesis by (cases "it_box (h ! q)") (simp_all add: itemlist_def is_box_def)
  qed (use c in simp)
qed

text \<open>A change of the tree that is off by \<open>d\<close> in the container \<open>c\<close>, put right by \<open>updateItemWeight\<close>.\<close>

lemma bump_heap_ok:
  assumes "tree_ok h" and "c < length h" and "is_box h c" and "weights_off T c d h" and "items_ok T h"
  shows "heap_ok T (updateItemWeight c d h)" and "units T k (updateItemWeight c d h) = units T k h"
    and "same_core h (updateItemWeight c d h)"
proof -
  show core: "same_core h (updateItemWeight c d h)" by (simp add: updateItemWeight_bump bump_core)
  then show "units T k (updateItemWeight c d h) = units T k h" by (rule core_units)
  have "weights_off T c (d - d) (updateItemWeight c d h)"
    by (rule bump_weights [OF assms(1,2,4)]) (rule chain_boxes [OF assms(1,2,3)])
  then show "heap_ok T (updateItemWeight c d h)"
    using same_core_tree [OF core] assms(1) core_items_ok [OF core assms(5)] weights_off_0 by (auto intro: heap_okI)
qed

subsection \<open>Putting an item in\<close>

lemma insert_front_nth:
  assumes "a \<noteq> c" and "a < length h" and "c < length h"
  shows "insert_front c a h ! b = (if b = a then (h ! a)\<lparr>it_parent := In_Box c\<rparr>
    else if b = c then (h ! c)\<lparr>it_box := map_option (\<lambda>x. x\<lparr>bx_items := a # bx_items x\<rparr>) (it_box (h ! c))\<rparr> else h ! b)"
  using assms by (simp add: insert_front_def upd_box_def upd_item_nth)

lemma insert_front_length [simp]: "length (insert_front c a h) = length h"
  by (simp add: insert_front_def)

lemma insert_front_lists:
  assumes "a \<noteq> c" and "a < length h" and "c < length h" and "is_box h c"
  shows "itemlist (insert_front c a h) b = (if b = c then a # itemlist h c else itemlist h b)"
    and "is_box (insert_front c a h) b = is_box h b"
    and "contents (insert_front c a h) b = contents h b"
    and "item_weight T (insert_front c a h ! b) = item_weight T (h ! b)"
    and "it_parent (insert_front c a h ! b) = (if b = a then In_Box c else it_parent (h ! b))"
    and "it_id (insert_front c a h ! b) = it_id (h ! b)" and "it_count (insert_front c a h ! b) = it_count (h ! b)"
  using assms(1,4) by (auto simp: insert_front_nth [OF assms(1-3)] itemlist_def is_box_def contents_def item_weight_def isStackable_def
      getBaseWeight_def hasAttribute_def getInteger_def item_vector_def)

lemma insert_front_tree:
  assumes ok: "tree_ok h" and c: "c < length h" "is_box h c" and a: "a < length h" "it_parent (h ! a) = No_Parent" "a \<notin> set (chain h c)"
  shows "tree_ok (insert_front c a h)"
proof -
  have ac: "a \<noteq> c" using a(3) chain_Cons [OF c(1)] by (metis list.set_intros(1))
  note f = insert_front_lists [OF ac a(1) c]
  have fresh: "a \<notin> set (itemlist h b)" if "b < length h" for b using tree_okD(2) [OF ok that] a(2) by fastforce
  have up: "up (insert_front c a h) = insert (a, c) (up h)"
    using a(1,2) by (auto simp: up_iff f split: if_splits)
  have "(c, a) \<notin> (up h)\<^sup>*" using a(3) chain_set [OF ok c(1)] by blast
  then have "acyclic (up (insert_front c a h))" unfolding up using tree_okD(4) [OF ok] by (simp add: acyclic_insert)
  moreover have "distinct (itemlist (insert_front c a h) b) \<and>
      (\<forall>x\<in>set (itemlist (insert_front c a h) b). x < length (insert_front c a h) \<and> it_parent (insert_front c a h ! x) = In_Box b)"
    if "b < length (insert_front c a h)" for b
    using that tree_okD(1,2) [OF ok] fresh a(1) c(1) by (auto simp: f)
  moreover have "p < length (insert_front c a h) \<and> x \<in> set (itemlist (insert_front c a h) p)"
    if "x < length (insert_front c a h)" "it_parent (insert_front c a h ! x) = In_Box p" for x p
    using that tree_okD(3) [OF ok] c(1) by (auto simp: f split: if_splits)
  ultimately show ?thesis unfolding tree_ok_def by blast
qed

lemma insert_front_off:
  assumes ok: "tree_ok h" and w: "weights_ok T h" and c: "c < length h" "is_box h c" and a: "a < length h" "a \<noteq> c"
  shows "weights_off T c (getWeight T (insert_front c a h ! a)) (insert_front c a h)"
proof -
  note f = insert_front_lists [OF a(2,1) c]
  have g: "getWeight T (insert_front c a h ! b) = getWeight T (h ! b)" for b by (simp add: getWeight_contents f)
  show ?thesis using w by (auto simp: weights_off_def weights_ok_def held_weight_def f g)
qed

lemma insert_front_items_ok: "items_ok T h \<Longrightarrow> a \<noteq> c \<Longrightarrow> a < length h \<Longrightarrow> c < length h \<Longrightarrow> is_box h c \<Longrightarrow> items_ok T (insert_front c a h)"
  by (simp add: items_ok_def insert_front_lists isStackable_def getStackSize_def)

lemma insert_front_units:
  assumes "a \<noteq> c" and "a < length h" and "it_parent (h ! a) = No_Parent"
  shows "units T k (insert_front c a h) = units T k h + amount_of T k (h ! a)"
proof -
  have "units T k (upd_item a (\<lambda>x. x\<lparr>it_parent := In_Box c\<rparr>) h) = units T k h + amount_of T k (h ! a)"
    using units_upd_item [OF assms(2), of T k "\<lambda>x. x\<lparr>it_parent := In_Box c\<rparr>"] assms(3)
    by (simp add: placed_units_def amount_of_def isStackable_def)
  then show ?thesis by (simp add: insert_front_def units_upd_box)
qed

text \<open>\<open>addThing\<close> at an index the container has.\<close>

lemma addThing_ok:
  assumes ok: "heap_ok T h" and c: "c < length h" "is_box h c"
    and a: "a < length h" "it_parent (h ! a) = No_Parent" "a \<notin> set (chain h c)"
    and i: "index < sint (bx_maxSize (box_of h c))"
  shows "heap_ok T (addThing T c index a h)" and "units T k (addThing T c index a h) = units T k h + amount_of T k (h ! a)"
    and "length (addThing T c index a h) = length h"
proof -
  have ac: "a \<noteq> c" using a(3) chain_Cons [OF c(1)] by (metis list.set_intros(1))
  let ?g = "insert_front c a h"
  have tree: "tree_ok ?g" using insert_front_tree [OF heap_okD(1) [OF ok] c a] .
  have off: "weights_off T c (getWeight T (?g ! a)) ?g" using insert_front_off [OF heap_okD(1,2) [OF ok] c a(1) ac] .
  have box: "is_box ?g c" using insert_front_lists(2) [OF ac a(1) c] c(2) by simp
  have items: "items_ok T ?g" using insert_front_items_ok [OF heap_okD(3) [OF ok] ac a(1) c] .
  have e: "addThing T c index a h = updateItemWeight c (getWeight T (?g ! a)) ?g" using i by (simp add: addThing_def Let_def)
  note b = bump_heap_ok [OF tree _ box off items, simplified, OF c(1)]
  show "heap_ok T (addThing T c index a h)" unfolding e by (rule b(1))
  show "units T k (addThing T c index a h) = units T k h + amount_of T k (h ! a)"
    unfolding e b(2) by (rule insert_front_units [OF ac a(1,2)])
  show "length (addThing T c index a h) = length h" unfolding e by (simp add: updateItemWeight_bump)
qed

subsection \<open>Taking an item out\<close>

lemma getThingIndex_in: "getThingIndex h c a \<noteq> - 1 \<longleftrightarrow> a \<in> set (itemlist h c)"
  using find_index_less [of "\<lambda>x. x = a" "itemlist h c"] by (auto simp: getThingIndex_def Let_def)

lemma erase_first: "a \<in> set l \<Longrightarrow> erase_at (find_index (\<lambda>x. x = a) l) l = remove1 a l"
  by (rule erase_first_remove1) (simp add: find_index_less)

lemma box_list: "a \<in> set (itemlist h c) \<Longrightarrow> is_box h c \<and> it_box (h ! c) = Some (box_of h c) \<and> itemlist h c = bx_items (box_of h c)"
  by (cases "it_box (h ! c)") (simp_all add: itemlist_def is_box_def box_of_def)

lemma child_not_self:
  assumes "tree_ok h" and "c < length h" and "a \<in> set (itemlist h c)"
  shows "a \<noteq> c"
proof
  assume "a = c"
  then have "(c, c) \<in> up h" using tree_okD(2) [OF assms] by (simp add: up_iff)
  then show False using tree_okD(4) [OF assms(1)] by (auto simp: acyclic_def)
qed

lemma erase_item_length [simp]: "length (erase_item c a h) = length h"
  by (simp add: erase_item_def)

lemma erase_item_lists:
  assumes "a \<noteq> c" and "a < length h" and "c < length h" and "a \<in> set (itemlist h c)"
  shows "itemlist (erase_item c a h) b = (if b = c then remove1 a (itemlist h c) else itemlist h b)"
    and "is_box (erase_item c a h) b = is_box h b"
    and "contents (erase_item c a h) b = contents h b"
    and "item_weight T (erase_item c a h ! b) = item_weight T (h ! b)"
    and "it_parent (erase_item c a h ! b) = (if b = a then No_Parent else it_parent (h ! b))"
    and "it_id (erase_item c a h ! b) = it_id (h ! b)" and "it_count (erase_item c a h ! b) = it_count (h ! b)"
    and "it_attrs (erase_item c a h ! b) = it_attrs (h ! b)"
    and "is_box h b \<Longrightarrow> bx_maxSize (box_of (erase_item c a h) b) = bx_maxSize (box_of h b)"
proof -
  have n: "erase_item c a h ! b = (if b = a then (h ! a)\<lparr>it_parent := No_Parent\<rparr>
    else if b = c then (h ! c)\<lparr>it_box := Some ((box_of h c)\<lparr>bx_items := remove1 a (itemlist h c)\<rparr>)\<rparr> else h ! b)" for b
    using assms(1-3) box_list [OF assms(4)] erase_first [of a "bx_items (box_of h c)"] assms(4)
    by (simp add: erase_item_def upd_box_def upd_item_nth)
  show "itemlist (erase_item c a h) b = (if b = c then remove1 a (itemlist h c) else itemlist h b)"
      "is_box (erase_item c a h) b = is_box h b" "contents (erase_item c a h) b = contents h b"
      "is_box h b \<Longrightarrow> bx_maxSize (box_of (erase_item c a h) b) = bx_maxSize (box_of h b)"
      "it_parent (erase_item c a h ! b) = (if b = a then No_Parent else it_parent (h ! b))"
    using assms(1) box_list [OF assms(4)] unfolding itemlist_def is_box_def contents_def box_of_def n by auto
  show "it_id (erase_item c a h ! b) = it_id (h ! b)" "it_count (erase_item c a h ! b) = it_count (h ! b)"
    "it_attrs (erase_item c a h ! b) = it_attrs (h ! b)" unfolding n by auto
  then show "item_weight T (erase_item c a h ! b) = item_weight T (h ! b)"
    by (simp add: item_weight_def isStackable_def getBaseWeight_def hasAttribute_def getInteger_def item_vector_def)
qed

lemma erase_item_up:
  assumes "a \<noteq> c" and "a < length h" and "c < length h" and "a \<in> set (itemlist h c)"
  shows "up (erase_item c a h) \<subseteq> up h"
  by (auto simp: up_iff erase_item_lists [OF assms] split: if_splits)

lemma erase_item_tree:
  assumes ok: "tree_ok h" and c: "c < length h" and a: "a \<in> set (itemlist h c)"
  shows "tree_ok (erase_item c a h)"
proof -
  have ac: "a \<noteq> c" "a < length h" using child_not_self [OF ok c a] tree_okD(2) [OF ok c a] by simp_all
  note f = erase_item_lists [OF ac c a]
  have "acyclic (up (erase_item c a h))" using acyclic_subset [OF tree_okD(4) [OF ok] erase_item_up [OF ac c a]] .
  moreover have only: "b = c" if "b < length h" "a \<in> set (itemlist h b)" for b
    using tree_okD(2) [OF ok that] tree_okD(2) [OF ok c a] by simp
  have "distinct (itemlist (erase_item c a h) b) \<and>
      (\<forall>x\<in>set (itemlist (erase_item c a h) b). x < length (erase_item c a h) \<and> it_parent (erase_item c a h ! x) = In_Box b)"
    if "b < length (erase_item c a h)" for b
  proof -
    have b: "b < length h" using that by simp
    have d: "distinct (itemlist h b)" using tree_okD(1) [OF ok b] .
    have m: "x < length h \<and> it_parent (h ! x) = In_Box b" if "x \<in> set (itemlist h b)" for x using tree_okD(2) [OF ok b that] .
    have "distinct (itemlist (erase_item c a h) b)" using d by (cases "b = c") (simp_all add: f)
    moreover have "x < length (erase_item c a h) \<and> it_parent (erase_item c a h ! x) = In_Box b"
      if x: "x \<in> set (itemlist (erase_item c a h) b)" for x
    proof -
      have "x \<in> set (itemlist h b) \<and> x \<noteq> a"
      proof (cases "b = c")
        case True
        then show ?thesis using x d by (simp add: f)
      next
        case False
        then show ?thesis using x only [OF b] by (auto simp: f)
      qed
      then show ?thesis using m by (simp add: f)
    qed
    ultimately show ?thesis by blast
  qed
  moreover have "p < length (erase_item c a h) \<and> x \<in> set (itemlist (erase_item c a h) p)"
    if "x < length (erase_item c a h)" "it_parent (erase_item c a h ! x) = In_Box p" for x p
  proof -
    have x: "x \<noteq> a" "it_parent (h ! x) = In_Box p" using that(2) by (simp_all add: f split: if_splits)
    then have "p < length h \<and> x \<in> set (itemlist h p)" using tree_okD(3) [OF ok _ x(2)] that(1) by simp
    then show ?thesis using x(1) by (cases "p = c") (simp_all add: f)
  qed
  ultimately show ?thesis unfolding tree_ok_def by blast
qed

lemma sum_list_remove1: "a \<in> set l \<Longrightarrow> sum_list (map f (remove1 a l)) = sum_list (map f l) - (f a :: u32)"
  by (induction l) auto

lemma erase_item_off:
  assumes off: "weights_off T c d h" and c: "c < length h" and a: "a \<in> set (itemlist h c)" "a < length h" "a \<noteq> c"
  shows "weights_off T c (d - getWeight T (h ! a)) (erase_item c a h)"
proof -
  note f = erase_item_lists [OF a(3,2) c a(1)]
  have g: "getWeight T (erase_item c a h ! b) = getWeight T (h ! b)" for b by (simp add: getWeight_contents f)
  have "contents (erase_item c a h) b + (if b = c then d - getWeight T (h ! a) else 0) = held_weight T (erase_item c a h) b"
    if "b < length h" "is_box h b" for b
  proof -
    have "contents h b + (if b = c then d else 0) = held_weight T h b" using off that by (simp add: weights_off_def)
    then show ?thesis using sum_list_remove1 [OF a(1), of "\<lambda>x. getWeight T (h ! x)"]
      by (auto simp: held_weight_def f g algebra_simps)
  qed
  then show ?thesis by (simp add: weights_off_def f)
qed

lemma erase_item_items_ok:
  "items_ok T h \<Longrightarrow> a \<noteq> c \<Longrightarrow> a < length h \<Longrightarrow> c < length h \<Longrightarrow> a \<in> set (itemlist h c) \<Longrightarrow> items_ok T (erase_item c a h)"
  by (simp add: items_ok_def erase_item_lists isStackable_def getStackSize_def)

lemma erase_item_units:
  assumes "a < length h" and "it_parent (h ! a) = In_Box c"
  shows "units T k (erase_item c a h) + amount_of T k (h ! a) = units T k h"
proof -
  have "units T k (upd_item a (\<lambda>x. x\<lparr>it_parent := No_Parent\<rparr>) h) + amount_of T k (h ! a) = units T k h"
    using units_upd_item [OF assms(1), of T k "\<lambda>x. x\<lparr>it_parent := No_Parent\<rparr>"] assms(2)
    by (simp add: placed_units_def amount_of_def isStackable_def)
  then show ?thesis by (simp add: erase_item_def units_upd_box)
qed

subsection \<open>Changing an item where it is\<close>

lemma upd_in_place:
  assumes ok: "heap_ok T h" and c: "c < length h" and a: "a \<in> set (itemlist h c)"
    and f: "it_parent (f (h ! a)) = it_parent (h ! a)" "it_box (f (h ! a)) = it_box (h ! a)"
  defines "g \<equiv> upd_item a f h"
  shows "tree_ok g" and "weights_off T c (getWeight T (g ! a) - getWeight T (h ! a)) g"
    and "is_box g c" and "a < length h" and "chain g b = chain h b"
proof -
  have a': "a < length h" "it_parent (h ! a) = In_Box c" using tree_okD(2) [OF heap_okD(1) [OF ok] c a] by simp_all
  then show "a < length h" by simp
  have n: "it_parent (g ! b) = it_parent (h ! b)" "it_box (g ! b) = it_box (h ! b)" for b using f by (auto simp: g_def upd_item_nth)
  have len: "length g = length h" by (simp add: g_def)
  have l: "itemlist g b = itemlist h b" "is_box g b = is_box h b" "contents g b = contents h b" for b
    by (simp_all add: itemlist_def is_box_def contents_def n)
  have up: "up g = up h" by (auto simp: up_iff n len)
  show "tree_ok g" using heap_okD(1) [OF ok] unfolding tree_ok_def up n l len .
  show "is_box g c" using box_list [OF a] l by simp
  have p: "parent_box g b = parent_box h b" for b by (simp add: parent_box_def n)
  have "up_chain k g b = up_chain k h b" for k by (induction k arbitrary: b) (auto simp: p split: option.splits)
  then show "chain g b = chain h b" by (simp add: chain_def len)
  have w: "getWeight T (g ! b) = getWeight T (h ! b) + (if b = a then getWeight T (g ! a) - getWeight T (h ! a) else 0)" for b
    by (simp add: g_def upd_item_nth)
  have "held_weight T g b = held_weight T h b + (if b = c then getWeight T (g ! a) - getWeight T (h ! a) else 0)" if b: "b < length h" for b
  proof -
    have "length (filter (\<lambda>x. x = a) (itemlist h b)) = (if b = c then 1 else 0)"
    proof (cases "b = c")
      case True
      then show ?thesis using a tree_okD(1) [OF heap_okD(1) [OF ok] b] by (simp add: distinct_length_filter Collect_conv_if)
    next
      case False
      then have "a \<notin> set (itemlist h b)" using tree_okD(2) [OF heap_okD(1) [OF ok] b, of a] a' by auto
      then show ?thesis using False by (auto simp: filter_empty_conv)
    qed
    then show ?thesis unfolding held_weight_def l by (subst w) (simp add: sum_list_addf sum_list_indicator)
  qed
  then show "weights_off T c (getWeight T (g ! a) - getWeight T (h ! a)) g"
    using heap_okD(2) [OF ok] by (simp add: weights_off_def weights_ok_def l len)
qed

lemma upd_in_place_bump:
  assumes ok: "heap_ok T h" and c: "c < length h" and a: "a \<in> set (itemlist h c)"
    and f: "it_parent (f (h ! a)) = it_parent (h ! a)" "it_box (f (h ! a)) = it_box (h ! a)"
    and items: "items_ok T (upd_item a f h)"
  defines "g \<equiv> upd_item a f h"
  shows "heap_ok T (updateItemWeight c (getWeight T (g ! a) - getWeight T (h ! a)) g)"
    and "same_core g (updateItemWeight c (getWeight T (g ! a) - getWeight T (h ! a)) g)"
    and "units T k (updateItemWeight c (getWeight T (g ! a) - getWeight T (h ! a)) g) = units T k g"
proof -
  note p = upd_in_place [where f = f, OF ok c a f, folded g_def]
  have len: "c < length g" using c by (simp add: g_def)
  note b = bump_heap_ok [OF p(1) len p(3) p(2) items [folded g_def]]
  show "heap_ok T (updateItemWeight c (getWeight T (g ! a) - getWeight T (h ! a)) g)" by (rule b(1))
  show "same_core g (updateItemWeight c (getWeight T (g ! a) - getWeight T (h ! a)) g)" by (rule b(3))
  show "units T k (updateItemWeight c (getWeight T (g ! a) - getWeight T (h ! a)) g) = units T k g" by (rule b(2))
qed

lemma items_ok_upd:
  assumes "items_ok T h" and "is_box (upd_item a f h) a \<longrightarrow> \<not> isStackable T (f (h ! a))"
    and "isStackable T (f (h ! a)) \<longrightarrow> unat (it_count (f (h ! a))) \<le> getStackSize T (f (h ! a))" and "it_id (f (h ! a)) = it_id (h ! a)"
  shows "items_ok T (upd_item a f h)"
proof -
  have o: "upd_item a f h ! b = h ! b" "is_box (upd_item a f h) b = is_box h b" if "b \<noteq> a" for b
    using that by (simp_all add: upd_item_nth is_box_def)
  show ?thesis unfolding items_ok_def
  proof (intro allI impI)
    fix b assume b: "b < length (upd_item a f h)"
    show "(is_box (upd_item a f h) b \<longrightarrow> \<not> isStackable T (upd_item a f h ! b)) \<and>
      (isStackable T (upd_item a f h ! b) \<longrightarrow> unat (it_count (upd_item a f h ! b)) \<le> getStackSize T (upd_item a f h ! b) \<and>
        ty_replacedBy (T (it_id (upd_item a f h ! b))) = None)"
    proof (cases "b = a")
      case True
      then have "isStackable T (f (h ! a)) \<longrightarrow> ty_replacedBy (T (it_id (h ! a))) = None"
        using assms(1,4) b by (simp add: items_ok_def isStackable_def)
      then show ?thesis using True assms(2-4) b by (simp add: upd_item_nth)
    next
      case False
      then show ?thesis using assms(1) b by (simp add: o items_ok_def)
    qed
  qed
qed

text \<open>Taking a part of a stack.\<close>

lemma sint_u32_small:
  assumes "unat (w :: u32) < 2 ^ 31"
  shows "sint w = int (unat w)"
proof -
  have "int (unat w) < int (2 ^ 31)" using assms by (simp only: of_nat_less_iff)
  then have u: "uint w < 2 ^ 31" by simp
  have "sint w = signed_take_bit 31 (uint w)" by (simp add: sint_uint)
  also have "\<dots> = uint w"
  proof (rule signed_take_bit_int_eq_self)
    show "- (2 ^ 31) \<le> uint w" by (rule order_trans [OF _ uint_ge_0]) simp
  qed (rule u)
  finally show ?thesis by simp
qed

lemma remove_part:
  assumes ok: "heap_ok T h" and c: "c < length h" and a: "a \<in> set (itemlist h c)"
    and m: "isStackable T (h ! a)" "m < ucast (it_count (h ! a))"
  defines "g \<equiv> removeThing T c a m h"
  shows "heap_ok T g" and "units T k g + (if it_id (h ! a) = k then unat m else 0) = units T k h" and "length g = length h"
    and "same_core (upd_item a (\<lambda>x. x\<lparr>it_count := it_count x - ucast m\<rparr>) h) g"
proof -
  let ?f = "\<lambda>x. x\<lparr>it_count := it_count x - ucast m\<rparr>"
  have a': "a < length h" "it_parent (h ! a) = In_Box c" using tree_okD(2) [OF heap_okD(1) [OF ok] c a] by simp_all
  have cnt: "unat m < unat (it_count (h ! a))" using m(2) by (simp add: word_less_nat_alt unat_ucast_up)
  then have m8: "unat (ucast m :: u8) = unat m"
    using unsigned_less [of "it_count (h ! a)", where ?'a = nat] by (simp add: take_bit_nat_eq_self unsigned_ucast_eq)
  let ?d = "ucast (it_count (h ! a)) - m"
  have d: "unat ?d = unat (it_count (h ! a)) - unat m" using m(2) by (simp add: unat_sub order_less_imp_le unat_ucast_up)
  then have "unat ?d < 256" using unsigned_less [of "it_count (h ! a)", where ?'a = nat] by simp
  then have "\<not> sint ?d < 0" by (simp add: sint_u32_small)
  moreover have "(ucast ?d :: u8) = it_count (h ! a) - ucast m"
  proof -
    have "unat (ucast ?d :: u8) = unat (it_count (h ! a)) - unat m"
      using d \<open>unat ?d < 256\<close> by (simp add: unsigned_ucast_eq take_bit_nat_eq_self)
    moreover have "unat (it_count (h ! a) - ucast m) = unat (it_count (h ! a)) - unat m"
      using m8 cnt by (simp add: unat_sub word_le_nat_alt)
    ultimately show ?thesis by (simp add: word_unat_eq_iff)
  qed
  moreover have "getThingIndex h c a \<noteq> - 1" using a getThingIndex_in by blast
  moreover have "m \<noteq> ucast (it_count (h ! a))" using m(2) by auto
  ultimately have g: "g = updateItemWeight c (getWeight T (upd_item a ?f h ! a) - getWeight T (h ! a)) (upd_item a ?f h)"
    using m(1) a'(1) by (simp add: g_def removeThing_def Let_def upd_item_def)
  have same: "it_parent (?f (h ! a)) = it_parent (h ! a)" "it_box (?f (h ! a)) = it_box (h ! a)" by simp_all
  have items: "items_ok T (upd_item a ?f h)"
  proof (rule items_ok_upd)
    show "items_ok T h" using ok heap_okD by blast
    show "is_box (upd_item a ?f h) a \<longrightarrow> \<not> isStackable T (?f (h ! a))"
      using heap_okD(3) [OF ok] a'(1) by (auto simp: items_ok_def is_box_def upd_item_nth isStackable_def)
    have "unat (it_count (h ! a)) \<le> getStackSize T (h ! a)" using heap_okD(3) [OF ok] a'(1) m(1) by (simp add: items_ok_def)
    moreover have "unat (it_count (h ! a) - ucast m) \<le> unat (it_count (h ! a))" using m8 cnt by (simp add: unat_sub word_le_nat_alt)
    ultimately show "isStackable T (?f (h ! a)) \<longrightarrow> unat (it_count (?f (h ! a))) \<le> getStackSize T (?f (h ! a))"
      by (cases "isStackable T (h ! a)") (simp_all add: getStackSize_def isStackable_def)
  qed simp
  note b = upd_in_place_bump [where f = ?f, OF ok c a same items, folded g]
  show "heap_ok T g" by (rule b(1))
  show core: "same_core (upd_item a ?f h) g" by (rule b(2))
  then show "length g = length h" by (simp add: same_core_def)
  have "units T k (upd_item a ?f h) + placed_units T k (h ! a) = units T k h + placed_units T k (?f (h ! a))"
    by (rule units_upd_item [OF a'(1)])
  moreover have "unat (it_count (h ! a) - ucast m) = unat (it_count (h ! a)) - unat m"
    using m8 cnt by (simp add: unat_sub word_le_nat_alt)
  ultimately show "units T k g + (if it_id (h ! a) = k then unat m else 0) = units T k h"
    using b(3) [of k] a'(2) m(1) cnt by (simp add: placed_units_def amount_of_def isStackable_def split: if_splits)
qed

text \<open>Taking a whole item.\<close>

lemma remove_whole:
  assumes ok: "heap_ok T h" and c: "c < length h" and a: "a \<in> set (itemlist h c)"
    and m: "\<not> isStackable T (h ! a) \<or> m = ucast (it_count (h ! a))"
  defines "g \<equiv> removeThing T c a m h"
  shows "heap_ok T g" and "units T k g + amount_of T k (h ! a) = units T k h" and "length g = length h"
    and "same_core (erase_item c a h) g"
proof -
  let ?b = "updateItemWeight c (- getWeight T (h ! a)) h"
  have t: "tree_ok h" using ok heap_okD by blast
  have a': "a < length h" "it_parent (h ! a) = In_Box c" using tree_okD(2) [OF t c a] by simp_all
  have ac: "a \<noteq> c" using child_not_self [OF t c a] .
  have core: "same_core h ?b" by (simp add: updateItemWeight_bump bump_core)
  have len: "length ?b = length h" using core by (simp add: same_core_def)
  have g: "g = erase_item c a ?b" using a m getThingIndex_in [of h c a] by (auto simp: g_def removeThing_def)
  have "weights_off T c 0 h" using heap_okD(2) [OF ok] by (simp add: weights_off_0)
  then have off: "weights_off T c (0 - - getWeight T (h ! a)) ?b"
    by (rule bump_weights [OF t c]) (rule chain_boxes [OF t c], use box_list [OF a] in auto)
  have tb: "tree_ok ?b" using same_core_tree [OF core] t by simp
  have ab: "a \<in> set (itemlist ?b c)" "a < length ?b" using same_core_facts(5) [OF core c] a a' len by simp_all
  have w: "getWeight T (?b ! a) = getWeight T (h ! a)"
  proof -
    have "a \<notin> set (chain h c)"
    proof
      assume "a \<in> set (chain h c)"
      then have "(c, a) \<in> (up h)\<^sup>*" using chain_set [OF t c] by blast
      moreover have "(a, c) \<in> up h" using a' by (simp add: up_iff)
      ultimately show False using no_cycle [OF t] by blast
    qed
    then have z: "count_list (chain h c) a = 0" by (simp add: count_list_0_iff)
    have "contents ?b a = contents h a"
    proof (cases "is_box h a")
      case True
      then show ?thesis using bump_contents [OF a'(1) True] z by (simp add: updateItemWeight_bump)
    next
      case False
      then show ?thesis using same_core_facts(6) [OF core a'(1)] by (auto simp: contents_def is_box_def)
    qed
    then show ?thesis using same_core_facts(8) [OF core a'(1)] by (simp add: getWeight_contents)
  qed
  have "weights_off T c (getWeight T (h ! a) - getWeight T (?b ! a)) g"
    unfolding g using erase_item_off [OF off _ ab ac] c len by simp
  then have wok: "weights_ok T g" using w by (simp add: weights_off_0)
  have tg: "tree_ok g" unfolding g using erase_item_tree [OF tb _ ab(1)] c len by simp
  have ig: "items_ok T g" unfolding g
    using erase_item_items_ok [OF core_items_ok [OF core heap_okD(3) [OF ok]] ac ab(2) _ ab(1)] c len by simp
  show "heap_ok T g" using tg wok ig by (rule heap_okI)
  show "length g = length h" by (simp add: g len)
  have pb: "it_parent (?b ! a) = In_Box c" using same_core_facts(4) [OF core a'(1)] a' by simp
  have "amount_of T k (?b ! a) = amount_of T k (h ! a)"
    using same_core_facts(1,2) [OF core a'(1)] by (simp add: amount_of_def isStackable_def)
  then show "units T k g + amount_of T k (h ! a) = units T k h"
    using erase_item_units [OF ab(2) pb, of T k] core_units [OF core, of T k] by (simp add: g)
  show "same_core (erase_item c a h) g"
  proof -
    have "item_core (g ! b) = item_core (erase_item c a h ! b)" if b: "b < length h" for b
    proof -
      have x: "item_core (?b ! b) = item_core (h ! b)" using core b by (simp add: same_core_def)
      have y: "item_core (x\<lparr>it_parent := p\<rparr>) = item_core (y\<lparr>it_parent := p\<rparr>)" if "item_core x = item_core y" for x y p
        using that by (simp add: item_core_def)
      have z: "item_core (x\<lparr>it_box := map_option F (it_box x)\<rparr>) = item_core (y\<lparr>it_box := map_option F (it_box y)\<rparr>)"
        if "item_core x = item_core y" "F = (\<lambda>b. b\<lparr>bx_items := L (bx_items b)\<rparr>)" for x y F L
        using that by (cases "it_box x"; cases "it_box y") (simp_all add: item_core_def box_core_def)
      show ?thesis
      proof (cases "b = a")
        case True
        then show ?thesis using y [OF x] a' ac c len by (simp add: g erase_item_def upd_box_def upd_item_nth)
      next
        case False
        then show ?thesis using x z [OF x refl, of "\<lambda>l. erase_at (find_index (\<lambda>x. x = a) l) l"] a' c len
          by (cases "b = c") (simp_all add: g erase_item_def upd_box_def upd_item_nth)
      qed
    qed
    then show ?thesis by (simp add: same_core_def g len)
  qed
qed

end
