(* ===== verification/Item_Moves.thy ===== *)
theory Item_Moves
  imports Container_Ops
begin

text \<open>
  Moving, adding and removing items in containers (\<open>Game::internalMoveItem\<close>, \<open>internalAddItem\<close>,
  \<open>internalRemoveItem\<close>), and what they do to the tree. The calls that start and stop the decay of
  items are recorded in the order they are made; notifications, sounds and messages are left out,
  and so are tiles and inventories as source or destination, and with them the exchange of items.
\<close>

subsection \<open>The operations\<close>

datatype decay_call = Start_Decay nat | Stop_Decay nat

record item_world =
  w_heap :: heap
  w_decay :: "decay_call list"

definition upd_heap :: "(heap \<Rightarrow> heap) \<Rightarrow> item_world \<Rightarrow> item_world" where
  "upd_heap f w = w\<lparr>w_heap := f (w_heap w)\<rparr>"

definition startDecaying :: "nat \<Rightarrow> item_world \<Rightarrow> item_world" where
  "startDecaying a w = w\<lparr>w_decay := w_decay w @ map Start_Decay (a # (if is_box (w_heap w) a then getItems (w_heap w) a else []))\<rparr>"

definition stopDecaying :: "nat \<Rightarrow> item_world \<Rightarrow> item_world" where
  "stopDecaying a w = w\<lparr>w_decay := w_decay w @ map Stop_Decay (a # (if is_box (w_heap w) a then getItems (w_heap w) a else []))\<rparr>"

definition MAP_MAX_LAYERS :: nat where "MAP_MAX_LAYERS = 16"

text \<open>The destination is asked until it names itself, at most \<open>MAP_MAX_LAYERS\<close> times.\<close>

fun find_destination :: "nat \<Rightarrow> types \<Rightarrow> heap \<Rightarrow> nat \<Rightarrow> int \<Rightarrow> nat \<Rightarrow> nat option \<Rightarrow> move_flags \<Rightarrow>
    nat \<times> int \<times> nat option \<times> move_flags" where
  "find_destination 0 T h c index a dest fl = (c, index, dest, fl)"
| "find_destination (Suc n) T h c index a dest fl = (case queryDestination T h c index a dest fl of
     (s, i, d) \<Rightarrow> if s = c then (c, i, d, fl) else find_destination n T h s i a d no_flags)"

text \<open>How many units go onto the stack \<open>dest\<close>.\<close>

definition merge_count :: "types \<Rightarrow> heap \<Rightarrow> nat \<Rightarrow> nat option \<Rightarrow> u32 \<Rightarrow> u32" where
  "merge_count T h a dest m = (case dest of
       Some x \<Rightarrow> if heap_equals h a x then min (of_nat (getStackSize T (h ! x)) - ucast (it_count (h ! x))) m else 0
     | None \<Rightarrow> 0)"

definition put_on_stack :: "types \<Rightarrow> nat \<Rightarrow> nat \<Rightarrow> nat option \<Rightarrow> u32 \<Rightarrow> heap \<Rightarrow> heap" where
  "put_on_stack T c a dest n h = (case dest of
       Some x \<Rightarrow> if heap_equals h a x then updateThing T c x (it_id (h ! x)) (ucast (it_count (h ! x)) + n) h else h
     | None \<Rightarrow> h)"

definition merged_into :: "heap \<Rightarrow> nat \<Rightarrow> nat option \<Rightarrow> nat option" where
  "merged_into h a dest = (case dest of Some x \<Rightarrow> if heap_equals h a x then Some x else None | None \<Rightarrow> None)"

text \<open>A copy of the item with another count is a new item; \<open>None\<close> is a null pointer.\<close>

definition split_off :: "world_env \<Rightarrow> nat \<Rightarrow> u32 \<Rightarrow> heap \<Rightarrow> nat option \<times> heap" where
  "split_off E a n h = (case clone (ev_types E) (h ! a) of
       None \<Rightarrow> (None, h)
     | Some x \<Rightarrow> (Some (length h), h @ [x\<lparr>it_count := ucast n\<rparr>]))"

text \<open>The part of \<open>internalMoveItem\<close> that changes the items: \<open>m\<close> units leave \<open>from\<close> and enter \<open>to\<close>.\<close>

definition transfer_stack :: "world_env \<Rightarrow> nat \<Rightarrow> nat \<Rightarrow> int \<Rightarrow> nat \<Rightarrow> u32 \<Rightarrow> nat option \<Rightarrow> item_world \<Rightarrow> nat option \<times> nat option \<times> item_world" where
  "transfer_stack E from to index a m dest w =
     (let T = ev_types E; h1 = removeThing T from a m (w_heap w);
          n = merge_count T h1 a dest m; h2 = put_on_stack T to a dest n h1;
          (mv, h3) = (if sint (m - n) > 0 then split_off E a (m - n) h2 else (None, h2));
          w3 = w\<lparr>w_heap := h3\<rparr>;
          w4 = (if item_isRemoved h3 a then stopDecaying a w3 else w3);
          w5 = (case mv of None \<Rightarrow> w4 | Some x \<Rightarrow> startDecaying x (upd_heap (addThing T to index x) w4));
          w6 = (case merged_into h1 a dest of None \<Rightarrow> w5 | Some x \<Rightarrow> startDecaying x w5)
      in (mv, merged_into h1 a dest, w6))"

definition transfer_item :: "world_env \<Rightarrow> nat \<Rightarrow> nat \<Rightarrow> int \<Rightarrow> nat \<Rightarrow> u32 \<Rightarrow> item_world \<Rightarrow> item_world" where
  "transfer_item E from to index a m w =
     startDecaying a (upd_heap (\<lambda>h. addThing (ev_types E) to index a (removeThing (ev_types E) from a m h)) w)"

datatype move_result = Refused return_value | Moved return_value nat

definition internalMoveItem :: "world_env \<Rightarrow> nat \<Rightarrow> nat \<Rightarrow> int \<Rightarrow> nat \<Rightarrow> u32 \<Rightarrow> nat option \<Rightarrow> move_flags \<Rightarrow> item_world \<Rightarrow>
    move_result \<times> item_world" where
  "internalMoveItem E from to0 index0 a count0 tradeItem fl0 w =
     (let h = w_heap w; T = ev_types E; (to, index, dest, fl) = find_destination MAP_MAX_LAYERS T h to0 index0 a None fl0 in
      if dest = Some a then (Refused RET_NOERROR, w)
      else
       (let count = (if isStackable T (h ! a) \<and> count0 = 255 \<and> parent_box h from = Some to then ucast (it_count (h ! a)) else count0);
            r1 = queryRemove T h from a 1 fl; r2 = queryAdd E h to index a count fl;
            (rmax, maxCount) = queryMaxCount E h to index a count fl;
            m = (if isStackable T (h ! a) then min count maxCount else maxCount);
            r3 = queryRemove T h from a m fl
        in if r1 \<noteq> RET_NOERROR then (Refused r1, w)
           else if r2 \<noteq> RET_NOERROR then (Refused r2, w)
           else if rmax \<noteq> RET_NOERROR \<and> maxCount = 0 then (Refused rmax, w)
           else if r3 \<noteq> RET_NOERROR then (Refused r3, w)
           else if (case tradeItem of Some t \<Rightarrow> t \<in> set (chain h to) | None \<Rightarrow> False) then (Refused RET_NOTENOUGHROOM, w)
           else if isStackable T (h ! a)
           then (case transfer_stack E from to index a m dest w of
               (mv, _, w') \<Rightarrow> (Moved (if maxCount < count then rmax else RET_NOERROR) (case mv of Some x \<Rightarrow> x | None \<Rightarrow> a), w'))
           else (Moved RET_NOERROR a, transfer_item E from to index a m w)))"

definition ITEM_REWARD_CONTAINER :: u16 where "ITEM_REWARD_CONTAINER = 19202"

text \<open>\<open>internalAddItem\<close>: what a found stack cannot take is put back through a call for a new item. The
  result is the return value, the units that found no place in that call, and the world. A call merges or
  splits off at least one unit before it calls itself, so the units of the item bound the depth.\<close>

fun internalAddItem :: "nat \<Rightarrow> world_env \<Rightarrow> nat \<Rightarrow> nat \<Rightarrow> int \<Rightarrow> move_flags \<Rightarrow> bool \<Rightarrow> item_world \<Rightarrow> return_value \<times> u32 \<times> item_world" where
  "internalAddItem 0 E c a index0 fl test w = (RET_NOTPOSSIBLE, 0, w)"
| "internalAddItem (Suc fuel) E c a index0 fl test w =
     (let h = w_heap w; T = ev_types E; (to, index, dest) = queryDestination T h c index0 a None fl;
          r = queryAdd E h to index a (ucast (it_count (h ! a))) fl;
          (rmax, maxCount) = queryMaxCount E h c INDEX_WHEREEVER a (ucast (it_count (h ! a))) fl
      in if r \<noteq> RET_NOERROR then (r, 0, w)
         else if rmax \<noteq> RET_NOERROR \<and> it_id (h ! c) \<noteq> ITEM_REWARD_CONTAINER then (rmax, 0, w)
         else if test then (RET_NOERROR, 0, w)
         else if isStackable T (h ! a) \<and> merged_into h a dest \<noteq> None then
           (let m = min (ucast (it_count (h ! a))) maxCount; n = merge_count T h a dest m;
                h1 = put_on_stack T to a dest n h; count = m - n
            in if sint count > 0 then
                 (if ucast (it_count (h1 ! a)) \<noteq> count then
                    (case split_off E a count h1 of
                       (None, h2) \<Rightarrow> (RET_NOTPOSSIBLE, 0, w\<lparr>w_heap := h2\<rparr>)
                     | (Some x, h2) \<Rightarrow>
                        (case internalAddItem fuel E c x INDEX_WHEREEVER fl False (w\<lparr>w_heap := h2\<rparr>) of
                           (r2, _, w2) \<Rightarrow> (RET_NOERROR, if r2 \<noteq> RET_NOERROR then count else 0, w2)))
                  else (RET_NOERROR, 0, w\<lparr>w_heap := addThing T to index a h1\<rparr>))
               else (RET_NOERROR, 0, w\<lparr>w_heap := h1\<rparr>))
         else (RET_NOERROR, 0, w\<lparr>w_heap := addThing T to index a h\<rparr>))"

definition canDecay :: "types \<Rightarrow> heap \<Rightarrow> nat \<Rightarrow> bool" where
  "canDecay T h a \<longleftrightarrow> \<not> item_isRemoved h a \<and> \<not> it_decayDisabled (h ! a) \<and> \<not> ty_decayTo (T (it_id (h ! a))) < 0 \<and>
     ty_decayTime (T (it_id (h ! a))) \<noteq> 0 \<and> \<not> hasAttribute UNIQUEID (h ! a)"

definition internalRemoveItem :: "world_env \<Rightarrow> nat \<Rightarrow> int \<Rightarrow> bool \<Rightarrow> move_flags \<Rightarrow> bool \<Rightarrow> item_world \<Rightarrow> return_value \<times> item_world" where
  "internalRemoveItem E a count test fl force w =
     (let h = w_heap w; T = ev_types E in
      case parent_box h a of
        None \<Rightarrow> (RET_NOTPOSSIBLE, w)
      | Some c \<Rightarrow>
         (let n = (if count = - 1 then ucast (it_count (h ! a)) else word_of_int count);
              r = queryRemove T h c a n (fl\<lparr>fl_ignoreNotMovable := True\<rparr>)
          in if \<not> force \<and> r \<noteq> RET_NOERROR then (r, w)
             else if \<not> force \<and> canDecay T h a \<and> \<not> item_isRemoved h a \<and> it_loadedFromMap (h ! a)
             then (RET_THISISIMPOSSIBLE, stopDecaying a w)
             else if test then (RET_NOERROR, w)
             else (let w1 = upd_heap (removeThing T c a n) w
                   in (RET_NOERROR, if item_isRemoved (w_heap w1) a then stopDecaying a w1 else w1))))"

subsection \<open>Merging and splitting stacks\<close>

text \<open>What is assumed of the type table: a stackable type is a plain item of its own id, and a type that is replaced
  by another one stacks like it.\<close>

definition types_ok :: "world_env \<Rightarrow> bool" where
  "types_ok E \<longleftrightarrow> (\<forall>i. (ty_stackable (ev_types E i) \<longrightarrow> \<not> ty_fluid (ev_types E i) \<and> ty_id (ev_types E i) = i \<and> i \<noteq> 0) \<and>
     (\<forall>j. ty_replacedBy (ev_types E i) = Some j \<longrightarrow> ty_replacedBy (ev_types E j) = None \<and>
        ty_stackable (ev_types E j) = ty_stackable (ev_types E i) \<and> ty_stackSize (ev_types E j) = ty_stackSize (ev_types E i)))"

lemma attr_ops_keep:
  "it_id (setAttribute t n x) = it_id x" "it_count (setAttribute t n x) = it_count x" "it_parent (setAttribute t n x) = it_parent x"
  "it_box (setAttribute t n x) = it_box x" "it_id (removeAttribute t x) = it_id x" "it_count (removeAttribute t x) = it_count x"
  "it_parent (removeAttribute t x) = it_parent x" "it_box (removeAttribute t x) = it_box x"
  by (simp_all add: setAttribute_def removeAttribute_def)

lemma decay_ops_keep:
  "it_id (setDecaying s x) = it_id x" "it_count (setDecaying s x) = it_count x" "it_parent (setDecaying s x) = it_parent x"
  "it_box (setDecaying s x) = it_box x" "it_id (setDuration d x) = it_id x" "it_count (setDuration d x) = it_count x"
  "it_parent (setDuration d x) = it_parent x" "it_box (setDuration d x) = it_box x"
  by (simp_all add: setDecaying_def setDuration_def Let_def attr_ops_keep)

lemma setID_keep:
  "it_id (setID T i x) = i" "it_count (setID T i x) = it_count x" "it_parent (setID T i x) = it_parent x" "it_box (setID T i x) = it_box x"
  by (simp_all add: setID_def Let_def attr_ops_keep decay_ops_keep)

lemma unat_ucast_small: "unat (w :: 'a::len word) < 2 ^ LENGTH('b) \<Longrightarrow> unat (ucast w :: 'b::len word) = unat w"
  by (simp add: unsigned_ucast_eq take_bit_nat_eq_self)

text \<open>Putting units onto a stack that has room for them.\<close>

lemma put_units:
  assumes ok: "heap_ok T h" and c: "c < length h" and x: "x \<in> set (itemlist h c)"
    and s: "isStackable T (h ! x)" "\<not> ty_fluid (T (it_id (h ! x)))" and n: "unat (it_count (h ! x)) + unat n \<le> getStackSize T (h ! x)"
  defines "g \<equiv> updateThing T c x (it_id (h ! x)) (ucast (it_count (h ! x)) + n) h"
  shows "heap_ok T g" and "units T k g = units T k h + (if it_id (h ! x) = k then unat n else 0)" and "length g = length h"
    and "b < length h \<Longrightarrow> itemlist g b = itemlist h b \<and> is_box g b = is_box h b \<and> it_parent (g ! b) = it_parent (h ! b) \<and>
      it_id (g ! b) = it_id (h ! b) \<and> (b \<noteq> x \<longrightarrow> it_count (g ! b) = it_count (h ! b)) \<and>
      (is_box h b \<longrightarrow> bx_maxSize (box_of g b) = bx_maxSize (box_of h b))"
proof -
  let ?f = "\<lambda>y. setSubType T (ucast (ucast (it_count (h ! x)) + n)) (setID T (it_id (h ! x)) y)"
  let ?u = "upd_item x ?f h"
  have x': "x < length h" "it_parent (h ! x) = In_Box c" using tree_okD(2) [OF heap_okD(1) [OF ok] c x] by simp_all
  have st: "ty_stackable (T (it_id (h ! x)))" using s(1) by (simp add: isStackable_def)
  have f: "it_id (?f y) = it_id (h ! x)" "it_count (?f y) = ucast (ucast (ucast (it_count (h ! x)) + n) :: u16)" "it_parent (?f y) = it_parent y"
    "it_box (?f y) = it_box y" for y
    using st s(2) by (simp_all add: setSubType_def Let_def setID_keep)
  have size: "getStackSize T (h ! x) < 256" using unsigned_less [of "ty_stackSize (T (it_id (h ! x)))", where ?'a = nat] by (simp add: getStackSize_def)
  have w32: "unat (ucast (it_count (h ! x)) + n :: u32) = unat (it_count (h ! x)) + unat n"
  proof -
    have "unat (ucast (it_count (h ! x)) :: u32) + unat n < 2 ^ 32" using n size by (simp add: unat_ucast_up)
    then show ?thesis by (simp add: unat_word_ariths unat_ucast_up)
  qed
  have cnt: "unat (ucast (ucast (ucast (it_count (h ! x)) + n :: u32) :: u16) :: u8) = unat (it_count (h ! x)) + unat n"
    using w32 n size unat_ucast_small [where 'b = 16, of "ucast (it_count (h ! x)) + n"]
      unat_ucast_small [where 'b = 8, of "ucast (ucast (it_count (h ! x)) + n :: u32) :: u16"] by simp
  have items: "items_ok T ?u"
  proof (rule items_ok_upd)
    show "items_ok T h" using ok heap_okD by blast
    have "\<not> is_box h x" using heap_okD(3) [OF ok] x'(1) s(1) by (auto simp: items_ok_def)
    then show "is_box ?u x \<longrightarrow> \<not> isStackable T (?f (h ! x))" using f x'(1) by (simp add: is_box_def upd_item_nth)
    show "isStackable T (?f (h ! x)) \<longrightarrow> unat (it_count (?f (h ! x))) \<le> getStackSize T (?f (h ! x))"
      using n st by (simp add: f cnt getStackSize_def isStackable_def)
    show "it_id (?f (h ! x)) = it_id (h ! x)" by (rule f(1))
  qed
  have "getThingIndex h c x \<noteq> - 1" using x getThingIndex_in by blast
  then have g: "g = updateItemWeight c (getWeight T (?u ! x) - getWeight T (h ! x)) ?u"
    by (simp add: g_def updateThing_def Let_def)
  note b = upd_in_place_bump [where f = ?f, OF ok c x f(3,4) items, folded g]
  show "heap_ok T g" by (rule b(1))
  show len: "length g = length h" using b(2) by (simp add: same_core_def)
  have "units T k ?u + placed_units T k (h ! x) = units T k h + placed_units T k (?f (h ! x))" by (rule units_upd_item [OF x'(1)])
  moreover have "placed_units T k (?f (h ! x)) = placed_units T k (h ! x) + (if it_id (h ! x) = k then unat n else 0)"
    unfolding placed_units_def amount_of_def isStackable_def f using x'(2) st cnt by (cases "it_id (h ! x) = k") simp_all
  ultimately show "units T k g = units T k h + (if it_id (h ! x) = k then unat n else 0)" using b(3) [of k] by simp
  have u: "it_id (?u ! b) = it_id (h ! b)" "it_parent (?u ! b) = it_parent (h ! b)" "it_box (?u ! b) = it_box (h ! b)" for b
    by (auto simp: upd_item_nth f)
  show "itemlist g b = itemlist h b \<and> is_box g b = is_box h b \<and> it_parent (g ! b) = it_parent (h ! b) \<and>
      it_id (g ! b) = it_id (h ! b) \<and> (b \<noteq> x \<longrightarrow> it_count (g ! b) = it_count (h ! b)) \<and>
      (is_box h b \<longrightarrow> bx_maxSize (box_of g b) = bx_maxSize (box_of h b))" if "b < length h"
  proof -
    have l: "b < length ?u" using that by simp
    note s = same_core_facts [OF b(2) l]
    have v: "itemlist ?u b = itemlist h b" "is_box ?u b = is_box h b" "box_of ?u b = box_of h b"
      unfolding itemlist_def is_box_def box_of_def u(3) by (rule refl)+
    have w: "it_count (?u ! b) = it_count (h ! b)" if "b \<noteq> x" using that by (simp add: upd_item_nth)
    show ?thesis using s(1,2,4,5,6,7) u(1,2) v w by simp
  qed
qed

text \<open>What the change of an item \<open>a\<close> leaves as it was.\<close>

definition kept :: "nat \<Rightarrow> heap \<Rightarrow> heap \<Rightarrow> bool" where
  "kept a h h' \<longleftrightarrow> length h' = length h \<and> (\<forall>b<length h. is_box h' b = is_box h b \<and> it_id (h' ! b) = it_id (h ! b) \<and>
     (b \<noteq> a \<longrightarrow> it_count (h' ! b) = it_count (h ! b)) \<and> (is_box h b \<longrightarrow> bx_maxSize (box_of h' b) = bx_maxSize (box_of h b)) \<and>
     set (itemlist h b) - {a} \<subseteq> set (itemlist h' b))"

lemma keptD:
  assumes "kept a h h'"
  shows "length h' = length h"
    and "b < length h \<Longrightarrow> is_box h' b = is_box h b \<and> it_id (h' ! b) = it_id (h ! b)"
    and "b < length h \<Longrightarrow> b \<noteq> a \<Longrightarrow> it_count (h' ! b) = it_count (h ! b)"
    and "b < length h \<Longrightarrow> is_box h b \<Longrightarrow> bx_maxSize (box_of h' b) = bx_maxSize (box_of h b)"
    and "b < length h \<Longrightarrow> x \<in> set (itemlist h b) \<Longrightarrow> x \<noteq> a \<Longrightarrow> x \<in> set (itemlist h' b)"
  using assms unfolding kept_def by blast+

lemma core_kept: "same_core g h' \<Longrightarrow> kept a h g \<Longrightarrow> kept a h h'"
  unfolding kept_def
proof (intro conjI allI impI)
  assume c: "same_core g h'" and k: "length g = length h \<and> (\<forall>b<length h. is_box g b = is_box h b \<and> it_id (g ! b) = it_id (h ! b) \<and>
     (b \<noteq> a \<longrightarrow> it_count (g ! b) = it_count (h ! b)) \<and> (is_box h b \<longrightarrow> bx_maxSize (box_of g b) = bx_maxSize (box_of h b)) \<and>
     set (itemlist h b) - {a} \<subseteq> set (itemlist g b))"
  show "length h' = length h" using c k by (simp add: same_core_def)
  fix b assume "b < length h"
  then have b: "b < length g" using k by simp
  note s = same_core_facts [OF c b]
  note k' = k [THEN conjunct2, THEN spec, THEN mp, OF \<open>b < length h\<close>]
  show "is_box h' b = is_box h b" "it_id (h' ! b) = it_id (h ! b)" using s(1,6) k' by simp_all
  show "b \<noteq> a \<Longrightarrow> it_count (h' ! b) = it_count (h ! b)" using s(2) k' by simp
  show "is_box h b \<Longrightarrow> bx_maxSize (box_of h' b) = bx_maxSize (box_of h b)" using s(7) k' by simp
  show "set (itemlist h b) - {a} \<subseteq> set (itemlist h' b)" using s(5) k' by simp
qed

lemma remove1_superset: "set l - {a} \<subseteq> set (remove1 a l)"
proof
  fix x assume "x \<in> set l - {a}"
  then show "x \<in> set (remove1 a l)" by simp
qed

text \<open>Taking units off a stack, the whole stack or a part of it.\<close>

lemma take_units:
  assumes ok: "heap_ok T h" and c: "c < length h" and a: "a \<in> set (itemlist h c)"
    and m: "isStackable T (h ! a)" "0 < m" "m \<le> ucast (it_count (h ! a))"
  defines "g \<equiv> removeThing T c a m h"
  shows "heap_ok T g" and "units T k g + (if it_id (h ! a) = k then unat m else 0) = units T k h" and "kept a h g"
proof -
  have a': "a < length h" "it_parent (h ! a) = In_Box c" using tree_okD(2) [OF heap_okD(1) [OF ok] c a] by simp_all
  have "heap_ok T g \<and> units T k g + (if it_id (h ! a) = k then unat m else 0) = units T k h \<and> kept a h g"
  proof (cases "m = ucast (it_count (h ! a))")
    case True
    note r = remove_whole [OF ok c a disjI2 [OF True], folded g_def]
    have ac: "a \<noteq> c" using child_not_self [OF heap_okD(1) [OF ok] c a] .
    note e = erase_item_lists [OF ac a'(1) c a]
    have "set (itemlist h b) - {a} \<subseteq> set (itemlist (erase_item c a h) b)" for b
      using remove1_superset [of "itemlist h c" a] by (auto simp: e)
    then have "kept a h (erase_item c a h)" unfolding kept_def by (simp add: e)
    then have "kept a h g" using core_kept r(4) by blast
    moreover have "amount_of T k (h ! a) = (if it_id (h ! a) = k then unat m else 0)" using m(1) True by (simp add: amount_of_def unat_ucast_up)
    ultimately show ?thesis using r(1) r(2) [of k] by simp
  next
    case False
    then have "m < ucast (it_count (h ! a))" using m(3) by simp
    note r = remove_part [OF ok c a m(1) this, folded g_def]
    let ?f = "\<lambda>x. x\<lparr>it_count := it_count x - ucast m\<rparr>"
    have n: "it_id (upd_item a ?f h ! b) = it_id (h ! b)" "it_box (upd_item a ?f h ! b) = it_box (h ! b)"
      "b \<noteq> a \<Longrightarrow> it_count (upd_item a ?f h ! b) = it_count (h ! b)" for b by (simp_all add: upd_item_nth)
    have "kept a h (upd_item a ?f h)" unfolding kept_def by (simp add: n is_box_def box_of_def itemlist_def)
    then have "kept a h g" using core_kept r(4) by blast
    then show ?thesis using r(1,2) by simp
  qed
  then show "heap_ok T g" "units T k g + (if it_id (h ! a) = k then unat m else 0) = units T k h" "kept a h g" by simp_all
qed

text \<open>A new item that is nowhere yet.\<close>

lemma append_nth:
  assumes "b < length h"
  shows "(h @ [x]) ! b = h ! b" and "itemlist (h @ [x]) b = itemlist h b" and "is_box (h @ [x]) b = is_box h b"
    and "box_of (h @ [x]) b = box_of h b" and "contents (h @ [x]) b = contents h b"
  using assms by (simp_all add: nth_append itemlist_def is_box_def box_of_def contents_def)

lemma append_heap_ok:
  assumes ok: "heap_ok T h" and x: "it_parent x = No_Parent" "it_box x = None"
    and s: "isStackable T x \<Longrightarrow> unat (it_count x) \<le> getStackSize T x \<and> ty_replacedBy (T (it_id x)) = None"
  shows "heap_ok T (h @ [x])" and "up (h @ [x]) = up h"
proof -
  have t: "tree_ok h" using ok heap_okD by blast
  note n = append_nth [of _ h x]
  have new: "(h @ [x]) ! length h = x" "itemlist (h @ [x]) (length h) = []" "\<not> is_box (h @ [x]) (length h)"
    using x by (simp_all add: itemlist_def is_box_def)
  show up: "up (h @ [x]) = up h" using x(1) by (auto simp: up_iff nth_append less_Suc_eq)
  have "tree_ok (h @ [x])" unfolding tree_ok_def up
  proof (intro conjI allI impI)
    show "acyclic (up h)" using tree_okD(4) [OF t] .
    fix c assume c: "c < length (h @ [x])"
    show "distinct (itemlist (h @ [x]) c)" using c new n tree_okD(1) [OF t] by (cases "c = length h") auto
    show "\<forall>a\<in>set (itemlist (h @ [x]) c). a < length (h @ [x]) \<and> it_parent ((h @ [x]) ! a) = In_Box c"
    proof (cases "c = length h")
      case False
      then have c': "c < length h" using c by simp
      have "a < length h \<and> it_parent (h ! a) = In_Box c" if "a \<in> set (itemlist h c)" for a using tree_okD(2) [OF t c' that] .
      then have "a < length (h @ [x]) \<and> it_parent ((h @ [x]) ! a) = In_Box c" if "a \<in> set (itemlist h c)" for a
        using that by (simp add: nth_append less_SucI)
      then show ?thesis using n(2) [OF c'] by simp
    qed (use new in simp)
  next
    fix a p assume a: "a < length (h @ [x])" "it_parent ((h @ [x]) ! a) = In_Box p"
    then have a': "a < length h" "it_parent (h ! a) = In_Box p" using x(1) by (auto simp: nth_append less_Suc_eq)
    then have p: "p < length h \<and> a \<in> set (itemlist h p)" using tree_okD(3) [OF t] by blast
    then show "p < length (h @ [x])" "a \<in> set (itemlist (h @ [x]) p)" using n(2) [of p] by simp_all
  qed
  moreover have "weights_ok T (h @ [x])" unfolding weights_ok_def
  proof (intro allI impI)
    fix c assume "c < length (h @ [x])" "is_box (h @ [x]) c"
    then have c: "c < length h" "is_box h c" using new n(3) [of c] by (auto simp: less_Suc_eq)
    have "getWeight T ((h @ [x]) ! a) = getWeight T (h ! a)" if "a \<in> set (itemlist h c)" for a
      using tree_okD(2) [OF t c(1) that] by (simp add: nth_append)
    then have "held_weight T (h @ [x]) c = held_weight T h c" using n(2) [OF c(1)] by (simp add: held_weight_def cong: map_cong)
    then show "contents (h @ [x]) c = held_weight T (h @ [x]) c" using heap_okD(2) [OF ok] c n(5) by (simp add: weights_ok_def)
  qed
  moreover have "items_ok T (h @ [x])" unfolding items_ok_def
  proof (intro allI impI)
    fix a assume a: "a < length (h @ [x])"
    show "(is_box (h @ [x]) a \<longrightarrow> \<not> isStackable T ((h @ [x]) ! a)) \<and>
      (isStackable T ((h @ [x]) ! a) \<longrightarrow> unat (it_count ((h @ [x]) ! a)) \<le> getStackSize T ((h @ [x]) ! a) \<and>
        ty_replacedBy (T (it_id ((h @ [x]) ! a))) = None)"
    proof (cases "a = length h")
      case True
      then show ?thesis using new s by simp
    next
      case False
      then have "a < length h" using a by simp
      then show ?thesis using heap_okD(3) [OF ok] n by (simp add: items_ok_def)
    qed
  qed
  ultimately show "heap_ok T (h @ [x])" by (rule heap_okI)
qed

lemma addThing_any:
  assumes "heap_ok T h" and "c < length h" "is_box h c" and "a < length h" "it_parent (h ! a) = No_Parent" "a \<notin> set (chain h c)"
  shows "heap_ok T (addThing T c index a h)" and "length (addThing T c index a h) = length h"
    and "units T k (addThing T c index a h) = units T k h + (if index < sint (bx_maxSize (box_of h c)) then amount_of T k (h ! a) else 0)"
  using addThing_ok [OF assms] assms(1) by (cases "index < sint (bx_maxSize (box_of h c))"; simp add: addThing_def)+

lemma upd_item_boxes:
  assumes "\<And>x. (it_box (f x) = None) = (it_box x = None)"
  shows "is_box (upd_item a f h) b = is_box h b"
  using assms unfolding is_box_def upd_item_nth by (cases "b = a \<and> a < length h") auto

lemma addThing_boxes:
  "length (addThing T c index a h) = length h" "b < length h \<Longrightarrow> is_box (addThing T c index a h) b = is_box h b"
proof -
  show "length (addThing T c index a h) = length h" by (simp add: addThing_def Let_def updateItemWeight_bump)
  assume b: "b < length h"
  have "is_box (insert_front c a h) b = is_box h b" by (simp add: insert_front_def upd_box_def upd_item_boxes)
  then show "is_box (addThing T c index a h) b = is_box h b"
    using same_core_facts(6) [OF bump_core [of "insert_front c a h"], of b] b by (simp add: addThing_def Let_def updateItemWeight_bump)
qed

text \<open>A new stack: the copy, put into a container.\<close>

lemma split_add:
  assumes E: "types_ok E" and ok: "heap_ok (ev_types E) h" and c: "c < length h" "is_box h c"
    and a: "a < length h" "isStackable (ev_types E) (h ! a)"
    and n: "0 < n" "unat n \<le> getStackSize (ev_types E) (h ! a)"
  obtains g where "split_off E a n h = (Some (length h), g)" and "heap_ok (ev_types E) (addThing (ev_types E) c index (length h) g)"
    and "units (ev_types E) k (addThing (ev_types E) c index (length h) g) =
      units (ev_types E) k h + (if it_id (h ! a) = k \<and> index < sint (bx_maxSize (box_of h c)) then unat n else 0)"
    and "heap_ok (ev_types E) g" and "length g = Suc (length h)" and "\<And>b. b < length h \<Longrightarrow> is_box g b = is_box h b"
    and "\<And>b. b < length h \<Longrightarrow> g ! b = h ! b" and "it_parent (g ! length h) = No_Parent"
    and "it_id (g ! length h) = it_id (h ! a)" and "it_count (g ! length h) = ucast n" and "unat (ucast n :: u8) = unat n"
    and "units (ev_types E) k g = units (ev_types E) k h"
proof -
  let ?T = "ev_types E"
  have st: "ty_stackable (?T (it_id (h ! a)))" using a(2) by (simp add: isStackable_def)
  have ty: "\<not> ty_fluid (?T (it_id (h ! a)))" "ty_id (?T (it_id (h ! a))) = it_id (h ! a)" "it_id (h ! a) \<noteq> 0"
    using E st unfolding types_ok_def by blast+
  have rep: "ty_replacedBy (?T (it_id (h ! a))) = None" using heap_okD(3) [OF ok] a by (simp add: items_ok_def)
  obtain x where x: "clone ?T (h ! a) = Some x" "it_id x = it_id (h ! a)" "it_parent x = No_Parent" "it_box x = None"
    using st ty rep unfolding clone_def create_item_def new_item_def
    by (cases "it_attrs (h ! a)") (auto simp: Let_def decay_ops_keep)
  let ?x = "x\<lparr>it_count := ucast n\<rparr>"
  have size: "getStackSize ?T (h ! a) < 256"
    using unsigned_less [of "ty_stackSize (?T (it_id (h ! a)))", where ?'a = nat] by (simp add: getStackSize_def)
  have cnt: "unat (ucast n :: u8) = unat n" using unat_ucast_small [where 'b = 8, of n] n(2) size by simp
  have s: "isStackable ?T ?x" "getStackSize ?T ?x = getStackSize ?T (h ! a)" using x(2) a(2) by (simp_all add: isStackable_def getStackSize_def)
  let ?g = "h @ [?x]"
  have g: "heap_ok ?T ?g" "up ?g = up h" using append_heap_ok [OF ok, of ?x] x(2-4) s n(2) cnt rep by simp_all
  have split: "split_off E a n h = (Some (length h), ?g)" by (simp add: split_off_def x)
  have c': "c < length ?g" "is_box ?g c" "box_of ?g c = box_of h c" using c append_nth [OF c(1)] by simp_all
  have "length h \<notin> set (chain ?g c)"
  proof
    assume "length h \<in> set (chain ?g c)"
    then have "(c, length h) \<in> (up h)\<^sup>*" using chain_set [OF heap_okD(1) [OF g(1)] c'(1)] g(2) by simp
    then show False using up_rtrancl_less [OF heap_okD(1) [OF ok] _ c(1)] by blast
  qed
  then have add: "heap_ok ?T (addThing ?T c index (length h) ?g)"
      "units ?T k (addThing ?T c index (length h) ?g) = units ?T k ?g +
        (if index < sint (bx_maxSize (box_of h c)) then amount_of ?T k (?g ! length h) else 0)"
    using addThing_any [OF g(1) c'(1,2), of "length h"] x(3) c'(3) by simp_all
  have same: "units ?T k ?g = units ?T k h" using x(3) by (simp add: units_append placed_units_def)
  moreover have "amount_of ?T k (?g ! length h) = (if it_id (h ! a) = k then unat n else 0)"
    using x(2) s(1) cnt by (simp add: amount_of_def)
  ultimately have u: "units ?T k (addThing ?T c index (length h) ?g) =
      units ?T k h + (if it_id (h ! a) = k \<and> index < sint (bx_maxSize (box_of h c)) then unat n else 0)" using add(2) by simp
  show ?thesis by (rule that [OF split add(1) u g(1)]) (use x cnt same in \<open>simp_all add: append_nth\<close>)
qed

lemma upd_heap_sel [simp]: "w_heap (upd_heap f w) = f (w_heap w)"
  by (simp add: upd_heap_def)

lemma decaying_heap [simp]: "w_heap (startDecaying a w) = w_heap w" "w_heap (stopDecaying a w) = w_heap w"
  by (simp_all add: startDecaying_def stopDecaying_def)

text \<open>Merging into the stack that was found.\<close>

lemma stack_merge_ok:
  fixes m :: u32
  assumes E: "types_ok E" and ok: "heap_ok (ev_types E) h" and to: "to < length h" "is_box h to"
    and a: "a < length h" "isStackable (ev_types E) (h ! a)" and dest: "\<forall>x. dest = Some x \<longrightarrow> x \<in> set (itemlist h to)"
  defines "n \<equiv> merge_count (ev_types E) h a dest m"
  defines "g \<equiv> put_on_stack (ev_types E) to a dest n h"
  shows "n \<le> m" and "heap_ok (ev_types E) g" and "length g = length h"
    and "units (ev_types E) k g = units (ev_types E) k h + (if it_id (h ! a) = k then unat n else 0)"
    and "b < length h \<Longrightarrow> is_box g b = is_box h b \<and> it_id (g ! b) = it_id (h ! b) \<and> it_parent (g ! b) = it_parent (h ! b) \<and>
      (is_box h b \<longrightarrow> bx_maxSize (box_of g b) = bx_maxSize (box_of h b))"
proof -
  let ?T = "ev_types E"
  have "n \<le> m \<and> heap_ok ?T g \<and> length g = length h \<and> units ?T k g = units ?T k h + (if it_id (h ! a) = k then unat n else 0) \<and>
    (\<forall>b<length h. is_box g b = is_box h b \<and> it_id (g ! b) = it_id (h ! b) \<and> it_parent (g ! b) = it_parent (h ! b) \<and>
      (is_box h b \<longrightarrow> bx_maxSize (box_of g b) = bx_maxSize (box_of h b)))"
  proof (cases "merged_into h a dest")
    case None
    then have "n = 0" "g = h" by (auto simp: n_def g_def merged_into_def merge_count_def put_on_stack_def split: option.splits if_splits)
    then show ?thesis using ok by simp
  next
    case (Some x)
    then have x: "dest = Some x" "heap_equals h a x" by (auto simp: merged_into_def split: option.splits if_splits)
    then have xin: "x \<in> set (itemlist h to)" using dest by blast
    have x': "x < length h" using tree_okD(2) [OF heap_okD(1) [OF ok] to(1) xin] by blast
    have id: "it_id (h ! x) = it_id (h ! a)" using x(2) by (simp add: heap_equals_def item_equals_def)
    have sx: "isStackable ?T (h ! x)" "\<not> ty_fluid (?T (it_id (h ! x)))" using a(2) id E by (auto simp: isStackable_def types_ok_def)
    have cx: "unat (it_count (h ! x)) \<le> getStackSize ?T (h ! x)" using heap_okD(3) [OF ok] sx(1) x' by (simp add: items_ok_def)
    have ssize: "getStackSize ?T (h ! x) < 256"
      using unsigned_less [of "ty_stackSize (?T (it_id (h ! x)))", where ?'a = nat] by (simp add: getStackSize_def)
    have neq: "n = min (of_nat (getStackSize ?T (h ! x)) - ucast (it_count (h ! x))) m" using x by (simp add: n_def merge_count_def)
    have "unat (of_nat (getStackSize ?T (h ! x)) - ucast (it_count (h ! x)) :: u32) = getStackSize ?T (h ! x) - unat (it_count (h ! x))"
    proof -
      have "unat (of_nat (getStackSize ?T (h ! x)) :: u32) = getStackSize ?T (h ! x)" using ssize by (simp add: unat_of_nat)
      then show ?thesis using cx by (simp add: unat_sub word_le_nat_alt unat_ucast_up)
    qed
    moreover have "unat n \<le> unat (of_nat (getStackSize ?T (h ! x)) - ucast (it_count (h ! x)) :: u32)"
      unfolding neq by (simp add: word_le_nat_alt [symmetric])
    ultimately have nle: "unat (it_count (h ! x)) + unat n \<le> getStackSize ?T (h ! x)" using cx by linarith
    have g: "g = updateThing ?T to x (it_id (h ! x)) (ucast (it_count (h ! x)) + n) h" using x by (simp add: g_def put_on_stack_def)
    note p = put_units [OF ok to(1) xin sx nle, folded g]
    have "n \<le> m" unfolding neq by simp
    then show ?thesis using p(1,3,4) p(2) [of k] id by simp
  qed
  then show "n \<le> m" "heap_ok ?T g" "length g = length h" "units ?T k g = units ?T k h + (if it_id (h ! a) = k then unat n else 0)"
    "b < length h \<Longrightarrow> is_box g b = is_box h b \<and> it_id (g ! b) = it_id (h ! b) \<and> it_parent (g ! b) = it_parent (h ! b) \<and>
      (is_box h b \<longrightarrow> bx_maxSize (box_of g b) = bx_maxSize (box_of h b))" by blast+
qed

lemma transfer_stack_heap:
  assumes "transfer_stack E from to index a m dest w = (mv, upd, w')"
    and "h1 = removeThing (ev_types E) from a m (w_heap w)" and "n = merge_count (ev_types E) h1 a dest m"
    and "h2 = put_on_stack (ev_types E) to a dest n h1"
  shows "w_heap w' = (if sint (m - n) > 0 then (case split_off E a (m - n) h2 of (None, g) \<Rightarrow> g | (Some x, g) \<Rightarrow> addThing (ev_types E) to index x g)
    else h2)"
  using assms(1) unfolding transfer_stack_def Let_def assms(2-4) [symmetric]
  by (cases "split_off E a (m - n) h2"; cases "fst (split_off E a (m - n) h2)"; cases "merged_into h1 a dest"; cases "sint (m - n) > 0")
    (auto split: if_splits)

text \<open>A stack, or a part of it, goes from one container to another.\<close>

lemma transfer_stack_ok:
  assumes E: "types_ok E" and ok: "heap_ok (ev_types E) (w_heap w)" and "from": "from < length (w_heap w)" "a \<in> set (itemlist (w_heap w) from)"
    and to: "to < length (w_heap w)" "is_box (w_heap w) to"
    and m: "isStackable (ev_types E) (w_heap w ! a)" "0 < m" "m \<le> ucast (it_count (w_heap w ! a))"
    and dest: "\<And>x. dest = Some x \<Longrightarrow> x \<in> set (itemlist (w_heap w) to) \<and> x \<noteq> a"
    and res: "transfer_stack E from to index a m dest w = (mv, upd, w')"
  shows "heap_ok (ev_types E) (w_heap w')" and "units (ev_types E) k (w_heap w') \<le> units (ev_types E) k (w_heap w)"
    and "index < sint (bx_maxSize (box_of (w_heap w) to)) \<Longrightarrow> units (ev_types E) k (w_heap w') = units (ev_types E) k (w_heap w)"
    and "length (w_heap w) \<le> length (w_heap w')" and "b < length (w_heap w) \<Longrightarrow> is_box (w_heap w') b = is_box (w_heap w) b"
proof -
  let ?T = "ev_types E" and ?h = "w_heap w"
  define h1 where "h1 = removeThing ?T from a m ?h"
  define n where "n = merge_count ?T h1 a dest m"
  define h2 where "h2 = put_on_stack ?T to a dest n h1"
  note t = take_units [OF ok "from" m, folded h1_def]
  note kd = keptD [OF t(3)]
  have a': "a < length ?h" using tree_okD(2) [OF heap_okD(1) [OF ok] "from"] by blast
  have id1: "it_id (h1 ! a) = it_id (?h ! a)" using kd(2) [OF a'] by simp
  have sta: "unat (it_count (?h ! a)) \<le> getStackSize ?T (?h ! a)" using heap_okD(3) [OF ok] a' m(1) by (simp add: items_ok_def)
  have mle: "unat m \<le> unat (it_count (?h ! a))" using m(3) by (simp add: word_le_nat_alt unat_ucast_up)
  have size: "getStackSize ?T (?h ! a) < 256"
    using unsigned_less [of "ty_stackSize (?T (it_id (?h ! a)))", where ?'a = nat] by (simp add: getStackSize_def)
  have dest1: "\<forall>x. dest = Some x \<longrightarrow> x \<in> set (itemlist h1 to)" using dest kd(5) [OF to(1)] by blast
  have to1: "to < length h1" "is_box h1 to" "a < length h1" "isStackable ?T (h1 ! a)"
    using to a' kd(1,2) m(1) id1 by (simp_all add: isStackable_def)
  note mo = stack_merge_ok [where dest = dest and m = m, OF E t(1) to1 dest1, folded n_def, folded h2_def]
  have "bx_maxSize (box_of h2 to) = bx_maxSize (box_of ?h to)" using mo(5) [OF to1(1)] to1(2) kd(4) [OF to] by simp
  then have second: "n \<le> m \<and> heap_ok ?T h2 \<and> units ?T k h2 = units ?T k h1 + (if it_id (?h ! a) = k then unat n else 0) \<and>
    length h2 = length h1 \<and> is_box h2 to \<and> bx_maxSize (box_of h2 to) = bx_maxSize (box_of ?h to) \<and> it_id (h2 ! a) = it_id (?h ! a) \<and>
    (\<forall>b<length ?h. is_box h2 b = is_box ?h b)"
    using mo(1-4) mo(5) [OF to1(1)] mo(5) [OF to1(3)] mo(5) to1(2) id1 kd(1,2) by simp
  note sd = second [THEN conjunct1] second [THEN conjunct2, THEN conjunct1] second [THEN conjunct2, THEN conjunct2]
  have diff: "unat (m - n) = unat m - unat n" using sd(1) by (simp add: unat_sub)
  have pos: "sint (m - n) > 0 \<longleftrightarrow> n \<noteq> m"
  proof -
    have "unat (m - n) < 2 ^ 31" using diff mle sta size by simp
    then have "sint (m - n) = int (unat (m - n))" by (rule sint_u32_small)
    then have s: "sint (m - n) = int (unat m - unat n)" unfolding diff .
    have "unat n \<le> unat m" using sd(1) by (simp only: word_le_nat_alt)
    then have "0 < unat m - unat n \<longleftrightarrow> unat n \<noteq> unat m" by linarith
    also have "\<dots> \<longleftrightarrow> n \<noteq> m" by (simp only: word_unat_eq_iff [symmetric] not_False_eq_True)
    finally show ?thesis unfolding s by (simp only: of_nat_0_less_iff)
  qed
  have total: "units ?T k h1 + (if it_id (?h ! a) = k then unat m else 0) = units ?T k ?h" using t(2) .
  let ?fits = "index < sint (bx_maxSize (box_of ?h to))"
  have "heap_ok ?T (w_heap w') \<and> units ?T k (w_heap w') + (if ?fits \<or> it_id (?h ! a) \<noteq> k then 0 else unat (m - n)) = units ?T k ?h \<and>
    length ?h \<le> length (w_heap w') \<and> (\<forall>b<length ?h. is_box (w_heap w') b = is_box ?h b)"
  proof (cases "n = m")
    case True
    then have "w_heap w' = h2" using transfer_stack_heap [OF res h1_def n_def h2_def] pos by simp
    then show ?thesis using sd(2,3) True total kd(1) by (cases "it_id (?h ! a) = k") simp_all
  next
    case False
    have a2: "a < length h2" "to < length h2" using sd(3) kd(1) a' to(1) by simp_all
    have s2: "isStackable ?T (h2 ! a)" "getStackSize ?T (h2 ! a) = getStackSize ?T (?h ! a)"
      using sd(3) m(1) by (simp_all add: isStackable_def getStackSize_def)
    have n0: "0 < m - n" using False by (metis diff_eq_eq add_0 neq0_conv word_neq_0_conv)
    have nle: "unat (m - n) \<le> getStackSize ?T (h2 ! a)" using diff mle sta s2(2) by linarith
    have tb: "is_box h2 to" using sd(3) by simp
    obtain g where g: "split_off E a (m - n) h2 = (Some (length h2), g)"
        "heap_ok ?T (addThing ?T to index (length h2) g)"
        "units ?T k (addThing ?T to index (length h2) g) =
          units ?T k h2 + (if it_id (h2 ! a) = k \<and> index < sint (bx_maxSize (box_of h2 to)) then unat (m - n) else 0)"
        "length g = Suc (length h2)" "\<And>b. b < length h2 \<Longrightarrow> is_box g b = is_box h2 b"
      by (rule split_add [OF E sd(2) a2(2) tb a2(1) s2(1) n0 nle, of index k]) blast
    have w': "w_heap w' = addThing ?T to index (length h2) g"
      using transfer_stack_heap [OF res h1_def n_def h2_def] pos False g(1) by simp
    have "unat n \<le> unat m" using sd(1) by (simp add: word_le_nat_alt)
    moreover have "\<forall>b<length ?h. is_box (w_heap w') b = is_box ?h b"
    proof (intro allI impI)
      fix b assume b: "b < length ?h"
      then have "b < length g" "b < length h2" using g(4) sd(3) kd(1) by simp_all
      then show "is_box (w_heap w') b = is_box ?h b" unfolding w' using addThing_boxes(2) [of b g] g(5) [of b] sd(3) b by simp
    qed
    moreover have "length ?h \<le> length (w_heap w')" unfolding w' using g(4) sd(3) kd(1) addThing_boxes(1) by simp
    ultimately show ?thesis using g(2,3) sd(3) diff total w' by (cases "it_id (?h ! a) = k") simp_all
  qed
  note fin = this
  show "heap_ok ?T (w_heap w')" "length ?h \<le> length (w_heap w')" "b < length ?h \<Longrightarrow> is_box (w_heap w') b = is_box ?h b" using fin by blast+
  show "units ?T k (w_heap w') \<le> units ?T k ?h" using fin by linarith
  show "units ?T k (w_heap w') = units ?T k ?h" if ?fits using fin that by simp
qed

end
