(* ===== verification/Item_Laws.thy ===== *)
theory Item_Laws
  imports Item_Moves
begin

text \<open>
  What the moves, additions and removals of items keep: the tree stays well-formed and free of cycles, every
  container knows the weight of its contents, and no unit of an item is ever made; a move loses none
  either, unless its place is beyond the capacity of the container.
\<close>

subsection \<open>Moving a whole item\<close>

lemma removeThing_boxes:
  "length (removeThing T c a m h) = length h" "b < length h \<Longrightarrow> is_box (removeThing T c a m h) b = is_box h b"
proof -
  show "length (removeThing T c a m h) = length h" by (simp add: removeThing_def Let_def updateItemWeight_bump)
  assume b: "b < length h"
  have bump: "is_box (bump d l g) b = is_box g b" if "length g = length h" for d l g
    using same_core_facts(6) [OF bump_core [of g], of b] b that by simp
  have e: "is_box (erase_item c a g) b = is_box g b" for g by (simp add: erase_item_def upd_box_def upd_item_boxes)
  show "is_box (removeThing T c a m h) b = is_box h b"
    using bump e by (simp add: removeThing_def Let_def updateItemWeight_bump upd_item_boxes)
qed

lemma transfer_item_ok:
  fixes index :: int and m :: u32
  assumes ok: "heap_ok (ev_types E) (w_heap w)" and "from": "from < length (w_heap w)" "a \<in> set (itemlist (w_heap w) from)"
    and to: "to < length (w_heap w)" "is_box (w_heap w) to" "a \<notin> set (chain (w_heap w) to)"
    and s: "\<not> isStackable (ev_types E) (w_heap w ! a)"
  defines "w' \<equiv> transfer_item E from to index a m w"
  shows "heap_ok (ev_types E) (w_heap w')" and "length (w_heap w') = length (w_heap w)"
    and "b < length (w_heap w) \<Longrightarrow> is_box (w_heap w') b = is_box (w_heap w) b"
    and "units (ev_types E) k (w_heap w') + (if index < sint (bx_maxSize (box_of (w_heap w) to)) then 0 else amount_of (ev_types E) k (w_heap w ! a)) =
      units (ev_types E) k (w_heap w)"
proof -
  let ?T = "ev_types E" and ?h = "w_heap w"
  define h1 where "h1 = removeThing ?T from a m ?h"
  note r = remove_whole [where m = m, OF ok "from" disjI1 [OF s], folded h1_def]
  have t: "tree_ok ?h" using ok heap_okD by blast
  have a': "a < length ?h" "a \<noteq> from" using tree_okD(2) [OF t "from"] child_not_self [OF t "from"] by simp_all
  note e = erase_item_lists [OF a'(2,1) "from"]
  have l: "length (erase_item from a ?h) = length ?h" by simp
  have up: "up h1 \<subseteq> up ?h" using same_core_up [OF r(4)] erase_item_up [OF a'(2,1) "from"] by simp
  have to1: "to < length h1" using to(1) r(3) by simp
  have "a \<notin> set (chain h1 to)"
  proof
    assume "a \<in> set (chain h1 to)"
    then have "(to, a) \<in> (up h1)\<^sup>*" using chain_set [OF heap_okD(1) [OF r(1)] to1] by blast
    then have "(to, a) \<in> (up ?h)\<^sup>*" using rtrancl_mono [OF up] by blast
    then show False using to(3) chain_set [OF t to(1)] by blast
  qed
  moreover have "a < length h1" using a'(1) r(3) by simp
  moreover have "it_parent (h1 ! a) = No_Parent" using same_core_facts(4) [OF r(4), of a] a'(1) e(5) [of a] by simp
  moreover have box: "is_box h1 to" using same_core_facts(6) [OF r(4), of to] to(1,2) e(2) by simp
  ultimately have add: "heap_ok ?T (addThing ?T to index a h1)" "length (addThing ?T to index a h1) = length h1"
      "units ?T k (addThing ?T to index a h1) = units ?T k h1 + (if index < sint (bx_maxSize (box_of h1 to)) then amount_of ?T k (h1 ! a) else 0)"
    using addThing_any [OF r(1) to1] by blast+
  have size: "bx_maxSize (box_of h1 to) = bx_maxSize (box_of ?h to)"
    using same_core_facts(7) [OF r(4), of to] to(1,2) e(2,9) by simp
  have amt: "amount_of ?T k (h1 ! a) = amount_of ?T k (?h ! a)"
    using same_core_facts(1,2) [OF r(4), of a] a'(1) e(6,7) by (simp add: amount_of_def isStackable_def)
  have w': "w_heap w' = addThing ?T to index a h1" by (simp add: w'_def transfer_item_def h1_def)
  show "heap_ok ?T (w_heap w')" "length (w_heap w') = length ?h" unfolding w' using add r(3) by simp_all
  show "units ?T k (w_heap w') + (if index < sint (bx_maxSize (box_of ?h to)) then 0 else amount_of ?T k (?h ! a)) = units ?T k ?h"
    unfolding w' add(3) using r(2) [of k] size amt by simp
  assume b: "b < length ?h"
  then have "is_box (addThing ?T to index a h1) b = is_box h1 b" using addThing_boxes(2) [of b h1] r(3) by simp
  then show "is_box (w_heap w') b = is_box ?h b" unfolding w' h1_def using removeThing_boxes(2) [OF b] by simp
qed

subsection \<open>The destination\<close>

lemma find_stack_in: "find_stack T h c a < length (itemlist h c) \<Longrightarrow> itemlist h c ! find_stack T h c a \<in> set (itemlist h c) \<and> itemlist h c ! find_stack T h c a \<noteq> a"
  using find_index_nth [of "\<lambda>x. x \<noteq> a \<and> stacks_with T h x a" "itemlist h c"] by (simp add: find_stack_def)

lemma getItemByIndex_in: "getItemByIndex h c i = Some x \<Longrightarrow> x \<in> set (itemlist h c)"
  by (auto simp: getItemByIndex_def split: if_splits)

lemma queryDestination_in:
  assumes ok: "tree_ok h" and c: "c < length h" "is_box h c" and res: "queryDestination T h c index a None fl = (s, i, d)"
  shows "s < length h \<and> is_box h s \<and> (s \<noteq> c \<longrightarrow> d = None) \<and> (\<forall>x. d = Some x \<longrightarrow> x \<in> set (itemlist h s))"
proof -
  have par: "p < length h \<and> is_box h p" if "parent_box h c = Some p" for p
  proof -
    have "c \<in> set (itemlist h p) \<and> p < length h" using that tree_okD(3) [OF ok c(1)] by (simp add: parent_box_iff)
    then show ?thesis using box_list by blast
  qed
  have place: "s < length h \<and> is_box h s \<and> (s \<noteq> c \<longrightarrow> d = None) \<and> (\<forall>x. d = Some x \<longrightarrow> x \<in> set (itemlist h s))"
    if e: "search_place T h c j a e fl = (s, i, d)" and e_in: "\<And>x. e = Some x \<Longrightarrow> x \<in> set (itemlist h c)" for j e
  proof (cases "if j = INDEX_WHEREEVER then None else case e of Some x \<Rightarrow> if is_box h x then Some x else None | None \<Rightarrow> None")
    case (Some y)
    then have y: "e = Some y" "is_box h y" by (auto split: if_splits option.splits)
    then have "y < length h" using tree_okD(2) [OF ok c(1) e_in] by blast
    then show ?thesis using e y unfolding search_place_def Some by simp
  next
    case None
    then show ?thesis using e e_in c find_stack_in [of T h c a] unfolding search_place_def None by (auto split: if_splits)
  qed
  have "x \<in> set (itemlist h c)" if "(if index = INDEX_WHEREEVER then None else case getItemByIndex h c index of Some x \<Rightarrow> Some x | None \<Rightarrow> None) = Some x" for x
    using that getItemByIndex_in by (auto split: if_splits option.splits)
  then show ?thesis
    using res c par place [of INDEX_WHEREEVER None] place [of index "if index = INDEX_WHEREEVER then None else case getItemByIndex h c index of Some x \<Rightarrow> Some x | None \<Rightarrow> None"]
    unfolding queryDestination_def Let_def by (auto split: if_splits option.splits)
qed

lemma find_destination_in:
  assumes ok: "tree_ok h" and "c < length h" "is_box h c" and "find_destination n T h c index a None fl = (s, i, d, fl')"
  shows "s < length h \<and> is_box h s \<and> (\<forall>x. d = Some x \<longrightarrow> x \<in> set (itemlist h s)) \<and> (fl' = fl \<or> fl' = no_flags)"
  using assms(2-4)
proof (induction n arbitrary: c index fl)
  case (Suc n)
  obtain s1 i1 d1 where q: "queryDestination T h c index a None fl = (s1, i1, d1)" by (cases "queryDestination T h c index a None fl") blast
  note qi = queryDestination_in [OF ok Suc.prems(1,2) q]
  show ?case
  proof (cases "s1 = c")
    case True
    then show ?thesis using Suc.prems q qi by simp
  next
    case False
    then have d: "d1 = None" using qi by blast
    have "find_destination n T h s1 i1 a None no_flags = (s, i, d, fl')" using Suc.prems(3) q False d by simp
    then show ?thesis using Suc.IH [of s1 i1 no_flags] qi by blast
  qed
qed simp

lemma ancestors_allow_ok: "ancestors_allow h nl a l = RET_NOERROR \<Longrightarrow> a \<notin> set l"
  by (induction h nl a l rule: ancestors_allow.induct) (auto split: if_splits)

lemma queryAdd_ok:
  assumes "queryAdd E h c index a n fl = RET_NOERROR" and "\<not> fl_childIsOwner fl" and "c < length h"
  shows "a \<notin> set (chain h c)"
proof -
  have "a \<noteq> c" "ancestors_allow h (fl_noLimit fl) a (tl (chain h c)) = RET_NOERROR"
    using assms(1,2) by (auto simp: queryAdd_def Let_def split: if_splits)
  then have "a \<notin> set (c # tl (chain h c))" using ancestors_allow_ok by simp
  then show ?thesis using chain_Cons [OF assms(3)] by simp
qed

lemma queryRemove_ok:
  assumes "queryRemove T h c a n fl = RET_NOERROR"
  shows "a \<in> set (itemlist h c)" and "0 < n" and "isStackable T (h ! a) \<Longrightarrow> n \<le> ucast (it_count (h ! a))"
  using assms getThingIndex_in [of h c a] by (auto simp: queryRemove_def word_neq_0_conv split: if_splits)

subsection \<open>The operations of the game\<close>

text \<open>The place the move ends in is one the container has.\<close>

definition place_fits :: "world_env \<Rightarrow> heap \<Rightarrow> nat \<Rightarrow> int \<Rightarrow> nat \<Rightarrow> move_flags \<Rightarrow> bool" where
  "place_fits E h c index a fl = (case find_destination MAP_MAX_LAYERS (ev_types E) h c index a None fl of
     (to, i, _, _) \<Rightarrow> i < sint (bx_maxSize (box_of h to)))"

lemma move_cases:
  assumes res: "internalMoveItem E from c0 i0 a n0 tr fl0 w = (r, w')"
    and dest: "find_destination MAP_MAX_LAYERS (ev_types E) (w_heap w) c0 i0 a None fl0 = (to, index, dest, fl)"
  shows "(w' = w \<and> (\<exists>v. r = Refused v)) \<or>
    (\<exists>n m mv upd. dest \<noteq> Some a \<and> queryAdd E (w_heap w) to index a n fl = RET_NOERROR \<and>
       queryRemove (ev_types E) (w_heap w) from a m fl = RET_NOERROR \<and> (\<exists>v x. r = Moved v x) \<and>
       (if isStackable (ev_types E) (w_heap w ! a) then transfer_stack E from to index a m dest w = (mv, upd, w')
        else w' = transfer_item E from to index a m w))"
proof -
  let ?h = "w_heap w" and ?T = "ev_types E"
  define count where "count = (if isStackable ?T (?h ! a) \<and> n0 = 255 \<and> parent_box ?h from = Some to then ucast (it_count (?h ! a)) else n0)"
  obtain rmax maxCount where q: "queryMaxCount E ?h to index a count fl = (rmax, maxCount)" by (cases "queryMaxCount E ?h to index a count fl") blast
  define m where "m = (if isStackable ?T (?h ! a) then min count maxCount else maxCount)"
  obtain mv upd w1 where t: "transfer_stack E from to index a m dest w = (mv, upd, w1)" by (cases "transfer_stack E from to index a m dest w") blast
  have e: "internalMoveItem E from c0 i0 a n0 tr fl0 w =
     (if dest = Some a then (Refused RET_NOERROR, w)
      else if queryRemove ?T ?h from a 1 fl \<noteq> RET_NOERROR then (Refused (queryRemove ?T ?h from a 1 fl), w)
      else if queryAdd E ?h to index a count fl \<noteq> RET_NOERROR then (Refused (queryAdd E ?h to index a count fl), w)
      else if rmax \<noteq> RET_NOERROR \<and> maxCount = 0 then (Refused rmax, w)
      else if queryRemove ?T ?h from a m fl \<noteq> RET_NOERROR then (Refused (queryRemove ?T ?h from a m fl), w)
      else if (case tr of Some t \<Rightarrow> t \<in> set (chain ?h to) | None \<Rightarrow> False) then (Refused RET_NOTENOUGHROOM, w)
      else if isStackable ?T (?h ! a) then (Moved (if maxCount < count then rmax else RET_NOERROR) (case mv of Some x \<Rightarrow> x | None \<Rightarrow> a), w1)
      else (Moved RET_NOERROR a, transfer_item E from to index a m w))"
    unfolding internalMoveItem_def Let_def dest prod.case count_def [symmetric] q m_def [symmetric] t by simp
  show ?thesis
  proof (cases "dest = Some a \<or> queryRemove ?T ?h from a 1 fl \<noteq> RET_NOERROR \<or> queryAdd E ?h to index a count fl \<noteq> RET_NOERROR \<or>
      (rmax \<noteq> RET_NOERROR \<and> maxCount = 0) \<or> queryRemove ?T ?h from a m fl \<noteq> RET_NOERROR \<or>
      (case tr of Some t \<Rightarrow> t \<in> set (chain ?h to) | None \<Rightarrow> False)")
    case True
    then show ?thesis using res unfolding e by (auto split: if_splits)
  next
    case False
    then have c: "dest \<noteq> Some a" "queryAdd E ?h to index a count fl = RET_NOERROR" "queryRemove ?T ?h from a m fl = RET_NOERROR" by blast+
    show ?thesis
    proof (cases "isStackable ?T (?h ! a)")
      case True
      then have "r = Moved (if maxCount < count then rmax else RET_NOERROR) (case mv of Some x \<Rightarrow> x | None \<Rightarrow> a)" "w' = w1"
        using res False unfolding e by auto
      then show ?thesis using c t True by auto
    next
      case ns: False
      then have "r = Moved RET_NOERROR a" "w' = transfer_item E from to index a m w" using res False unfolding e by auto
      then show ?thesis using c ns by auto
    qed
  qed
qed

lemma move_ok:
  assumes E: "types_ok E" and ok: "heap_ok (ev_types E) (w_heap w)"
    and "from": "from < length (w_heap w)" and c0: "c0 < length (w_heap w)" "is_box (w_heap w) c0" and fl: "\<not> fl_childIsOwner fl0"
    and res: "internalMoveItem E from c0 i0 a n0 tr fl0 w = (r, w')"
  shows "heap_ok (ev_types E) (w_heap w')" and "units (ev_types E) k (w_heap w') \<le> units (ev_types E) k (w_heap w)"
    and "place_fits E (w_heap w) c0 i0 a fl0 \<Longrightarrow> units (ev_types E) k (w_heap w') = units (ev_types E) k (w_heap w)"
    and "length (w_heap w) \<le> length (w_heap w')" and "b < length (w_heap w) \<Longrightarrow> is_box (w_heap w') b = is_box (w_heap w) b"
proof -
  let ?h = "w_heap w" and ?T = "ev_types E"
  obtain to index dest fl where d: "find_destination MAP_MAX_LAYERS ?T ?h c0 i0 a None fl0 = (to, index, dest, fl)"
    by (cases "find_destination MAP_MAX_LAYERS ?T ?h c0 i0 a None fl0") blast
  have t: "tree_ok ?h" using ok heap_okD by blast
  note dst = find_destination_in [OF t c0 d]
  have nofl: "\<not> fl_childIsOwner fl" using dst fl by (auto simp: no_flags_def)
  have fits: "place_fits E ?h c0 i0 a fl0 \<longleftrightarrow> index < sint (bx_maxSize (box_of ?h to))" by (simp add: place_fits_def d)
  let ?goal = "heap_ok ?T (w_heap w') \<and> units ?T k (w_heap w') \<le> units ?T k ?h \<and>
    (index < sint (bx_maxSize (box_of ?h to)) \<longrightarrow> units ?T k (w_heap w') = units ?T k ?h) \<and> length ?h \<le> length (w_heap w') \<and>
    (\<forall>b<length ?h. is_box (w_heap w') b = is_box ?h b)"
  from move_cases [OF res d] have ?goal
  proof
    assume "w' = w \<and> (\<exists>v. r = Refused v)"
    then show ?goal using ok by simp
  next
    assume "\<exists>n m mv upd. dest \<noteq> Some a \<and> queryAdd E ?h to index a n fl = RET_NOERROR \<and>
       queryRemove ?T ?h from a m fl = RET_NOERROR \<and> (\<exists>v x. r = Moved v x) \<and>
       (if isStackable ?T (?h ! a) then transfer_stack E from to index a m dest w = (mv, upd, w')
        else w' = transfer_item E from to index a m w)"
    then obtain n m mv upd where x: "dest \<noteq> Some a" "queryAdd E ?h to index a n fl = RET_NOERROR" "queryRemove ?T ?h from a m fl = RET_NOERROR"
      and y: "if isStackable ?T (?h ! a) then transfer_stack E from to index a m dest w = (mv, upd, w') else w' = transfer_item E from to index a m w"
      by blast
    note rm = queryRemove_ok [OF x(3)]
    have to: "to < length ?h" "is_box ?h to" using dst by blast+
    show ?goal
    proof (cases "isStackable ?T (?h ! a)")
      case True
      then have res': "transfer_stack E from to index a m dest w = (mv, upd, w')" using y by simp
      have dd: "dest = Some x \<Longrightarrow> x \<in> set (itemlist ?h to) \<and> x \<noteq> a" for x using dst x(1) by blast
      note ts = transfer_stack_ok [OF E ok "from" rm(1) to True rm(2) rm(3) [OF True] dd res']
      show ?goal using ts(1) ts(2,3) [of k] ts(4,5) by blast
    next
      case False
      have a: "a \<notin> set (chain ?h to)" using queryAdd_ok [OF x(2) nofl to(1)] .
      note ti = transfer_item_ok [where index = index and m = m, OF ok "from" rm(1) to a False]
      have "w' = transfer_item E from to index a m w" using y False by simp
      then show ?goal using ti(1-3) ti(4) [of k] by (auto split: if_splits)
    qed
  qed
  then show "heap_ok ?T (w_heap w')" "units ?T k (w_heap w') \<le> units ?T k ?h"
    "place_fits E ?h c0 i0 a fl0 \<Longrightarrow> units ?T k (w_heap w') = units ?T k ?h"
    "length ?h \<le> length (w_heap w')" "b < length ?h \<Longrightarrow> is_box (w_heap w') b = is_box ?h b"
    using fits by blast+
qed

subsection \<open>Removing and adding\<close>

lemma remove_ok:
  assumes ok: "heap_ok (ev_types E) (w_heap w)" and a: "a < length (w_heap w)"
    and res: "internalRemoveItem E a n test fl False w = (r, w')"
  shows "heap_ok (ev_types E) (w_heap w')" and "units (ev_types E) k (w_heap w') \<le> units (ev_types E) k (w_heap w)"
    and "length (w_heap w') = length (w_heap w)" and "b < length (w_heap w) \<Longrightarrow> is_box (w_heap w') b = is_box (w_heap w) b"
proof -
  let ?h = "w_heap w" and ?T = "ev_types E"
  have "w_heap w' = ?h \<or> (\<exists>c m fl'. c < length ?h \<and> queryRemove ?T ?h c a m fl' = RET_NOERROR \<and> w_heap w' = removeThing ?T c a m ?h)"
  proof (cases "parent_box ?h a")
    case None
    then show ?thesis using res by (simp add: internalRemoveItem_def)
  next
    case (Some c)
    then have c: "c < length ?h" using tree_okD(3) [OF heap_okD(1) [OF ok] a] by (simp add: parent_box_iff)
    let ?m = "if n = - 1 then ucast (it_count (?h ! a)) else word_of_int n"
    have "w_heap w' = ?h \<or> queryRemove ?T ?h c a ?m (fl\<lparr>fl_ignoreNotMovable := True\<rparr>) = RET_NOERROR \<and> w_heap w' = removeThing ?T c a ?m ?h"
      using res unfolding internalRemoveItem_def Let_def Some option.case by (auto split: if_splits)
    then show ?thesis using c by blast
  qed
  then have "heap_ok ?T (w_heap w') \<and> units ?T k (w_heap w') \<le> units ?T k ?h \<and> length (w_heap w') = length ?h \<and>
    (\<forall>b<length ?h. is_box (w_heap w') b = is_box ?h b)"
  proof
    assume "\<exists>c m fl'. c < length ?h \<and> queryRemove ?T ?h c a m fl' = RET_NOERROR \<and> w_heap w' = removeThing ?T c a m ?h"
    then obtain c m fl' where c: "c < length ?h" "queryRemove ?T ?h c a m fl' = RET_NOERROR" "w_heap w' = removeThing ?T c a m ?h" by blast
    note q = queryRemove_ok [OF c(2)]
    have b: "\<forall>b<length ?h. is_box (w_heap w') b = is_box ?h b" unfolding c(3) using removeThing_boxes(2) by blast
    show ?thesis
    proof (cases "isStackable ?T (?h ! a)")
      case True
      note t = take_units [OF ok c(1) q(1) True q(2) q(3) [OF True], folded c(3)]
      show ?thesis using t(1) t(2) [of k] keptD(1) [OF t(3)] b by (simp split: if_splits)
    next
      case False
      note t = remove_whole [where m = m, OF ok c(1) q(1) disjI1 [OF False], folded c(3)]
      show ?thesis using t(1) t(2) [of k] t(3) b by simp
    qed
  qed (use ok in simp)
  then show "heap_ok ?T (w_heap w')" "units ?T k (w_heap w') \<le> units ?T k ?h" "length (w_heap w') = length ?h"
    "b < length ?h \<Longrightarrow> is_box (w_heap w') b = is_box ?h b" by blast+
qed

lemma same_parents_up:
  assumes "length g = length h" and "\<And>b. b < length h \<Longrightarrow> it_parent (g ! b) = it_parent (h ! b)"
  shows "up g = up h"
proof -
  have "(a, p) \<in> up g \<longleftrightarrow> (a, p) \<in> up h" for a p using assms by (auto simp: up_iff)
  then show ?thesis by (simp add: set_eq_iff split_paired_all)
qed

lemma add_ok:
  assumes E: "types_ok E" and "heap_ok (ev_types E) (w_heap w)" and "c < length (w_heap w)" "is_box (w_heap w) c"
    and "a < length (w_heap w)" "it_parent (w_heap w ! a) = No_Parent" and "\<not> fl_childIsOwner fl"
    and "internalAddItem n E c a i0 fl test w = (r, rest, w')"
  shows "heap_ok (ev_types E) (w_heap w') \<and> units (ev_types E) k (w_heap w') \<le> units (ev_types E) k (w_heap w) + amount_of (ev_types E) k (w_heap w ! a) \<and>
    length (w_heap w) \<le> length (w_heap w') \<and> (\<forall>b<length (w_heap w). is_box (w_heap w') b = is_box (w_heap w) b)"
  using assms(2-8)
proof (induction n arbitrary: a i0 test w r rest w')
  case 0
  then show ?case by simp
next
  case (Suc n)
  let ?h = "w_heap w" and ?T = "ev_types E"
  note ok = Suc.prems(1) and c = Suc.prems(2,3) and a = Suc.prems(4,5)
  have t: "tree_ok ?h" using ok heap_okD by blast
  obtain to index dest where d: "queryDestination ?T ?h c i0 a None fl = (to, index, dest)" by (cases "queryDestination ?T ?h c i0 a None fl") blast
  note dst = queryDestination_in [OF t c d]
  have to: "to < length ?h" "is_box ?h to" using dst by blast+
  obtain rmax mc where q: "queryMaxCount E ?h c INDEX_WHEREEVER a (ucast (it_count (?h ! a))) fl = (rmax, mc)"
    by (cases "queryMaxCount E ?h c INDEX_WHEREEVER a (ucast (it_count (?h ! a))) fl") blast
  define m where "m = min (ucast (it_count (?h ! a))) mc"
  define k1 where "k1 = merge_count ?T ?h a dest m"
  define h1 where "h1 = put_on_stack ?T to a dest k1 ?h"
  note e = internalAddItem.simps(2) [of n E c a i0 fl test w, unfolded Let_def d prod.case q m_def [symmetric] k1_def [symmetric] h1_def [symmetric]]
  let ?qa = "queryAdd E ?h to index a (ucast (it_count (?h ! a))) fl"
  have plain: ?case if "w' = w" using that ok by simp
  show ?case
  proof (cases "?qa \<noteq> RET_NOERROR \<or> (rmax \<noteq> RET_NOERROR \<and> it_id (?h ! c) \<noteq> ITEM_REWARD_CONTAINER) \<or> test")
    case True
    then have "w' = w" using Suc.prems(7) unfolding e by (auto split: if_splits)
    then show ?thesis by (rule plain)
  next
    case False
    then have nt: "\<not> test" "?qa = RET_NOERROR" by blast+
    have free: "a \<notin> set (chain ?h to)" using queryAdd_ok [OF nt(2) Suc.prems(6) to(1)] .
    show ?thesis
    proof (cases "isStackable ?T (?h ! a) \<and> merged_into ?h a dest \<noteq> None")
      case no: False
      then have w': "w' = w\<lparr>w_heap := addThing ?T to index a ?h\<rparr>" using Suc.prems(7) False unfolding e by (auto split: if_splits)
      note add = addThing_any [where index = index, OF ok to a free]
      show ?thesis using add(1,2) add(3) [of k] addThing_boxes(2) w' by (auto split: if_splits)
    next
      case yes: True
      then have st: "isStackable ?T (?h ! a)" by blast
      have dest: "\<forall>x. dest = Some x \<longrightarrow> x \<in> set (itemlist ?h to)" using dst by blast
      note mo = stack_merge_ok [where m = m, OF E ok to a(1) st dest, folded k1_def, folded h1_def]
      have mle: "unat m \<le> unat (it_count (?h ! a))"
      proof -
        have "m \<le> ucast (it_count (?h ! a))" by (simp add: m_def)
        then show ?thesis by (simp add: word_le_nat_alt unat_ucast_up)
      qed
      have kle: "unat k1 \<le> unat m" using mo(1) by (simp add: word_le_nat_alt)
      have diff: "unat (m - k1) = unat m - unat k1" using mo(1) by (simp add: unat_sub)
      have amt: "amount_of ?T k (?h ! a) = (if it_id (?h ! a) = k then unat (it_count (?h ! a)) else 0)" using st by (simp add: amount_of_def)
      have l1: "length h1 = length ?h" using mo(3) .
      have b1: "\<forall>b<length ?h. is_box h1 b = is_box ?h b" using mo(5) by blast
      have u1: "units ?T k h1 \<le> units ?T k ?h + amount_of ?T k (?h ! a)" using mo(4) [of k] amt kle mle by simp
      have par: "it_parent (h1 ! b) = it_parent (?h ! b)" if "b < length ?h" for b using mo(5) [OF that] by blast
      have up1: "up h1 = up ?h" using same_parents_up [OF l1 par] .
      have to1: "to < length h1" "is_box h1 to" and a1: "a < length h1" "it_parent (h1 ! a) = No_Parent"
        using to a l1 b1 par by simp_all
      have free1: "a \<notin> set (chain h1 to)"
        using free chain_set [OF t to(1)] chain_set [OF heap_okD(1) [OF mo(2)] to1(1)] up1 by simp
      show ?thesis
      proof (cases "sint (m - k1) > 0")
        case nomore: False
        then have "w' = w\<lparr>w_heap := h1\<rparr>" using Suc.prems(7) False yes unfolding e by (auto split: if_splits)
        then show ?thesis using mo(2) l1 b1 u1 by simp
      next
        case more: True
        show ?thesis
        proof (cases "ucast (it_count (h1 ! a)) = m - k1")
          case whole: True
          then have w': "w' = w\<lparr>w_heap := addThing ?T to index a h1\<rparr>" using Suc.prems(7) False yes more unfolding e by (auto split: if_splits)
          note add = addThing_any [where index = index, OF mo(2) to1 a1 free1]
          have "unat (ucast (it_count (h1 ! a)) :: u32) = unat m - unat k1" using whole diff by simp
          then have "unat (it_count (h1 ! a)) = unat m - unat k1" by (simp add: unat_ucast_up)
          then have "amount_of ?T k (h1 ! a) = (if it_id (?h ! a) = k then unat m - unat k1 else 0)"
            using mo(5) [OF a(1)] st by (cases "it_id (?h ! a) = k") (simp_all add: amount_of_def isStackable_def)
          then have "units ?T k (addThing ?T to index a h1) \<le> units ?T k ?h + amount_of ?T k (?h ! a)"
            using add(3) [of k] mo(4) [of k] amt kle mle by (auto split: if_splits)
          moreover have "\<forall>b<length ?h. is_box (addThing ?T to index a h1) b = is_box ?h b" using addThing_boxes(2) [of _ h1] b1 l1 by simp
          ultimately show ?thesis using add(1,2) l1 w' by simp
        next
          case part: False
          have n0: "0 < m - k1" using more by (metis sint_0 neq0_conv order_less_irrefl word_neq_0_conv)
          have s1: "isStackable ?T (h1 ! a)" "getStackSize ?T (h1 ! a) = getStackSize ?T (?h ! a)"
            using mo(5) [OF a(1)] st by (simp_all add: isStackable_def getStackSize_def)
          have "unat (it_count (?h ! a)) \<le> getStackSize ?T (?h ! a)" using heap_okD(3) [OF ok] a(1) st by (simp add: items_ok_def)
          then have nle: "unat (m - k1) \<le> getStackSize ?T (h1 ! a)" using diff mle s1(2) by simp
          obtain g where g: "split_off E a (m - k1) h1 = (Some (length h1), g)" "heap_ok ?T g" "length g = Suc (length h1)"
              "\<And>b. b < length h1 \<Longrightarrow> is_box g b = is_box h1 b" "\<And>b. b < length h1 \<Longrightarrow> g ! b = h1 ! b"
              "it_parent (g ! length h1) = No_Parent" "it_id (g ! length h1) = it_id (h1 ! a)"
              "it_count (g ! length h1) = ucast (m - k1)" "unat (ucast (m - k1) :: u8) = unat (m - k1)" "units ?T k g = units ?T k h1"
            by (rule split_add [where k = k, OF E mo(2) to1 a1(1) s1(1) n0 nle]) blast
          obtain r2 rest2 w2 where rec: "internalAddItem n E c (length h1) INDEX_WHEREEVER fl False (w\<lparr>w_heap := g\<rparr>) = (r2, rest2, w2)"
            by (cases "internalAddItem n E c (length h1) INDEX_WHEREEVER fl False (w\<lparr>w_heap := g\<rparr>)") blast
          have w': "w' = w2" using Suc.prems(7) False yes more part g(1) rec unfolding e by (auto split: if_splits)
          have cg: "c < length (w_heap (w\<lparr>w_heap := g\<rparr>))" "is_box (w_heap (w\<lparr>w_heap := g\<rparr>)) c" using c l1 b1 g(3,4) by simp_all
          have ih: "heap_ok ?T (w_heap w2) \<and> units ?T k (w_heap w2) \<le> units ?T k g + amount_of ?T k (g ! length h1) \<and>
              length g \<le> length (w_heap w2) \<and> (\<forall>b<length g. is_box (w_heap w2) b = is_box g b)"
            using Suc.IH [OF _ cg _ _ Suc.prems(6) rec] g(2,3,6) by simp
          have "amount_of ?T k (g ! length h1) = (if it_id (?h ! a) = k then unat m - unat k1 else 0)"
            using mo(5) [OF a(1)] g(7-9) st diff by (cases "it_id (?h ! a) = k") (simp_all add: amount_of_def isStackable_def)
          then have "units ?T k (w_heap w2) \<le> units ?T k ?h + amount_of ?T k (?h ! a)"
            using ih g(10) mo(4) [of k] amt kle mle by (auto split: if_splits)
          moreover have "\<forall>b<length ?h. is_box (w_heap w2) b = is_box ?h b" using ih g(3,4) b1 l1 by simp
          ultimately show ?thesis using ih l1 g(3) w' by simp
        qed
      qed
    qed
  qed
qed

end
