(* ===== verification/Container_Iterator.thy ===== *)
theory Container_Iterator
  imports Container_Tree
begin

text \<open>
  The iterator over everything a container holds visits every item below the container exactly once, so the
  counts that decide whether a container is full are those of the tree, and the loop ends.
\<close>

text \<open>The items still to be visited, in their order: the rest of the container being visited, then the
  containers in the queue.\<close>

definition pending :: "heap \<Rightarrow> box_iterator \<Rightarrow> nat list" where
  "pending h it = (case fst it of [] \<Rightarrow> [] | c # cs \<Rightarrow> drop (snd it) (itemlist h c) @ concat (map (itemlist h) cs))"

definition iter_ok :: "heap \<Rightarrow> box_iterator \<Rightarrow> bool" where
  "iter_ok h it \<longleftrightarrow> (\<forall>c\<in>set (fst it). itemlist h c \<noteq> []) \<and> (fst it \<noteq> [] \<longrightarrow> snd it < length (itemlist h (hd (fst it))))"

fun visit :: "nat \<Rightarrow> heap \<Rightarrow> nat list \<Rightarrow> nat list" where
  "visit 0 h l = []"
| "visit (Suc n) h [] = []"
| "visit (Suc n) h (a # l) = a # visit n h (l @ itemlist h a)"

lemma iter_advance_pending:
  assumes "iter_ok h it" and "hasNext it"
  shows "iter_ok h (iter_advance h it)" and "pending h it = iter_item h it # tl (pending h it)"
    and "pending h (iter_advance h it) = tl (pending h it) @ itemlist h (iter_item h it)"
proof -
  obtain c cs i where it: "it = (c # cs, i)" using assms(2) by (cases it; cases "fst it") (auto simp: hasNext_def)
  have i: "i < length (itemlist h c)" and ne: "itemlist h c \<noteq> []" "\<forall>d\<in>set cs. itemlist h d \<noteq> []"
    using assms(1) by (auto simp: iter_ok_def it)
  have drop: "drop i (itemlist h c) = itemlist h c ! i # drop (Suc i) (itemlist h c)" using Cons_nth_drop_Suc [OF i] by simp
  have item: "iter_item h it = itemlist h c ! i" by (simp add: iter_item_def it)
  show "pending h it = iter_item h it # tl (pending h it)" unfolding item by (simp add: pending_def it drop)
  let ?x = "itemlist h c ! i"
  define q where "q = (if itemlist h ?x \<noteq> [] then cs @ [?x] else cs)"
  have adv: "iter_advance h it = (if Suc i = length (itemlist h c) then (q, 0) else (c # q, Suc i))"
    using item unfolding iter_advance_def it q_def by simp
  have qe: "\<forall>d\<in>set q. itemlist h d \<noteq> []" "concat (map (itemlist h) q) = concat (map (itemlist h) cs) @ itemlist h ?x"
    using ne by (auto simp: q_def)
  show "iter_ok h (iter_advance h it)" using qe(1) ne i by (cases q) (auto simp: adv iter_ok_def)
  have "pending h (q, 0) = concat (map (itemlist h) q)" by (cases q) (simp_all add: pending_def)
  then show "pending h (iter_advance h it) = tl (pending h it) @ itemlist h (iter_item h it)"
    unfolding adv item using qe(2) by (simp add: pending_def it drop)
qed

lemma iter_collect_visit: "iter_ok h it \<Longrightarrow> iter_collect n h it = visit n h (pending h it)"
proof (induction n arbitrary: it)
  case (Suc n)
  show ?case
  proof (cases "hasNext it")
    case True
    note adv = iter_advance_pending [OF Suc.prems True]
    have "visit (Suc n) h (pending h it) = iter_item h it # visit n h (tl (pending h it) @ itemlist h (iter_item h it))"
      by (subst adv(2)) simp
    then show ?thesis using True Suc.IH [OF adv(1)] adv(3) by simp
  next
    case False
    then have "pending h it = []" by (auto simp: hasNext_def pending_def split: list.splits)
    then show ?thesis using False by simp
  qed
qed simp

text \<open>The items at or below those of a set.\<close>

definition below :: "heap \<Rightarrow> nat set \<Rightarrow> nat set" where
  "below h S = {x. \<exists>a\<in>S. (x, a) \<in> (up h)\<^sup>*}"

definition apart :: "heap \<Rightarrow> nat list \<Rightarrow> bool" where
  "apart h l \<longleftrightarrow> distinct l \<and> (\<forall>a\<in>set l. \<forall>b\<in>set l. (a, b) \<in> (up h)\<^sup>* \<longrightarrow> a = b)"

lemma below_Un: "below h (S \<union> T) = below h S \<union> below h T"
  by (auto simp: below_def)

lemma below_item:
  assumes ok: "tree_ok h" and a: "a < length h"
  shows "below h {a} = insert a (below h (set (itemlist h a)))"
proof -
  have "(x, a) \<in> (up h)\<^sup>* \<longleftrightarrow> x = a \<or> (\<exists>b\<in>set (itemlist h a). (x, b) \<in> (up h)\<^sup>*)" for x
  proof
    assume "(x, a) \<in> (up h)\<^sup>*"
    then show "x = a \<or> (\<exists>b\<in>set (itemlist h a). (x, b) \<in> (up h)\<^sup>*)"
    proof (cases rule: rtranclE)
      case (step b)
      then show ?thesis using up_less [OF ok] by blast
    qed simp
  next
    assume "x = a \<or> (\<exists>b\<in>set (itemlist h a). (x, b) \<in> (up h)\<^sup>*)"
    then show "(x, a) \<in> (up h)\<^sup>*"
    proof
      assume "\<exists>b\<in>set (itemlist h a). (x, b) \<in> (up h)\<^sup>*"
      then obtain b where b: "b \<in> set (itemlist h a)" "(x, b) \<in> (up h)\<^sup>*" by blast
      then have "(b, a) \<in> up h" using tree_okD(2) [OF ok a] by (simp add: up_iff)
      then show ?thesis using b(2) by (rule rtrancl_into_rtrancl [rotated])
    qed simp
  qed
  then show ?thesis by (auto simp: below_def)
qed

lemma below_less: "tree_ok h \<Longrightarrow> S \<subseteq> {..<length h} \<Longrightarrow> below h S \<subseteq> {..<length h}"
proof
  fix x assume ok: "tree_ok h" and S: "S \<subseteq> {..<length h}" and "x \<in> below h S"
  then obtain a where a: "a \<in> S" "(x, a) \<in> (up h)\<^sup>*" by (auto simp: below_def)
  show "x \<in> {..<length h}"
  proof (cases "x = a")
    case True
    then show ?thesis using a S by blast
  next
    case False
    then obtain y where "(x, y) \<in> up h" using a(2) by (meson converse_rtranclE)
    then show ?thesis using up_less [OF ok] by blast
  qed
qed

lemma apart_step:
  assumes ok: "tree_ok h" and a: "a < length h" and ap: "apart h (a # l)"
  shows "apart h (l @ itemlist h a)" and "a \<notin> below h (set (l @ itemlist h a))"
proof -
  have child: "(b, a) \<in> up h" if "b \<in> set (itemlist h a)" for b using that tree_okD(2) [OF ok a] by (simp add: up_iff)
  have irr: "(x, x) \<notin> (up h)\<^sup>+" for x using tree_okD(4) [OF ok] by (simp add: acyclic_def)
  have al: "(a, d) \<notin> (up h)\<^sup>*" "(d, a) \<notin> (up h)\<^sup>*" if "d \<in> set l" for d using that ap unfolding apart_def by auto
  have down: "(a, b) \<notin> (up h)\<^sup>*" if "b \<in> set (itemlist h a)" for b
    using irr [of a] child [OF that] by (meson rtrancl_into_trancl1)
  show "a \<notin> below h (set (l @ itemlist h a))" using al down by (auto simp: below_def)
  have first: "(b, d) \<in> (up h)\<^sup>* \<Longrightarrow> b \<noteq> d \<Longrightarrow> (a, d) \<in> (up h)\<^sup>*" if "b \<in> set (itemlist h a)" for b d
    using child [OF that] up_single by (metis converse_rtranclE)
  have "distinct (l @ itemlist h a)"
    using ap tree_okD(1) [OF ok a] child al(2) unfolding apart_def by auto
  moreover have "x = y" if xy: "x \<in> set (l @ itemlist h a)" "y \<in> set (l @ itemlist h a)" "(x, y) \<in> (up h)\<^sup>*" for x y
  proof (cases "x \<in> set (itemlist h a)")
    case True
    show ?thesis
    proof (rule ccontr)
      assume "x \<noteq> y"
      then have "(a, y) \<in> (up h)\<^sup>*" using first [OF True] xy(3) by blast
      then show False using xy(2) al(1) down by auto
    qed
  next
    case False
    then have xl: "x \<in> set l" using xy(1) by simp
    show ?thesis
    proof (cases "y \<in> set l")
      case True
      then show ?thesis using xl xy(3) ap unfolding apart_def by auto
    next
      case False
      then have "(y, a) \<in> up h" using xy(2) child by simp
      then have "(x, a) \<in> (up h)\<^sup>*" using xy(3) by (rule rtrancl_into_rtrancl [rotated])
      then show ?thesis using al(2) [OF xl] by blast
    qed
  qed
  ultimately show "apart h (l @ itemlist h a)" unfolding apart_def by blast
qed

lemma visit_below:
  "tree_ok h \<Longrightarrow> apart h l \<Longrightarrow> set l \<subseteq> {..<length h} \<Longrightarrow> card (below h (set l)) \<le> n \<Longrightarrow>
    distinct (visit n h l) \<and> set (visit n h l) = below h (set l)"
proof (induction n arbitrary: l)
  case 0
  have fin: "finite (below h (set l))" using below_less [OF 0(1,3)] finite_subset by blast
  then have "below h (set l) = {}" using 0(4) by simp
  then show ?case by simp
next
  case (Suc n)
  show ?case
  proof (cases l)
    case Nil
    then show ?thesis by (simp add: below_def)
  next
    case (Cons a r)
    have a: "a < length h" using Suc.prems(3) Cons by simp
    note step = apart_step [OF Suc.prems(1) a Suc.prems(2) [unfolded Cons]]
    have sub: "set (r @ itemlist h a) \<subseteq> {..<length h}" using Suc.prems(3) Cons tree_okD(2) [OF Suc.prems(1) a] by auto
    have eq: "below h (set l) = insert a (below h (set (r @ itemlist h a)))"
    proof -
      have "below h (set l) = below h {a} \<union> below h (set r)" using Cons below_Un [of h "{a}" "set r"] by simp
      then show ?thesis using below_item [OF Suc.prems(1) a] below_Un by auto
    qed
    have fin: "finite (below h (set (r @ itemlist h a)))" using below_less [OF Suc.prems(1) sub] finite_subset by blast
    have "card (below h (set (r @ itemlist h a))) \<le> n" using Suc.prems(4) step(2) fin unfolding eq by simp
    then have ih: "distinct (visit n h (r @ itemlist h a)) \<and> set (visit n h (r @ itemlist h a)) = below h (set (r @ itemlist h a))"
      by (rule Suc.IH [OF Suc.prems(1) step(1) sub])
    then show ?thesis unfolding eq unfolding Cons using step(2) by simp
  qed
qed

lemma getItems_below:
  assumes ok: "tree_ok h" and c: "c < length h"
  shows "distinct (getItems h c) \<and> set (getItems h c) = below h (set (itemlist h c))"
proof -
  have it: "iter_ok h (box_iterator h c)" "pending h (box_iterator h c) = itemlist h c"
    by (auto simp: iter_ok_def box_iterator_def pending_def)
  have child: "(b, c) \<in> up h" if "b \<in> set (itemlist h c)" for b using that tree_okD(2) [OF ok c] by (simp add: up_iff)
  have sub: "set (itemlist h c) \<subseteq> {..<length h}" using tree_okD(2) [OF ok c] by auto
  have "a = b" if ab: "a \<in> set (itemlist h c)" "b \<in> set (itemlist h c)" "(a, b) \<in> (up h)\<^sup>*" for a b
  proof (rule ccontr)
    assume "a \<noteq> b"
    then obtain w where "(a, w) \<in> up h" "(w, b) \<in> (up h)\<^sup>*" using ab(3) by (meson converse_rtranclE)
    then have "(c, b) \<in> (up h)\<^sup>*" using child [OF ab(1)] up_single by blast
    then show False using no_cycle [OF ok] child [OF ab(2)] by blast
  qed
  then have ap: "apart h (itemlist h c)" using tree_okD(1) [OF ok c] unfolding apart_def by blast
  have "card (below h (set (itemlist h c))) \<le> length h"
    using card_mono [OF _ below_less [OF ok sub]] by simp
  then show ?thesis using visit_below [OF ok ap sub] iter_collect_visit [OF it(1)] it(2) by (simp add: getItems_def)
qed

text \<open>C30: the iterator visits every item in a container, at whatever depth, exactly once and nothing else, and it
  ends; so the number of items that counts towards the limit of a container is the number of items
  below it.\<close>

theorem holds_everything_once:
  assumes "tree_ok h" and "c < length h"
  shows "distinct (getItems h c) \<and> set (getItems h c) = {x. (x, c) \<in> (up h)\<^sup>+} \<and> getItemHoldingCount h c = card {x. (x, c) \<in> (up h)\<^sup>+}"
proof -
  have "below h (set (itemlist h c)) = {x. (x, c) \<in> (up h)\<^sup>+}"
  proof -
    have "(\<exists>a\<in>set (itemlist h c). (x, a) \<in> (up h)\<^sup>*) \<longleftrightarrow> (x, c) \<in> (up h)\<^sup>+" for x
    proof
      assume "\<exists>a\<in>set (itemlist h c). (x, a) \<in> (up h)\<^sup>*"
      then obtain a where "a \<in> set (itemlist h c)" "(x, a) \<in> (up h)\<^sup>*" by blast
      moreover from this have "(a, c) \<in> up h" using tree_okD(2) [OF assms] by (simp add: up_iff)
      ultimately show "(x, c) \<in> (up h)\<^sup>+" by (meson rtrancl_into_trancl1)
    next
      assume "(x, c) \<in> (up h)\<^sup>+"
      then obtain a where "(x, a) \<in> (up h)\<^sup>*" "(a, c) \<in> up h" by (meson tranclD2)
      then show "\<exists>a\<in>set (itemlist h c). (x, a) \<in> (up h)\<^sup>*" using up_less [OF assms(1)] by blast
    qed
    then show ?thesis by (simp add: below_def)
  qed
  then have g: "distinct (getItems h c)" "set (getItems h c) = {x. (x, c) \<in> (up h)\<^sup>+}" using getItems_below [OF assms] by simp_all
  then have "getItemHoldingCount h c = card {x. (x, c) \<in> (up h)\<^sup>+}" using distinct_card [OF g(1)] by (simp add: getItemHoldingCount_def)
  then show ?thesis using g by simp
qed

end
