(* ===== verification/Item_Runs.thy ===== *)
theory Item_Runs
  imports Item_Laws Container_Iterator
begin

text \<open>
  Runs of moves, removals and additions of items in containers, and the properties that hold of all of them.
\<close>

datatype item_op =
    Op_Move nat nat int nat u32 "nat option"
  | Op_Remove nat int
  | Op_Add nat u16 u16

text \<open>The operations come with pointers to items and containers that exist; another one is no operation. A
  new stack is not higher than its type allows (\<open>createItemBatch\<close>), and the depth of the addition covers a stack.\<close>

definition ADD_FUEL :: nat where "ADD_FUEL = 256"

definition item_step :: "world_env \<Rightarrow> item_op \<Rightarrow> item_world \<Rightarrow> item_world" where
  "item_step E op w = (case op of
       Op_Move from to index a count tradeItem \<Rightarrow>
         (if from < length (w_heap w) \<and> to < length (w_heap w) \<and> is_box (w_heap w) to
          then snd (internalMoveItem E from to index a count tradeItem no_flags w) else w)
     | Op_Remove a count \<Rightarrow> (if a < length (w_heap w) then snd (internalRemoveItem E a count False no_flags False w) else w)
     | Op_Add c i n \<Rightarrow>
         (if c < length (w_heap w) \<and> is_box (w_heap w) c \<and> unat n \<le> unat (ty_stackSize (ev_types E i)) \<and> 0 < ty_stackSize (ev_types E i)
          then (case create_item (ev_types E) i n of
              None \<Rightarrow> w
            | Some x \<Rightarrow> snd (snd (internalAddItem ADD_FUEL E c (length (w_heap w)) INDEX_WHEREEVER no_flags False
                (w\<lparr>w_heap := w_heap w @ [x]\<rparr>))))
          else w))"

definition item_run :: "world_env \<Rightarrow> item_op list \<Rightarrow> item_world \<Rightarrow> item_world" where
  "item_run E ops w = fold (item_step E) ops w"

text \<open>The units an operation may create.\<close>

definition created_by :: "world_env \<Rightarrow> u16 \<Rightarrow> item_op \<Rightarrow> nat" where
  "created_by E k op = (case op of Op_Add c i n \<Rightarrow>
       (case create_item (ev_types E) i n of None \<Rightarrow> 0 | Some x \<Rightarrow> amount_of (ev_types E) k x)
     | _ \<Rightarrow> 0)"

definition created :: "world_env \<Rightarrow> u16 \<Rightarrow> item_op list \<Rightarrow> nat" where
  "created E k ops = sum_list (map (created_by E k) ops)"

lemma create_item_fresh:
  assumes E: "types_ok E" and x: "create_item (ev_types E) i n = Some x"
    and n: "unat n \<le> unat (ty_stackSize (ev_types E i))" "0 < ty_stackSize (ev_types E i)"
  shows "it_parent x = No_Parent" and "it_box x = None"
    and "isStackable (ev_types E) x \<Longrightarrow> unat (it_count x) \<le> getStackSize (ev_types E) x \<and> ty_replacedBy (ev_types E (it_id x)) = None"
proof -
  let ?T = "ev_types E"
  define j where "j = (case ty_replacedBy (?T i) of Some j \<Rightarrow> j | None \<Rightarrow> i)"
  define n' where "n' = (if ty_stackable (?T i) \<and> n = 0 then 1 else n)"
  have x': "x = new_item ?T j n'" using x by (auto simp: create_item_def j_def n'_def Let_def split: if_splits)
  have j: "ty_replacedBy (?T j) = None \<and> ty_stackable (?T j) = ty_stackable (?T i) \<and> ty_stackSize (?T j) = ty_stackSize (?T i)"
    using E by (auto simp: j_def types_ok_def split: option.splits)
  show "it_parent x = No_Parent" "it_box x = None" unfolding x' by (simp_all add: new_item_def Let_def decay_ops_keep attr_ops_keep)
  assume s: "isStackable ?T x"
  have id: "it_id x = j" unfolding x' by (simp add: new_item_def Let_def decay_ops_keep attr_ops_keep)
  then have sj: "ty_stackable (?T j)" "\<not> ty_fluid (?T j)" using s E by (auto simp: isStackable_def types_ok_def)
  have n0: "n' \<noteq> 0" using sj(1) j by (auto simp: n'_def)
  have "unat n' \<le> unat (ty_stackSize (?T j))" using n j by (auto simp: n'_def word_less_nat_alt)
  moreover have "unat (ty_stackSize (?T j)) < 256" using unsigned_less [of "ty_stackSize (?T j)", where ?'a = nat] by simp
  ultimately have "unat (ucast n' :: u8) = unat n'" "unat n' \<le> unat (ty_stackSize (?T j))" using unat_ucast_small [where 'b = 8, of n'] by simp_all
  moreover have "it_count x = ucast n'" unfolding x' using sj n0 by (simp add: new_item_def Let_def decay_ops_keep)
  ultimately show "unat (it_count x) \<le> getStackSize ?T x \<and> ty_replacedBy (?T (it_id x)) = None"
    using s id j by (simp add: getStackSize_def)
qed

lemma item_step_ok:
  assumes E: "types_ok E" and ok: "heap_ok (ev_types E) (w_heap w)"
  shows "heap_ok (ev_types E) (w_heap (item_step E op w))"
    and "units (ev_types E) k (w_heap (item_step E op w)) \<le> units (ev_types E) k (w_heap w) + created_by E k op"
proof -
  let ?T = "ev_types E" and ?h = "w_heap w"
  have fl: "\<not> fl_childIsOwner no_flags" by (simp add: no_flags_def)
  have "heap_ok ?T (w_heap (item_step E op w)) \<and> units ?T k (w_heap (item_step E op w)) \<le> units ?T k ?h + created_by E k op"
  proof (cases op)
    case (Op_Move f c i a n tr)
    show ?thesis
    proof (cases "f < length ?h \<and> c < length ?h \<and> is_box ?h c")
      case True
      obtain r w' where res: "internalMoveItem E f c i a n tr no_flags w = (r, w')" by (cases "internalMoveItem E f c i a n tr no_flags w") blast
      have v: "f < length ?h" "c < length ?h" "is_box ?h c" using True by simp_all
      note m = move_ok [OF E ok v fl res]
      have "item_step E op w = w'" using Op_Move True res by (simp add: item_step_def)
      then show ?thesis using m(1) m(2) [of k] by simp
    qed (use Op_Move ok in \<open>auto simp: item_step_def\<close>)
  next
    case (Op_Remove a n)
    show ?thesis
    proof (cases "a < length ?h")
      case True
      obtain r w' where res: "internalRemoveItem E a n False no_flags False w = (r, w')" by (cases "internalRemoveItem E a n False no_flags False w") blast
      note m = remove_ok [OF ok True res]
      have "item_step E op w = w'" using Op_Remove True res by (simp add: item_step_def)
      then show ?thesis using m(1) m(2) [of k] by simp
    qed (use Op_Remove ok in \<open>simp add: item_step_def\<close>)
  next
    case (Op_Add c i n)
    show ?thesis
    proof (cases "c < length ?h \<and> is_box ?h c \<and> unat n \<le> unat (ty_stackSize (?T i)) \<and> 0 < ty_stackSize (?T i) \<and> create_item ?T i n \<noteq> None")
      case True
      then obtain x where x: "create_item ?T i n = Some x" by blast
      have v: "c < length ?h" "is_box ?h c" "unat n \<le> unat (ty_stackSize (?T i))" "0 < ty_stackSize (?T i)" using True by simp_all
      note f = create_item_fresh [OF E x v(3,4)]
      let ?w = "w\<lparr>w_heap := ?h @ [x]\<rparr>"
      have ok': "heap_ok ?T (w_heap ?w)" using append_heap_ok(1) [OF ok f] by simp
      have u: "units ?T k (?h @ [x]) = units ?T k ?h" using f(1) by (simp add: units_append placed_units_def)
      obtain r rest w' where res: "internalAddItem ADD_FUEL E c (length ?h) INDEX_WHEREEVER no_flags False ?w = (r, rest, w')"
        by (cases "internalAddItem ADD_FUEL E c (length ?h) INDEX_WHEREEVER no_flags False ?w") blast
      have pre: "c < length (w_heap ?w)" "is_box (w_heap ?w) c" "length ?h < length (w_heap ?w)" "it_parent (w_heap ?w ! length ?h) = No_Parent"
        using v(1,2) f(1) append_nth(3) by simp_all
      have add: "heap_ok ?T (w_heap w')" "units ?T k (w_heap w') \<le> units ?T k (w_heap ?w) + amount_of ?T k (w_heap ?w ! length ?h)"
        using add_ok [OF E ok' pre fl res, of k] by blast+
      have "item_step E op w = w'" using Op_Add True x res by (simp add: item_step_def)
      then show ?thesis using add u x Op_Add by (simp add: created_by_def)
    next
      case False
      then have "item_step E op w = w" using Op_Add by (auto simp: item_step_def split: option.splits)
      then show ?thesis using ok by simp
    qed
  qed
  then show "heap_ok ?T (w_heap (item_step E op w))"
    "units ?T k (w_heap (item_step E op w)) \<le> units ?T k ?h + created_by E k op" by simp_all
qed

text \<open>Operations that keep an invariant and of which each adds at most a known amount to a quantity.\<close>

locale metered =
  fixes step :: "'op \<Rightarrow> 's \<Rightarrow> 's" and ok :: "'s \<Rightarrow> bool" and amount :: "'k \<Rightarrow> 's \<Rightarrow> nat" and gain :: "'k \<Rightarrow> 'op \<Rightarrow> nat"
  assumes step_ok: "ok s \<Longrightarrow> ok (step op s)"
    and step_amount: "ok s \<Longrightarrow> amount k (step op s) \<le> amount k s + gain k op"
begin

lemma run_ok: "ok s \<Longrightarrow> ok (fold step ops s)"
  by (induction ops arbitrary: s) (simp_all add: step_ok)

lemma run_amount: "ok s \<Longrightarrow> amount k (fold step ops s) \<le> amount k s + sum_list (map (gain k) ops)"
proof (induction ops arbitrary: s)
  case (Cons op ops)
  have "amount k (fold step ops (step op s)) \<le> amount k (step op s) + sum_list (map (gain k) ops)"
    by (rule Cons.IH [OF step_ok [OF Cons.prems]])
  then show ?case using step_amount [OF Cons.prems, of k op] by simp
qed simp

end

interpretation item_ops: metered "item_step E" "\<lambda>w. types_ok E \<and> heap_ok (ev_types E) (w_heap w)"
    "\<lambda>k w. units (ev_types E) k (w_heap w)" "created_by E" for E
  by unfold_locales (use item_step_ok in blast)+

text \<open>C28: in every run of moves, removals and additions in containers the tree stays well-formed and free
  of cycles and every container knows the weight of its contents, and of no kind of item there are more
  units than there were and have been created: nothing duplicates items.\<close>

theorem items_never_duplicated:
  assumes "types_ok E" and "heap_ok (ev_types E) (w_heap w)"
  shows "heap_ok (ev_types E) (w_heap (item_run E ops w)) \<and>
    units (ev_types E) k (w_heap (item_run E ops w)) \<le> units (ev_types E) k (w_heap w) + created E k ops"
  using item_ops.run_ok [of E w ops] item_ops.run_amount [of E w k ops] assms by (simp add: item_run_def created_def)

text \<open>C29: a move between containers that ends in a place the container has keeps the number of units of every
  kind of item, whether stacks are merged or split, and a refused one changes nothing.\<close>

theorem move_conserves_items:
  assumes "types_ok E" and "heap_ok (ev_types E) (w_heap w)" and "from < length (w_heap w)" and "to < length (w_heap w)"
    and "is_box (w_heap w) to" and "place_fits E (w_heap w) to index a no_flags"
    and "internalMoveItem E from to index a count tradeItem no_flags w = (r, w')"
  shows "units (ev_types E) k (w_heap w') = units (ev_types E) k (w_heap w) \<and> (\<forall>v. r = Refused v \<longrightarrow> w' = w)"
proof
  have fl: "\<not> fl_childIsOwner no_flags" by (simp add: no_flags_def)
  show "units (ev_types E) k (w_heap w') = units (ev_types E) k (w_heap w)"
    using move_ok(3) [OF assms(1-5) fl assms(7) assms(6)] .
  obtain t i d f where "find_destination MAP_MAX_LAYERS (ev_types E) (w_heap w) to index a None no_flags = (t, i, d, f)"
    by (cases "find_destination MAP_MAX_LAYERS (ev_types E) (w_heap w) to index a None no_flags") blast
  then show "\<forall>v. r = Refused v \<longrightarrow> w' = w" using move_cases [OF assms(7)] by auto
qed

text \<open>An item that is moved to a place beyond the capacity of a container with pages is taken from where it
  was and put nowhere.\<close>

lemma place_beyond_capacity_loses:
  assumes "heap_ok (ev_types E) (w_heap w)" and "from < length (w_heap w)" and "to < length (w_heap w)"
    and "is_box (w_heap w) to" and "\<not> place_fits E (w_heap w) to index a no_flags" and "\<not> isStackable (ev_types E) (w_heap w ! a)"
    and "internalMoveItem E from to index a count tradeItem no_flags w = (Moved v x, w')"
  shows "units (ev_types E) (it_id (w_heap w ! a)) (w_heap w') + 1 = units (ev_types E) (it_id (w_heap w ! a)) (w_heap w)"
proof -
  let ?T = "ev_types E" and ?h = "w_heap w"
  obtain t i d f where dest: "find_destination MAP_MAX_LAYERS ?T ?h to index a None no_flags = (t, i, d, f)"
    by (cases "find_destination MAP_MAX_LAYERS ?T ?h to index a None no_flags") blast
  obtain n m where q: "queryAdd E ?h t i a n f = RET_NOERROR" "queryRemove ?T ?h from a m f = RET_NOERROR" "w' = transfer_item E from t i a m w"
    using move_cases [OF assms(7) dest] assms(6) by auto
  note dst = find_destination_in [OF heap_okD(1) [OF assms(1)] assms(3,4) dest]
  have t: "t < length ?h" "is_box ?h t" "\<not> fl_childIsOwner f" using dst by (auto simp: no_flags_def)
  have "\<not> i < sint (bx_maxSize (box_of ?h t))" using assms(5) by (simp add: place_fits_def dest)
  then show ?thesis
    using transfer_item_ok(4) [where index = i and m = m, OF assms(1,2) queryRemove_ok(1) [OF q(2)] t(1,2) queryAdd_ok [OF q(1) t(3,1)] assms(6), of "it_id (?h ! a)"]
      q(3) assms(6) by (simp add: amount_of_def)
qed

subsection \<open>A sample\<close>

definition bag_types :: types where
  "bag_types i = \<lparr>ty_id = i, ty_stackable = (i = ITEM_GOLD_COIN), ty_stackSize = 100,
     ty_weight = (if i = ITEM_GOLD_COIN then 10 else if i = 3264 then 3500 else 200), ty_pickupable = True, ty_movable = True, ty_fluid = False,
     ty_container = (i = 2854 \<or> i = 23721), ty_charges = 0, ty_quiver = False, ty_ammo = False, ty_decayTo = - 1, ty_decayTime = 0,
     ty_stopTime = False, ty_transformEquipTo = 0, ty_transformDeEquipTo = 0, ty_replacedBy = None\<rparr>"

definition bag_env :: world_env where
  "bag_env = \<lparr>ev_types = bag_types, ev_maxContainer = 100, ev_isOwner = (\<lambda>_ _. True), ev_hasCapacity = (\<lambda>_ _ _ _. True)\<rparr>"

definition bag_item :: "u16 \<Rightarrow> u8 \<Rightarrow> parent \<Rightarrow> box option \<Rightarrow> item" where
  "bag_item i n p b = \<lparr>it_id = i, it_count = n, it_attrs = None, it_parent = p, it_loadedFromMap = False, it_decayDisabled = False, it_box = b\<rparr>"

text \<open>A backpack with a gold pouch, a sword and 50 coins; in the pouch are 80 coins.\<close>

definition bag_world :: item_world where
  "bag_world = \<lparr>w_heap =
     [bag_item 2854 1 (On_Player 7) (Some \<lparr>bx_items = [1, 2, 3], bx_maxSize = 20, bx_maxItems = 100, bx_unlocked = True,
        bx_pagination = False, bx_inbox = False, bx_weight = 5000\<rparr>),
      bag_item 23721 1 (In_Box 0) (Some \<lparr>bx_items = [4], bx_maxSize = 32, bx_maxItems = 2000, bx_unlocked = True,
        bx_pagination = True, bx_inbox = False, bx_weight = 800\<rparr>),
      bag_item 3264 1 (In_Box 0) None, bag_item ITEM_GOLD_COIN 50 (In_Box 0) None, bag_item ITEM_GOLD_COIN 80 (In_Box 1) None],
     w_decay = []\<rparr>"

text \<open>A heap in which every container comes before its contents is checked by computation.\<close>

definition tree_check :: "heap \<Rightarrow> bool" where
  "tree_check h \<longleftrightarrow>
     list_all (\<lambda>c. distinct (itemlist h c) \<and> list_all (\<lambda>a. a < length h \<and> it_parent (h ! a) = In_Box c) (itemlist h c)) [0..<length h] \<and>
     list_all (\<lambda>a. case it_parent (h ! a) of In_Box p \<Rightarrow> p < length h \<and> p < a \<and> a \<in> set (itemlist h p) | _ \<Rightarrow> True) [0..<length h]"

definition heap_check :: "types \<Rightarrow> heap \<Rightarrow> bool" where
  "heap_check T h \<longleftrightarrow> tree_check h \<and>
     list_all (\<lambda>c. is_box h c \<longrightarrow> contents h c = held_weight T h c) [0..<length h] \<and>
     list_all (\<lambda>a. (is_box h a \<longrightarrow> \<not> isStackable T (h ! a)) \<and>
       (isStackable T (h ! a) \<longrightarrow> unat (it_count (h ! a)) \<le> getStackSize T (h ! a) \<and> ty_replacedBy (T (it_id (h ! a))) = None)) [0..<length h]"

lemma heap_check_ok:
  assumes "heap_check T h"
  shows "heap_ok T h"
proof (rule heap_okI)
  have t: "tree_check h" using assms by (simp add: heap_check_def)
  have down: "p < length h \<and> p < a \<and> a \<in> set (itemlist h p)" if "a < length h" "it_parent (h ! a) = In_Box p" for a p
  proof -
    have "\<forall>a\<in>{0..<length h}. case it_parent (h ! a) of In_Box p \<Rightarrow> p < length h \<and> p < a \<and> a \<in> set (itemlist h p) | _ \<Rightarrow> True"
      using t by (simp add: tree_check_def list_all_iff)
    then have "case it_parent (h ! a) of In_Box p \<Rightarrow> p < length h \<and> p < a \<and> a \<in> set (itemlist h p) | _ \<Rightarrow> True" using that(1) by simp
    then show ?thesis using that(2) by simp
  qed
  have "up h \<subseteq> less_than\<inverse>" using down by (auto simp: up_iff)
  then have "acyclic (up h)" using acyclic_subset [of "less_than\<inverse>"] wf_less_than wf_acyclic acyclic_converse by metis
  moreover have "distinct (itemlist h c) \<and> (\<forall>a\<in>set (itemlist h c). a < length h \<and> it_parent (h ! a) = In_Box c)" if "c < length h" for c
  proof -
    have "\<forall>c\<in>set [0..<length h]. distinct (itemlist h c) \<and> (\<forall>a\<in>set (itemlist h c). a < length h \<and> it_parent (h ! a) = In_Box c)"
      using t unfolding tree_check_def list_all_iff by blast
    moreover have "c \<in> set [0..<length h]" using that by simp
    ultimately show ?thesis by (rule bspec)
  qed
  ultimately show "tree_ok h" unfolding tree_ok_def using down by blast
  show "weights_ok T h" using assms by (simp add: heap_check_def weights_ok_def list_all_iff)
  show "items_ok T h" using assms by (simp add: heap_check_def items_ok_def list_all_iff)
qed

lemma bag_types_ok: "types_ok bag_env"
  by (simp add: types_ok_def bag_env_def bag_types_def ITEM_GOLD_COIN_def)

lemma bag_heap_ok: "heap_ok (ev_types bag_env) (w_heap bag_world)"
  by (rule heap_check_ok) code_simp

lemma items_never_duplicated_witness:
  "units (ev_types bag_env) ITEM_GOLD_COIN
     (w_heap (item_run bag_env [Op_Move 0 1 0 3 50 None, Op_Remove 2 (- 1), Op_Add 0 ITEM_GOLD_COIN 30] bag_world)) \<le> 160"
proof -
  have "units (ev_types bag_env) ITEM_GOLD_COIN (w_heap bag_world) = 130"
    "created bag_env ITEM_GOLD_COIN [Op_Move 0 1 0 3 50 None, Op_Remove 2 (- 1), Op_Add 0 ITEM_GOLD_COIN 30] = 30" by code_simp+
  then show ?thesis
    using items_never_duplicated [OF bag_types_ok bag_heap_ok,
        of "[Op_Move 0 1 0 3 50 None, Op_Remove 2 (- 1), Op_Add 0 ITEM_GOLD_COIN 30]" ITEM_GOLD_COIN] by simp
qed

lemma move_conserves_items_witness:
  "units (ev_types bag_env) ITEM_GOLD_COIN (w_heap (snd (internalMoveItem bag_env 0 1 0 3 50 None no_flags bag_world))) = 130"
proof -
  have "length (w_heap bag_world) = 5" "is_box (w_heap bag_world) 1" "place_fits bag_env (w_heap bag_world) 1 0 3 no_flags"
    "units (ev_types bag_env) ITEM_GOLD_COIN (w_heap bag_world) = 130" by code_simp+
  moreover obtain r w' where "internalMoveItem bag_env 0 1 0 3 50 None no_flags bag_world = (r, w')" by (rule prod.exhaust)
  ultimately show ?thesis using move_conserves_items [OF bag_types_ok bag_heap_ok, of 0 1 0 3] by simp
qed

lemma place_beyond_capacity_loses_witness:
  "units (ev_types bag_env) 3264 (w_heap (snd (internalMoveItem bag_env 0 1 40 2 1 None no_flags bag_world))) = 0"
proof -
  have c: "length (w_heap bag_world) = 5" "is_box (w_heap bag_world) 1" "\<not> place_fits bag_env (w_heap bag_world) 1 40 2 no_flags"
    "units (ev_types bag_env) 3264 (w_heap bag_world) = 1" "\<not> isStackable (ev_types bag_env) (w_heap bag_world ! 2)"
    "it_id (w_heap bag_world ! 2) = 3264" by code_simp+
  have "fst (internalMoveItem bag_env 0 1 40 2 1 None no_flags bag_world) = Moved RET_NOERROR 2" by code_simp
  then have m: "internalMoveItem bag_env 0 1 40 2 1 None no_flags bag_world =
      (Moved RET_NOERROR 2, snd (internalMoveItem bag_env 0 1 40 2 1 None no_flags bag_world))" by (metis prod.collapse)
  show ?thesis using place_beyond_capacity_loses [OF bag_heap_ok _ _ c(2,3,5) m] c(1,4,6) by simp
qed

lemma holds_everything_once_witness: "getItemHoldingCount (w_heap bag_world) 0 = 4 \<and> card {x. (x, 0) \<in> (up (w_heap bag_world))\<^sup>+} = 4"
proof -
  have "getItemHoldingCount (w_heap bag_world) 0 = 4" "length (w_heap bag_world) = 5" by code_simp+
  then show ?thesis using holds_everything_once [OF heap_okD(1) [OF bag_heap_ok], of 0] by simp
qed

end
