(* ===== verification/Item_Attrs.thy ===== *)
theory Item_Attrs
  imports Item_Model "HOL-Library.Multiset"
begin

text \<open>
  The laws of the attributes of items: what is read after an attribute has been set or removed, and that
  the vector of attributes stays free of duplicates, with integers where integers belong.
\<close>

text \<open>The last element takes the place of the one at \<open>i\<close>.\<close>

definition swap_pop :: "nat \<Rightarrow> 'a list \<Rightarrow> 'a list" where
  "swap_pop i l = butlast (l[i := last l])"

lemma mset_swap_pop:
  assumes "i < length l"
  shows "mset (swap_pop i l) = mset l - {#l ! i#}"
proof -
  let ?l = "l[i := last l]"
  have l: "?l \<noteq> []" "l \<noteq> []" using assms by auto
  have "last ?l = last l" using l(2) assms by (cases "i = length l - 1") (simp_all add: last_conv_nth nth_list_update)
  then have "mset ?l = add_mset (last l) (mset (butlast ?l))"
    using arg_cong [OF append_butlast_last_id [OF l(1)], of mset] by simp
  moreover have "mset ?l = add_mset (last l) (mset l - {#l ! i#})" using assms by (rule mset_update)
  ultimately show ?thesis by (simp add: swap_pop_def)
qed

lemma swap_pop_distinct:
  assumes "i < length l" and "distinct l"
  shows "distinct (swap_pop i l)" and "set (swap_pop i l) = set l - {l ! i}"
proof -
  have m: "mset (swap_pop i l) = mset (remove1 (l ! i) l)" using mset_swap_pop [OF assms(1)] by simp
  show "distinct (swap_pop i l)" using assms(2) mset_eq_imp_distinct_iff [OF m] by simp
  show "set (swap_pop i l) = set l - {l ! i}" using assms(2) mset_eq_setD [OF m] by simp
qed

subsection \<open>Attribute vectors\<close>

definition vector_ok :: "attr_vector \<Rightarrow> bool" where
  "vector_ok l \<longleftrightarrow> distinct (map fst l) \<and> (\<forall>p\<in>set l. isAttributeInteger (fst p) \<longrightarrow> (\<exists>n. snd p = Int_Value n))"

lemma put_find: "attr_find s (attr_put t v l) =
    (if s = t then Some (set_value v (case attr_find t l of Some w \<Rightarrow> w | None \<Rightarrow> default_value t)) else attr_find s l)"
  by (induction l) (auto simp: attr_find_def)

lemma put_keys: "fst ` set (attr_put t v l) = insert t (fst ` set l)"
proof (induction t v l rule: attr_put.induct)
  case (2 t v s w l)
  then show ?case by (cases "s = t") (simp_all add: insert_commute)
qed simp

lemma put_distinct: "distinct (map fst l) \<Longrightarrow> distinct (map fst (attr_put t v l))"
proof (induction l)
  case (Cons p l)
  obtain s w where "p = (s, w)" by (cases p)
  then show ?case using Cons by (cases "s = t") (simp_all add: put_keys)
qed simp

lemma integer_default: "isAttributeInteger t \<Longrightarrow> default_value t = Int_Value 0"
  by (auto simp: default_value_def isAttributeInteger_def isAttributeString_def)

lemma put_ok:
  assumes "vector_ok l"
  shows "vector_ok (attr_put t v l)"
proof -
  have "\<exists>n. snd p = Int_Value n" if "p \<in> set (attr_put t v l)" "isAttributeInteger (fst p)"
    "\<forall>p\<in>set l. isAttributeInteger (fst p) \<longrightarrow> (\<exists>n. snd p = Int_Value n)" for p
    using that
  proof (induction l)
    case Nil
    then show ?case by (auto simp: integer_default set_value_def split: attr_value.splits)
  next
    case (Cons q l)
    then show ?case by (cases q) (auto simp: set_value_def split: attr_value.splits if_splits)
  qed
  then show ?thesis using assms put_distinct unfolding vector_ok_def by blast
qed

lemma remove_set:
  assumes "distinct (map fst l)"
  shows "distinct (map fst (attr_remove t l)) \<and> set (attr_remove t l) = {p\<in>set l. fst p \<noteq> t}"
proof (cases "find_index (\<lambda>p. fst p = t) l < length l")
  case True
  let ?i = "find_index (\<lambda>p. fst p = t) l"
  have t: "fst (l ! ?i) = t" by (rule find_index_nth [OF True])
  have r: "attr_remove t l = swap_pop ?i l" using True by (simp add: attr_remove_def swap_pop_def Let_def)
  have s: "set (swap_pop ?i l) = set l - {l ! ?i}" using swap_pop_distinct(2) [OF True] assms by (simp add: distinct_map)
  have inj: "inj_on fst (set l)" "distinct l" using assms by (simp_all add: distinct_map)
  have "fst p = t \<longleftrightarrow> p = l ! ?i" if "p \<in> set l" for p
    using inj_on_eq_iff [OF inj(1) that nth_mem [OF True]] t by simp
  then have "set (swap_pop ?i l) = {p\<in>set l. fst p \<noteq> t}" unfolding s by blast
  moreover have "distinct (map fst (swap_pop ?i l))"
    unfolding distinct_map s using swap_pop_distinct(1) [OF True inj(2)] inj_on_subset [OF inj(1)] by blast
  ultimately show ?thesis by (simp add: r)
next
  case False
  have "\<not> (\<exists>p\<in>set l. fst p = t)" using False find_index_less [where p = "\<lambda>p. fst p = t"] by blast
  then have "set l = {p\<in>set l. fst p \<noteq> t}" by blast
  moreover have "attr_remove t l = l" using False by (simp add: attr_remove_def Let_def)
  ultimately show ?thesis using assms by metis
qed

lemma remove_find:
  assumes "distinct (map fst l)"
  shows "attr_find s (attr_remove t l) = (if s = t then None else attr_find s l)"
proof -
  note r = remove_set [OF assms, of t]
  have e: "attr_find s (attr_remove t l) = Some v \<longleftrightarrow> s \<noteq> t \<and> attr_find s l = Some v" for v
    unfolding attr_find_def map_of_eq_Some_iff [OF conjunct1 [OF r]] map_of_eq_Some_iff [OF assms] conjunct2 [OF r] by auto
  then have "attr_find s (attr_remove t l) = Some v \<longleftrightarrow> (if s = t then None else attr_find s l) = Some v" for v by simp
  then show ?thesis using option.exhaust by metis
qed

lemma attr_remove_ok: "vector_ok l \<Longrightarrow> vector_ok (attr_remove t l)"
  using remove_set [of l t] by (auto simp: vector_ok_def)

lemma has_find: "attr_has t l \<longleftrightarrow> attr_find t l \<noteq> None"
  by (simp add: attr_has_def attr_find_def map_of_eq_None_iff)

lemma set_int_find:
  assumes "vector_ok l" and "isAttributeInteger t"
  shows "attr_find s (attr_set_int t n l) = (if s = t then Some (Int_Value n) else attr_find s l)"
proof -
  have "\<exists>m. (case attr_find t l of Some w \<Rightarrow> w | None \<Rightarrow> default_value t) = Int_Value m"
    using assms by (auto simp: vector_ok_def attr_find_def integer_default split: option.split dest: map_of_SomeD)
  then show ?thesis using assms(2) by (auto simp: attr_set_int_def put_find set_value_def)
qed

lemma set_int_ok: "vector_ok l \<Longrightarrow> vector_ok (attr_set_int t n l)"
  by (simp add: attr_set_int_def put_ok)

subsection \<open>Attributes of items\<close>

definition attrs_ok :: "item \<Rightarrow> bool" where
  "attrs_ok x \<longleftrightarrow> vector_ok (item_vector x)"

lemma vector_set: "item_vector (setAttribute t n x) = attr_set_int t n (item_vector x)"
  by (simp add: setAttribute_def item_vector_def)

lemma vector_remove: "item_vector (removeAttribute t x) = attr_remove t (item_vector x)"
  by (cases "it_attrs x") (simp_all add: removeAttribute_def item_vector_def attr_remove_def)

lemma attrs_ok_ops: "attrs_ok x \<Longrightarrow> attrs_ok (setAttribute t n x)" "attrs_ok x \<Longrightarrow> attrs_ok (removeAttribute t x)"
  by (simp_all add: attrs_ok_def vector_set vector_remove set_int_ok attr_remove_ok)

lemma read_set:
  assumes "attrs_ok x" and "isAttributeInteger t"
  shows "hasAttribute s (setAttribute t n x) \<longleftrightarrow> s = t \<or> hasAttribute s x"
    and "getInteger s (setAttribute t n x) = (if s = t then n else getInteger s x)"
  using assms unfolding attrs_ok_def
  by (simp_all add: hasAttribute_def getInteger_def vector_set has_find getAttributeValue_def set_int_find value_integer_def)

lemma read_remove:
  assumes "attrs_ok x"
  shows "hasAttribute s (removeAttribute t x) \<longleftrightarrow> s \<noteq> t \<and> hasAttribute s x"
    and "getInteger s (removeAttribute t x) = (if s = t then 0 else getInteger s x)"
  using assms unfolding attrs_ok_def vector_ok_def
  by (simp_all add: hasAttribute_def getInteger_def vector_remove has_find getAttributeValue_def remove_find)

lemma integer_attrs [simp]: "isAttributeInteger DECAYSTATE" "isAttributeInteger DURATION" "isAttributeInteger DURATION_TIMESTAMP"
  "isAttributeInteger CHARGES" "isAttributeInteger FLUIDTYPE" "isAttributeInteger CORPSEOWNER" "isAttributeInteger UNIQUEID"
  by (simp_all add: isAttributeInteger_def)

lemma read_absent: "\<not> hasAttribute t x \<Longrightarrow> getInteger t x = 0"
  by (simp add: hasAttribute_def getInteger_def has_find getAttributeValue_def)

end
