(* ===== verification/Decay.thy ===== *)
theory Decay
  imports Item_Moves Item_Attrs
begin

text \<open>
  The decay of items (\<open>items/decay/decay\<close>): the table of items by the time they decay at, the event of
  the dispatcher that looks at it, and what an item in a container turns into (\<open>Game::transformItem\<close>
  and \<open>Item::transform\<close>, as decay calls them). Scripts that are told of the change, and the skills an item gave the player
  that carries it, are left out. A null pointer and an iterator to an erased entry are \<open>None\<close>.
\<close>

subsection \<open>State\<close>

record decay_env = world_env +
  dv_maxItems :: "u16 \<Rightarrow> u16"
  dv_maxContainerItem :: u32
  dv_topOrder :: "u16 \<Rightarrow> u8"
  dv_kind :: "u16 \<Rightarrow> nat"
  dv_group :: "u16 \<Rightarrow> nat"

text \<open>The table is ordered by time. \<open>dc_events\<close> holds the calls of \<open>checkDecay\<close> that wait in the dispatcher, with their
  numbers and times, \<open>dc_fresh\<close> the next number; \<open>dc_freed\<close> are the times whose entries \<open>stopDecay\<close> has
  erased since \<open>checkDecay\<close> last took what was due.\<close>

type_synonym decay_map = "(int \<times> nat list) list"

record decay_world =
  dc_heap :: heap
  dc_map :: decay_map
  dc_eventId :: nat
  dc_events :: "(nat \<times> int) list"
  dc_fresh :: nat
  dc_freed :: "int list"

fun map_push :: "int \<Rightarrow> nat \<Rightarrow> decay_map \<Rightarrow> decay_map" where
  "map_push t a [] = [(t, [a])]"
| "map_push t a ((s, l) # m) = (if s = t then (s, l @ [a]) # m else if t < s then (t, [a]) # (s, l) # m else (s, l) # map_push t a m)"

definition map_erase :: "int \<Rightarrow> decay_map \<Rightarrow> decay_map" where
  "map_erase t m = filter (\<lambda>e. fst e \<noteq> t) m"

definition map_set :: "int \<Rightarrow> nat list \<Rightarrow> decay_map \<Rightarrow> decay_map" where
  "map_set t l m = map (\<lambda>e. if fst e = t then (t, l) else e) m"

definition on_item :: "nat \<Rightarrow> (item \<Rightarrow> item) \<Rightarrow> decay_world \<Rightarrow> decay_world" where
  "on_item a f s = s\<lparr>dc_heap := upd_item a f (dc_heap s)\<rparr>"

subsection \<open>Starting and stopping\<close>

definition getAttr64 :: "item_attr \<Rightarrow> item \<Rightarrow> int" where
  "getAttr64 t x = sint (getInteger t x)"

definition int64 :: "int \<Rightarrow> int" where
  "int64 n = sint (word_of_int n :: u64)"

definition int32 :: "int \<Rightarrow> int" where
  "int32 n = sint (word_of_int n :: u32)"

definition SCHEDULER_MINTICKS :: int where "SCHEDULER_MINTICKS = 50"

definition schedule_check :: "int \<Rightarrow> int \<Rightarrow> decay_world \<Rightarrow> decay_world" where
  "schedule_check now delay s = s\<lparr>dc_events := dc_events s @ [(dc_fresh s, now + max SCHEDULER_MINTICKS (int32 delay))],
     dc_eventId := dc_fresh s, dc_fresh := Suc (dc_fresh s)\<rparr>"

definition stop_check :: "decay_world \<Rightarrow> decay_world" where
  "stop_check s = s\<lparr>dc_events := filter (\<lambda>e. fst e \<noteq> dc_eventId s) (dc_events s)\<rparr>"

text \<open>What an item that leaves the table is left with.\<close>

definition unqueued :: "int \<Rightarrow> item \<Rightarrow> item" where
  "unqueued now x = removeAttribute DECAYSTATE (if hasAttribute DURATION x then setDuration (getDuration now x) x else x)"

definition stopDecay :: "int \<Rightarrow> nat \<Rightarrow> decay_world \<Rightarrow> decay_world" where
  "stopDecay now a s =
     (let x = dc_heap s ! a; t = getAttr64 DURATION_TIMESTAMP x in
      if \<not> hasAttribute DECAYSTATE x then s
      else if \<not> hasAttribute DURATION_TIMESTAMP x then on_item a (removeAttribute DECAYSTATE) s
      else (case map_of (dc_map s) t of
          Some l \<Rightarrow>
            (if length l = 1 then
               (if l ! 0 = a then on_item a (unqueued now) (s\<lparr>dc_map := map_erase t (dc_map s), dc_freed := t # dc_freed s\<rparr>) else s)
             else if find_index (\<lambda>y. y = a) l < length l
             then on_item a (unqueued now) (s\<lparr>dc_map := map_set t (swap_pop (find_index (\<lambda>y. y = a) l) l) (dc_map s)\<rparr>)
             else on_item a (removeAttribute DURATION_TIMESTAMP) s)
        | None \<Rightarrow> on_item a (removeAttribute DURATION_TIMESTAMP) s))"

definition queue_decay :: "int \<Rightarrow> nat \<Rightarrow> int \<Rightarrow> decay_world \<Rightarrow> decay_world" where
  "queue_decay now a duration s0 =
     (let s = (if hasAttribute DURATION_TIMESTAMP (dc_heap s0 ! a) then stopDecay now a s0 else s0);
          t = int64 (now + duration);
          s1 = (case dc_map s of
              [] \<Rightarrow> schedule_check now duration s
            | (t0, _) # _ \<Rightarrow> if t < t0 then schedule_check now duration (stop_check s) else s)
      in (on_item a (\<lambda>x. setAttribute DURATION_TIMESTAMP (word_of_int t) (setDecaying DECAYING_TRUE x)) s1)
           \<lparr>dc_map := map_push t a (dc_map s1)\<rparr>)"

subsection \<open>What an item decays into\<close>

text \<open>The default of the last parameter of \<open>Item::transform\<close>, \<open>-1\<close>, is 65535 in 16 bits and not equal
  to \<open>-1\<close>, so the new item is always created with the count that is given.\<close>

definition ITEM_GOLD_POUCH :: u16 where "ITEM_GOLD_POUCH = 23721"

definition new_box :: "decay_env \<Rightarrow> u16 \<Rightarrow> box" where
  "new_box E i = (let pouch = (i = ITEM_GOLD_POUCH) in
     \<lparr>bx_items = [], bx_maxSize = (if pouch then 32 else ucast (dv_maxItems E i)), bx_maxItems = (if pouch then 2000 else dv_maxContainerItem E),
      bx_unlocked = True, bx_pagination = pouch, bx_inbox = False, bx_weight = 0\<rparr>)"

definition create_any :: "decay_env \<Rightarrow> u16 \<Rightarrow> u16 \<Rightarrow> item option" where
  "create_any E i n = (if ty_container (ev_types E i) \<and> ty_id (ev_types E i) \<noteq> 0
     then Some ((new_item (ev_types E) i 0)\<lparr>it_box := Some (new_box E i)\<rparr>) else create_item (ev_types E) i n)"

definition item_transform :: "decay_env \<Rightarrow> int \<Rightarrow> nat \<Rightarrow> nat \<Rightarrow> u16 \<Rightarrow> u16 \<Rightarrow> heap \<Rightarrow> (decay_call list \<times> heap) option" where
  "item_transform E now c a newId newCount h =
     (case create_any E newId newCount of
        None \<Rightarrow> None
      | Some y \<Rightarrow>
         (let d = getDuration now (h ! a); i = getThingIndex h c a; n = length h;
              h1 = replaceThing (ev_types E) c (nat i) n (h @ [if sint d > 0 then setDuration d y else y])
          in Some (Stop_Decay a # (if is_box h1 a then map Stop_Decay (getItems h1 a) else []) @
               Start_Decay n # (if is_box h1 n then map Start_Decay (getItems h1 n) else []), h1)))"

definition setDefaultSubtype :: "types \<Rightarrow> item \<Rightarrow> item" where
  "setDefaultSubtype T x = (let ty = T (it_id x); y = x\<lparr>it_count := 1\<rparr> in
     if ty_charges ty = 0 then y else if ty_stackable ty then y\<lparr>it_count := ucast (ty_charges ty)\<rparr>
     else setAttribute CHARGES (ucast (ty_charges ty)) y)"

definition getSubType :: "types \<Rightarrow> item \<Rightarrow> u16" where
  "getSubType T x = (let ty = T (it_id x) in
     if ty_fluid ty then ucast (getInteger FLUIDTYPE x) else if ty_stackable ty then ucast (it_count x)
     else if ty_charges ty \<noteq> 0 then ucast (getInteger CHARGES x) else ucast (it_count x))"

definition calls_start :: "heap \<Rightarrow> nat \<Rightarrow> decay_call list" where
  "calls_start h a = map Start_Decay (a # (if is_box h a then getItems h a else []))"

definition calls_stop :: "heap \<Rightarrow> nat \<Rightarrow> decay_call list" where
  "calls_stop h a = map Stop_Decay (a # (if is_box h a then getItems h a else []))"

text \<open>\<open>Game::transformItem\<close> of an item in a container, without a new count; an address outside
  the heap holds nothing. An item that moves between the layers of a tile is taken out and put back, one that keeps its
  kind is changed in its place, and another one is replaced.\<close>

definition transform_reorder :: "decay_env \<Rightarrow> nat \<Rightarrow> nat \<Rightarrow> u16 \<Rightarrow> heap \<Rightarrow> decay_call list \<times> heap" where
  "transform_reorder E c a newId h =
     (let T = ev_types E;
          h1 = upd_item a (setID T newId) (removeThing T c a (ucast (it_count (h ! a))) h);
          h2 = addThing T c 0 a h1
      in (if it_parent (h2 ! a) = No_Parent then calls_stop h2 a else calls_start h2 a, h2))"

definition transform_in_place :: "decay_env \<Rightarrow> nat \<Rightarrow> nat \<Rightarrow> u16 \<Rightarrow> heap \<Rightarrow> decay_call list \<times> heap" where
  "transform_in_place E c a newId h =
     (let T = ev_types E; x = h ! a;
          h1 = (if ty_id (T (it_id x)) \<noteq> ty_id (T newId) \<and> dv_group E newId \<noteq> dv_group E (it_id x)
            then upd_item a (setDefaultSubtype T) h else h);
          h2 = updateThing T c a (if ty_id (T (it_id x)) \<noteq> ty_id (T newId) then newId else it_id x) (ucast (getSubType T x)) h1
      in (calls_start h2 a, h2))"

definition transformItem :: "decay_env \<Rightarrow> int \<Rightarrow> nat \<Rightarrow> u16 \<Rightarrow> heap \<Rightarrow> (decay_call list \<times> heap) option" where
  "transformItem E now a newId h =
     (let x = h ! a in
      if it_id x = newId then Some ([], h)
      else case parent_box h a of
        None \<Rightarrow> Some ([], h)
      | Some c \<Rightarrow>
          if length h \<le> c \<or> getThingIndex h c a = - 1 then Some ([], h)
          else if ty_id (ev_types E newId) = 0 then Some ([], h)
          else if (dv_topOrder E (it_id x) \<noteq> 0) \<noteq> (dv_topOrder E newId \<noteq> 0) then Some (transform_reorder E c a newId h)
          else if dv_kind E (it_id x) = dv_kind E newId then Some (transform_in_place E c a newId h)
          else item_transform E now c a newId 65535 h)"

definition decay_remove :: "decay_env \<Rightarrow> nat \<Rightarrow> heap \<Rightarrow> (decay_call list \<times> heap) option" where
  "decay_remove E a h = (case internalRemoveItem (world_env.truncate E) a (- 1) False no_flags False \<lparr>w_heap = h, w_decay = []\<rparr> of
     (_, w) \<Rightarrow> Some (w_decay w, w_heap w))"

definition decay_into :: "decay_env \<Rightarrow> int \<Rightarrow> nat \<Rightarrow> heap \<Rightarrow> (decay_call list \<times> heap) option" where
  "decay_into E now a h = (let ty = ev_types E (it_id (h ! a)) in
     if ty_decayTo ty \<noteq> 0 then transformItem E now a (word_of_int (ty_decayTo ty)) h
     else if it_loadedFromMap (h ! a) then Some ([], h)
     else decay_remove E a h)"

definition internalDecayItem :: "decay_env \<Rightarrow> int \<Rightarrow> nat \<Rightarrow> heap \<Rightarrow> (decay_call list \<times> heap) option" where
  "internalDecayItem E now a h = (let ty = ev_types E (it_id (h ! a)) in
     if ty_id ty = ty_transformEquipTo ty \<or> ty_id ty = ty_transformDeEquipTo ty then decay_remove E a h else decay_into E now a h)"

subsection \<open>The loop\<close>

text \<open>Calls that one of the operations above makes, in their order.\<close>

fun run_calls :: "(nat \<Rightarrow> decay_world \<Rightarrow> decay_world option) \<Rightarrow> int \<Rightarrow> decay_call list \<Rightarrow> decay_world \<Rightarrow> decay_world option" where
  "run_calls start now [] s = Some s"
| "run_calls start now (Stop_Decay a # cs) s = run_calls start now cs (stopDecay now a s)"
| "run_calls start now (Start_Decay a # cs) s = (case start a s of None \<Rightarrow> None | Some s' \<Rightarrow> run_calls start now cs s')"

definition decay_now :: "(nat \<Rightarrow> decay_world \<Rightarrow> decay_world option) \<Rightarrow> decay_env \<Rightarrow> int \<Rightarrow> nat \<Rightarrow> decay_world \<Rightarrow> decay_world option" where
  "decay_now start E now a s = (case internalDecayItem E now a (dc_heap s) of
       None \<Rightarrow> None
     | Some (cs, h) \<Rightarrow> run_calls start now cs (s\<lparr>dc_heap := h\<rparr>))"

text \<open>\<open>startDecay\<close>: an item whose time is over decays at once, and what it turns into is started in the
  same call. The first argument bounds the depth of these calls. An address outside the heap stands for a null pointer.\<close>

primrec startDecay :: "nat \<Rightarrow> decay_env \<Rightarrow> int \<Rightarrow> nat \<Rightarrow> decay_world \<Rightarrow> decay_world option" where
  "startDecay 0 E now a s = None"
| "startDecay (Suc n) E now a s =
     (let T = ev_types E; x = dc_heap s ! a; can = canDecay T (dc_heap s) a; state = getDecaying x; d = getAttr64 DURATION x in
      if length (dc_heap s) \<le> a then Some s
      else if state = DECAYING_STOPPING \<or> (\<not> can \<and> state = DECAYING_TRUE) then Some (stopDecay now a s)
      else if \<not> can \<or> state = DECAYING_TRUE then Some s
      else if d \<le> 0 \<and> hasAttribute DURATION x then decay_now (startDecay n E now) E now a s
      else if d > 0 then Some (queue_decay now a d s)
      else Some s)"

text \<open>One of the items that were due, and all of them in turn.\<close>

definition decay_due :: "nat \<Rightarrow> decay_env \<Rightarrow> int \<Rightarrow> nat \<Rightarrow> decay_world \<Rightarrow> decay_world option" where
  "decay_due n E now a s =
     (if canDecay (ev_types E) (dc_heap s) a
      then decay_now (startDecay n E now) E now a (on_item a (setDecaying DECAYING_FALSE) s)
      else Some (on_item a (\<lambda>x. setDecaying DECAYING_FALSE (setDuration (getDuration now x) x)) s))"

fun decay_all :: "nat \<Rightarrow> decay_env \<Rightarrow> int \<Rightarrow> nat list \<Rightarrow> decay_world \<Rightarrow> decay_world option" where
  "decay_all n E now [] s = Some s"
| "decay_all n E now (a # l) s = (case decay_due n E now a s of None \<Rightarrow> None | Some s' \<Rightarrow> decay_all n E now l s')"

text \<open>After the items that are due have been taken from the table, the iterator stays at the first entry that is
  left. It is used again when all have decayed: \<open>None\<close> when the entry has been erased meanwhile.\<close>

definition checkDecay :: "nat \<Rightarrow> decay_env \<Rightarrow> int \<Rightarrow> decay_world \<Rightarrow> decay_world option" where
  "checkDecay n E now s =
     (let due = takeWhile (\<lambda>e. fst e \<le> now) (dc_map s); rest = dropWhile (\<lambda>e. fst e \<le> now) (dc_map s) in
      case decay_all n E now (concat (map snd due)) (s\<lparr>dc_map := rest, dc_freed := []\<rparr>) of
        None \<Rightarrow> None
      | Some s' \<Rightarrow>
          (case rest of
             [] \<Rightarrow> Some s'
           | (t, _) # _ \<Rightarrow> if t \<in> set (dc_freed s') then None else Some (schedule_check now (int32 (t - now)) s')))"

end
