(* ===== verification/Decay_Table.thy ===== *)
theory Decay_Table
  imports Decay
begin

text \<open>
  What the operations on items do to the marks of decay: the change of a heap by the transformation or the
  removal of an item never marks an item as decaying, and keeps the durations in range.
\<close>

subsection \<open>Marks\<close>

definition decaying :: "item \<Rightarrow> bool" where
  "decaying x \<longleftrightarrow> getDecaying x = DECAYING_TRUE"

definition good :: "item \<Rightarrow> bool" where
  "good x \<longleftrightarrow> attrs_ok x \<and> getAttr64 DURATION x < 2 ^ 62"

definition mild :: "item \<Rightarrow> item \<Rightarrow> bool" where
  "mild x y \<longleftrightarrow> (good x \<longrightarrow> good y \<and> (decaying y \<longrightarrow> decaying x))"

lemma mild_refl [simp]: "mild x x"
  by (simp add: mild_def)

lemma mild_trans: "mild x y \<Longrightarrow> mild y z \<Longrightarrow> mild x z"
  by (simp add: mild_def)

lemma mild_good: "mild x y \<Longrightarrow> good x \<and> \<not> decaying x \<Longrightarrow> good y \<and> \<not> decaying y"
  unfolding mild_def by blast

lemma mild_attrs: "it_attrs y = it_attrs x \<Longrightarrow> mild x y"
  by (simp add: mild_def good_def decaying_def attrs_ok_def getAttr64_def getDecaying_def hasAttribute_def getInteger_def item_vector_def)

lemma sint_ucast_32: "sint (ucast (d :: u32) :: u64) = uint d"
proof -
  have d: "uint d < 2 ^ 32" using uint_bounded [of d] by simp
  then have "uint d < 2 ^ 64" by simp
  then have u: "uint (ucast d :: u64) = uint d" unfolding unsigned_ucast_eq by (intro take_bit_int_eq_self) simp_all
  have "uint d < 2 ^ 63" using d by simp
  moreover have "- (2 ^ 63) \<le> uint d" by (rule order_trans [OF _ uint_ge_0]) simp
  ultimately have "signed_take_bit 63 (uint d) = uint d" by (intro signed_take_bit_int_eq_self)
  then show ?thesis by (simp add: sint_uint u)
qed

lemma duration_value: "sint (if sint (d :: u32) < 0 then 0 else ucast d :: u64) < 2 ^ 62"
proof -
  have "uint d < 2 ^ 32" using uint_bounded [of d] by simp
  then show ?thesis by (simp add: sint_ucast_32)
qed

lemma mild_set:
  assumes "isAttributeInteger t" and "t = DURATION \<Longrightarrow> sint n < 2 ^ 62"
    and "t = DECAYSTATE \<Longrightarrow> n AND 255 \<noteq> 1"
  shows "mild x (setAttribute t n x)"
  unfolding mild_def
proof
  assume g: "good x"
  then have ok: "attrs_ok x" by (simp add: good_def)
  note r = read_set [OF ok assms(1)]
  have "good (setAttribute t n x)" using g assms(2) attrs_ok_ops(1) [OF ok] by (auto simp: good_def getAttr64_def r)
  moreover have "decaying x" if "decaying (setAttribute t n x)"
  proof (cases "t = DECAYSTATE")
    case True
    then have "getInteger DECAYSTATE (setAttribute t n x) = n" using r(2) [of DECAYSTATE n] by simp
    then show ?thesis using that assms(3) True by (simp add: decaying_def getDecaying_def DECAYING_TRUE_def)
  next
    case False
    then show ?thesis using that by (simp add: decaying_def getDecaying_def r)
  qed
  ultimately show "good (setAttribute t n x) \<and> (decaying (setAttribute t n x) \<longrightarrow> decaying x)" by blast
qed

lemma mild_remove: "mild x (removeAttribute t x)"
  unfolding mild_def
proof
  assume g: "good x"
  then have ok: "attrs_ok x" by (simp add: good_def)
  note r = read_remove [OF ok]
  have "good (removeAttribute t x)" using g attrs_ok_ops(2) [OF ok] by (auto simp: good_def getAttr64_def r)
  moreover have "decaying x" if "decaying (removeAttribute t x)"
    using that by (cases "t = DECAYSTATE") (simp_all add: decaying_def getDecaying_def r DECAYING_TRUE_def)
  ultimately show "good (removeAttribute t x) \<and> (decaying (removeAttribute t x) \<longrightarrow> decaying x)" by blast
qed

lemma mild_setDuration: "mild x (setDuration d x)"
  unfolding setDuration_def by (rule mild_set) (use duration_value in simp_all)

lemma mild_setDecaying: "s \<in> {DECAYING_PENDING, DECAYING_STOPPING} \<Longrightarrow> mild x (setDecaying s x)"
  using mild_set [of DECAYSTATE s x] unfolding setDecaying_def
  by (auto simp: Let_def DECAYING_FALSE_def DECAYING_PENDING_def DECAYING_STOPPING_def)

lemma mild_if: "(b \<Longrightarrow> mild x y) \<Longrightarrow> (\<not> b \<Longrightarrow> mild x z) \<Longrightarrow> mild x (if b then y else z)"
  by simp

lemma mild_setID: "mild x (setID T i x)"
proof -
  let ?x1 = "x\<lparr>it_id := i\<rparr>"
  let ?y = "if hasAttribute DECAYSTATE ?x1 then setDecaying DECAYING_STOPPING ?x1 else ?x1"
  let ?d = "ty_decayTime (T i) * 1000"
  let ?x2 = "if ?d = 0 \<and> \<not> ty_stopTime (T i) \<and> ty_decayTo (T i) < 0 then removeAttribute DURATION ?y else ?x1"
  let ?x3 = "if isRewardCorpse ?x2 then ?x2 else removeAttribute CORPSEOWNER ?x2"
  have 1: "mild x ?x1" by (rule mild_attrs) simp
  have y: "mild x ?y" by (rule mild_if) (rule mild_trans [OF 1 mild_setDecaying], simp, rule 1)
  have 2: "mild x ?x2" by (rule mild_if) (rule mild_trans [OF y mild_remove], rule 1)
  have 3: "mild x ?x3" by (rule mild_if) (rule 2, rule mild_trans [OF 2 mild_remove])
  have 4: "mild x (setDuration ?d (setDecaying DECAYING_PENDING ?x3))"
    by (rule mild_trans [OF mild_trans [OF 3 mild_setDecaying] mild_setDuration]) simp
  show ?thesis unfolding setID_def Let_def by (rule mild_if) (rule 4, rule 3)
qed

lemma mild_setSubType: "mild x (setSubType T n x)"
  unfolding setSubType_def Let_def by (intro mild_if) (rule mild_set mild_attrs, simp_all)+

lemma mild_setDefaultSubtype: "mild x (setDefaultSubtype T x)"
proof -
  have 1: "mild x (x\<lparr>it_count := n\<rparr>)" for n by (rule mild_attrs) simp
  have "mild x (setAttribute CHARGES n (x\<lparr>it_count := 1\<rparr>))" for n by (rule mild_trans [OF 1 mild_set]) simp_all
  then show ?thesis using 1 by (simp add: setDefaultSubtype_def Let_def)
qed

subsection \<open>Changes of the heap\<close>

definition quiet :: "heap \<Rightarrow> heap \<Rightarrow> bool" where
  "quiet h h' \<longleftrightarrow> length h \<le> length h' \<and> (\<forall>b<length h. mild (h ! b) (h' ! b)) \<and>
     (\<forall>b. length h \<le> b \<longrightarrow> b < length h' \<longrightarrow> good (h' ! b) \<and> \<not> decaying (h' ! b))"

lemma quietD:
  assumes "quiet h h'"
  shows "length h \<le> length h'" and "b < length h \<Longrightarrow> mild (h ! b) (h' ! b)"
    and "length h \<le> b \<Longrightarrow> b < length h' \<Longrightarrow> good (h' ! b) \<and> \<not> decaying (h' ! b)"
  using assms unfolding quiet_def by blast+

lemma quiet_same [simp]: "quiet h h"
  by (simp add: quiet_def)

lemma quiet_chain:
  assumes "quiet h h'" and "quiet h' h''"
  shows "quiet h h''"
  unfolding quiet_def
proof (intro conjI allI impI)
  show "length h \<le> length h''" using quietD(1) [OF assms(1)] quietD(1) [OF assms(2)] by simp
  show "mild (h ! b) (h'' ! b)" if "b < length h" for b
    using mild_trans [OF quietD(2) [OF assms(1) that] quietD(2) [OF assms(2)]] quietD(1) [OF assms(1)] that by simp
  fix b assume b: "length h \<le> b" "b < length h''"
  have "good (h'' ! b) \<and> \<not> decaying (h'' ! b)"
  proof (cases "b < length h'")
    case True
    then show ?thesis using quietD(3) [OF assms(1) b(1) True] quietD(2) [OF assms(2) True] by (auto simp: mild_def)
  next
    case False
    then show ?thesis using quietD(3) [OF assms(2) _ b(2)] by simp
  qed
  then show "good (h'' ! b)" "\<not> decaying (h'' ! b)" by simp_all
qed

lemma quiet_upd_item: "(\<And>x. mild x (f x)) \<Longrightarrow> quiet h (upd_item a f h)"
  by (simp add: quiet_def upd_item_nth)

lemma quiet_upd_box: "quiet h (upd_box c f h)"
  unfolding upd_box_def by (rule quiet_upd_item) (rule mild_attrs, simp)

lemma quiet_core: "same_core h h' \<Longrightarrow> quiet h h'"
  unfolding quiet_def using same_core_facts(3) [of h h'] by (auto simp: same_core_def intro!: mild_attrs)

lemma quiet_weight: "quiet h (updateItemWeight c d h)"
  unfolding updateItemWeight_bump by (rule quiet_core [OF bump_core])

lemma quiet_append: "good x \<Longrightarrow> \<not> decaying x \<Longrightarrow> quiet h (h @ [x])"
  by (auto simp: quiet_def nth_append)

lemma quiet_insert: "quiet h (insert_front c a h)"
  unfolding insert_front_def by (rule quiet_chain [OF quiet_upd_item quiet_upd_box]) (rule mild_attrs, simp)

lemma quiet_erase: "quiet h (erase_item c a h)"
  unfolding erase_item_def by (rule quiet_chain [OF quiet_upd_item quiet_upd_box]) (rule mild_attrs, simp)

lemma quiet_addThing: "quiet h (addThing T c i a h)"
  by (simp add: addThing_def Let_def quiet_chain [OF quiet_insert quiet_weight])

lemma quiet_removeThing: "quiet h (removeThing T c a n h)"
proof -
  have "quiet h (upd_item a (\<lambda>x. x\<lparr>it_count := m\<rparr>) h)" for m by (rule quiet_upd_item, rule mild_attrs) simp
  then show ?thesis by (simp add: removeThing_def Let_def quiet_chain [OF quiet_weight quiet_erase] quiet_chain [OF _ quiet_weight])
qed

lemma quiet_updateThing: "quiet h (updateThing T c a i n h)"
  unfolding updateThing_def Let_def
  by (auto intro!: quiet_chain [OF quiet_upd_item quiet_weight] mild_trans [OF mild_setID mild_setSubType])

lemma quiet_replaceThing: "quiet h (replaceThing T c i a h)"
proof -
  have p: "quiet h (upd_item b (\<lambda>x. x\<lparr>it_parent := q\<rparr>) h)" for b q h by (rule quiet_upd_item, rule mild_attrs) simp
  show ?thesis unfolding replaceThing_def Let_def
    by (auto split: option.split intro!: quiet_chain [OF _ p] quiet_chain [OF _ quiet_weight] quiet_upd_box)
qed

lemma quiet_stop_trace: "w_heap (stopDecaying a w) = w_heap w"
  by (rule decaying_heap)

lemma quiet_remove:
  assumes "internalRemoveItem E a n test fl force w = (r, w')"
  shows "quiet (w_heap w) (w_heap w')"
proof (cases "parent_box (w_heap w) a")
  case None
  then show ?thesis using assms by (simp add: internalRemoveItem_def Let_def)
next
  case (Some c)
  show ?thesis using assms unfolding internalRemoveItem_def Let_def Some option.case
    by (auto simp: decaying_heap quiet_removeThing split: if_splits)
qed

lemma new_item_good: "good (new_item T i n) \<and> \<not> decaying (new_item T i n)"
proof -
  let ?x = "\<lparr>it_id = i, it_count = 1, it_attrs = None, it_parent = No_Parent, it_loadedFromMap = False,
            it_decayDisabled = False, it_box = None\<rparr>"
  have g: "good ?x" "\<not> decaying ?x"
    by (simp_all add: good_def decaying_def attrs_ok_def vector_ok_def item_vector_def getAttr64_def getInteger_def getDecaying_def
        getAttributeValue_def attr_find_def DECAYING_TRUE_def)
  let ?ty = "T i"
  let ?y = "if ty_fluid ?ty then setAttribute FLUIDTYPE (ucast (max 1 (min n FLUID_INK))) ?x
     else if ty_stackable ?ty then (if n \<noteq> 0 then ?x\<lparr>it_count := ucast n\<rparr>
       else if ty_charges ?ty \<noteq> 0 then ?x\<lparr>it_count := ucast (ty_charges ?ty)\<rparr> else ?x)
     else if ty_charges ?ty \<noteq> 0 then setAttribute CHARGES (if n \<noteq> 0 then ucast n else ucast (ty_charges ?ty)) ?x
     else ?x"
  have y: "mild ?x ?y" by (intro mild_if) (rule mild_set mild_attrs; simp)+
  have m: "mild ?x (new_item T i n)" unfolding new_item_def Let_def
    by (rule mild_if) (rule mild_trans [OF y mild_setDuration], rule y)
  show ?thesis using m g by (simp add: mild_def)
qed

lemma create_good:
  assumes "create_any E i n = Some y"
  shows "good y" and "\<not> decaying y"
proof -
  have "mild (new_item (ev_types E) j m) (new_item (ev_types E) j m\<lparr>it_box := b\<rparr>)" for j m b by (rule mild_attrs) simp
  then have "good (new_item (ev_types E) j m\<lparr>it_box := b\<rparr>) \<and> \<not> decaying (new_item (ev_types E) j m\<lparr>it_box := b\<rparr>)" for j m b
    using mild_good new_item_good by blast
  then show "good y" "\<not> decaying y"
    using assms new_item_good by (auto simp: create_any_def create_item_def Let_def split: if_splits)
qed

lemma quiet_transform:
  assumes "item_transform E now c a i n h = Some (cs, h')"
  shows "quiet h h'"
proof -
  obtain y where y: "create_any E i n = Some y" using assms by (auto simp: item_transform_def split: option.splits)
  let ?y = "if sint (getDuration now (h ! a)) > 0 then setDuration (getDuration now (h ! a)) y else y"
  have "mild y ?y" by (simp add: mild_setDuration)
  then have "good ?y \<and> \<not> decaying ?y" using create_good [OF y] by (simp add: mild_def)
  then have "quiet h (h @ [?y])" using quiet_append by blast
  moreover have "h' = replaceThing (ev_types E) c (nat (getThingIndex h c a)) (length h) (h @ [?y])"
    using assms y by (simp add: item_transform_def Let_def)
  ultimately show ?thesis using quiet_chain [OF _ quiet_replaceThing] by simp
qed

lemma quiet_transformItem:
  assumes "transformItem E now a i h = Some (cs, h')"
  shows "quiet h h'"
proof (cases "parent_box h a")
  case None
  then show ?thesis using assms by (simp add: transformItem_def transform_reorder_def transform_in_place_def Let_def split: if_splits)
next
  case (Some c)
  have t: "quiet h (addThing (ev_types E) c 0 a (upd_item a (setID (ev_types E) i) (removeThing (ev_types E) c a n h)))" for n
    by (rule quiet_chain [OF quiet_chain [OF quiet_removeThing quiet_upd_item [OF mild_setID]] quiet_addThing])
  have u: "quiet h (updateThing (ev_types E) c a j n (upd_item a (setDefaultSubtype (ev_types E)) h))"
    "quiet h (updateThing (ev_types E) c a j n h)" for j n
    using quiet_chain [OF quiet_upd_item [where f = "setDefaultSubtype (ev_types E)", OF mild_setDefaultSubtype] quiet_updateThing]
      quiet_updateThing by blast+
  show ?thesis using assms t u quiet_transform unfolding transformItem_def transform_reorder_def transform_in_place_def Let_def Some option.case
    by (auto split: if_splits)
qed

lemma quiet_internalDecay:
  assumes "internalDecayItem E now a h = Some (cs, h')"
  shows "quiet h h'"
proof -
  let ?r = "internalRemoveItem (world_env.truncate E) a (- 1) False no_flags False \<lparr>w_heap = h, w_decay = []\<rparr>"
  obtain r w where r: "?r = (r, w)" by (cases ?r)
  have "quiet h (w_heap w)" using quiet_remove [OF r] by simp
  then show ?thesis using assms r quiet_transformItem
    by (auto simp: internalDecayItem_def decay_into_def decay_remove_def Let_def split: if_splits)
qed

end
