(* ===== verification/Decay_Runs.thy ===== *)
theory Decay_Runs
  imports Decay_Table
begin

text \<open>
  Runs of the decay of items: no decaying item is forgotten, and the dispatcher always has an event that looks at the
  table in time. Also what the transformation of an item does that it should not.
\<close>

subsection \<open>The table over time\<close>

definition keys :: "decay_map \<Rightarrow> int set" where
  "keys m = fst ` set m"

definition listed :: "decay_map \<Rightarrow> nat set" where
  "listed m = (\<Union>e\<in>set m. set (snd e))"

text \<open>Every entry has an event that comes for it, or is not before \<open>r\<close>; the items of \<open>D\<close> need not be listed, and an
  entry that is not later than now is one of \<open>K\<close>.\<close>

definition covered :: "int option \<Rightarrow> decay_world \<Rightarrow> bool" where
  "covered r s \<longleftrightarrow> (\<forall>k\<in>keys (dc_map s). (\<exists>e\<in>set (dc_events s). snd e \<le> k + SCHEDULER_MINTICKS) \<or> (\<exists>q. r = Some q \<and> q \<le> k))"

definition table_inv :: "int \<Rightarrow> int option \<Rightarrow> nat set \<Rightarrow> int set \<Rightarrow> decay_world \<Rightarrow> bool" where
  "table_inv now r D K s \<longleftrightarrow>
     (\<forall>a<length (dc_heap s). good (dc_heap s ! a) \<and> (decaying (dc_heap s ! a) \<longrightarrow> a \<in> listed (dc_map s) \<or> a \<in> D)) \<and>
     sorted_wrt (<) (map fst (dc_map s)) \<and> (\<forall>e\<in>set (dc_map s). snd e \<noteq> []) \<and> covered r s \<and> (\<forall>k\<in>keys (dc_map s). now < k \<or> k \<in> K)"

lemma table_invD:
  assumes "table_inv now r D K s"
  shows "a < length (dc_heap s) \<Longrightarrow> good (dc_heap s ! a)"
    and "a < length (dc_heap s) \<Longrightarrow> decaying (dc_heap s ! a) \<Longrightarrow> a \<in> listed (dc_map s) \<or> a \<in> D"
    and "sorted_wrt (<) (map fst (dc_map s))" and "\<forall>e\<in>set (dc_map s). snd e \<noteq> []" and "covered r s"
    and "\<forall>k\<in>keys (dc_map s). now < k \<or> k \<in> K"
  using assms unfolding table_inv_def by blast+

lemma table_invI:
  assumes "\<And>a. a < length (dc_heap s) \<Longrightarrow> good (dc_heap s ! a)"
    and "\<And>a. a < length (dc_heap s) \<Longrightarrow> decaying (dc_heap s ! a) \<Longrightarrow> a \<in> listed (dc_map s) \<or> a \<in> D"
    and "sorted_wrt (<) (map fst (dc_map s))" and "\<forall>e\<in>set (dc_map s). snd e \<noteq> []" and "covered r s"
    and "\<forall>k\<in>keys (dc_map s). now < k \<or> k \<in> K"
  shows "table_inv now r D K s"
  using assms unfolding table_inv_def by blast

lemma inv_quiet:
  assumes i: "table_inv now r D K s" and q: "quiet (dc_heap s) h"
  shows "table_inv now r D K (s\<lparr>dc_heap := h\<rparr>)"
proof (rule table_invI)
  fix a assume "a < length (dc_heap (s\<lparr>dc_heap := h\<rparr>))"
  then have a: "a < length h" by simp
  have "good (h ! a) \<and> (decaying (h ! a) \<longrightarrow> a \<in> listed (dc_map s) \<or> a \<in> D)"
  proof (cases "a < length (dc_heap s)")
    case True
    then show ?thesis using quietD(2) [OF q True] table_invD(1,2) [OF i True] by (auto simp: mild_def)
  next
    case False
    then show ?thesis using quietD(3) [OF q _ a] by simp
  qed
  then show "good (dc_heap (s\<lparr>dc_heap := h\<rparr>) ! a)"
    "decaying (dc_heap (s\<lparr>dc_heap := h\<rparr>) ! a) \<Longrightarrow> a \<in> listed (dc_map (s\<lparr>dc_heap := h\<rparr>)) \<or> a \<in> D" by simp_all
qed (use table_invD(3-6) [OF i] in \<open>simp_all add: covered_def\<close>)

text \<open>Dropping entries, with a change of an item that makes it no longer decaying if it is dropped.\<close>

lemma inv_drop:
  assumes i: "table_inv now r D K s" and m: "set (map fst m) \<subseteq> keys (dc_map s)" "sorted_wrt (<) (map fst m)" "\<forall>e\<in>set m. snd e \<noteq> []"
    and l: "listed (dc_map s) - {a} \<subseteq> listed m"
    and f: "\<And>x. good x \<Longrightarrow> good (f x)" "a \<notin> listed m \<Longrightarrow> \<forall>x. good x \<longrightarrow> \<not> decaying (f x)"
  shows "table_inv now r D K (on_item a f (s\<lparr>dc_map := m, dc_freed := e\<rparr>))"
proof (rule table_invI)
  let ?s = "on_item a f (s\<lparr>dc_map := m, dc_freed := e\<rparr>)"
  fix b assume "b < length (dc_heap ?s)"
  then have b: "b < length (dc_heap s)" by (simp add: on_item_def)
  have h: "dc_heap ?s ! b = (if b = a then f (dc_heap s ! a) else dc_heap s ! b)" using b by (simp add: on_item_def upd_item_nth)
  show "good (dc_heap ?s ! b)" unfolding h using table_invD(1) [OF i b] f(1) by auto
  show "b \<in> listed (dc_map ?s) \<or> b \<in> D" if "decaying (dc_heap ?s ! b)"
  proof (cases "b = a")
    case True
    then have "a \<in> listed m" using that f(2) table_invD(1) [OF i b] unfolding h by auto
    then show ?thesis using True by (simp add: on_item_def)
  next
    case False
    then show ?thesis using that l table_invD(2) [OF i b] unfolding h by (auto simp: on_item_def)
  qed
next
  have "keys m \<subseteq> keys (dc_map s)" using m(1) by (simp add: keys_def)
  then show "covered r (on_item a f (s\<lparr>dc_map := m, dc_freed := e\<rparr>))"
    using table_invD(5) [OF i] unfolding covered_def by (simp add: on_item_def) blast
  have "keys m \<subseteq> keys (dc_map s)" using m(1) by (simp add: keys_def)
  then show "\<forall>k\<in>keys (dc_map (on_item a f (s\<lparr>dc_map := m, dc_freed := e\<rparr>))). now < k \<or> k \<in> K"
    using table_invD(6) [OF i] by (simp add: on_item_def) blast
qed (use m in \<open>simp_all add: on_item_def\<close>)

lemma good_remove: "good x \<Longrightarrow> good (removeAttribute t x)"
  unfolding good_def using attrs_ok_ops(2) [of x t] read_remove(2) [of x DURATION t] by (auto simp: getAttr64_def)

lemma unqueued_good:
  assumes "good x"
  shows "good (unqueued now x)" and "\<not> decaying (unqueued now x)"
proof -
  let ?y = "if hasAttribute DURATION x then setDuration (getDuration now x) x else x"
  have "mild x ?y" by (simp add: mild_setDuration)
  then have g: "good ?y" using assms by (simp add: mild_def)
  then show "good (unqueued now x)" unfolding unqueued_def by (rule good_remove)
  have "attrs_ok ?y" using g unfolding good_def by blast
  then show "\<not> decaying (unqueued now x)" unfolding unqueued_def decaying_def getDecaying_def
    by (simp add: read_remove(2) DECAYING_TRUE_def)
qed

lemma listed_iff: "a \<in> listed m \<longleftrightarrow> (\<exists>t l. (t, l) \<in> set m \<and> a \<in> set l)"
  by (force simp: listed_def)

lemma erase_facts:
  assumes "sorted_wrt (<) (map fst m)"
  shows "set (map fst (map_erase t m)) \<subseteq> keys m" and "sorted_wrt (<) (map fst (map_erase t m))"
    and "map_of m t = Some l \<Longrightarrow> listed m - set l \<subseteq> listed (map_erase t m)"
proof -
  show "set (map fst (map_erase t m)) \<subseteq> keys m" by (auto simp: map_erase_def keys_def)
  show "sorted_wrt (<) (map fst (map_erase t m))" using assms
    by (induction m) (auto simp: map_erase_def)
  have d: "distinct (map fst m)" using assms by (simp add: strict_sorted_iff)
  assume l: "map_of m t = Some l"
  show "listed m - set l \<subseteq> listed (map_erase t m)"
  proof
    fix a assume a: "a \<in> listed m - set l"
    then obtain k l' where k: "(k, l') \<in> set m" "a \<in> set l'" by (auto simp: listed_iff)
    have "k \<noteq> t"
    proof
      assume "k = t"
      then have "l' = l" using map_of_is_SomeI [OF d k(1)] l by simp
      then show False using k(2) a by blast
    qed
    then show "a \<in> listed (map_erase t m)" using k unfolding listed_iff map_erase_def by auto
  qed
qed

lemma map_set_keys: "map fst (map_set t l m) = map fst m"
  by (induction m) (auto simp: map_set_def)

lemma set_facts:
  assumes "sorted_wrt (<) (map fst m)" and "map_of m t = Some l" and "set l - {a} \<subseteq> set l'"
  shows "listed m - {a} \<subseteq> listed (map_set t l' m)"
proof
  have d: "distinct (map fst m)" using assms(1) by (simp add: strict_sorted_iff)
  fix b assume b: "b \<in> listed m - {a}"
  then obtain k q where k: "(k, q) \<in> set m" "b \<in> set q" by (auto simp: listed_iff)
  show "b \<in> listed (map_set t l' m)"
  proof (cases "k = t")
    case True
    then have "q = l" using map_of_is_SomeI [OF d k(1)] assms(2) by simp
    then have "b \<in> set l'" using k(2) b assms(3) by blast
    moreover have "(t, l') \<in> set (map_set t l' m)" using k(1) True unfolding map_set_def by force
    ultimately show ?thesis unfolding listed_iff by blast
  next
    case False
    then have "(k, q) \<in> set (map_set t l' m)" using k(1) unfolding map_set_def by force
    then show ?thesis using k(2) unfolding listed_iff by blast
  qed
qed

lemma inv_stop:
  assumes i: "table_inv now r D K s"
  shows "table_inv now r D K (stopDecay now a s)"
proof -
  let ?x = "dc_heap s ! a" and ?m = "dc_map s"
  let ?t = "getAttr64 DURATION_TIMESTAMP ?x"
  note so = table_invD(3) [OF i] and ne = table_invD(4) [OF i]
  have self: "dc_map s = ?m" "s\<lparr>dc_map := ?m, dc_freed := dc_freed s\<rparr> = s" by simp_all
  have dr: "\<not> decaying (removeAttribute DECAYSTATE x)" if "good x" for x
    using that unfolding good_def decaying_def getDecaying_def by (simp add: read_remove(2) DECAYING_TRUE_def)
  have keep: "table_inv now r D K (on_item a (removeAttribute DECAYSTATE) s)"
    using inv_drop [where m = ?m and a = a and f = "removeAttribute DECAYSTATE" and e = "dc_freed s", OF i _ so ne] good_remove dr
    unfolding self(2) by (auto simp: keys_def)
  have stamp: "table_inv now r D K (on_item a (removeAttribute DURATION_TIMESTAMP) s)"
    using inv_quiet [OF i quiet_upd_item [OF mild_remove]] by (simp add: on_item_def)
  show ?thesis
  proof (cases "hasAttribute DECAYSTATE ?x \<and> hasAttribute DURATION_TIMESTAMP ?x")
    case False
    then show ?thesis using i keep by (simp add: stopDecay_def Let_def)
  next
    case True
    show ?thesis
    proof (cases "map_of ?m ?t")
      case None
      then show ?thesis using True stamp by (simp add: stopDecay_def Let_def)
    next
      case (Some l)
      note e = erase_facts [OF so, of ?t]
      have er: "\<forall>e\<in>set (map_erase ?t ?m). snd e \<noteq> []" using ne by (simp add: map_erase_def)
      have l: "(?t, l) \<in> set ?m" by (rule map_of_SomeD [OF Some])
      consider "length l = 1" "l ! 0 = a" | "length l = 1" "l ! 0 \<noteq> a" | "length l \<noteq> 1" "find_index (\<lambda>y. y = a) l < length l"
        | "length l \<noteq> 1" "\<not> find_index (\<lambda>y. y = a) l < length l" by blast
      then show ?thesis
      proof cases
        case 1
        then have "set l = {a}" by (cases l) auto
        then have "table_inv now r D K (on_item a (unqueued now) (s\<lparr>dc_map := map_erase ?t ?m, dc_freed := ?t # dc_freed s\<rparr>))"
          using inv_drop [where a = a and f = "unqueued now", OF i e(1,2) er _ unqueued_good(1)] e(3) [OF Some] unqueued_good(2) by blast
        then show ?thesis using True Some 1 by (simp add: stopDecay_def Let_def)
      next
        case 2
        then show ?thesis using True Some i by (simp add: stopDecay_def Let_def)
      next
        case 3
        let ?i = "find_index (\<lambda>y. y = a) l"
        let ?l = "swap_pop ?i l"
        have at: "l ! ?i = a" by (rule find_index_nth [OF 3(2)])
        have m: "mset ?l = mset l - {#a#}" using mset_swap_pop [OF 3(2)] at by simp
        have "set l - {a} \<subseteq> set ?l" 
        proof
          fix b assume b: "b \<in> set l - {a}"
          then have "b \<in># mset ?l" unfolding m by (simp add: in_diff_count)
          then show "b \<in> set ?l" by simp
        qed
        then have sub: "listed ?m - {a} \<subseteq> listed (map_set ?t ?l ?m)" using set_facts [OF so Some] by blast
        have "length ?l = length l - 1" by (simp add: swap_pop_def)
        then have "?l \<noteq> []" using 3 by (cases l) auto
        then have ne': "\<forall>e\<in>set (map_set ?t ?l ?m). snd e \<noteq> []" using ne by (auto simp: map_set_def)
        have "table_inv now r D K (on_item a (unqueued now) (s\<lparr>dc_map := map_set ?t ?l ?m, dc_freed := dc_freed s\<rparr>))"
          using inv_drop [where a = a and f = "unqueued now" and e = "dc_freed s", OF i _ _ ne' sub unqueued_good(1)] unqueued_good(2) so
          by (auto simp: map_set_keys keys_def)
        then show ?thesis using True Some 3 by (simp add: stopDecay_def Let_def)
      next
        case 4
        then show ?thesis using True Some stamp by (simp add: stopDecay_def Let_def)
      qed
    qed
  qed
qed

lemma push_keys: "keys (map_push t a m) = insert t (keys m)"
  by (induction t a m rule: map_push.induct) (auto simp: keys_def)

lemma push_facts:
  shows "listed (map_push t a m) = insert a (listed m)"
    and "sorted_wrt (<) (map fst m) \<Longrightarrow> sorted_wrt (<) (map fst (map_push t a m))"
    and "\<forall>e\<in>set m. snd e \<noteq> [] \<Longrightarrow> \<forall>e\<in>set (map_push t a m). snd e \<noteq> []"
proof -
  show "listed (map_push t a m) = insert a (listed m)" by (induction t a m rule: map_push.induct) (auto simp: listed_def)
  show "\<forall>e\<in>set m. snd e \<noteq> [] \<Longrightarrow> \<forall>e\<in>set (map_push t a m). snd e \<noteq> []" by (induction t a m rule: map_push.induct) auto
  show "sorted_wrt (<) (map fst m) \<Longrightarrow> sorted_wrt (<) (map fst (map_push t a m))"
  proof (induction t a m rule: map_push.induct)
    case (2 t a s l m)
    have "set (map fst (map_push t a m)) = insert t (set (map fst m))" using push_keys [of t a m] by (simp add: keys_def)
    then show ?case using 2 by auto
  qed simp
qed

lemma int64_small: "0 \<le> n \<Longrightarrow> n < 2 ^ 63 \<Longrightarrow> int64 n = n"
  unfolding int64_def by (simp add: sint_sbintrunc' signed_take_bit_int_eq_self)

lemma int32_le: "0 \<le> n \<Longrightarrow> int32 n \<le> n"
proof -
  assume n: "0 \<le> n"
  have "int32 n = signed_take_bit 31 n" by (simp add: int32_def sint_sbintrunc')
  moreover have "signed_take_bit 31 n \<le> n"
  proof (cases "n < 2 ^ 31")
    case True
    then show ?thesis using n by (simp add: signed_take_bit_int_eq_self)
  next
    case False
    then show ?thesis using signed_take_bit_int_less_exp [of 31 n] by simp
  qed
  ultimately show ?thesis by simp
qed

lemma queue_values:
  assumes "good x"
  shows "good (setAttribute DURATION_TIMESTAMP n (setDecaying DECAYING_TRUE x))"
proof -
  have d: "setDecaying DECAYING_TRUE x = setAttribute DECAYSTATE DECAYING_TRUE x"
    by (simp add: setDecaying_def Let_def DECAYING_TRUE_def DECAYING_FALSE_def)
  have 1: "attrs_ok x" using assms by (simp add: good_def)
  then have 2: "attrs_ok (setAttribute DECAYSTATE DECAYING_TRUE x)" by (rule attrs_ok_ops)
  then have "attrs_ok (setAttribute DURATION_TIMESTAMP n (setAttribute DECAYSTATE DECAYING_TRUE x))" by (rule attrs_ok_ops)
  then show ?thesis using assms unfolding d good_def getAttr64_def by (simp add: read_set(2) [OF 1] read_set(2) [OF 2])
qed

text \<open>What \<open>queue_decay\<close> does to the events.\<close>

definition arm :: "int \<Rightarrow> int \<Rightarrow> int \<Rightarrow> decay_world \<Rightarrow> decay_world" where
  "arm now duration t s = (case dc_map s of
       [] \<Rightarrow> schedule_check now duration s
     | (t0, _) # _ \<Rightarrow> if t < t0 then schedule_check now duration (stop_check s) else s)"

lemma arm_keeps: "dc_map (arm now d t s) = dc_map s" "dc_heap (arm now d t s) = dc_heap s"
  by (auto simp: arm_def schedule_check_def stop_check_def split: list.split)

lemma arm_covers:
  assumes i: "table_inv now r D K s" and d: "0 < d" and t: "t = now + d"
    and k: "k = t \<or> k \<in> keys (dc_map s)"
  shows "(\<exists>e\<in>set (dc_events (arm now d t s)). snd e \<le> k + SCHEDULER_MINTICKS) \<or> (\<exists>q. r = Some q \<and> q \<le> k)"
proof -
  have due: "now + max SCHEDULER_MINTICKS (int32 d) \<le> t + SCHEDULER_MINTICKS" using int32_le [of d] d t by (simp add: SCHEDULER_MINTICKS_def)
  note c = table_invD(5) [OF i, unfolded covered_def]
  show ?thesis
  proof (cases "dc_map s")
    case Nil
    then have "k = t" using k by (simp add: keys_def)
    then show ?thesis using Nil due by (simp add: arm_def schedule_check_def)
  next
    case (Cons p m)
    obtain t0 l where p: "p = (t0, l)" by (cases p)
    show ?thesis
    proof (cases "t < t0")
      case True
      have "t0 \<le> k \<or> k = t" using k table_invD(3) [OF i] Cons p by (auto simp: keys_def)
      then have "t \<le> k" using True by auto
      then show ?thesis using Cons p True due by (simp add: arm_def schedule_check_def)
    next
      case False
      have a: "arm now d t s = s" using Cons p False by (simp add: arm_def)
      have "t0 \<in> keys (dc_map s)" using Cons p by (simp add: keys_def)
      then have "(\<exists>e\<in>set (dc_events s). snd e \<le> t0 + SCHEDULER_MINTICKS) \<or> (\<exists>q. r = Some q \<and> q \<le> t0)" using c by blast
      then show ?thesis using c k False unfolding a by (elim disjE) force+
    qed
  qed
qed

lemma inv_queue:
  assumes i: "table_inv now r D K s" and a: "a < length (dc_heap s)" and d: "0 < d" "d < 2 ^ 62" and now: "0 \<le> now" "now < 2 ^ 62"
  shows "table_inv now r D K (queue_decay now a d s)"
proof -
  define s1 where "s1 = (if hasAttribute DURATION_TIMESTAMP (dc_heap s ! a) then stopDecay now a s else s)"
  have i1: "table_inv now r D K s1" using i inv_stop by (simp add: s1_def)
  have t: "int64 (now + d) = now + d" using d now by (intro int64_small) simp_all
  let ?t = "now + d"
  let ?f = "\<lambda>x. setAttribute DURATION_TIMESTAMP (word_of_int ?t) (setDecaying DECAYING_TRUE x)"
  have q: "queue_decay now a d s = (on_item a ?f (arm now d ?t s1))\<lparr>dc_map := map_push ?t a (dc_map s1)\<rparr>"
    by (simp add: queue_decay_def Let_def t s1_def [symmetric] arm_def [symmetric] arm_keeps)
  have h: "dc_heap (queue_decay now a d s) ! b = (if b = a \<and> a < length (dc_heap s1) then ?f (dc_heap s1 ! a) else dc_heap s1 ! b)" for b
    by (simp add: q on_item_def arm_keeps upd_item_nth)
  have len: "length (dc_heap (queue_decay now a d s)) = length (dc_heap s1)" by (simp add: q on_item_def arm_keeps)
  show ?thesis
  proof (rule table_invI)
    fix b assume "b < length (dc_heap (queue_decay now a d s))"
    then have b: "b < length (dc_heap s1)" using len by simp
    show "good (dc_heap (queue_decay now a d s) ! b)" unfolding h
      using table_invD(1) [OF i1 b] queue_values by (cases "b = a") auto
    show "b \<in> listed (dc_map (queue_decay now a d s)) \<or> b \<in> D" if "decaying (dc_heap (queue_decay now a d s) ! b)"
    proof (cases "b = a")
      case True
      then show ?thesis by (simp add: q push_facts push_keys)
    next
      case False
      then show ?thesis using that table_invD(2) [OF i1 b] unfolding h by (auto simp: q push_facts push_keys)
    qed
  next
    show "covered r (queue_decay now a d s)" unfolding covered_def
    proof
      fix k assume "k \<in> keys (dc_map (queue_decay now a d s))"
      then have "k = ?t \<or> k \<in> keys (dc_map s1)" by (simp add: q push_facts push_keys)
      then show "(\<exists>e\<in>set (dc_events (queue_decay now a d s)). snd e \<le> k + SCHEDULER_MINTICKS) \<or> (\<exists>q. r = Some q \<and> q \<le> k)"
        using arm_covers [OF i1 d(1) refl] by (simp add: q on_item_def)
    qed
    show "\<forall>k\<in>keys (dc_map (queue_decay now a d s)). now < k \<or> k \<in> K" using table_invD(6) [OF i1] d(1) by (simp add: q push_facts push_keys)
  qed (use table_invD(3,4) [OF i1] in \<open>simp_all add: q push_facts push_keys\<close>)
qed

subsection \<open>Decaying\<close>

lemma inv_run_calls:
  assumes "\<And>a s s'. table_inv now r D K s \<Longrightarrow> start a s = Some s' \<Longrightarrow> table_inv now r D K s'"
  shows "table_inv now r D K s \<Longrightarrow> run_calls start now cs s = Some s' \<Longrightarrow> table_inv now r D K s'"
proof (induction cs arbitrary: s)
  case (Cons c cs)
  show ?case
  proof (cases c)
    case (Start_Decay a)
    then obtain s1 where s1: "start a s = Some s1" "run_calls start now cs s1 = Some s'"
      using Cons.prems(2) by (cases "start a s") simp_all
    show ?thesis by (rule Cons.IH [OF assms [OF Cons.prems(1) s1(1)] s1(2)])
  next
    case (Stop_Decay a)
    then have "run_calls start now cs (stopDecay now a s) = Some s'" using Cons.prems(2) by simp
    then show ?thesis by (rule Cons.IH [OF inv_stop [OF Cons.prems(1)]])
  qed
qed simp

lemma inv_decay_now:
  assumes "\<And>a s s'. table_inv now r D K s \<Longrightarrow> start a s = Some s' \<Longrightarrow> table_inv now r D K s'"
    and i: "table_inv now r D K s" and s': "decay_now start E now a s = Some s'"
  shows "table_inv now r D K s'"
proof -
  obtain cs h where h: "internalDecayItem E now a (dc_heap s) = Some (cs, h)" "run_calls start now cs (s\<lparr>dc_heap := h\<rparr>) = Some s'"
    using s' by (auto simp: decay_now_def split: option.splits)
  show ?thesis by (rule inv_run_calls [OF assms(1) inv_quiet [OF i quiet_internalDecay [OF h(1)]] h(2)])
qed

lemma inv_startDecay:
  assumes now: "0 \<le> now" "now < 2 ^ 62"
  shows "table_inv now r D K s \<Longrightarrow> startDecay n E now a s = Some s' \<Longrightarrow> table_inv now r D K s'"
proof (induction n arbitrary: a s s')
  case (Suc n)
  let ?x = "dc_heap s ! a" and ?can = "canDecay (ev_types E) (dc_heap s) a"
  let ?d = "getAttr64 DURATION ?x"
  have q: "table_inv now r D K (queue_decay now a ?d s)" if "0 < ?d" "\<not> length (dc_heap s) \<le> a"
  proof -
    have "a < length (dc_heap s)" using that by simp
    then show ?thesis using inv_queue [OF Suc.prems(1) _ that(1) _ now] table_invD(1) [OF Suc.prems(1)] by (simp add: good_def)
  qed
  have n: "table_inv now r D K s'" if "decay_now (startDecay n E now) E now a s = Some s'"
    by (rule inv_decay_now [OF Suc.IH Suc.prems(1) that])
  show ?case using Suc.prems(2) q n inv_stop [OF Suc.prems(1), of a] Suc.prems(1)
    by (auto simp: Let_def split: if_splits)
qed simp

lemma inv_done:
  assumes i: "table_inv now r D K s" and f: "\<And>x. good x \<Longrightarrow> good (f x) \<and> \<not> decaying (f x)"
  shows "table_inv now r (D - {a}) K (on_item a f s)"
proof (rule table_invI)
  fix b assume "b < length (dc_heap (on_item a f s))"
  then have b: "b < length (dc_heap s)" by (simp add: on_item_def)
  have h: "dc_heap (on_item a f s) ! b = (if b = a then f (dc_heap s ! a) else dc_heap s ! b)"
    using b by (simp add: on_item_def upd_item_nth)
  show "good (dc_heap (on_item a f s) ! b)" unfolding h using table_invD(1) [OF i b] f by auto
  show "b \<in> listed (dc_map (on_item a f s)) \<or> b \<in> D - {a}" if "decaying (dc_heap (on_item a f s) ! b)"
    using that f table_invD(1,2) [OF i b] unfolding h by (cases "b = a") (auto simp: on_item_def)
qed (use table_invD(3-6) [OF i] in \<open>simp_all add: on_item_def covered_def\<close>)

lemma setDecaying_false:
  assumes "good x"
  shows "good (setDecaying DECAYING_FALSE x) \<and> \<not> decaying (setDecaying DECAYING_FALSE x)"
proof -
  have y: "setDecaying DECAYING_FALSE x = removeAttribute DURATION_TIMESTAMP (setAttribute DECAYSTATE 0 x)"
    by (simp add: setDecaying_def Let_def DECAYING_FALSE_def)
  have "mild x (setDecaying DECAYING_FALSE x)" unfolding y by (rule mild_trans [OF mild_set mild_remove]) simp_all
  moreover have "\<not> decaying (setDecaying DECAYING_FALSE x)"
  proof -
    have ok: "attrs_ok x" using assms by (simp add: good_def)
    show ?thesis unfolding y decaying_def getDecaying_def
      by (simp add: read_remove(2) [OF attrs_ok_ops(1) [OF ok]] read_set(2) [OF ok] DECAYING_TRUE_def)
  qed
  ultimately show ?thesis using assms by (simp add: mild_def)
qed

lemma inv_decay_due:
  assumes now: "0 \<le> now" "now < 2 ^ 62" and i: "table_inv now r D K s" and s': "decay_due n E now a s = Some s'"
  shows "table_inv now r (D - {a}) K s'"
proof (cases "canDecay (ev_types E) (dc_heap s) a")
  case True
  have "table_inv now r (D - {a}) K (on_item a (setDecaying DECAYING_FALSE) s)" by (rule inv_done [OF i setDecaying_false])
  then show ?thesis by (rule inv_decay_now [rotated]) (use s' True inv_startDecay [OF now] in \<open>auto simp: decay_due_def\<close>)
next
  case False
  have "good (setDuration d x)" if "good x" for d x using that mild_setDuration [of x d] by (simp add: mild_def)
  then have "table_inv now r (D - {a}) K (on_item a (\<lambda>x. setDecaying DECAYING_FALSE (setDuration (getDuration now x) x)) s)"
    by (intro inv_done [OF i] setDecaying_false)
  then show ?thesis using s' False by (simp add: decay_due_def)
qed

lemma inv_decay_all:
  assumes now: "0 \<le> now" "now < 2 ^ 62"
  shows "table_inv now r D K s \<Longrightarrow> decay_all n E now l s = Some s' \<Longrightarrow> table_inv now r (D - set l) K s'"
proof (induction l arbitrary: D s)
  case (Cons a l)
  obtain s1 where s1: "decay_due n E now a s = Some s1" "decay_all n E now l s1 = Some s'"
    using Cons.prems(2) by (cases "decay_due n E now a s") simp_all
  have "table_inv now r (D - {a} - set l) K s'" by (rule Cons.IH [OF inv_decay_due [OF now Cons.prems(1) s1(1)] s1(2)])
  moreover have "D - {a} - set l = D - set (a # l)" by auto
  ultimately show ?case by simp
qed simp

text \<open>The events do not matter when the table is looked at: afterwards all entries are later than now, and covered.\<close>

lemma check_inv:
  assumes now: "0 \<le> now" "now < 2 ^ 62" and i: "table_inv now r {} K s" and s': "checkDecay n E now (s\<lparr>dc_events := ev\<rparr>) = Some s'"
  shows "table_inv now None {} {} s'"
proof -
  let ?m = "dc_map s"
  define due where "due = takeWhile (\<lambda>e. fst e \<le> now) ?m"
  define rest where "rest = dropWhile (\<lambda>e. fst e \<le> now) ?m"
  let ?q = "case rest of [] \<Rightarrow> None | (t, _) # _ \<Rightarrow> Some t"
  let ?l = "concat (map snd due)"
  let ?s = "s\<lparr>dc_events := ev, dc_map := rest, dc_freed := []\<rparr>"
  have m: "?m = due @ rest" by (simp add: due_def rest_def)
  have so: "sorted_wrt (<) (map fst rest)" using table_invD(3) [OF i] unfolding m by (simp add: sorted_wrt_append)
  have first: "now < fst p \<and> (\<forall>k\<in>keys rest. fst p \<le> k)" if "rest = p # x" for p x
  proof
    show "now < fst p" using hd_dropWhile [of "\<lambda>e. fst e \<le> now" ?m] that unfolding rest_def [symmetric] by simp
    show "\<forall>k\<in>keys rest. fst p \<le> k" using so that by (auto simp: keys_def)
  qed
  have i0: "table_inv now ?q (set ?l) {} ?s"
  proof (rule table_invI)
    fix a assume "a < length (dc_heap ?s)"
    then have a: "a < length (dc_heap s)" by simp
    show "good (dc_heap ?s ! a)" using table_invD(1) [OF i a] by simp
    have "listed ?m = listed rest \<union> set ?l" by (auto simp: m listed_def)
    then show "a \<in> listed (dc_map ?s) \<or> a \<in> set ?l" if "decaying (dc_heap ?s ! a)" using that table_invD(2) [OF i a] by simp
  next
    show "sorted_wrt (<) (map fst (dc_map ?s))" using so by simp
    show "\<forall>e\<in>set (dc_map ?s). snd e \<noteq> []" using table_invD(4) [OF i] unfolding m by simp
    show "covered ?q ?s" using first by (cases rest) (auto simp: covered_def keys_def split: prod.splits)
    show "\<forall>k\<in>keys (dc_map ?s). now < k \<or> k \<in> {}" using first by (cases rest) (auto simp: keys_def)
  qed
  obtain s1 where s1: "decay_all n E now ?l ?s = Some s1"
      "(case rest of [] \<Rightarrow> Some s1 | (t, _) # _ \<Rightarrow> if t \<in> set (dc_freed s1) then None else Some (schedule_check now (int32 (t - now)) s1)) = Some s'"
    using s' by (auto simp: checkDecay_def Let_def due_def rest_def split: option.splits)
  have i1: "table_inv now ?q {} {} s1" using inv_decay_all [OF now i0 s1(1)] by simp
  show ?thesis
  proof (cases rest)
    case Nil
    then show ?thesis using i1 s1(2) by simp
  next
    case (Cons p x)
    obtain t y where p: "p = (t, y)" by (cases p)
    have t: "now < t" using first [OF Cons] p by simp
    have s2: "s' = schedule_check now (int32 (t - now)) s1" using s1(2) Cons p by (simp split: if_splits)
    have "int32 (int32 (t - now)) = int32 (t - now)" by (simp add: int32_def)
    then have due: "now + max SCHEDULER_MINTICKS (int32 (int32 (t - now))) \<le> t + SCHEDULER_MINTICKS"
      using int32_le [of "t - now"] t by (simp add: SCHEDULER_MINTICKS_def)
    have "covered None s'"
      using table_invD(5) [OF i1] due Cons p unfolding covered_def s2 schedule_check_def by force
    then show ?thesis using i1 unfolding s2 by (simp add: table_inv_def schedule_check_def)
  qed
qed

subsection \<open>Runs\<close>

text \<open>The calls of the rest of the game, the removal of an item, the passing of time, and an event of the dispatcher that
  is due. The clock of the code has 64 bits and starts with the epoch.\<close>

datatype decay_op = D_Start nat | D_Stop nat | D_Remove nat int | D_Wait nat | D_Event nat

definition depth_bound :: "decay_world \<Rightarrow> nat" where
  "depth_bound s = Suc (length (dc_heap s))"

definition decay_step :: "decay_env \<Rightarrow> decay_op \<Rightarrow> int \<times> decay_world \<Rightarrow> (int \<times> decay_world) option" where
  "decay_step E op c = (case c of (now, s) \<Rightarrow> (case op of
       D_Start a \<Rightarrow> map_option (Pair now) (startDecay (depth_bound s) E now a s)
     | D_Stop a \<Rightarrow> Some (now, stopDecay now a s)
     | D_Remove a n \<Rightarrow> (case internalRemoveItem (world_env.truncate E) a n False no_flags False \<lparr>w_heap = dc_heap s, w_decay = []\<rparr> of
           (_, w) \<Rightarrow> map_option (Pair now)
             (run_calls (startDecay (depth_bound s) E now) now (w_decay w) (s\<lparr>dc_heap := w_heap w\<rparr>)))
     | D_Wait d \<Rightarrow> Some (if now + int d < 2 ^ 62 then now + int d else now, s)
     | D_Event i \<Rightarrow> (if i < length (dc_events s) \<and> snd (dc_events s ! i) \<le> now
         then map_option (Pair now) (checkDecay (depth_bound s) E now (s\<lparr>dc_events := erase_at i (dc_events s)\<rparr>)) else Some c)))"

fun decay_run :: "decay_env \<Rightarrow> decay_op list \<Rightarrow> int \<times> decay_world \<Rightarrow> (int \<times> decay_world) option" where
  "decay_run E [] c = Some c"
| "decay_run E (op # ops) c = (case decay_step E op c of None \<Rightarrow> None | Some c' \<Rightarrow> decay_run E ops c')"

definition run_inv :: "int \<times> decay_world \<Rightarrow> bool" where
  "run_inv c \<longleftrightarrow> 0 \<le> fst c \<and> fst c < 2 ^ 62 \<and> table_inv (fst c) None {} UNIV (snd c)"

lemma table_inv_any: "table_inv now r D K s \<Longrightarrow> table_inv now' r D UNIV s"
  by (simp add: table_inv_def)

lemma decay_step_inv:
  assumes i: "run_inv c" and s: "decay_step E op c = Some c'"
  shows "run_inv c'"
proof -
  obtain now t where c: "c = (now, t)" by (cases c)
  have now: "0 \<le> now" "now < 2 ^ 62" and t: "table_inv now None {} UNIV t" using i by (simp_all add: run_inv_def c)
  show ?thesis
  proof (cases op)
    case (D_Start a)
    then show ?thesis using s c now inv_startDecay [OF now t] by (auto simp: decay_step_def run_inv_def)
  next
    case (D_Stop a)
    then show ?thesis using s c now inv_stop [OF t] by (auto simp: decay_step_def run_inv_def)
  next
    case (D_Remove a n)
    let ?r = "internalRemoveItem (world_env.truncate E) a n False no_flags False \<lparr>w_heap = dc_heap t, w_decay = []\<rparr>"
    obtain v w where r: "?r = (v, w)" by (cases ?r)
    have q: "quiet (dc_heap t) (w_heap w)" using quiet_remove [OF r] by simp
    obtain t' where t': "run_calls (startDecay (depth_bound t) E now) now (w_decay w) (t\<lparr>dc_heap := w_heap w\<rparr>) = Some t'" "c' = (now, t')"
      using s c D_Remove r by (auto simp: decay_step_def)
    have "table_inv now None {} UNIV t'" by (rule inv_run_calls [OF inv_startDecay [OF now] inv_quiet [OF t q] t'(1)])
    then show ?thesis using t'(2) now by (simp add: run_inv_def)
  next
    case (D_Wait d)
    then have "c' = (if now + int d < 2 ^ 62 then now + int d else now, t)" using s c by (simp add: decay_step_def)
    then show ?thesis using now table_inv_any [OF t] by (simp add: run_inv_def)
  next
    case (D_Event k)
    show ?thesis
    proof (cases "k < length (dc_events t) \<and> snd (dc_events t ! k) \<le> now")
      case True
      then obtain t' where t': "checkDecay (depth_bound t) E now (t\<lparr>dc_events := erase_at k (dc_events t)\<rparr>) = Some t'" "c' = (now, t')"
        using s c D_Event by (auto simp: decay_step_def)
      show ?thesis using table_inv_any [OF check_inv [OF now t t'(1)]] t'(2) now by (simp add: run_inv_def)
    next
      case False
      then have "c' = c" using s c D_Event by (auto simp: decay_step_def)
      then show ?thesis using i by simp
    qed
  qed
qed

lemma decay_run_inv: "run_inv c \<Longrightarrow> decay_run E ops c = Some c' \<Longrightarrow> run_inv c'"
proof (induction ops arbitrary: c)
  case (Cons op ops)
  obtain c1 where c1: "decay_step E op c = Some c1" "decay_run E ops c1 = Some c'"
    using Cons.prems(2) by (cases "decay_step E op c") simp_all
  show ?case by (rule Cons.IH [OF decay_step_inv [OF Cons.prems(1) c1(1)] c1(2)])
qed simp


end
