(* ===== verification/Decay_Ends.thy ===== *)
theory Decay_Ends
  imports Decay_Runs
begin

text \<open>
  The calls of \<open>startDecay\<close> into itself end: an item that decays at once turns into one that does not, so
  the number of overdue items bounds the depth.
\<close>

subsection \<open>Overdue items\<close>

definition short :: "item \<Rightarrow> bool" where
  "short x \<longleftrightarrow> attrs_ok x \<and> 0 \<le> getAttr64 DURATION x \<and> getAttr64 DURATION x < 2 ^ 31"

text \<open>An item whose time is over, or would be when it were stopped now.\<close>

definition overdue :: "int \<Rightarrow> item \<Rightarrow> bool" where
  "overdue now x \<longleftrightarrow> hasAttribute DURATION x \<and> (getAttr64 DURATION x \<le> 0 \<or>
     (getDecaying x \<in> {DECAYING_TRUE, DECAYING_STOPPING} \<and> hasAttribute DURATION_TIMESTAMP x \<and> getDuration now x = 0))"

definition warm :: "types \<Rightarrow> int \<Rightarrow> item \<Rightarrow> bool" where
  "warm T now x \<longleftrightarrow> \<not> ty_decayTo (T (it_id x)) < 0 \<and> ty_decayTime (T (it_id x)) \<noteq> 0 \<and> overdue now x"

definition hot_at :: "types \<Rightarrow> int \<Rightarrow> heap \<Rightarrow> nat set" where
  "hot_at T now h = {a. a < length h \<and> it_parent (h ! a) \<noteq> No_Parent \<and> warm T now (h ! a)}"

definition all_short :: "heap \<Rightarrow> bool" where
  "all_short h \<longleftrightarrow> (\<forall>a<length h. short (h ! a))"

text \<open>What is assumed of the types: those that decay do not stop their time, and no duration is beyond 31 bits.\<close>

definition decay_types_ok :: "types \<Rightarrow> bool" where
  "decay_types_ok T \<longleftrightarrow> (\<forall>i. (\<not> ty_decayTo (T i) < 0 \<and> ty_decayTime (T i) \<noteq> 0 \<longrightarrow> \<not> ty_stopTime (T i)) \<and>
     unat (ty_decayTime (T i)) * 1000 < 2 ^ 31)"

lemma finite_hot [simp]: "finite (hot_at T now h)"
  by (simp add: hot_at_def)

lemma hot_less: "hot_at T now h \<subseteq> {..<length h}"
  by (auto simp: hot_at_def)

lemma short_attrs: "it_attrs y = it_attrs x \<Longrightarrow> short y \<longleftrightarrow> short x"
  by (simp add: short_def attrs_ok_def getAttr64_def getInteger_def item_vector_def)

lemma warm_attrs: "it_attrs y = it_attrs x \<Longrightarrow> it_id y = it_id x \<Longrightarrow> warm T now y \<longleftrightarrow> warm T now x"
  by (simp add: warm_def overdue_def getAttr64_def getInteger_def hasAttribute_def getDuration_def getDecaying_def item_vector_def)

subsection \<open>Durations\<close>

lemma word_pos_32: "sint (d :: u32) \<ge> 0 \<Longrightarrow> uint d = sint d \<and> uint d < 2 ^ 31"
proof -
  assume d: "sint d \<ge> 0"
  have "sint d < 2 ^ 31" using sint_lt [of d] by simp
  moreover have "uint d = sint d"
  proof -
    have "uint d = sint d mod 2 ^ 32" by (simp add: uint_sint take_bit_eq_mod)
    then show ?thesis using d \<open>sint d < 2 ^ 31\<close> by simp
  qed
  ultimately show ?thesis by simp
qed

lemma duration_read:
  assumes "attrs_ok x"
  shows "getAttr64 DURATION (setDuration d x) = (if sint d < 0 then 0 else sint d)" and "hasAttribute DURATION (setDuration d x)"
    and "attrs_ok (setDuration d x)" and "getDecaying (setDuration d x) = getDecaying x"
    and "hasAttribute DURATION_TIMESTAMP (setDuration d x) = hasAttribute DURATION_TIMESTAMP x"
proof -
  note r = read_set [OF assms]
  show "getAttr64 DURATION (setDuration d x) = (if sint d < 0 then 0 else sint d)"
    using word_pos_32 [of d] by (simp add: getAttr64_def setDuration_def r sint_ucast_32)
  show "hasAttribute DURATION (setDuration d x)" "getDecaying (setDuration d x) = getDecaying x"
    "hasAttribute DURATION_TIMESTAMP (setDuration d x) = hasAttribute DURATION_TIMESTAMP x"
    by (simp_all add: setDuration_def r getDecaying_def)
  show "attrs_ok (setDuration d x)" unfolding setDuration_def by (rule attrs_ok_ops(1) [OF assms])
qed

lemma short_setDuration: "short x \<Longrightarrow> short (setDuration d x)"
proof -
  assume x: "short x"
  have "sint d < 2 ^ 31" using sint_lt [of d] by simp
  then show ?thesis using x unfolding short_def by (simp add: duration_read)
qed

lemma short_set: "short x \<Longrightarrow> isAttributeInteger t \<Longrightarrow> t \<noteq> DURATION \<Longrightarrow> short (setAttribute t n x)"
  unfolding short_def getAttr64_def using attrs_ok_ops(1) by (simp add: read_set)

lemma short_remove: "short x \<Longrightarrow> short (removeAttribute t x)"
  unfolding short_def getAttr64_def using attrs_ok_ops(2) [of x t] read_remove(2) [of x DURATION t] by (cases "t = DURATION") simp_all

lemma short_setDecaying: "short x \<Longrightarrow> short (setDecaying s x)"
  by (simp add: setDecaying_def Let_def short_set short_remove)

lemma ucast_32_64: "(ucast (w :: u64) :: u32) = word_of_int (sint w)"
proof -
  have "take_bit 32 (sint w) = take_bit 32 (uint w)" by (simp add: sint_uint take_bit_signed_take_bit)
  then have "(word_of_int (uint w) :: u32) = word_of_int (sint w)" unfolding word_of_int_eq_iff by simp
  then show ?thesis unfolding ucast_eq .
qed

text \<open>Within the range, \<open>getDuration\<close> of an item that is not in the table is its attribute.\<close>

lemma getDuration_idle:
  assumes "short x" and "getDecaying x \<notin> {DECAYING_TRUE, DECAYING_STOPPING}"
  shows "sint (getDuration now x) = getAttr64 DURATION x"
proof -
  have r: "0 \<le> getAttr64 DURATION x" "getAttr64 DURATION x < 2 ^ 31" using assms(1) by (simp_all add: short_def)
  have "getDuration now x = ucast (getInteger DURATION x)" using assms(2) by (simp add: getDuration_def)
  also have "\<dots> = word_of_int (getAttr64 DURATION x)" unfolding getAttr64_def by (rule ucast_32_64)
  finally have "sint (getDuration now x) = signed_take_bit 31 (getAttr64 DURATION x)" by (simp add: sint_sbintrunc')
  then show ?thesis using r by (simp add: signed_take_bit_int_eq_self)
qed

text \<open>The operations on marks never make an item overdue that was not.\<close>

definition cool :: "types \<Rightarrow> int \<Rightarrow> item \<Rightarrow> item \<Rightarrow> bool" where
  "cool T now x y \<longleftrightarrow> (short x \<longrightarrow> short y \<and> (warm T now y \<longrightarrow> warm T now x))"

lemma cool_trans: "cool T now x y \<Longrightarrow> cool T now y z \<Longrightarrow> cool T now x z"
  by (simp add: cool_def)

lemma cool_attrs: "it_attrs y = it_attrs x \<Longrightarrow> it_id y = it_id x \<Longrightarrow> cool T now x y"
  unfolding cool_def using short_attrs [of y x] warm_attrs [of y x T now] by blast

lemma cool_set:
  assumes "isAttributeInteger t" and "t \<notin> {DURATION, DECAYSTATE, DURATION_TIMESTAMP}"
  shows "cool T now x (setAttribute t n x)"
  unfolding cool_def
proof
  assume s: "short x"
  then have r: "attrs_ok x" by (simp add: short_def)
  have i: "getInteger DURATION (setAttribute t n x) = getInteger DURATION x"
    "getInteger DURATION_TIMESTAMP (setAttribute t n x) = getInteger DURATION_TIMESTAMP x"
    "getDecaying (setAttribute t n x) = getDecaying x"
    using assms(2) by (auto simp: getDecaying_def read_set(2) [OF r assms(1)])
  have h: "hasAttribute DURATION (setAttribute t n x) = hasAttribute DURATION x"
    "hasAttribute DURATION_TIMESTAMP (setAttribute t n x) = hasAttribute DURATION_TIMESTAMP x"
    using assms(2) by (auto simp: read_set(1) [OF r assms(1)])
  have "warm T now (setAttribute t n x) = warm T now x"
    unfolding warm_def overdue_def getAttr64_def getDuration_def i h attr_ops_keep by (rule refl)
  then show "short (setAttribute t n x) \<and> (warm T now (setAttribute t n x) \<longrightarrow> warm T now x)"
    using short_set [OF s] assms by simp
qed

lemma cool_unmark: "cool T now x (removeAttribute DECAYSTATE x)" "cool T now x (removeAttribute DURATION_TIMESTAMP x)"
proof -
  show "cool T now x (removeAttribute DECAYSTATE x)" unfolding cool_def
  proof
    assume s: "short x"
    then have r: "attrs_ok x" by (simp add: short_def)
    have "getDecaying (removeAttribute DECAYSTATE x) = 0" by (simp add: getDecaying_def read_remove [OF r])
    then have "warm T now (removeAttribute DECAYSTATE x) \<longrightarrow> warm T now x"
      by (simp add: warm_def overdue_def getAttr64_def read_remove [OF r] attr_ops_keep DECAYING_TRUE_def DECAYING_STOPPING_def)
    then show "short (removeAttribute DECAYSTATE x) \<and> (warm T now (removeAttribute DECAYSTATE x) \<longrightarrow> warm T now x)"
      using short_remove [OF s] by simp
  qed
  show "cool T now x (removeAttribute DURATION_TIMESTAMP x)" unfolding cool_def
  proof
    assume s: "short x"
    then have r: "attrs_ok x" by (simp add: short_def)
    have "warm T now (removeAttribute DURATION_TIMESTAMP x) \<longrightarrow> warm T now x"
      by (simp add: warm_def overdue_def getAttr64_def read_remove [OF r] attr_ops_keep)
    then show "short (removeAttribute DURATION_TIMESTAMP x) \<and> (warm T now (removeAttribute DURATION_TIMESTAMP x) \<longrightarrow> warm T now x)"
      using short_remove [OF s] by simp
  qed
qed

lemma getDuration_nonneg: "short x \<Longrightarrow> 0 \<le> sint (getDuration now x)"
proof (cases "getDecaying x \<in> {DECAYING_TRUE, DECAYING_STOPPING}")
  case False
  then show "short x \<Longrightarrow> ?thesis" using getDuration_idle [of x now] by (simp add: short_def)
qed (auto simp: getDuration_def Let_def)

text \<open>An item that leaves the table with the time that is left, or none.\<close>

lemma cool_unqueued:
  assumes "short x \<longrightarrow> hasAttribute DURATION_TIMESTAMP x"
  shows "cool T now x (unqueued now x)"
  unfolding cool_def
proof
  assume s: "short x"
  then have r: "attrs_ok x" by (simp add: short_def)
  let ?y = "if hasAttribute DURATION x then setDuration (getDuration now x) x else x"
  have y: "short ?y" "attrs_ok ?y" using short_setDuration [OF s] s by (simp_all add: short_def)
  have u: "unqueued now x = removeAttribute DECAYSTATE ?y" by (simp add: unqueued_def)
  have "warm T now x" if w: "warm T now (unqueued now x)"
  proof -
    have "getDecaying (unqueued now x) = 0" unfolding u getDecaying_def using read_remove(2) [OF y(2), of DECAYSTATE DECAYSTATE] by simp
    then have 1: "hasAttribute DURATION (unqueued now x)" "getAttr64 DURATION (unqueued now x) \<le> 0"
      using w by (simp_all add: warm_def overdue_def DECAYING_TRUE_def DECAYING_STOPPING_def)
    have h: "hasAttribute DURATION x" using 1(1) unfolding u using read_remove(1) [OF y(2)] by (simp split: if_splits)
    then have "getAttr64 DURATION (unqueued now x) = getAttr64 DURATION (setDuration (getDuration now x) x)"
      unfolding u using read_remove(2) [OF y(2), of DURATION DECAYSTATE] by (simp add: getAttr64_def)
    then have 2: "sint (getDuration now x) \<le> 0" using 1(2) duration_read(1) [OF r] by (simp split: if_splits)
    then have z: "getDuration now x = 0" using getDuration_nonneg [OF s, of now] by (simp add: signed_eq_0_iff)
    have "overdue now x"
    proof (cases "getDecaying x \<in> {DECAYING_TRUE, DECAYING_STOPPING}")
      case True
      then show ?thesis using z h assms s by (simp add: overdue_def)
    next
      case False
      then show ?thesis using 2 h getDuration_idle [OF s False, of now] by (simp add: overdue_def)
    qed
    moreover have "it_id (unqueued now x) = it_id x" by (simp add: unqueued_def attr_ops_keep decay_ops_keep)
    ultimately show ?thesis using w by (simp add: warm_def)
  qed
  moreover have "short (unqueued now x)" unfolding u by (rule short_remove [OF y(1)])
  ultimately show "short (unqueued now x) \<and> (warm T now (unqueued now x) \<longrightarrow> warm T now x)" by blast
qed

lemma decay_time_pos:
  assumes "decay_types_ok T" and "ty_decayTime (T i) \<noteq> 0"
  shows "0 < sint (ty_decayTime (T i) * 1000)" and "ty_decayTime (T i) * 1000 > 0"
proof -
  let ?d = "ty_decayTime (T i)"
  have b: "unat ?d * 1000 < 2 ^ 31" using assms(1) by (simp add: decay_types_ok_def)
  then have u: "unat (?d * 1000) = unat ?d * 1000" by (simp add: unat_word_ariths)
  have "0 < unat ?d" using assms(2) by (simp add: unat_gt_0)
  have "sint (?d * 1000) = int (unat ?d * 1000)" using sint_u32_small [of "?d * 1000"] unfolding u using b by blast
  then show "0 < sint (?d * 1000)" using \<open>0 < unat ?d\<close> by (simp only: of_nat_0_less_iff nat_0_less_mult_iff zero_less_numeral simp_thms)
  show "?d * 1000 > 0" using \<open>0 < unat ?d\<close> u by (simp add: word_less_nat_alt)
qed

lemma setDecaying_pending: "setDecaying DECAYING_PENDING x = setAttribute DECAYSTATE DECAYING_PENDING x"
  "setDecaying DECAYING_TRUE x = setAttribute DECAYSTATE DECAYING_TRUE x"
  by (simp_all add: setDecaying_def Let_def DECAYING_PENDING_def DECAYING_TRUE_def DECAYING_FALSE_def)

lemma setID_cool:
  assumes T: "decay_types_ok T" and x: "short x" and p: "\<not> ty_stopTime (T (it_id x))"
  shows "short (setID T i x)" and "\<not> warm T now (setID T i x)"
proof -
  let ?x1 = "x\<lparr>it_id := i\<rparr>"
  let ?y = "if hasAttribute DECAYSTATE ?x1 then setDecaying DECAYING_STOPPING ?x1 else ?x1"
  let ?d = "ty_decayTime (T i) * 1000"
  let ?x2 = "if ?d = 0 \<and> \<not> ty_stopTime (T i) \<and> ty_decayTo (T i) < 0 then removeAttribute DURATION ?y else ?x1"
  let ?x3 = "if isRewardCorpse ?x2 then ?x2 else removeAttribute CORPSEOWNER ?x2"
  have 1: "short ?x1" using x short_attrs [of ?x1 x] by simp
  have 3: "short ?x3" using 1 short_setDecaying short_remove by simp
  have e: "setID T i x = (if ?d > 0 then setDuration ?d (setDecaying DECAYING_PENDING ?x3) else ?x3)"
    using p unfolding setID_def Let_def by simp
  have z: "short (setDecaying DECAYING_PENDING ?x3)" by (rule short_setDecaying [OF 3])
  show "short (setID T i x)" unfolding e using short_setDuration [OF z] 3 by simp
  show "\<not> warm T now (setID T i x)"
  proof (cases "ty_decayTime (T i) = 0")
    case True
    then show ?thesis by (simp add: warm_def setID_keep)
  next
    case False
    note pos = decay_time_pos [OF T False]
    have ok3: "attrs_ok ?x3" and okz: "attrs_ok (setDecaying DECAYING_PENDING ?x3)" using 3 z unfolding short_def by blast+
    have "getDecaying (setDecaying DECAYING_PENDING ?x3) = DECAYING_PENDING"
      unfolding setDecaying_pending(1) getDecaying_def read_set(2) [OF ok3 integer_attrs(1)] by (simp add: DECAYING_PENDING_def)
    then have "getDecaying (setID T i x) = DECAYING_PENDING" "getAttr64 DURATION (setID T i x) > 0"
      unfolding e using pos duration_read(1,4) [OF okz, of ?d] by simp_all
    then show ?thesis by (simp add: warm_def overdue_def DECAYING_PENDING_def DECAYING_TRUE_def DECAYING_STOPPING_def)
  qed
qed

lemma cool_if: "cool T now x y \<Longrightarrow> cool T now x z \<Longrightarrow> cool T now x (if b then y else z)"
  by simp

lemma cool_setSubType: "cool T now x (setSubType T n x)"
  unfolding setSubType_def Let_def by (intro cool_if) (rule cool_set cool_attrs; simp)+

lemma cool_setDefaultSubtype: "cool T now x (setDefaultSubtype T x)"
proof -
  have 1: "cool T now x (x\<lparr>it_count := n\<rparr>)" for n by (rule cool_attrs) simp_all
  have "cool T now x (setAttribute CHARGES n (x\<lparr>it_count := 1\<rparr>))" for n by (rule cool_trans [OF 1 cool_set]) simp_all
  then show ?thesis using 1 by (simp add: setDefaultSubtype_def Let_def)
qed

subsection \<open>New items\<close>

definition blank :: "item \<Rightarrow> bool" where
  "blank x \<longleftrightarrow> short x \<and> \<not> hasAttribute DURATION x \<and> getDecaying x = 0"

lemma blank_attrs: "it_attrs y = it_attrs x \<Longrightarrow> blank x \<Longrightarrow> blank y"
  unfolding blank_def using short_attrs [of y x] by (simp add: getDecaying_def hasAttribute_def getInteger_def item_vector_def)

lemma blank_set: "isAttributeInteger t \<Longrightarrow> t \<notin> {DURATION, DECAYSTATE} \<Longrightarrow> blank x \<Longrightarrow> blank (setAttribute t n x)"
  unfolding blank_def using short_set [of x t n] by (auto simp: short_def getDecaying_def read_set)

lemma idle_not_warm:
  assumes "short x" and "getDecaying x = 0" and "0 < sint d"
  shows "short (setDuration d x)" and "getDecaying (setDuration d x) = 0" and "\<not> warm T now (setDuration d x)"
proof -
  have ok: "attrs_ok x" using assms(1) by (simp add: short_def)
  show "short (setDuration d x)" by (rule short_setDuration [OF assms(1)])
  show g: "getDecaying (setDuration d x) = 0" using duration_read(4) [OF ok] assms(2) by simp
  have "getAttr64 DURATION (setDuration d x) > 0" using duration_read(1) [OF ok, of d] assms(3) by simp
  then show "\<not> warm T now (setDuration d x)" using g by (simp add: warm_def overdue_def DECAYING_TRUE_def DECAYING_STOPPING_def)
qed

lemma new_item_cool:
  assumes T: "decay_types_ok T"
  shows "short (new_item T i n)" and "getDecaying (new_item T i n) = 0" and "\<not> warm T now (new_item T i n)"
proof -
  let ?ty = "T i"
  let ?x = "\<lparr>it_id = i, it_count = 1, it_attrs = None, it_parent = No_Parent, it_loadedFromMap = False,
            it_decayDisabled = False, it_box = None\<rparr>"
  let ?y = "if ty_fluid ?ty then setAttribute FLUIDTYPE (ucast (max 1 (min n FLUID_INK))) ?x
     else if ty_stackable ?ty then (if n \<noteq> 0 then ?x\<lparr>it_count := ucast n\<rparr>
       else if ty_charges ?ty \<noteq> 0 then ?x\<lparr>it_count := ucast (ty_charges ?ty)\<rparr> else ?x)
     else if ty_charges ?ty \<noteq> 0 then setAttribute CHARGES (if n \<noteq> 0 then ucast n else ucast (ty_charges ?ty)) ?x
     else ?x"
  let ?d = "ty_decayTime ?ty * 1000"
  have b: "blank ?x" by (simp add: blank_def short_def attrs_ok_def vector_ok_def item_vector_def getAttr64_def getInteger_def
        getDecaying_def hasAttribute_def attr_has_def getAttributeValue_def attr_find_def)
  have i: "blank (if c then y else z)" if "blank y" "blank z" for c y z using that by simp
  define y where "y = ?y"
  have "blank y" unfolding y_def by (intro i b blank_set blank_attrs [OF _ b]) simp_all
  then have y: "short y" "\<not> hasAttribute DURATION y" "getDecaying y = 0" unfolding blank_def by blast+
  have e: "new_item T i n = (if ?d \<noteq> 0 then setDuration ?d y else y)" unfolding y_def by (simp only: new_item_def Let_def)
  have "short (new_item T i n) \<and> getDecaying (new_item T i n) = 0 \<and> \<not> warm T now (new_item T i n)"
  proof (cases "ty_decayTime ?ty = 0")
    case True
    then have "new_item T i n = y" unfolding e by simp
    then show ?thesis using y by (simp add: warm_def overdue_def)
  next
    case False
    note pos = decay_time_pos [OF T False]
    then have "new_item T i n = setDuration ?d y" unfolding e by simp
    then show ?thesis using idle_not_warm [OF y(1,3) pos(1)] by simp
  qed
  then show "short (new_item T i n)" "getDecaying (new_item T i n) = 0" "\<not> warm T now (new_item T i n)" by simp_all
qed

lemma create_cool:
  assumes T: "decay_types_ok (ev_types E)" and y: "create_any E i n = Some y"
  shows "short y" and "getDecaying y = 0" and "\<not> warm (ev_types E) now y"
proof -
  have b: "short (x\<lparr>it_box := b\<rparr>) = short x" "getDecaying (x\<lparr>it_box := b\<rparr>) = getDecaying x"
    "warm (ev_types E) now (x\<lparr>it_box := b\<rparr>) = warm (ev_types E) now x" for x b
    using short_attrs [of "x\<lparr>it_box := b\<rparr>" x] warm_attrs [of "x\<lparr>it_box := b\<rparr>" x "ev_types E" now]
    by (simp_all add: getDecaying_def getInteger_def item_vector_def)
  have "(\<exists>j m b. y = (new_item (ev_types E) j m)\<lparr>it_box := b\<rparr>) \<or> (\<exists>j m. y = new_item (ev_types E) j m)"
    using y by (auto simp: create_any_def create_item_def Let_def split: if_splits)
  then show "short y" "getDecaying y = 0" "\<not> warm (ev_types E) now y" using new_item_cool [OF T] b by auto
qed

subsection \<open>Changes of the heap\<close>

text \<open>Only the items of \<open>A\<close> may be given a parent; ids and attributes stay.\<close>

definition frame :: "nat set \<Rightarrow> heap \<Rightarrow> heap \<Rightarrow> bool" where
  "frame A h h' \<longleftrightarrow> length h' = length h \<and> (\<forall>b<length h. it_id (h' ! b) = it_id (h ! b) \<and> it_attrs (h' ! b) = it_attrs (h ! b) \<and>
     (b \<in> A \<or> it_parent (h' ! b) = No_Parent \<or> it_parent (h ! b) \<noteq> No_Parent))"

lemma frameD:
  assumes "frame A h h'"
  shows "length h' = length h" and "b < length h \<Longrightarrow> it_id (h' ! b) = it_id (h ! b)" and "b < length h \<Longrightarrow> it_attrs (h' ! b) = it_attrs (h ! b)"
    and "b < length h \<Longrightarrow> b \<notin> A \<Longrightarrow> it_parent (h' ! b) \<noteq> No_Parent \<Longrightarrow> it_parent (h ! b) \<noteq> No_Parent"
  using assms unfolding frame_def by blast+

lemma frame_trans: "frame A h h' \<Longrightarrow> frame B h' h'' \<Longrightarrow> frame (A \<union> B) h h''"
  unfolding frame_def by auto

lemma frame_core: "same_core h h' \<Longrightarrow> frame {} h h'"
  unfolding frame_def using same_core_facts(1,3,4) [of h h'] by (auto simp: same_core_def)

lemma frame_weight: "frame {} h (updateItemWeight c d h)"
  unfolding updateItemWeight_bump by (rule frame_core [OF bump_core])

lemma frame_upd_box: "frame {} h (upd_box c f h)"
  by (simp add: frame_def upd_box_def upd_item_nth)

lemma frame_parent: "frame {a} h (upd_item a (\<lambda>x. x\<lparr>it_parent := p\<rparr>) h)" "frame {} h (upd_item a (\<lambda>x. x\<lparr>it_parent := No_Parent\<rparr>) h)"
  by (simp_all add: frame_def upd_item_nth)

lemma frame_insert: "frame {a} h (insert_front c a h)"
  unfolding insert_front_def using frame_trans [OF frame_parent(1) frame_upd_box] by simp

lemma frame_addThing: "frame {a} h (addThing T c i a h)"
proof -
  have "frame {a} h h" by (simp add: frame_def)
  then show ?thesis using frame_trans [OF frame_insert frame_weight] by (simp add: addThing_def Let_def)
qed

lemma frame_erase: "frame {} h (erase_item c a h)"
  unfolding erase_item_def using frame_trans [OF frame_parent(2) frame_upd_box] by simp

lemma frame_removeThing: "frame {} h (removeThing T c a n h)"
proof -
  have 0: "frame {} h h" by (simp add: frame_def)
  have "frame {} h (upd_item a (\<lambda>x. x\<lparr>it_count := m\<rparr>) h)" for m by (simp add: frame_def upd_item_nth)
  then have 1: "frame {} h (updateItemWeight c d (upd_item a (\<lambda>x. x\<lparr>it_count := m\<rparr>) h))" for m d
    using frame_trans [OF _ frame_weight] by fastforce
  have 2: "frame {} h (erase_item c a (updateItemWeight c d h))" for d using frame_trans [OF frame_weight frame_erase] by fastforce
  show ?thesis unfolding removeThing_def Let_def using 0 1 2 by simp
qed

lemma frame_replace:
  assumes "getItemByIndex h c (int i) = Some r" and "r < length h" and "r \<noteq> n"
  shows "frame {n} h (replaceThing T c i n h)" and "it_parent (replaceThing T c i n h ! r) = No_Parent"
proof -
  let ?h1 = "upd_item n (\<lambda>x. x\<lparr>it_parent := In_Box c\<rparr>) (upd_box c (\<lambda>b. b\<lparr>bx_items := (bx_items b)[i := n]\<rparr>) h)"
  let ?h2 = "updateItemWeight c (getWeight T (?h1 ! n) - getWeight T (?h1 ! r)) ?h1"
  have e: "replaceThing T c i n h = upd_item r (\<lambda>x. x\<lparr>it_parent := No_Parent\<rparr>) ?h2"
    using assms(1) by (simp add: replaceThing_def Let_def)
  have "frame ({} \<union> {n}) h ?h1" by (rule frame_trans [OF frame_upd_box frame_parent(1)])
  then have "frame (({} \<union> {n}) \<union> {}) h ?h2" by (rule frame_trans [OF _ frame_weight])
  then have 2: "frame {n} h ?h2" by simp
  have "frame ({n} \<union> {}) h (replaceThing T c i n h)" unfolding e by (rule frame_trans [OF 2 frame_parent(2)])
  then show "frame {n} h (replaceThing T c i n h)" by simp
  have "r < length ?h2" using frameD(1) [OF 2] assms(2) by simp
  then show "it_parent (replaceThing T c i n h ! r) = No_Parent" unfolding e upd_item_nth by simp
qed

lemma frame_hot:
  assumes "frame A h h'"
  shows "all_short h \<Longrightarrow> all_short h'" and "hot_at T now h' \<subseteq> hot_at T now h \<union> {b\<in>A. b < length h \<and> warm T now (h ! b)}"
proof -
  note f = frameD [OF assms]
  show "all_short h \<Longrightarrow> all_short h'" unfolding all_short_def f(1) using short_attrs f(3) by blast
  show "hot_at T now h' \<subseteq> hot_at T now h \<union> {b\<in>A. b < length h \<and> warm T now (h ! b)}"
  proof
    fix b assume "b \<in> hot_at T now h'"
    then have b: "b < length h" "it_parent (h' ! b) \<noteq> No_Parent" "warm T now (h' ! b)" by (simp_all add: hot_at_def f(1))
    have "warm T now (h ! b)" using b(3) warm_attrs [OF f(3,2)] b(1) by blast
    then show "b \<in> hot_at T now h \<union> {b\<in>A. b < length h \<and> warm T now (h ! b)}" using b f(4) by (auto simp: hot_at_def)
  qed
qed

lemma upd_hot:
  assumes "all_short h" and "short (h ! a) \<Longrightarrow> short (f (h ! a)) \<and> (warm T now (f (h ! a)) \<longrightarrow> warm T now (h ! a))"
    and "it_parent (f (h ! a)) = it_parent (h ! a)"
  shows "all_short (upd_item a f h)" and "hot_at T now (upd_item a f h) \<subseteq> hot_at T now h"
    and "short (h ! a) \<Longrightarrow> \<not> warm T now (f (h ! a)) \<Longrightarrow> a \<notin> hot_at T now (upd_item a f h)"
  using assms by (auto simp: all_short_def hot_at_def upd_item_nth)

subsection \<open>Stopping and transforming\<close>

text \<open>Nothing is overdue that was not, and durations stay in range.\<close>

definition calm :: "types \<Rightarrow> int \<Rightarrow> heap \<Rightarrow> heap \<Rightarrow> bool" where
  "calm T now h h' \<longleftrightarrow> (all_short h \<longrightarrow> all_short h' \<and> hot_at T now h' \<subseteq> hot_at T now h) \<and> length h \<le> length h'"

lemma calm_refl [simp]: "calm T now h h"
  by (simp add: calm_def)

lemma calm_trans: "calm T now h h' \<Longrightarrow> calm T now h' h'' \<Longrightarrow> calm T now h h''"
  unfolding calm_def by auto

lemma calm_frame: "frame {} h h' \<Longrightarrow> calm T now h h'"
  unfolding calm_def using frame_hot(1) [of "{}" h h'] frame_hot(2) [of "{}" h h' T now] frameD(1) [of "{}" h h'] by simp

lemma calm_upd: "(\<And>x. cool T now x (f x)) \<Longrightarrow> (\<And>x. it_parent (f x) = it_parent x) \<Longrightarrow> calm T now h (upd_item a f h)"
  unfolding calm_def using upd_hot(1,2) [where h = h and a = a and f = f and T = T and now = now] by (simp add: cool_def)

lemma calm_stop: "calm T now (dc_heap s) (dc_heap (stopDecay now a s))"
proof -
  have p: "it_parent (unqueued now x) = it_parent x" for x by (simp add: unqueued_def attr_ops_keep decay_ops_keep)
  have u: "calm T now (dc_heap s) (upd_item a (unqueued now) (dc_heap s))" if "hasAttribute DURATION_TIMESTAMP (dc_heap s ! a)"
    unfolding calm_def using upd_hot(1,2) [where h = "dc_heap s" and a = a and f = "unqueued now" and T = T and now = now] cool_unqueued [of "dc_heap s ! a" T now] that
    by (simp add: cool_def p)
  have r: "calm T now (dc_heap s) (upd_item a (removeAttribute DECAYSTATE) (dc_heap s))"
    "calm T now (dc_heap s) (upd_item a (removeAttribute DURATION_TIMESTAMP) (dc_heap s))"
    by (rule calm_upd, rule cool_unmark, rule attr_ops_keep)+
  show ?thesis unfolding stopDecay_def Let_def
    using u r by (auto simp: on_item_def split: option.split)
qed

text \<open>A change that leaves \<open>a\<close> not overdue.\<close>

definition cools :: "types \<Rightarrow> int \<Rightarrow> nat \<Rightarrow> heap \<Rightarrow> heap \<Rightarrow> bool" where
  "cools T now a h h' \<longleftrightarrow> all_short h' \<and> hot_at T now h' \<subseteq> hot_at T now h - {a} \<and> length h \<le> length h'"

lemma cools_frame:
  assumes "cools T now a h h'" and "frame A h' h''" and "A \<subseteq> {a}" and "a \<in> A \<Longrightarrow> \<not> warm T now (h' ! a)"
  shows "cools T now a h h''"
proof -
  note c = assms(1) [unfolded cools_def]
  have "{b\<in>A. b < length h' \<and> warm T now (h' ! b)} = {}" using assms(3,4) by auto
  then have "hot_at T now h'' \<subseteq> hot_at T now h'" using frame_hot(2) [where T = T and now = now, OF assms(2)] by auto
  then show ?thesis using c frame_hot(1) [OF assms(2)] frameD(1) [OF assms(2)] unfolding cools_def by auto
qed

lemma cools_upd:
  assumes "all_short h" and "a < length h" and "short (f (h ! a))" and "\<not> warm T now (f (h ! a))" and "it_parent (f (h ! a)) = it_parent (h ! a)"
  shows "cools T now a h (upd_item a f h)"
proof -
  have s: "short (h ! a)" using assms(1,2) by (simp add: all_short_def)
  have f: "short (h ! a) \<Longrightarrow> short (f (h ! a)) \<and> (warm T now (f (h ! a)) \<longrightarrow> warm T now (h ! a))" using assms(3,4) by simp
  note u = upd_hot [where T = T and now = now and f = f and a = a, OF assms(1) f assms(5)]
  show ?thesis unfolding cools_def using u(1,2) u(3) [OF _ s assms(4)] by auto
qed

lemma calm_cools: "calm T now h h' \<Longrightarrow> all_short h \<Longrightarrow> cools T now a h' h'' \<Longrightarrow> cools T now a h h''"
  unfolding calm_def cools_def by auto

lemma calmD: "calm T now h h' \<Longrightarrow> all_short h \<Longrightarrow> all_short h'"
  by (simp add: calm_def)

lemma transform_cools:
  assumes T: "decay_types_ok (ev_types E)" and h: "all_short h" "a < length h" and c: "c < length h" "getThingIndex h c a \<noteq> - 1"
    and t: "item_transform E now c a i n h = Some (cs, h')"
  shows "cools (ev_types E) now a h h'"
proof -
  let ?T = "ev_types E" and ?d = "getDuration now (h ! a)"
  obtain y where y: "create_any E i n = Some y" using t by (auto simp: item_transform_def split: option.splits)
  define z where "z = (if sint ?d > 0 then setDuration ?d y else y)"
  define k where "k = find_index (\<lambda>x. x = a) (itemlist h c)"
  note cy = create_cool [OF T y]
  have z: "short z \<and> \<not> warm ?T now z"
  proof (cases "0 < sint ?d")
    case True
    then show ?thesis using idle_not_warm [OF cy(1,2)] by (simp add: z_def)
  qed (use cy in \<open>simp add: z_def\<close>)
  let ?g = "h @ [z]"
  have k: "k < length (itemlist h c)" "getThingIndex h c a = int k" using c(2) by (auto simp: getThingIndex_def Let_def k_def split: if_splits)
  have h': "h' = replaceThing ?T c k (length h) ?g" using t y k(2) by (simp add: item_transform_def Let_def z_def)
  have "itemlist ?g c = itemlist h c" using c(1) by (simp add: itemlist_def nth_append)
  moreover have "itemlist h c ! k = a" using find_index_nth [of "\<lambda>x. x = a" "itemlist h c"] k(1) unfolding k_def by blast
  ultimately have "getItemByIndex ?g c (int k) = Some a" using k(1) by (simp add: getItemByIndex_def)
  note r = frame_replace [where n = "length h" and T = ?T, OF this, folded h']
  have f: "frame {length h} ?g h'" "it_parent (h' ! a) = No_Parent" using r h(2) by simp_all
  have g: "all_short ?g" using h(1) z unfolding all_short_def by (auto simp: nth_append less_Suc_eq)
  have hg: "hot_at ?T now ?g \<subseteq> hot_at ?T now h" using z by (auto simp: hot_at_def nth_append split: if_splits)
  have "hot_at ?T now h' \<subseteq> hot_at ?T now h" using frame_hot(2) [where T = ?T and now = now, OF f(1)] hg z by auto
  moreover have "a \<notin> hot_at ?T now h'" using f(2) by (simp add: hot_at_def)
  ultimately show ?thesis using frame_hot(1) [OF f(1) g] frameD(1) [OF f(1)] unfolding cools_def by auto
qed

lemma create_some: "ty_id (ev_types E i) \<noteq> 0 \<Longrightarrow> create_any E i n \<noteq> None"
  by (simp add: create_any_def create_item_def Let_def)

lemma transformItem_cools:
  assumes T: "decay_types_ok (ev_types E)" and h: "all_short h" "a < length h" and p: "\<not> ty_stopTime (ev_types E (it_id (h ! a)))"
  obtains cs h' where "transformItem E now a i h = Some (cs, h')" and "cs = [] \<and> h' = h \<or> cools (ev_types E) now a h h'"
proof (cases "it_id (h ! a) = i \<or> parent_box h a = None")
  case True
  then have "transformItem E now a i h = Some ([], h)" by (auto simp: transformItem_def transform_reorder_def transform_in_place_def Let_def)
  then show ?thesis using that by blast
next
  case False
  then obtain c where c: "parent_box h a = Some c" by blast
  let ?T = "ev_types E" and ?x = "h ! a"
  have x: "short ?x" using h by (simp add: all_short_def)
  show ?thesis
  proof (cases "length h \<le> c \<or> getThingIndex h c a = - 1 \<or> ty_id (?T i) = 0")
    case True
    then have "transformItem E now a i h = Some ([], h)" using False c by (auto simp: transformItem_def transform_reorder_def transform_in_place_def Let_def)
    then show ?thesis using that by blast
  next
    case ok: False
    show ?thesis
    proof (cases "(dv_topOrder E (it_id ?x) \<noteq> 0) \<noteq> (dv_topOrder E i \<noteq> 0)")
      case True
      let ?h0 = "removeThing ?T c a (ucast (it_count ?x)) h"
      let ?h1 = "upd_item a (setID ?T i) ?h0"
      let ?h2 = "addThing ?T c 0 a ?h1"
      note fr = frameD [OF frame_removeThing [where T = ?T and c = c and a = a and n = "ucast (it_count ?x)" and h = h]]
      have 0: "calm ?T now h ?h0" by (rule calm_frame [OF frame_removeThing])
      have a0: "all_short ?h0" "a < length ?h0" using calmD [OF 0 h(1)] fr(1) h(2) by simp_all
      have s: "short (?h0 ! a)" using a0 by (simp add: all_short_def)
      have p0: "\<not> ty_stopTime (?T (it_id (?h0 ! a)))" using p fr(2) [OF h(2)] by simp
      note ci = setID_cool(1) [where i = i, OF T s p0] setID_cool(2) [where i = i and now = now, OF T s p0]
      have 1: "cools ?T now a ?h0 ?h1" by (rule cools_upd [where f = "setID ?T i", OF a0 ci setID_keep(3)])
      have "\<not> warm ?T now (?h1 ! a)" using ci(2) a0(2) by (simp add: upd_item_nth)
      then have "cools ?T now a h ?h2" using cools_frame [OF calm_cools [OF 0 h(1) 1] frame_addThing] by simp
      moreover have "transformItem E now a i h =
          Some (if it_parent (?h2 ! a) = No_Parent then calls_stop ?h2 a else calls_start ?h2 a, ?h2)"
        using False c ok True by (simp add: transformItem_def transform_reorder_def transform_in_place_def Let_def)
      ultimately show ?thesis using that by blast
    next
      case top: False
      show ?thesis
      proof (cases "dv_kind E (it_id ?x) = dv_kind E i")
        case True
        define j where "j = (if ty_id (?T (it_id ?x)) \<noteq> ty_id (?T i) then i else it_id ?x)"
        define h1 where "h1 = (if ty_id (?T (it_id ?x)) \<noteq> ty_id (?T i) \<and> dv_group E i \<noteq> dv_group E (it_id ?x)
                 then upd_item a (setDefaultSubtype ?T) h else h)"
        let ?n = "ucast (getSubType ?T ?x)"
        let ?h2 = "updateThing ?T c a j ?n h1"
        have keep: "it_parent (setDefaultSubtype ?T x) = it_parent x" "it_id (setDefaultSubtype ?T x) = it_id x"
          "it_box (setDefaultSubtype ?T x) = it_box x" for x
          by (simp_all add: setDefaultSubtype_def Let_def attr_ops_keep)
        have 0: "calm ?T now h h1" using calm_upd [OF cool_setDefaultSubtype keep(1)] by (simp add: h1_def)
        have b1: "it_box (h1 ! b) = it_box (h ! b)" for b by (auto simp: h1_def upd_item_nth keep)
        have a0: "all_short h1" "a < length h1" "it_id (h1 ! a) = it_id ?x" "getThingIndex h1 c a = getThingIndex h c a"
          using calmD [OF 0 h(1)] h(2) by (auto simp: h1_def upd_item_nth keep getThingIndex_def itemlist_def b1)
        have s: "short (h1 ! a)" using a0 by (simp add: all_short_def)
        have p0: "\<not> ty_stopTime (?T (it_id (h1 ! a)))" using p a0(3) by simp
        let ?f = "\<lambda>x. setSubType ?T (ucast (?n :: u32)) (setID ?T j x)"
        note ci = setID_cool(1) [where i = j, OF T s p0] setID_cool(2) [where i = j and now = now, OF T s p0]
        have cs: "cool ?T now (setID ?T j (h1 ! a)) (?f (h1 ! a))" by (rule cool_setSubType)
        have pk: "it_parent (setSubType ?T m x) = it_parent x" for m x by (simp add: setSubType_def Let_def attr_ops_keep)
        have 1: "cools ?T now a h1 (upd_item a ?f h1)"
          using cs ci by (intro cools_upd [OF a0(1,2)]) (simp_all add: cool_def pk setID_keep)
        have u: "?h2 = updateItemWeight c (getWeight ?T (upd_item a ?f h1 ! a) - getWeight ?T (h1 ! a)) (upd_item a ?f h1)"
          using ok a0(4) by (simp add: updateThing_def Let_def)
        have "cools ?T now a h ?h2" unfolding u by (rule cools_frame [OF calm_cools [OF 0 h(1) 1] frame_weight]) simp_all
        moreover have "transformItem E now a i h = Some (calls_start ?h2 a, ?h2)"
          using False c ok top True by (simp add: transformItem_def transform_reorder_def transform_in_place_def Let_def h1_def j_def)
        ultimately show ?thesis using that by blast
      next
        case kind: False
        have t: "transformItem E now a i h = item_transform E now c a i 65535 h"
          using False c ok top kind by (simp add: transformItem_def transform_reorder_def transform_in_place_def Let_def)
        obtain y where "create_any E i 65535 = Some y" using create_some [of E i] ok by blast
        then obtain cs h' where it: "item_transform E now c a i 65535 h = Some (cs, h')" by (simp add: item_transform_def Let_def)
        have "cools ?T now a h h'" using transform_cools [OF T h _ _ it] ok by simp
        then show ?thesis using that t it by simp
      qed
    qed
  qed
qed

definition only_stops :: "decay_call list \<Rightarrow> bool" where
  "only_stops cs \<longleftrightarrow> (\<forall>c\<in>set cs. \<exists>a. c = Stop_Decay a)"

lemma stop_calls_calm: "only_stops cs \<Longrightarrow>
    \<exists>s'. run_calls start now cs s = Some s' \<and> calm T now (dc_heap s) (dc_heap s')"
proof (induction cs arbitrary: s)
  case (Cons c cs)
  then obtain a where c: "c = Stop_Decay a" by (auto simp: only_stops_def)
  have "only_stops cs" using Cons.prems by (simp add: only_stops_def)
  then obtain s' where "run_calls start now cs (stopDecay now a s) = Some s'" "calm T now (dc_heap (stopDecay now a s)) (dc_heap s')"
    using Cons.IH by blast
  then show ?case using calm_trans [OF calm_stop] c by auto
qed simp

lemma stops_trace: "only_stops []" "only_stops (w_decay (stopDecaying b u)) \<longleftrightarrow> only_stops (w_decay u)"
  "w_decay (upd_heap f u) = w_decay u"
  by (auto simp: only_stops_def stopDecaying_def upd_heap_def)

lemma internal_cools:
  assumes T: "decay_types_ok (ev_types E)" and h: "all_short h" "a < length h" and p: "\<not> ty_stopTime (ev_types E (it_id (h ! a)))"
  obtains cs h' where "internalDecayItem E now a h = Some (cs, h')" and "calm (ev_types E) now h h'"
    and "cools (ev_types E) now a h h' \<or> only_stops cs"
proof -
  let ?T = "ev_types E"
  let ?r = "internalRemoveItem (world_env.truncate E) a (- 1) False no_flags False \<lparr>w_heap = h, w_decay = []\<rparr>"
  obtain v w where r: "?r = (v, w)" by (cases ?r)
  have w: "only_stops (w_decay w) \<and> calm ?T now h (w_heap w)"
  proof (cases "parent_box h a")
    case None
    then show ?thesis using r by (auto simp: internalRemoveItem_def Let_def stops_trace)
  next
    case (Some c)
    have "calm ?T now h (removeThing t c a n h)" for t n by (rule calm_frame [OF frame_removeThing])
    then show ?thesis using r unfolding internalRemoveItem_def Let_def item_world.select_convs Some option.case
      by (auto simp: stops_trace decaying_heap split: if_splits)
  qed
  have cc: "calm ?T now h h'" if "cools ?T now a h h'" for h' using that by (auto simp: calm_def cools_def)
  obtain cs h' where t: "transformItem E now a (word_of_int (ty_decayTo (?T (it_id (h ! a))))) h = Some (cs, h')"
    "cs = [] \<and> h' = h \<or> cools ?T now a h h'" by (rule transformItem_cools [OF T h p])
  have "internalDecayItem E now a h \<in> {Some (w_decay w, w_heap w), Some (cs, h'), Some ([], h)}"
    unfolding internalDecayItem_def decay_into_def decay_remove_def Let_def r prod.case using t(1) by simp
  then show ?thesis using that w t(2) cc stops_trace(1) calm_refl by blast
qed

subsection \<open>Returning\<close>

lemma cools_card:
  assumes "cools T now a h h'" and "a \<in> hot_at T now h"
  shows "card (hot_at T now h') < card (hot_at T now h)"
  using assms psubset_card_mono [of "hot_at T now h" "hot_at T now h'"] unfolding cools_def by auto

lemma run_calls_returns:
  assumes start: "\<And>a s. all_short (dc_heap s) \<Longrightarrow> card (hot_at T now (dc_heap s)) < n \<Longrightarrow>
      \<exists>s'. start a s = Some s' \<and> calm T now (dc_heap s) (dc_heap s')"
  shows "all_short (dc_heap s) \<Longrightarrow> card (hot_at T now (dc_heap s)) < n \<Longrightarrow>
    \<exists>s'. run_calls start now cs s = Some s' \<and> calm T now (dc_heap s) (dc_heap s')"
proof (induction cs arbitrary: s)
  case (Cons c cs)
  obtain s1 where s1: "run_calls start now (c # cs) s = run_calls start now cs s1" "calm T now (dc_heap s) (dc_heap s1)"
  proof (cases c)
    case (Start_Decay a)
    then show ?thesis using start [OF Cons.prems, of a] that by auto
  next
    case (Stop_Decay a)
    then show ?thesis using that calm_stop by simp
  qed
  have "all_short (dc_heap s1)" "card (hot_at T now (dc_heap s1)) < n"
    using s1(2) Cons.prems card_mono [of "hot_at T now (dc_heap s)" "hot_at T now (dc_heap s1)"] unfolding calm_def by auto
  then obtain s' where "run_calls start now cs s1 = Some s'" "calm T now (dc_heap s1) (dc_heap s')" using Cons.IH by blast
  then show ?case using s1 calm_trans by metis
qed simp

lemma stop_idle:
  assumes "short (dc_heap s ! a)" and "getDecaying (dc_heap s ! a) \<notin> {DECAYING_TRUE, DECAYING_STOPPING}"
    and "getAttr64 DURATION (dc_heap s ! a) > 0" and "a < length (dc_heap s)"
  shows "getAttr64 DURATION (dc_heap (stopDecay now a s) ! a) = getAttr64 DURATION (dc_heap s ! a)"
proof -
  let ?x = "dc_heap s ! a"
  have ok: "attrs_ok ?x" using assms(1) by (simp add: short_def)
  have r: "getAttr64 DURATION (removeAttribute t ?x) = getAttr64 DURATION ?x" if "t \<noteq> DURATION" for t
    using that by (auto simp: getAttr64_def read_remove(2) [OF ok])
  have "getAttr64 DURATION (unqueued now ?x) = getAttr64 DURATION ?x"
  proof -
    have h: "hasAttribute DURATION ?x" by (rule ccontr) (use assms(3) read_absent [of DURATION ?x] in \<open>simp add: getAttr64_def\<close>)
    have "getAttr64 DURATION (setDuration (getDuration now ?x) ?x) = getAttr64 DURATION ?x"
      using duration_read(1) [OF ok] getDuration_idle [OF assms(1,2)] assms(3) by simp
    then show ?thesis using h by (simp add: unqueued_def getAttr64_def read_remove(2) [OF duration_read(3) [OF ok]])
  qed
  then show ?thesis using assms(4) r by (auto simp: stopDecay_def Let_def on_item_def upd_item_nth split: option.split)
qed

lemma stamp_span: "(ucast (word_of_int (int64 (now + d)) :: u64) :: u32) - word_of_int now = word_of_int d"
proof -
  have "(word_of_int (int64 z) :: u64) = word_of_int z" for z by (simp add: int64_def)
  then have "(ucast (word_of_int (int64 (now + d)) :: u64) :: u32) = ucast (word_of_int (now + d) :: u64)" by simp
  also have "\<dots> = word_of_int (now + d)"
  proof -
    have "(ucast (word_of_int z :: u64) :: u32) = word_of_int z" for z
      by (simp add: ucast_eq word_of_int_eq_iff uint_word_of_int_eq)
    then show ?thesis .
  qed
  finally show ?thesis by (simp add: algebra_simps)
qed

lemma calm_queue:
  assumes x: "short (dc_heap s ! a)" "getDecaying (dc_heap s ! a) \<notin> {DECAYING_TRUE, DECAYING_STOPPING}" and a: "a < length (dc_heap s)"
    and d: "d = getAttr64 DURATION (dc_heap s ! a)" "0 < d"
  shows "calm T now (dc_heap s) (dc_heap (queue_decay now a d s))"
proof -
  define s1 where "s1 = (if hasAttribute DURATION_TIMESTAMP (dc_heap s ! a) then stopDecay now a s else s)"
  let ?t = "word_of_int (int64 (now + d)) :: u64"
  let ?f = "\<lambda>x. setAttribute DURATION_TIMESTAMP ?t (setDecaying DECAYING_TRUE x)"
  have c1: "calm T now (dc_heap s) (dc_heap s1)" using calm_stop by (simp add: s1_def)
  have d1: "getAttr64 DURATION (dc_heap s1 ! a) = d" using stop_idle [OF x _ a] d by (simp add: s1_def)
  have h: "dc_heap (queue_decay now a d s) = upd_item a ?f (dc_heap s1)"
    by (simp add: queue_decay_def Let_def s1_def [symmetric] arm_def [symmetric] arm_keeps on_item_def)
  have w: "short (?f y) \<and> \<not> warm T now (?f y)" if y: "short y" "getAttr64 DURATION y = d" for y
  proof -
    have ok: "attrs_ok y" using y(1) by (simp add: short_def)
    have ok2: "attrs_ok (setAttribute DECAYSTATE DECAYING_TRUE y)" by (rule attrs_ok_ops(1) [OF ok])
    note r = read_set(2) [OF ok] read_set(2) [OF ok2]
    have g: "getDecaying (?f y) = DECAYING_TRUE" "getAttr64 DURATION (?f y) = d" "getInteger DURATION_TIMESTAMP (?f y) = ?t"
      using y(2) unfolding setDecaying_pending getDecaying_def getAttr64_def by (simp_all add: r) (simp add: DECAYING_TRUE_def)
    have "d < 2 ^ 31" using y by (simp add: short_def)
    then have s: "sint (word_of_int d :: u32) = d" using d(2) by (simp add: sint_sbintrunc' signed_take_bit_int_eq_self)
    have "getDuration now (?f y) = word_of_int d"
      unfolding getDuration_def g(1,3) stamp_span Let_def using s d(2) by simp
    moreover have "(word_of_int d :: u32) \<noteq> 0" using s d(2) by (metis less_irrefl signed_0)
    ultimately have "\<not> overdue now (?f y)" using g(2) d(2) by (simp add: overdue_def)
    then show ?thesis using short_set [OF short_setDecaying [OF y(1)]] by (simp add: warm_def)
  qed
  have p: "it_parent (?f y) = it_parent y" for y by (simp add: attr_ops_keep decay_ops_keep)
  have "calm T now (dc_heap s1) (upd_item a ?f (dc_heap s1))"
    unfolding calm_def using upd_hot(1,2) [where h = "dc_heap s1" and a = a and f = ?f and T = T and now = now] w d1 p by simp
  then show ?thesis unfolding h by (rule calm_trans [OF c1])
qed

lemma can_decay_type: "canDecay T h a \<Longrightarrow> \<not> ty_decayTo (T (it_id (h ! a))) < 0 \<and> ty_decayTime (T (it_id (h ! a))) \<noteq> 0"
  by (simp add: canDecay_def)

lemma can_decay_placed:
  assumes "canDecay T h a" and "a < length h"
  shows "it_parent (h ! a) \<noteq> No_Parent"
proof
  assume n: "it_parent (h ! a) = No_Parent"
  obtain m where "length h = Suc m" using assms(2) by (cases "length h") simp_all
  then have "chain h a = [a]" using n by (simp add: chain_def parent_box_def)
  then show False using assms(1) n by (simp add: canDecay_def item_isRemoved_def)
qed

lemma start_returns:
  assumes T: "decay_types_ok (ev_types E)"
  shows "all_short (dc_heap s) \<Longrightarrow> card (hot_at (ev_types E) now (dc_heap s)) < n \<Longrightarrow>
    \<exists>s'. startDecay n E now a s = Some s' \<and> calm (ev_types E) now (dc_heap s) (dc_heap s')"
proof (induction n arbitrary: a s)
  case (Suc n)
  let ?T = "ev_types E" and ?h = "dc_heap s"
  let ?x = "?h ! a"
  let ?d = "getAttr64 DURATION ?x"
  consider "length ?h \<le> a" | "a < length ?h" "getDecaying ?x = DECAYING_STOPPING \<or> (\<not> canDecay ?T ?h a \<and> getDecaying ?x = DECAYING_TRUE)"
    | "a < length ?h" "getDecaying ?x \<noteq> DECAYING_STOPPING" "\<not> canDecay ?T ?h a \<or> getDecaying ?x = DECAYING_TRUE"
      "\<not> (\<not> canDecay ?T ?h a \<and> getDecaying ?x = DECAYING_TRUE)"
    | "a < length ?h" "getDecaying ?x \<notin> {DECAYING_TRUE, DECAYING_STOPPING}" "canDecay ?T ?h a" by fastforce
  then show ?case
  proof cases
    case 1
    then show ?thesis by (simp add: Let_def)
  next
    case 2
    then show ?thesis using calm_stop [where s = s and a = a and T = ?T and now = now] by (auto simp: Let_def)
  next
    case 3
    then show ?thesis by (auto simp: Let_def)
  next
    case 4
    have x: "short ?x" using Suc.prems(1) 4(1) by (simp add: all_short_def)
    consider "?d \<le> 0" "hasAttribute DURATION ?x" | "0 < ?d" | "\<not> 0 < ?d" "\<not> hasAttribute DURATION ?x" by linarith
    then show ?thesis
    proof cases
      case 1
      note ty = can_decay_type [OF 4(3)]
      have hot: "a \<in> hot_at ?T now ?h"
        using 1 4(1) ty can_decay_placed [OF 4(3,1)] by (simp add: hot_at_def warm_def overdue_def)
      have "\<not> ty_stopTime (?T (it_id ?x))" using T ty by (simp add: decay_types_ok_def)
      then obtain cs h' where h': "internalDecayItem E now a ?h = Some (cs, h')" "calm ?T now ?h h'" "cools ?T now a ?h h' \<or> only_stops cs"
        using internal_cools [OF T Suc.prems(1) 4(1)] by metis
      let ?s = "s\<lparr>dc_heap := h'\<rparr>"
      have "\<exists>s'. run_calls (startDecay n E now) now cs ?s = Some s' \<and> calm ?T now (dc_heap ?s) (dc_heap s')"
      proof (cases "only_stops cs")
        case True
        then show ?thesis by (rule stop_calls_calm)
      next
        case False
        then have c: "cools ?T now a ?h h'" using h'(3) by blast
        then have "card (hot_at ?T now h') < n" using cools_card [OF c hot] Suc.prems(2) by simp
        moreover have "all_short h'" using c by (simp add: cools_def)
        ultimately show ?thesis using run_calls_returns [where n = n and T = ?T and start = "startDecay n E now" and s = ?s and cs = cs, OF Suc.IH] by simp
      qed
      then obtain s' where s': "run_calls (startDecay n E now) now cs ?s = Some s'" "calm ?T now h' (dc_heap s')" by auto
      have "startDecay (Suc n) E now a s = Some s'" using 1 4 h'(1) s'(1) by (simp add: Let_def decay_now_def)
      then show ?thesis using calm_trans [OF h'(2) s'(2)] by blast
    next
      case 2
      then have "startDecay (Suc n) E now a s = Some (queue_decay now a ?d s)" using 4 by (simp add: Let_def)
      then show ?thesis using calm_queue [OF x 4(2,1) refl 2] by blast
    next
      case 3
      then have "startDecay (Suc n) E now a s = Some s" using 4 by (simp add: Let_def)
      then show ?thesis by simp
    qed
  qed
qed simp

text \<open>The loop over the items that are due. Only items that were there when it began can become overdue in it.\<close>

lemma cool_done: "cool T now x (setDecaying DECAYING_FALSE x)"
  unfolding cool_def
proof
  assume s: "short x"
  then have ok: "attrs_ok x" by (simp add: short_def)
  have e: "setDecaying DECAYING_FALSE x = removeAttribute DURATION_TIMESTAMP (setAttribute DECAYSTATE 0 x)"
    by (simp add: setDecaying_def Let_def DECAYING_FALSE_def)
  note r = read_remove [OF attrs_ok_ops(1) [OF ok]] read_set [OF ok]
  have "warm T now (setDecaying DECAYING_FALSE x) \<longrightarrow> warm T now x"
    by (simp add: e warm_def overdue_def getDecaying_def getAttr64_def r attr_ops_keep DECAYING_TRUE_def DECAYING_STOPPING_def)
  then show "short (setDecaying DECAYING_FALSE x) \<and> (warm T now (setDecaying DECAYING_FALSE x) \<longrightarrow> warm T now x)"
    using short_setDecaying [OF s] by simp
qed

lemma due_returns:
  assumes T: "decay_types_ok (ev_types E)" and s: "all_short (dc_heap s)" "hot_at (ev_types E) now (dc_heap s) \<subseteq> {..<L}" "L \<le> length (dc_heap s)"
    and a: "a < L"
  obtains s' where "decay_due (Suc L) E now a s = Some s'" and "all_short (dc_heap s')"
    and "hot_at (ev_types E) now (dc_heap s') \<subseteq> {..<L}" and "L \<le> length (dc_heap s')"
proof (cases "canDecay (ev_types E) (dc_heap s) a")
  case True
  let ?T = "ev_types E"
  let ?s = "on_item a (setDecaying DECAYING_FALSE) s"
  have al: "a < length (dc_heap s)" using a s(3) by simp
  have c: "calm ?T now (dc_heap s) (dc_heap ?s)" unfolding on_item_def using calm_upd [OF cool_done decay_ops_keep(3)] by simp
  have s2: "all_short (dc_heap ?s)" "a < length (dc_heap ?s)" using calmD [OF c s(1)] al by (simp_all add: on_item_def)
  have "it_id (dc_heap ?s ! a) = it_id (dc_heap s ! a)" using al by (simp add: on_item_def upd_item_nth decay_ops_keep)
  then have "\<not> ty_stopTime (?T (it_id (dc_heap ?s ! a)))" using T can_decay_type [OF True] by (simp add: decay_types_ok_def)
  then obtain cs h' where h': "internalDecayItem E now a (dc_heap ?s) = Some (cs, h')" "calm ?T now (dc_heap ?s) h'"
    using internal_cools [OF T s2] by metis
  have c2: "calm ?T now (dc_heap s) h'" by (rule calm_trans [OF c h'(2)])
  then have "hot_at ?T now h' \<subseteq> {..<L}" using s(1,2) unfolding calm_def by blast
  then have "card (hot_at ?T now h') \<le> L" using card_mono [of "{..<L}"] by fastforce
  then obtain s' where s': "run_calls (startDecay (Suc L) E now) now cs (?s\<lparr>dc_heap := h'\<rparr>) = Some s'" "calm ?T now h' (dc_heap s')"
    using run_calls_returns [where n = "Suc L" and T = ?T and start = "startDecay (Suc L) E now" and s = "?s\<lparr>dc_heap := h'\<rparr>" and cs = cs,
        OF start_returns [OF T]] calmD [OF c2 s(1)] by auto
  have c3: "calm ?T now (dc_heap s) (dc_heap s')" by (rule calm_trans [OF c2 s'(2)])
  have "decay_due (Suc L) E now a s = Some s'" using True h'(1) s'(1) by (simp add: decay_due_def decay_now_def del: startDecay.simps)
  then show ?thesis using that c3 s unfolding calm_def by fastforce
next
  case False
  let ?f = "\<lambda>x. setDecaying DECAYING_FALSE (setDuration (getDuration now x) x)"
  have sh: "short (?f x)" if "short x" for x using short_setDecaying short_setDuration that by blast
  have "all_short (upd_item a ?f (dc_heap s))" using s(1) sh by (simp add: all_short_def upd_item_nth)
  moreover have "hot_at (ev_types E) now (upd_item a ?f (dc_heap s)) \<subseteq> {..<L}"
    using s(2) a by (auto simp: hot_at_def upd_item_nth)
  ultimately show ?thesis using that False s(3) by (simp add: decay_due_def on_item_def)
qed

lemma all_due_returns:
  assumes T: "decay_types_ok (ev_types E)"
  shows "all_short (dc_heap s) \<Longrightarrow> hot_at (ev_types E) now (dc_heap s) \<subseteq> {..<L} \<Longrightarrow> L \<le> length (dc_heap s) \<Longrightarrow> set l \<subseteq> {..<L} \<Longrightarrow>
    decay_all (Suc L) E now l s \<noteq> None"
proof (induction l arbitrary: s)
  case (Cons a l)
  have "a < L" using Cons.prems(4) by simp
  then obtain s' where "decay_due (Suc L) E now a s = Some s'" "all_short (dc_heap s')"
    "hot_at (ev_types E) now (dc_heap s') \<subseteq> {..<L}" "L \<le> length (dc_heap s')"
    using due_returns [OF T Cons.prems(1-3)] by metis
  then show ?case using Cons.IH [of s'] Cons.prems(4) by simp
qed simp

text \<open>C32: \<open>startDecay\<close> returns from its calls into itself, and \<open>checkDecay\<close> runs to its end unless one of the items
  that were due has erased the entry the iterator has stopped at.\<close>

theorem decay_returns:
  assumes "decay_types_ok (ev_types E)" and "all_short (dc_heap s)" and "listed (dc_map s) \<subseteq> {..<length (dc_heap s)}"
  shows "startDecay (depth_bound s) E now a s \<noteq> None \<and>
    (checkDecay (depth_bound s) E now s = None \<longleftrightarrow>
      (\<exists>e m s'. dropWhile (\<lambda>e. fst e \<le> now) (dc_map s) = e # m \<and> fst e \<in> set (dc_freed s') \<and>
        decay_all (depth_bound s) E now (concat (map snd (takeWhile (\<lambda>e. fst e \<le> now) (dc_map s)))) (s\<lparr>dc_map := e # m, dc_freed := []\<rparr>) = Some s'))"
proof
  let ?L = "length (dc_heap s)" and ?T = "ev_types E"
  have "card (hot_at ?T now (dc_heap s)) \<le> ?L" using card_mono [OF finite_lessThan hot_less] by fastforce
  then show "startDecay (depth_bound s) E now a s \<noteq> None"
    using start_returns [OF assms(1,2), of now "depth_bound s" a] by (auto simp: depth_bound_def simp del: startDecay.simps)
  let ?due = "concat (map snd (takeWhile (\<lambda>e. fst e \<le> now) (dc_map s)))" and ?rest = "dropWhile (\<lambda>e. fst e \<le> now) (dc_map s)"
  have "set ?due \<subseteq> listed (dc_map s)" by (auto simp: listed_def dest: set_takeWhileD)
  then have "set ?due \<subseteq> {..<?L}" using assms(3) by blast
  then have "decay_all (depth_bound s) E now ?due (s\<lparr>dc_map := ?rest, dc_freed := []\<rparr>) \<noteq> None"
    unfolding depth_bound_def using all_due_returns [OF assms(1), of "s\<lparr>dc_map := ?rest, dc_freed := []\<rparr>" now ?L] assms(2) hot_less by simp
  then obtain s' where s': "decay_all (depth_bound s) E now ?due (s\<lparr>dc_map := ?rest, dc_freed := []\<rparr>) = Some s'" by blast
  show "checkDecay (depth_bound s) E now s = None \<longleftrightarrow>
      (\<exists>e m s'. ?rest = e # m \<and> fst e \<in> set (dc_freed s') \<and>
        decay_all (depth_bound s) E now ?due (s\<lparr>dc_map := e # m, dc_freed := []\<rparr>) = Some s')"
  proof (cases ?rest)
    case Nil
    show ?thesis using s' unfolding checkDecay_def Let_def Nil by simp
  next
    case (Cons e m)
    obtain t l where "e = (t, l)" by (cases e)
    then show ?thesis using s' unfolding checkDecay_def Let_def Cons by simp
  qed
qed

end
