(* ===== verification/Decay_Effects.thy ===== *)
theory Decay_Effects
  imports Decay_Ends
begin

text \<open>
  Where the decay of items does not do what it means to, and samples: a part that is split off a decaying stack
  never decays, an item that decays into a stack becomes a full one, and the table is read through an
  iterator to an entry that a decaying container has erased.
\<close>

text \<open>A part that is split off a decaying stack is a copy of it with all attributes, marked as decaying;
  it is not in the table, and \<open>startDecay\<close> takes it for one that is, so it never decays.\<close>

lemma split_part_never_decays:
  assumes "decaying (dc_heap s ! a)" and "split_off E0 a n (dc_heap s) = (Some b, h)" and "listed (dc_map s) \<subseteq> {..<length (dc_heap s)}"
    and "b < length h'" and "it_attrs (h' ! b) = it_attrs (h ! b)" and "canDecay (ev_types E) h' b"
  shows "startDecay (Suc k) E now b (s\<lparr>dc_heap := h'\<rparr>) = Some (s\<lparr>dc_heap := h'\<rparr>) \<and> b \<notin> listed (dc_map s)"
proof -
  let ?x = "dc_heap s ! a"
  obtain y where y: "clone (ev_types E0) ?x = Some y" "b = length (dc_heap s)" "h = dc_heap s @ [y\<lparr>it_count := ucast n\<rparr>]"
    using assms(2) by (auto simp: split_off_def split: option.splits)
  obtain l where l: "it_attrs ?x = Some l"
  proof (cases "it_attrs ?x")
    case None
    then have "\<not> decaying ?x" by (simp add: decaying_def getDecaying_def getInteger_def item_vector_def getAttributeValue_def
          attr_find_def DECAYING_TRUE_def)
    then show ?thesis using assms(1) by blast
  qed
  have "it_attrs y = Some l" using y(1) l by (auto simp: clone_def split: option.splits)
  then have "it_attrs (h' ! b) = it_attrs ?x" using assms(5) y l by simp
  then have d: "getDecaying (h' ! b) = DECAYING_TRUE"
    using assms(1) by (simp add: decaying_def getDecaying_def getInteger_def item_vector_def)
  then have "getDecaying (h' ! b) \<noteq> DECAYING_STOPPING" by (simp add: DECAYING_TRUE_def DECAYING_STOPPING_def)
  then have "startDecay (Suc k) E now b (s\<lparr>dc_heap := h'\<rparr>) = Some (s\<lparr>dc_heap := h'\<rparr>)"
    using d assms(4,6) by (simp add: Let_def)
  moreover have "b \<notin> listed (dc_map s)" using assms(3) y(2) by auto
  ultimately show ?thesis by blast
qed

lemma replace_new:
  assumes "getItemByIndex h c (int i) = Some r" and "r < length h" and "n < length h" and "r \<noteq> n" and "c < length h"
  shows "it_id (replaceThing T c i n h ! n) = it_id (h ! n)" and "it_count (replaceThing T c i n h ! n) = it_count (h ! n)"
    and "n \<in> set (itemlist (replaceThing T c i n h) c)"
proof -
  let ?h1 = "upd_item n (\<lambda>x. x\<lparr>it_parent := In_Box c\<rparr>) (upd_box c (\<lambda>b. b\<lparr>bx_items := (bx_items b)[i := n]\<rparr>) h)"
  let ?h2 = "updateItemWeight c (getWeight T (?h1 ! n) - getWeight T (?h1 ! r)) ?h1"
  have e: "replaceThing T c i n h = upd_item r (\<lambda>x. x\<lparr>it_parent := No_Parent\<rparr>) ?h2"
    using assms(1) by (simp add: replaceThing_def Let_def)
  have core: "same_core ?h1 ?h2" unfolding updateItemWeight_bump by (rule bump_core)
  have len: "length ?h1 = length h" "length ?h2 = length h" using core by (simp_all add: same_core_def)
  have n: "n < length ?h1" "c < length ?h1" using assms(3,5) len by simp_all
  have "it_id (?h1 ! n) = it_id (h ! n)" "it_count (?h1 ! n) = it_count (h ! n)"
    using assms(3) by (simp_all add: upd_item_nth upd_box_def)
  then show "it_id (replaceThing T c i n h ! n) = it_id (h ! n)" "it_count (replaceThing T c i n h ! n) = it_count (h ! n)"
    using same_core_facts(1,2) [OF core n(1)] assms(4) by (simp_all add: e upd_item_nth)
  have i: "i < length (itemlist h c)" using assms(1) by (simp add: getItemByIndex_def split: if_splits)
  then have "itemlist ?h1 c = (itemlist h c)[i := n]" using assms(5)
    by (cases "it_box (h ! c)"; cases "c = n") (simp_all add: itemlist_def upd_item_nth upd_box_def)
  then have "n \<in> set (itemlist ?h2 c)" using same_core_facts(5) [OF core n(2)] i by (simp add: set_update_memI)
  moreover have "itemlist (replaceThing T c i n h) c = itemlist ?h2 c" by (auto simp: e itemlist_def upd_item_nth)
  ultimately show "n \<in> set (itemlist (replaceThing T c i n h) c)" by simp
qed

text \<open>C33: an item in a container that decays into a stackable item of another kind becomes a stack of 255, whatever
  the size of a stack of the type, because the default count \<open>-1\<close> is 65535 in 16 bits.\<close>

theorem decays_into_full_stack:
  assumes c: "parent_box h a = Some c" "c < length h" "a < length h" "a \<in> set (itemlist h c)"
    and i: "it_id (h ! a) \<noteq> i" "ty_id (ev_types E i) \<noteq> 0" "dv_kind E (it_id (h ! a)) \<noteq> dv_kind E i"
      "(dv_topOrder E (it_id (h ! a)) \<noteq> 0) = (dv_topOrder E i \<noteq> 0)"
    and t: "ty_stackable (ev_types E i)" "\<not> ty_fluid (ev_types E i)" "\<not> ty_container (ev_types E i)" "ty_replacedBy (ev_types E i) = None"
  shows "\<exists>cs h'. transformItem E now a i h = Some (cs, h') \<and> length h \<in> set (itemlist h' c) \<and>
    it_id (h' ! length h) = i \<and> it_count (h' ! length h) = 255"
proof -
  let ?T = "ev_types E" and ?d = "getDuration now (h ! a)"
  have g: "getThingIndex h c a \<noteq> - 1" using c(4) getThingIndex_in by blast
  have y: "create_any E i 65535 = Some (new_item ?T i 65535)" using i t by (simp add: create_any_def create_item_def Let_def)
  define z where "z = (if sint ?d > 0 then setDuration ?d (new_item ?T i 65535) else new_item ?T i 65535)"
  have "it_id (new_item ?T i 65535) = i \<and> it_count (new_item ?T i 65535) = 255"
    using t by (simp add: new_item_def Let_def decay_ops_keep attr_ops_keep)
  then have z: "it_id z = i" "it_count z = 255" by (simp_all add: z_def decay_ops_keep)
  define k where "k = find_index (\<lambda>x. x = a) (itemlist h c)"
  have k: "k < length (itemlist h c)" "getThingIndex h c a = int k" using g by (auto simp: getThingIndex_def Let_def k_def split: if_splits)
  let ?h = "replaceThing ?T c k (length h) (h @ [z])"
  have "itemlist (h @ [z]) c = itemlist h c" using c(2) by (simp add: itemlist_def nth_append)
  moreover have "itemlist h c ! k = a" using find_index_nth [of "\<lambda>x. x = a" "itemlist h c"] k(1) unfolding k_def by blast
  ultimately have r: "getItemByIndex (h @ [z]) c (int k) = Some a" using k(1) by (simp add: getItemByIndex_def)
  have n: "length h \<in> set (itemlist ?h c)" "it_id (?h ! length h) = i" "it_count (?h ! length h) = 255"
    using replace_new [where T = ?T, OF r, of "length h"] c(2,3) z by simp_all
  have "\<exists>cs. item_transform E now c a i 65535 h = Some (cs, ?h)" using y k(2) by (simp add: item_transform_def Let_def z_def)
  then obtain cs where "item_transform E now c a i 65535 h = Some (cs, ?h)" by blast
  then have "transformItem E now a i h = Some (cs, ?h)" using c g i by (simp add: transformItem_def transform_reorder_def transform_in_place_def Let_def)
  then show ?thesis using n by blast
qed

subsection \<open>Samples\<close>

text \<open>A chest with an urn that decays after a tenth of a second and is gone, a candle (2) in the urn that takes twice
  as long, and a stack of embers (4) in the chest; a burning log (3) decays into embers.\<close>

definition decay_types :: types where
  "decay_types i = \<lparr>ty_id = i, ty_stackable = (i = 4), ty_stackSize = 100, ty_weight = 10, ty_pickupable = True, ty_movable = True,
     ty_fluid = False, ty_container = (i = 7 \<or> i = 1), ty_charges = 0, ty_quiver = False, ty_ammo = False,
     ty_decayTo = (if i = 3 then 4 else if i = 1 \<or> i = 2 \<or> i = 4 then 0 else - 1), ty_decayTime = (if i = 7 then 0 else 60),
     ty_stopTime = False, ty_transformEquipTo = 0, ty_transformDeEquipTo = 0, ty_replacedBy = None\<rparr>"

definition chest_env :: decay_env where
  "chest_env = \<lparr>ev_types = decay_types, ev_maxContainer = 100, ev_isOwner = (\<lambda>_ _. True), ev_hasCapacity = (\<lambda>_ _ _ _. True),
     dv_maxItems = (\<lambda>_. 20), dv_maxContainerItem = 100, dv_topOrder = (\<lambda>_. 0), dv_kind = (\<lambda>i. if i = 4 then 1 else 0), dv_group = (\<lambda>_. 0)\<rparr>"

definition chest_box :: "nat list \<Rightarrow> u32 \<Rightarrow> box" where
  "chest_box l w = \<lparr>bx_items = l, bx_maxSize = 20, bx_maxItems = 100, bx_unlocked = True, bx_pagination = False, bx_inbox = False, bx_weight = w\<rparr>"

definition chest_item :: "u16 \<Rightarrow> u8 \<Rightarrow> attr_vector option \<Rightarrow> parent \<Rightarrow> box option \<Rightarrow> item" where
  "chest_item i n v p b = \<lparr>it_id = i, it_count = n, it_attrs = v, it_parent = p, it_loadedFromMap = False, it_decayDisabled = False, it_box = b\<rparr>"

definition chest_world :: decay_world where
  "chest_world = \<lparr>dc_heap =
      [chest_item 7 1 None (On_Tile 0) (Some (chest_box [1, 3, 4] 1030)),
       chest_item 1 1 (Some [(DURATION, Int_Value 100)]) (In_Box 0) (Some (chest_box [2] 10)),
       chest_item 2 1 (Some [(DURATION, Int_Value 200)]) (In_Box 1) None,
       chest_item 3 1 (Some [(DURATION, Int_Value 300)]) (In_Box 0) None,
       chest_item 4 50 (Some [(DURATION, Int_Value 400)]) (In_Box 0) None],
     dc_map = [], dc_eventId = 0, dc_events = [], dc_fresh = 1, dc_freed = []\<rparr>"

text \<open>When the urn decays it stops its candle, whose entry is the one the iterator of \<open>checkDecay\<close> has stopped at.\<close>

lemma urn_erases_next_entry:
  "decay_run chest_env [D_Start 1, D_Start 2, D_Wait 150, D_Event 0] (0, chest_world) = None"
  by code_simp

lemma chest_types_ok: "decay_types_ok (ev_types chest_env)"
  by (simp add: decay_types_ok_def chest_env_def decay_types_def)

definition attrs_check :: "heap \<Rightarrow> bool" where
  "attrs_check h \<longleftrightarrow> list_all (\<lambda>x. distinct (map fst (item_vector x)) \<and>
     list_all (\<lambda>p. isAttributeInteger (fst p) \<longrightarrow> (case snd p of Int_Value _ \<Rightarrow> True | _ \<Rightarrow> False)) (item_vector x) \<and>
     0 \<le> getAttr64 DURATION x \<and> getAttr64 DURATION x < 2 ^ 31 \<and> getDecaying x = 0) h"

lemma attrs_check_ok:
  assumes "attrs_check h"
  shows "all_short h" and "\<forall>a<length h. good (h ! a) \<and> \<not> decaying (h ! a)"
proof -
  have x: "short (h ! a) \<and> getDecaying (h ! a) = 0" if "a < length h" for a
  proof -
    have "h ! a \<in> set h" using that by simp
    then have "distinct (map fst (item_vector (h ! a)))" "\<forall>p\<in>set (item_vector (h ! a)). isAttributeInteger (fst p) \<longrightarrow> (case snd p of Int_Value _ \<Rightarrow> True | _ \<Rightarrow> False)"
      "0 \<le> getAttr64 DURATION (h ! a)" "getAttr64 DURATION (h ! a) < 2 ^ 31" "getDecaying (h ! a) = 0"
      using assms unfolding attrs_check_def list_all_iff by blast+
    then show ?thesis unfolding short_def attrs_ok_def vector_ok_def by (fastforce split: attr_value.splits)
  qed
  then show "all_short h" by (simp add: all_short_def)
  show "\<forall>a<length h. good (h ! a) \<and> \<not> decaying (h ! a)"
  proof (intro allI impI)
    fix a assume "a < length h"
    from x [OF this] show "good (h ! a) \<and> \<not> decaying (h ! a)" by (auto simp: short_def good_def decaying_def DECAYING_TRUE_def)
  qed
qed

lemma chest_attrs: "attrs_check (dc_heap chest_world)"
  by code_simp


lemma decay_returns_witness: "startDecay 6 chest_env 100 1 chest_world \<noteq> None \<and> checkDecay 6 chest_env 100 chest_world \<noteq> None"
proof -
  have m: "dc_map chest_world = []" and b: "depth_bound chest_world = 6" by (simp_all add: chest_world_def depth_bound_def)
  have "listed (dc_map chest_world) \<subseteq> {..<length (dc_heap chest_world)}" by (simp add: m listed_def)
  from decay_returns [OF chest_types_ok attrs_check_ok(1) [OF chest_attrs] this, of 100 1] show ?thesis
    unfolding b m by simp
qed

lemma decays_into_full_stack_witness:
  "case transformItem chest_env 400 3 4 (dc_heap chest_world) of None \<Rightarrow> False
     | Some (cs, h) \<Rightarrow> it_count (h ! 5) = 255 \<and> 5 \<in> set (itemlist h 0)"
proof -
  let ?h = "dc_heap chest_world"
  have "parent_box ?h 3 = Some 0" "(0::nat) < length ?h" "(3::nat) < length ?h" "(3::nat) \<in> set (itemlist ?h 0)" "it_id (?h ! 3) = 3" "length ?h = 5"
    by (simp_all add: chest_world_def chest_item_def chest_box_def parent_box_def itemlist_def)
  moreover have "dv_kind chest_env 3 \<noteq> dv_kind chest_env 4" "ty_id (ev_types chest_env 4) \<noteq> 0" "ty_stackable (ev_types chest_env 4)"
    "\<not> ty_fluid (ev_types chest_env 4)" "\<not> ty_container (ev_types chest_env 4)" "ty_replacedBy (ev_types chest_env 4) = None"
    "dv_topOrder chest_env i = 0" for i
    by (simp_all add: chest_env_def decay_types_def)
  ultimately show ?thesis using decays_into_full_stack [of ?h 3 0 4 chest_env 400] by auto
qed

text \<open>Twenty of the embers, which are burning, are split off and put into the chest.\<close>

definition burning_world :: decay_world where
  "burning_world = the (startDecay 6 chest_env 0 4 chest_world)"

definition split_heap :: heap where
  "split_heap = snd (split_off (world_env.truncate chest_env) 4 20 (dc_heap burning_world))"

lemma split_part_never_decays_witness:
  "startDecay 6 chest_env 0 5 (burning_world\<lparr>dc_heap := insert_front 0 5 split_heap\<rparr>) = Some (burning_world\<lparr>dc_heap := insert_front 0 5 split_heap\<rparr>)
     \<and> 4 \<in> listed (dc_map burning_world) \<and> 5 \<notin> listed (dc_map burning_world)"
proof -
  have d: "getDecaying (dc_heap burning_world ! 4) = DECAYING_TRUE" by code_simp
  have f: "fst (split_off (world_env.truncate chest_env) 4 20 (dc_heap burning_world)) = Some 5" by code_simp
  have m: "dc_map burning_world = [(400, [4])]" by code_simp
  have l: "length (dc_heap burning_world) = 5" by code_simp
  have h: "5 < length (insert_front 0 5 split_heap)" "it_attrs (insert_front 0 5 split_heap ! 5) = it_attrs (split_heap ! 5)" by code_simp+
  have c: "canDecay (ev_types chest_env) (insert_front 0 5 split_heap) 5" by code_simp
  have "split_off (world_env.truncate chest_env) 4 20 (dc_heap burning_world) = (Some 5, split_heap)"
    unfolding split_heap_def using f by (metis prod.collapse)
  moreover have "listed (dc_map burning_world) \<subseteq> {..<length (dc_heap burning_world)}" by (simp add: m l listed_def)
  moreover have "Suc 5 = 6" by simp
  ultimately show ?thesis
    using split_part_never_decays [of burning_world 4 "world_env.truncate chest_env" 20 5 split_heap "insert_front 0 5 split_heap" chest_env 5 0] d h c
    unfolding m by (simp add: decaying_def listed_def del: startDecay.simps)
qed

end
