(* ===== verification/Inventory.thy ===== *)
theory Inventory
  imports Item_Moves
begin

text \<open>
  What a player carries (\<open>creatures/players/player\<close>, the functions of a \<open>Cylinder\<close>): the slots of the
  body, what may be put where, where an item goes that is put anywhere, and the weight of it all. The
  scripts that are asked when an item is worn are a predicate of the environment; clients are not told.
\<close>

subsection \<open>Slots\<close>

definition CONST_SLOT_WHEREEVER :: int where "CONST_SLOT_WHEREEVER = 0"
definition CONST_SLOT_HEAD :: int where "CONST_SLOT_HEAD = 1"
definition CONST_SLOT_NECKLACE :: int where "CONST_SLOT_NECKLACE = 2"
definition CONST_SLOT_BACKPACK :: int where "CONST_SLOT_BACKPACK = 3"
definition CONST_SLOT_ARMOR :: int where "CONST_SLOT_ARMOR = 4"
definition CONST_SLOT_RIGHT :: int where "CONST_SLOT_RIGHT = 5"
definition CONST_SLOT_LEFT :: int where "CONST_SLOT_LEFT = 6"
definition CONST_SLOT_LEGS :: int where "CONST_SLOT_LEGS = 7"
definition CONST_SLOT_FEET :: int where "CONST_SLOT_FEET = 8"
definition CONST_SLOT_RING :: int where "CONST_SLOT_RING = 9"
definition CONST_SLOT_AMMO :: int where "CONST_SLOT_AMMO = 10"
definition CONST_SLOT_STORE_INBOX :: int where "CONST_SLOT_STORE_INBOX = 11"

definition SLOTP_HEAD :: u16 where "SLOTP_HEAD = 1"
definition SLOTP_NECKLACE :: u16 where "SLOTP_NECKLACE = 2"
definition SLOTP_BACKPACK :: u16 where "SLOTP_BACKPACK = 4"
definition SLOTP_ARMOR :: u16 where "SLOTP_ARMOR = 8"
definition SLOTP_RIGHT :: u16 where "SLOTP_RIGHT = 16"
definition SLOTP_LEFT :: u16 where "SLOTP_LEFT = 32"
definition SLOTP_LEGS :: u16 where "SLOTP_LEGS = 64"
definition SLOTP_FEET :: u16 where "SLOTP_FEET = 128"
definition SLOTP_RING :: u16 where "SLOTP_RING = 256"
definition SLOTP_AMMO :: u16 where "SLOTP_AMMO = 512"
definition SLOTP_TWO_HAND :: u16 where "SLOTP_TWO_HAND = 2048"

datatype weapon_type = WEAPON_NONE | WEAPON_SWORD | WEAPON_CLUB | WEAPON_AXE | WEAPON_SHIELD | WEAPON_DISTANCE | WEAPON_WAND
  | WEAPON_AMMO | WEAPON_MISSILE

record inv_env = world_env +
  iv_slotPosition :: "u16 \<Rightarrow> u16"
  iv_weaponType :: "u16 \<Rightarrow> weapon_type"
  iv_onEquip :: "nat \<Rightarrow> u16 \<Rightarrow> int \<Rightarrow> bool"

text \<open>\<open>cr_capacity\<close> is what \<open>getCapacity\<close> gives, \<open>cr_weight\<close> the weight that was computed last.\<close>

record carrier =
  cr_id :: nat
  cr_slots :: "int \<Rightarrow> nat option"
  cr_cannotPickup :: bool
  cr_infinite :: bool
  cr_capacity :: u32
  cr_weight :: u32
  cr_tradeItem :: "nat option"

text \<open>\<open>getInventoryItem\<close>\<close>

definition slot_item :: "carrier \<Rightarrow> int \<Rightarrow> nat option" where
  "slot_item p i = (if CONST_SLOT_HEAD \<le> i \<and> i \<le> CONST_SLOT_STORE_INBOX then cr_slots p i else None)"

definition slot_list :: "int list" where
  "slot_list = [1, 2, 3, 4, 5, 6, 7, 8, 9, 10, 11]"

definition inv_thingIndex :: "carrier \<Rightarrow> nat \<Rightarrow> int" where
  "inv_thingIndex p a = (case filter (\<lambda>i. slot_item p i = Some a) slot_list of [] \<Rightarrow> - 1 | i # _ \<Rightarrow> i)"

definition has_flag :: "inv_env \<Rightarrow> heap \<Rightarrow> nat \<Rightarrow> u16 \<Rightarrow> bool" where
  "has_flag E h a f \<longleftrightarrow> iv_slotPosition E (it_id (h ! a)) AND f \<noteq> 0"

definition weapon_of :: "inv_env \<Rightarrow> heap \<Rightarrow> nat \<Rightarrow> weapon_type" where
  "weapon_of E h a = iv_weaponType E (it_id (h ! a))"

definition is_quiver :: "inv_env \<Rightarrow> heap \<Rightarrow> nat \<Rightarrow> bool" where
  "is_quiver E h a = ty_quiver (ev_types E (it_id (h ! a)))"

subsection \<open>Capacity\<close>

definition getFreeCapacity :: "carrier \<Rightarrow> u32" where
  "getFreeCapacity p = (if cr_cannotPickup p then 0 else if cr_infinite p then - 1
     else (let d = cr_capacity p - cr_weight p in if sint d < 0 then 0 else d))"

text \<open>The top parent of an item that lies nowhere is the item.\<close>

definition carried_by :: "heap \<Rightarrow> nat \<Rightarrow> nat \<Rightarrow> bool" where
  "carried_by h p a \<longleftrightarrow> it_parent (h ! last (chain h a)) = On_Player p"

definition hasCapacity :: "types \<Rightarrow> heap \<Rightarrow> carrier \<Rightarrow> nat \<Rightarrow> u32 \<Rightarrow> bool" where
  "hasCapacity T h p a count \<longleftrightarrow>
     \<not> cr_cannotPickup p \<and> (cr_infinite p \<or> carried_by h (cr_id p) a \<or>
       (let w = (if is_box h a then getWeight T (h ! a) else getBaseWeight T (h ! a))
        in (if isStackable T (h ! a) then w * count else w) \<le> getFreeCapacity p))"

definition updateInventoryWeight :: "types \<Rightarrow> heap \<Rightarrow> carrier \<Rightarrow> carrier" where
  "updateInventoryWeight T h p = (if cr_infinite p then p
     else p\<lparr>cr_weight := sum_list (map (\<lambda>i. case slot_item p i of None \<Rightarrow> 0 | Some a \<Rightarrow> getWeight T (h ! a)) slot_list)\<rparr>)"

subsection \<open>What may be put where\<close>

definition dress_ret :: "inv_env \<Rightarrow> heap \<Rightarrow> nat \<Rightarrow> return_value" where
  "dress_ret E h a =
     (if has_flag E h a SLOTP_HEAD \<or> has_flag E h a SLOTP_NECKLACE \<or> has_flag E h a SLOTP_BACKPACK \<or> has_flag E h a SLOTP_ARMOR \<or>
        has_flag E h a SLOTP_LEGS \<or> has_flag E h a SLOTP_FEET \<or> has_flag E h a SLOTP_RING then RET_CANNOTBEDRESSED
      else if has_flag E h a SLOTP_TWO_HAND then RET_PUTTHISOBJECTINBOTHHANDS
      else if has_flag E h a SLOTP_RIGHT \<or> has_flag E h a SLOTP_LEFT then RET_CANNOTBEDRESSED
      else RET_NOERROR)"

text \<open>An item next to the one in the other hand.\<close>

definition beside :: "inv_env \<Rightarrow> heap \<Rightarrow> nat \<Rightarrow> u32 \<Rightarrow> nat \<Rightarrow> return_value" where
  "beside E h a count b = (let type = weapon_of E h a; other = weapon_of E h b in
     if has_flag E h b SLOTP_TWO_HAND then RET_DROPTWOHANDEDITEM
     else if a = b \<and> count = ucast (it_count (h ! a)) then RET_NOERROR
     else if other = WEAPON_SHIELD \<and> type = WEAPON_SHIELD then RET_CANONLYUSEONESHIELD
     else if other = WEAPON_NONE \<or> type = WEAPON_NONE \<or> other = WEAPON_SHIELD \<or> other = WEAPON_AMMO \<or> type = WEAPON_SHIELD \<or> type = WEAPON_AMMO
     then RET_NOERROR
     else RET_CANONLYUSEONEWEAPON)"

definition right_hand :: "inv_env \<Rightarrow> heap \<Rightarrow> carrier \<Rightarrow> nat \<Rightarrow> u32 \<Rightarrow> return_value" where
  "right_hand E h p a count =
     (if has_flag E h a SLOTP_RIGHT then
        (if weapon_of E h a \<noteq> WEAPON_SHIELD \<and> \<not> is_quiver E h a then RET_CANNOTBEDRESSED
         else case slot_item p CONST_SLOT_LEFT of
             None \<Rightarrow> RET_NOERROR
           | Some l \<Rightarrow> if has_flag E h l SLOTP_TWO_HAND \<or> has_flag E h a SLOTP_TWO_HAND
               then (if is_quiver E h a \<and> weapon_of E h l = WEAPON_DISTANCE then RET_NOERROR else RET_BOTHHANDSNEEDTOBEFREE)
               else RET_NOERROR)
      else if has_flag E h a SLOTP_TWO_HAND then
        (case slot_item p CONST_SLOT_LEFT of Some l \<Rightarrow> if l \<noteq> a then RET_BOTHHANDSNEEDTOBEFREE else RET_NOERROR | None \<Rightarrow> RET_NOERROR)
      else (case slot_item p CONST_SLOT_LEFT of None \<Rightarrow> RET_NOERROR | Some l \<Rightarrow> beside E h a count l))"

definition left_hand :: "inv_env \<Rightarrow> heap \<Rightarrow> carrier \<Rightarrow> nat \<Rightarrow> u32 \<Rightarrow> return_value" where
  "left_hand E h p a count =
     (if has_flag E h a SLOTP_LEFT then
        (let type = weapon_of E h a in
         if type = WEAPON_NONE \<or> type = WEAPON_SHIELD \<or> type = WEAPON_AMMO then RET_CANNOTBEDRESSED
         else case slot_item p CONST_SLOT_RIGHT of
             None \<Rightarrow> RET_NOERROR
           | Some r \<Rightarrow> if has_flag E h a SLOTP_TWO_HAND
               then (if type = WEAPON_DISTANCE \<and> is_quiver E h r then RET_NOERROR else RET_BOTHHANDSNEEDTOBEFREE)
               else RET_NOERROR)
      else if has_flag E h a SLOTP_TWO_HAND then
        (case slot_item p CONST_SLOT_RIGHT of Some r \<Rightarrow> if r \<noteq> a then RET_BOTHHANDSNEEDTOBEFREE else RET_NOERROR | None \<Rightarrow> RET_NOERROR)
      else (case slot_item p CONST_SLOT_RIGHT of None \<Rightarrow> RET_NOERROR | Some r \<Rightarrow> beside E h a count r))"

definition dressed :: "inv_env \<Rightarrow> heap \<Rightarrow> nat \<Rightarrow> u16 \<Rightarrow> return_value" where
  "dressed E h a f = (if has_flag E h a f then RET_NOERROR else dress_ret E h a)"

definition slot_ret :: "inv_env \<Rightarrow> heap \<Rightarrow> carrier \<Rightarrow> int \<Rightarrow> nat \<Rightarrow> u32 \<Rightarrow> return_value" where
  "slot_ret E h p index a count =
     (if index = CONST_SLOT_HEAD then dressed E h a SLOTP_HEAD
      else if index = CONST_SLOT_NECKLACE then dressed E h a SLOTP_NECKLACE
      else if index = CONST_SLOT_BACKPACK then dressed E h a SLOTP_BACKPACK
      else if index = CONST_SLOT_ARMOR then dressed E h a SLOTP_ARMOR
      else if index = CONST_SLOT_RIGHT then right_hand E h p a count
      else if index = CONST_SLOT_LEFT then left_hand E h p a count
      else if index = CONST_SLOT_LEGS then dressed E h a SLOTP_LEGS
      else if index = CONST_SLOT_FEET then dressed E h a SLOTP_FEET
      else if index = CONST_SLOT_RING then dressed E h a SLOTP_RING
      else if index = CONST_SLOT_AMMO then dressed E h a SLOTP_AMMO
      else if index = CONST_SLOT_WHEREEVER \<or> index = - 1 then RET_NOTENOUGHROOM
      else RET_NOTPOSSIBLE)"

definition inv_queryAdd :: "inv_env \<Rightarrow> heap \<Rightarrow> carrier \<Rightarrow> int \<Rightarrow> nat \<Rightarrow> u32 \<Rightarrow> move_flags \<Rightarrow> return_value" where
  "inv_queryAdd E h p index a count fl =
     (let T = ev_types E; ret = slot_ret E h p index a count in
      if getOwnerId h a \<noteq> 0 \<and> \<not> ev_isOwner E (cr_id p) (getOwnerId h a) then RET_ITEMISNOTYOURS
      else if fl_childIsOwner fl then (if fl_noLimit fl \<or> hasCapacity T h p a count then RET_NOERROR else RET_NOTENOUGHCAPACITY)
      else if \<not> ty_pickupable (T (it_id (h ! a))) then RET_CANNOTPICKUP
      else if ret = RET_NOERROR \<or> ret = RET_NOTENOUGHROOM then
        (if (case slot_item p index of Some b \<Rightarrow> \<not> isStackable T (h ! b) \<or> it_id (h ! b) \<noteq> it_id (h ! a) | None \<Rightarrow> False)
         then RET_NEEDEXCHANGE
         else if \<not> hasCapacity T h p a count then RET_NOTENOUGHCAPACITY
         else if \<not> iv_onEquip E (cr_id p) (it_id (h ! a)) index then RET_CANNOTBEDRESSED
         else ret)
      else ret)"

subsection \<open>How much goes in\<close>

definition box_room :: "inv_env \<Rightarrow> heap \<Rightarrow> nat \<Rightarrow> move_flags \<Rightarrow> nat \<Rightarrow> u32" where
  "box_room E h a fl b = snd (queryMaxCount (world_env.truncate E) h b INDEX_WHEREEVER a (ucast (it_count (h ! a))) fl)"

definition slot_room :: "inv_env \<Rightarrow> heap \<Rightarrow> carrier \<Rightarrow> nat \<Rightarrow> move_flags \<Rightarrow> int \<Rightarrow> u32" where
  "slot_room E h p a fl i = (let T = ev_types E in case slot_item p i of
       Some b \<Rightarrow>
         if is_box h b then sum_list (map (box_room E h a fl) (b # filter (is_box h) (getItems h b)))
         else if isStackable T (h ! b) \<and> heap_equals h a b \<and> unat (it_count (h ! b)) < getStackSize T (h ! b) then
           (let r = of_nat (getStackSize T (h ! b) - unat (it_count (h ! b)))
            in if inv_queryAdd E h p i a r fl = RET_NOERROR then r else 0)
         else 0
     | None \<Rightarrow> if inv_queryAdd E h p i a (ucast (it_count (h ! a))) fl = RET_NOERROR
         then (if isStackable T (h ! a) then of_nat (getStackSize T (h ! a)) else 1) else 0)"

text \<open>The callers start \<open>maxQueryCount\<close> with 0.\<close>

definition inv_queryMaxCount :: "inv_env \<Rightarrow> heap \<Rightarrow> carrier \<Rightarrow> int \<Rightarrow> nat \<Rightarrow> u32 \<Rightarrow> move_flags \<Rightarrow> return_value \<times> u32" where
  "inv_queryMaxCount E h p index a count fl =
     (let T = ev_types E; result = (\<lambda>m. (if m < count then RET_NOTENOUGHROOM else RET_NOERROR, m)) in
      if index = INDEX_WHEREEVER then result (sum_list (map (slot_room E h p a fl) slot_list))
      else case slot_item p index of
          Some b \<Rightarrow> result (if isStackable T (h ! b) \<and> heap_equals h a b \<and> unat (it_count (h ! b)) < getStackSize T (h ! b)
            then of_nat (getStackSize T (h ! b) - unat (it_count (h ! b))) else 0)
        | None \<Rightarrow> if inv_queryAdd E h p index a count fl = RET_NOERROR
            then (RET_NOERROR, if isStackable T (h ! a) then of_nat (getStackSize T (h ! a)) else 1)
            else result 0)"

definition inv_queryRemove :: "types \<Rightarrow> heap \<Rightarrow> carrier \<Rightarrow> nat \<Rightarrow> u32 \<Rightarrow> move_flags \<Rightarrow> return_value" where
  "inv_queryRemove T h p a count fl =
     (if inv_thingIndex p a = - 1 then RET_NOTPOSSIBLE
      else if count = 0 \<or> (isStackable T (h ! a) \<and> count > ucast (it_count (h ! a))) then RET_NOTPOSSIBLE
      else if \<not> ty_movable (T (it_id (h ! a))) \<and> \<not> fl_ignoreNotMovable fl then RET_NOTMOVABLE
      else RET_NOERROR)"

subsection \<open>Where an item goes\<close>

datatype cylinder = Cyl_Player | Cyl_Box nat

text \<open>The slots are searched first; a place found there, or the containers that were seen.\<close>

fun dest_slots :: "inv_env \<Rightarrow> heap \<Rightarrow> carrier \<Rightarrow> nat \<Rightarrow> move_flags \<Rightarrow> int list \<Rightarrow> nat list \<Rightarrow> (int \<times> nat option) + nat list" where
  "dest_slots E h p a fl [] boxes = Inr boxes"
| "dest_slots E h p a fl (i # is) boxes =
     (let T = ev_types E; count = ucast (it_count (h ! a)) in case slot_item p i of
        None \<Rightarrow> if inv_queryAdd E h p i a count fl = RET_NOERROR then Inl (i, None) else dest_slots E h p a fl is boxes
      | Some b \<Rightarrow>
          if cr_tradeItem p = Some b \<or> b = a then dest_slots E h p a fl is boxes
          else if \<not> fl_ignoreAutoStack fl \<and> isStackable T (h ! a) \<and> inv_queryAdd E h p i a count no_flags = RET_NOERROR \<and> stacks_with T h b a
          then Inl (i, Some b)
          else dest_slots E h p a fl is (if is_box h b then boxes @ [b] else boxes))"

text \<open>The place in a container for an item that is not stacked: \<open>n\<close> is unsigned, and the loop ends at 0.\<close>

definition place_at :: "heap \<Rightarrow> nat \<Rightarrow> nat \<Rightarrow> int" where
  "place_at h b n = sint (bx_maxSize (box_of h b) - of_nat n)"

fun scan_places :: "inv_env \<Rightarrow> heap \<Rightarrow> nat \<Rightarrow> nat \<Rightarrow> move_flags \<Rightarrow> nat \<Rightarrow> int option" where
  "scan_places E h b a fl 0 = None"
| "scan_places E h b a fl (Suc n) =
     (if queryAdd (world_env.truncate E) h b (place_at h b (Suc n)) a (ucast (it_count (h ! a))) fl = RET_NOERROR
      then Some (place_at h b (Suc n)) else scan_places E h b a fl n)"

definition free_places :: "heap \<Rightarrow> nat \<Rightarrow> nat" where
  "free_places h b = unat (bx_maxSize (box_of h b) - of_nat (length (itemlist h b)) :: u32)"

text \<open>The stack in a container, or the number of items that were looked at and the containers among them.\<close>

fun scan_stacks :: "types \<Rightarrow> heap \<Rightarrow> carrier \<Rightarrow> nat \<Rightarrow> nat list \<Rightarrow> nat \<Rightarrow> nat list \<Rightarrow> (nat \<times> nat) + (nat \<times> nat list)" where
  "scan_stacks T h p a [] n boxes = Inr (n, boxes)"
| "scan_stacks T h p a (x # xs) n boxes =
     (if cr_tradeItem p = Some x \<or> x = a then scan_stacks T h p a xs n boxes
      else if stacks_with T h x a then Inl (n, x)
      else scan_stacks T h p a xs (Suc n) (if is_box h x then boxes @ [x] else boxes))"

text \<open>The containers are searched in breadth. The first argument bounds the loop; \<open>None\<close> is a loop that has not ended,
  and \<open>Cyl_Player\<close> in the result that no place was found.\<close>

fun dest_boxes :: "nat \<Rightarrow> inv_env \<Rightarrow> heap \<Rightarrow> carrier \<Rightarrow> nat \<Rightarrow> move_flags \<Rightarrow> int \<Rightarrow> nat list \<Rightarrow> (cylinder \<times> int \<times> nat option) option" where
  "dest_boxes 0 E h p a fl index boxes = None"
| "dest_boxes (Suc k) E h p a fl index [] = Some (Cyl_Player, index, None)"
| "dest_boxes (Suc k) E h p a fl index (b # bs) =
     (let T = ev_types E in
      if fl_ignoreAutoStack fl \<or> \<not> isStackable T (h ! a) then
        (case scan_places E h b a fl (free_places h b) of
           Some i \<Rightarrow> Some (Cyl_Box b, i, None)
         | None \<Rightarrow> dest_boxes k E h p a fl index (bs @ filter (is_box h) (itemlist h b)))
      else (case scan_stacks T h p a (itemlist h b) 0 [] of
           Inl (n, x) \<Rightarrow> Some (Cyl_Box b, int n, Some x)
         | Inr (n, boxes) \<Rightarrow>
             if n < unat (bx_maxSize (box_of h b)) \<and>
                queryAdd (world_env.truncate E) h b (int n) a (ucast (it_count (h ! a))) fl = RET_NOERROR
             then Some (Cyl_Box b, int n, None)
             else dest_boxes k E h p a fl index (bs @ boxes)))"

definition inv_queryDestination :: "inv_env \<Rightarrow> heap \<Rightarrow> carrier \<Rightarrow> int \<Rightarrow> nat \<Rightarrow> nat option \<Rightarrow> move_flags \<Rightarrow>
    (cylinder \<times> int \<times> nat option) option" where
  "inv_queryDestination E h p index a dest fl =
     (if index = 0 \<or> index = INDEX_WHEREEVER then
        (case dest_slots E h p a fl (butlast slot_list) [] of
           Inl (i, x) \<Rightarrow> Some (Cyl_Player, i, x)
         | Inr boxes \<Rightarrow> dest_boxes (Suc (length h)) E h p a fl index boxes)
      else
        (let d = (case slot_item p index of Some b \<Rightarrow> Some b | None \<Rightarrow> dest);
             ammo = (case d of Some b \<Rightarrow> is_quiver E h b \<and> ty_ammo (ev_types E (it_id (h ! a))) | None \<Rightarrow> False)
         in if index = CONST_SLOT_RIGHT \<and> \<not> ammo then Some (Cyl_Player, index, d)
            else case slot_item p index of
                Some b \<Rightarrow> if is_box h b then Some (Cyl_Box b, INDEX_WHEREEVER, None) else Some (Cyl_Player, index, d)
              | None \<Rightarrow> Some (Cyl_Player, index, d)))"

subsection \<open>Putting on and taking off\<close>

definition inv_addThing :: "int \<Rightarrow> nat \<Rightarrow> carrier \<times> heap \<Rightarrow> carrier \<times> heap" where
  "inv_addThing index a s = (case s of (p, h) \<Rightarrow>
     if index < CONST_SLOT_HEAD \<or> index > CONST_SLOT_STORE_INBOX then s
     else (p\<lparr>cr_slots := (cr_slots p)(index := Some a)\<rparr>, upd_item a (\<lambda>x. x\<lparr>it_parent := On_Player (cr_id p)\<rparr>) h))"

definition inv_updateThing :: "types \<Rightarrow> nat \<Rightarrow> u16 \<Rightarrow> u32 \<Rightarrow> carrier \<times> heap \<Rightarrow> carrier \<times> heap" where
  "inv_updateThing T a i count s = (case s of (p, h) \<Rightarrow>
     if inv_thingIndex p a = - 1 then s else (p, upd_item a (\<lambda>x. setSubType T (ucast count) (setID T i x)) h))"

text \<open>The item that is replaced keeps the player as its parent.\<close>

definition inv_replaceThing :: "nat \<Rightarrow> nat \<Rightarrow> carrier \<times> heap \<Rightarrow> carrier \<times> heap" where
  "inv_replaceThing index a s = (case s of (p, h) \<Rightarrow> (case slot_item p (int index) of
       None \<Rightarrow> s
     | Some _ \<Rightarrow> (p\<lparr>cr_slots := (cr_slots p)(int index := Some a)\<rparr>, upd_item a (\<lambda>x. x\<lparr>it_parent := On_Player (cr_id p)\<rparr>) h)))"

definition inv_removeThing :: "types \<Rightarrow> nat \<Rightarrow> u32 \<Rightarrow> carrier \<times> heap \<Rightarrow> carrier \<times> heap" where
  "inv_removeThing T a count s = (case s of (p, h) \<Rightarrow> (let i = inv_thingIndex p a in
     if i = - 1 then s
     else if isStackable T (h ! a) \<and> count \<noteq> ucast (it_count (h ! a)) then
       (let d = ucast (it_count (h ! a)) - count in (p, upd_item a (\<lambda>x. x\<lparr>it_count := ucast (if sint d < 0 then 0 else d)\<rparr>) h))
     else (p\<lparr>cr_slots := (cr_slots p)(i := None)\<rparr>, upd_item a (\<lambda>x. x\<lparr>it_parent := No_Parent\<rparr>) h)))"

text \<open>\<open>getItemTypeCount\<close> without a subtype, over everything that is carried.\<close>

definition carried_items :: "heap \<Rightarrow> carrier \<Rightarrow> nat list" where
  "carried_items h p = concat (map (\<lambda>i. case slot_item p i of None \<Rightarrow> [] | Some b \<Rightarrow> b # (if is_box h b then getItems h b else [])) slot_list)"

definition inv_itemTypeCount :: "heap \<Rightarrow> carrier \<Rightarrow> u16 \<Rightarrow> u32" where
  "inv_itemTypeCount h p i = sum_list (map (\<lambda>a. ucast (it_count (h ! a))) (filter (\<lambda>a. it_id (h ! a) = i) (carried_items h p)))"

end
