(* ===== verification/Cylinders.thy ===== *)
theory Cylinders
  imports Inventory
begin

text \<open>
  Items that move between players and containers (\<open>Game::internalMoveItem\<close>, \<open>internalAddItem\<close> and
  \<open>internalRemoveItem\<close> with the calls of a \<open>Cylinder\<close> that a player and a container answer). Tiles are left out: with one
  the functions below are \<open>None\<close>, as they are when a null pointer would be followed.
\<close>

subsection \<open>Players and containers as cylinders\<close>

datatype place = Pl_Player nat | Pl_Box nat

record place_world =
  pw_heap :: heap
  pw_carriers :: "nat \<Rightarrow> carrier"
  pw_decay :: "decay_call list"

text \<open>A container in the hands of a player asks that player for the capacity.\<close>

definition held_env :: "inv_env \<Rightarrow> (nat \<Rightarrow> carrier) \<Rightarrow> inv_env" where
  "held_env E cs = E\<lparr>ev_hasCapacity := (\<lambda>p a n h. hasCapacity (ev_types E) h (cs p) a n)\<rparr>"

definition box_env :: "inv_env \<Rightarrow> place_world \<Rightarrow> world_env" where
  "box_env E W = world_env.truncate (held_env E (pw_carriers W))"

definition pl_item :: "place \<Rightarrow> nat option" where
  "pl_item pl = (case pl of Pl_Player _ \<Rightarrow> None | Pl_Box b \<Rightarrow> Some b)"

definition pl_thingIndex :: "place_world \<Rightarrow> place \<Rightarrow> nat \<Rightarrow> int" where
  "pl_thingIndex W pl a = (case pl of Pl_Player p \<Rightarrow> inv_thingIndex (pw_carriers W p) a | Pl_Box b \<Rightarrow> getThingIndex (pw_heap W) b a)"

definition pl_queryAdd :: "inv_env \<Rightarrow> place_world \<Rightarrow> place \<Rightarrow> int \<Rightarrow> nat \<Rightarrow> u32 \<Rightarrow> move_flags \<Rightarrow> return_value" where
  "pl_queryAdd E W pl i a count fl = (case pl of
       Pl_Player p \<Rightarrow> inv_queryAdd (held_env E (pw_carriers W)) (pw_heap W) (pw_carriers W p) i a count fl
     | Pl_Box b \<Rightarrow> queryAdd (box_env E W) (pw_heap W) b i a count fl)"

definition pl_queryMaxCount :: "inv_env \<Rightarrow> place_world \<Rightarrow> place \<Rightarrow> int \<Rightarrow> nat \<Rightarrow> u32 \<Rightarrow> move_flags \<Rightarrow> return_value \<times> u32" where
  "pl_queryMaxCount E W pl i a count fl = (case pl of
       Pl_Player p \<Rightarrow> inv_queryMaxCount (held_env E (pw_carriers W)) (pw_heap W) (pw_carriers W p) i a count fl
     | Pl_Box b \<Rightarrow> queryMaxCount (box_env E W) (pw_heap W) b i a count fl)"

definition pl_queryRemove :: "inv_env \<Rightarrow> place_world \<Rightarrow> place \<Rightarrow> nat \<Rightarrow> u32 \<Rightarrow> move_flags \<Rightarrow> return_value" where
  "pl_queryRemove E W pl a count fl = (case pl of
       Pl_Player p \<Rightarrow> inv_queryRemove (ev_types E) (pw_heap W) (pw_carriers W p) a count fl
     | Pl_Box b \<Rightarrow> queryRemove (ev_types E) (pw_heap W) b a count fl)"

definition pl_queryDestination :: "inv_env \<Rightarrow> place_world \<Rightarrow> place \<Rightarrow> int \<Rightarrow> nat \<Rightarrow> nat option \<Rightarrow> move_flags \<Rightarrow>
    (place \<times> int \<times> nat option) option" where
  "pl_queryDestination E W pl i a dest fl = (case pl of
       Pl_Player p \<Rightarrow>
         (case inv_queryDestination (held_env E (pw_carriers W)) (pw_heap W) (pw_carriers W p) i a dest fl of
            None \<Rightarrow> None
          | Some (c, j, x) \<Rightarrow> Some ((case c of Cyl_Player \<Rightarrow> Pl_Player p | Cyl_Box b \<Rightarrow> Pl_Box b), j, x))
     | Pl_Box b \<Rightarrow> (case queryDestination (ev_types E) (pw_heap W) b i a dest fl of (s, j, x) \<Rightarrow> Some (Pl_Box s, j, x)))"

definition on_carrier :: "nat \<Rightarrow> (carrier \<times> heap \<Rightarrow> carrier \<times> heap) \<Rightarrow> place_world \<Rightarrow> place_world" where
  "on_carrier p f W = (case f (pw_carriers W p, pw_heap W) of (q, h) \<Rightarrow> W\<lparr>pw_carriers := (pw_carriers W)(p := q), pw_heap := h\<rparr>)"

definition pl_addThing :: "inv_env \<Rightarrow> place \<Rightarrow> int \<Rightarrow> nat \<Rightarrow> place_world \<Rightarrow> place_world" where
  "pl_addThing E pl i a W = (case pl of
       Pl_Player p \<Rightarrow> on_carrier p (inv_addThing i a) W
     | Pl_Box b \<Rightarrow> W\<lparr>pw_heap := addThing (ev_types E) b i a (pw_heap W)\<rparr>)"

text \<open>\<open>addThing\<close> without an index does nothing for a player.\<close>

definition pl_addAnywhere :: "inv_env \<Rightarrow> place \<Rightarrow> nat \<Rightarrow> place_world \<Rightarrow> place_world" where
  "pl_addAnywhere E pl a W = (case pl of
       Pl_Player _ \<Rightarrow> W
     | Pl_Box b \<Rightarrow> W\<lparr>pw_heap := addThing (ev_types E) b 0 a (pw_heap W)\<rparr>)"

definition pl_updateThing :: "inv_env \<Rightarrow> place \<Rightarrow> nat \<Rightarrow> u16 \<Rightarrow> u32 \<Rightarrow> place_world \<Rightarrow> place_world" where
  "pl_updateThing E pl a i count W = (case pl of
       Pl_Player p \<Rightarrow> on_carrier p (inv_updateThing (ev_types E) a i count) W
     | Pl_Box b \<Rightarrow> W\<lparr>pw_heap := updateThing (ev_types E) b a i count (pw_heap W)\<rparr>)"

definition pl_removeThing :: "inv_env \<Rightarrow> place \<Rightarrow> nat \<Rightarrow> u32 \<Rightarrow> place_world \<Rightarrow> place_world" where
  "pl_removeThing E pl a count W = (case pl of
       Pl_Player p \<Rightarrow> on_carrier p (inv_removeThing (ev_types E) a count) W
     | Pl_Box b \<Rightarrow> W\<lparr>pw_heap := removeThing (ev_types E) b a count (pw_heap W)\<rparr>)"

text \<open>The notification after an item has been added or removed reaches the player at the top, who weighs everything again.\<close>

definition pl_notify :: "inv_env \<Rightarrow> place \<Rightarrow> place_world \<Rightarrow> place_world" where
  "pl_notify E pl W =
     (case (case pl of Pl_Player p \<Rightarrow> Some p
        | Pl_Box b \<Rightarrow> (case getTopParent (pw_heap W) b of Top_Player p \<Rightarrow> Some p | Top_Box _ \<Rightarrow> None)) of
        None \<Rightarrow> W
      | Some p \<Rightarrow> on_carrier p (\<lambda>(q, h). (updateInventoryWeight (ev_types E) h q, h)) W)"

definition pl_decaying :: "(nat \<Rightarrow> decay_call) \<Rightarrow> nat \<Rightarrow> place_world \<Rightarrow> place_world" where
  "pl_decaying f a W = W\<lparr>pw_decay := pw_decay W @ map f (a # (if is_box (pw_heap W) a then getItems (pw_heap W) a else []))\<rparr>"

subsection \<open>Moving an item\<close>

fun pl_find_destination :: "nat \<Rightarrow> inv_env \<Rightarrow> place_world \<Rightarrow> place \<Rightarrow> int \<Rightarrow> nat \<Rightarrow> nat option \<Rightarrow> move_flags \<Rightarrow>
    (place \<times> int \<times> nat option \<times> move_flags) option" where
  "pl_find_destination 0 E W to index a dest fl = Some (to, index, dest, fl)"
| "pl_find_destination (Suc n) E W to index a dest fl = (case pl_queryDestination E W to index a dest fl of
       None \<Rightarrow> None
     | Some (s, i, d) \<Rightarrow> if s = to then Some (to, i, d, fl) else pl_find_destination n E W s i a d no_flags)"

text \<open>The exchange with the item \<open>x\<close> at the destination: it is put where the item comes from, before it is known whether the item
  fits. The answer says how the move goes on.\<close>

definition pl_exchange :: "inv_env \<Rightarrow> place \<Rightarrow> place \<Rightarrow> int \<Rightarrow> nat \<Rightarrow> u32 \<Rightarrow> nat \<Rightarrow> move_flags \<Rightarrow> place_world \<Rightarrow>
    return_value \<times> nat option \<times> place_world" where
  "pl_exchange E from to index a count x fl W =
     (let n = ucast (it_count (pw_heap W ! x));
          r = pl_queryAdd E W from (pl_thingIndex W from a) x n no_flags;
          (rmax, maxCount) = pl_queryMaxCount E W from INDEX_WHEREEVER x n no_flags
      in if r \<noteq> RET_NOERROR then (r, Some x, W)
         else if rmax \<noteq> RET_NOERROR \<and> maxCount = 0 then (rmax, Some x, W)
         else if pl_queryRemove E W to x n fl \<noteq> RET_NOERROR then (RET_NOERROR, Some x, W)
         else (let i = pl_thingIndex W to x; W1 = pl_addAnywhere E from x (pl_removeThing E to x n W);
                   W2 = (if i \<noteq> - 1 then pl_notify E to W1 else W1);
                   W3 = (if pl_thingIndex W2 from x \<noteq> - 1 then pl_notify E from W2 else W2)
               in (pl_queryAdd E W3 to index a count fl, None, W3)))"

definition pl_transfer :: "inv_env \<Rightarrow> place \<Rightarrow> place \<Rightarrow> int \<Rightarrow> nat \<Rightarrow> u32 \<Rightarrow> nat option \<Rightarrow> place_world \<Rightarrow> nat option \<times> place_world" where
  "pl_transfer E from to index a m dest W =
     (let T = ev_types E; i = pl_thingIndex W from a; W1 = pl_removeThing E from a m W; h1 = pw_heap W1;
          stack = isStackable T (h1 ! a); upd = (if stack then merged_into h1 a dest else None);
          n = (if stack then merge_count T h1 a dest m else 0);
          W2 = (case upd of Some x \<Rightarrow> pl_updateThing E to x (it_id (h1 ! x)) (ucast (it_count (h1 ! x)) + n) W1 | None \<Rightarrow> W1);
          (mv, h3) = (if \<not> stack then (Some a, pw_heap W2)
            else if sint (m - n) > 0 then split_off (box_env E W2) a (m - n) (pw_heap W2) else (None, pw_heap W2));
          W3 = W2\<lparr>pw_heap := h3\<rparr>;
          W4 = (if stack \<and> item_isRemoved h3 a then pl_decaying Stop_Decay a W3 else W3);
          W5 = (case mv of Some x \<Rightarrow> pl_addThing E to index x W4 | None \<Rightarrow> W4);
          W6 = (if i \<noteq> - 1 then pl_notify E from W5 else W5);
          W7 = (case mv of Some x \<Rightarrow> pl_decaying Start_Decay x (if pl_thingIndex W6 to x \<noteq> - 1 then pl_notify E to W6 else W6) | None \<Rightarrow> W6);
          W8 = (case upd of Some x \<Rightarrow> pl_decaying Start_Decay x (if pl_thingIndex W7 to x \<noteq> - 1 then pl_notify E to W7 else W7) | None \<Rightarrow> W7)
      in (mv, W8))"

text \<open>The second half of \<open>internalMoveItem\<close>, when the destination has accepted the item.\<close>

definition pl_move_rest :: "inv_env \<Rightarrow> place \<Rightarrow> place \<Rightarrow> int \<Rightarrow> nat \<Rightarrow> u32 \<Rightarrow> nat option \<Rightarrow> nat option \<Rightarrow> move_flags \<Rightarrow> place_world \<Rightarrow>
    move_result \<times> place_world" where
  "pl_move_rest E from to index a count dest tradeItem fl W =
     (let h = pw_heap W; stack = isStackable (ev_types E) (h ! a); (rmax, maxCount) = pl_queryMaxCount E W to index a count fl;
          m = (if stack then min count maxCount else maxCount); r = pl_queryRemove E W from a m fl
      in if rmax \<noteq> RET_NOERROR \<and> maxCount = 0 then (Refused rmax, W)
         else if r \<noteq> RET_NOERROR then (Refused r, W)
         else if (case tradeItem of None \<Rightarrow> False | Some t \<Rightarrow> (case to of Pl_Player _ \<Rightarrow> False | Pl_Box b \<Rightarrow> t \<in> set (chain h b)))
         then (Refused RET_NOTENOUGHROOM, W)
         else (case pl_transfer E from to index a m dest W of
             (mv, W') \<Rightarrow> (Moved (if stack \<and> maxCount < count then rmax else RET_NOERROR) (case mv of Some x \<Rightarrow> x | None \<Rightarrow> a), W')))"

definition pl_moveItem :: "inv_env \<Rightarrow> place \<Rightarrow> place \<Rightarrow> int \<Rightarrow> nat \<Rightarrow> u32 \<Rightarrow> nat option \<Rightarrow> move_flags \<Rightarrow> place_world \<Rightarrow>
    (move_result \<times> place_world) option" where
  "pl_moveItem E from to0 index0 a count0 tradeItem fl0 W =
     (case pl_find_destination MAP_MAX_LAYERS E W to0 index0 a None fl0 of
        None \<Rightarrow> None
      | Some (to, index, dest, fl) \<Rightarrow>
         (let h = pw_heap W;
              up = (case from of Pl_Player _ \<Rightarrow> None | Pl_Box b \<Rightarrow> (case it_parent (h ! b) of In_Box c \<Rightarrow> Some (Pl_Box c) | On_Player p \<Rightarrow> Some (Pl_Player p) | _ \<Rightarrow> None));
              count = (if isStackable (ev_types E) (h ! a) \<and> count0 = 255 \<and> up = Some to then ucast (it_count (h ! a)) else count0);
              r1 = pl_queryRemove E W from a 1 fl; r2 = pl_queryAdd E W to index a count fl
          in if dest = Some a then Some (Refused RET_NOERROR, W)
             else if r1 \<noteq> RET_NOERROR then Some (Refused r1, W)
             else if r2 = RET_NEEDEXCHANGE then
               (case dest of
                  None \<Rightarrow> None
                | Some x \<Rightarrow> (case pl_exchange E from to index a count x fl W of
                    (r3, dest', W') \<Rightarrow> if r3 \<noteq> RET_NOERROR then Some (Refused r3, W')
                      else Some (pl_move_rest E from to index a count dest' tradeItem fl W')))
             else if r2 \<noteq> RET_NOERROR then Some (Refused r2, W)
             else Some (pl_move_rest E from to index a count dest tradeItem fl W)))"

subsection \<open>Adding and removing an item\<close>

text \<open>Only a container has an item of its own; for a player the answer of \<open>queryMaxCount\<close> is not looked at. \<open>None\<close> also
  stands for more calls than the first argument allows.\<close>

fun pl_addItem :: "nat \<Rightarrow> inv_env \<Rightarrow> place \<Rightarrow> nat \<Rightarrow> int \<Rightarrow> move_flags \<Rightarrow> bool \<Rightarrow> place_world \<Rightarrow> (return_value \<times> u32 \<times> place_world) option" where
  "pl_addItem 0 E pl a index0 fl test W = None"
| "pl_addItem (Suc fuel) E pl a index0 fl test W =
     (case pl_queryDestination E W pl index0 a None fl of
        None \<Rightarrow> None
      | Some (to, index, dest) \<Rightarrow>
         (let h = pw_heap W; T = ev_types E; units = ucast (it_count (h ! a)); r = pl_queryAdd E W to index a units fl;
              (rmax, maxCount) = pl_queryMaxCount E W pl INDEX_WHEREEVER a units fl;
              add = (\<lambda>W1. let W2 = pl_addThing E to index a W1 in if pl_thingIndex W2 to a \<noteq> - 1 then pl_notify E to W2 else W2)
          in if r \<noteq> RET_NOERROR then Some (r, 0, W)
             else if rmax \<noteq> RET_NOERROR \<and> (case pl_item pl of Some c \<Rightarrow> it_id (h ! c) \<noteq> ITEM_REWARD_CONTAINER | None \<Rightarrow> False) then Some (rmax, 0, W)
             else if test then Some (RET_NOERROR, 0, W)
             else (case (if isStackable T (h ! a) then merged_into h a dest else None) of
                 None \<Rightarrow> Some (RET_NOERROR, 0, add W)
               | Some x \<Rightarrow>
                  (let m = min units maxCount; n = merge_count T h a dest m;
                       W1 = pl_updateThing E to x (it_id (h ! x)) (ucast (it_count (h ! x)) + n) W; count = m - n
                   in if sint count \<le> 0 then Some (RET_NOERROR, 0, if pl_thingIndex W1 to x \<noteq> - 1 then pl_notify E to W1 else W1)
                      else if units = count then Some (RET_NOERROR, 0, add W1)
                      else (case split_off (box_env E W1) a count (pw_heap W1) of
                          (None, _) \<Rightarrow> None
                        | (Some y, h2) \<Rightarrow>
                           (case pl_addItem fuel E pl y INDEX_WHEREEVER fl False (W1\<lparr>pw_heap := h2\<rparr>) of
                              None \<Rightarrow> None
                            | Some (r2, _, W2) \<Rightarrow> Some (RET_NOERROR, if r2 \<noteq> RET_NOERROR then count else 0, W2)))))))"

definition parent_place :: "heap \<Rightarrow> nat \<Rightarrow> place option" where
  "parent_place h a = (case it_parent (h ! a) of In_Box b \<Rightarrow> Some (Pl_Box b) | On_Player p \<Rightarrow> Some (Pl_Player p) | _ \<Rightarrow> None)"

text \<open>Without a parent the code answers, with a tile as parent the model is silent.\<close>

definition pl_removeItem :: "inv_env \<Rightarrow> nat \<Rightarrow> int \<Rightarrow> bool \<Rightarrow> move_flags \<Rightarrow> bool \<Rightarrow> place_world \<Rightarrow> (return_value \<times> place_world) option" where
  "pl_removeItem E a count test fl force W =
     (let h = pw_heap W; T = ev_types E in
      case parent_place h a of
        None \<Rightarrow> if it_parent (h ! a) = No_Parent then Some (RET_NOTPOSSIBLE, W) else None
      | Some pl \<Rightarrow>
         (let n = (if count = - 1 then ucast (it_count (h ! a)) else word_of_int count);
              r = pl_queryRemove E W pl a n (fl\<lparr>fl_ignoreNotMovable := True\<rparr>)
          in if \<not> force \<and> r \<noteq> RET_NOERROR then Some (r, W)
             else if \<not> force \<and> canDecay T h a \<and> \<not> item_isRemoved h a \<and> it_loadedFromMap (h ! a)
             then Some (RET_THISISIMPOSSIBLE, pl_decaying Stop_Decay a W)
             else if test then Some (RET_NOERROR, W)
             else (let W1 = pl_removeThing E pl a n W;
                       W2 = (if item_isRemoved (pw_heap W1) a then pl_decaying Stop_Decay a W1 else W1)
                   in Some (RET_NOERROR, pl_notify E pl W2))))"

end
