(* ===== verification/Trade.thy ===== *)
theory Trade
  imports Cylinders "HOL-Library.AList"
begin

text \<open>
  Trades between two players (\<open>Game::playerRequestTrade\<close>, \<open>internalStartTrade\<close>, \<open>playerAcceptTrade\<close>,
  \<open>internalCloseTrade\<close>, and the calls by which a \<open>Player\<close> notices that an item in a trade is touched). Where players and
  items are, and what scripts answer, are predicates of the environment; a house that is sold is an item like another.
\<close>

datatype trade_state = TRADE_NONE | TRADE_INITIATED | TRADE_ACCEPT | TRADE_ACKNOWLEDGE | TRADE_TRANSFER

record trader =
  td_state :: trade_state
  td_item :: "nat option"
  td_partner :: "nat option"

record trade_world = place_world +
  tr_traders :: "nat \<Rightarrow> trader"
  tr_items :: "(nat \<times> nat) list"

text \<open>\<open>tv_asks\<close>: the players are near each other and see each other, and the item is near the player. \<open>tv_sees\<close> is
  \<open>canThrowObjectTo\<close>, \<open>tv_houseRule\<close> the refusal to take the item of a house, the last two are scripts.\<close>

record trade_env = inv_env +
  tv_asks :: "nat \<Rightarrow> nat \<Rightarrow> nat \<Rightarrow> bool"
  tv_sees :: "nat \<Rightarrow> nat \<Rightarrow> bool"
  tv_houseRule :: "nat \<Rightarrow> nat \<Rightarrow> bool"
  tv_onRequest :: "nat \<Rightarrow> nat \<Rightarrow> nat \<Rightarrow> bool"
  tv_onAccept :: "nat \<Rightarrow> nat \<Rightarrow> nat option \<Rightarrow> nat option \<Rightarrow> bool"

definition no_trader :: trader where
  "no_trader = \<lparr>td_state = TRADE_NONE, td_item = None, td_partner = None\<rparr>"

definition set_trader :: "nat \<Rightarrow> trader \<Rightarrow> trade_world \<Rightarrow> trade_world" where
  "set_trader p t W = W\<lparr>tr_traders := (tr_traders W)(p := t)\<rparr>"

definition set_state :: "nat \<Rightarrow> trade_state \<Rightarrow> trade_world \<Rightarrow> trade_world" where
  "set_state p s W = set_trader p ((tr_traders W p)\<lparr>td_state := s\<rparr>) W"

definition drop_item :: "nat option \<Rightarrow> trade_world \<Rightarrow> trade_world" where
  "drop_item x W = (case x of None \<Rightarrow> W | Some a \<Rightarrow> W\<lparr>tr_items := AList.delete a (tr_items W)\<rparr>)"

subsection \<open>Asking for a trade\<close>

definition untradeable :: "trade_world \<Rightarrow> nat \<Rightarrow> bool" where
  "untradeable W a \<longleftrightarrow> isStoreItem (pw_heap W ! a) \<or> getOwnerId (pw_heap W) a \<noteq> 0"

definition internalStartTrade :: "nat \<Rightarrow> nat \<Rightarrow> nat \<Rightarrow> trade_world \<Rightarrow> bool \<times> trade_world" where
  "internalStartTrade p q a W =
     (let P = tr_traders W p; Q = tr_traders W q in
      if td_state P \<noteq> TRADE_NONE \<and> \<not> (td_state P = TRADE_ACKNOWLEDGE \<and> td_partner P = Some q) then (False, W)
      else if td_state Q \<noteq> TRADE_NONE \<and> td_partner Q \<noteq> Some p then (False, W)
      else if untradeable W a then (False, W)
      else (let W1 = (set_trader p \<lparr>td_state = TRADE_INITIATED, td_item = Some a, td_partner = Some q\<rparr> W)\<lparr>tr_items := AList.update a p (tr_items W)\<rparr>
            in (True, if td_state (tr_traders W1 q) = TRADE_NONE
                 then set_trader q ((tr_traders W1 q)\<lparr>td_state := TRADE_ACKNOWLEDGE, td_partner := Some p\<rparr>) W1 else W1)))"

text \<open>The item, or one in it or around it, is offered already; the last test goes up from the item.\<close>

definition in_trade :: "trade_world \<Rightarrow> nat \<Rightarrow> nat \<Rightarrow> bool" where
  "in_trade W a x \<longleftrightarrow> x = a \<or> (is_box (pw_heap W) a \<and> isHoldingItem (pw_heap W) a x) \<or> (is_box (pw_heap W) x \<and> isHoldingItem (pw_heap W) x a)"

definition playerRequestTrade :: "trade_env \<Rightarrow> nat \<Rightarrow> nat \<Rightarrow> nat \<Rightarrow> trade_world \<Rightarrow> trade_world" where
  "playerRequestTrade E p q a W =
     (let h = pw_heap W in
      if p = q \<or> \<not> tv_asks E p q a then W
      else if \<not> ty_pickupable (ev_types E (it_id (h ! a))) \<or> hasAttribute UNIQUEID (h ! a) then W
      else if untradeable W a \<or> tv_houseRule E p a then W
      else if list_ex (\<lambda>x. in_trade W a (fst x)) (tr_items W) then W
      else if is_box h a \<and> getItemHoldingCount h a + 1 > 100 then W
      else if is_box h a \<and> list_ex (\<lambda>b. isStoreItem (h ! b)) (getItems h a) then W
      else if \<not> tv_onRequest E p q a then W
      else snd (internalStartTrade p q a W))"

subsection \<open>Giving up a trade\<close>

definition close_one :: "nat \<Rightarrow> trade_world \<Rightarrow> trade_world" where
  "close_one p W = set_trader p no_trader (drop_item (td_item (tr_traders W p)) W)"

definition internalCloseTrade :: "nat \<Rightarrow> trade_world \<Rightarrow> trade_world" where
  "internalCloseTrade p W =
     (let partner = td_partner (tr_traders W p) in
      if (case partner of Some q \<Rightarrow> td_state (tr_traders W q) = TRADE_TRANSFER | None \<Rightarrow> False) \<or> td_state (tr_traders W p) = TRADE_TRANSFER then W
      else (case partner of None \<Rightarrow> close_one p W | Some q \<Rightarrow> close_one q (close_one p W)))"

text \<open>\<open>checkTradeState\<close>: the item is the one that is offered or lies in it.\<close>

definition checkTradeState :: "nat \<Rightarrow> nat \<Rightarrow> trade_world \<Rightarrow> trade_world" where
  "checkTradeState p a W = (case td_item (tr_traders W p) of
       None \<Rightarrow> W
     | Some t \<Rightarrow> if td_state (tr_traders W p) = TRADE_TRANSFER then W
         else if t = a \<or> t \<in> set (tl (chain (pw_heap W) a)) then internalCloseTrade p W else W)"

text \<open>\<open>onRemoveTileItem\<close> and \<open>onRemoveInventoryItem\<close>: a container that holds the offered item goes away.\<close>

definition onRemoveItem :: "nat \<Rightarrow> nat \<Rightarrow> trade_world \<Rightarrow> trade_world" where
  "onRemoveItem p a W =
     (if td_state (tr_traders W p) = TRADE_TRANSFER then W
      else (let W1 = checkTradeState p a W in
        case td_item (tr_traders W1 p) of
          None \<Rightarrow> W1
        | Some t \<Rightarrow> if is_box (pw_heap W1) a \<and> isHoldingItem (pw_heap W1) a t then internalCloseTrade p W1 else W1))"

definition onUpdateInventoryItem :: "nat \<Rightarrow> nat \<Rightarrow> nat \<Rightarrow> trade_world \<Rightarrow> trade_world" where
  "onUpdateInventoryItem p old new W =
     (let W1 = (if old \<noteq> new then onRemoveItem p old W else W)
      in if td_state (tr_traders W1 p) \<noteq> TRADE_TRANSFER then checkTradeState p old W1 else W1)"

definition onUpdateTileItem :: "nat \<Rightarrow> nat \<Rightarrow> nat \<Rightarrow> trade_world \<Rightarrow> trade_world" where
  "onUpdateTileItem p old new W =
     (let W1 = (if old \<noteq> new then onRemoveItem p old W else W)
      in if td_state (tr_traders W1 p) \<noteq> TRADE_TRANSFER \<and> td_item (tr_traders W1 p) = Some old then internalCloseTrade p W1 else W1)"

definition onRemoveContainerItem :: "nat \<Rightarrow> nat \<Rightarrow> nat \<Rightarrow> trade_world \<Rightarrow> trade_world" where
  "onRemoveContainerItem p c a W =
     (if td_state (tr_traders W p) = TRADE_TRANSFER then W
      else (let W1 = checkTradeState p a W in
        case td_item (tr_traders W1 p) of
          None \<Rightarrow> W1
        | Some t \<Rightarrow> if it_parent (pw_heap W1 ! t) \<noteq> In_Box c \<and> isHoldingItem (pw_heap W1) c t then internalCloseTrade p W1 else W1))"

definition onUpdateContainerItem :: "nat \<Rightarrow> nat \<Rightarrow> nat \<Rightarrow> nat \<Rightarrow> trade_world \<Rightarrow> trade_world" where
  "onUpdateContainerItem p c old new W =
     (let W1 = (if old \<noteq> new then onRemoveContainerItem p c old W else W)
      in if td_state (tr_traders W1 p) \<noteq> TRADE_TRANSFER then checkTradeState p old W1 else W1)"

text \<open>A step of the player; the arguments say whether the item and the partner are still near.\<close>

definition trade_onMove :: "nat \<Rightarrow> bool \<Rightarrow> bool \<Rightarrow> trade_world \<Rightarrow> trade_world" where
  "trade_onMove p item_near partner_near W =
     (if td_state (tr_traders W p) = TRADE_TRANSFER then W
      else (let W1 = (if td_item (tr_traders W p) \<noteq> None \<and> \<not> item_near then internalCloseTrade p W else W)
        in if td_partner (tr_traders W1 p) \<noteq> None \<and> \<not> partner_near then internalCloseTrade p W1 else W1))"

definition trade_onLogout :: "nat \<Rightarrow> trade_world \<Rightarrow> trade_world" where
  "trade_onLogout p W = (if td_partner (tr_traders W p) \<noteq> None then internalCloseTrade p W else W)"

subsection \<open>Accepting\<close>

text \<open>Calls of the moves below need a bound for a stack that is put on others, which a test never does.\<close>

definition lift_world :: "trade_world \<Rightarrow> place_world \<Rightarrow> trade_world" where
  "lift_world W V = W\<lparr>pw_heap := pw_heap V, pw_carriers := pw_carriers V, pw_decay := pw_decay V\<rparr>"

text \<open>What the moves see: the players with the items they are trading.\<close>

definition items_view :: "trade_world \<Rightarrow> place_world" where
  "items_view W = (place_world.truncate W)\<lparr>pw_carriers := (\<lambda>p. (pw_carriers W p)\<lparr>cr_tradeItem := td_item (tr_traders W p)\<rparr>)\<rparr>"

definition try_add :: "trade_env \<Rightarrow> nat \<Rightarrow> nat option \<Rightarrow> trade_world \<Rightarrow> return_value option" where
  "try_add E p x W = (case x of None \<Rightarrow> Some RET_NOTPOSSIBLE
     | Some a \<Rightarrow> map_option fst (pl_addItem 1 (inv_env.truncate E) (Pl_Player p) a INDEX_WHEREEVER no_flags True (items_view W)))"

definition try_remove :: "trade_env \<Rightarrow> nat \<Rightarrow> trade_world \<Rightarrow> (return_value \<times> trade_world) option" where
  "try_remove E a W = map_option (\<lambda>(r, V). (r, lift_world W V))
     (pl_removeItem (inv_env.truncate E) a (uint (it_count (pw_heap W ! a))) True no_flags False (items_view W))"

definition give :: "trade_env \<Rightarrow> place \<Rightarrow> nat \<Rightarrow> nat \<Rightarrow> nat option \<Rightarrow> u32 \<Rightarrow> trade_world \<Rightarrow> (return_value \<times> trade_world) option" where
  "give E from p a other count W =
     map_option (\<lambda>(r, V). ((case r of Refused v \<Rightarrow> v | Moved v _ \<Rightarrow> v), lift_world W V))
       (pl_moveItem (inv_env.truncate E) from (Pl_Player p) INDEX_WHEREEVER a count other (no_flags\<lparr>fl_ignoreAutoStack := True\<rparr>) (items_view W))"

text \<open>The exchange of the two items: whether the trade counts as done, and the world. What the second move returns is not looked
  at.\<close>

definition swap_items :: "trade_env \<Rightarrow> nat \<Rightarrow> nat \<Rightarrow> nat option \<Rightarrow> nat option \<Rightarrow> trade_world \<Rightarrow> (bool \<times> trade_world) option" where
  "swap_items E p q x1 x2 W =
     (case (try_add E q x1 W, try_add E p x2 W) of
        (Some r1, Some r2) \<Rightarrow>
          (if r1 \<noteq> RET_NOERROR \<or> r2 \<noteq> RET_NOERROR then Some (False, W)
           else (case (x1, x2) of
             (Some a, Some b) \<Rightarrow>
               (case try_remove E a W of None \<Rightarrow> None
                | Some (s1, W1) \<Rightarrow> (case try_remove E b W1 of None \<Rightarrow> None
                  | Some (s2, W2) \<Rightarrow>
                    if s1 \<noteq> RET_NOERROR \<or> s2 \<noteq> RET_NOERROR then Some (False, W2)
                    else (case (parent_place (pw_heap W2) a, parent_place (pw_heap W2) b) of
                        (Some c1, Some c2) \<Rightarrow>
                          (let n1 = ucast (it_count (pw_heap W2 ! a)); n2 = ucast (it_count (pw_heap W2 ! b)) in
                           case give E c1 q a (Some b) n1 W2 of
                             None \<Rightarrow> None
                           | Some (g1, W3) \<Rightarrow> if g1 \<noteq> RET_NOERROR then Some (False, W3)
                               else (case give E c2 p b None n2 W3 of None \<Rightarrow> None | Some (_, W4) \<Rightarrow> Some (True, W4)))
                      | _ \<Rightarrow> None)))
           | _ \<Rightarrow> None))
      | _ \<Rightarrow> None)"

definition playerAcceptTrade :: "trade_env \<Rightarrow> nat \<Rightarrow> trade_world \<Rightarrow> trade_world option" where
  "playerAcceptTrade E p W =
     (let P = tr_traders W p in
      if td_state P \<noteq> TRADE_ACKNOWLEDGE \<and> td_state P \<noteq> TRADE_INITIATED then Some W
      else (case td_partner P of
          None \<Rightarrow> Some W
        | Some q \<Rightarrow>
            if \<not> tv_sees E q p then Some W
            else (let W1 = set_state p TRADE_ACCEPT W in
              if td_state (tr_traders W1 q) \<noteq> TRADE_ACCEPT then Some W1
              else (let x1 = td_item (tr_traders W1 p); x2 = td_item (tr_traders W1 q) in
                if \<not> tv_onAccept E p q x1 x2 then Some (internalCloseTrade p W1)
                else (case swap_items E p q x1 x2
                    (drop_item x2 (drop_item x1 (set_state q TRADE_TRANSFER (set_state p TRADE_TRANSFER W1)))) of
                    None \<Rightarrow> None
                  | Some (_, W2) \<Rightarrow> Some (set_trader q no_trader (set_trader p no_trader W2)))))))"

end
