(* ===== verification/Inventory_Laws.thy ===== *)
theory Inventory_Laws
  imports Inventory Item_Runs
begin

text \<open>
  What holds of the things a player carries: where an item goes, that hands which hold a two-handed weapon hold nothing
  else, the weight of everything, and an item that goes to a place that does not exist.
\<close>

subsection \<open>Hands\<close>

definition two_handed :: "inv_env \<Rightarrow> heap \<Rightarrow> nat \<Rightarrow> bool" where
  "two_handed E h a = has_flag E h a SLOTP_TWO_HAND"

text \<open>Two-handed weapons fit both hands (the flags an item type starts with) and are no shields or quivers.\<close>

definition hand_types_ok :: "inv_env \<Rightarrow> bool" where
  "hand_types_ok E \<longleftrightarrow> (\<forall>i. iv_slotPosition E i AND SLOTP_TWO_HAND \<noteq> 0 \<longrightarrow> iv_slotPosition E i AND SLOTP_RIGHT \<noteq> 0 \<and>
     iv_slotPosition E i AND SLOTP_LEFT \<noteq> 0 \<and> iv_weaponType E i \<noteq> WEAPON_SHIELD \<and> \<not> ty_quiver (ev_types E i))"

definition hands_ok :: "inv_env \<Rightarrow> heap \<Rightarrow> carrier \<Rightarrow> bool" where
  "hands_ok E h p \<longleftrightarrow> (\<forall>r. slot_item p CONST_SLOT_RIGHT = Some r \<longrightarrow> \<not> two_handed E h r \<and>
     (\<forall>l. slot_item p CONST_SLOT_LEFT = Some l \<longrightarrow> two_handed E h l \<longrightarrow> is_quiver E h r \<and> weapon_of E h l = WEAPON_DISTANCE))"

lemmas slot_defs = CONST_SLOT_WHEREEVER_def CONST_SLOT_HEAD_def CONST_SLOT_NECKLACE_def CONST_SLOT_BACKPACK_def CONST_SLOT_ARMOR_def
  CONST_SLOT_RIGHT_def CONST_SLOT_LEFT_def CONST_SLOT_LEGS_def CONST_SLOT_FEET_def CONST_SLOT_RING_def CONST_SLOT_AMMO_def
  CONST_SLOT_STORE_INBOX_def

text \<open>The slots after an item has been taken off and put on at \<open>i\<close>.\<close>

definition moved_slots :: "carrier \<Rightarrow> nat \<Rightarrow> int \<Rightarrow> int \<Rightarrow> nat option" where
  "moved_slots p a i j = (if j = i then Some a else if slot_item p j = Some a \<and> inv_thingIndex p a = j then None else slot_item p j)"

lemma thingIndex_slot: "inv_thingIndex p a \<noteq> - 1 \<Longrightarrow> slot_item p (inv_thingIndex p a) = Some a"
proof -
  assume a: "inv_thingIndex p a \<noteq> - 1"
  then obtain i l where i: "filter (\<lambda>i. slot_item p i = Some a) slot_list = i # l"
    by (cases "filter (\<lambda>i. slot_item p i = Some a) slot_list") (simp_all add: inv_thingIndex_def)
  have "slot_item p i = Some a" using filter_eq_ConsD [OF i] by blast
  then show ?thesis using i by (simp add: inv_thingIndex_def)
qed

lemma take_off_put_on:
  assumes "isStackable T (h ! a) \<longrightarrow> count = ucast (it_count (h ! a))" and "1 \<le> i" and "i \<le> 11" and "inv_removeThing T a count (p, h) = (q, g)"
  shows "slot_item (fst (inv_addThing i a (q, g))) j = (if 1 \<le> j \<and> j \<le> 11 then moved_slots p a i j else None)"
    and "it_id (snd (inv_addThing i a (q, g)) ! b) = it_id (h ! b)"
proof -
  let ?k = "inv_thingIndex p a"
  have k: "?k = - 1 \<or> slot_item p ?k = Some a" using thingIndex_slot by blast
  have q: "q = (if ?k = - 1 then p else p\<lparr>cr_slots := (cr_slots p)(?k := None)\<rparr>)"
    and g: "g = (if ?k = - 1 then h else upd_item a (\<lambda>x. x\<lparr>it_parent := No_Parent\<rparr>) h)"
    using assms(1,4) by (auto simp: inv_removeThing_def Let_def split: if_splits)
  show "slot_item (fst (inv_addThing i a (q, g))) j = (if 1 \<le> j \<and> j \<le> 11 then moved_slots p a i j else None)"
    using k assms(2,3) by (auto simp: q inv_addThing_def slot_item_def moved_slots_def slot_defs)
  show "it_id (snd (inv_addThing i a (q, g)) ! b) = it_id (h ! b)"
    by (auto simp: g inv_addThing_def upd_item_nth split: if_splits)
qed

lemma flags_id: "it_id (g ! b) = it_id (h ! b) \<Longrightarrow> has_flag E g b f = has_flag E h b f" "it_id (g ! b) = it_id (h ! b) \<Longrightarrow> weapon_of E g b = weapon_of E h b"
  "it_id (g ! b) = it_id (h ! b) \<Longrightarrow> is_quiver E g b = is_quiver E h b"
  by (simp_all add: has_flag_def weapon_of_def is_quiver_def)

lemma queryAdd_slot:
  assumes "inv_queryAdd E h p i a count fl = RET_NOERROR" and "\<not> fl_childIsOwner fl"
  shows "slot_ret E h p i a count = RET_NOERROR"
  using assms by (auto simp: inv_queryAdd_def Let_def split: if_splits)

lemma beside_one_handed: "beside E h a count b = RET_NOERROR \<Longrightarrow> \<not> two_handed E h b"
  by (auto simp: beside_def two_handed_def Let_def split: if_splits)

text \<open>C34: with types whose two-handed weapons fit both hands, putting an item on that \<open>queryAdd\<close> accepts, taken off from where it
  was worn before, never leaves a two-handed weapon in the right hand, or one in the left hand with anything in the
  right one but a quiver for a distance weapon.\<close>

theorem hands_stay_legal:
  assumes T: "hand_types_ok E" and ok: "hands_ok E h p" and add: "inv_queryAdd E h p i a count fl = RET_NOERROR" "\<not> fl_childIsOwner fl"
    and whole: "isStackable (ev_types E) (h ! a) \<longrightarrow> count = ucast (it_count (h ! a))"
  shows "case inv_addThing i a (inv_removeThing (ev_types E) a count (p, h)) of (q, g) \<Rightarrow> hands_ok E g q"
proof -
  let ?T = "ev_types E"
  obtain q g where r: "inv_removeThing ?T a count (p, h) = (q, g)" by (cases "inv_removeThing ?T a count (p, h)")
  have sr: "slot_ret E h p i a count = RET_NOERROR" by (rule queryAdd_slot [OF add])
  then have i: "1 \<le> i" "i \<le> 11" by (auto simp: slot_ret_def slot_defs split: if_splits)
  note m = take_off_put_on [OF whole i r]
  let ?q = "fst (inv_addThing i a (q, g))" and ?g = "snd (inv_addThing i a (q, g))"
  have R: "slot_item ?q CONST_SLOT_RIGHT = moved_slots p a i 5" and L: "slot_item ?q CONST_SLOT_LEFT = moved_slots p a i 6"
    using m(1) by (simp_all add: slot_defs)
  have f: "two_handed E ?g b = two_handed E h b" "is_quiver E ?g b = is_quiver E h b" "weapon_of E ?g b = weapon_of E h b" for b
    using flags_id [OF m(2)] by (simp_all add: two_handed_def)
  have T2: "has_flag E h b SLOTP_RIGHT" "has_flag E h b SLOTP_LEFT" "weapon_of E h b \<noteq> WEAPON_SHIELD" "\<not> is_quiver E h b" if "two_handed E h b" for b
    using T that by (simp_all add: hand_types_ok_def two_handed_def has_flag_def weapon_of_def is_quiver_def)
  have old: "\<not> two_handed E h r \<and> (\<forall>l. slot_item p 6 = Some l \<longrightarrow> two_handed E h l \<longrightarrow> is_quiver E h r \<and> weapon_of E h l = WEAPON_DISTANCE)"
    if "slot_item p 5 = Some r" for r using ok that by (simp add: hands_ok_def slot_defs)
  have "hands_ok E ?g ?q"
    unfolding hands_ok_def R L f
  proof (intro allI impI)
    fix r assume r: "moved_slots p a i 5 = Some r"
    show "\<not> two_handed E h r \<and> (\<forall>l. moved_slots p a i 6 = Some l \<longrightarrow> two_handed E h l \<longrightarrow> is_quiver E h r \<and> weapon_of E h l = WEAPON_DISTANCE)"
    proof (cases "i = 5")
      case True
      then have ra: "r = a" and right: "right_hand E h p a count = RET_NOERROR" using r sr by (simp_all add: moved_slots_def slot_ret_def slot_defs)
      have l6: "slot_item p 6 = Some l" if "moved_slots p a i 6 = Some l" for l using that True by (simp add: moved_slots_def split: if_splits)
      show ?thesis
      proof (cases "has_flag E h a SLOTP_RIGHT")
        case rf: True
        then have "weapon_of E h a = WEAPON_SHIELD \<or> is_quiver E h a" using right by (auto simp: right_hand_def split: if_splits)
        then have "\<not> two_handed E h a" using T2(3,4) by blast
        moreover have "is_quiver E h a \<and> weapon_of E h l = WEAPON_DISTANCE" if "moved_slots p a i 6 = Some l" "two_handed E h l" for l
          using right rf l6 [OF that(1)] that(2) by (simp add: right_hand_def two_handed_def slot_defs split: if_splits)
        ultimately show ?thesis using ra by blast
      next
        case False
        then have n: "\<not> two_handed E h a" using T2(1) by blast
        have "\<not> two_handed E h l" if "moved_slots p a i 6 = Some l" for l
        proof -
          have "beside E h a count l = RET_NOERROR" using right False n l6 [OF that] by (simp add: right_hand_def two_handed_def slot_defs)
          then show ?thesis by (rule beside_one_handed)
        qed
        then show ?thesis using ra n by blast
      qed
    next
      case False
      then have r5: "slot_item p 5 = Some r" using r by (simp add: moved_slots_def split: if_splits)
      note o = old [OF r5]
      show ?thesis
      proof (cases "i = 6")
        case True
        then have left: "left_hand E h p a count = RET_NOERROR" using sr by (simp add: slot_ret_def slot_defs)
        have "is_quiver E h r \<and> weapon_of E h a = WEAPON_DISTANCE" if t: "two_handed E h a"
          using left T2(2) [OF t] r5 t by (simp add: left_hand_def Let_def two_handed_def slot_defs split: if_splits)
        then show ?thesis using o True by (simp add: moved_slots_def)
      next
        case n6: False
        then show ?thesis using o by (simp add: moved_slots_def)
      qed
    qed
  qed
  then show ?thesis unfolding r by (simp add: case_prod_unfold)
qed

subsection \<open>Where an item goes\<close>

text \<open>What the player wears are different items that lie in no container.\<close>

definition worn :: "carrier \<Rightarrow> nat set" where
  "worn p = {a. \<exists>i. slot_item p i = Some a}"

definition carrier_ok :: "heap \<Rightarrow> carrier \<Rightarrow> bool" where
  "carrier_ok h p \<longleftrightarrow> (\<forall>i a. slot_item p i = Some a \<longrightarrow> a < length h \<and> it_parent (h ! a) = On_Player (cr_id p)) \<and>
     (\<forall>i j a. slot_item p i = Some a \<longrightarrow> slot_item p j = Some a \<longrightarrow> i = j)"

definition accepts :: "inv_env \<Rightarrow> heap \<Rightarrow> nat \<Rightarrow> move_flags \<Rightarrow> nat \<Rightarrow> int \<Rightarrow> bool" where
  "accepts E h a fl b i \<longleftrightarrow> queryAdd (world_env.truncate E) h b i a (ucast (it_count (h ! a))) fl = RET_NOERROR"

text \<open>The places a search may end with.\<close>

definition good_place :: "inv_env \<Rightarrow> heap \<Rightarrow> carrier \<Rightarrow> nat \<Rightarrow> move_flags \<Rightarrow> int \<Rightarrow> nat set \<Rightarrow> cylinder \<times> int \<times> nat option \<Rightarrow> bool" where
  "good_place E h p a fl index S d = (case d of
       (Cyl_Box b, i, None) \<Rightarrow> b \<in> S \<and> is_box h b \<and> accepts E h a fl b i
     | (Cyl_Box b, i, Some x) \<Rightarrow> b \<in> S \<and> x \<in> set (itemlist h b) \<and> x \<noteq> a \<and> cr_tradeItem p \<noteq> Some x \<and> stacks_with (ev_types E) h x a
     | (Cyl_Player, i, None) \<Rightarrow> i = index \<or> (slot_item p i = None \<and> inv_queryAdd E h p i a (ucast (it_count (h ! a))) fl = RET_NOERROR)
     | (Cyl_Player, i, Some x) \<Rightarrow> slot_item p i = Some x \<and> x \<noteq> a \<and> cr_tradeItem p \<noteq> Some x \<and> stacks_with (ev_types E) h x a)"

lemma apart_sub: "apart h l \<Longrightarrow> distinct l' \<Longrightarrow> set l' \<subseteq> set l \<Longrightarrow> apart h l'"
  unfolding apart_def by blast

lemma below_mono: "S \<subseteq> S' \<Longrightarrow> below h S \<subseteq> below h S'"
  unfolding below_def by blast

lemma scan_places_accepts: "scan_places E h b a fl n = Some i \<Longrightarrow> accepts E h a fl b i"
  by (induction n) (auto simp: accepts_def split: if_splits)

lemma scan_stacks_found: "scan_stacks T h p a l n boxes = Inl (m, x) \<Longrightarrow>
    x \<in> set l \<and> x \<noteq> a \<and> cr_tradeItem p \<noteq> Some x \<and> stacks_with T h x a"
  by (induction T h p a l n boxes rule: scan_stacks.induct) (auto split: if_splits)

lemma scan_stacks_rest: "scan_stacks T h p a l n boxes = Inr (m, l') \<Longrightarrow>
    \<exists>k. l' = boxes @ k \<and> set k \<subseteq> {x\<in>set l. is_box h x} \<and> (distinct l \<longrightarrow> distinct k)"
proof (induction T h p a l n boxes rule: scan_stacks.induct)
  case (2 T h p a x xs n boxes)
  show ?case
  proof (cases "cr_tradeItem p = Some x \<or> x = a")
    case True
    then show ?thesis using 2 by fastforce
  next
    case False
    then have n: "\<not> stacks_with T h x a" using 2(3) by (auto split: if_splits)
    have e: "scan_stacks T h p a xs (Suc n) (if is_box h x then boxes @ [x] else boxes) = Inr (m, l')" using 2(3) False n by simp
    obtain k where k: "l' = (if is_box h x then boxes @ [x] else boxes) @ k" "set k \<subseteq> {x\<in>set xs. is_box h x}" "distinct xs \<longrightarrow> distinct k"
      using 2(2) [OF False n e] by blast
    show ?thesis by (rule exI [of _ "if is_box h x then x # k else k"]) (use k in auto)
  qed
qed auto

lemma dest_boxes_found:
  assumes ok: "tree_ok h"
  shows "apart h l \<Longrightarrow> set l \<subseteq> {b. b < length h \<and> is_box h b} \<Longrightarrow> card (below h (set l)) < k \<Longrightarrow>
    \<exists>d. dest_boxes k E h p a fl index l = Some d \<and> good_place E h p a fl index (below h (set l)) d"
proof (induction k arbitrary: l)
  case (Suc k)
  show ?case
  proof (cases l)
    case Nil
    then show ?thesis by (simp add: good_place_def)
  next
    case (Cons b bs)
    have b: "b < length h" "is_box h b" and bs: "set bs \<subseteq> {b. b < length h \<and> is_box h b}" using Suc.prems(2) Cons by auto
    note st = apart_step [OF ok b(1) Suc.prems(1) [unfolded Cons]]
    have self: "b \<in> below h (set l)" using Cons by (auto simp: below_def)
    have il: "distinct (itemlist h b)" "set (itemlist h b) \<subseteq> {..<length h}"
      using tree_okD(1) [OF ok b(1)] tree_okD(2) [OF ok b(1)] by auto
    have next': "\<exists>d. dest_boxes k E h p a fl index (bs @ r) = Some d \<and> good_place E h p a fl index (below h (set l)) d"
      if r: "set r \<subseteq> {x\<in>set (itemlist h b). is_box h x}" "distinct r" for r
    proof -
      have sub: "set (bs @ r) \<subseteq> set (bs @ itemlist h b)" using r(1) by auto
      have db: "distinct (bs @ itemlist h b)" using st(1) by (simp add: apart_def)
      have d: "distinct (bs @ r)" using db r by auto
      have ap: "apart h (bs @ r)" by (rule apart_sub [OF st(1) d sub])
      have ls: "set (bs @ r) \<subseteq> {b. b < length h \<and> is_box h b}" using bs r(1) il(2) by auto
      have bl: "below h (set (bs @ r)) \<subseteq> below h (set l) - {b}"
      proof -
        have "below h (set (bs @ itemlist h b)) \<subseteq> below h (set l)"
          using below_item [OF ok b(1)] unfolding Cons by (auto simp: below_def)
        then show ?thesis using below_mono [OF sub] st(2) by blast
      qed
      have fin: "finite (below h (set l))" using below_less [OF ok, of "set l"] Suc.prems(2) finite_subset [of _ "{..<length h}"] by auto
      have "card (below h (set (bs @ r))) < card (below h (set l))"
        using psubset_card_mono [OF fin, of "below h (set (bs @ r))"] bl self by blast
      then have "card (below h (set (bs @ r))) < k" using Suc.prems(3) by simp
      then obtain d where d: "dest_boxes k E h p a fl index (bs @ r) = Some d" "good_place E h p a fl index (below h (set (bs @ r))) d"
        using Suc.IH [OF ap ls] by blast
      have "good_place E h p a fl index (below h (set l)) d"
        using d(2) bl by (auto simp: good_place_def split: prod.splits cylinder.splits option.splits)
      then show ?thesis using d(1) by blast
    qed
    show ?thesis
    proof (cases "fl_ignoreAutoStack fl \<or> \<not> isStackable (ev_types E) (h ! a)")
      case True
      show ?thesis
      proof (cases "scan_places E h b a fl (free_places h b)")
        case None
        then show ?thesis using True next' [of "filter (is_box h) (itemlist h b)"] il(1) Cons by auto
      next
        case (Some i)
        then show ?thesis using True Cons scan_places_accepts [OF Some] self b by (simp add: good_place_def)
      qed
    next
      case False
      show ?thesis
      proof (cases "scan_stacks (ev_types E) h p a (itemlist h b) 0 []")
        case (Inl q)
        obtain n x where q: "q = (n, x)" by (cases q)
        show ?thesis using False Cons Inl scan_stacks_found [OF Inl [unfolded q]] self by (simp add: good_place_def q)
      next
        case (Inr q)
        obtain n r where q: "q = (n, r)" by (cases q)
        have r: "set r \<subseteq> {x\<in>set (itemlist h b). is_box h x}" "distinct r" using scan_stacks_rest [OF Inr [unfolded q]] il(1) by auto
        show ?thesis
        proof (cases "n < unat (bx_maxSize (box_of h b)) \<and> accepts E h a fl b (int n)")
          case True
          then show ?thesis using False Cons Inr self b by (simp add: good_place_def q accepts_def)
        next
          case no: False
          then show ?thesis using False Cons Inr next' [OF r] by (auto simp: q accepts_def)
        qed
      qed
    qed
  qed
qed simp

lemma dest_slots_found:
  "dest_slots E h p a fl is boxes = Inl (i, x) \<Longrightarrow> i \<in> set is \<and> good_place E h p a fl index S (Cyl_Player, i, x)"
proof (induction "is" arbitrary: boxes)
  case (Cons j js)
  note fnd = Cons.prems
  show ?case
  proof (cases "slot_item p j")
    case None
    then show ?thesis using fnd Cons.IH by (fastforce simp: good_place_def Let_def split: if_splits)
  next
    case (Some b)
    show ?thesis
    proof (cases "cr_tradeItem p = Some b \<or> b = a")
      case True
      then have "dest_slots E h p a fl js boxes = Inl (i, x)" using fnd Some by (simp add: Let_def)
      then show ?thesis using Cons.IH by simp
    next
      case False
      let ?stack = "\<not> fl_ignoreAutoStack fl \<and> isStackable (ev_types E) (h ! a) \<and> inv_queryAdd E h p j a (ucast (it_count (h ! a))) no_flags = RET_NOERROR \<and>
          stacks_with (ev_types E) h b a"
      show ?thesis
      proof (cases ?stack)
        case True
        then have "i = j \<and> x = Some b" using fnd Some False by (simp add: Let_def)
        then show ?thesis using True False Some by (simp add: good_place_def)
      next
        case st: False
        then have "dest_slots E h p a fl js (if is_box h b then boxes @ [b] else boxes) = Inl (i, x)"
          using fnd Some False st by (simp add: Let_def split: if_splits)
        then show ?thesis using Cons.IH by simp
      qed
    qed
  qed
qed simp

text \<open>When no slot is found, every empty one has refused, and the containers are those that are worn.\<close>

lemma dest_slots_rest:
  "dest_slots E h p a fl is boxes = Inr l \<Longrightarrow> distinct is \<Longrightarrow>
    (\<forall>i\<in>set is. slot_item p i = None \<longrightarrow> inv_queryAdd E h p i a (ucast (it_count (h ! a))) fl \<noteq> RET_NOERROR) \<and>
    (\<exists>k. l = boxes @ k \<and> set k \<subseteq> {b. is_box h b \<and> (\<exists>i\<in>set is. slot_item p i = Some b)} \<and>
      (carrier_ok h p \<longrightarrow> distinct k))"
proof (induction "is" arbitrary: boxes)
  case (Cons j js)
  let ?ref = "\<lambda>i. slot_item p i = None \<longrightarrow> inv_queryAdd E h p i a (ucast (it_count (h ! a))) fl \<noteq> RET_NOERROR"
  obtain r where r: "dest_slots E h p a fl js (boxes @ r) = Inr l" "?ref j" "set r \<subseteq> {b. is_box h b \<and> slot_item p j = Some b}" "distinct r"
  proof (cases "slot_item p j")
    case None
    then show ?thesis using Cons.prems(1) that [of "[]"] by (auto simp: Let_def split: if_splits)
  next
    case (Some b)
    then show ?thesis using Cons.prems(1) that [of "[]"] that [of "[b]"] by (auto simp: Let_def split: if_splits)
  qed
  obtain k where k: "\<forall>i\<in>set js. ?ref i" "l = (boxes @ r) @ k" "set k \<subseteq> {b. is_box h b \<and> (\<exists>i\<in>set js. slot_item p i = Some b)}"
    "carrier_ok h p \<longrightarrow> distinct k" using Cons.IH [OF r(1)] Cons.prems(2) by auto
  have "distinct (r @ k)" if c: "carrier_ok h p"
  proof -
    have "x \<notin> set k" if "x \<in> set r" for x
    proof
      assume "x \<in> set k"
      then obtain i where "i \<in> set js" "slot_item p i = Some x" using k(3) by blast
      moreover have "slot_item p j = Some x" using r(3) that by blast
      ultimately show False using c Cons.prems(2) unfolding carrier_ok_def by (metis distinct.simps(2))
    qed
    then show ?thesis using r(4) k(4) c by auto
  qed
  moreover have "set (r @ k) \<subseteq> {b. is_box h b \<and> (\<exists>i\<in>set (j # js). slot_item p i = Some b)}" using r(3) k(3) by auto
  ultimately show ?case using r(2) k(1,2) by auto
qed simp

lemma worn_apart:
  assumes c: "carrier_ok h p" and l: "distinct l" "set l \<subseteq> worn p"
  shows "apart h l"
  unfolding apart_def
proof (intro conjI ballI impI l(1))
  fix a b assume a: "a \<in> set l" and "(a, b) \<in> (up h)\<^sup>*"
  have "it_parent (h ! a) = On_Player (cr_id p)" using a l(2) c by (auto simp: worn_def carrier_ok_def)
  then have "\<not> (a, x) \<in> up h" for x by (simp add: up_iff)
  then show "a = b" using \<open>(a, b) \<in> (up h)\<^sup>*\<close> by (auto elim: converse_rtranclE)
qed


subsection \<open>The weight of it all\<close>

lemma weight_below:
  assumes ok: "tree_ok h" and w: "weights_ok T h"
  shows "apart h l \<Longrightarrow> set l \<subseteq> {..<length h} \<Longrightarrow>
    sum_list (map (\<lambda>a. getWeight T (h ! a)) l) = (\<Sum>x\<in>below h (set l). item_weight T (h ! x))"
proof (induction "card (below h (set l))" arbitrary: l rule: less_induct)
  case less
  show ?case
  proof (cases l)
    case Nil
    then show ?thesis by (simp add: below_def)
  next
    case (Cons a r)
    have a: "a < length h" using less.prems Cons by simp
    note st = apart_step [OF ok a less.prems(1) [unfolded Cons]]
    have sub: "set (r @ itemlist h a) \<subseteq> {..<length h}" using less.prems(2) Cons tree_okD(2) [OF ok a] by auto
    have eq: "below h (set l) = insert a (below h (set (r @ itemlist h a)))"
    proof -
      have "below h (set l) = below h {a} \<union> below h (set r)" using Cons below_Un [of h "{a}" "set r"] by simp
      then show ?thesis using below_item [OF ok a] below_Un by auto
    qed
    have fin: "finite (below h (set (r @ itemlist h a)))" using below_less [OF ok sub] finite_subset by blast
    have c: "card (below h (set (r @ itemlist h a))) < card (below h (set l))" unfolding eq using st(2) fin by simp
    have g: "getWeight T (h ! a) = item_weight T (h ! a) + sum_list (map (\<lambda>a. getWeight T (h ! a)) (itemlist h a))"
    proof (cases "is_box h a")
      case True
      then show ?thesis using w a by (simp add: getWeight_contents weights_ok_def held_weight_def)
    next
      case False
      then show ?thesis by (simp add: getWeight_def is_box_def itemlist_def box_of_def)
    qed
    have "sum_list (map (\<lambda>a. getWeight T (h ! a)) l) = item_weight T (h ! a) + sum_list (map (\<lambda>a. getWeight T (h ! a)) (r @ itemlist h a))"
      by (simp add: Cons g algebra_simps)
    also have "\<dots> = item_weight T (h ! a) + (\<Sum>x\<in>below h (set (r @ itemlist h a)). item_weight T (h ! x))"
      by (simp only: less.hyps [OF c st(1) sub])
    finally show ?thesis unfolding eq using st(2) fin by simp
  qed
qed

definition worn_list :: "carrier \<Rightarrow> nat list" where
  "worn_list p = concat (map (\<lambda>i. case slot_item p i of None \<Rightarrow> [] | Some a \<Rightarrow> [a]) slot_list)"

lemma slot_list_all: "slot_item p i = Some a \<Longrightarrow> i \<in> set slot_list"
  by (simp add: slot_item_def slot_list_def slot_defs split: if_splits) presburger

lemma worn_list_ok:
  assumes "carrier_ok h p"
  shows "set (worn_list p) = worn p" and "distinct (worn_list p)"
proof -
  show "set (worn_list p) = worn p"
  proof
    show "set (worn_list p) \<subseteq> worn p" by (auto simp: worn_list_def worn_def split: option.splits)
    show "worn p \<subseteq> set (worn_list p)"
    proof
      fix a assume "a \<in> worn p"
      then obtain i where "slot_item p i = Some a" by (auto simp: worn_def)
      then show "a \<in> set (worn_list p)" using slot_list_all [of p i a] by (auto simp: worn_list_def intro!: bexI [of _ i])
    qed
  qed
  have "distinct l \<Longrightarrow> distinct (concat (map (\<lambda>i. case slot_item p i of None \<Rightarrow> [] | Some a \<Rightarrow> [a]) l))" for l
  proof (induction l)
    case (Cons i l)
    have "a \<notin> set (concat (map (\<lambda>i. case slot_item p i of None \<Rightarrow> [] | Some a \<Rightarrow> [a]) l))" if "slot_item p i = Some a" for a
    proof
      assume "a \<in> set (concat (map (\<lambda>i. case slot_item p i of None \<Rightarrow> [] | Some a \<Rightarrow> [a]) l))"
      then obtain j where "j \<in> set l" "slot_item p j = Some a" by (auto split: option.splits)
      moreover have "i = j" if "slot_item p j = Some a" for j using assms \<open>slot_item p i = Some a\<close> that by (simp add: carrier_ok_def)
      ultimately show False using Cons.prems by auto
    qed
    then show ?case using Cons by (auto split: option.splits)
  qed simp
  moreover have "distinct slot_list" by (simp add: slot_list_def)
  ultimately show "distinct (worn_list p)" unfolding worn_list_def by blast
qed

lemma carried_items_visit: "carried_items h p = concat (map (\<lambda>a. a # (if is_box h a then getItems h a else [])) (worn_list p))"
proof -
  have "concat (map (\<lambda>i. case slot_item p i of None \<Rightarrow> [] | Some b \<Rightarrow> b # (if is_box h b then getItems h b else [])) l) =
    concat (map (\<lambda>a. a # (if is_box h a then getItems h a else [])) (concat (map (\<lambda>i. case slot_item p i of None \<Rightarrow> [] | Some a \<Rightarrow> [a]) l)))" for l
    by (induction l) (simp_all split: option.splits)
  then show ?thesis by (simp add: carried_items_def worn_list_def)
qed

lemma carried_below:
  assumes ok: "tree_ok h"
  shows "apart h l \<Longrightarrow> set l \<subseteq> {..<length h} \<Longrightarrow>
    distinct (concat (map (\<lambda>a. a # (if is_box h a then getItems h a else [])) l)) \<and>
    set (concat (map (\<lambda>a. a # (if is_box h a then getItems h a else [])) l)) = below h (set l)"
proof (induction l)
  case Nil
  then show ?case by (simp add: below_def)
next
  case (Cons a l)
  have a: "a < length h" using Cons.prems by simp
  have ap: "apart h l" using Cons.prems(1) by (auto simp: apart_def)
  let ?f = "\<lambda>a. a # (if is_box h a then getItems h a else [])"
  have one: "set (?f a) = below h {a} \<and> distinct (?f a)"
  proof (cases "is_box h a")
    case True
    have g: "distinct (getItems h a)" "set (getItems h a) = below h (set (itemlist h a))" using getItems_below [OF ok a] by simp_all
    have "a \<notin> below h (set (itemlist h a))"
      using apart_step(2) [OF ok a, of "[]"] by (simp add: apart_def)
    then show ?thesis using g True below_item [OF ok a] by simp
  next
    case False
    then have "itemlist h a = []" by (simp add: is_box_def itemlist_def box_of_def)
    then show ?thesis using False below_item [OF ok a] by (simp add: below_def)
  qed
  have "below h {a} \<inter> below h (set l) = {}"
  proof -
    have "False" if x: "(x, a) \<in> (up h)\<^sup>*" "b \<in> set l" "(x, b) \<in> (up h)\<^sup>*" for x b
    proof -
      have "(a, b) \<in> (up h)\<^sup>* \<or> (b, a) \<in> (up h)\<^sup>*" using up_linear [OF x(1) x(3)] .
      then have "a = b" using Cons.prems(1) x(2) by (auto simp: apart_def)
      then show False using Cons.prems(1) x(2) by (simp add: apart_def)
    qed
    then show ?thesis by (auto simp: below_def)
  qed
  then show ?case using Cons.IH [OF ap] Cons.prems(2) one below_Un [of h "{a}" "set l"] by auto
qed

text \<open>C36: what a player is said to carry is the weight of everything below the slots, each item counted once, and the number of
  items of a type that is reported counts the same items.\<close>

theorem carried_weight_exact:
  assumes ok: "heap_ok T h" and c: "carrier_ok h p" and i: "\<not> cr_infinite p"
  shows "cr_weight (updateInventoryWeight T h p) = (\<Sum>x\<in>below h (worn p). item_weight T (h ! x)) \<and>
    inv_itemTypeCount h p k = (\<Sum>x\<in>{x\<in>below h (worn p). it_id (h ! x) = k}. ucast (it_count (h ! x)))"
proof
  note t = heap_okD(1) [OF ok] and w = worn_list_ok [OF c]
  have ap: "apart h (worn_list p)" by (rule worn_apart [OF c w(2)]) (simp add: w(1))
  have sub: "set (worn_list p) \<subseteq> {..<length h}" using c unfolding w(1) by (auto simp: worn_def carrier_ok_def)
  have "sum_list (map (\<lambda>i. case slot_item p i of None \<Rightarrow> 0 | Some a \<Rightarrow> getWeight T (h ! a)) l) =
      sum_list (map (\<lambda>a. getWeight T (h ! a)) (concat (map (\<lambda>i. case slot_item p i of None \<Rightarrow> [] | Some a \<Rightarrow> [a]) l)))" for l
    by (induction l) (simp_all split: option.splits)
  then have "cr_weight (updateInventoryWeight T h p) = sum_list (map (\<lambda>a. getWeight T (h ! a)) (worn_list p))"
    using i by (simp add: updateInventoryWeight_def worn_list_def)
  then show "cr_weight (updateInventoryWeight T h p) = (\<Sum>x\<in>below h (worn p). item_weight T (h ! x))"
    using weight_below [OF t heap_okD(2) [OF ok] ap sub] w(1) by simp
  have k: "distinct (carried_items h p)" "set (carried_items h p) = below h (worn p)"
    using carried_below [OF t ap sub] unfolding carried_items_visit w(1) by blast+
  show "inv_itemTypeCount h p k = (\<Sum>x\<in>{x\<in>below h (worn p). it_id (h ! x) = k}. ucast (it_count (h ! x)))"
    using k by (simp add: inv_itemTypeCount_def sum_list_distinct_conv_sum_set)
qed

subsection \<open>Items lost in a container that holds more than it has places\<close>

text \<open>C37: when a container a player carries holds more items than it has places (a paginated one), the number of free places
  wraps, the first place that is tried is behind the last item, and an item that the container accepts there is sent to a place
  at which \<open>addThing\<close> drops it.\<close>

theorem overfull_box_swallows:
  assumes slots: "dest_slots E h p a fl (butlast slot_list) [] = Inr (b # bs)"
    and full: "unat (bx_maxSize (box_of h b)) < length (itemlist h b)" "length (itemlist h b) < 2 ^ 31"
    and single: "fl_ignoreAutoStack fl \<or> \<not> isStackable (ev_types E) (h ! a)" and acc: "accepts E h a fl b (int (length (itemlist h b)))"
  shows "inv_queryDestination E h p INDEX_WHEREEVER a None fl = Some (Cyl_Box b, int (length (itemlist h b)), None) \<and>
    addThing (ev_types E) b (int (length (itemlist h b))) a h = h"
proof -
  let ?m = "bx_maxSize (box_of h b)" and ?l = "length (itemlist h b)"
  have lw: "unat (of_nat ?l :: u32) = ?l" using full(2) by (simp add: unat_of_nat take_bit_nat_eq_self)
  have "?m \<noteq> of_nat ?l" using full(1) lw by auto
  then have pos: "free_places h b \<noteq> 0" by (simp add: free_places_def unat_eq_zero)
  have "place_at h b (free_places h b) = sint (of_nat ?l :: u32)" by (simp add: place_at_def free_places_def)
  also have "\<dots> = int ?l" using full(2) by (simp add: sint_u32_small lw)
  finally have pl: "place_at h b (free_places h b) = int ?l" .
  obtain n where n: "free_places h b = Suc n" using pos by (cases "free_places h b") simp_all
  have "scan_places E h b a fl (free_places h b) = Some (int ?l)"
    using acc pl unfolding n by (simp add: accepts_def)
  then have 1: "inv_queryDestination E h p INDEX_WHEREEVER a None fl = Some (Cyl_Box b, int ?l, None)"
    using slots single by (simp add: inv_queryDestination_def)
  have "sint ?m = int (unat ?m)" using full by (simp add: sint_u32_small)
  then have "sint ?m \<le> int ?l" using full(1) by linarith
  then have "addThing (ev_types E) b (int ?l) a h = h" by (simp add: addThing_def)
  then show ?thesis using 1 by simp
qed

subsection \<open>A sample\<close>

definition gear_types :: types where
  "gear_types i = (bag_types i)\<lparr>ty_quiver := (i = 35562), ty_container := (i = 35562 \<or> ty_container (bag_types i))\<rparr>"

definition gear_env :: inv_env where
  "gear_env = \<lparr>ev_types = gear_types, ev_maxContainer = 100, ev_isOwner = (\<lambda>_ _. True), ev_hasCapacity = (\<lambda>_ _ _ _. True),
     iv_slotPosition = (\<lambda>i. if i = 2854 \<or> i = 23721 then 4 else if i = 3350 then 2096 else if i = 3264 \<or> i = 35562 then 48 else 0),
     iv_weaponType = (\<lambda>i. if i = 3350 then WEAPON_DISTANCE else if i = 3264 then WEAPON_SWORD else WEAPON_NONE),
     iv_onEquip = (\<lambda>_ _ _. True)\<rparr>"

text \<open>The backpack of the other sample on the back, a bow in the left hand, and a quiver that lies nowhere.\<close>

definition gear_heap :: heap where
  "gear_heap = w_heap bag_world @ [bag_item 3350 1 (On_Player 7) None,
     bag_item 35562 1 No_Parent (Some \<lparr>bx_items = [], bx_maxSize = 4, bx_maxItems = 100, bx_unlocked = True,
       bx_pagination = False, bx_inbox = False, bx_weight = 0\<rparr>)]"

definition gear_carrier :: carrier where
  "gear_carrier = \<lparr>cr_id = 7, cr_slots = (\<lambda>_. None)(3 := Some 0, 6 := Some 5), cr_cannotPickup = False, cr_infinite = False,
     cr_capacity = 40000, cr_weight = 5400, cr_tradeItem = None\<rparr>"

text \<open>A pouch with one place that holds two items, both hands full, and a bag.\<close>

definition stuffed_heap :: heap where
  "stuffed_heap =
     [bag_item 23721 1 (On_Player 7) (Some \<lparr>bx_items = [1, 2], bx_maxSize = 1, bx_maxItems = 2000, bx_unlocked = True,
        bx_pagination = True, bx_inbox = False, bx_weight = 7000\<rparr>),
      bag_item 3264 1 (In_Box 0) None, bag_item 3264 1 (In_Box 0) None, bag_item 3264 1 (On_Player 7) None, bag_item 3264 1 (On_Player 7) None,
      bag_item 2854 1 No_Parent (Some \<lparr>bx_items = [], bx_maxSize = 20, bx_maxItems = 100, bx_unlocked = True,
        bx_pagination = False, bx_inbox = False, bx_weight = 0\<rparr>)]"

definition stuffed_carrier :: carrier where
  "stuffed_carrier = gear_carrier\<lparr>cr_slots := (\<lambda>_. None)(3 := Some 0, 5 := Some 3, 6 := Some 4)\<rparr>"

lemma gear_heap_ok: "heap_ok (ev_types gear_env) gear_heap"
  by (rule heap_check_ok) code_simp

lemma gear_carrier_ok: "carrier_ok gear_heap gear_carrier"
  by (simp add: carrier_ok_def gear_carrier_def gear_heap_def slot_item_def slot_defs bag_world_def bag_item_def)

theorem hands_stay_legal_witness:
  "case inv_addThing 5 6 (inv_removeThing (ev_types gear_env) 6 1 (gear_carrier, gear_heap)) of (q, g) \<Rightarrow> hands_ok gear_env g q"
proof (rule hands_stay_legal [of gear_env gear_heap gear_carrier 5 6 1 no_flags])
  show "hand_types_ok gear_env" by (simp add: hand_types_ok_def gear_env_def gear_types_def bag_types_def SLOTP_TWO_HAND_def SLOTP_RIGHT_def SLOTP_LEFT_def)
  show "hands_ok gear_env gear_heap gear_carrier" by (simp add: hands_ok_def gear_carrier_def slot_item_def slot_defs)
  show "inv_queryAdd gear_env gear_heap gear_carrier 5 6 1 no_flags = RET_NOERROR" by code_simp
  show "\<not> fl_childIsOwner no_flags" by code_simp
  show "isStackable (ev_types gear_env) (gear_heap ! 6) \<longrightarrow> 1 = ucast (it_count (gear_heap ! 6))" by code_simp
qed


theorem carried_weight_exact_witness:
  "cr_weight (updateInventoryWeight (ev_types gear_env) gear_heap gear_carrier) =
    (\<Sum>x\<in>below gear_heap (worn gear_carrier). item_weight (ev_types gear_env) (gear_heap ! x)) \<and>
   cr_weight (updateInventoryWeight (ev_types gear_env) gear_heap gear_carrier) = 5400"
proof
  have "\<not> cr_infinite gear_carrier" by code_simp
  then show "cr_weight (updateInventoryWeight (ev_types gear_env) gear_heap gear_carrier) =
    (\<Sum>x\<in>below gear_heap (worn gear_carrier). item_weight (ev_types gear_env) (gear_heap ! x))"
    using carried_weight_exact [OF gear_heap_ok gear_carrier_ok] by blast
  show "cr_weight (updateInventoryWeight (ev_types gear_env) gear_heap gear_carrier) = 5400" by code_simp
qed

theorem overfull_box_swallows_witness:
  "inv_queryDestination gear_env stuffed_heap stuffed_carrier INDEX_WHEREEVER 5 None no_flags = Some (Cyl_Box 0, 2, None) \<and>
   addThing (ev_types gear_env) 0 2 5 stuffed_heap = stuffed_heap"
proof -
  have s: "dest_slots gear_env stuffed_heap stuffed_carrier 5 no_flags (butlast slot_list) [] = Inr [0]" by code_simp
  have l: "length (itemlist stuffed_heap 0) = 2" by code_simp
  have f: "unat (bx_maxSize (box_of stuffed_heap 0)) < length (itemlist stuffed_heap 0)" by code_simp
  have f2: "length (itemlist stuffed_heap 0) < 2 ^ 31" by (simp add: l)
  have n: "\<not> isStackable (ev_types gear_env) (stuffed_heap ! 5)" by code_simp
  have a: "accepts gear_env stuffed_heap 5 no_flags 0 (int (length (itemlist stuffed_heap 0)))" by code_simp
  show ?thesis using overfull_box_swallows [OF s f f2 _ a] n l by simp
qed

end
