(* ===== verification/Trade_Runs.thy ===== *)
theory Trade_Runs
  imports Trade Inventory_Laws
begin

text \<open>
  The runs of all trades: partners agree on each other, and the table of offered items says who offers what.
\<close>

subsection \<open>The invariant\<close>

definition trader_ok :: "trader \<Rightarrow> bool" where
  "trader_ok t \<longleftrightarrow> td_state t \<noteq> TRADE_TRANSFER \<and> (td_state t = TRADE_NONE \<longleftrightarrow> td_partner t = None) \<and>
     (td_state t = TRADE_NONE \<or> td_state t = TRADE_ACKNOWLEDGE \<longrightarrow> td_item t = None) \<and> (td_state t = TRADE_INITIATED \<longrightarrow> td_item t \<noteq> None)"

definition partners_ok :: "(nat \<Rightarrow> trader) \<Rightarrow> bool" where
  "partners_ok f \<longleftrightarrow> (\<forall>p q. td_partner (f p) = Some q \<longrightarrow> q \<noteq> p \<and> td_partner (f q) = Some p \<and>
     (td_item (f p) \<noteq> None \<or> td_item (f q) \<noteq> None) \<and> \<not> (td_state (f p) = TRADE_ACCEPT \<and> td_state (f q) = TRADE_ACCEPT))"

definition trades_ok :: "(nat \<Rightarrow> trader) \<Rightarrow> (nat \<times> nat) list \<Rightarrow> bool" where
  "trades_ok f l \<longleftrightarrow> (\<forall>p. trader_ok (f p)) \<and> partners_ok f \<and> (\<forall>a p. map_of l a = Some p \<longleftrightarrow> td_item (f p) = Some a)"

text \<open>A pair that is over, and nobody else touched.\<close>

lemma no_trader_simps [simp]: "td_state no_trader = TRADE_NONE" "td_item no_trader = None" "td_partner no_trader = None"
  by (simp_all add: no_trader_def)

lemma end_pair:
  assumes ok: "trades_ok f l" and p: "td_partner (f p) = Some q"
    and m: "\<And>a. map_of l' a = (if td_item (f p) = Some a \<or> td_item (f q) = Some a then None else map_of l a)"
  shows "trades_ok (f(p := no_trader, q := no_trader)) l'"
proof -
  have P: "partners_ok f" and I: "\<And>a p. map_of l a = Some p \<longleftrightarrow> td_item (f p) = Some a" and T: "\<And>p. trader_ok (f p)"
    using ok unfolding trades_ok_def by blast+
  have q: "td_partner (f q) = Some p" using P p unfolding partners_ok_def by blast
  let ?g = "f(p := no_trader, q := no_trader)"
  have "partners_ok ?g" unfolding partners_ok_def
  proof (intro allI impI)
    fix r s assume r: "td_partner (?g r) = Some s"
    then have rn: "r \<noteq> p" "r \<noteq> q" and rs: "td_partner (f r) = Some s" by (auto split: if_splits)
    have sr: "td_partner (f s) = Some r" using P rs unfolding partners_ok_def by blast
    then have "s \<noteq> p" "s \<noteq> q" using p q rn by auto
    then have e: "?g s = f s" "?g r = f r" using rn by simp_all
    show "s \<noteq> r \<and> td_partner (?g s) = Some r \<and> (td_item (?g r) \<noteq> None \<or> td_item (?g s) \<noteq> None) \<and>
      \<not> (td_state (?g r) = TRADE_ACCEPT \<and> td_state (?g s) = TRADE_ACCEPT)"
      unfolding e using P rs unfolding partners_ok_def by blast
  qed
  moreover have "trader_ok no_trader" by (simp add: trader_ok_def)
  then have "trader_ok (?g r)" for r using T [of r] by simp
  moreover have "map_of l' a = Some r \<longleftrightarrow> td_item (?g r) = Some a" for a r
  proof -
    have "map_of l a = Some p" if "td_item (f p) = Some a" using I that by simp
    moreover have "map_of l a = Some q" if "td_item (f q) = Some a" using I that by simp
    moreover have "map_of l a = Some r \<longleftrightarrow> td_item (f r) = Some a" by (rule I)
    ultimately show ?thesis unfolding m by (cases "r = p"; cases "r = q") auto
  qed
  ultimately show ?thesis unfolding trades_ok_def by blast
qed

abbreviation tr_ok :: "trade_world \<Rightarrow> bool" where
  "tr_ok W \<equiv> trades_ok (tr_traders W) (tr_items W)"

lemma tr_simps [simp]:
  "tr_traders (set_trader p t W) = (tr_traders W)(p := t)" "tr_items (set_trader p t W) = tr_items W"
  "tr_traders (drop_item x W) = tr_traders W" "map_of (tr_items (drop_item x W)) a = (if x = Some a then None else map_of (tr_items W) a)"
  "tr_traders (lift_world W V) = tr_traders W" "tr_items (lift_world W V) = tr_items W"
  "pw_heap (set_trader p t W) = pw_heap W" "pw_heap (drop_item x W) = pw_heap W"
  by (auto simp: set_trader_def drop_item_def lift_world_def AList.delete_conv' split: option.splits)

lemma drop_item_map: "map_of (tr_items (drop_item x W)) = (\<lambda>a. if x = Some a then None else map_of (tr_items W) a)"
  by (rule ext) simp

lemma okD:
  assumes "tr_ok W"
  shows "trader_ok (tr_traders W p)" and "partners_ok (tr_traders W)" and "map_of (tr_items W) a = Some p \<longleftrightarrow> td_item (tr_traders W p) = Some a"
  using assms unfolding trades_ok_def by blast+

lemma partnersD:
  assumes "partners_ok f" and "td_partner (f p) = Some q"
  shows "q \<noteq> p" and "td_partner (f q) = Some p" and "td_item (f p) \<noteq> None \<or> td_item (f q) \<noteq> None"
    and "\<not> (td_state (f p) = TRADE_ACCEPT \<and> td_state (f q) = TRADE_ACCEPT)"
  using assms unfolding partners_ok_def by blast+

lemma alone: "trader_ok t \<Longrightarrow> td_partner t = None \<Longrightarrow> t = no_trader"
  by (simp add: trader_ok_def no_trader_def)

lemma not_transfer: "trader_ok t \<Longrightarrow> td_state t \<noteq> TRADE_TRANSFER"
  by (simp add: trader_ok_def)

lemma close_keeps:
  assumes o: "tr_ok W"
  shows "tr_ok (internalCloseTrade p W)"
proof (cases "td_partner (tr_traders W p)")
  case None
  then have e: "tr_traders W p = no_trader" by (rule alone [OF okD(1) [OF o]])
  then have "(tr_traders W)(p := no_trader) = tr_traders W" by (simp add: fun_upd_idem)
  moreover have "internalCloseTrade p W = close_one p W" using None e by (simp add: internalCloseTrade_def)
  moreover have "drop_item None W = W" by (simp add: drop_item_def)
  ultimately show ?thesis using o e by (simp add: close_one_def)
next
  case (Some q)
  have qp: "q \<noteq> p" by (rule partnersD(1) [OF okD(2) [OF o] Some])
  have n: "td_state (tr_traders W q) \<noteq> TRADE_TRANSFER" "td_state (tr_traders W p) \<noteq> TRADE_TRANSFER" using not_transfer okD(1) [OF o] by blast+
  have "internalCloseTrade p W = close_one q (close_one p W)" using Some n by (simp add: internalCloseTrade_def)
  moreover have "tr_ok (close_one q (close_one p W))"
    using end_pair [OF o Some, of "tr_items (close_one q (close_one p W))"] qp by (simp add: close_one_def)
  ultimately show ?thesis by simp
qed

subsection \<open>Every operation keeps it\<close>

lemma start_keeps:
  assumes o: "tr_ok W" and pq: "p \<noteq> q" and a: "map_of (tr_items W) a = None"
  shows "tr_ok (snd (internalStartTrade p q a W))"
proof -
  let ?f = "tr_traders W" and ?P = "\<lparr>td_state = TRADE_INITIATED, td_item = Some a, td_partner = Some q\<rparr>"
  let ?l = "AList.update a p (tr_items W)"
  note P = okD(2) [OF o] and T = okD(1) [OF o] and I = okD(3) [OF o]
  have noone: "td_item (?f r) \<noteq> Some a" for r using I [of a r] a by simp
  have l: "map_of ?l = (map_of (tr_items W))(a \<mapsto> p)" by (simp add: AList.update_conv')
  have items: "map_of ?l b = Some r \<longleftrightarrow> td_item (g r) = Some b"
    if g: "g p = ?P" "\<And>r. r \<noteq> p \<Longrightarrow> td_item (g r) = td_item (?f r)" and p: "td_item (?f p) = None" for g b r
  proof (cases "r = p")
    case True
    have "map_of (tr_items W) b \<noteq> Some p" using I [of b p] p by simp
    then show ?thesis using True g(1) unfolding l by simp
  next
    case False
    then show ?thesis using g(2) [OF False] I [of b r] noone [of r] unfolding l by auto
  qed
  consider (same) "snd (internalStartTrade p q a W) = W"
    | (new) "td_state (?f p) = TRADE_NONE" "td_state (?f q) = TRADE_NONE"
    | (answer) "td_state (?f p) = TRADE_ACKNOWLEDGE" "td_partner (?f p) = Some q" "td_state (?f q) \<noteq> TRADE_NONE"
    | (odd) "td_state (?f p) = TRADE_NONE" "td_partner (?f q) = Some p"
    | (odd2) "td_partner (?f p) = Some q" "td_state (?f q) = TRADE_NONE"
  proof (cases "td_state (?f p) \<noteq> TRADE_NONE \<and> \<not> (td_state (?f p) = TRADE_ACKNOWLEDGE \<and> td_partner (?f p) = Some q) \<or>
      td_state (?f q) \<noteq> TRADE_NONE \<and> td_partner (?f q) \<noteq> Some p")
    case True
    then have "internalStartTrade p q a W = (False, W)" unfolding internalStartTrade_def Let_def by (elim disjE) simp_all
    then show thesis using that(1) by simp
  next
    case False
    then show thesis using that(2-5) by blast
  qed
  then show ?thesis
  proof cases
    case same
    then show ?thesis using o by simp
  next
    case odd
    have "td_partner (?f p) = Some q" by (rule partnersD(2) [OF P odd(2)])
    then show ?thesis using T [of p] odd(1) by (simp add: trader_ok_def)
  next
    case odd2
    have "td_partner (?f q) = Some p" by (rule partnersD(2) [OF P odd2(1)])
    then show ?thesis using T [of q] odd2(2) by (simp add: trader_ok_def)
  next
    case new
    show ?thesis
    proof (cases "untradeable W a")
      case True
      then show ?thesis using o new by (simp add: internalStartTrade_def)
    next
      case False
      let ?Q = "(?f q)\<lparr>td_state := TRADE_ACKNOWLEDGE, td_partner := Some p\<rparr>" and ?g = "?f(p := ?P, q := (?f q)\<lparr>td_state := TRADE_ACKNOWLEDGE, td_partner := Some p\<rparr>)"
      have np: "td_partner (?f p) = None" "td_item (?f p) = None" "td_partner (?f q) = None" "td_item (?f q) = None"
        using T [of p] T [of q] new by (simp_all add: trader_ok_def)
      have r: "tr_traders (snd (internalStartTrade p q a W)) = ?g" "tr_items (snd (internalStartTrade p q a W)) = ?l"
        using new False pq by (simp_all add: internalStartTrade_def Let_def set_trader_def)
      have "trader_ok (?g r)" for r using T [of r] np by (simp add: trader_ok_def)
      moreover have "partners_ok ?g" unfolding partners_ok_def
      proof (intro allI impI)
        fix r s assume rs: "td_partner (?g r) = Some s"
        show "s \<noteq> r \<and> td_partner (?g s) = Some r \<and> (td_item (?g r) \<noteq> None \<or> td_item (?g s) \<noteq> None) \<and>
          \<not> (td_state (?g r) = TRADE_ACCEPT \<and> td_state (?g s) = TRADE_ACCEPT)"
        proof (cases "r = p \<or> r = q")
          case True
          then show ?thesis using rs pq by auto
        next
          case no: False
          then have f: "td_partner (?f r) = Some s" using rs by simp
          have "td_partner (?f s) = Some r" by (rule partnersD(2) [OF P f])
          then have "s \<noteq> p" "s \<noteq> q" using np by auto
          then have e: "?g s = ?f s" "?g r = ?f r" using no by simp_all
          show ?thesis unfolding e using partnersD [OF P f] by blast
        qed
      qed
      moreover have "map_of ?l b = Some r \<longleftrightarrow> td_item (?g r) = Some b" for b r
        by (rule items) (use pq np in auto)
      ultimately show ?thesis unfolding r trades_ok_def by blast
    qed
  next
    case answer
    show ?thesis
    proof (cases "untradeable W a")
      case True
      have "td_partner (?f q) = Some p" by (rule partnersD(2) [OF P answer(2)])
      then show ?thesis using o answer True by (simp add: internalStartTrade_def)
    next
      case False
      let ?g = "?f(p := ?P)"
      have qp: "td_partner (?f q) = Some p" by (rule partnersD(2) [OF P answer(2)])
      have ip: "td_item (?f p) = None" using T [of p] answer(1) by (simp add: trader_ok_def)
      have r: "tr_traders (snd (internalStartTrade p q a W)) = ?g" "tr_items (snd (internalStartTrade p q a W)) = ?l"
        using answer False pq qp by (simp_all add: internalStartTrade_def Let_def set_trader_def)
      have "trader_ok (?g r)" for r using T [of r] by (simp add: trader_ok_def)
      moreover have "partners_ok ?g" unfolding partners_ok_def
      proof (intro allI impI)
        fix r s assume rs: "td_partner (?g r) = Some s"
        then have f: "td_partner (?f r) = Some s" using answer(2) by (cases "r = p") simp_all
        note d = partnersD [OF P f]
        show "s \<noteq> r \<and> td_partner (?g s) = Some r \<and> (td_item (?g r) \<noteq> None \<or> td_item (?g s) \<noteq> None) \<and>
          \<not> (td_state (?g r) = TRADE_ACCEPT \<and> td_state (?g s) = TRADE_ACCEPT)"
        proof (cases "r = p")
          case True
          then have "s = q" using f answer(2) by simp
          then show ?thesis using True pq qp by simp
        next
          case no: False
          then show ?thesis using d answer(2) by (cases "s = p") auto
        qed
      qed
      moreover have "map_of ?l b = Some r \<longleftrightarrow> td_item (?g r) = Some b" for b r
        by (rule items) (use ip in auto)
      ultimately show ?thesis unfolding r trades_ok_def by blast
    qed
  qed
qed

lemma request_keeps:
  assumes "tr_ok W"
  shows "tr_ok (playerRequestTrade E p q a W)"
proof (cases "p \<noteq> q \<and> map_of (tr_items W) a = None")
  case True
  then show ?thesis using assms start_keeps [OF assms] by (simp add: playerRequestTrade_def Let_def)
next
  case False
  have "list_ex (\<lambda>x. in_trade W a (fst x)) (tr_items W)" if m: "map_of (tr_items W) a \<noteq> None"
  proof -
    obtain r where "map_of (tr_items W) a = Some r" using m by blast
    then have "(a, r) \<in> set (tr_items W)" by (rule map_of_SomeD)
    then show ?thesis by (auto simp: list_ex_iff in_trade_def intro!: bexI [of _ "(a, r)"])
  qed
  then show ?thesis using False assms by (auto simp: playerRequestTrade_def Let_def)
qed

lemma check_keeps: "tr_ok W \<Longrightarrow> tr_ok (checkTradeState p a W)"
  by (auto simp: checkTradeState_def close_keeps split: option.splits)

lemma notice_keeps:
  assumes "tr_ok W"
  shows "tr_ok (onRemoveItem p a W)" and "tr_ok (onRemoveContainerItem p c a W)" and "tr_ok (trade_onMove p b b' W)" and "tr_ok (trade_onLogout p W)"
  using assms by (auto simp: onRemoveItem_def onRemoveContainerItem_def trade_onMove_def trade_onLogout_def Let_def close_keeps check_keeps split: option.splits)

lemma update_keeps:
  assumes "tr_ok W"
  shows "tr_ok (onUpdateInventoryItem p a b W)" and "tr_ok (onUpdateContainerItem p c a b W)" and "tr_ok (onUpdateTileItem p a b W)"
  using assms by (auto simp: onUpdateInventoryItem_def onUpdateContainerItem_def onUpdateTileItem_def Let_def close_keeps check_keeps notice_keeps)

lemma swap_traders: "swap_items E p q x1 x2 W = Some (b, W') \<Longrightarrow> tr_traders W' = tr_traders W \<and> tr_items W' = tr_items W"
  by (auto simp: swap_items_def try_remove_def give_def Let_def split: option.splits if_splits)

lemma accept_keeps:
  assumes o: "tr_ok W" and r: "playerAcceptTrade E p W = Some W'"
  shows "tr_ok W'"
proof -
  let ?f = "tr_traders W"
  consider "W' = W" | q where "td_state (?f p) = TRADE_ACKNOWLEDGE \<or> td_state (?f p) = TRADE_INITIATED" "td_partner (?f p) = Some q"
    using r by (auto simp: playerAcceptTrade_def Let_def split: if_splits option.splits)
  then show ?thesis
  proof cases
    case 1
    then show ?thesis using o by simp
  next
    case (2 q)
    note P = okD(2) [OF o] and T = okD(1) [OF o] and I = okD(3) [OF o]
    note pq = partnersD [OF P 2(2)]
    let ?W1 = "set_state p TRADE_ACCEPT W"
    let ?x1 = "td_item (tr_traders ?W1 p)" and ?x2 = "td_item (tr_traders ?W1 q)"
    have x: "?x1 = td_item (?f p)" "?x2 = td_item (?f q)" using pq(1) by (simp_all add: set_state_def)
    have q1: "td_state (tr_traders ?W1 q) = td_state (?f q)" using pq(1) by (simp add: set_state_def)
    have g: "tr_traders ?W1 r = (if r = p then (?f p)\<lparr>td_state := TRADE_ACCEPT\<rparr> else ?f r)" for r by (simp add: set_state_def)
    show ?thesis
    proof (cases "tv_sees E q p \<and> td_state (?f q) = TRADE_ACCEPT")
      case False
      then have "W' = W \<or> W' = ?W1 \<and> td_state (?f q) \<noteq> TRADE_ACCEPT"
        using r 2 by (auto simp: playerAcceptTrade_def Let_def q1 split: if_splits)
      moreover have "tr_ok ?W1" if n: "td_state (?f q) \<noteq> TRADE_ACCEPT"
      proof -
        have "trader_ok (tr_traders ?W1 r)" for r using T [of r] 2 by (simp add: g trader_ok_def)
        moreover have "partners_ok (tr_traders ?W1)" unfolding partners_ok_def
        proof (intro allI impI)
          fix r s assume "td_partner (tr_traders ?W1 r) = Some s"
          then have f: "td_partner (?f r) = Some s" by (simp add: g split: if_splits)
          note d = partnersD [OF P f]
          have "s = p \<Longrightarrow> r = q" "r = p \<Longrightarrow> s = q" using d(2) 2(2) f by auto
          then show "s \<noteq> r \<and> td_partner (tr_traders ?W1 s) = Some r \<and> (td_item (tr_traders ?W1 r) \<noteq> None \<or> td_item (tr_traders ?W1 s) \<noteq> None) \<and>
            \<not> (td_state (tr_traders ?W1 r) = TRADE_ACCEPT \<and> td_state (tr_traders ?W1 s) = TRADE_ACCEPT)"
            using d n pq(1) by (auto simp: g)
        qed
        moreover have "map_of (tr_items ?W1) b = Some r \<longleftrightarrow> td_item (tr_traders ?W1 r) = Some b" for b r
          using I [of b r] by (simp add: g set_state_def)
        ultimately show ?thesis unfolding trades_ok_def by blast
      qed
      ultimately show ?thesis using o by blast
    next
      case True
      let ?T = "set_state q TRADE_TRANSFER (set_state p TRADE_TRANSFER ?W1)"
      have "td_state (tr_traders ?W1 p) \<noteq> TRADE_TRANSFER" "td_partner (tr_traders ?W1 p) = Some q" "td_state (tr_traders ?W1 q) \<noteq> TRADE_TRANSFER"
        using True 2(2) pq(1) by (simp_all add: g)
      then have c: "internalCloseTrade p ?W1 = close_one q (close_one p ?W1)" by (simp add: internalCloseTrade_def)
      have "W' = internalCloseTrade p ?W1 \<or> (\<exists>b W2. swap_items E p q ?x1 ?x2 (drop_item ?x2 (drop_item ?x1 ?T)) = Some (b, W2) \<and>
          W' = set_trader q no_trader (set_trader p no_trader W2))"
        using r 2 True unfolding playerAcceptTrade_def Let_def q1 by (auto simp: q1 split: if_splits option.splits)
      then show ?thesis
      proof (elim disjE exE conjE)
        assume w: "W' = internalCloseTrade p ?W1"
        show ?thesis unfolding w c
          using end_pair [OF o 2(2), of "tr_items (close_one q (close_one p ?W1))"] pq(1) x by (simp add: close_one_def set_state_def)
      next
        fix b W2 assume s: "swap_items E p q ?x1 ?x2 (drop_item ?x2 (drop_item ?x1 ?T)) = Some (b, W2)"
          and w: "W' = set_trader q no_trader (set_trader p no_trader W2)"
        note k = swap_traders [OF s]
        have m: "map_of (tr_items W2) a = (if td_item (?f p) = Some a \<or> td_item (?f q) = Some a then None else map_of (tr_items W) a)" for a
          using k pq(1) by (simp add: x set_state_def)
        have "(tr_traders W2)(p := no_trader, q := no_trader) = ?f(p := no_trader, q := no_trader)"
          using k by (simp add: set_state_def fun_upd_twist fun_eq_iff)
        then show ?thesis unfolding w using end_pair [OF o 2(2) m] by simp
      qed
    qed
  qed
qed

subsection \<open>Runs\<close>

datatype trade_op = Tr_Request nat nat nat | Tr_Accept nat | Tr_Close nat | Tr_Removed nat nat | Tr_Removed_From nat nat nat
  | Tr_Added nat nat | Tr_Updated nat nat nat | Tr_Updated_In nat nat nat nat | Tr_Updated_Tile nat nat nat | Tr_Move nat bool bool
  | Tr_Logout nat | Tr_World place_world

text \<open>\<open>Tr_World\<close> is anything else that happens to items.\<close>

fun trade_step :: "trade_env \<Rightarrow> trade_op \<Rightarrow> trade_world \<Rightarrow> trade_world option" where
  "trade_step E (Tr_Request p q a) W = Some (playerRequestTrade E p q a W)"
| "trade_step E (Tr_Accept p) W = playerAcceptTrade E p W"
| "trade_step E (Tr_Close p) W = Some (internalCloseTrade p W)"
| "trade_step E (Tr_Removed p a) W = Some (onRemoveItem p a W)"
| "trade_step E (Tr_Removed_From p c a) W = Some (onRemoveContainerItem p c a W)"
| "trade_step E (Tr_Added p a) W = Some (checkTradeState p a W)"
| "trade_step E (Tr_Updated p a b) W = Some (onUpdateInventoryItem p a b W)"
| "trade_step E (Tr_Updated_In p c a b) W = Some (onUpdateContainerItem p c a b W)"
| "trade_step E (Tr_Updated_Tile p a b) W = Some (onUpdateTileItem p a b W)"
| "trade_step E (Tr_Move p x y) W = Some (trade_onMove p x y W)"
| "trade_step E (Tr_Logout p) W = Some (trade_onLogout p W)"
| "trade_step E (Tr_World V) W = Some (lift_world W V)"

fun trade_run :: "trade_env \<Rightarrow> trade_op list \<Rightarrow> trade_world \<Rightarrow> trade_world option" where
  "trade_run E [] W = Some W"
| "trade_run E (t # ts) W = (case trade_step E t W of None \<Rightarrow> None | Some W' \<Rightarrow> trade_run E ts W')"

lemma step_keeps: "tr_ok W \<Longrightarrow> trade_step E t W = Some W' \<Longrightarrow> tr_ok W'"
  by (cases t) (auto simp: close_keeps request_keeps check_keeps notice_keeps update_keeps accept_keeps)

lemma run_keeps: "tr_ok W \<Longrightarrow> trade_run E ts W = Some W' \<Longrightarrow> tr_ok W'"
  by (induction ts arbitrary: W) (auto dest: step_keeps split: option.splits)

definition no_trades :: "place_world \<Rightarrow> trade_world" where
  "no_trades V = place_world.extend V \<lparr>tr_traders = (\<lambda>_. no_trader), tr_items = []\<rparr>"

lemma no_trades_ok: "tr_ok (no_trades V)"
  by (simp add: no_trades_def place_world.defs trades_ok_def trader_ok_def partners_ok_def)

text \<open>C38: in any run of requests, acceptances, refusals, steps, logouts and changes of items, nobody trades with himself and partners
  name each other; one of them offers something, and the trade is not open any more once both have accepted; an item is offered
  by one player at most, and the table of offered items has exactly the items of open trades under the names of those who offer
  them.\<close>

theorem trades_stay_consistent:
  assumes r: "trade_run E ts (no_trades V) = Some W"
  shows "(td_partner (tr_traders W p) = Some q \<longrightarrow> q \<noteq> p \<and> td_partner (tr_traders W q) = Some p \<and>
      (td_item (tr_traders W p) \<noteq> None \<or> td_item (tr_traders W q) \<noteq> None) \<and>
      \<not> (td_state (tr_traders W p) = TRADE_ACCEPT \<and> td_state (tr_traders W q) = TRADE_ACCEPT)) \<and>
    (td_partner (tr_traders W p) = None \<longrightarrow> tr_traders W p = no_trader) \<and>
    (map_of (tr_items W) a = Some p \<longleftrightarrow> td_item (tr_traders W p) = Some a)"
proof -
  have o: "tr_ok W" by (rule run_keeps [OF no_trades_ok r])
  show ?thesis using partnersD [OF okD(2) [OF o]] okD(3) [OF o] alone [OF okD(1) [OF o]] by blast
qed

lemma swap_none: "x1 = None \<or> x2 = None \<Longrightarrow> swap_items E p q x1 x2 W = Some (b, W') \<Longrightarrow> W' = W"
  by (auto simp: swap_items_def try_add_def split: option.splits if_splits)

text \<open>C39: an acceptance moves items, or changes what a player wears, only when both players have offered something and the other one
  has accepted before; and then no trade is open between them afterwards.\<close>

theorem nothing_moves_unaccepted:
  assumes run: "trade_run E ts (no_trades V) = Some W" and r: "playerAcceptTrade E p W = Some W'" and m: "pw_heap W' \<noteq> pw_heap W \<or> pw_carriers W' \<noteq> pw_carriers W"
  shows "\<exists>q a b. td_partner (tr_traders W p) = Some q \<and> td_item (tr_traders W p) = Some a \<and> td_item (tr_traders W q) = Some b \<and>
    td_state (tr_traders W q) = TRADE_ACCEPT \<and> tr_traders W' p = no_trader \<and> tr_traders W' q = no_trader"
proof -
  have k: "pw_carriers (set_trader s t V) = pw_carriers V" "pw_carriers (drop_item x V) = pw_carriers V" "pw_carriers (set_state s u V) = pw_carriers V"
    "pw_heap (set_state s u V) = pw_heap V" for s t x u V by (simp_all add: set_state_def set_trader_def drop_item_def split: option.splits)
  have c: "pw_heap (internalCloseTrade s V) = pw_heap V \<and> pw_carriers (internalCloseTrade s V) = pw_carriers V" for s V
    by (simp add: internalCloseTrade_def close_one_def k Let_def split: option.splits)
  have W: "W' \<noteq> W" "\<And>u. W' \<noteq> set_state p u W" "\<And>u. W' \<noteq> internalCloseTrade p (set_state p u W)" using m c k by metis+
  let ?W1 = "set_state p TRADE_ACCEPT W"
  obtain q where q: "td_partner (tr_traders W p) = Some q" "td_state (tr_traders ?W1 q) = TRADE_ACCEPT"
    using r W by (auto simp: playerAcceptTrade_def Let_def split: if_splits option.splits)
  let ?x1 = "td_item (tr_traders ?W1 p)" and ?x2 = "td_item (tr_traders ?W1 q)"
  let ?T = "drop_item ?x2 (drop_item ?x1 (set_state q TRADE_TRANSFER (set_state p TRADE_TRANSFER ?W1)))"
  obtain b W2 where s: "swap_items E p q ?x1 ?x2 ?T = Some (b, W2)" and w: "W' = set_trader q no_trader (set_trader p no_trader W2)"
    using r q W unfolding playerAcceptTrade_def Let_def by (auto split: if_splits option.splits)
  have "?x1 \<noteq> None \<and> ?x2 \<noteq> None"
  proof (rule ccontr)
    assume "\<not> ?thesis"
    then have "?x1 = None \<or> ?x2 = None" by blast
    from swap_none [OF this s] have "W2 = ?T" .
    then show False using m w k by simp
  qed
  then obtain x y where "?x1 = Some x" "?x2 = Some y" by blast
  moreover have "q \<noteq> p" by (rule partnersD(1) [OF okD(2) [OF run_keeps [OF no_trades_ok run]] q(1)])
  ultimately have "td_item (tr_traders W p) = Some x" "td_item (tr_traders W q) = Some y" "td_state (tr_traders W q) = TRADE_ACCEPT"
    using q(2) by (simp_all add: set_state_def)
  then show ?thesis using q(1) w by auto
qed

text \<open>C99: an acceptance that is given before the other player has offered anything is not withdrawn when the offer comes: the other
  player decides with it what is exchanged.\<close>

theorem early_acceptance_binds:
  assumes n: "tr_traders W p = no_trader" "tr_traders W q = no_trader" "p \<noteq> q" and t: "\<not> untradeable W a" "\<not> untradeable W b" and s: "tv_sees E q p"
  shows "case playerAcceptTrade E p (snd (internalStartTrade p q a W)) of
      Some W2 \<Rightarrow> (case internalStartTrade q p b W2 of (started, W3) \<Rightarrow>
        started \<and> td_state (tr_traders W3 p) = TRADE_ACCEPT \<and> td_item (tr_traders W3 q) = Some b \<and> td_partner (tr_traders W3 q) = Some p)
    | None \<Rightarrow> False"
  using assms by (simp add: internalStartTrade_def playerAcceptTrade_def Let_def set_state_def set_trader_def untradeable_def)

subsection \<open>A trade that only one player keeps\<close>

definition shop_types :: types where
  "shop_types i = (bag_types i)\<lparr>ty_container := (i = 2854)\<rparr>"

definition shop_env :: trade_env where
  "shop_env = \<lparr>ev_types = shop_types, ev_maxContainer = 100, ev_isOwner = (\<lambda>_ _. True), ev_hasCapacity = (\<lambda>_ _ _ _. True),
     iv_slotPosition = (\<lambda>i. if i = 2854 then 4 else if i = 3357 then 8 else 48),
     iv_weaponType = (\<lambda>_. WEAPON_NONE), iv_onEquip = (\<lambda>_ _ _. True),
     tv_asks = (\<lambda>_ _ _. True), tv_sees = (\<lambda>_ _. True), tv_houseRule = (\<lambda>_ _. False), tv_onRequest = (\<lambda>_ _ _. True), tv_onAccept = (\<lambda>_ _ _ _. True)\<rparr>"

definition shop_bag :: "nat list \<Rightarrow> u32 \<Rightarrow> u32 \<Rightarrow> box" where
  "shop_bag l n w = \<lparr>bx_items = l, bx_maxSize = n, bx_maxItems = 100, bx_unlocked = True, bx_pagination = False, bx_inbox = False, bx_weight = w\<rparr>"

text \<open>Player 1 wears an armor and a backpack whose only place is taken by 50 coins; player 2 has a backpack with 40 coins.\<close>

definition shop_heap :: heap where
  "shop_heap = [bag_item 2854 1 (On_Player 1) (Some (shop_bag [2] 1 500)), bag_item 3357 1 (On_Player 1) None, bag_item ITEM_GOLD_COIN 50 (In_Box 0) None,
     bag_item 2854 1 (On_Player 2) (Some (shop_bag [4] 20 400)), bag_item ITEM_GOLD_COIN 40 (In_Box 3) None]"

definition shop_carrier :: "nat \<Rightarrow> carrier" where
  "shop_carrier p = \<lparr>cr_id = p, cr_slots = (if p = 1 then (\<lambda>_. None)(3 := Some 0, 4 := Some 1) else if p = 2 then (\<lambda>_. None)(3 := Some 3) else (\<lambda>_. None)),
     cr_cannotPickup = False, cr_infinite = False, cr_capacity = 40000, cr_weight = 1000, cr_tradeItem = None\<rparr>"

definition shop_world :: trade_world where
  "shop_world = no_trades \<lparr>pw_heap = shop_heap, pw_carriers = shop_carrier, pw_decay = []\<rparr>"


subsection \<open>The other properties at the sample\<close>

definition shop_run :: "trade_op list" where
  "shop_run = [Tr_Request 1 2 1, Tr_Request 2 1 4, Tr_Accept 2]"

lemma shop_run_ends: "\<exists>W. trade_run shop_env shop_run shop_world = Some W"
proof -
  have "trade_run shop_env shop_run shop_world \<noteq> None" by code_simp
  then show ?thesis by blast
qed

theorem trades_stay_consistent_witness:
  "\<exists>W. trade_run shop_env shop_run shop_world = Some W \<and> (td_partner (tr_traders W 1) = Some 2 \<longrightarrow> td_partner (tr_traders W 2) = Some 1)"
proof -
  obtain W where W: "trade_run shop_env shop_run shop_world = Some W" using shop_run_ends by blast
  show ?thesis using trades_stay_consistent [OF W [unfolded shop_world_def], of 1 2] W by blast
qed

theorem nothing_moves_unaccepted_witness:
  "\<exists>W q. trade_run shop_env shop_run shop_world = Some W \<and> td_partner (tr_traders W 1) = Some q \<and> td_state (tr_traders W q) = TRADE_ACCEPT"
proof -
  obtain W where W: "trade_run shop_env shop_run shop_world = Some W" using shop_run_ends by blast
  have "case trade_run shop_env shop_run shop_world of None \<Rightarrow> False | Some W \<Rightarrow>
      (case playerAcceptTrade shop_env 1 W of None \<Rightarrow> False | Some W' \<Rightarrow> it_parent (pw_heap W' ! 1) \<noteq> it_parent (pw_heap W ! 1))" by code_simp
  then obtain W' where W': "playerAcceptTrade shop_env 1 W = Some W'" "it_parent (pw_heap W' ! 1) \<noteq> it_parent (pw_heap W ! 1)"
    by (auto simp: W split: option.splits)
  then have d: "pw_heap W' \<noteq> pw_heap W" by metis
  show ?thesis using nothing_moves_unaccepted [OF W [unfolded shop_world_def] W'(1) disjI1 [OF d]] W by blast
qed

theorem early_acceptance_binds_witness:
  "case playerAcceptTrade shop_env 1 (snd (internalStartTrade 1 2 1 shop_world)) of
      Some W2 \<Rightarrow> (case internalStartTrade 2 1 4 W2 of (started, W3) \<Rightarrow>
        started \<and> td_state (tr_traders W3 1) = TRADE_ACCEPT \<and> td_item (tr_traders W3 2) = Some 4 \<and> td_partner (tr_traders W3 2) = Some 1)
    | None \<Rightarrow> False"
proof (rule early_acceptance_binds)
  show "tr_traders shop_world 1 = no_trader" "tr_traders shop_world 2 = no_trader" by (simp_all add: shop_world_def no_trades_def place_world.defs)
  show "(1::nat) \<noteq> 2" by simp
  show "\<not> untradeable shop_world 1" "\<not> untradeable shop_world 4" "tv_sees shop_env 2 1" by code_simp+
qed

end
