(* ===== verification/Spec2Isabelle.thy ===== *)
theory Spec2Isabelle
  imports Positions Net_Message Net_Protocol Prop_Stream Std_Ext File_Stream Otb_Loader Wildcard_Tree Kv_Store
    Bank Account Admission Wheel Party Sight Path_Search Prey_Slots Market_Gold
    Scheduler_Order Thread_Races Item_Runs Decay_Effects Trade_Runs
begin

text \<open>
  A verification library for the Canary game server (\<open>src/src\<close>).

  \<^bold>\<open>The program.\<close> The server is one process. A connection delivers packets (\<open>server/network\<close>), which are framed,
  checked, decrypted and then parsed; each request becomes a task of the dispatcher
  (\<open>game/scheduling\<close>), whose main loop runs the tasks one after the other, so that the handlers of
  \<open>game/game.cpp\<close> never overlap. A handler works on players, their containers and items, parties, the market, prey
  slots, the wheel, and the bank, and it reads and writes the key-value store and the database.
  The map is read from files at the start (\<open>io/filestream\<close>, \<open>io/fileloader\<close>); creatures find
  their ways on it (\<open>map/map.cpp\<close>).

  \<^bold>\<open>Theories and sources.\<close> Definitions keep the names of the code; a prefix tells equal names apart
  (\<open>nm_\<close> message, \<open>al_\<close> array list, \<open>wt_\<close> name tree, \<open>bank_\<close>, \<open>prey_\<close>, ...). Records are the classes, with their fields at
  their width; \<open>u8\<close> to \<open>u64\<close> are words and wrap, integers of Isabelle are used where the code cannot overflow.

  \<^item> \<open>Prelude\<close>: names of the machine integers, their byte images, list and word lemmas, samples.
  \<^item> \<open>Positions\<close>: \<open>game/movement/position.hpp\<close>.
  \<^item> \<open>Net_Message\<close>: \<open>NetworkMessage\<close> and \<open>OutputMessage\<close>, the buffer with its position and length, every read, write and header.
  \<^item> \<open>Net_Protocol\<close>: \<open>Protocol::onSendMessage\<close> and \<open>onRecvMessage\<close> with checksum, sequence numbers, XTEA and compression;
    the compressor is an argument.
  \<^item> \<open>Prop_Stream\<close>, \<open>File_Stream\<close>, \<open>Otb_Loader\<close>: the binary readers of \<open>io/fileloader\<close> and \<open>io/filestream\<close>.
  \<^item> \<open>Std_Ext\<close>: \<open>utils/arraylist.hpp\<close> and \<open>utils/vectorset.hpp\<close>. \<open>Wildcard_Tree\<close>: \<open>utils/wildcardtree.cpp\<close>.
  \<^item> \<open>Kv_Store\<close>: \<open>kv/\<close>, a cache with eviction in front of the database, which is a map.
  \<^item> \<open>Bank\<close>, \<open>Account\<close>: \<open>game/bank\<close> and \<open>account/\<close>; both interpret the locale \<open>ledger\<close>.
  \<^item> \<open>Admission\<close>: \<open>Ban::acceptConnection\<close> and the waiting list of a full server.
  \<^item> \<open>Wheel\<close>: \<open>creatures/players/wheel/player_wheel.cpp\<close>, points, rules, saving and the stored blob.
  \<^item> \<open>Party\<close>: \<open>creatures/players/grouping/party.cpp\<close> with the handlers of \<open>Game\<close> and the logout.
  \<^item> \<open>Sight\<close>, \<open>Path_Search\<close>: \<open>map/map.cpp\<close> and \<open>map/utils/astarnodes.cpp\<close>; the tiles are arguments.
  \<^item> \<open>Prey\<close>, \<open>Prey_Grid\<close>, \<open>Prey_Slots\<close>: \<open>io/ioprey.cpp\<close>; random numbers are a stream of draws.
  \<^item> \<open>Money\<close>: \<open>Game::removeMoney\<close>, \<open>addMoney\<close>, \<open>getMoney\<close>, and the locale \<open>cashier\<close> of what pays for the prey handlers.
  \<^item> \<open>Market\<close>, \<open>Market_Gold\<close>, \<open>Market_Items\<close>: \<open>io/iomarket.cpp\<close> and the market handlers of \<open>Game\<close>.
  \<^item> \<open>Scheduler\<close>, \<open>Scheduler_Order\<close>, \<open>Thread_Races\<close>: \<open>game/scheduling/dispatcher\<close> and \<open>task\<close>; the
    main loop as steps on its queues, and two places where threads meet as step relations with all interleavings.
  \<^item> \<open>Item_Model\<close>, \<open>Containers\<close>, \<open>Container_Tree\<close>, \<open>Container_Ops\<close>, \<open>Container_Iterator\<close>, \<open>Item_Moves\<close>,
    \<open>Item_Laws\<close>, \<open>Item_Runs\<close>: \<open>items/item\<close>, \<open>items/containers/container\<close> and the moves, additions and removals of
    \<open>game/game.cpp\<close>, over a heap of items that name their parent and their contents by address.

  \<^bold>\<open>What the lemmas show.\<close> Each component has the invariant of its state and its preservation by every
  operation, what the operations return on every branch, and one of: a refinement of a plain structure
  (array list, set, key-value store), a round trip (messages, encryption, OTB, property streams, wheel rows), a
  conservation law over all runs (bank, coins, market gold, items), the order of execution
  (waiting list, dispatcher), or the end of a loop (path search, prey grids, item delivery). Where the code does not
  do what it means to, the theorem states what it does instead (\<open>prey_reroll_hangs\<close>, \<open>short_offer_loses_items\<close>,
  \<open>place_beyond_capacity_loses\<close>, \<open>handover_wakeup\<close>, the second halves of \<open>wheel_row_restored\<close> and \<open>parallel_group_ends\<close>).

  \<^bold>\<open>Interfaces.\<close> \<open>ledger\<close> (Bank, Account), \<open>byte_codec\<close> (integers and strings of property streams), \<open>deque\<close> and
  \<open>set_container\<close> (Std_Ext), \<open>name_index\<close> (Wildcard_Tree), \<open>cashier\<close> (Money, for Prey), \<open>metered\<close> (runs of item
  operations); each is interpreted on the definitions of the code.

  \<^bold>\<open>Bounds and fuel.\<close> Loops that the code bounds by data are structural. The walks along the parents of
  an item, and the iterator of a container, are bounded by the size of the heap, which a tree never uses up
  (\<open>holds_everything_once\<close>); a destination is asked at most 16 times as in the code; an addition of an item
  calls itself at most once per unit (256). The path search is bounded by its table of 512 nodes, and
  \<open>path_search_ends\<close> shows that no bound is reached. The loop that fills a prey grid can run for ever;
  it is a partial function over the draws, and \<open>grid_completed\<close> and \<open>prey_reroll_hangs\<close> say when it ends.

  \<^bold>\<open>Not modelled.\<close> What clients are sent and how their packets are parsed (\<open>protocolgame.cpp\<close>), since it has no state of its own; the
  Lua environment and its bindings, the database, sockets, threads of the pool, RSA and the
  configuration, which are glue over libraries; combat formulas in floating point; the behaviour of
  monsters and npcs; the tiles and the sector tree of the map, for which the sight and path theories take an
  argument; the loading and saving of players and map.
\<close>

end
